(* ===== verification/Bimble_Prelude.thy ===== *)
theory Bimble_Prelude
  imports Main "HOL-Library.Word" "HOL-Library.Signed_Division"
begin

unbundle bit_operations_syntax

text \<open>
  The prelude of the development: the machine types of the i686 target (\<open>u8\<close>, \<open>u16\<close>, \<open>u32\<close>,
  and C \<open>int\<close> values as \<open>int\<close> with \<open>c_int\<close> for stores into 32 bits), the constants of
  \<^verbatim>\<open>config.h\<close> and \<^verbatim>\<open>status.h\<close>, the \<open>fault\<close> type with the sequencing operator \<open>bindE\<close>
  (undefined behaviour, null dereferences, panics and endless loops are values), checked array
  access, and the generic lemmas and theorem collections the component theories share.
\<close>

section \<open>Machine types\<close>

type_synonym u8 = "8 word"
type_synonym u16 = "16 word"
type_synonym u32 = "32 word"

text \<open>
  A C \<open>int\<close> is a mathematical \<open>int\<close>; where a computation may leave 32 bits the model stores
  it through \<open>c_int\<close>, the two's complement wrap that the target's code performs.
\<close>

definition c_int :: "int \<Rightarrow> int" where
  "c_int x = signed_take_bit 31 x"

lemma c_int_id [simp]: "- (2 ^ 31) \<le> x \<Longrightarrow> x < 2 ^ 31 \<Longrightarrow> c_int x = x"
  unfolding c_int_def by (rule signed_take_bit_int_eq_self) simp_all

lemma c_int_range: "- (2 ^ 31) \<le> c_int x \<and> c_int x < 2 ^ 31"
  unfolding c_int_def
  using signed_take_bit_int_greater_eq_minus_exp [of 31 x] signed_take_bit_int_less_exp [of 31 x]
  by simp

section \<open>Faults and sequencing\<close>

text \<open>
  What a C function of the kernel can do instead of returning: an access outside an array,
  a dereference of a null pointer or of freed memory, a read of the member of a union that was not
  written or of a variable that was not initialised, an access to a page that is not present, a division
  by zero, a call of \<^verbatim>\<open>panic\<close> (which prints and loops for ever), or a loop that never ends.
\<close>

datatype fault =
  OutOfBounds | NullPointer | UseAfterFree | WrongMember | Uninitialised | PageFault | DivideByZero
  | Panic string | Hang

definition bindE :: "'e + 'a \<Rightarrow> ('a \<Rightarrow> 'e + 'b) \<Rightarrow> 'e + 'b" where
  "bindE m f = (case m of Inl e \<Rightarrow> Inl e | Inr x \<Rightarrow> f x)"

lemma bindE_Inl [simp]: "bindE (Inl e) f = Inl e"
  by (simp add: bindE_def)

lemma bindE_Inr [simp]: "bindE (Inr x) f = f x"
  by (simp add: bindE_def)

lemma bindE_cong [fundef_cong]:
  "m = m' \<Longrightarrow> (\<And>x. m' = Inr x \<Longrightarrow> f x = g x) \<Longrightarrow> bindE m f = bindE m' g"
  by (simp add: bindE_def split: sum.split)

lemma bindE_eq_Inr: "bindE m f = Inr y \<longleftrightarrow> (\<exists>x. m = Inr x \<and> f x = Inr y)"
  by (simp add: bindE_def split: sum.split)

lemma bindE_InrE [elim!]:
  assumes "bindE m f = Inr y"
  obtains x where "m = Inr x" and "f x = Inr y"
  using assms by (auto simp: bindE_eq_Inr)

lemma bindE_assoc: "bindE (bindE m f) g = bindE m (\<lambda>x. bindE (f x) g)"
  by (simp add: bindE_def split: sum.split)

section \<open>Checked array access\<close>

text \<open>A C array object is a list; an access outside it is the fault \<open>OutOfBounds\<close>.\<close>

definition aread :: "'a list \<Rightarrow> nat \<Rightarrow> fault + 'a" where
  "aread xs i = (if i < length xs then Inr (xs ! i) else Inl OutOfBounds)"

definition awrite :: "'a list \<Rightarrow> nat \<Rightarrow> 'a \<Rightarrow> fault + 'a list" where
  "awrite xs i v = (if i < length xs then Inr (xs[i := v]) else Inl OutOfBounds)"

lemma aread_in [simp]: "i < length xs \<Longrightarrow> aread xs i = Inr (xs ! i)"
  by (simp add: aread_def)

lemma aread_out [simp]: "length xs \<le> i \<Longrightarrow> aread xs i = Inl OutOfBounds"
  by (simp add: aread_def)

lemma awrite_in [simp]: "i < length xs \<Longrightarrow> awrite xs i v = Inr (xs[i := v])"
  by (simp add: awrite_def)

lemma awrite_out [simp]: "length xs \<le> i \<Longrightarrow> awrite xs i v = Inl OutOfBounds"
  by (simp add: awrite_def)

lemma aread_eq_Inr: "aread xs i = Inr x \<longleftrightarrow> i < length xs \<and> x = xs ! i"
  by (auto simp: aread_def)

lemma awrite_eq_Inr: "awrite xs i v = Inr ys \<longleftrightarrow> i < length xs \<and> ys = xs[i := v]"
  by (auto simp: awrite_def)

text \<open>
  An index of signed type: a negative value is out of bounds as well.
\<close>

definition areadi :: "'a list \<Rightarrow> int \<Rightarrow> fault + 'a" where
  "areadi xs i = (if 0 \<le> i then aread xs (nat i) else Inl OutOfBounds)"

definition awritei :: "'a list \<Rightarrow> int \<Rightarrow> 'a \<Rightarrow> fault + 'a list" where
  "awritei xs i v = (if 0 \<le> i then awrite xs (nat i) v else Inl OutOfBounds)"

lemma areadi_nat [simp]: "areadi xs (int i) = aread xs i"
  by (simp add: areadi_def)

lemma awritei_nat [simp]: "awritei xs (int i) v = awrite xs i v"
  by (simp add: awritei_def)

lemma areadi_neg [simp]: "i < 0 \<Longrightarrow> areadi xs i = Inl OutOfBounds"
  by (simp add: areadi_def)

lemma awritei_neg [simp]: "i < 0 \<Longrightarrow> awritei xs i v = Inl OutOfBounds"
  by (simp add: awritei_def)

section \<open>Division\<close>

text \<open>\<^verbatim>\<open>/\<close> and \<^verbatim>\<open>%\<close> on C \<open>int\<close>: truncated towards zero, a trap on a zero divisor.\<close>

definition cdiv :: "int \<Rightarrow> int \<Rightarrow> fault + int" where
  "cdiv a b = (if b = 0 then Inl DivideByZero else Inr (a sdiv b))"

definition cmod :: "int \<Rightarrow> int \<Rightarrow> fault + int" where
  "cmod a b = (if b = 0 then Inl DivideByZero else Inr (a smod b))"

text \<open>A message with the newline that ends it.\<close>

definition c_line :: "string \<Rightarrow> string" where
  "c_line s = s @ [CHR 0x0A]"

section \<open>Status codes and configuration\<close>

named_theorems config \<open>the values of the constants of config.h and status.h\<close>

definition BIMBLEOS_ALL_OK :: int where [config]: "BIMBLEOS_ALL_OK = 0"
definition EIO :: int where [config]: "EIO = 1"
definition EINVARG :: int where [config]: "EINVARG = 2"
definition ENOMEM :: int where [config]: "ENOMEM = 3"
definition EBADPATH :: int where [config]: "EBADPATH = 4"
definition EFSNOTUS :: int where [config]: "EFSNOTUS = 5"
definition ERDONLY :: int where [config]: "ERDONLY = 6"
definition EUNIMP :: int where [config]: "EUNIMP = 7"
definition EISTKN :: int where [config]: "EISTKN = 8"
definition EINFORMAT :: int where [config]: "EINFORMAT = 9"

definition KERNAL_CODE_SELECTOR :: u16 where [config]: "KERNAL_CODE_SELECTOR = 0x08"
definition KERNAL_DATA_SELECTOR :: u16 where [config]: "KERNAL_DATA_SELECTOR = 0x10"
definition BIMBLEOS_TOTAL_INTERRUPTS :: nat where [config]: "BIMBLEOS_TOTAL_INTERRUPTS = 256"
definition BIMBLEOS_HEAP_SIZE_BYTES :: nat where [config]: "BIMBLEOS_HEAP_SIZE_BYTES = 104857600"
definition BIMBLEOS_HEAP_BLOCK_SIZE :: nat where [config]: "BIMBLEOS_HEAP_BLOCK_SIZE = 4096"
definition BIMBLEOS_HEAP_ADDRESS :: u32 where [config]: "BIMBLEOS_HEAP_ADDRESS = 0x01000000"
definition BIMBLEOS_SECTOR_SIZE :: int where [config]: "BIMBLEOS_SECTOR_SIZE = 512"
definition BIMBLEOS_MAX_PATH :: nat where [config]: "BIMBLEOS_MAX_PATH = 108"
definition BIMBLEOS_MAX_FILESYSTEMS :: nat where [config]: "BIMBLEOS_MAX_FILESYSTEMS = 12"
definition BIMBLEOS_MAX_FILE_DESCRIPTORS :: nat where
  [config]: "BIMBLEOS_MAX_FILE_DESCRIPTORS = 512"
definition BIMBLEOS_TOTAL_GDT_SEGMENT :: nat where [config]: "BIMBLEOS_TOTAL_GDT_SEGMENT = 6"
definition BIMBLEOS_PROGRAM_VIRTUAL_ADDRESS :: u32 where
  [config]: "BIMBLEOS_PROGRAM_VIRTUAL_ADDRESS = 0x400000"
definition BIMBLEOS_USER_PROGRAM_STACK_SIZE :: u32 where
  [config]: "BIMBLEOS_USER_PROGRAM_STACK_SIZE = 1024 * 16"
definition BIMBLEOS_PROGRAM_VIRTUAL_STACK_ADDRESS_START :: u32 where
  [config]: "BIMBLEOS_PROGRAM_VIRTUAL_STACK_ADDRESS_START = 0x3FF000"
definition BIMBLEOS_PROGRAM_VIRTUAL_STACK_ADDRESS_END :: u32 where
  [config]: "BIMBLEOS_PROGRAM_VIRTUAL_STACK_ADDRESS_END =
     BIMBLEOS_PROGRAM_VIRTUAL_STACK_ADDRESS_START - BIMBLEOS_USER_PROGRAM_STACK_SIZE"
definition USER_CODE_SEGMENT :: u32 where [config]: "USER_CODE_SEGMENT = 0x1B"
definition USER_DATA_SEGMENT :: u32 where [config]: "USER_DATA_SEGMENT = 0x23"
definition BIMBLEOS_MAX_PROGRAM_ALLOCATIONS :: nat where
  [config]: "BIMBLEOS_MAX_PROGRAM_ALLOCATIONS = 1024"
definition BIMBLEOS_MAX_PROCESSES :: nat where [config]: "BIMBLEOS_MAX_PROCESSES = 12"
definition BIMBLEOS_MAX_ISR80H_COMMANDS :: nat where [config]: "BIMBLEOS_MAX_ISR80H_COMMANDS = 1024"
definition BIMBLEOS_KEYBOARD_BUFFER_SIZE :: nat where [config]: "BIMBLEOS_KEYBOARD_BUFFER_SIZE = 1024"

section \<open>Generic lemmas\<close>

lemma nth_update_if: "i < length xs \<Longrightarrow> xs[i := v] ! j = (if i = j then v else xs ! j)"
  by (simp add: nth_list_update)

lemma all_lt_Suc: "(\<forall>j<Suc n. P j) \<longleftrightarrow> (\<forall>j<n. P j) \<and> P n"
  using less_Suc_eq by auto

lemma unat_of_nat_u32 [simp]: "n < 2 ^ 32 \<Longrightarrow> unat (of_nat n :: u32) = n"
  by (simp add: unat_of_nat take_bit_nat_eq_self)

lemma unat_word_of_int_u32 [simp]:
  "0 \<le> i \<Longrightarrow> i < 2 ^ 32 \<Longrightarrow> unat (word_of_int i :: u32) = nat i"
  by (simp add: unat_eq_nat_uint uint_word_of_int take_bit_int_eq_self)

lemma sdiv_nonneg: "0 \<le> a \<Longrightarrow> 0 < b \<Longrightarrow> a sdiv b = a div b" for a b :: int
  by (simp add: signed_divide_int_def sgn_if)

lemma smod_nonneg: "0 \<le> a \<Longrightarrow> 0 < b \<Longrightarrow> a smod b = a mod b" for a b :: int
  by (simp add: signed_modulo_int_def sgn_if)

lemma cdiv_pos [simp]: "0 \<le> a \<Longrightarrow> 0 < b \<Longrightarrow> cdiv a b = Inr (a div b)"
  by (simp add: cdiv_def sdiv_nonneg)

lemma cmod_pos [simp]: "0 \<le> a \<Longrightarrow> 0 < b \<Longrightarrow> cmod a b = Inr (a mod b)"
  by (simp add: cmod_def smod_nonneg)

lemma sint_word_of_int_u32 [simp]:
  "- (2 ^ 31) \<le> i \<Longrightarrow> i < 2 ^ 31 \<Longrightarrow> sint (word_of_int i :: u32) = i"
  by (simp add: sint_sbintrunc' signed_take_bit_int_eq_self)

lemma sint_small_u32: "unat (w :: u32) < 2 ^ 31 \<Longrightarrow> sint w = int (unat w)"
proof -
  assume "unat w < 2 ^ 31"
  then have "int (unat w) < int (2 ^ 31)" by (simp only: of_nat_less_iff)
  then have "uint w < 2 ^ 31" by simp
  then show ?thesis using sint_word_of_int_u32 [of "uint w"] uint_ge_0 [of w] by simp
qed

text \<open>An array with the elements of a range replaced.\<close>

definition overlay :: "nat \<Rightarrow> nat \<Rightarrow> (nat \<Rightarrow> 'a) \<Rightarrow> 'a list \<Rightarrow> 'a list" where
  "overlay s k f xs = map (\<lambda>i. if s \<le> i \<and> i < s + k then f i else xs ! i) [0..<length xs]"

lemma length_overlay [simp]: "length (overlay s k f xs) = length xs"
  by (simp add: overlay_def)

lemma nth_overlay [simp]:
  "i < length xs \<Longrightarrow> overlay s k f xs ! i = (if s \<le> i \<and> i < s + k then f i else xs ! i)"
  by (simp add: overlay_def)

lemma overlay_0 [simp]: "overlay s 0 f xs = xs"
  by (rule nth_equalityI) auto

lemma overlay_step:
  "s + k \<le> length xs \<Longrightarrow> 0 < k \<Longrightarrow> g s = v \<Longrightarrow> (\<And>i. s < i \<Longrightarrow> i < s + k \<Longrightarrow> f i = g i) \<Longrightarrow>
     overlay (Suc s) (k - 1) f (xs[s := v]) = overlay s k g xs"
  by (rule nth_equalityI) (auto simp: nth_list_update Suc_le_eq)

end
