(* ===== verification/CString.thy ===== *)
theory CString
  imports Bimble_Prelude
begin

text \<open>
  The kernel's C library (\<^verbatim>\<open>memory/memory.c\<close>, \<^verbatim>\<open>string/string.c\<close>; the user library under
  \<^verbatim>\<open>programs/stdlib\<close> is modelled on raw memory in \<open>UserMemory\<close>). A pointer into a byte object is the list of the bytes
  from the pointer to the end of the object, so that advancing the pointer drops a byte and a
  function that runs past the end faults with \<open>OutOfBounds\<close>. \<open>char\<close> is signed on the target:
  a comparison of characters reads them with \<open>sint\<close>, a cast to \<open>unsigned char\<close> with \<open>uint\<close>.
\<close>

section \<open>memory.c\<close>

function memset_loop :: "u8 list \<Rightarrow> u8 \<Rightarrow> nat \<Rightarrow> nat \<Rightarrow> fault + u8 list" where
  "memset_loop ptr c i sz =
     (if i < sz then bindE (awrite ptr i c) (\<lambda>ptr'. memset_loop ptr' c (Suc i) sz) else Inr ptr)"
  by pat_completeness auto
termination
  by (relation "measure (\<lambda>(p, c, i, n). n - i)") auto

declare memset_loop.simps [simp del]

definition memset :: "u8 list \<Rightarrow> int \<Rightarrow> nat \<Rightarrow> fault + u8 list" where
  "memset ptr c sz = memset_loop ptr (word_of_int c) 0 sz"

fun memcmp_loop :: "u8 list \<Rightarrow> u8 list \<Rightarrow> nat \<Rightarrow> fault + int" where
  "memcmp_loop s1 s2 0 = Inr 0"
| "memcmp_loop (c1 # s1) (c2 # s2) (Suc count) =
     (if c1 \<noteq> c2 then Inr (if sint c1 < sint c2 then - 1 else 1)
      else memcmp_loop s1 s2 count)"
| "memcmp_loop s1 s2 (Suc count) = Inl OutOfBounds"

definition memcmp :: "u8 list \<Rightarrow> u8 list \<Rightarrow> int \<Rightarrow> fault + int" where
  "memcmp s1 s2 count = memcmp_loop s1 s2 (nat count)"

text \<open>
  \<^verbatim>\<open>while(len--)\<close> with a negative length runs until the counter wraps round to zero, past the
  end of every object.
\<close>

fun memcpy_loop :: "u8 list \<Rightarrow> u8 list \<Rightarrow> nat \<Rightarrow> fault + u8 list" where
  "memcpy_loop d s 0 = Inr d"
| "memcpy_loop (x # d) (y # s) (Suc len) = bindE (memcpy_loop d s len) (\<lambda>r. Inr (y # r))"
| "memcpy_loop d s (Suc len) = Inl OutOfBounds"

definition memcpy :: "u8 list \<Rightarrow> u8 list \<Rightarrow> int \<Rightarrow> fault + u8 list" where
  "memcpy dest src len = (if len < 0 then Inl OutOfBounds else memcpy_loop dest src (nat len))"

section \<open>string.c\<close>

definition tolower :: "u8 \<Rightarrow> u8" where
  "tolower s1 = (if 65 \<le> sint s1 \<and> sint s1 \<le> 90 then s1 + 32 else s1)"

fun strlen :: "u8 list \<Rightarrow> fault + nat" where
  "strlen [] = Inl OutOfBounds"
| "strlen (c # str) = (if c \<noteq> 0 then bindE (strlen str) (\<lambda>len. Inr (Suc len)) else Inr 0)"

fun strnlen_loop :: "u8 list \<Rightarrow> nat \<Rightarrow> fault + nat" where
  "strnlen_loop str 0 = Inr 0"
| "strnlen_loop [] (Suc m) = Inl OutOfBounds"
| "strnlen_loop (c # str) (Suc m) =
     (if c = 0 then Inr 0 else bindE (strnlen_loop str m) (\<lambda>len. Inr (Suc len)))"

text \<open>\<^verbatim>\<open>len < max\<close> compares a \<open>size_t\<close> with an \<open>int\<close>: the bound is read as unsigned.\<close>

definition strnlen :: "u8 list \<Rightarrow> int \<Rightarrow> fault + nat" where
  "strnlen str max_len = strnlen_loop str (unat (word_of_int max_len :: u32))"

definition is_digit :: "u8 \<Rightarrow> bool" where
  "is_digit c \<longleftrightarrow> 48 \<le> sint c \<and> sint c \<le> 57"

definition to_numeric_digit :: "u8 \<Rightarrow> int" where
  "to_numeric_digit c = sint c - 48"

fun istrncmp_loop :: "u8 list \<Rightarrow> u8 list \<Rightarrow> nat \<Rightarrow> fault + int" where
  "istrncmp_loop s1 s2 0 = Inr 0"
| "istrncmp_loop (u1 # s1) (u2 # s2) (Suc n) =
     (if u1 \<noteq> u2 \<and> tolower u1 \<noteq> tolower u2 then Inr (uint u1 - uint u2)
      else if u1 = 0 then Inr 0 else istrncmp_loop s1 s2 n)"
| "istrncmp_loop s1 s2 (Suc n) = Inl OutOfBounds"

definition istrncmp :: "u8 list \<Rightarrow> u8 list \<Rightarrow> int \<Rightarrow> fault + int" where
  "istrncmp s1 s2 n = istrncmp_loop s1 s2 (nat n)"

fun strnlen_terminator_loop :: "u8 list \<Rightarrow> nat \<Rightarrow> u8 \<Rightarrow> fault + int" where
  "strnlen_terminator_loop str 0 t = Inr 0"
| "strnlen_terminator_loop [] (Suc m) t = Inl OutOfBounds"
| "strnlen_terminator_loop (c # str) (Suc m) t =
     (if c = 0 \<or> c = t then Inr 0
      else bindE (strnlen_terminator_loop str m t) (\<lambda>i. Inr (i + 1)))"

definition strnlen_terminator :: "u8 list \<Rightarrow> int \<Rightarrow> u8 \<Rightarrow> fault + int" where
  "strnlen_terminator str max_len t = strnlen_terminator_loop str (nat max_len) t"

text \<open>\<open>strcpy\<close> and \<open>strncpy\<close> return the destination object after the copy.\<close>

fun strcpy :: "u8 list \<Rightarrow> u8 list \<Rightarrow> fault + u8 list" where
  "strcpy dest [] = Inl OutOfBounds"
| "strcpy [] (s # src) = Inl OutOfBounds"
| "strcpy (d # dest) (s # src) =
     (if s \<noteq> 0 then bindE (strcpy dest src) (\<lambda>r. Inr (s # r)) else Inr (0 # dest))"

fun strncmp_loop :: "u8 list \<Rightarrow> u8 list \<Rightarrow> nat \<Rightarrow> fault + int" where
  "strncmp_loop str1 str2 0 = Inr 0"
| "strncmp_loop (u1 # str1) (u2 # str2) (Suc n) =
     (if u1 \<noteq> u2 then Inr (uint u1 - uint u2)
      else if u1 = 0 then Inr 0 else strncmp_loop str1 str2 n)"
| "strncmp_loop str1 str2 (Suc n) = Inl OutOfBounds"

definition strncmp :: "u8 list \<Rightarrow> u8 list \<Rightarrow> int \<Rightarrow> fault + int" where
  "strncmp str1 str2 n = strncmp_loop str1 str2 (nat n)"

fun strncpy_loop :: "u8 list \<Rightarrow> u8 list \<Rightarrow> nat \<Rightarrow> fault + u8 list" where
  "strncpy_loop [] src n = Inl OutOfBounds"
| "strncpy_loop (d # dest) src 0 = Inr (0 # dest)"
| "strncpy_loop (d # dest) [] (Suc n) = Inl OutOfBounds"
| "strncpy_loop (d # dest) (s # src) (Suc n) =
     (if s = 0 then Inr (0 # dest) else bindE (strncpy_loop dest src n) (\<lambda>r. Inr (s # r)))"

definition strncpy :: "u8 list \<Rightarrow> u8 list \<Rightarrow> int \<Rightarrow> fault + u8 list" where
  "strncpy dest src count = strncpy_loop dest src (nat (count - 1))"

section \<open>C strings as lists\<close>

text \<open>
  The string a terminated object holds: its bytes before the first zero byte.
\<close>

definition cstr :: "u8 list \<Rightarrow> u8 list" where
  "cstr bs = takeWhile (\<lambda>c. c \<noteq> 0) bs"

definition terminated :: "u8 list \<Rightarrow> bool" where
  "terminated bs \<longleftrightarrow> 0 \<in> set bs"

lemma cstr_simps [simp]:
  "cstr [] = []" "cstr (0 # bs) = []" "c \<noteq> 0 \<Longrightarrow> cstr (c # bs) = c # cstr bs"
  by (simp_all add: cstr_def)

lemma terminated_simps [simp]:
  "\<not> terminated []" "terminated (0 # bs)" "c \<noteq> 0 \<Longrightarrow> terminated (c # bs) = terminated bs"
  by (auto simp: terminated_def)

lemma cstr_no_zero: "0 \<notin> set (cstr bs)"
  by (auto simp: cstr_def dest: set_takeWhileD)

lemma cstr_append: "0 \<notin> set t \<Longrightarrow> cstr (t @ 0 # r) = t"
  by (induction t) auto

lemma length_cstr_less: "terminated bs \<Longrightarrow> length (cstr bs) < length bs"
  by (induction bs) (auto simp: cstr_def terminated_def)

subsection \<open>memory.c\<close>

lemma memset_loop_ok:
  "sz \<le> length p \<Longrightarrow> i \<le> sz \<Longrightarrow>
     memset_loop p c i sz = Inr (take i p @ replicate (sz - i) c @ drop sz p)"
proof (induction p c i sz rule: memset_loop.induct)
  case (1 p c i sz)
  show ?case
  proof (cases "i < sz")
    case True
    with "1.prems" have "memset_loop p c i sz = memset_loop (p[i := c]) c (Suc i) sz"
      by (subst memset_loop.simps) simp
    also have "\<dots> = Inr (take (Suc i) (p[i := c]) @ replicate (sz - Suc i) c @ drop sz p)"
      using True "1.prems" by (subst "1.IH") auto
    also have "take (Suc i) (p[i := c]) = take i p @ [c]"
      using True "1.prems" by (simp add: take_Suc_conv_app_nth)
    finally show ?thesis
      using True by (simp add: Suc_diff_Suc flip: replicate_Suc)
  next
    case False
    with "1.prems" show ?thesis by (subst memset_loop.simps) simp
  qed
qed

lemma memset_ok: "sz \<le> length p \<Longrightarrow> memset p c sz = Inr (replicate sz (word_of_int c) @ drop sz p)"
  by (simp add: memset_def memset_loop_ok)

lemma memcmp_loop_0_iff:
  "n \<le> length s1 \<Longrightarrow> n \<le> length s2 \<Longrightarrow> memcmp_loop s1 s2 n = Inr 0 \<longleftrightarrow> take n s1 = take n s2"
  by (induction s1 s2 n rule: memcmp_loop.induct) auto

lemma memcpy_loop_ok:
  "n \<le> length d \<Longrightarrow> n \<le> length s \<Longrightarrow> memcpy_loop d s n = Inr (take n s @ drop n d)"
  by (induction d s n rule: memcpy_loop.induct) auto

subsection \<open>string.c\<close>

lemma strlen_terminated: "terminated s \<Longrightarrow> strlen s = Inr (length (cstr s))"
  by (induction s) (auto simp: cstr_def terminated_def)

lemma strlen_unterminated: "\<not> terminated s \<Longrightarrow> strlen s = Inl OutOfBounds"
  by (induction s) (auto simp: terminated_def)

lemma strnlen_loop_ok:
  "terminated s \<or> n \<le> length s \<Longrightarrow> strnlen_loop s n = Inr (min n (length (cstr s)))"
proof (induction s n rule: strnlen_loop.induct)
  case (3 c str m)
  then show ?case by (cases "c = 0") auto
qed auto

lemma strncpy_loop_ok:
  assumes "terminated src" and "min n (length (cstr src)) < length dest"
  shows "strncpy_loop dest src n =
    Inr (take n (cstr src) @ 0 # drop (Suc (min n (length (cstr src)))) dest)"
  using assms
proof (induction dest src n rule: strncpy_loop.induct)
  case (4 d dest s src n)
  then show ?case by (cases "s = 0") auto
qed auto

lemma strncpy_loop_overrun:
  assumes "terminated src" and "length dest \<le> min n (length (cstr src))"
  shows "strncpy_loop dest src n = Inl OutOfBounds"
  using assms
proof (induction dest src n rule: strncpy_loop.induct)
  case (4 d dest s src n)
  then show ?case by (cases "s = 0") auto
qed auto

lemma strcpy_ok:
  assumes "terminated src" and "length (cstr src) < length dest"
  shows "strcpy dest src = Inr (cstr src @ 0 # drop (Suc (length (cstr src))) dest)"
  using assms
proof (induction dest src rule: strcpy.induct)
  case (3 d dest s src)
  then show ?case by (cases "s = 0") auto
qed auto

lemma strcpy_overrun:
  "terminated src \<Longrightarrow> length dest \<le> length (cstr src) \<Longrightarrow> strcpy dest src = Inl OutOfBounds"
proof (induction dest src rule: strcpy.induct)
  case (3 d dest s src)
  then show ?case by (cases "s = 0") auto
qed auto

lemma uint_eq_u8 [simp]: "uint (a :: u8) = uint b \<longleftrightarrow> a = b"
  by (auto intro: word_uint_eqI)

lemma uint_eq_0_u8 [simp]: "uint (a :: u8) = 0 \<longleftrightarrow> a = 0"
  using uint_eq_u8 [of a 0] by simp

lemma strncmp_loop_0_iff:
  assumes "terminated s1" and "terminated s2"
  shows "strncmp_loop s1 s2 n = Inr 0 \<longleftrightarrow> take n (cstr s1) = take n (cstr s2)"
  using assms
proof (induction s1 s2 n rule: strncmp_loop.induct)
  case (2 u1 s1 u2 s2 n)
  then show ?case by (cases "u1 = 0"; cases "u2 = 0") auto
qed auto

lemma tolower_eq_0 [simp]: "tolower c = 0 \<longleftrightarrow> c = 0"
proof -
  have "c = 0" if "tolower c = 0" "65 \<le> sint c"
  proof -
    from that have "c + 32 = 0 \<or> c = 0" by (auto simp: tolower_def split: if_splits)
    moreover have "c + 32 = 0 \<Longrightarrow> c = - 32" by (simp add: eq_neg_iff_add_eq_0)
    ultimately show ?thesis using that(2) by auto
  qed
  then show ?thesis by (auto simp: tolower_def split: if_splits)
qed

lemma istrncmp_loop_0_iff:
  assumes "terminated s1" and "terminated s2"
  shows "istrncmp_loop s1 s2 n = Inr 0 \<longleftrightarrow>
    map tolower (take n (cstr s1)) = map tolower (take n (cstr s2))"
  using assms
proof (induction s1 s2 n rule: istrncmp_loop.induct)
  case (2 u1 s1 u2 s2 n)
  have "tolower 0 = 0" by simp
  moreover have "u1 = 0 \<longleftrightarrow> u2 = 0" if "tolower u1 = tolower u2"
    using that by (metis tolower_eq_0)
  ultimately show ?case using 2 by (cases "u1 = 0"; cases "u2 = 0") auto
qed auto

end
