(* ===== verification/KHeap.thy ===== *)
theory KHeap
  imports CString
begin

text \<open>
  The kernel heap (\<^verbatim>\<open>memory/heap/heap.c\<close>, \<^verbatim>\<open>memory/heap/kheap.c\<close>): a table with one byte per
  4096-byte block, a first-fit search for a run of free blocks, and a free that walks the
  \<open>HAS_NEXT\<close> chain.
\<close>

section \<open>Data\<close>

type_synonym HEAP_BLOCK_TABLE_ENTRY = u8

definition HEAP_BLOCK_TABLE_ENTRY_TAKEN :: u8 where "HEAP_BLOCK_TABLE_ENTRY_TAKEN = 0x01"
definition HEAP_BLOCK_TABLE_ENTRY_FREE :: u8 where "HEAP_BLOCK_TABLE_ENTRY_FREE = 0x00"
definition HEAP_BLOCK_HAS_NEXT :: u8 where "HEAP_BLOCK_HAS_NEXT = 0x80"
definition HEAP_BLOCK_IS_FIRST :: u8 where "HEAP_BLOCK_IS_FIRST = 0x40"

lemmas heap_flags = HEAP_BLOCK_TABLE_ENTRY_TAKEN_def HEAP_BLOCK_TABLE_ENTRY_FREE_def
  HEAP_BLOCK_HAS_NEXT_def HEAP_BLOCK_IS_FIRST_def

record heap_table =
  entries :: "HEAP_BLOCK_TABLE_ENTRY list"
  total_entries :: u32

record heap =
  table :: heap_table
  saddr :: u32

section \<open>Creation\<close>

definition heap_validate_table :: "u32 \<Rightarrow> u32 \<Rightarrow> heap_table \<Rightarrow> int" where
  "heap_validate_table ptr end_ptr tbl =
     (let table_size = sint (end_ptr - ptr);
          total_blocks = table_size sdiv int BIMBLEOS_HEAP_BLOCK_SIZE
      in if word_of_int total_blocks \<noteq> total_entries tbl then - EINVARG else BIMBLEOS_ALL_OK)"

definition heap_validate_alignment :: "u32 \<Rightarrow> bool" where
  "heap_validate_alignment ptr \<longleftrightarrow> ptr mod of_nat BIMBLEOS_HEAP_BLOCK_SIZE = 0"

definition heap_align_value_to_upper :: "u32 \<Rightarrow> u32" where
  "heap_align_value_to_upper sz =
     (if sz mod of_nat BIMBLEOS_HEAP_BLOCK_SIZE = 0 then sz
      else (let sz' = sz - sz mod of_nat BIMBLEOS_HEAP_BLOCK_SIZE
            in sz' + of_nat BIMBLEOS_HEAP_BLOCK_SIZE))"

text \<open>
  The result is the status and the initialised heap. On misaligned bounds the heap is not
  written; on a wrong entry count it is, but the table is not cleared.
\<close>

definition heap_create ::
  "heap \<Rightarrow> u32 \<Rightarrow> u32 \<Rightarrow> heap_table \<Rightarrow> fault + (int \<times> heap)" where
  "heap_create h ptr end_ptr tbl =
     (if \<not> heap_validate_alignment ptr \<or> \<not> heap_validate_alignment end_ptr
      then Inr (- EINVARG, h)
      else
        (let h1 = \<lparr>table = tbl, saddr = ptr\<rparr>;
             res_status = heap_validate_table ptr end_ptr tbl
         in if res_status < 0 then Inr (res_status, h1)
            else bindE (memset (entries tbl) (uint HEAP_BLOCK_TABLE_ENTRY_FREE)
                          (unat (total_entries tbl)))
                   (\<lambda>es. Inr (res_status, h1\<lparr>table := tbl\<lparr>entries := es\<rparr>\<rparr>))))"

section \<open>Allocation\<close>

definition heap_get_entry_type :: "HEAP_BLOCK_TABLE_ENTRY \<Rightarrow> u8" where
  "heap_get_entry_type entry = entry AND 0x0f"

definition heap_block_to_address :: "heap \<Rightarrow> int \<Rightarrow> u32" where
  "heap_block_to_address h block = saddr h + word_of_int (block * int BIMBLEOS_HEAP_BLOCK_SIZE)"

function mark_taken_loop :: "u8 list \<Rightarrow> nat \<Rightarrow> nat \<Rightarrow> fault + u8 list" where
  "mark_taken_loop es i end_block =
     (if i < end_block then
        bindE (aread es i) (\<lambda>e.
        bindE (awrite es i (e OR (HEAP_BLOCK_TABLE_ENTRY_TAKEN OR HEAP_BLOCK_HAS_NEXT))) (\<lambda>es'.
        mark_taken_loop es' (Suc i) end_block))
      else Inr es)"
  by pat_completeness auto
termination
  by (relation "measure (\<lambda>(es, i, n). n - i)") auto

declare mark_taken_loop.simps [simp del]

text \<open>
  \<open>end_block\<close> is a \<open>size_t\<close>: with no block to take it wraps below \<open>start_block\<close>.
\<close>

definition heap_mark_blocks_taken :: "heap \<Rightarrow> int \<Rightarrow> int \<Rightarrow> fault + heap" where
  "heap_mark_blocks_taken h start_block total_blocks =
     (let end_block = unat (word_of_int (start_block + total_blocks - 1) :: u32);
          start = unat (word_of_int start_block :: u32)
      in bindE (awrite (entries (table h)) start HEAP_BLOCK_IS_FIRST) (\<lambda>es1.
         bindE (mark_taken_loop es1 start end_block) (\<lambda>es2.
         bindE (aread es2 end_block) (\<lambda>e.
         bindE (awrite es2 end_block (e OR HEAP_BLOCK_TABLE_ENTRY_TAKEN)) (\<lambda>es3.
         Inr (h\<lparr>table := (table h)\<lparr>entries := es3\<rparr>\<rparr>))))))"

text \<open>
  The search loop of \<^verbatim>\<open>heap_get_start_block\<close>: \<open>i\<close> is the block looked at, \<open>blockCount\<close> the
  length of the run that ends before it and \<open>blockStart\<close> where that run begins (-1: no run).
\<close>

function get_start_loop :: "heap_table \<Rightarrow> u32 \<Rightarrow> nat \<Rightarrow> int \<Rightarrow> int \<Rightarrow> fault + int" where
  "get_start_loop tbl total_blocks i blockCount blockStart =
     (if i < unat (total_entries tbl) then
        bindE (aread (entries tbl) i) (\<lambda>e.
          if heap_get_entry_type e \<noteq> HEAP_BLOCK_TABLE_ENTRY_FREE
          then get_start_loop tbl total_blocks (Suc i) 0 (- 1)
          else
            (let blockStart' = (if blockStart = - 1 then int i else blockStart);
                 blockCount' = blockCount + 1
             in if word_of_int blockCount' = total_blocks then Inr blockStart'
                else get_start_loop tbl total_blocks (Suc i) blockCount' blockStart'))
      else Inr blockStart)"
  by pat_completeness auto
termination
  by (relation "measure (\<lambda>(tbl, n, i, c, s). unat (total_entries tbl) - i)") auto

declare get_start_loop.simps [simp del]

definition heap_get_start_block :: "heap \<Rightarrow> u32 \<Rightarrow> fault + int" where
  "heap_get_start_block h total_blocks =
     bindE (get_start_loop (table h) total_blocks 0 0 (- 1)) (\<lambda>blockStart.
       if blockStart = - 1 then Inr (- ENOMEM) else Inr blockStart)"

definition heap_malloc_blocks :: "heap \<Rightarrow> u32 \<Rightarrow> fault + (u32 \<times> heap)" where
  "heap_malloc_blocks h total_blocks =
     bindE (heap_get_start_block h total_blocks) (\<lambda>start_block.
       if start_block < 0 then Inr (0, h)
       else bindE (heap_mark_blocks_taken h start_block (sint total_blocks)) (\<lambda>h'.
              Inr (heap_block_to_address h start_block, h')))"

definition heap_malloc :: "heap \<Rightarrow> u32 \<Rightarrow> fault + (u32 \<times> heap)" where
  "heap_malloc h total_size =
     (let aligned_size = heap_align_value_to_upper total_size;
          total_blocks = aligned_size div of_nat BIMBLEOS_HEAP_BLOCK_SIZE
      in heap_malloc_blocks h total_blocks)"

section \<open>Deallocation\<close>

definition heap_address_to_block :: "heap \<Rightarrow> u32 \<Rightarrow> int" where
  "heap_address_to_block h address =
     sint (address - saddr h) sdiv int BIMBLEOS_HEAP_BLOCK_SIZE"

function mark_free_loop :: "heap_table \<Rightarrow> nat \<Rightarrow> fault + heap_table" where
  "mark_free_loop tbl i =
     (if i < unat (total_entries tbl) then
        bindE (aread (entries tbl) i) (\<lambda>entry.
        bindE (awrite (entries tbl) i HEAP_BLOCK_TABLE_ENTRY_FREE) (\<lambda>es.
          if entry AND HEAP_BLOCK_HAS_NEXT = 0 then Inr (tbl\<lparr>entries := es\<rparr>)
          else mark_free_loop (tbl\<lparr>entries := es\<rparr>) (Suc i)))
      else Inr tbl)"
  by pat_completeness auto
termination
  by (relation "measure (\<lambda>(tbl, i). unat (total_entries tbl) - i)") auto

declare mark_free_loop.simps [simp del]

definition heap_mark_blocks_free :: "heap \<Rightarrow> int \<Rightarrow> fault + heap" where
  "heap_mark_blocks_free h starting_block =
     bindE (mark_free_loop (table h) (unat (word_of_int starting_block :: u32))) (\<lambda>tbl.
       Inr (h\<lparr>table := tbl\<rparr>))"

definition heap_free :: "heap \<Rightarrow> u32 \<Rightarrow> fault + heap" where
  "heap_free h ptr = heap_mark_blocks_free h (heap_address_to_block h ptr)"

section \<open>The search for free blocks\<close>

text \<open>
  A run of \<open>k\<close> free blocks from \<open>s\<close>, and the first such run. The search loop finds the first
  run when there is one; otherwise it stops at the end of the table with the start of the free
  blocks there, however few they are.
\<close>

definition free_run :: "u8 list \<Rightarrow> nat \<Rightarrow> nat \<Rightarrow> bool" where
  "free_run es s k \<longleftrightarrow> s + k \<le> length es \<and> (\<forall>j<k. heap_get_entry_type (es ! (s + j)) = 0)"

definition first_fit :: "u8 list \<Rightarrow> nat \<Rightarrow> nat \<Rightarrow> bool" where
  "first_fit es k s \<longleftrightarrow> free_run es s k \<and> (\<forall>r < s. \<not> free_run es r k)"

definition trailing_run :: "u8 list \<Rightarrow> nat \<Rightarrow> bool" where
  "trailing_run es s \<longleftrightarrow> s \<le> length es \<and> free_run es s (length es - s) \<and>
     (s = 0 \<or> heap_get_entry_type (es ! (s - 1)) \<noteq> 0)"

text \<open>
  The table array has \<open>total_entries\<close> bytes and describes at most 2 GiB, so that block numbers
  survive the signed pointer difference of \<^verbatim>\<open>heap_address_to_block\<close>.
\<close>

definition table_ok :: "heap_table \<Rightarrow> bool" where
  "table_ok tbl \<longleftrightarrow> length (entries tbl) = unat (total_entries tbl) \<and> length (entries tbl) \<le> 2 ^ 19"

lemma free_run_mono: "free_run es s k \<Longrightarrow> k' \<le> k \<Longrightarrow> free_run es s k'"
  by (auto simp: free_run_def)

lemma free_run_Suc:
  "free_run es s (Suc k) \<longleftrightarrow>
     free_run es s k \<and> s + k < length es \<and> heap_get_entry_type (es ! (s + k)) = 0"
  by (auto simp: free_run_def all_lt_Suc)

lemma no_free_run_over_taken:
  assumes "heap_get_entry_type (es ! i) \<noteq> 0" and "s \<le> i" and "i < s + k"
  shows "\<not> free_run es s k"
proof
  assume "free_run es s k"
  moreover from assms have "i - s < k" and "s + (i - s) = i" by auto
  ultimately show False using assms(1) unfolding free_run_def by metis
qed

lemma first_fit_unique: "first_fit es k s \<Longrightarrow> first_fit es k s' \<Longrightarrow> s = s'"
  by (meson first_fit_def linorder_neqE_nat)

lemma first_fit_exists:
  assumes "free_run es s k" shows "\<exists>r \<le> s. first_fit es k r"
proof -
  let ?m = "LEAST s. free_run es s k"
  have "free_run es ?m k" using assms by (rule LeastI)
  moreover have "\<not> free_run es s' k" if "s' < ?m" for s' using that by (rule not_less_Least)
  moreover have "?m \<le> s" using assms by (rule Least_le)
  ultimately show ?thesis unfolding first_fit_def by blast
qed

text \<open>
  The loop's state \<open>(blockCount, blockStart)\<close> before block \<open>i\<close>, for the run that starts at \<open>s0\<close>.
\<close>

definition run_state :: "u8 list \<Rightarrow> nat \<Rightarrow> nat \<Rightarrow> nat \<Rightarrow> bool" where
  "run_state es k i s0 \<longleftrightarrow> s0 \<le> i \<and> i \<le> length es \<and> free_run es s0 (i - s0) \<and> i - s0 < k \<and>
     (\<forall>r < s0. \<not> free_run es r k) \<and> (s0 = 0 \<or> heap_get_entry_type (es ! (s0 - 1)) \<noteq> 0)"

lemma run_state_start: "0 < k \<Longrightarrow> run_state es k 0 0"
  by (simp add: run_state_def free_run_def)

lemma run_state_taken:
  assumes st: "run_state es k i s0" and i: "i < length es"
    and taken: "heap_get_entry_type (es ! i) \<noteq> 0"
  shows "run_state es k (Suc i) (Suc i)"
proof -
  have none: "\<not> free_run es s' k" if "s' < Suc i" for s'
  proof (cases "s' < s0")
    case True
    with st show ?thesis by (auto simp: run_state_def)
  next
    case False
    with st that have "s' \<le> i" and "i < s' + k" by (auto simp: run_state_def)
    with taken show ?thesis by (rule no_free_run_over_taken)
  qed
  from st have "0 < k" by (simp add: run_state_def)
  with none i taken show ?thesis by (simp add: run_state_def free_run_def)
qed

lemma run_state_free:
  assumes st: "run_state es k i s0" and i: "i < length es"
    and free: "heap_get_entry_type (es ! i) = 0"
  shows "Suc i - s0 = k \<Longrightarrow> first_fit es k s0"
    and "Suc i - s0 \<noteq> k \<Longrightarrow> run_state es k (Suc i) s0"
proof -
  from st have le: "s0 \<le> i" by (simp add: run_state_def)
  have run: "free_run es s0 (Suc i - s0)"
    using st i free le unfolding run_state_def by (simp add: Suc_diff_le free_run_Suc)
  show "Suc i - s0 = k \<Longrightarrow> first_fit es k s0"
    using st run by (auto simp: first_fit_def run_state_def)
  show "Suc i - s0 \<noteq> k \<Longrightarrow> run_state es k (Suc i) s0"
    using st run i by (auto simp: run_state_def)
qed

lemma get_start_loop_result:
  assumes ok: "table_ok tbl" and n: "0 < unat n"
    and st: "run_state (entries tbl) (unat n) i s0"
    and c: "c = int (i - s0)" and b: "b = (if s0 = i then - 1 else int s0)"
  shows "(\<exists>s. first_fit (entries tbl) (unat n) s \<and> get_start_loop tbl n i c b = Inr (int s)) \<or>
    (\<exists>s. (\<forall>s'. \<not> free_run (entries tbl) s' (unat n)) \<and> trailing_run (entries tbl) s \<and>
       get_start_loop tbl n i c b = Inr (if s = length (entries tbl) then - 1 else int s))"
  using st c b
proof (induction "length (entries tbl) - i" arbitrary: i s0 c b)
  case 0
  then have i: "i = length (entries tbl)" by (simp add: run_state_def)
  have "trailing_run (entries tbl) s0" using "0.prems"(1) i by (simp add: run_state_def trailing_run_def)
  moreover have "\<not> free_run (entries tbl) s' (unat n)" for s'
  proof (cases "s' < s0")
    case False
    with "0.prems"(1) i show ?thesis by (auto simp: run_state_def free_run_def)
  qed (use "0.prems"(1) in \<open>auto simp: run_state_def\<close>)
  moreover have "get_start_loop tbl n i c b = Inr b"
    using ok i by (subst get_start_loop.simps) (simp add: table_ok_def)
  ultimately show ?case using "0.prems"(3) i by auto
next
  case (Suc x)
  let ?es = "entries tbl"
  from Suc.hyps(2) have i: "i < length ?es" by simp
  with ok have it: "i < unat (total_entries tbl)" by (simp add: table_ok_def)
  have x: "x = length ?es - Suc i" using Suc.hyps(2) by simp
  show ?case
  proof (cases "heap_get_entry_type (?es ! i) = 0")
    case False
    then have "get_start_loop tbl n i c b = get_start_loop tbl n (Suc i) 0 (- 1)"
      using i it by (subst get_start_loop.simps) (simp add: heap_flags)
    with Suc.hyps(1) [OF x run_state_taken [OF Suc.prems(1) i False]] show ?thesis by simp
  next
    case True
    from Suc.prems(1) have le: "s0 \<le> i" by (simp add: run_state_def)
    have b': "(if b = - 1 then int i else b) = int s0" and c': "c + 1 = int (Suc i - s0)"
      using Suc.prems(2,3) le by (auto simp: Suc_diff_le)
    have small: "Suc i - s0 < 2 ^ 32" using ok i by (auto simp: table_ok_def)
    have eq: "(of_nat (Suc i - s0) :: u32) = n \<longleftrightarrow> Suc i - s0 = unat n"
      using small by (auto simp: word_unat_eq_iff unat_of_nat take_bit_nat_eq_self)
    have step: "get_start_loop tbl n i c b =
        (if Suc i - s0 = unat n then Inr (int s0) else get_start_loop tbl n (Suc i) (int (Suc i - s0)) (int s0))"
      using i it True b' c' by (subst get_start_loop.simps) (simp add: heap_flags Let_def eq del: of_nat_diff)
    show ?thesis
    proof (cases "Suc i - s0 = unat n")
      case True': True
      with run_state_free(1) [OF Suc.prems(1) i True] step show ?thesis by auto
    next
      case False
      with Suc.hyps(1) [OF x run_state_free(2) [OF Suc.prems(1) i True False] refl refl] step le
      show ?thesis by (simp add: Suc_diff_le)
    qed
  qed
qed

lemma heap_get_start_block_fit:
  assumes "table_ok (table h)" and "0 < unat n" and "first_fit (entries (table h)) (unat n) s"
  shows "heap_get_start_block h n = Inr (int s)"
proof -
  have "\<exists>s. free_run (entries (table h)) s (unat n)"
    using assms(3) by (auto simp: first_fit_def)
  with get_start_loop_result [OF assms(1,2) run_state_start [OF assms(2)], of 0 "- 1"]
  obtain r where "first_fit (entries (table h)) (unat n) r"
    and "get_start_loop (table h) n 0 0 (- 1) = Inr (int r)"
    by auto
  then show ?thesis
    using first_fit_unique [OF _ assms(3)] by (auto simp: heap_get_start_block_def)
qed

lemma heap_get_start_block_no_fit:
  assumes "table_ok (table h)" and "0 < unat n"
    and "\<And>s. \<not> free_run (entries (table h)) s (unat n)"
  shows "\<exists>s. trailing_run (entries (table h)) s \<and>
    heap_get_start_block h n = Inr (if s = length (entries (table h)) then - ENOMEM else int s)"
  using get_start_loop_result [OF assms(1,2) run_state_start [OF assms(2)], of 0 "- 1"] assms(3)
  by (auto simp: heap_get_start_block_def first_fit_def split: if_splits)

section \<open>Live allocations\<close>

text \<open>
  The abstract state of the heap is the map from the first block of a live allocation to its
  number of blocks. \<open>heap_rep es A\<close>: the table \<open>es\<close> represents \<open>A\<close>: the allocations lie in the
  table and do not overlap, each of their blocks has the tag the code writes, and every other
  block is free (zero).
\<close>

type_synonym live = "nat \<Rightarrow> nat option"

definition covers :: "live \<Rightarrow> nat \<Rightarrow> nat \<Rightarrow> nat \<Rightarrow> bool" where
  "covers A s k i \<longleftrightarrow> A s = Some k \<and> s \<le> i \<and> i < s + k"

definition block_tag :: "nat \<Rightarrow> nat \<Rightarrow> nat \<Rightarrow> u8" where
  "block_tag s k i =
     (if i = s then HEAP_BLOCK_IS_FIRST else 0) OR HEAP_BLOCK_TABLE_ENTRY_TAKEN OR
     (if Suc i < s + k then HEAP_BLOCK_HAS_NEXT else 0)"

definition heap_rep :: "u8 list \<Rightarrow> live \<Rightarrow> bool" where
  "heap_rep es A \<longleftrightarrow>
     (\<forall>s k. A s = Some k \<longrightarrow> 0 < k \<and> s + k \<le> length es) \<and>
     (\<forall>s k s' k' i. covers A s k i \<longrightarrow> covers A s' k' i \<longrightarrow> s = s') \<and>
     (\<forall>i < length es. \<forall>s k. covers A s k i \<longrightarrow> es ! i = block_tag s k i) \<and>
     (\<forall>i < length es. (\<forall>s k. \<not> covers A s k i) \<longrightarrow> es ! i = 0)"

definition heap_inv :: "heap \<Rightarrow> live \<Rightarrow> bool" where
  "heap_inv h A \<longleftrightarrow> table_ok (table h) \<and> heap_rep (entries (table h)) A"

lemma block_tag_taken [simp]: "heap_get_entry_type (block_tag s k i) \<noteq> 0"
  by (simp add: block_tag_def heap_flags heap_get_entry_type_def)

lemma block_tag_has_next:
  "block_tag s k i AND HEAP_BLOCK_HAS_NEXT = 0 \<longleftrightarrow> s + k \<le> Suc i"
  by (simp add: block_tag_def heap_flags)

lemma heap_rep_bounds: "heap_rep es A \<Longrightarrow> A s = Some k \<Longrightarrow> 0 < k \<and> s + k \<le> length es"
  by (simp add: heap_rep_def)

lemma heap_rep_covers_unique:
  "heap_rep es A \<Longrightarrow> covers A s k i \<Longrightarrow> covers A s' k' i \<Longrightarrow> s = s' \<and> k = k'"
  unfolding heap_rep_def covers_def by (metis option.inject)

lemma heap_rep_tag: "heap_rep es A \<Longrightarrow> covers A s k i \<Longrightarrow> es ! i = block_tag s k i"
proof -
  assume rep: "heap_rep es A" and cov: "covers A s k i"
  then have "i < length es" using heap_rep_bounds [OF rep, of s k] by (auto simp: covers_def)
  with rep cov show ?thesis by (simp add: heap_rep_def)
qed

lemma heap_rep_zero: "heap_rep es A \<Longrightarrow> i < length es \<Longrightarrow> (\<And>s k. \<not> covers A s k i) \<Longrightarrow> es ! i = 0"
  by (simp add: heap_rep_def)

lemma heap_rep_type:
  assumes "heap_rep es A" and "i < length es"
  shows "heap_get_entry_type (es ! i) = 0 \<longleftrightarrow> (\<forall>s k. \<not> covers A s k i)"
proof -
  have "heap_get_entry_type 0 = 0" by (simp add: heap_get_entry_type_def)
  then show ?thesis
    using heap_rep_tag [OF assms(1)] heap_rep_zero [OF assms] block_tag_taken by metis
qed

lemma heap_rep_functional:
  assumes "heap_rep es A" and "heap_rep es' A" and "length es = length es'"
  shows "es = es'"
proof (rule nth_equalityI [OF assms(3)])
  fix i assume i: "i < length es"
  show "es ! i = es' ! i"
  proof (cases "\<exists>s k. covers A s k i")
    case True
    with heap_rep_tag [OF assms(1)] heap_rep_tag [OF assms(2)] show ?thesis by metis
  next
    case False
    with heap_rep_zero [OF assms(1)] heap_rep_zero [OF assms(2)] i assms(3) show ?thesis by simp
  qed
qed

lemma heap_rep_empty: "heap_rep (replicate n 0) Map.empty"
  by (simp add: heap_rep_def covers_def)

lemma free_run_rep:
  assumes "heap_rep es A"
  shows "free_run es s k \<longleftrightarrow> s + k \<le> length es \<and> (\<forall>i s' k'. s \<le> i \<and> i < s + k \<longrightarrow> \<not> covers A s' k' i)"
  (is "?l \<longleftrightarrow> ?r")
proof
  assume l: ?l
  show ?r
  proof (intro conjI allI impI)
    show "s + k \<le> length es" using l by (simp add: free_run_def)
    fix i s' k' assume "s \<le> i \<and> i < s + k"
    moreover then have "heap_get_entry_type (es ! (s + (i - s))) = 0"
      using l unfolding free_run_def by (metis less_diff_conv2 add.commute)
    ultimately show "\<not> covers A s' k' i"
      using heap_rep_type [OF assms, of i] l by (simp add: free_run_def)
  qed
next
  assume r: ?r
  then show ?l using heap_rep_type [OF assms] by (auto simp: free_run_def)
qed

subsection \<open>Taking blocks\<close>

lemma mark_taken_loop_ok:
  "i + k \<le> length es \<Longrightarrow> mark_taken_loop es i (i + k) =
    Inr (overlay i k (\<lambda>j. es ! j OR (HEAP_BLOCK_TABLE_ENTRY_TAKEN OR HEAP_BLOCK_HAS_NEXT)) es)"
proof (induction k arbitrary: es i)
  case 0
  then show ?case by (subst mark_taken_loop.simps) simp
next
  case (Suc k)
  let ?v = "es ! i OR (HEAP_BLOCK_TABLE_ENTRY_TAKEN OR HEAP_BLOCK_HAS_NEXT)"
  have "mark_taken_loop es i (i + Suc k) = mark_taken_loop (es[i := ?v]) (Suc i) (Suc i + k)"
    using Suc.prems by (subst mark_taken_loop.simps) simp
  also have "\<dots> = Inr (overlay (Suc i) (Suc k - 1)
      (\<lambda>j. es[i := ?v] ! j OR (HEAP_BLOCK_TABLE_ENTRY_TAKEN OR HEAP_BLOCK_HAS_NEXT)) (es[i := ?v]))"
    using Suc.prems by (subst Suc.IH) simp_all
  finally show ?case using Suc.prems by (subst (asm) overlay_step) auto
qed

lemma heap_mark_blocks_taken_ok:
  assumes run: "s + k \<le> length (entries (table h))" and k: "0 < k"
    and zero: "\<And>i. s \<le> i \<Longrightarrow> i < s + k \<Longrightarrow> entries (table h) ! i = 0"
    and small: "length (entries (table h)) < 2 ^ 31"
  shows "heap_mark_blocks_taken h (int s) (int k) =
    Inr (h\<lparr>table := (table h)\<lparr>entries := overlay s k (block_tag s k) (entries (table h))\<rparr>\<rparr>)"
proof -
  let ?es = "entries (table h)" let ?or = "HEAP_BLOCK_TABLE_ENTRY_TAKEN OR HEAP_BLOCK_HAS_NEXT"
  let ?es1 = "?es[s := HEAP_BLOCK_IS_FIRST]"
  let ?es2 = "overlay s (k - 1) (\<lambda>j. ?es1 ! j OR ?or) ?es1"
  have end_block: "unat (word_of_int (int s + int k - 1) :: u32) = s + (k - 1)"
    using run k small by (subst unat_word_of_int_u32) auto
  have start: "unat (word_of_int (int s) :: u32) = s"
    using run k small by (subst unat_word_of_int_u32) auto
  have lt: "s < length ?es" "s + (k - 1) < length ?es" using run k by auto
  have tags: "?es2[s + (k - 1) := ?es2 ! (s + (k - 1)) OR HEAP_BLOCK_TABLE_ENTRY_TAKEN] =
      overlay s k (block_tag s k) ?es"
    using lt k zero by (intro nth_equalityI) (auto simp: nth_list_update block_tag_def or.assoc)
  have "mark_taken_loop ?es1 s (s + (k - 1)) = Inr ?es2"
    using lt by (intro mark_taken_loop_ok) simp
  then show ?thesis
    unfolding heap_mark_blocks_taken_def Let_def end_block start
    using lt tags by simp
qed

lemma heap_rep_take:
  assumes rep: "heap_rep es A" and run: "free_run es s k" and k: "0 < k"
  shows "heap_rep (overlay s k (block_tag s k) es) (A(s \<mapsto> k))"
proof -
  let ?A = "A(s \<mapsto> k)"
  have le: "s + k \<le> length es" using run by (simp add: free_run_def)
  have fresh: "\<not> covers A s' k' i" if "s \<le> i" "i < s + k" for i s' k'
    using that run by (auto simp: free_run_rep [OF rep])
  have old: "s' \<noteq> s" if "A s' = Some k'" for s' k'
    using fresh [of s s' k'] heap_rep_bounds [OF rep that] that k by (auto simp: covers_def)
  have cov: "covers ?A s' k' i \<longleftrightarrow> (s' = s \<and> k' = k \<and> s \<le> i \<and> i < s + k) \<or> covers A s' k' i" for s' k' i
    using old by (auto simp: covers_def)
  have "0 < k' \<and> s' + k' \<le> length es" if "?A s' = Some k'" for s' k'
    using that k le heap_rep_bounds [OF rep, of s' k'] by (auto split: if_splits)
  moreover have "s1 = s2" if "covers ?A s1 k1 i" "covers ?A s2 k2 i" for s1 k1 s2 k2 i
    using that fresh heap_rep_covers_unique [OF rep] by (auto simp: cov)
  moreover have "overlay s k (block_tag s k) es ! i = block_tag s' k' i"
    if "i < length es" "covers ?A s' k' i" for i s' k'
    using that fresh heap_rep_tag [OF rep] by (auto simp: cov)
  moreover have "overlay s k (block_tag s k) es ! i = 0"
    if "i < length es" "\<forall>s' k'. \<not> covers ?A s' k' i" for i
    using that heap_rep_zero [OF rep, of i] by (auto simp: cov)
  ultimately show ?thesis unfolding heap_rep_def length_overlay by blast
qed

lemma heap_malloc_blocks_ok:
  assumes inv: "heap_inv h A" and n: "0 < unat n"
    and fit: "first_fit (entries (table h)) (unat n) s"
  shows "\<exists>h'. heap_malloc_blocks h n = Inr (heap_block_to_address h (int s), h') \<and>
    heap_inv h' (A(s \<mapsto> unat n)) \<and> saddr h' = saddr h \<and>
    total_entries (table h') = total_entries (table h)"
proof -
  let ?es = "entries (table h)"
  from inv have ok: "table_ok (table h)" and rep: "heap_rep ?es A" by (simp_all add: heap_inv_def)
  from fit have run: "free_run ?es s (unat n)" by (simp add: first_fit_def)
  then have le: "s + unat n \<le> length ?es" by (simp add: free_run_def)
  have small: "length ?es < 2 ^ 31" using ok by (simp add: table_ok_def)
  have zero: "?es ! i = 0" if "s \<le> i" "i < s + unat n" for i
    using run that le by (intro heap_rep_zero [OF rep]) (auto simp: free_run_rep [OF rep])
  have n_int: "sint n = int (unat n)"
    using le small by (intro sint_small_u32) simp
  have mark: "heap_mark_blocks_taken h (int s) (sint n) =
      Inr (h\<lparr>table := (table h)\<lparr>entries := overlay s (unat n) (block_tag s (unat n)) ?es\<rparr>\<rparr>)"
    unfolding n_int by (rule heap_mark_blocks_taken_ok [OF le n zero small])
  show ?thesis
    using heap_rep_take [OF rep run n] ok
    by (simp add: heap_malloc_blocks_def heap_get_start_block_fit [OF ok n fit] mark
        heap_inv_def table_ok_def)
qed

subsection \<open>Freeing blocks\<close>

lemma mark_free_loop_ok:
  assumes "length (entries tbl) = unat (total_entries tbl)" and "i + Suc k \<le> length (entries tbl)"
    and "\<And>j. i \<le> j \<Longrightarrow> j \<le> i + k \<Longrightarrow> entries tbl ! j AND HEAP_BLOCK_HAS_NEXT = 0 \<longleftrightarrow> j = i + k"
  shows "mark_free_loop tbl i = Inr (tbl\<lparr>entries := overlay i (Suc k) (\<lambda>_. 0) (entries tbl)\<rparr>)"
  using assms
proof (induction k arbitrary: tbl i)
  case 0
  then have "mark_free_loop tbl i = Inr (tbl\<lparr>entries := (entries tbl)[i := 0]\<rparr>)"
    by (subst mark_free_loop.simps) (simp add: heap_flags(2))
  moreover have "(entries tbl)[i := 0] = overlay i (Suc 0) (\<lambda>_. 0) (entries tbl)"
    using "0.prems"(2) by (intro nth_equalityI) (auto simp: nth_list_update)
  ultimately show ?case by simp
next
  case (Suc k)
  let ?tbl = "tbl\<lparr>entries := (entries tbl)[i := 0]\<rparr>"
  have "mark_free_loop tbl i = mark_free_loop ?tbl (Suc i)"
    using Suc.prems by (subst mark_free_loop.simps) (auto simp: heap_flags(2))
  also have "\<dots> = Inr (?tbl\<lparr>entries := overlay (Suc i) (Suc (Suc k) - 1) (\<lambda>_. 0) ((entries tbl)[i := 0])\<rparr>)"
    using Suc.prems by (subst Suc.IH) (auto simp: nth_list_update)
  finally show ?case using Suc.prems(2) by (subst (asm) overlay_step) auto
qed

lemma heap_rep_release:
  assumes rep: "heap_rep es A" and live: "A s = Some k"
  shows "heap_rep (overlay s k (\<lambda>_. 0) es) (A(s := None))"
proof -
  let ?A = "A(s := None)"
  have cov: "covers ?A s' k' i \<longleftrightarrow> covers A s' k' i \<and> s' \<noteq> s" for s' k' i
    by (auto simp: covers_def)
  have mine: "covers A s k i \<longleftrightarrow> s \<le> i \<and> i < s + k" for i using live by (simp add: covers_def)
  have uniq: "s' = s" if "covers A s' k' i" "s \<le> i" "i < s + k" for s' k' i
    using heap_rep_covers_unique [OF rep that(1), of s k] that by (simp add: mine)
  have "0 < k' \<and> s' + k' \<le> length es" if "?A s' = Some k'" for s' k'
    using that heap_rep_bounds [OF rep, of s' k'] by (auto split: if_splits)
  moreover have "s1 = s2" if "covers ?A s1 k1 i" "covers ?A s2 k2 i" for s1 k1 s2 k2 i
    using that heap_rep_covers_unique [OF rep] by (auto simp: cov)
  moreover have "overlay s k (\<lambda>_. 0) es ! i = block_tag s' k' i"
    if "i < length es" "covers ?A s' k' i" for i s' k'
    using that uniq heap_rep_tag [OF rep] by (auto simp: cov)
  moreover have "overlay s k (\<lambda>_. 0) es ! i = 0"
    if "i < length es" "\<forall>s' k'. \<not> covers ?A s' k' i" for i
  proof (cases "s \<le> i \<and> i < s + k")
    case False
    have "\<not> covers A s' k' i" for s' k'
      using that(2) False mine live unfolding cov by (auto simp: covers_def)
    with False that(1) show ?thesis using heap_rep_zero [OF rep that(1)] by simp
  qed (use that in simp)
  ultimately show ?thesis unfolding heap_rep_def length_overlay by blast
qed

lemma heap_address_block_roundtrip:
  assumes "s < 2 ^ 19"
  shows "heap_address_to_block h (heap_block_to_address h (int s)) = int s"
proof -
  have "int s < 2 ^ 19" using assms by simp
  then have "sint (word_of_int (int s * 4096) :: u32) = int s * 4096"
    by (subst sint_word_of_int_u32) auto
  then show ?thesis
    by (simp add: heap_address_to_block_def heap_block_to_address_def config sdiv_nonneg)
qed

lemma heap_free_ok:
  assumes inv: "heap_inv h A" and live: "A s = Some k"
  shows "\<exists>h'. heap_free h (heap_block_to_address h (int s)) = Inr h' \<and> heap_inv h' (A(s := None)) \<and>
    saddr h' = saddr h \<and> total_entries (table h') = total_entries (table h)"
proof -
  let ?es = "entries (table h)"
  from inv have ok: "table_ok (table h)" and rep: "heap_rep ?es A" by (simp_all add: heap_inv_def)
  from heap_rep_bounds [OF rep live] have k: "0 < k" and le: "s + k \<le> length ?es" by auto
  then have s: "s < 2 ^ 19" using ok by (simp add: table_ok_def)
  have next_iff: "?es ! j AND HEAP_BLOCK_HAS_NEXT = 0 \<longleftrightarrow> j = s + (k - 1)"
    if "s \<le> j" "j \<le> s + (k - 1)" for j
    using that k live heap_rep_tag [OF rep, of s k j]
    by (auto simp: covers_def block_tag_has_next)
  have "mark_free_loop (table h) s =
      Inr ((table h)\<lparr>entries := overlay s (Suc (k - 1)) (\<lambda>_. 0) ?es\<rparr>)"
    using ok le k next_iff by (intro mark_free_loop_ok) (auto simp: table_ok_def)
  then show ?thesis
    using heap_rep_release [OF rep live] k s ok
    by (simp add: heap_free_def heap_mark_blocks_free_def heap_address_block_roundtrip
        heap_inv_def table_ok_def)
qed

section \<open>The allocator interface\<close>

text \<open>
  What the rest of the kernel relies on: the live allocations lie in the heap and are pairwise
  disjoint, a request for which there is room gets blocks that no live allocation has, a release
  forgets exactly the allocation it names, and the state is determined by the live allocations
  and the geometry of the heap.
\<close>

locale block_allocator =
  fixes inv :: "'h \<Rightarrow> live \<Rightarrow> bool"
    and geom :: "'h \<Rightarrow> 'g"
    and blocks :: "'g \<Rightarrow> nat"
    and addr :: "'g \<Rightarrow> nat \<Rightarrow> u32"
    and alloc :: "'h \<Rightarrow> nat \<Rightarrow> fault + (u32 \<times> 'h)"
    and release :: "'h \<Rightarrow> u32 \<Rightarrow> fault + 'h"
  assumes live_bounds: "inv h A \<Longrightarrow> A s = Some k \<Longrightarrow> 0 < k \<and> s + k \<le> blocks (geom h)"
    and live_disjoint: "inv h A \<Longrightarrow> covers A s k i \<Longrightarrow> covers A s' k' i \<Longrightarrow> s = s'"
    and alloc_room: "inv h A \<Longrightarrow> 0 < k \<Longrightarrow> s + k \<le> blocks (geom h) \<Longrightarrow>
      (\<And>i s' k'. s \<le> i \<Longrightarrow> i < s + k \<Longrightarrow> \<not> covers A s' k' i) \<Longrightarrow>
      \<exists>r h'. r \<le> s \<and> alloc h k = Inr (addr (geom h) r, h') \<and> inv h' (A(r \<mapsto> k)) \<and>
        geom h' = geom h \<and> (\<forall>i s' k'. r \<le> i \<and> i < r + k \<longrightarrow> \<not> covers A s' k' i)"
    and release_live: "inv h A \<Longrightarrow> A s = Some k \<Longrightarrow>
      \<exists>h'. release h (addr (geom h) s) = Inr h' \<and> inv h' (A(s := None)) \<and> geom h' = geom h"
    and inv_functional: "inv h A \<Longrightarrow> inv h' A \<Longrightarrow> geom h = geom h' \<Longrightarrow> h = h'"
begin

definition used :: "live \<Rightarrow> nat set" where
  "used A = {i. \<exists>s k. covers A s k i}"

lemma used_bounds: "inv h A \<Longrightarrow> used A \<subseteq> {..<blocks (geom h)}"
  using live_bounds by (fastforce simp: used_def covers_def)

lemma finite_used: "inv h A \<Longrightarrow> finite (used A)"
  using used_bounds finite_subset by blast

lemma fresh_not_live:
  assumes "inv h A" and "0 < k" and "\<forall>i s' k'. r \<le> i \<and> i < r + k \<longrightarrow> \<not> covers A s' k' i"
  shows "A r = None"
proof (cases "A r")
  case (Some k')
  then have "covers A r k' r" using live_bounds [OF assms(1)] by (auto simp: covers_def)
  with assms(2,3) show ?thesis by auto
qed

lemma used_upd:
  assumes "A r = None" shows "used (A(r \<mapsto> k)) = used A \<union> {r..<r + k}"
  using assms by (fastforce simp: used_def covers_def split: if_splits)

text \<open>Releasing what was just allocated restores the state.\<close>

lemma alloc_release_id:
  assumes inv: "inv h A" and k: "0 < k" and room: "s + k \<le> blocks (geom h)"
    and free: "\<And>i s' k'. s \<le> i \<Longrightarrow> i < s + k \<Longrightarrow> \<not> covers A s' k' i"
  shows "\<exists>p h'. alloc h k = Inr (p, h') \<and> release h' p = Inr h"
proof -
  from alloc_room [OF inv k room free] obtain r h' where
    a: "alloc h k = Inr (addr (geom h) r, h')" "inv h' (A(r \<mapsto> k))" "geom h' = geom h"
    and fresh: "\<forall>i s' k'. r \<le> i \<and> i < r + k \<longrightarrow> \<not> covers A s' k' i" by blast
  from release_live [OF a(2), of r k] a(3) obtain h'' where
    r: "release h' (addr (geom h) r) = Inr h''" "inv h'' ((A(r \<mapsto> k))(r := None))" "geom h'' = geom h"
    by auto
  have "(A(r \<mapsto> k))(r := None) = A" using fresh_not_live [OF inv k fresh] by auto
  with r(2,3) inv_functional [OF _ inv] have "h'' = h" by metis
  with a(1) r(1) show ?thesis by blast
qed

text \<open>Releases of two allocations commute.\<close>

lemma release_commute:
  assumes inv: "inv h A" and s: "A s = Some k" and t: "A t = Some l" and ne: "s \<noteq> t"
  shows "bindE (release h (addr (geom h) s)) (\<lambda>h'. release h' (addr (geom h) t)) =
         bindE (release h (addr (geom h) t)) (\<lambda>h'. release h' (addr (geom h) s))"
proof -
  obtain h1 where h1: "release h (addr (geom h) s) = Inr h1" "inv h1 (A(s := None))" "geom h1 = geom h"
    using release_live [OF inv s] by blast
  obtain h2 where h2: "release h (addr (geom h) t) = Inr h2" "inv h2 (A(t := None))" "geom h2 = geom h"
    using release_live [OF inv t] by blast
  obtain h3 where h3: "release h1 (addr (geom h) t) = Inr h3" "inv h3 ((A(s := None))(t := None))"
    "geom h3 = geom h" using release_live [OF h1(2), of t l] t ne h1(3) by auto
  obtain h4 where h4: "release h2 (addr (geom h) s) = Inr h4" "inv h4 ((A(t := None))(s := None))"
    "geom h4 = geom h" using release_live [OF h2(2), of s k] s ne h2(3) by auto
  have "(A(s := None))(t := None) = (A(t := None))(s := None)" using ne by (simp add: fun_upd_twist)
  with h3 h4 have "h3 = h4" using inv_functional by metis
  with h1(1) h2(1) h3(1) h4(1) show ?thesis by simp
qed

text \<open>A one-block request succeeds as long as some block is unused.\<close>

lemma alloc_one:
  assumes inv: "inv h A" and room: "card (used A) < blocks (geom h)"
  shows "\<exists>r h'. alloc h 1 = Inr (addr (geom h) r, h') \<and> inv h' (A(r \<mapsto> 1)) \<and> geom h' = geom h \<and>
    r < blocks (geom h) \<and> r \<notin> used A \<and> used (A(r \<mapsto> 1)) = insert r (used A) \<and> A r = None"
proof -
  have "\<exists>s < blocks (geom h). s \<notin> used A"
  proof (rule ccontr)
    assume "\<not> ?thesis"
    then have "{..<blocks (geom h)} \<subseteq> used A" by auto
    from card_mono [OF finite_used [OF inv] this] have "blocks (geom h) \<le> card (used A)" by simp
    with room show False by simp
  qed
  then obtain s where s: "s < blocks (geom h)" "s \<notin> used A" by blast
  then have "\<exists>r h'. r \<le> s \<and> alloc h 1 = Inr (addr (geom h) r, h') \<and> inv h' (A(r \<mapsto> 1)) \<and>
      geom h' = geom h \<and> (\<forall>i s' k'. r \<le> i \<and> i < r + 1 \<longrightarrow> \<not> covers A s' k' i)"
    by (intro alloc_room [OF inv]) (auto simp: used_def less_Suc_eq)
  then obtain r h' where r: "r \<le> s" "alloc h 1 = Inr (addr (geom h) r, h')" "inv h' (A(r \<mapsto> 1))"
    "geom h' = geom h" and fresh: "\<forall>i s' k'. r \<le> i \<and> i < r + 1 \<longrightarrow> \<not> covers A s' k' i" by blast
  have none: "A r = None" using fresh_not_live [OF inv _ fresh] by simp
  have "r \<notin> used A" using fresh by (auto simp: used_def)
  moreover have "used (A(r \<mapsto> 1)) = insert r (used A)" using used_upd [where A = A and r = r and k = 1] none by auto
  ultimately show ?thesis using r s none by auto
qed

end

text \<open>The kernel's heap provides it, with the address arithmetic of \<^verbatim>\<open>heap_block_to_address\<close>.\<close>

definition heap_geom :: "heap \<Rightarrow> u32 \<times> u32" where
  "heap_geom h = (saddr h, total_entries (table h))"

definition geom_addr :: "u32 \<times> u32 \<Rightarrow> nat \<Rightarrow> u32" where
  "geom_addr g s = fst g + word_of_int (int s * int BIMBLEOS_HEAP_BLOCK_SIZE)"

lemma geom_addr_eq: "geom_addr (heap_geom h) s = heap_block_to_address h (int s)"
  by (simp add: geom_addr_def heap_geom_def heap_block_to_address_def)

lemma heap_alloc_room:
  assumes inv: "heap_inv h A" and k: "0 < k" and room: "s + k \<le> unat (total_entries (table h))"
    and free: "\<And>i s' k'. s \<le> i \<Longrightarrow> i < s + k \<Longrightarrow> \<not> covers A s' k' i"
  shows "\<exists>r h'. r \<le> s \<and> heap_malloc_blocks h (of_nat k) = Inr (heap_block_to_address h (int r), h') \<and>
    heap_inv h' (A(r \<mapsto> k)) \<and> heap_geom h' = heap_geom h \<and>
    (\<forall>i s' k'. r \<le> i \<and> i < r + k \<longrightarrow> \<not> covers A s' k' i)"
proof -
  let ?es = "entries (table h)"
  have ok: "table_ok (table h)" and rep: "heap_rep ?es A" using inv by (simp_all add: heap_inv_def)
  then have "free_run ?es s k" using room free by (auto simp: free_run_rep [OF rep] table_ok_def)
  then obtain r where r: "r \<le> s" and fit: "first_fit ?es k r" using first_fit_exists by blast
  have "k < 2 ^ 32" using room ok by (simp add: table_ok_def)
  then have n: "unat (of_nat k :: u32) = k" by simp
  have fresh: "\<forall>i s' k'. r \<le> i \<and> i < r + k \<longrightarrow> \<not> covers A s' k' i"
    using fit by (simp add: first_fit_def free_run_rep [OF rep])
  from heap_malloc_blocks_ok [OF inv, of "of_nat k" r] n k fit
  show ?thesis using r fresh by (auto simp: heap_geom_def)
qed

lemma heap_inv_functional:
  assumes "heap_inv h A" and "heap_inv h' A" and "heap_geom h = heap_geom h'"
  shows "h = h'"
proof -
  have "entries (table h) = entries (table h')"
    using assms by (intro heap_rep_functional) (auto simp: heap_inv_def table_ok_def heap_geom_def)
  with assms(3) show ?thesis by (auto simp: heap_geom_def intro!: heap.equality heap_table.equality)
qed

interpretation kh: block_allocator heap_inv heap_geom "\<lambda>g. unat (snd g)" geom_addr
  "\<lambda>h k. heap_malloc_blocks h (of_nat k)" heap_free
proof unfold_locales
  show "0 < k \<and> s + k \<le> unat (snd (heap_geom h))" if "heap_inv h A" "A s = Some k" for h A s k
    using that heap_rep_bounds [of "entries (table h)" A s k]
    by (simp add: heap_inv_def table_ok_def heap_geom_def)
  show "s = s'" if "heap_inv h A" "covers A s k i" "covers A s' k' i" for h A s k i s' k'
    using that heap_rep_covers_unique [of "entries (table h)" A s k i s' k']
    by (simp add: heap_inv_def)
  show "\<exists>r h'. r \<le> s \<and> heap_malloc_blocks h (of_nat k) = Inr (geom_addr (heap_geom h) r, h') \<and>
      heap_inv h' (A(r \<mapsto> k)) \<and> heap_geom h' = heap_geom h \<and>
      (\<forall>i s' k'. r \<le> i \<and> i < r + k \<longrightarrow> \<not> covers A s' k' i)"
    if "heap_inv h A" "0 < k" "s + k \<le> unat (snd (heap_geom h))"
      "\<And>i s' k'. s \<le> i \<Longrightarrow> i < s + k \<Longrightarrow> \<not> covers A s' k' i" for h A k s
    unfolding geom_addr_eq using that by (intro heap_alloc_room) (auto simp: heap_geom_def)
  show "\<exists>h'. heap_free h (geom_addr (heap_geom h) s) = Inr h' \<and> heap_inv h' (A(s := None)) \<and>
      heap_geom h' = heap_geom h" if "heap_inv h A" "A s = Some k" for h A s k
    unfolding geom_addr_eq using heap_free_ok [OF that] by (auto simp: heap_geom_def)
  show "h = h'" if "heap_inv h A" "heap_inv h' A" "heap_geom h = heap_geom h'" for h A h'
    using that by (rule heap_inv_functional)
qed

section \<open>Requests in bytes\<close>

definition blocks_for :: "nat \<Rightarrow> nat" where
  "blocks_for n = (n + 4095) div 4096"

lemma blocks_for_eq: "q * 4096 < n + 4096 \<Longrightarrow> n \<le> q * 4096 \<Longrightarrow> blocks_for n = q"
  unfolding blocks_for_def by (rule div_nat_eqI) simp_all

lemma blocks_for_exact: "n mod 4096 = 0 \<Longrightarrow> blocks_for n * 4096 = n"
  using div_mult_mod_eq [of n 4096] blocks_for_eq [of "n div 4096" n] by simp

lemma blocks_for_round:
  assumes "n mod 4096 \<noteq> 0" shows "blocks_for n * 4096 = n - n mod 4096 + 4096"
proof -
  obtain q r where n: "n = q * 4096 + r" and r: "r < 4096" "n mod 4096 = r"
    by (metis div_mult_mod_eq mod_less_divisor zero_less_numeral)
  have "blocks_for n = q + 1" by (rule blocks_for_eq) (use n r assms in simp_all)
  with n r show ?thesis by simp
qed

lemma blocks_for_le: "n \<le> 2 ^ 32 - 4096 \<Longrightarrow> blocks_for n * 4096 \<le> 2 ^ 32 - 4096"
  unfolding blocks_for_def by simp

lemma round_up_unat:
  assumes "unat sz mod 4096 \<noteq> 0"
  shows "unat (heap_align_value_to_upper sz) = (unat sz - unat sz mod 4096 + 4096) mod 2 ^ 32"
proof -
  have m: "unat (sz mod 4096) = unat sz mod 4096" by (simp add: unat_mod)
  then have nz: "sz mod 4096 \<noteq> 0" using assms by (metis unat_0)
  have "sz mod 4096 \<le> sz" by (simp add: word_le_nat_alt m)
  then have "unat (sz - sz mod 4096) = unat sz - unat sz mod 4096" by (simp add: unat_sub m)
  then show ?thesis
    using nz by (simp add: heap_align_value_to_upper_def config Let_def unat_word_ariths)
qed

lemma heap_align_unat:
  assumes "unat sz \<le> 2 ^ 32 - 4096"
  shows "unat (heap_align_value_to_upper sz) = blocks_for (unat sz) * 4096"
proof -
  have m: "unat (sz mod 4096) = unat sz mod 4096" by (simp add: unat_mod)
  show ?thesis
  proof (cases "unat sz mod 4096 = 0")
    case True
    then have "sz mod 4096 = 0" using m by (simp add: unat_eq_zero)
    then show ?thesis
      using blocks_for_exact [OF True] by (simp add: heap_align_value_to_upper_def config)
  next
    case False
    then show ?thesis
      using blocks_for_le [OF assms] unfolding round_up_unat [OF False] blocks_for_round [OF False, symmetric]
      by simp
  qed
qed

lemma heap_malloc_blocks_for:
  assumes "unat sz \<le> 2 ^ 32 - 4096"
  shows "heap_malloc h sz = heap_malloc_blocks h (of_nat (blocks_for (unat sz)))"
proof -
  let ?w = "heap_align_value_to_upper sz div 4096"
  have u: "unat ?w = blocks_for (unat sz)"
    using heap_align_unat [OF assms] by (simp add: unat_div)
  have "?w = of_nat (unat ?w)" by simp
  then have "?w = of_nat (blocks_for (unat sz))" by (simp only: u)
  then show ?thesis by (simp add: heap_malloc_def config)
qed

lemma blocks_for_pos: "0 < n \<Longrightarrow> 0 < blocks_for n"
  by (simp add: blocks_for_def)

text \<open>A request that runs past the last free blocks: the search answers with their start.\<close>

lemma mark_taken_loop_overrun:
  "i \<le> length es \<Longrightarrow> length es < e \<Longrightarrow> mark_taken_loop es i e = Inl OutOfBounds"
proof (induction "length es - i" arbitrary: es i)
  case 0
  then show ?case by (subst mark_taken_loop.simps) simp
next
  case (Suc x)
  let ?v = "es ! i OR (HEAP_BLOCK_TABLE_ENTRY_TAKEN OR HEAP_BLOCK_HAS_NEXT)"
  have "mark_taken_loop es i e = mark_taken_loop (es[i := ?v]) (Suc i) e"
    using Suc.hyps(2) Suc.prems by (subst mark_taken_loop.simps) simp
  also have "\<dots> = Inl OutOfBounds" using Suc.hyps(2) Suc.prems by (intro Suc.hyps(1)) simp_all
  finally show ?case .
qed

lemma heap_mark_blocks_taken_overrun:
  assumes s: "s < length (entries (table h))" and over: "length (entries (table h)) < s + k"
    and small: "s + k < 2 ^ 32"
  shows "heap_mark_blocks_taken h (int s) (int k) = Inl OutOfBounds"
proof -
  let ?es = "(entries (table h))[s := HEAP_BLOCK_IS_FIRST]"
  have end_block: "unat (word_of_int (int s + int k - 1) :: u32) = s + k - 1"
    using s over small by (subst unat_word_of_int_u32) auto
  have start: "unat (word_of_int (int s) :: u32) = s"
    using s over small by (subst unat_word_of_int_u32) auto
  show ?thesis
  proof (cases "length ?es < s + k - 1")
    case True
    then have "mark_taken_loop ?es s (s + k - 1) = Inl OutOfBounds"
      using s by (intro mark_taken_loop_overrun) simp_all
    with s show ?thesis unfolding heap_mark_blocks_taken_def Let_def end_block start by simp
  next
    case False
    with over s have len: "s + k - 1 = s + (length ?es - s)" by simp
    have loop: "mark_taken_loop ?es s (s + (length ?es - s)) = Inr (overlay s (length ?es - s)
        (\<lambda>j. ?es ! j OR (HEAP_BLOCK_TABLE_ENTRY_TAKEN OR HEAP_BLOCK_HAS_NEXT)) ?es)"
      using s by (intro mark_taken_loop_ok) simp
    show ?thesis unfolding heap_mark_blocks_taken_def Let_def end_block start
      unfolding len using s loop by simp
  qed
qed

lemma trailing_run_start:
  assumes "trailing_run es s" and "es \<noteq> []"
  shows "s < length es \<longleftrightarrow> heap_get_entry_type (last es) = 0"
proof
  assume "s < length es"
  then have "s + (length es - s - 1) = length es - 1" and "length es - s - 1 < length es - s" by auto
  then show "heap_get_entry_type (last es) = 0"
    using assms by (metis trailing_run_def free_run_def last_conv_nth)
next
  assume "heap_get_entry_type (last es) = 0"
  then have "s \<noteq> length es" using assms by (auto simp: trailing_run_def last_conv_nth)
  then show "s < length es" using assms by (simp add: trailing_run_def)
qed

text \<open>Rounding up to blocks on every input, the wrapping ones included.\<close>

lemma heap_align_value_unat:
  "unat (heap_align_value_to_upper sz) =
     (if unat sz \<le> 2 ^ 32 - 4096 then (unat sz + 4095) div 4096 * 4096 else 0)"
proof (cases "unat sz \<le> 2 ^ 32 - 4096")
  case True
  then show ?thesis by (simp add: heap_align_unat blocks_for_def)
next
  case False
  then have sz: "1048575 * 4096 < unat sz" "unat sz < 1048576 * 4096"
    using unsigned_less [of sz, where 'a = nat] by simp_all
  then have "unat sz div 4096 = 1048575" by (intro div_nat_eqI) simp_all
  then have "unat sz = 1048575 * 4096 + unat sz mod 4096"
    using div_mult_mod_eq [of "unat sz" 4096] by simp
  then have "unat sz mod 4096 \<noteq> 0" "unat sz - unat sz mod 4096 = 1048575 * 4096" using sz(1) by linarith+
  then show ?thesis using False round_up_unat [of sz] by simp
qed

lemma heap_create_ok:
  assumes "ptr mod 4096 = 0" and "end_ptr mod 4096 = 0"
    and "sint (end_ptr - ptr) = int (unat (total_entries tbl)) * 4096"
    and "length (entries tbl) = unat (total_entries tbl)"
  shows "heap_create h ptr end_ptr tbl =
    Inr (0, \<lparr>table = tbl\<lparr>entries := replicate (length (entries tbl)) 0\<rparr>, saddr = ptr\<rparr>)"
proof -
  have "heap_validate_table ptr end_ptr tbl = 0"
    by (simp add: heap_validate_table_def config assms(3) sdiv_nonneg)
  moreover have "memset (entries tbl) (uint HEAP_BLOCK_TABLE_ENTRY_FREE) (unat (total_entries tbl)) =
      Inr (replicate (length (entries tbl)) 0)"
    using assms(4) by (simp add: memset_ok heap_flags)
  ultimately show ?thesis
    using assms by (simp add: heap_create_def heap_validate_alignment_def config)
qed

section \<open>Properties\<close>

text \<open>A heap of eight free blocks, for the witnesses.\<close>

definition demo_heap :: heap where
  "demo_heap = \<lparr>table = \<lparr>entries = replicate 8 0, total_entries = 8\<rparr>, saddr = 0x01000000\<rparr>"

lemma demo_heap_inv: "heap_inv demo_heap Map.empty"
  by (simp add: demo_heap_def heap_inv_def table_ok_def heap_rep_empty)

lemma demo_heap_malloc: "heap_malloc_blocks demo_heap 2 = Inr (0x01000000, demo_heap\<lparr>table :=
    (table demo_heap)\<lparr>entries := [0xC1, 0x01, 0, 0, 0, 0, 0, 0]\<rparr>\<rparr>)"
  by code_simp

text \<open>
  C8: A request of \<open>sz\<close> bytes for which some run of free blocks is long enough succeeds: it
  returns the address of a run \<open>r\<close> of \<open>sz\<close> rounded up to blocks, no farther than that run, whose
  blocks no live allocation covers, and the new table represents the live allocations with
  \<open>r\<close> added.
\<close>

theorem heap_malloc_refines:
  assumes inv: "heap_inv h A" and sz: "0 < unat sz" "unat sz \<le> 2 ^ 32 - 4096"
    and room: "s + blocks_for (unat sz) \<le> unat (total_entries (table h))"
    and free: "\<And>i s' k'. s \<le> i \<Longrightarrow> i < s + blocks_for (unat sz) \<Longrightarrow> \<not> covers A s' k' i"
  shows "\<exists>r h'. heap_malloc h sz = Inr (heap_block_to_address h (int r), h') \<and> r \<le> s \<and>
    heap_inv h' (A(r \<mapsto> blocks_for (unat sz))) \<and>
    (\<forall>i s' k'. r \<le> i \<and> i < r + blocks_for (unat sz) \<longrightarrow> \<not> covers A s' k' i)"
  using heap_alloc_room [OF inv blocks_for_pos [OF sz(1)] room free]
  by (auto simp: heap_malloc_blocks_for [OF sz(2)])

theorem heap_malloc_refines_witness:
  "\<exists>r h'. heap_malloc demo_heap 5000 = Inr (heap_block_to_address demo_heap (int r), h') \<and> r \<le> 0 \<and>
    heap_inv h' (Map.empty(r \<mapsto> 2))"
proof -
  have "\<exists>r h'. heap_malloc demo_heap 5000 = Inr (heap_block_to_address demo_heap (int r), h') \<and> r \<le> 0 \<and>
      heap_inv h' (Map.empty(r \<mapsto> blocks_for (unat (5000 :: u32)))) \<and>
      (\<forall>i s' k'. r \<le> i \<and> i < r + blocks_for (unat (5000 :: u32)) \<longrightarrow> \<not> covers Map.empty s' k' i)"
    by (rule heap_malloc_refines [OF demo_heap_inv])
      (simp_all add: blocks_for_def demo_heap_def covers_def)
  then show ?thesis by (auto simp: blocks_for_def)
qed

text \<open>
  C22: Freeing the address of a live allocation succeeds, releases exactly that allocation and
  leaves every other one as it was.
\<close>

theorem heap_free_refines:
  assumes "heap_inv h A" and "A s = Some k"
  shows "\<exists>h'. heap_free h (heap_block_to_address h (int s)) = Inr h' \<and> heap_inv h' (A(s := None)) \<and>
    saddr h' = saddr h"
  using heap_free_ok [OF assms] by blast

theorem heap_free_refines_witness:
  "\<exists>h A s k. heap_inv h A \<and> A s = Some k \<and>
     (\<exists>h'. heap_free h (heap_block_to_address h (int s)) = Inr h' \<and> heap_inv h' (A(s := None)))"
proof -
  obtain h A where h: "heap_inv h A" "A 0 = Some 2"
    using heap_alloc_room [OF demo_heap_inv, of 2 0] by (auto simp: demo_heap_def covers_def)
  then show ?thesis using heap_free_refines [OF h] by blast
qed

text \<open>
  Allocating and freeing at once restores the heap exactly, every byte of the table included.
\<close>

theorem heap_malloc_free_roundtrip:
  assumes inv: "heap_inv h A" and k: "0 < k" and room: "s + k \<le> unat (total_entries (table h))"
    and free: "\<And>i s' k'. s \<le> i \<Longrightarrow> i < s + k \<Longrightarrow> \<not> covers A s' k' i"
  shows "\<exists>p h'. heap_malloc_blocks h (of_nat k) = Inr (p, h') \<and> heap_free h' p = Inr h"
  by (rule kh.alloc_release_id [OF inv k _ free]) (use room in \<open>simp_all add: heap_geom_def\<close>)

theorem heap_malloc_free_roundtrip_witness:
  "\<exists>p h'. heap_malloc_blocks demo_heap (of_nat 3) = Inr (p, h') \<and> heap_free h' p = Inr demo_heap"
  by (rule heap_malloc_free_roundtrip [OF demo_heap_inv, where s = 0])
    (simp_all add: demo_heap_def covers_def)

text \<open>
  C33: When no run of free blocks is long enough but the last block of the table is free, the
  search still answers with the start of the free blocks at the end, and marking the blocks
  taken writes past the end of the table instead of reporting that memory is exhausted.
\<close>

theorem heap_malloc_blocks_overrun:
  assumes inv: "heap_inv h A" and n: "0 < unat n" "unat n < 2 ^ 31"
    and none: "\<And>s. \<not> free_run (entries (table h)) s (unat n)"
    and last: "entries (table h) \<noteq> []" "heap_get_entry_type (last (entries (table h))) = 0"
  shows "heap_malloc_blocks h n = Inl OutOfBounds"
proof -
  let ?es = "entries (table h)"
  have ok: "table_ok (table h)" using inv by (simp add: heap_inv_def)
  obtain s where s: "trailing_run ?es s"
    and start: "heap_get_start_block h n = Inr (if s = length ?es then - ENOMEM else int s)"
    using heap_get_start_block_no_fit [OF ok n(1) none] by blast
  have lt: "s < length ?es" using trailing_run_start [OF s last(1)] last(2) by simp
  have "\<not> unat n \<le> length ?es - s"
    using s none [of s] free_run_mono by (auto simp: trailing_run_def)
  then have "heap_mark_blocks_taken h (int s) (int (unat n)) = Inl OutOfBounds"
    using lt n ok by (intro heap_mark_blocks_taken_overrun) (auto simp: table_ok_def)
  then show ?thesis
    using lt start unfolding heap_malloc_blocks_def sint_small_u32 [OF n(2)] by simp
qed

theorem heap_malloc_blocks_overrun_witness: "heap_malloc_blocks demo_heap 9 = Inl OutOfBounds"
  by (rule heap_malloc_blocks_overrun [OF demo_heap_inv])
    (simp_all add: demo_heap_def free_run_def heap_get_entry_type_def)

text \<open>
  Rounding a size up to blocks is exact up to 2^32 - 4096 bytes; above that the 32-bit sum
  wraps and the request becomes one for no block at all.
\<close>

theorem heap_align_value_to_upper_bounds:
  "unat (heap_align_value_to_upper sz) =
     (if unat sz \<le> 2 ^ 32 - 4096 then (unat sz + 4095) div 4096 * 4096 else 0)"
  by (rule heap_align_value_unat)

end
