(* ===== verification/KMem.thy ===== *)
theory KMem
  imports KHeap
begin

text \<open>
  The machine the kernel runs on: its physical memory, byte by byte, and the kernel heap
  (\<^verbatim>\<open>memory/heap/kheap.c\<close>) that hands out pages of it. Components extend the record \<open>machine\<close>
  with their own variables. A 32-bit load or store is the four little-endian bytes.
\<close>

section \<open>State\<close>

record machine =
  kernel_heap :: heap
  mem :: "u32 \<Rightarrow> u8"

section \<open>Memory access\<close>

definition load32 :: "(u32 \<Rightarrow> u8) \<Rightarrow> u32 \<Rightarrow> u32" where
  "load32 m a = ucast (m a) OR push_bit 8 (ucast (m (a + 1))) OR push_bit 16 (ucast (m (a + 2))) OR
     push_bit 24 (ucast (m (a + 3)))"

definition store32 :: "(u32 \<Rightarrow> u8) \<Rightarrow> u32 \<Rightarrow> u32 \<Rightarrow> (u32 \<Rightarrow> u8)" where
  "store32 m a v = m(a := ucast v, a + 1 := ucast (drop_bit 8 v), a + 2 := ucast (drop_bit 16 v),
     a + 3 := ucast (drop_bit 24 v))"

text \<open>\<^verbatim>\<open>memset\<close> on physical memory: \<open>c_ptr[i] = c\<close> for \<open>i\<close> from 0.\<close>

primrec memset_mem :: "(u32 \<Rightarrow> u8) \<Rightarrow> u32 \<Rightarrow> u8 \<Rightarrow> nat \<Rightarrow> (u32 \<Rightarrow> u8)" where
  "memset_mem m ptr c 0 = m"
| "memset_mem m ptr c (Suc n) = (memset_mem m ptr c n)(ptr + of_nat n := c)"

lemma memset_mem_apply:
  "n \<le> 2 ^ 32 \<Longrightarrow> memset_mem m ptr c n a = (if unat (a - ptr) < n then c else m a)"
proof (induction n)
  case (Suc n)
  have "a = ptr + of_nat n \<longleftrightarrow> unat (a - ptr) = n"
    using Suc.prems by (metis Suc_le_lessD add_diff_cancel_left' diff_add_cancel add.commute
        unat_of_nat_u32 word_unat_eq_iff)
  with Suc show ?case by (auto simp: less_Suc_eq)
qed simp

text \<open>The bytes of an object in memory, and the write of a list of bytes.\<close>

definition mem_bytes :: "(u32 \<Rightarrow> u8) \<Rightarrow> u32 \<Rightarrow> nat \<Rightarrow> u8 list" where
  "mem_bytes m a n = map (\<lambda>i. m (a + of_nat i)) [0..<n]"

primrec store_bytes :: "(u32 \<Rightarrow> u8) \<Rightarrow> u32 \<Rightarrow> u8 list \<Rightarrow> (u32 \<Rightarrow> u8)" where
  "store_bytes m a [] = m"
| "store_bytes m a (b # bs) = store_bytes (m(a := b)) (a + 1) bs"

definition load16 :: "(u32 \<Rightarrow> u8) \<Rightarrow> u32 \<Rightarrow> u16" where
  "load16 m a = ucast (m a) OR push_bit 8 (ucast (m (a + 1)))"

lemma length_mem_bytes [simp]: "length (mem_bytes m a n) = n"
  by (simp add: mem_bytes_def)

lemma nth_mem_bytes [simp]: "i < n \<Longrightarrow> mem_bytes m a n ! i = m (a + of_nat i)"
  by (simp add: mem_bytes_def)

lemma store_bytes_apply:
  "length bs \<le> 2 ^ 32 \<Longrightarrow>
     store_bytes m a bs x = (if unat (x - a) < length bs then bs ! unat (x - a) else m x)"
proof (induction bs arbitrary: m a)
  case (Cons b bs)
  show ?case
  proof (cases "x = a")
    case True
    have "unat (x - (a + 1)) = 2 ^ 32 - 1" unfolding True by (simp add: unsigned_minus_1_eq_mask mask_eq_exp_minus_1)
    with Cons True show ?thesis by simp
  next
    case False
    then have "unat (x - a) \<noteq> 0" by (simp add: unat_eq_0)
    moreover have "unat ((x - a) - 1) = unat (x - a) - 1"
      using False by (intro unat_minus_one) simp
    then have "unat (x - (a + 1)) = unat (x - a) - 1" by (simp only: diff_diff_eq)
    ultimately have "unat (x - (a + 1)) = unat (x - a) - 1" "0 < unat (x - a)" by auto
    with Cons False show ?thesis by (auto simp: nth_Cons')
  qed
qed simp

lemma store_bytes_append:
  "store_bytes m a (xs @ ys) = store_bytes (store_bytes m a xs) (a + of_nat (length xs)) ys"
  by (induction xs arbitrary: m a) (simp_all add: algebra_simps)

lemma mem_bytes_store: "length bs \<le> 2 ^ 32 \<Longrightarrow> mem_bytes (store_bytes m a bs) a (length bs) = bs"
  by (rule nth_equalityI) (auto simp: store_bytes_apply unat_of_nat_u32)

section \<open>The kernel heap\<close>

text \<open>
  \<open>raw_table\<close> is what the table's memory at \<^verbatim>\<open>BIMBLEOS_HEAP_TABLE_ADDRESS\<close> holds before; the
  second result is what is printed.
\<close>

definition kheap_init :: "'a machine_scheme \<Rightarrow> u8 list \<Rightarrow> fault + ('a machine_scheme \<times> string list)" where
  "kheap_init m raw_table =
     (let total_heap_entries = 104857600 div 4096;
          kernel_heap_table = \<lparr>entries = raw_table, total_entries = of_nat total_heap_entries\<rparr>;
          end_ptr = BIMBLEOS_HEAP_ADDRESS + of_nat BIMBLEOS_HEAP_SIZE_BYTES
      in bindE (heap_create (kernel_heap m) BIMBLEOS_HEAP_ADDRESS end_ptr kernel_heap_table)
           (\<lambda>(res_status, h). Inr (m\<lparr>kernel_heap := h\<rparr>,
              if res_status < 0 then [''Failed to create heap''] else [])))"

definition kmalloc :: "'a machine_scheme \<Rightarrow> u32 \<Rightarrow> fault + (u32 \<times> 'a machine_scheme)" where
  "kmalloc m sz = bindE (heap_malloc (kernel_heap m) sz) (\<lambda>(p, h). Inr (p, m\<lparr>kernel_heap := h\<rparr>))"

definition kzalloc :: "'a machine_scheme \<Rightarrow> u32 \<Rightarrow> fault + (u32 \<times> 'a machine_scheme)" where
  "kzalloc m sz = bindE (kmalloc m sz) (\<lambda>(ptr, m1).
     if ptr = 0 then Inr (0, m1)
     else Inr (ptr, m1\<lparr>mem := memset_mem (mem m1) ptr 0 (unat sz)\<rparr>))"

definition kfree :: "'a machine_scheme \<Rightarrow> u32 \<Rightarrow> fault + 'a machine_scheme" where
  "kfree m ptr = bindE (heap_free (kernel_heap m) ptr) (\<lambda>h. Inr (m\<lparr>kernel_heap := h\<rparr>))"

section \<open>The invariant of the kernel heap\<close>

text \<open>
  The geometry \<open>kheap_init\<close> sets up: 25600 blocks from 16 MiB. Block \<open>s\<close> is the page at
  \<open>block_addr s\<close>.
\<close>

definition kheap_blocks :: nat where
  "kheap_blocks = 25600"

definition machine_inv :: "'a machine_scheme \<Rightarrow> live \<Rightarrow> bool" where
  "machine_inv m A \<longleftrightarrow> heap_inv (kernel_heap m) A \<and>
     heap_geom (kernel_heap m) = (BIMBLEOS_HEAP_ADDRESS, of_nat kheap_blocks)"

definition block_addr :: "nat \<Rightarrow> u32" where
  "block_addr s = BIMBLEOS_HEAP_ADDRESS + of_nat (s * 4096)"

lemma geom_addr_kheap: "geom_addr (BIMBLEOS_HEAP_ADDRESS, n) s = block_addr s"
  by (simp add: geom_addr_def block_addr_def config)

lemma unat_block_addr:
  assumes "s \<le> kheap_blocks" shows "unat (block_addr s) = 16777216 + s * 4096"
proof -
  have "block_addr s = of_nat (16777216 + s * 4096)" by (simp add: block_addr_def config)
  moreover have "16777216 + s * 4096 < 2 ^ 32" using assms by (simp add: kheap_blocks_def)
  ultimately show ?thesis by (simp only: unat_of_nat_u32)
qed

lemma block_addr_nonzero [simp]: "s \<le> kheap_blocks \<Longrightarrow> block_addr s \<noteq> 0"
  using unat_block_addr [of s] by auto

lemma block_addr_inj:
  assumes "s \<le> kheap_blocks" and "t \<le> kheap_blocks" and "block_addr s = block_addr t"
  shows "s = t"
proof -
  have "16777216 + s * 4096 = 16777216 + t * 4096"
    using arg_cong [OF assms(3), of unat] unfolding unat_block_addr [OF assms(1)] unat_block_addr [OF assms(2)] .
  then show ?thesis by simp
qed

lemma machine_inv_kernel_heap:
  "kernel_heap m' = kernel_heap m \<Longrightarrow> machine_inv m' A = machine_inv m A"
  by (simp add: machine_inv_def)

lemma machine_inv_bounds:
  "machine_inv m A \<Longrightarrow> A s = Some k \<Longrightarrow> 0 < k \<and> s + k \<le> kheap_blocks"
  using kh.live_bounds [of "kernel_heap m" A s k]
  by (simp add: machine_inv_def kheap_blocks_def)

lemma kheap_init_ok:
  assumes "length raw_table = kheap_blocks"
  shows "\<exists>m'. kheap_init m raw_table = Inr (m', []) \<and> machine_inv m' Map.empty \<and> mem m' = mem m"
proof -
  let ?tbl = "\<lparr>entries = raw_table, total_entries = of_nat kheap_blocks\<rparr>"
  let ?h = "\<lparr>table = ?tbl\<lparr>entries := replicate kheap_blocks 0\<rparr>, saddr = BIMBLEOS_HEAP_ADDRESS\<rparr>"
  have n: "unat (of_nat kheap_blocks :: u32) = kheap_blocks" "kheap_blocks \<le> 2 ^ 19"
    by (simp_all add: kheap_blocks_def)
  have "heap_create (kernel_heap m) BIMBLEOS_HEAP_ADDRESS (BIMBLEOS_HEAP_ADDRESS + of_nat BIMBLEOS_HEAP_SIZE_BYTES)
      ?tbl = Inr (0, ?h)"
    unfolding assms [symmetric]
    by (rule trans [OF heap_create_ok]) (simp_all add: assms kheap_blocks_def config)
  moreover have "heap_inv ?h Map.empty"
    using n by (simp add: heap_inv_def table_ok_def heap_rep_empty)
  ultimately show ?thesis
    by (simp add: kheap_init_def Let_def machine_inv_def heap_geom_def kheap_blocks_def)
qed

text \<open>Requests of whole pages through the interface of the allocator.\<close>

lemma kmalloc_room:
  assumes inv: "machine_inv m A" and sz: "0 < unat sz" "unat sz \<le> 2 ^ 32 - 4096"
    and room: "s + blocks_for (unat sz) \<le> kheap_blocks"
    and free: "\<And>i s' k'. s \<le> i \<Longrightarrow> i < s + blocks_for (unat sz) \<Longrightarrow> \<not> covers A s' k' i"
  shows "\<exists>r h'. r \<le> s \<and> kmalloc m sz = Inr (block_addr r, m\<lparr>kernel_heap := h'\<rparr>) \<and>
    machine_inv (m\<lparr>kernel_heap := h'\<rparr>) (A(r \<mapsto> blocks_for (unat sz))) \<and>
    (\<forall>i s' k'. r \<le> i \<and> i < r + blocks_for (unat sz) \<longrightarrow> \<not> covers A s' k' i)"
proof -
  from inv have h: "heap_inv (kernel_heap m) A"
    and g: "heap_geom (kernel_heap m) = (BIMBLEOS_HEAP_ADDRESS, of_nat kheap_blocks)"
    by (simp_all add: machine_inv_def)
  have "s + blocks_for (unat sz) \<le> unat (snd (heap_geom (kernel_heap m)))"
    using room g by (simp add: kheap_blocks_def)
  from kh.alloc_room [OF h blocks_for_pos [OF sz(1)] this free] obtain r h' where
    "r \<le> s" "heap_malloc_blocks (kernel_heap m) (of_nat (blocks_for (unat sz))) = Inr (block_addr r, h')"
    "heap_inv h' (A(r \<mapsto> blocks_for (unat sz)))" "heap_geom h' = heap_geom (kernel_heap m)"
    "\<forall>i s' k'. r \<le> i \<and> i < r + blocks_for (unat sz) \<longrightarrow> \<not> covers A s' k' i"
    unfolding g geom_addr_kheap by blast
  then show ?thesis
    by (intro exI [of _ r] exI [of _ h'])
      (simp add: kmalloc_def heap_malloc_blocks_for [OF sz(2)] g machine_inv_def)
qed

lemma kmalloc_page:
  assumes inv: "machine_inv m A" and sz: "0 < unat sz" "unat sz \<le> 4096"
    and room: "card (kh.used A) < kheap_blocks"
  shows "\<exists>r h'. kmalloc m sz = Inr (block_addr r, m\<lparr>kernel_heap := h'\<rparr>) \<and>
    machine_inv (m\<lparr>kernel_heap := h'\<rparr>) (A(r \<mapsto> 1)) \<and> r < kheap_blocks \<and> r \<notin> kh.used A \<and>
    kh.used (A(r \<mapsto> 1)) = insert r (kh.used A) \<and> A r = None"
proof -
  from inv have h: "heap_inv (kernel_heap m) A"
    and g: "heap_geom (kernel_heap m) = (BIMBLEOS_HEAP_ADDRESS, of_nat kheap_blocks)"
    by (simp_all add: machine_inv_def)
  have one: "blocks_for (unat sz) = 1" using sz by (intro blocks_for_eq) simp_all
  have "card (kh.used A) < unat (snd (heap_geom (kernel_heap m)))"
    using room g by (simp add: kheap_blocks_def)
  from kh.alloc_one [OF h this] obtain r h' where
    "heap_malloc_blocks (kernel_heap m) (of_nat 1) = Inr (block_addr r, h')"
    "heap_inv h' (A(r \<mapsto> 1))" "heap_geom h' = heap_geom (kernel_heap m)" "r < kheap_blocks"
    "r \<notin> kh.used A" "kh.used (A(r \<mapsto> 1)) = insert r (kh.used A)" "A r = None"
    unfolding g geom_addr_kheap by (auto simp: kheap_blocks_def)
  then show ?thesis
    by (intro exI [of _ r] exI [of _ h'])
      (use sz(2) in \<open>simp add: kmalloc_def heap_malloc_blocks_for one g machine_inv_def\<close>)
qed

lemma kfree_live:
  assumes inv: "machine_inv m A" and live: "A s = Some k"
  shows "\<exists>h'. kfree m (block_addr s) = Inr (m\<lparr>kernel_heap := h'\<rparr>) \<and>
    machine_inv (m\<lparr>kernel_heap := h'\<rparr>) (A(s := None))"
proof -
  from inv have h: "heap_inv (kernel_heap m) A"
    and g: "heap_geom (kernel_heap m) = (BIMBLEOS_HEAP_ADDRESS, of_nat kheap_blocks)"
    by (simp_all add: machine_inv_def)
  from kh.release_live [OF h live] show ?thesis
    by (auto simp: kfree_def g geom_addr_kheap machine_inv_def)
qed

text \<open>Freeing the null pointer walks no block: its block number is far outside the table.\<close>

lemma kfree_null: "machine_inv m A \<Longrightarrow> kfree m 0 = Inr m"
proof -
  assume inv: "machine_inv m A"
  then have g: "saddr (kernel_heap m) = 0x01000000" "total_entries (table (kernel_heap m)) = 25600"
    by (simp_all add: machine_inv_def heap_geom_def config kheap_blocks_def)
  have "heap_address_to_block (kernel_heap m) 0 = - 4096"
    by (simp add: heap_address_to_block_def g config signed_divide_int_def)
  moreover have "mark_free_loop (table (kernel_heap m)) (unat (word_of_int (- 4096) :: u32)) =
      Inr (table (kernel_heap m))"
    by (subst mark_free_loop.simps) (simp add: g)
  ultimately show ?thesis by (simp add: kfree_def heap_free_def heap_mark_blocks_free_def)
qed

section \<open>Word memory\<close>

text \<open>
  What the page tables need of memory: a 32-bit store is read back, and it does not disturb a
  word at another aligned address.
\<close>

definition aligned4 :: "u32 \<Rightarrow> bool" where
  "aligned4 a \<longleftrightarrow> take_bit 2 a = 0"

lemma aligned4_dvd: "aligned4 a \<longleftrightarrow> 4 dvd a"
proof
  assume "aligned4 a"
  then have "a = 4 * drop_bit 2 a"
    using bits_ident [of 2 a] by (simp add: aligned4_def push_bit_eq_mult mult.commute)
  then show "4 dvd a" by (metis dvd_triv_left)
next
  assume "4 dvd a"
  then obtain k where "a = push_bit 2 k" by (auto simp: push_bit_eq_mult mult.commute elim!: dvdE)
  then show "aligned4 a" by (simp add: aligned4_def take_bit_push_bit)
qed

lemma aligned4_diff: "aligned4 a \<Longrightarrow> aligned4 b \<Longrightarrow> aligned4 (a - b)"
  by (simp add: aligned4_dvd)

lemma aligned4_add: "aligned4 a \<Longrightarrow> aligned4 b \<Longrightarrow> aligned4 (a + b)"
  by (simp add: aligned4_dvd)

lemma aligned4_mult4 [simp]: "aligned4 (of_nat (4 * i))"
proof -
  have "(of_nat (4 * i) :: u32) = push_bit 2 (of_nat i)" by (simp add: push_bit_eq_mult)
  then show ?thesis by (simp add: aligned4_def take_bit_push_bit)
qed

text \<open>Two different aligned words share no byte.\<close>

lemma aligned4_separate:
  assumes "aligned4 a" and "aligned4 b" and "a \<noteq> b" and "i \<in> {0, 1, 2, 3}" and "j \<in> {0, 1, 2, 3}"
  shows "a + i \<noteq> b + j"
proof
  assume "a + i = b + j"
  then have "a - b = j - i" by (simp add: algebra_simps)
  with aligned4_diff [OF assms(1,2)] have "aligned4 (j - i)" by simp
  moreover have "a - b \<noteq> 0" using assms(3) by simp
  ultimately show False using assms(4,5) \<open>a - b = j - i\<close> by (auto simp: aligned4_def)
qed

locale word_memory =
  fixes load :: "'m \<Rightarrow> u32 \<Rightarrow> u32" and store :: "'m \<Rightarrow> u32 \<Rightarrow> u32 \<Rightarrow> 'm"
  assumes load_store_same: "load (store m a v) a = v"
    and load_store_other: "aligned4 a \<Longrightarrow> aligned4 b \<Longrightarrow> a \<noteq> b \<Longrightarrow> load (store m a v) b = load m b"
begin

text \<open>Filling the words \<open>base + 4 * i\<close>, \<open>i < n\<close>, in ascending order.\<close>

primrec fill :: "'m \<Rightarrow> u32 \<Rightarrow> (nat \<Rightarrow> u32) \<Rightarrow> nat \<Rightarrow> 'm" where
  "fill m base f 0 = m"
| "fill m base f (Suc n) = store (fill m base f n) (base + of_nat (4 * n)) (f n)"

lemma fill_other:
  assumes "aligned4 base" and "aligned4 b" and "\<And>i. i < n \<Longrightarrow> b \<noteq> base + of_nat (4 * i)"
  shows "load (fill m base f n) b = load m b"
  using assms(3)
proof (induction n)
  case (Suc n)
  have "aligned4 (base + of_nat (4 * n))" by (intro aligned4_add aligned4_mult4 assms(1))
  moreover have "base + of_nat (4 * n) \<noteq> b" using Suc.prems [OF lessI] by (rule not_sym)
  ultimately have "load (fill m base f (Suc n)) b = load (fill m base f n) b"
    using assms(2) unfolding fill.simps by (intro load_store_other)
  then show ?case using Suc by simp
qed simp

lemma fill_load:
  assumes "aligned4 base" and "n \<le> 2 ^ 30" and "i < n"
  shows "load (fill m base f n) (base + of_nat (4 * i)) = f i"
  using assms(2,3)
proof (induction n)
  case (Suc n)
  show ?case
  proof (cases "i = n")
    case True
    then show ?thesis by (simp only: fill.simps load_store_same)
  next
    case False
    have "unat (of_nat (4 * n) :: u32) \<noteq> unat (of_nat (4 * i) :: u32)"
      using Suc.prems False by (subst (1 2) unat_of_nat_u32) auto
    then have "base + of_nat (4 * n) \<noteq> base + of_nat (4 * i)" by (metis add_left_cancel)
    moreover have "aligned4 (base + of_nat (4 * n))" "aligned4 (base + of_nat (4 * i))"
      by (intro aligned4_add aligned4_mult4 assms(1))+
    ultimately have "load (fill m base f (Suc n)) (base + of_nat (4 * i)) =
        load (fill m base f n) (base + of_nat (4 * i))"
      unfolding fill.simps by (intro load_store_other)
    then show ?thesis using Suc False by simp
  qed
qed simp

end

lemma load32_store32_same: "load32 (store32 m a v) a = v"
proof -
  have "a \<noteq> a + 1" "a \<noteq> a + 2" "a \<noteq> a + 3" "a + 1 \<noteq> a + 2" "a + 1 \<noteq> a + 3" "a + 2 \<noteq> a + 3"
    by simp_all
  then have bytes: "load32 (store32 m a v) a =
      ucast (ucast v :: u8) OR push_bit 8 (ucast (ucast (drop_bit 8 v) :: u8)) OR
      push_bit 16 (ucast (ucast (drop_bit 16 v) :: u8)) OR push_bit 24 (ucast (ucast (drop_bit 24 v) :: u8))"
    by (simp add: load32_def store32_def)
  show ?thesis unfolding bytes
  proof (rule bit_word_eqI)
    fix n assume n: "n < LENGTH(32)"
    consider "n < 8" | "8 \<le> n" "n < 16" | "16 \<le> n" "n < 24" | "24 \<le> n" by linarith
    then show "bit (ucast (ucast v :: u8) OR push_bit 8 (ucast (ucast (drop_bit 8 v) :: u8)) OR
        push_bit 16 (ucast (ucast (drop_bit 16 v) :: u8)) OR
        push_bit 24 (ucast (ucast (drop_bit 24 v) :: u8)) :: u32) n \<longleftrightarrow> bit v n"
      using n by cases (auto simp: bit_simps)
  qed
qed

lemma store32_other:
  assumes "aligned4 a" and "aligned4 b" and "a \<noteq> b" and "j \<in> {0, 1, 2, 3}"
  shows "store32 m a v (b + j) = m (b + j)"
  using aligned4_separate [OF assms(1,2,3) _ assms(4)] by (fastforce simp: store32_def)

lemma load32_store32_other:
  "aligned4 a \<Longrightarrow> aligned4 b \<Longrightarrow> a \<noteq> b \<Longrightarrow> load32 (store32 m a v) b = load32 m b"
  using store32_other [of a b 0 m v] store32_other [of a b 1 m v] store32_other [of a b 2 m v]
    store32_other [of a b 3 m v]
  by (simp add: load32_def)

interpretation wm: word_memory load32 store32
  by unfold_locales (rule load32_store32_same, rule load32_store32_other)

end
