(* ===== verification/Paging.thy ===== *)
theory Paging
  imports KMem
begin

text \<open>
  Two-level page tables (\<^verbatim>\<open>memory/paging/paging.c\<close>): building an identity map, reading and
  writing entries, mapping ranges, freeing. Directories and tables are pages of physical memory
  obtained from the kernel heap and accessed as 32-bit words.
\<close>

section \<open>Data\<close>

definition PAGING_CACHE_DISABLED :: u32 where "PAGING_CACHE_DISABLED = 0x10"
definition PAGING_WRITE_THROUGH :: u32 where "PAGING_WRITE_THROUGH = 0x08"
definition PAGING_ACCESS_FROM_ALL :: u32 where "PAGING_ACCESS_FROM_ALL = 0x04"
definition PAGING_IS_WRITEABLE :: u32 where "PAGING_IS_WRITEABLE = 0x02"
definition PAGING_IS_PRESENT :: u32 where "PAGING_IS_PRESENT = 0x01"
definition PAGING_TOTAL_ENTRIES_PER_TABLE :: nat where "PAGING_TOTAL_ENTRIES_PER_TABLE = 1024"
definition PAGING_PAGE_SIZE :: nat where "PAGING_PAGE_SIZE = 4096"

lemmas paging_consts = PAGING_CACHE_DISABLED_def PAGING_WRITE_THROUGH_def PAGING_ACCESS_FROM_ALL_def
  PAGING_IS_WRITEABLE_def PAGING_IS_PRESENT_def PAGING_TOTAL_ENTRIES_PER_TABLE_def PAGING_PAGE_SIZE_def

text \<open>
  The paging state: the static \<^verbatim>\<open>current_directory\<close> and the two control registers the assembly
  routines write. A \<^verbatim>\<open>struct PageDirectory_4GB\<close> is the word at its address, the pointer to the
  directory.
\<close>

record paging_state = machine +
  current_directory :: u32
  cr3 :: u32
  paging_enabled :: bool

text \<open>An array of words behind a pointer; dereferencing null is a fault.\<close>

definition wread :: "'a machine_scheme \<Rightarrow> u32 \<Rightarrow> nat \<Rightarrow> fault + u32" where
  "wread m base i = (if base = 0 then Inl NullPointer else Inr (load32 (mem m) (base + of_nat (4 * i))))"

definition wwrite :: "'a machine_scheme \<Rightarrow> u32 \<Rightarrow> nat \<Rightarrow> u32 \<Rightarrow> fault + 'a machine_scheme" where
  "wwrite m base i v = (if base = 0 then Inl NullPointer
     else Inr (m\<lparr>mem := store32 (mem m) (base + of_nat (4 * i)) v\<rparr>))"

section \<open>Creating a directory\<close>

text \<open>
  The inner loop of \<^verbatim>\<open>paging_new\<close> for \<open>j = 0, \<dots>, n - 1\<close>. \<open>offset\<close> is kept modulo 2^32.
\<close>

primrec paging_new_entries ::
  "'a machine_scheme \<Rightarrow> u32 \<Rightarrow> u32 \<Rightarrow> u8 \<Rightarrow> nat \<Rightarrow> fault + 'a machine_scheme" where
  "paging_new_entries m entry offset flags 0 = Inr m"
| "paging_new_entries m entry offset flags (Suc j) =
     bindE (paging_new_entries m entry offset flags j) (\<lambda>m'.
       wwrite m' entry j (offset + (of_nat (j * PAGING_PAGE_SIZE) OR ucast flags)))"

primrec paging_new_tables ::
  "'a machine_scheme \<Rightarrow> u32 \<Rightarrow> u8 \<Rightarrow> nat \<Rightarrow> fault + (u32 \<times> 'a machine_scheme)" where
  "paging_new_tables m directory flags 0 = Inr (0, m)"
| "paging_new_tables m directory flags (Suc i) =
     bindE (paging_new_tables m directory flags i) (\<lambda>(offset, m1).
     bindE (kzalloc m1 (of_nat (4 * PAGING_TOTAL_ENTRIES_PER_TABLE))) (\<lambda>(entry, m2).
     bindE (paging_new_entries m2 entry offset flags PAGING_TOTAL_ENTRIES_PER_TABLE) (\<lambda>m3.
     bindE (wwrite m3 directory i (entry OR ucast flags OR PAGING_IS_WRITEABLE)) (\<lambda>m4.
       Inr (offset + of_nat (PAGING_PAGE_SIZE * PAGING_TOTAL_ENTRIES_PER_TABLE), m4)))))"

definition paging_new :: "'a machine_scheme \<Rightarrow> u8 \<Rightarrow> fault + (u32 \<times> 'a machine_scheme)" where
  "paging_new m flags =
     bindE (kzalloc m (of_nat (4 * PAGING_TOTAL_ENTRIES_PER_TABLE))) (\<lambda>(directory, m1).
     bindE (paging_new_tables m1 directory flags PAGING_TOTAL_ENTRIES_PER_TABLE) (\<lambda>(offset, m2).
     bindE (kzalloc m2 4) (\<lambda>(pageDirectory, m3).
     bindE (wwrite m3 pageDirectory 0 directory) (\<lambda>m4.
       Inr (pageDirectory, m4)))))"

definition paging_get_directory :: "'a machine_scheme \<Rightarrow> u32 \<Rightarrow> fault + u32" where
  "paging_get_directory m pageDirectory = wread m pageDirectory 0"

section \<open>Switching\<close>

definition paging_load_directory :: "'a paging_state_scheme \<Rightarrow> u32 \<Rightarrow> 'a paging_state_scheme" where
  "paging_load_directory m directory = m\<lparr>cr3 := directory\<rparr>"

definition enable_paging :: "'a paging_state_scheme \<Rightarrow> 'a paging_state_scheme" where
  "enable_paging m = m\<lparr>paging_enabled := True\<rparr>"

definition paging_switch :: "'a paging_state_scheme \<Rightarrow> u32 \<Rightarrow> fault + 'a paging_state_scheme" where
  "paging_switch m directory =
     bindE (wread m directory 0) (\<lambda>entry.
       Inr ((paging_load_directory m entry)\<lparr>current_directory := entry\<rparr>))"

section \<open>Addresses\<close>

definition paging_is_aligned :: "u32 \<Rightarrow> bool" where
  "paging_is_aligned addr \<longleftrightarrow> addr mod of_nat PAGING_PAGE_SIZE = 0"

text \<open>
  The two out parameters keep their old values when the address is not aligned.
\<close>

definition paging_get_indexes :: "u32 \<Rightarrow> u32 \<times> u32 \<Rightarrow> int \<times> (u32 \<times> u32)" where
  "paging_get_indexes virt_addr out =
     (if \<not> paging_is_aligned virt_addr then (- EINVARG, out)
      else (0, (virt_addr div of_nat (PAGING_TOTAL_ENTRIES_PER_TABLE * PAGING_PAGE_SIZE),
                virt_addr mod of_nat (PAGING_TOTAL_ENTRIES_PER_TABLE * PAGING_PAGE_SIZE)
                  div of_nat PAGING_PAGE_SIZE)))"

definition paging_align_address :: "u32 \<Rightarrow> u32" where
  "paging_align_address ptr =
     (if ptr mod of_nat PAGING_PAGE_SIZE \<noteq> 0
      then ptr + of_nat PAGING_PAGE_SIZE - ptr mod of_nat PAGING_PAGE_SIZE else ptr)"

definition paging_align_to_lower_page :: "u32 \<Rightarrow> u32" where
  "paging_align_to_lower_page addr = addr - addr mod of_nat PAGING_PAGE_SIZE"

section \<open>Entries\<close>

definition paging_set ::
  "'a machine_scheme \<Rightarrow> u32 \<Rightarrow> u32 \<Rightarrow> u32 \<Rightarrow> fault + (int \<times> 'a machine_scheme)" where
  "paging_set m directory virt_addr val =
     (if \<not> paging_is_aligned virt_addr then Inr (- EINVARG, m)
      else
        (let (res, directory_index, table_index) = paging_get_indexes virt_addr (0, 0)
         in if res < 0 then Inr (res, m)
            else bindE (wread m directory (unat directory_index)) (\<lambda>entry.
                 bindE (wwrite m (entry AND 0xfffff000) (unat table_index) val) (\<lambda>m'.
                   Inr (0, m')))))"

definition paging_get :: "'a machine_scheme \<Rightarrow> u32 \<Rightarrow> u32 \<Rightarrow> fault + u32" where
  "paging_get m directory virt =
     (let (res, directory_index, table_index) = paging_get_indexes virt (0, 0)
      in bindE (wread m directory (unat directory_index)) (\<lambda>entry.
           wread m (entry AND 0xfffff000) (unat table_index)))"

definition paging_map ::
  "'a machine_scheme \<Rightarrow> u32 \<Rightarrow> u32 \<Rightarrow> u32 \<Rightarrow> u32 \<Rightarrow> fault + (int \<times> 'a machine_scheme)" where
  "paging_map m directory virt phys flags =
     (if virt mod of_nat PAGING_PAGE_SIZE \<noteq> 0 \<or> phys mod of_nat PAGING_PAGE_SIZE \<noteq> 0
      then Inr (- EINVARG, m)
      else bindE (wread m directory 0) (\<lambda>entries. paging_set m entries virt (phys OR flags)))"

function paging_map_range ::
  "'a machine_scheme \<Rightarrow> u32 \<Rightarrow> u32 \<Rightarrow> u32 \<Rightarrow> int \<Rightarrow> u32 \<Rightarrow> int \<Rightarrow> fault + (int \<times> 'a machine_scheme)" where
  "paging_map_range m directory virt phys count flags res =
     (if 0 < count then
        bindE (paging_map m directory virt phys flags) (\<lambda>(res', m').
          if res' < 0 then Inr (res', m')
          else paging_map_range m' directory (virt + of_nat PAGING_PAGE_SIZE)
                 (phys + of_nat PAGING_PAGE_SIZE) (count - 1) flags res')
      else Inr (res, m))"
  by pat_completeness auto
termination
  by (relation "measure (\<lambda>(m, d, v, p, count, f, r). nat count)") auto

declare paging_map_range.simps [simp del]

definition paging_map_to ::
  "'a machine_scheme \<Rightarrow> u32 \<Rightarrow> u32 \<Rightarrow> u32 \<Rightarrow> u32 \<Rightarrow> u32 \<Rightarrow> fault + (int \<times> 'a machine_scheme)" where
  "paging_map_to m directory virt phys phys_end flags =
     (if virt mod of_nat PAGING_PAGE_SIZE \<noteq> 0 then Inr (- EINVARG, m)
      else if phys mod of_nat PAGING_PAGE_SIZE \<noteq> 0 then Inr (- EINVARG, m)
      else if phys_end mod of_nat PAGING_PAGE_SIZE \<noteq> 0 then Inr (- EINVARG, m)
      else if phys_end < phys then Inr (- EINVARG, m)
      else (let total_bytes = phys_end - phys;
                total_pages = uint (total_bytes div of_nat PAGING_PAGE_SIZE)
            in paging_map_range m directory virt phys total_pages flags 0))"

definition paging_get_physical_address :: "'a machine_scheme \<Rightarrow> u32 \<Rightarrow> u32 \<Rightarrow> fault + u32" where
  "paging_get_physical_address m directory virt =
     (let virt_addr_new = paging_align_to_lower_page virt;
          difference = virt - virt_addr_new
      in bindE (paging_get m directory virt_addr_new) (\<lambda>entry.
           Inr ((entry AND 0xfffff000) + difference)))"

section \<open>Freeing a directory\<close>

primrec paging_free_tables :: "'a machine_scheme \<Rightarrow> u32 \<Rightarrow> nat \<Rightarrow> fault + 'a machine_scheme" where
  "paging_free_tables m chunk 0 = Inr m"
| "paging_free_tables m chunk (Suc i) =
     bindE (paging_free_tables m chunk i) (\<lambda>m1.
     bindE (wread m1 chunk 0) (\<lambda>directoryEntry.
     bindE (wread m1 directoryEntry i) (\<lambda>entry.
       kfree m1 (entry AND 0xfffff000))))"

definition paging_free :: "'a machine_scheme \<Rightarrow> u32 \<Rightarrow> fault + 'a machine_scheme" where
  "paging_free m chunk =
     bindE (paging_free_tables m chunk 1024) (\<lambda>m1.
     bindE (wread m1 chunk 0) (\<lambda>directoryEntry.
     bindE (kfree m1 directoryEntry) (\<lambda>m2.
       kfree m2 chunk)))"

section \<open>Pages and offsets\<close>

definition pn :: "u32 \<Rightarrow> nat" where
  "pn a = unat a div 4096"

definition off :: "u32 \<Rightarrow> nat" where
  "off a = unat a mod 4096"

lemma addr_eq_iff: "a = b \<longleftrightarrow> pn a = pn b \<and> off a = off b"
  unfolding pn_def off_def by (metis div_mult_mod_eq word_unat_eq_iff)

lemma pn_bound: "pn a < 1048576"
  using unsigned_less [of a, where 'a = nat] by (simp add: pn_def less_mult_imp_div_less)

lemma aligned_iff_off: "paging_is_aligned a \<longleftrightarrow> off a = 0"
  by (simp add: paging_is_aligned_def off_def paging_consts word_unat_eq_iff unat_mod)

lemma unat_aligned: "off t = 0 \<Longrightarrow> unat t = pn t * 4096"
  unfolding pn_def off_def using div_mult_mod_eq [of "unat t" 4096] by simp

lemma unat_add_page:
  assumes "off t = 0" and "k < 4096"
  shows "unat (t + of_nat k) = pn t * 4096 + k"
proof -
  have "pn t * 4096 + k < 2 ^ 32" using pn_bound [of t] assms(2) by simp
  with unat_aligned [OF assms(1)] show ?thesis by (simp add: unat_word_ariths)
qed

lemma pn_add_page: "off t = 0 \<Longrightarrow> k < 4096 \<Longrightarrow> pn (t + of_nat k) = pn t"
  by (subst pn_def) (simp add: unat_add_page)

lemma off_add_page: "off t = 0 \<Longrightarrow> k < 4096 \<Longrightarrow> off (t + of_nat k) = k"
  by (subst off_def) (simp add: unat_add_page)

lemma mask_page: "unat (w AND 0xfffff000 :: u32) = pn w * 4096"
proof -
  have "(0xfffff000 :: u32) = push_bit 12 (mask 20)" by (simp add: mask_eq_exp_minus_1)
  moreover have "w AND push_bit 12 (mask 20) = push_bit 12 (drop_bit 12 w)"
    by (rule bit_word_eqI) (auto simp: bit_simps)
  ultimately have "w AND 0xfffff000 = push_bit 12 (drop_bit 12 w)" by metis
  moreover have "unat (drop_bit 12 w) = pn w" by (simp add: pn_def drop_bit_eq_div unat_div)
  ultimately show ?thesis
    using pn_bound [of w] by (simp add: push_bit_eq_mult unat_word_ariths)
qed

lemma pn_mask [simp]: "pn (w AND 0xfffff000) = pn w"
  by (subst pn_def) (simp add: mask_page)

lemma off_mask [simp]: "off (w AND 0xfffff000) = 0"
  by (subst off_def) (simp add: mask_page)

lemma mask_aligned: "off t = 0 \<Longrightarrow> t AND 0xfffff000 = t"
  by (simp add: addr_eq_iff)

lemma block_addr_page [simp]:
  assumes "s \<le> kheap_blocks" shows "off (block_addr s) = 0" "pn (block_addr s) = 4096 + s"
proof -
  have "unat (block_addr s) = (4096 + s) * 4096" using unat_block_addr [OF assms] by simp
  then show "off (block_addr s) = 0" "pn (block_addr s) = 4096 + s" by (simp_all add: off_def pn_def)
qed

lemma aligned4_page: "off t = 0 \<Longrightarrow> aligned4 t"
proof -
  assume "off t = 0"
  then have "unat t = 4 * (pn t * 1024)" by (simp add: unat_aligned)
  then have "t = 4 * of_nat (pn t * 1024)"
    by (metis of_nat_mult of_nat_numeral of_nat_unat ucast_id)
  then show ?thesis by (metis aligned4_dvd dvd_triv_left)
qed

section \<open>The map a directory represents\<close>

text \<open>
  \<open>table_of m dir i\<close> is the table the \<open>i\<close>-th directory entry points to; \<open>pte_addr m dir va\<close> is the
  address of the entry of the page of \<open>va\<close>. A directory is well formed when it and its 1024
  tables are pairwise different pages and none is at address zero.
\<close>

definition table_of :: "(u32 \<Rightarrow> u8) \<Rightarrow> u32 \<Rightarrow> nat \<Rightarrow> u32" where
  "table_of m dir i = load32 m (dir + of_nat (4 * i)) AND 0xfffff000"

definition pte_addr :: "(u32 \<Rightarrow> u8) \<Rightarrow> u32 \<Rightarrow> u32 \<Rightarrow> u32" where
  "pte_addr m dir va = table_of m dir (pn va div 1024) + of_nat (4 * (pn va mod 1024))"

definition pd_ok :: "(u32 \<Rightarrow> u8) \<Rightarrow> u32 \<Rightarrow> bool" where
  "pd_ok m dir \<longleftrightarrow> off dir = 0 \<and> dir \<noteq> 0 \<and>
     (\<forall>i<1024. table_of m dir i \<noteq> 0 \<and> table_of m dir i \<noteq> dir) \<and>
     inj_on (table_of m dir) {..<1024}"

definition pd_entry :: "(u32 \<Rightarrow> u8) \<Rightarrow> u32 \<Rightarrow> u32 \<Rightarrow> u32" where
  "pd_entry m dir va = load32 m (pte_addr m dir va)"

lemma off_table_of [simp]: "off (table_of m dir i) = 0"
  by (simp add: table_of_def)

lemma pn_div_bound: "pn va div 1024 < 1024"
  using pn_bound [of va] by (simp add: less_mult_imp_div_less)

lemma pn_pte_addr: "pn (pte_addr m dir va) = pn (table_of m dir (pn va div 1024))"
  unfolding pte_addr_def by (rule pn_add_page) (simp_all add: mod_less_divisor less_mult_imp_div_less)

lemma off_pte_addr: "off (pte_addr m dir va) = 4 * (pn va mod 1024)"
  unfolding pte_addr_def by (rule off_add_page) simp_all

lemma aligned4_pte_addr: "aligned4 (pte_addr m dir va)"
  unfolding pte_addr_def by (intro aligned4_add aligned4_mult4 aligned4_page) simp

lemma aligned4_dir: "pd_ok m dir \<Longrightarrow> aligned4 (dir + of_nat (4 * i))"
  by (intro aligned4_add aligned4_mult4 aligned4_page) (simp add: pd_ok_def)

lemma pte_addr_not_dir:
  assumes "pd_ok m dir" and "i < 1024"
  shows "pte_addr m dir va \<noteq> dir + of_nat (4 * i)"
proof -
  have "pn (dir + of_nat (4 * i)) = pn dir"
    using assms by (intro pn_add_page) (simp_all add: pd_ok_def)
  moreover have "table_of m dir (pn va div 1024) \<noteq> dir"
    using assms(1) pn_div_bound by (simp add: pd_ok_def)
  ultimately show ?thesis
    using pn_pte_addr [of m dir va] assms(1) by (metis addr_eq_iff off_table_of pd_ok_def)
qed

lemma pte_addr_inj:
  assumes ok: "pd_ok m dir" and eq: "pte_addr m dir va = pte_addr m dir vb"
  shows "pn va = pn vb"
proof -
  have "pn (table_of m dir (pn va div 1024)) = pn (table_of m dir (pn vb div 1024))"
    using eq by (metis pn_pte_addr)
  then have "table_of m dir (pn va div 1024) = table_of m dir (pn vb div 1024)"
    by (simp add: addr_eq_iff)
  then have "pn va div 1024 = pn vb div 1024"
    using ok pn_div_bound by (auto simp: pd_ok_def inj_on_def)
  moreover have "pn va mod 1024 = pn vb mod 1024"
    using arg_cong [OF eq, of off] by (simp add: off_pte_addr)
  ultimately show ?thesis by (metis div_mult_mod_eq)
qed

text \<open>Writing an entry leaves the directory and every other entry as they were.\<close>

lemma table_of_store_pte:
  assumes "pd_ok m dir" and "i < 1024"
  shows "table_of (store32 m (pte_addr m dir va) v) dir i = table_of m dir i"
  unfolding table_of_def
  using wm.load_store_other [OF aligned4_pte_addr aligned4_dir [OF assms(1)] pte_addr_not_dir [OF assms]]
  by simp

lemma pte_addr_store_pte:
  "pd_ok m dir \<Longrightarrow> pte_addr (store32 m (pte_addr m dir va) v) dir vb = pte_addr m dir vb"
  by (simp add: pte_addr_def [of _ _ vb] table_of_store_pte pn_div_bound)

lemma pd_ok_store_pte: "pd_ok m dir \<Longrightarrow> pd_ok (store32 m (pte_addr m dir va) v) dir"
proof -
  assume ok: "pd_ok m dir"
  then have "inj_on (table_of (store32 m (pte_addr m dir va) v) dir) {..<1024} =
      inj_on (table_of m dir) {..<1024}"
    by (intro inj_on_cong) (simp add: table_of_store_pte)
  with ok show ?thesis by (simp add: pd_ok_def table_of_store_pte)
qed

lemma pd_entry_store_pte:
  assumes ok: "pd_ok m dir"
  shows "pd_entry (store32 m (pte_addr m dir va) v) dir vb = (if pn vb = pn va then v else pd_entry m dir vb)"
proof (cases "pn vb = pn va")
  case True
  then have "pte_addr m dir vb = pte_addr m dir va" by (simp add: pte_addr_def)
  then show ?thesis by (simp add: pd_entry_def pte_addr_store_pte [OF ok] True wm.load_store_same)
next
  case False
  then have "pte_addr m dir va \<noteq> pte_addr m dir vb" using pte_addr_inj [OF ok] by metis
  with False show ?thesis
    by (simp add: pd_entry_def pte_addr_store_pte [OF ok] wm.load_store_other aligned4_pte_addr)
qed

section \<open>Entries\<close>

lemma index_unat:
  assumes "paging_is_aligned va"
  shows "unat (va div 4194304) = pn va div 1024"
    and "unat (va mod 4194304 div 4096) = pn va mod 1024"
proof -
  show "unat (va div 4194304) = pn va div 1024"
    by (simp add: unat_div pn_def flip: div_mult2_eq)
  have "unat va mod (4096 * 1024) = 4096 * (unat va div 4096 mod 1024) + unat va mod 4096"
    by (rule mod_mult2_eq)
  then show "unat (va mod 4194304 div 4096) = pn va mod 1024"
    by (simp add: unat_div unat_mod pn_def)
qed

lemma get_indexes_aligned:
  "paging_is_aligned va \<Longrightarrow>
     paging_get_indexes va out = (0, va div 4194304, va mod 4194304 div 4096)"
  by (simp add: paging_get_indexes_def paging_consts)

lemma wread_dir:
  "pd_ok (mem m) dir \<Longrightarrow> wread m dir i = Inr (load32 (mem m) (dir + of_nat (4 * i)))"
  by (simp add: wread_def pd_ok_def)

lemma table_nonzero: "pd_ok m dir \<Longrightarrow> i < 1024 \<Longrightarrow> table_of m dir i \<noteq> 0"
  by (simp add: pd_ok_def)

lemma wread_table:
  "pd_ok (mem m) dir \<Longrightarrow> i < 1024 \<Longrightarrow>
     wread m (table_of (mem m) dir i) j = Inr (load32 (mem m) (table_of (mem m) dir i + of_nat (4 * j)))"
  by (simp add: wread_def table_nonzero)

lemma wwrite_table:
  "pd_ok (mem m) dir \<Longrightarrow> i < 1024 \<Longrightarrow>
     wwrite m (table_of (mem m) dir i) j v =
     Inr (m\<lparr>mem := store32 (mem m) (table_of (mem m) dir i + of_nat (4 * j)) v\<rparr>)"
  by (simp add: wwrite_def table_nonzero)

lemma paging_get_ok:
  assumes ok: "pd_ok (mem m) dir" and al: "paging_is_aligned va"
  shows "paging_get m dir va = Inr (pd_entry (mem m) dir va)"
  unfolding paging_get_def get_indexes_aligned [OF al] Let_def prod.case index_unat [OF al] wread_dir [OF ok]
    bindE_Inr table_of_def [symmetric] wread_table [OF ok pn_div_bound] pd_entry_def pte_addr_def ..

lemma paging_set_ok:
  assumes ok: "pd_ok (mem m) dir" and al: "paging_is_aligned va"
  shows "paging_set m dir va v = Inr (0, m\<lparr>mem := store32 (mem m) (pte_addr (mem m) dir va) v\<rparr>)"
  unfolding paging_set_def get_indexes_aligned [OF al] Let_def prod.case index_unat [OF al] wread_dir [OF ok]
    bindE_Inr table_of_def [symmetric] wwrite_table [OF ok pn_div_bound] pte_addr_def
  using al by simp

section \<open>Mapping ranges\<close>

text \<open>
  The map after mapping \<open>n\<close> pages from \<open>virt\<close> to \<open>phys\<close>: the page \<open>va\<close> lies in the range when its
  distance from \<open>virt\<close>, modulo 2^32, is less than \<open>n\<close> pages.
\<close>

definition map_pages :: "(u32 \<Rightarrow> u32) \<Rightarrow> u32 \<Rightarrow> u32 \<Rightarrow> nat \<Rightarrow> u32 \<Rightarrow> (u32 \<Rightarrow> u32)" where
  "map_pages e virt phys n flags = (\<lambda>va. if pn (va - virt) < n then (phys + (va - virt)) OR flags else e va)"

lemma aligned_dvd: "paging_is_aligned a \<longleftrightarrow> 4096 dvd a"
proof
  assume "paging_is_aligned a"
  then have "unat a = unat (4096 * of_nat (pn a) :: u32)"
    using unat_aligned [of a] pn_bound [of a] by (simp add: aligned_iff_off unat_word_ariths mult.commute)
  then have "a = 4096 * of_nat (pn a)" by (simp only: word_unat_eq_iff)
  then show "4096 dvd a" by (metis dvd_triv_left)
next
  assume "4096 dvd a"
  then obtain k where "a = 4096 * k" by (elim dvdE)
  then have "unat a = 4096 * unat k mod (4096 * 1048576)" by (simp add: unat_word_ariths)
  then have "unat a mod 4096 = 0" by (simp only: mod_mult2_eq) simp
  then show "paging_is_aligned a" by (simp add: aligned_iff_off off_def)
qed

lemma aligned_diff: "paging_is_aligned a \<Longrightarrow> paging_is_aligned b \<Longrightarrow> paging_is_aligned (a - b)"
  by (simp add: aligned_dvd)

lemma aligned_add: "paging_is_aligned a \<Longrightarrow> paging_is_aligned b \<Longrightarrow> paging_is_aligned (a + b)"
  by (simp add: aligned_dvd)

lemma aligned_page_size [simp]: "paging_is_aligned 4096"
  by (simp add: aligned_dvd)

lemma pn_minus_page:
  assumes "paging_is_aligned x"
  shows "pn (x - 4096) = (if x = 0 then 1048575 else pn x - 1)"
proof (cases "x = 0")
  case False
  have x: "unat x = pn x * 4096" using assms unat_aligned by (simp add: aligned_iff_off)
  with False have "pn x \<noteq> 0" by (metis mult_zero_left unat_eq_zero)
  with x have "4096 \<le> x" by (simp add: word_le_nat_alt)
  then have "unat (x - 4096) = (pn x - 1) * 4096" by (simp add: unat_sub x diff_mult_distrib)
  then show ?thesis using False by (simp add: pn_def [of "x - 4096"])
qed (simp add: pn_def)

lemma map_pages_Suc:
  assumes "n < 1048576" and "paging_is_aligned virt" and "paging_is_aligned va"
  shows "map_pages e virt phys (Suc n) flags va =
    map_pages (\<lambda>va. if pn va = pn virt then phys OR flags else e va) (virt + 4096) (phys + 4096) n flags va"
proof -
  let ?x = "va - virt"
  have al: "paging_is_aligned ?x" using assms(2,3) by (rule aligned_diff [rotated])
  have minus: "va - (virt + 4096) = ?x - 4096" and phys: "phys + 4096 + (?x - 4096) = phys + ?x"
    by (simp_all add: algebra_simps)
  have eq: "pn va = pn virt \<longleftrightarrow> ?x = 0"
    using assms(2,3) by (auto simp: addr_eq_iff [of va virt] aligned_iff_off)
  have "pn ?x = 0 \<longleftrightarrow> ?x = 0" using al addr_eq_iff [of ?x 0] by (simp add: aligned_iff_off pn_def off_def)
  then show ?thesis
    using assms(1) unfolding map_pages_def minus pn_minus_page [OF al] phys eq by auto
qed

definition pd_root :: "(u32 \<Rightarrow> u8) \<Rightarrow> u32 \<Rightarrow> u32 \<Rightarrow> bool" where
  "pd_root m pd dir \<longleftrightarrow> pd \<noteq> 0 \<and> off pd = 0 \<and> load32 m pd = dir \<and> pd_ok m dir \<and>
     (\<forall>i<1024. table_of m dir i \<noteq> pd)"

lemma pd_root_store_pte:
  assumes root: "pd_root m pd dir"
  shows "pd_root (store32 m (pte_addr m dir va) v) pd dir"
proof -
  have ok: "pd_ok m dir" using root by (simp add: pd_root_def)
  have "table_of m dir (pn va div 1024) \<noteq> pd" using root pn_div_bound by (simp add: pd_root_def)
  then have "pte_addr m dir va \<noteq> pd"
    using pn_pte_addr [of m dir va] root by (metis addr_eq_iff off_table_of pd_root_def)
  then have "load32 (store32 m (pte_addr m dir va) v) pd = dir"
    using root by (simp add: pd_root_def wm.load_store_other aligned4_pte_addr aligned4_page)
  with root show ?thesis by (simp add: pd_root_def pd_ok_store_pte table_of_store_pte)
qed

lemma paging_map_ok:
  assumes "pd_root (mem m) pd dir" and "paging_is_aligned virt" and "paging_is_aligned phys"
  shows "paging_map m pd virt phys flags =
    Inr (0, m\<lparr>mem := store32 (mem m) (pte_addr (mem m) dir virt) (phys OR flags)\<rparr>)"
  using assms
  by (simp add: paging_map_def paging_is_aligned_def wread_def pd_root_def)
    (simp add: paging_set_ok paging_is_aligned_def)

text \<open>What a sequence of entry writes leaves alone: every byte outside the tables.\<close>

definition tables_only :: "u32 \<Rightarrow> (u32 \<Rightarrow> u8) \<Rightarrow> (u32 \<Rightarrow> u8) \<Rightarrow> bool" where
  "tables_only dir m m' \<longleftrightarrow> (\<forall>i<1024. table_of m' dir i = table_of m dir i) \<and>
     (\<forall>a. (\<forall>i<1024. pn a \<noteq> pn (table_of m dir i)) \<longrightarrow> m' a = m a)"

lemma tables_only_refl: "tables_only dir m m"
  by (simp add: tables_only_def)

lemma tables_only_trans: "tables_only dir m m' \<Longrightarrow> tables_only dir m' m'' \<Longrightarrow> tables_only dir m m''"
  by (simp add: tables_only_def)

lemma aligned4_off: "aligned4 a \<Longrightarrow> i < 4 \<Longrightarrow> off a + i < 4096"
proof -
  assume "aligned4 a" and i: "i < 4"
  then obtain k where "a = 4 * k" by (auto simp: aligned4_dvd elim!: dvdE)
  then have "unat a = 4 * unat k mod (4 * 1073741824)" by (simp add: unat_word_ariths)
  then have "unat a = 4 * (unat k mod 1073741824)" by (simp only: mult_mod_right)
  then have "off a = 4 * (unat k mod 1073741824) mod (4 * 1024)" by (simp add: off_def)
  then have "off a = 4 * (unat k mod 1073741824 mod 1024)" by (simp only: mult_mod_right)
  moreover have "unat k mod 1073741824 mod 1024 < 1024" by simp
  ultimately show ?thesis using i by linarith
qed

lemma page_split: "a = (a AND 0xfffff000) + of_nat (off a)"
proof -
  have k: "off a < 4096" by (simp add: off_def)
  show ?thesis
    using pn_add_page [OF off_mask k, of a] off_add_page [OF off_mask k, of a]
    by (simp add: addr_eq_iff [of a])
qed

lemma pn_word: "aligned4 a \<Longrightarrow> i < 4 \<Longrightarrow> pn (a + of_nat i) = pn a"
proof -
  assume a: "aligned4 a" "i < 4"
  have "a + of_nat i = (a AND 0xfffff000) + of_nat (off a) + of_nat i"
    using page_split [of a] by metis
  also have "\<dots> = (a AND 0xfffff000) + of_nat (off a + i)" by (simp only: of_nat_add add.assoc)
  finally show ?thesis using pn_add_page [OF off_mask aligned4_off [OF a]] by (metis pn_mask)
qed

text \<open>A word store touches one page only.\<close>

lemma store32_page:
  assumes "aligned4 a" and "pn b \<noteq> pn a"
  shows "store32 m a v b = m b"
  using pn_word [OF assms(1), of 0] pn_word [OF assms(1), of 1] pn_word [OF assms(1), of 2]
    pn_word [OF assms(1), of 3] assms(2)
  by (auto simp: store32_def)

lemma tables_only_store_pte:
  assumes "pd_ok m dir" shows "tables_only dir m (store32 m (pte_addr m dir va) v)"
  using assms pn_div_bound [of va]
  by (auto simp: tables_only_def table_of_store_pte pn_pte_addr intro!: store32_page aligned4_pte_addr)

lemma paging_map_range_ok:
  assumes "pd_root (mem m) pd dir" and "paging_is_aligned virt" and "paging_is_aligned phys"
    and "n \<le> 1048576"
  shows "\<exists>mem'. paging_map_range m pd virt phys (int n) flags r =
      Inr (if n = 0 then r else 0, m\<lparr>mem := mem'\<rparr>) \<and> pd_root mem' pd dir \<and> tables_only dir (mem m) mem' \<and>
      (\<forall>va. paging_is_aligned va \<longrightarrow>
         pd_entry mem' dir va = map_pages (pd_entry (mem m) dir) virt phys n flags va)"
  using assms
proof (induction n arbitrary: m virt phys r)
  case 0
  then show ?case
    by (subst paging_map_range.simps) (auto simp: map_pages_def tables_only_refl intro!: exI [of _ "mem m"])
next
  case (Suc n)
  let ?m1 = "m\<lparr>mem := store32 (mem m) (pte_addr (mem m) dir virt) (phys OR flags)\<rparr>"
  have ok: "pd_ok (mem m) dir" using Suc.prems(1) by (simp add: pd_root_def)
  have root1: "pd_root (mem ?m1) pd dir" using pd_root_store_pte [OF Suc.prems(1)] by simp
  have step: "paging_map_range m pd virt phys (int (Suc n)) flags r =
      paging_map_range ?m1 pd (virt + 4096) (phys + 4096) (int n) flags 0"
    by (subst paging_map_range.simps)
      (simp add: paging_map_ok [OF Suc.prems(1-3)] paging_consts)
  have "paging_is_aligned (virt + 4096)" "paging_is_aligned (phys + 4096)" "n \<le> 1048576"
    using Suc.prems by (simp_all add: aligned_add)
  from Suc.IH [OF root1 this, of 0] obtain mem' where
    run: "paging_map_range ?m1 pd (virt + 4096) (phys + 4096) (int n) flags 0 = Inr (0, ?m1\<lparr>mem := mem'\<rparr>)"
    and rest: "pd_root mem' pd dir" "tables_only dir (mem ?m1) mem'"
    and entries: "\<And>va. paging_is_aligned va \<Longrightarrow> pd_entry mem' dir va =
        map_pages (pd_entry (mem ?m1) dir) (virt + 4096) (phys + 4096) n flags va"
    by (auto split: if_splits)
  have e1: "pd_entry (mem ?m1) dir = (\<lambda>va. if pn va = pn virt then phys OR flags else pd_entry (mem m) dir va)"
    by (simp add: fun_eq_iff pd_entry_store_pte [OF ok])
  have n: "n < 1048576" using Suc.prems(4) by simp
  have "pd_entry mem' dir va = map_pages (pd_entry (mem m) dir) virt phys (Suc n) flags va"
    if "paging_is_aligned va" for va
    unfolding entries [OF that] e1 map_pages_Suc [OF n Suc.prems(2) that] ..
  moreover have "tables_only dir (mem m) mem'"
    using tables_only_trans [OF tables_only_store_pte [OF ok]] rest(2) by simp
  ultimately show ?case using step run rest(1) by (intro exI [of _ mem']) simp
qed

lemma paging_map_to_ok:
  assumes root: "pd_root (mem m) pd dir" and al: "paging_is_aligned virt" "paging_is_aligned phys"
    "paging_is_aligned phys_end" and le: "phys \<le> phys_end"
  shows "\<exists>mem'. paging_map_to m pd virt phys phys_end flags = Inr (0, m\<lparr>mem := mem'\<rparr>) \<and>
      pd_root mem' pd dir \<and> tables_only dir (mem m) mem' \<and>
      (\<forall>va. paging_is_aligned va \<longrightarrow>
         pd_entry mem' dir va = map_pages (pd_entry (mem m) dir) virt phys (pn (phys_end - phys)) flags va)"
proof -
  have n: "uint ((phys_end - phys) div 4096) = int (pn (phys_end - phys))"
    by (simp add: pn_def uint_div zdiv_int)
  have "pn (phys_end - phys) \<le> 1048576" using pn_bound [of "phys_end - phys"] by simp
  from paging_map_range_ok [OF root al(1,2) this, of flags 0] show ?thesis
    using al le by (simp add: paging_map_to_def paging_is_aligned_def paging_consts n leD)
qed

lemma paging_map_to_error:
  assumes "\<not> paging_is_aligned virt \<or> \<not> paging_is_aligned phys \<or> \<not> paging_is_aligned phys_end \<or>
    phys_end < phys"
  shows "paging_map_to m pd virt phys phys_end flags = Inr (- EINVARG, m)"
  using assms by (auto simp: paging_map_to_def paging_is_aligned_def)

section \<open>The directory \<open>paging_new\<close> builds\<close>

lemma low_bits:
  assumes "off t = 0" and "unat (x :: u32) < 4096"
  shows "\<not> bit t n \<or> \<not> bit x n"
proof (cases "n < 12")
  case True
  have "unat (take_bit 12 t) = 0" using assms(1) by (simp add: off_def take_bit_eq_mod unat_mod)
  then have "take_bit 12 t = 0" by (simp only: unat_eq_zero)
  then have "bit (take_bit 12 t) n = False" by simp
  with True show ?thesis by (simp add: bit_take_bit_iff)
next
  case False
  have "unat (take_bit 12 x) = unat x" using assms(2) by (simp add: take_bit_eq_mod unat_mod)
  then have "take_bit 12 x = x" by (simp only: word_unat_eq_iff)
  then have "bit x n = bit (take_bit 12 x) n" by simp
  with False show ?thesis by (simp add: bit_take_bit_iff)
qed

lemma or_low: "off t = 0 \<Longrightarrow> unat x < 4096 \<Longrightarrow> t OR x = t + x"
  using low_bits by (intro disjunctive_add [symmetric]) blast

lemma pn_or_low: "off t = 0 \<Longrightarrow> unat x < 4096 \<Longrightarrow> pn (t OR x) = pn t"
  using pn_add_page [of t "unat x"] by (simp add: or_low)

lemma mask_or_low: "off t = 0 \<Longrightarrow> unat x < 4096 \<Longrightarrow> (t OR x) AND 0xfffff000 = t"
  by (simp add: addr_eq_iff pn_or_low)

lemma unat_flags: "unat (ucast (flags :: u8) :: u32) < 4096"
  using unsigned_less [of flags, where 'a = nat] by (simp add: unsigned_ucast_eq take_bit_nat_eq_self)

lemma or_lt_4096:
  assumes "unat (x :: u32) < 4096" and "unat y < 4096" shows "unat (x OR y) < 4096"
proof -
  have e: "take_bit 12 z = z" if "unat z < 4096" for z :: u32
  proof -
    have "unat (take_bit 12 z) = unat z" using that by (simp add: take_bit_eq_mod unat_mod)
    then show ?thesis by (simp only: word_unat_eq_iff)
  qed
  have "take_bit 12 (x OR y) = x OR y" using e assms by (simp add: take_bit_or)
  then have "unat (x OR y) = unat (take_bit 12 (x OR y))" by simp
  also have "\<dots> = unat (x OR y) mod 4096" by (simp add: take_bit_eq_mod unat_mod del: take_bit_or)
  also have "\<dots> < 4096" by simp
  finally show ?thesis .
qed

text \<open>A word at an aligned address is determined by the bytes of its page.\<close>

lemma load32_cong_page:
  assumes "aligned4 a" and "\<And>b. pn b = pn a \<Longrightarrow> m b = m' b"
  shows "load32 m a = load32 m' a"
  using pn_word [OF assms(1), of 0] pn_word [OF assms(1), of 1] pn_word [OF assms(1), of 2]
    pn_word [OF assms(1), of 3] assms(2)
  by (simp add: load32_def)

lemma memset_mem_page:
  assumes "off ptr = 0" and "n \<le> 4096" and "pn b \<noteq> pn ptr"
  shows "memset_mem m ptr c n b = m b"
proof -
  have "pn b = pn ptr" if "unat (b - ptr) < n"
    using pn_add_page [OF assms(1), of "unat (b - ptr)"] that assms(2) by simp
  then show ?thesis using assms(2,3) by (auto simp: memset_mem_apply)
qed

lemma fill_page:
  assumes "off base = 0" and "n \<le> 1024" and "pn b \<noteq> pn base"
  shows "wm.fill m base f n b = m b"
  using assms(2)
proof (induction n)
  case (Suc n)
  have "pn (base + of_nat (4 * n)) = pn base" using Suc.prems assms(1) by (intro pn_add_page) simp_all
  moreover have "aligned4 (base + of_nat (4 * n))"
    by (intro aligned4_add aligned4_mult4 aligned4_page assms(1))
  ultimately have "wm.fill m base f (Suc n) b = wm.fill m base f n b"
    using assms(3) unfolding wm.fill.simps by (intro store32_page) simp_all
  then show ?case using Suc by simp
qed simp

lemma kzalloc_page:
  assumes inv: "machine_inv m A" and sz: "0 < unat sz" "unat sz \<le> 4096"
    and room: "card (kh.used A) < kheap_blocks"
  shows "\<exists>r h' mm. kzalloc m sz = Inr (block_addr r, m\<lparr>kernel_heap := h', mem := mm\<rparr>) \<and>
    machine_inv (m\<lparr>kernel_heap := h', mem := mm\<rparr>) (A(r \<mapsto> 1)) \<and> r < kheap_blocks \<and> r \<notin> kh.used A \<and>
    kh.used (A(r \<mapsto> 1)) = insert r (kh.used A) \<and> A r = None \<and>
    (\<forall>b. pn b \<noteq> pn (block_addr r) \<longrightarrow> mm b = mem m b)"
proof -
  from kmalloc_page [OF assms] obtain r h' where r: "kmalloc m sz = Inr (block_addr r, m\<lparr>kernel_heap := h'\<rparr>)"
    "machine_inv (m\<lparr>kernel_heap := h'\<rparr>) (A(r \<mapsto> 1))" "r < kheap_blocks" "r \<notin> kh.used A"
    "kh.used (A(r \<mapsto> 1)) = insert r (kh.used A)" "A r = None" by blast
  let ?mm = "memset_mem (mem m) (block_addr r) 0 (unat sz)"
  have "kzalloc m sz = Inr (block_addr r, m\<lparr>kernel_heap := h', mem := ?mm\<rparr>)"
    using r(1,3) by (simp add: kzalloc_def)
  moreover have "\<forall>b. pn b \<noteq> pn (block_addr r) \<longrightarrow> ?mm b = mem m b"
    using sz(2) r(3) by (auto intro!: memset_mem_page)
  ultimately show ?thesis
    using r by (intro exI [of _ r] exI [of _ h'] exI [of _ ?mm]) (simp add: machine_inv_def)
qed

text \<open>The bytes of the live blocks are kept, as an allocation keeps them.\<close>

definition mem_kept :: "live \<Rightarrow> 'a machine_scheme \<Rightarrow> 'a machine_scheme \<Rightarrow> bool" where
  "mem_kept A m m' \<longleftrightarrow> (\<forall>b x. x \<in> kh.used A \<longrightarrow> pn b = 4096 + x \<longrightarrow> mem m' b = mem m b)"

lemma used_mono: "A \<subseteq>\<^sub>m A' \<Longrightarrow> kh.used A \<subseteq> kh.used A'"
  unfolding kh.used_def covers_def map_le_def by (auto simp: dom_def) (metis domI domIff)

lemma mem_kept_same: "mem m' = mem m \<Longrightarrow> mem_kept A m m'"
  by (simp add: mem_kept_def)

lemma mem_kept_trans: "mem_kept A m m1 \<Longrightarrow> mem_kept A1 m1 m2 \<Longrightarrow> A \<subseteq>\<^sub>m A1 \<Longrightarrow> mem_kept A m m2"
  using used_mono [of A A1] unfolding mem_kept_def by (metis subsetD)

lemma mem_kept_page:
  assumes "r < kheap_blocks" and "r \<notin> kh.used A" and "\<forall>b. pn b \<noteq> pn (block_addr r) \<longrightarrow> mem m' b = mem m b"
  shows "mem_kept A m m'"
proof -
  have "pn (block_addr r) = 4096 + r" using assms(1) by (simp add: less_imp_le)
  then show ?thesis using assms(2,3) unfolding mem_kept_def by (metis add_left_cancel)
qed

lemma paging_new_entries_fill:
  "entry \<noteq> 0 \<Longrightarrow> paging_new_entries m entry offset flags n =
     Inr (m\<lparr>mem := wm.fill (mem m) entry (\<lambda>j. offset + (of_nat (j * PAGING_PAGE_SIZE) OR ucast flags)) n\<rparr>)"
  by (induction n) (simp_all add: wwrite_def)

text \<open>
  The memory while the tables are built: directory entry \<open>k\<close> points to the page \<open>ts ! k\<close>, whose
  entry \<open>j\<close> is the linear address of its page with the flags.
\<close>

definition linear_pte :: "u8 \<Rightarrow> nat \<Rightarrow> nat \<Rightarrow> u32" where
  "linear_pte flags k j = of_nat (k * 4194304) + (of_nat (j * 4096) OR ucast flags)"

definition linear_tables :: "(u32 \<Rightarrow> u8) \<Rightarrow> nat \<Rightarrow> nat list \<Rightarrow> u8 \<Rightarrow> bool" where
  "linear_tables m d ts flags \<longleftrightarrow> (\<forall>k<length ts.
     load32 m (block_addr d + of_nat (4 * k)) = block_addr (ts ! k) OR (ucast flags OR PAGING_IS_WRITEABLE) \<and>
     (\<forall>j<1024. load32 m (block_addr (ts ! k) + of_nat (4 * j)) = linear_pte flags k j))"

lemma aligned4_block: "s \<le> kheap_blocks \<Longrightarrow> aligned4 (block_addr s + of_nat (4 * i))"
  by (intro aligned4_add aligned4_mult4 aligned4_page) simp

definition add_pages :: "live \<Rightarrow> nat list \<Rightarrow> live" where
  "add_pages A ts = (\<lambda>s. if s \<in> set ts then Some 1 else A s)"

lemma add_pages_snoc: "add_pages A (ts @ [r]) = (add_pages A ts)(r \<mapsto> 1)"
  by (auto simp: add_pages_def)

text \<open>Changes outside the pages of the directory and the tables do not matter.\<close>

lemma linear_tables_cong:
  assumes "linear_tables m d ts flags" and "d < kheap_blocks" and "\<forall>t\<in>set ts. t < kheap_blocks"
    and "length ts \<le> 1024"
    and "\<And>b s. s \<in> set (d # ts) \<Longrightarrow> pn b = 4096 + s \<Longrightarrow> m' b = m b"
  shows "linear_tables m' d ts flags"
  unfolding linear_tables_def
proof (intro allI impI conjI)
  have page: "load32 m' (block_addr s + of_nat (4 * i)) = load32 m (block_addr s + of_nat (4 * i))"
    if "s \<in> set (d # ts)" "i < 1024" for s i
  proof -
    have s: "s \<le> kheap_blocks" using that(1) assms(2,3) by auto
    have "pn (block_addr s + of_nat (4 * i)) = 4096 + s"
      using s that(2) by (subst pn_add_page) simp_all
    then have "m' b = m b" if "pn b = pn (block_addr s + of_nat (4 * i))" for b
      using assms(5) [OF \<open>s \<in> set (d # ts)\<close>, of b] that by simp
    moreover have "aligned4 (block_addr s + of_nat (4 * i))"
      using s by (intro aligned4_add aligned4_mult4 aligned4_page) simp
    ultimately show ?thesis by (rule load32_cong_page [rotated])
  qed
  fix k assume k: "k < length ts"
  show "load32 m' (block_addr d + of_nat (4 * k)) = block_addr (ts ! k) OR (ucast flags OR PAGING_IS_WRITEABLE)"
    using page [of d k] k assms(1,4) by (simp add: linear_tables_def)
  show "load32 m' (block_addr (ts ! k) + of_nat (4 * j)) = linear_pte flags k j" if "j < 1024" for j
    using page [of "ts ! k" j] k that assms(1) by (simp add: linear_tables_def)
qed

text \<open>One round of the loop: a fresh page, filled and entered into the directory.\<close>

lemma linear_tables_snoc:
  assumes lin: "linear_tables m d ts flags" and d: "d < kheap_blocks"
    and ts: "\<forall>t\<in>set ts. t < kheap_blocks" and len: "length ts < 1024"
    and r: "r < kheap_blocks" "r \<notin> set ts" "r \<noteq> d" "d \<notin> set ts"
    and m': "m' = store32 (wm.fill mm (block_addr r) (linear_pte flags (length ts)) 1024)
               (block_addr d + of_nat (4 * length ts)) (block_addr r OR (ucast flags OR PAGING_IS_WRITEABLE))"
    and mm: "\<And>b. pn b \<noteq> pn (block_addr r) \<Longrightarrow> mm b = m b"
  shows "linear_tables m' d (ts @ [r]) flags"
proof -
  let ?n = "length ts"
  let ?f = "wm.fill mm (block_addr r) (linear_pte flags ?n) 1024"
  have al: "aligned4 (block_addr s + of_nat (4 * i))" if "s < kheap_blocks" for s i
    using that by (intro aligned4_add aligned4_mult4 aligned4_page) simp
  have page: "pn (block_addr s + of_nat (4 * i)) = 4096 + s" "off (block_addr s + of_nat (4 * i)) = 4 * i"
    if "s < kheap_blocks" "i < 1024" for s i
    using that pn_add_page [of "block_addr s" "4 * i"] off_add_page [of "block_addr s" "4 * i"] by simp_all
  have f: "?f b = m b" if "pn b \<noteq> 4096 + r" for b
    using that r(1) mm by (subst fill_page) simp_all
  have m'_other: "m' b = m b" if "pn b \<noteq> 4096 + r" "pn b \<noteq> 4096 + d" for b
    unfolding m' using that f page [OF d len] by (subst store32_page [OF al [OF d]]) simp_all
  have ne: "block_addr d + of_nat (4 * ?n) \<noteq> block_addr s + of_nat (4 * i)"
    if "s < kheap_blocks" "i < 1024" "s \<noteq> d \<or> i \<noteq> ?n" for s i
    using that page [OF d len] page [OF that(1,2)] by (metis add_left_cancel mult_left_cancel zero_neq_numeral)
  have new_dir: "load32 m' (block_addr d + of_nat (4 * ?n)) = block_addr r OR (ucast flags OR PAGING_IS_WRITEABLE)"
    unfolding m' by (rule wm.load_store_same)
  have new_pte: "load32 m' (block_addr r + of_nat (4 * j)) = linear_pte flags ?n j" if "j < 1024" for j
    unfolding m' using r that wm.fill_load [of "block_addr r" 1024 j mm] al [OF r(1), of 0]
    by (subst wm.load_store_other [OF al [OF d] al [OF r(1)] ne]) simp_all
  have old_dir: "load32 m' (block_addr d + of_nat (4 * k)) = load32 m (block_addr d + of_nat (4 * k))"
    if "k < ?n" for k
  proof -
    have k: "k < 1024" using that len by simp
    have "load32 m' (block_addr d + of_nat (4 * k)) = load32 ?f (block_addr d + of_nat (4 * k))"
      unfolding m' using that k by (intro wm.load_store_other [OF al [OF d] al [OF d] ne]) (simp_all add: d)
    also have "\<dots> = load32 m (block_addr d + of_nat (4 * k))"
      using f r(3) page [OF d k] by (intro load32_cong_page al d) simp
    finally show ?thesis .
  qed
  have old_pte: "load32 m' (block_addr (ts ! k) + of_nat (4 * j)) = load32 m (block_addr (ts ! k) + of_nat (4 * j))"
    if "k < ?n" "j < 1024" for k j
  proof -
    have t: "ts ! k \<in> set ts" "ts ! k < kheap_blocks" using that(1) ts by auto
    then have "ts ! k \<noteq> r" "ts ! k \<noteq> d" using r by auto
    with m'_other page [OF t(2) that(2)] show ?thesis by (intro load32_cong_page al t(2)) simp
  qed
  show ?thesis
    using lin new_dir new_pte old_dir old_pte
    by (auto simp: linear_tables_def nth_append less_Suc_eq)
qed

lemma paging_new_tables_ok:
  assumes inv: "machine_inv m A" and d: "A d = Some 1"
    and room: "card (kh.used A) + n \<le> kheap_blocks" and n: "n \<le> 1024"
  shows "\<exists>ts h' mm. paging_new_tables m (block_addr d) flags n =
      Inr (of_nat (n * 4194304), m\<lparr>kernel_heap := h', mem := mm\<rparr>) \<and>
    machine_inv (m\<lparr>kernel_heap := h', mem := mm\<rparr>) (add_pages A ts) \<and>
    length ts = n \<and> distinct ts \<and> (\<forall>t\<in>set ts. t < kheap_blocks \<and> t \<notin> kh.used A \<and> A t = None) \<and>
    kh.used (add_pages A ts) = set ts \<union> kh.used A \<and> linear_tables mm d ts flags \<and>
    (\<forall>b. pn b \<noteq> 4096 + d \<and> (\<forall>t\<in>set ts. pn b \<noteq> 4096 + t) \<longrightarrow> mm b = mem m b)"
  using room n
proof (induction n)
  case 0
  show ?case using inv
    by (intro exI [of _ "[]"] exI [of _ "kernel_heap m"] exI [of _ "mem m"])
      (simp add: add_pages_def linear_tables_def)
next
  case (Suc n)
  then obtain ts h1 m1 where run: "paging_new_tables m (block_addr d) flags n =
      Inr (of_nat (n * 4194304), m\<lparr>kernel_heap := h1, mem := m1\<rparr>)"
    and inv1: "machine_inv (m\<lparr>kernel_heap := h1, mem := m1\<rparr>) (add_pages A ts)"
    and ts: "length ts = n" "distinct ts" "\<forall>t\<in>set ts. t < kheap_blocks \<and> t \<notin> kh.used A \<and> A t = None"
    and used: "kh.used (add_pages A ts) = set ts \<union> kh.used A" and lin: "linear_tables m1 d ts flags"
    and frame: "\<And>b. pn b \<noteq> 4096 + d \<Longrightarrow> \<forall>t\<in>set ts. pn b \<noteq> 4096 + t \<Longrightarrow> m1 b = mem m b"
    by auto
  have "card (kh.used (add_pages A ts)) \<le> card (set ts) + card (kh.used A)"
    unfolding used by (rule card_Un_le)
  then have room1: "card (kh.used (add_pages A ts)) < kheap_blocks"
    using Suc.prems(1) ts(1) card_length [of ts] by linarith
  from kzalloc_page [OF inv1 _ _ room1, of 4096] obtain r h2 m2 where
    z: "kzalloc (m\<lparr>kernel_heap := h1, mem := m1\<rparr>) 4096 = Inr (block_addr r, m\<lparr>kernel_heap := h2, mem := m2\<rparr>)"
    and inv2: "machine_inv (m\<lparr>kernel_heap := h2, mem := m2\<rparr>) ((add_pages A ts)(r \<mapsto> 1))"
    and r: "r < kheap_blocks" "r \<notin> kh.used (add_pages A ts)" "add_pages A ts r = None"
    and used2: "kh.used ((add_pages A ts)(r \<mapsto> 1)) = insert r (kh.used (add_pages A ts))"
    and frame2: "\<And>b. pn b \<noteq> pn (block_addr r) \<Longrightarrow> m2 b = m1 b"
    by auto
  have "covers A d 1 d" using d by (simp add: covers_def)
  then have du: "d \<in> kh.used A" and dlt: "d < kheap_blocks"
    using machine_inv_bounds [OF inv d] by (auto simp: kh.used_def)
  have rfresh: "r \<notin> set ts" "r \<notin> kh.used A" "r \<noteq> d" "d \<notin> set ts" "A r = None"
    using r used du ts(3) by (auto simp: add_pages_def split: if_splits)
  let ?m3 = "wm.fill m2 (block_addr r) (linear_pte flags n) 1024"
  let ?m4 = "store32 ?m3 (block_addr d + of_nat (4 * n)) (block_addr r OR (ucast flags OR PAGING_IS_WRITEABLE))"
  have fill: "(\<lambda>j. of_nat (n * 4194304) + (of_nat (j * PAGING_PAGE_SIZE) OR ucast flags)) = linear_pte flags n"
    by (simp add: fun_eq_iff linear_pte_def paging_consts)
  have "paging_new_tables m (block_addr d) flags (Suc n) =
      Inr (of_nat (n * 4194304) + 4194304, m\<lparr>kernel_heap := h2, mem := ?m4\<rparr>)"
  proof -
    have sz: "(of_nat (4 * 1024) :: u32) = 4096" "PAGING_TOTAL_ENTRIES_PER_TABLE = 1024"
      "(of_nat (PAGING_PAGE_SIZE * 1024) :: u32) = 4194304"
      by (simp_all add: paging_consts)
    have nz: "block_addr r \<noteq> 0" "block_addr d \<noteq> 0" using r(1) dlt by simp_all
    show ?thesis
      unfolding paging_new_tables.simps run bindE_Inr prod.case sz z paging_new_entries_fill [OF nz(1)] fill
      by (simp add: wwrite_def nz or.assoc)
  qed
  moreover have "of_nat (n * 4194304) + 4194304 = (of_nat (Suc n * 4194304) :: u32)" by simp
  moreover have "machine_inv (m\<lparr>kernel_heap := h2, mem := ?m4\<rparr>) (add_pages A (ts @ [r]))"
    using inv2 unfolding add_pages_snoc by (simp add: machine_inv_def)
  moreover have "kh.used (add_pages A (ts @ [r])) = set (ts @ [r]) \<union> kh.used A"
    unfolding add_pages_snoc used2 used by simp
  moreover have "linear_tables ?m4 d (ts @ [r]) flags"
    by (rule linear_tables_snoc [OF lin dlt _ _ r(1) rfresh(1,3,4) _ frame2])
      (use ts Suc.prems(2) in auto)
  moreover have "?m4 b = mem m b" if "pn b \<noteq> 4096 + d" "\<forall>t\<in>set (ts @ [r]). pn b \<noteq> 4096 + t" for b
  proof -
    have al: "aligned4 (block_addr d + of_nat (4 * n))" using dlt by (intro aligned4_block) simp
    have "pn (block_addr d + of_nat (4 * n)) = 4096 + d"
      using dlt Suc.prems(2) by (subst pn_add_page) simp_all
    with that(1) have "?m4 b = ?m3 b" by (intro store32_page [OF al]) simp
    also have "\<dots> = m2 b" using that(2) r(1) by (intro fill_page) simp_all
    also have "\<dots> = m1 b" using that(2) r(1) by (intro frame2) simp
    also have "\<dots> = mem m b" using that by (intro frame) auto
    finally show ?thesis .
  qed
  ultimately show ?case
    using ts r(1) rfresh
    by (intro exI [of _ "ts @ [r]"] exI [of _ h2] exI [of _ ?m4]) (simp add: add.commute)
qed

text \<open>
  \<open>linear_pd\<close>: the page \<open>p\<close> holds the pointer to the directory page \<open>d\<close>, whose tables \<open>ts\<close>
  map every address to itself.
\<close>

definition linear_pd :: "(u32 \<Rightarrow> u8) \<Rightarrow> nat \<Rightarrow> nat \<Rightarrow> nat list \<Rightarrow> u8 \<Rightarrow> bool" where
  "linear_pd m p d ts flags \<longleftrightarrow> load32 m (block_addr p) = block_addr d \<and> linear_tables m d ts flags \<and>
     length ts = 1024 \<and> distinct (p # d # ts) \<and> (\<forall>t\<in>set (p # d # ts). t < kheap_blocks)"

lemma paging_new_ok:
  assumes inv: "machine_inv m A" and room: "card (kh.used A) + 1026 \<le> kheap_blocks"
  shows "\<exists>p d ts h' mm. paging_new m flags = Inr (block_addr p, m\<lparr>kernel_heap := h', mem := mm\<rparr>) \<and>
    machine_inv (m\<lparr>kernel_heap := h', mem := mm\<rparr>) (add_pages A (p # d # ts)) \<and>
    (\<forall>t\<in>set (p # d # ts). A t = None \<and> t \<notin> kh.used A) \<and>
    linear_pd mm p d ts flags \<and>
    (\<forall>b. (\<forall>t\<in>set (p # d # ts). pn b \<noteq> 4096 + t) \<longrightarrow> mm b = mem m b)"
proof -
  have "card (kh.used A) < kheap_blocks" using room by simp
  from kzalloc_page [OF inv _ _ this, of 4096] obtain d h1 m1 where
    z1: "kzalloc m 4096 = Inr (block_addr d, m\<lparr>kernel_heap := h1, mem := m1\<rparr>)"
    and inv1: "machine_inv (m\<lparr>kernel_heap := h1, mem := m1\<rparr>) (A(d \<mapsto> 1))"
    and d: "d < kheap_blocks" "d \<notin> kh.used A" "A d = None"
    and used1: "kh.used (A(d \<mapsto> 1)) = insert d (kh.used A)"
    and frame1: "\<And>b. pn b \<noteq> pn (block_addr d) \<Longrightarrow> m1 b = mem m b" by auto
  have "card (kh.used (A(d \<mapsto> 1))) \<le> Suc (card (kh.used A))" unfolding used1 by (rule card_insert_le_m1) simp_all
  then have room1: "card (kh.used (A(d \<mapsto> 1))) + 1024 \<le> kheap_blocks" using room by simp
  have lived: "(A(d \<mapsto> 1)) d = Some 1" by simp
  have le: "(1024 :: nat) \<le> 1024" by simp
  from paging_new_tables_ok [OF inv1 lived room1 le, of flags] obtain ts h2 m2 where
    loop: "paging_new_tables (m\<lparr>kernel_heap := h1, mem := m1\<rparr>) (block_addr d) flags 1024 =
      Inr (of_nat (1024 * 4194304), m\<lparr>kernel_heap := h2, mem := m2\<rparr>)"
    and inv2: "machine_inv (m\<lparr>kernel_heap := h2, mem := m2\<rparr>) (add_pages (A(d \<mapsto> 1)) ts)"
    and ts: "length ts = 1024" "distinct ts"
      "\<forall>t\<in>set ts. t < kheap_blocks \<and> t \<notin> kh.used (A(d \<mapsto> 1)) \<and> (A(d \<mapsto> 1)) t = None"
    and used2: "kh.used (add_pages (A(d \<mapsto> 1)) ts) = set ts \<union> kh.used (A(d \<mapsto> 1))"
    and lin: "linear_tables m2 d ts flags"
    and frame2: "\<And>b. pn b \<noteq> 4096 + d \<Longrightarrow> \<forall>t\<in>set ts. pn b \<noteq> 4096 + t \<Longrightarrow> m2 b = m1 b"
    by auto
  have "card (kh.used (add_pages (A(d \<mapsto> 1)) ts)) \<le> card (set ts) + card (kh.used (A(d \<mapsto> 1)))"
    unfolding used2 by (rule card_Un_le)
  moreover have "card (kh.used (A(d \<mapsto> 1))) \<le> Suc (card (kh.used A))"
    unfolding used1 by (rule card_insert_le_m1) simp_all
  ultimately have room2: "card (kh.used (add_pages (A(d \<mapsto> 1)) ts)) < kheap_blocks"
    using room ts(1) card_length [of ts] by linarith
  from kzalloc_page [OF inv2 _ _ room2, of 4] obtain p h3 m3 where
    z3: "kzalloc (m\<lparr>kernel_heap := h2, mem := m2\<rparr>) 4 = Inr (block_addr p, m\<lparr>kernel_heap := h3, mem := m3\<rparr>)"
    and inv3: "machine_inv (m\<lparr>kernel_heap := h3, mem := m3\<rparr>) ((add_pages (A(d \<mapsto> 1)) ts)(p \<mapsto> 1))"
    and p: "p < kheap_blocks" "p \<notin> kh.used (add_pages (A(d \<mapsto> 1)) ts)"
      "add_pages (A(d \<mapsto> 1)) ts p = None"
    and frame3: "\<And>b. pn b \<noteq> pn (block_addr p) \<Longrightarrow> m3 b = m2 b" by auto
  let ?m4 = "store32 m3 (block_addr p) (block_addr d)"
  have fresh: "p \<noteq> d" "p \<notin> set ts" "A p = None" "p \<notin> kh.used A" "d \<notin> set ts"
    "\<forall>t\<in>set ts. t < kheap_blocks \<and> t \<notin> kh.used A \<and> A t = None"
    using p ts(3) used1 used2 by (auto simp: add_pages_def split: if_splits)
  have run: "paging_new m flags = Inr (block_addr p, m\<lparr>kernel_heap := h3, mem := ?m4\<rparr>)"
  proof -
    have sz: "(of_nat (4 * 1024) :: u32) = 4096" "PAGING_TOTAL_ENTRIES_PER_TABLE = 1024"
      by (simp_all add: paging_consts)
    show ?thesis unfolding paging_new_def sz z1 bindE_Inr prod.case loop z3 using p(1) by (simp add: wwrite_def)
  qed
  have pa: "aligned4 (block_addr p)" using p(1) by (intro aligned4_page) simp
  have m4: "?m4 b = m2 b" if "pn b \<noteq> 4096 + p" for b
    using that p(1) frame3 [of b] store32_page [OF pa, of b] by simp
  have "?m4 b = m2 b" if "s \<in> set (d # ts)" "pn b = 4096 + s" for b s
    using that fresh(1,2) by (intro m4) auto
  then have "linear_tables ?m4 d ts flags"
    using fresh(6) ts(1) by (intro linear_tables_cong [OF lin d(1)]) auto
  then have lin4: "linear_pd ?m4 p d ts flags"
    using fresh p(1) d(1) ts by (simp add: linear_pd_def wm.load_store_same)
  have pages: "add_pages A (p # d # ts) = (add_pages (A(d \<mapsto> 1)) ts)(p \<mapsto> 1)"
    by (auto simp: add_pages_def)
  have inv4: "machine_inv (m\<lparr>kernel_heap := h3, mem := ?m4\<rparr>) (add_pages A (p # d # ts))"
    using inv3 unfolding pages by (simp add: machine_inv_def)
  have frame4: "?m4 b = mem m b" if "\<forall>t\<in>set (p # d # ts). pn b \<noteq> 4096 + t" for b
    using that m4 [of b] frame1 [of b] frame2 [of b] d(1) by auto
  have new: "\<forall>t\<in>set (p # d # ts). A t = None \<and> t \<notin> kh.used A" using fresh d by auto
  show ?thesis
    using run inv4 new lin4 frame4
    by (intro exI [of _ p] exI [of _ d] exI [of _ ts] exI [of _ h3] exI [of _ ?m4]) blast
qed

text \<open>Such a directory is well formed and maps every page to itself with the flags.\<close>

lemma linear_table_of:
  assumes "linear_pd m p d ts flags" and "i < 1024"
  shows "table_of m (block_addr d) i = block_addr (ts ! i)"
proof -
  have t: "ts ! i < kheap_blocks" using assms by (simp add: linear_pd_def)
  have "unat (ucast flags OR PAGING_IS_WRITEABLE) < 4096"
    using unat_flags by (intro or_lt_4096) (simp_all add: paging_consts)
  then have "(block_addr (ts ! i) OR (ucast flags OR PAGING_IS_WRITEABLE)) AND 0xfffff000 = block_addr (ts ! i)"
    using t by (intro mask_or_low) simp_all
  with assms show ?thesis by (simp add: table_of_def linear_pd_def linear_tables_def)
qed

lemma linear_pd_root:
  assumes lin: "linear_pd m p d ts flags"
  shows "pd_root m (block_addr p) (block_addr d)"
proof -
  have len: "length ts = 1024" and bounds: "p < kheap_blocks" "d < kheap_blocks"
    "\<And>i. i < 1024 \<Longrightarrow> ts ! i < kheap_blocks \<and> ts ! i \<noteq> p \<and> ts ! i \<noteq> d" "distinct ts"
    using lin by (auto simp: linear_pd_def)
  have ne: "block_addr s \<noteq> block_addr t" if "s < kheap_blocks" "t < kheap_blocks" "s \<noteq> t" for s t
    using that block_addr_inj [of s t] by auto
  have "inj_on (table_of m (block_addr d)) {..<1024}"
  proof (rule inj_onI)
    fix i j assume ij: "i \<in> {..<1024 :: nat}" "j \<in> {..<1024}"
      and eq: "table_of m (block_addr d) i = table_of m (block_addr d) j"
    then have "block_addr (ts ! i) = block_addr (ts ! j)" by (simp add: linear_table_of [OF lin])
    then have "ts ! i = ts ! j" using ne bounds(3) ij by blast
    then show "i = j" using bounds(4) len ij nth_eq_iff_index_eq by fastforce
  qed
  then have "pd_ok m (block_addr d)"
    using bounds ne by (simp add: pd_ok_def linear_table_of [OF lin] less_imp_le)
  then show ?thesis
    using lin bounds ne by (simp add: pd_root_def linear_table_of [OF lin] linear_pd_def)
qed

lemma linear_pte_eq:
  assumes "pn va = k * 1024 + j" and "j < 1024"
  shows "linear_pte flags k j = (va AND 0xfffff000) OR ucast flags"
proof -
  have "unat (va AND 0xfffff000) = unat (of_nat (pn va * 4096) :: u32)"
    unfolding mask_page using pn_bound [of va] by (subst unat_of_nat_u32) simp_all
  then have va: "va AND 0xfffff000 = of_nat (k * 4194304 + j * 4096)"
    using assms(1) by (simp add: word_unat_eq_iff algebra_simps)
  have "unat (of_nat (j * 4096) :: u32) = j * 4096" using assms(2) by (subst unat_of_nat_u32) simp_all
  then have "off (of_nat (j * 4096)) = 0" by (simp add: off_def)
  then have "linear_pte flags k j = of_nat (k * 4194304 + j * 4096) + ucast flags"
    using or_low [OF _ unat_flags] by (simp add: linear_pte_def)
  also have "\<dots> = (va AND 0xfffff000) OR ucast flags"
    unfolding va [symmetric] by (rule or_low [OF off_mask unat_flags, symmetric])
  finally show ?thesis .
qed

lemma linear_pd_entry:
  assumes lin: "linear_pd m p d ts flags"
  shows "pd_entry m (block_addr d) va = (va AND 0xfffff000) OR ucast flags"
proof -
  have "pn va = pn va div 1024 * 1024 + pn va mod 1024" by simp
  from linear_pte_eq [OF this] show ?thesis
    using lin pn_div_bound [of va]
    by (simp add: pd_entry_def pte_addr_def linear_table_of [OF lin]) (simp add: linear_pd_def linear_tables_def)
qed

section \<open>Freeing a directory\<close>

definition drop_pages :: "live \<Rightarrow> nat list \<Rightarrow> live" where
  "drop_pages A ts = (\<lambda>s. if s \<in> set ts then None else A s)"

lemma drop_add_pages: "\<forall>t\<in>set ts. A t = None \<Longrightarrow> drop_pages (add_pages A ts) ts = A"
  by (auto simp: drop_pages_def add_pages_def)

text \<open>
  Ownership: the pages of the root, the directory and the tables are live one-page
  allocations, all different, and the words that link them are in place.
\<close>

definition pd_owned :: "'a machine_scheme \<Rightarrow> live \<Rightarrow> nat \<Rightarrow> nat \<Rightarrow> nat list \<Rightarrow> bool" where
  "pd_owned m A p d ts \<longleftrightarrow> machine_inv m A \<and> distinct (p # d # ts) \<and> length ts = 1024 \<and>
     (\<forall>t\<in>set (p # d # ts). A t = Some 1) \<and> load32 (mem m) (block_addr p) = block_addr d \<and>
     (\<forall>i<1024. table_of (mem m) (block_addr d) i = block_addr (ts ! i))"

lemma paging_free_tables_ok:
  assumes own: "pd_owned m A p d ts" and n: "n \<le> 1024"
  shows "\<exists>h'. paging_free_tables m (block_addr p) n = Inr (m\<lparr>kernel_heap := h'\<rparr>) \<and>
    machine_inv (m\<lparr>kernel_heap := h'\<rparr>) (drop_pages A (take n ts))"
  using n
proof (induction n)
  case 0
  show ?case using own by (intro exI [of _ "kernel_heap m"]) (simp add: drop_pages_def pd_owned_def)
next
  case (Suc n)
  then obtain h1 where run: "paging_free_tables m (block_addr p) n = Inr (m\<lparr>kernel_heap := h1\<rparr>)"
    and inv1: "machine_inv (m\<lparr>kernel_heap := h1\<rparr>) (drop_pages A (take n ts))" by auto
  have lt: "n < length ts" using own Suc.prems by (simp add: pd_owned_def)
  have inv: "machine_inv m A" and live: "\<forall>t\<in>set (p # d # ts). A t = Some 1"
    and dist: "distinct ts" using own by (simp_all add: pd_owned_def)
  have bounds: "p < kheap_blocks" "d < kheap_blocks" using machine_inv_bounds [OF inv, of _ 1] live by fastforce+
  have "ts ! n \<notin> set (take n ts)"
    using dist lt by (metis distinct_take take_Suc_conv_app_nth distinct_append
        disjoint_insert(1) list.simps(15) empty_set)
  then have "drop_pages A (take n ts) (ts ! n) = Some 1" using live lt by (simp add: drop_pages_def)
  from kfree_live [OF inv1 this] obtain h2 where
    free: "kfree (m\<lparr>kernel_heap := h1\<rparr>) (block_addr (ts ! n)) = Inr (m\<lparr>kernel_heap := h2\<rparr>)"
    and inv2: "machine_inv (m\<lparr>kernel_heap := h2\<rparr>) ((drop_pages A (take n ts))(ts ! n := None))" by auto
  have "paging_free_tables m (block_addr p) (Suc n) =
      kfree (m\<lparr>kernel_heap := h1\<rparr>) (table_of (mem m) (block_addr d) n)"
    using bounds own by (simp add: run wread_def pd_owned_def table_of_def)
  also have "table_of (mem m) (block_addr d) n = block_addr (ts ! n)"
    using own Suc.prems by (simp add: pd_owned_def)
  moreover have "(drop_pages A (take n ts))(ts ! n := None) = drop_pages A (take (Suc n) ts)"
    using lt by (auto simp: drop_pages_def take_Suc_conv_app_nth)
  ultimately show ?case using free inv2 by (intro exI [of _ h2]) simp
qed

lemma paging_free_ok:
  assumes own: "pd_owned m A p d ts"
  shows "\<exists>h'. paging_free m (block_addr p) = Inr (m\<lparr>kernel_heap := h'\<rparr>) \<and>
    machine_inv (m\<lparr>kernel_heap := h'\<rparr>) (drop_pages A (p # d # ts))"
proof -
  have inv: "machine_inv m A" and live: "\<forall>t\<in>set (p # d # ts). A t = Some 1"
    and dist: "distinct (p # d # ts)" and len: "length ts = 1024" using own by (simp_all add: pd_owned_def)
  have bounds: "p < kheap_blocks" using machine_inv_bounds [OF inv, of _ 1] live by fastforce
  from paging_free_tables_ok [OF own order_refl] len obtain h1 where
    run: "paging_free_tables m (block_addr p) 1024 = Inr (m\<lparr>kernel_heap := h1\<rparr>)"
    and inv1: "machine_inv (m\<lparr>kernel_heap := h1\<rparr>) (drop_pages A ts)" by auto
  have "drop_pages A ts d = Some 1" using dist live by (simp add: drop_pages_def)
  from kfree_live [OF inv1 this] obtain h2 where
    f2: "kfree (m\<lparr>kernel_heap := h1\<rparr>) (block_addr d) = Inr (m\<lparr>kernel_heap := h2\<rparr>)"
    and inv2: "machine_inv (m\<lparr>kernel_heap := h2\<rparr>) ((drop_pages A ts)(d := None))" by auto
  have "((drop_pages A ts)(d := None)) p = Some 1" using dist live by (simp add: drop_pages_def)
  from kfree_live [OF inv2 this] obtain h3 where
    f3: "kfree (m\<lparr>kernel_heap := h2\<rparr>) (block_addr p) = Inr (m\<lparr>kernel_heap := h3\<rparr>)"
    and inv3: "machine_inv (m\<lparr>kernel_heap := h3\<rparr>) ((drop_pages A ts)(d := None, p := None))"
    by (auto simp: fun_upd_def)
  have "(drop_pages A ts)(d := None, p := None) = drop_pages A (p # d # ts)"
    by (auto simp: drop_pages_def)
  moreover have "paging_free m (block_addr p) = Inr (m\<lparr>kernel_heap := h3\<rparr>)"
    using bounds own by (simp add: paging_free_def run wread_def pd_owned_def f2 f3)
  ultimately show ?thesis using inv3 by auto
qed

lemma machine_inv_functional:
  assumes "machine_inv m A" and "machine_inv m' A" shows "kernel_heap m = kernel_heap m'"
  using assms kh.inv_functional [of "kernel_heap m" A "kernel_heap m'"] by (simp add: machine_inv_def)

lemma linear_pd_owned:
  assumes "machine_inv m (add_pages A (p # d # ts))" and "linear_pd (mem m) p d ts flags"
  shows "pd_owned m (add_pages A (p # d # ts)) p d ts"
  using assms(1) assms(2) [unfolded linear_pd_def] linear_table_of [OF assms(2)]
  unfolding pd_owned_def by (auto simp: add_pages_def)

section \<open>Translation\<close>

lemma mod_page: "a mod 4096 = of_nat (off a)"
  using unat_of_nat_u32 [of "off a"] by (simp add: word_unat_eq_iff unat_mod off_def)

lemma lower_page: "paging_align_to_lower_page a = a AND 0xfffff000"
  using page_split [of a] by (simp add: paging_align_to_lower_page_def paging_consts mod_page) (metis add_diff_cancel_right')

lemma lower_page_aligned [simp]: "paging_is_aligned (a AND 0xfffff000)"
  by (simp add: aligned_iff_off)

lemma pd_entry_mask: "pd_entry m dir (va AND 0xfffff000) = pd_entry m dir va"
  by (simp add: pd_entry_def pte_addr_def)

lemma paging_get_physical_address_ok:
  assumes ok: "pd_ok (mem m) dir"
  shows "paging_get_physical_address m dir va = Inr ((pd_entry (mem m) dir va AND 0xfffff000) + of_nat (off va))"
proof -
  have "va - (va AND 0xfffff000) = of_nat (off va)" using page_split [of va] by (metis add_diff_cancel_left')
  then show ?thesis
    unfolding paging_get_physical_address_def Let_def lower_page paging_get_ok [OF ok lower_page_aligned]
      pd_entry_mask by simp
qed

lemma aligned_less_iff:
  assumes "paging_is_aligned a"
  shows "pn (x AND 0xfffff000) < pn a \<longleftrightarrow> x < a"
proof -
  have "unat a = pn a * 4096" using assms by (simp add: aligned_iff_off unat_aligned)
  then show ?thesis unfolding pn_mask word_less_nat_alt by (simp add: pn_def [of x] div_less_iff_less_mult)
qed

lemma mask_diff_aligned:
  assumes "paging_is_aligned b" shows "(a AND 0xfffff000) - b = (a - b) AND 0xfffff000"
proof -
  have al: "off ((a AND 0xfffff000) - b) = 0"
    using aligned_diff [OF lower_page_aligned assms] by (simp add: aligned_iff_off)
  have k: "off a < 4096" by (simp add: off_def)
  have "a - b = ((a AND 0xfffff000) - b) + of_nat (off a)"
    using page_split [of a] by (metis diff_add_eq)
  then have "pn (a - b) = pn ((a AND 0xfffff000) - b)" using pn_add_page [OF al k] by (simp only:)
  then show ?thesis using al by (simp add: addr_eq_iff)
qed

section \<open>Properties\<close>

lemma demo_directory:
  "\<exists>m A p d ts. machine_inv (m :: machine) A \<and> linear_pd (mem m) p d ts 7 \<and>
     pd_owned m A p d ts"
proof -
  obtain m0 :: machine where m0: "machine_inv m0 Map.empty"
    using kheap_init_ok [of "replicate kheap_blocks 0"] by fastforce
  moreover have "card (kh.used Map.empty) + 1026 \<le> kheap_blocks"
    by (simp add: kh.used_def covers_def kheap_blocks_def)
  ultimately obtain p d ts h' mm where
    "machine_inv (m0\<lparr>kernel_heap := h', mem := mm\<rparr>) (add_pages Map.empty (p # d # ts))" "linear_pd mm p d ts 7"
    using paging_new_ok [of m0 Map.empty 7] by blast
  then have "machine_inv (m0\<lparr>kernel_heap := h', mem := mm\<rparr>) (add_pages Map.empty (p # d # ts))"
    "linear_pd (mem (m0\<lparr>kernel_heap := h', mem := mm\<rparr>)) p d ts 7" by simp_all
  with linear_pd_owned [OF this] show ?thesis by blast
qed

text \<open>
  C16: Mapping a range with page-aligned bounds succeeds and changes the translation exactly as
  promised: an address at distance \<open>x\<close> from \<open>virt\<close> inside the range translates to \<open>phys + x\<close>,
  every other address translates as before, the directory stays well formed, and no byte outside
  its tables is written.
\<close>

theorem paging_map_to_refines:
  assumes root: "pd_root (mem m) pd dir"
    and al: "paging_is_aligned virt" "paging_is_aligned phys" "paging_is_aligned phys_end"
    and le: "phys \<le> phys_end" and flags: "unat flags < 4096"
  shows "\<exists>mem'. paging_map_to m pd virt phys phys_end flags = Inr (0, m\<lparr>mem := mem'\<rparr>) \<and>
    pd_root mem' pd dir \<and> tables_only dir (mem m) mem' \<and>
    (\<forall>va. paging_get_physical_address (m\<lparr>mem := mem'\<rparr>) dir va =
       (if va - virt < phys_end - phys then Inr (phys + (va - virt))
        else paging_get_physical_address m dir va))"
proof -
  from paging_map_to_ok [OF root al le, of flags] obtain mem' where
    run: "paging_map_to m pd virt phys phys_end flags = Inr (0, m\<lparr>mem := mem'\<rparr>)"
    and root': "pd_root mem' pd dir" and frame: "tables_only dir (mem m) mem'"
    and entries: "\<And>va. paging_is_aligned va \<Longrightarrow> pd_entry mem' dir va =
      map_pages (pd_entry (mem m) dir) virt phys (pn (phys_end - phys)) flags va" by blast
  have ok: "pd_ok (mem m) dir" "pd_ok (mem (m\<lparr>mem := mem'\<rparr>)) dir" using root root' by (simp_all add: pd_root_def)
  have "paging_get_physical_address (m\<lparr>mem := mem'\<rparr>) dir va =
      (if va - virt < phys_end - phys then Inr (phys + (va - virt))
       else paging_get_physical_address m dir va)" for va
  proof -
    let ?x = "(va - virt) AND 0xfffff000"
    have e: "pd_entry mem' dir va =
        (if va - virt < phys_end - phys then (phys + ?x) OR flags else pd_entry (mem m) dir va)"
      using entries [OF lower_page_aligned, of va] aligned_less_iff [OF aligned_diff [OF al(3,2)], of "va - virt"]
      unfolding pd_entry_mask map_pages_def mask_diff_aligned [OF al(1)] by simp
    have "off (phys + ?x) = 0" using aligned_add [OF al(2) lower_page_aligned] by (simp add: aligned_iff_off)
    then have "((phys + ?x) OR flags) AND 0xfffff000 = phys + ?x" using flags by (rule mask_or_low)
    moreover have "phys + ?x + of_nat (off va) = phys + (va - virt)"
      unfolding mask_diff_aligned [OF al(1), symmetric] using page_split [of va]
      by (metis add.assoc add_diff_eq diff_add_eq)
    ultimately show ?thesis
      by (simp add: paging_get_physical_address_ok [OF ok(1)] paging_get_physical_address_ok [OF ok(2)] e)
  qed
  with run root' frame show ?thesis by blast
qed

theorem paging_map_to_refines_witness:
  "\<exists>m dir pd mem'. paging_map_to (m :: machine) pd 0x400000 0x2000000 0x2002000 7 =
     Inr (0, m\<lparr>mem := mem'\<rparr>) \<and>
     paging_get_physical_address (m\<lparr>mem := mem'\<rparr>) dir 0x401234 = Inr 0x2001234"
proof -
  obtain m :: machine and p d ts where "linear_pd (mem m) p d ts 7" using demo_directory by blast
  from paging_map_to_refines [OF linear_pd_root [OF this], where virt = "0x400000" and phys = "0x2000000"
      and phys_end = "0x2002000" and flags = 7]
  obtain mem' where r: "paging_map_to m (block_addr p) 0x400000 0x2000000 0x2002000 7 = Inr (0, m\<lparr>mem := mem'\<rparr>)"
    "\<forall>va. paging_get_physical_address (m\<lparr>mem := mem'\<rparr>) (block_addr d) va =
       (if va - 0x400000 < 0x2002000 - 0x2000000 then Inr (0x2000000 + (va - 0x400000))
        else paging_get_physical_address m (block_addr d) va)"
    by (auto simp: paging_is_aligned_def paging_consts)
  from r(2) have "paging_get_physical_address (m\<lparr>mem := mem'\<rparr>) (block_addr d) 0x401234 = Inr 0x2001234"
    by simp
  with r(1) show ?thesis by blast
qed

text \<open>
  With 1026 unused blocks \<open>paging_new\<close> succeeds: it takes 1026 fresh pages, leaves every other
  byte of memory alone, and the directory it builds is well formed and translates every
  address to itself, with the flags in each entry.
\<close>

theorem paging_new_identity:
  assumes inv: "machine_inv m A" and room: "card (kh.used A) + 1026 \<le> kheap_blocks"
  shows "\<exists>p d ts m'. paging_new m flags = Inr (block_addr p, m') \<and> length (p # d # ts) = 1026 \<and>
    (\<forall>t\<in>set (p # d # ts). t \<notin> kh.used A) \<and> machine_inv m' (add_pages A (p # d # ts)) \<and>
    paging_get_directory m' (block_addr p) = Inr (block_addr d) \<and>
    pd_root (mem m') (block_addr p) (block_addr d) \<and>
    (\<forall>va. pd_entry (mem m') (block_addr d) va = (va AND 0xfffff000) OR ucast flags) \<and>
    (\<forall>va. paging_get_physical_address m' (block_addr d) va = Inr va) \<and>
    (\<forall>b. (\<forall>t\<in>set (p # d # ts). pn b \<noteq> 4096 + t) \<longrightarrow> mem m' b = mem m b)"
proof -
  from paging_new_ok [OF inv room, of flags] obtain p d ts h' mm where
    run: "paging_new m flags = Inr (block_addr p, m\<lparr>kernel_heap := h', mem := mm\<rparr>)"
    and inv': "machine_inv (m\<lparr>kernel_heap := h', mem := mm\<rparr>) (add_pages A (p # d # ts))"
    and new: "\<forall>t\<in>set (p # d # ts). A t = None \<and> t \<notin> kh.used A"
    and lin: "linear_pd mm p d ts flags"
    and frame: "\<forall>b. (\<forall>t\<in>set (p # d # ts). pn b \<noteq> 4096 + t) \<longrightarrow> mm b = mem m b" by blast
  let ?m = "m\<lparr>kernel_heap := h', mem := mm\<rparr>"
  have root: "pd_root mm (block_addr p) (block_addr d)" by (rule linear_pd_root [OF lin])
  then have ok: "pd_ok (mem ?m) (block_addr d)" by (simp add: pd_root_def)
  have "paging_get_physical_address ?m (block_addr d) va = Inr va" for va
    using page_split [of va] unfolding paging_get_physical_address_ok [OF ok]
    by (simp add: linear_pd_entry [OF lin] mask_or_low unat_flags)
  moreover have "paging_get_directory ?m (block_addr p) = Inr (block_addr d)"
    using root by (simp add: paging_get_directory_def wread_def pd_root_def)
  moreover have "length (p # d # ts) = 1026" using lin by (simp add: linear_pd_def)
  ultimately show ?thesis
    using run inv' new root frame linear_pd_entry [OF lin]
    by (intro exI [of _ p] exI [of _ d] exI [of _ ts] exI [of _ ?m]) simp
qed

theorem paging_new_identity_witness:
  "\<exists>m p d m'. paging_new (m :: machine) 7 = Inr (block_addr p, m') \<and>
     paging_get_physical_address m' (block_addr d) 0xB8000 = Inr 0xB8000"
proof -
  obtain m :: machine where "machine_inv m Map.empty"
    using kheap_init_ok [of "replicate kheap_blocks 0"] by fastforce
  moreover have "card (kh.used Map.empty) + 1026 \<le> kheap_blocks"
    by (simp add: kh.used_def covers_def kheap_blocks_def)
  ultimately show ?thesis using paging_new_identity [of m Map.empty 7] by blast
qed

text \<open>
  Freeing a directory \<open>paging_new\<close> built succeeds and gives the kernel heap back exactly as
  it was: all 1026 pages return, none is freed twice.
\<close>

theorem paging_new_free_roundtrip:
  assumes inv: "machine_inv m A" and room: "card (kh.used A) + 1026 \<le> kheap_blocks"
  shows "\<exists>pd m' m''. paging_new m flags = Inr (pd, m') \<and> paging_free m' pd = Inr m'' \<and>
    kernel_heap m'' = kernel_heap m \<and> mem m'' = mem m'"
proof -
  from paging_new_ok [OF inv room, of flags] obtain p d ts h' mm where
    run: "paging_new m flags = Inr (block_addr p, m\<lparr>kernel_heap := h', mem := mm\<rparr>)"
    and inv': "machine_inv (m\<lparr>kernel_heap := h', mem := mm\<rparr>) (add_pages A (p # d # ts))"
    and new: "\<forall>t\<in>set (p # d # ts). A t = None"
    and lin: "linear_pd mm p d ts flags" by blast
  let ?m = "m\<lparr>kernel_heap := h', mem := mm\<rparr>"
  have "pd_owned ?m (add_pages A (p # d # ts)) p d ts" using lin by (intro linear_pd_owned [OF inv']) simp
  from paging_free_ok [OF this] obtain h'' where
    free: "paging_free ?m (block_addr p) = Inr (?m\<lparr>kernel_heap := h''\<rparr>)"
    and inv'': "machine_inv (?m\<lparr>kernel_heap := h''\<rparr>) A"
    unfolding drop_add_pages [OF new] by blast
  have "kernel_heap (?m\<lparr>kernel_heap := h''\<rparr>) = kernel_heap m"
    by (rule machine_inv_functional [OF inv'' inv])
  with run free show ?thesis by auto
qed

theorem paging_new_free_roundtrip_witness:
  "\<exists>m pd m' m''. paging_new (m :: machine) 3 = Inr (pd, m') \<and> paging_free m' pd = Inr m'' \<and>
     kernel_heap m'' = kernel_heap m"
proof -
  obtain m :: machine where "machine_inv m Map.empty"
    using kheap_init_ok [of "replicate kheap_blocks 0"] by fastforce
  moreover have "card (kh.used Map.empty) + 1026 \<le> kheap_blocks"
    by (simp add: kh.used_def covers_def kheap_blocks_def)
  ultimately show ?thesis using paging_new_free_roundtrip [of m Map.empty 3] by blast
qed

text \<open>
  Rounding an address up to a page gives the least page-aligned address not below it, except
  in the last page, where the 32-bit sum wraps to address zero.
\<close>

theorem paging_align_address_bounds:
  "paging_is_aligned (paging_align_address a) \<and>
   unat (paging_align_address a) =
     (if unat a \<le> 2 ^ 32 - 4096 then (unat a + 4095) div 4096 * 4096 else 0)"
proof -
  have "paging_align_address a = heap_align_value_to_upper a"
    by (simp add: paging_align_address_def heap_align_value_to_upper_def paging_consts config Let_def)
  moreover have "unat (heap_align_value_to_upper a) = 
     (if unat a \<le> 2 ^ 32 - 4096 then (unat a + 4095) div 4096 * 4096 else 0)"
    by (rule heap_align_value_unat)
  ultimately show ?thesis by (simp add: aligned_iff_off off_def)
qed

end
