(* ===== verification/DiskStream.thy ===== *)
theory DiskStream
  imports Paging
begin

text \<open>
  The disk driver (\<^verbatim>\<open>disk/disk.c\<close>) and the byte stream over it (\<^verbatim>\<open>disk/streamer.c\<close>). The driver is
  modelled down to its port accesses, over an ATA device that is a parameter (\<open>ata_device\<close> states
  the documented behaviour it relies on). Above the driver a disk is what reading its sectors
  gives: \<open>img lba i\<close> is byte \<open>i\<close> of sector \<open>lba\<close>.
\<close>

section \<open>Port level: reading sectors\<close>

type_synonym disk_img = "int \<Rightarrow> nat \<Rightarrow> u8"

text \<open>The instructions of \<^verbatim>\<open>io/io.asm\<close> on a device with states \<open>'d\<close>.\<close>

record 'd ports =
  outb :: "u16 \<Rightarrow> u8 \<Rightarrow> 'd \<Rightarrow> 'd"
  insb :: "u16 \<Rightarrow> 'd \<Rightarrow> u8 \<times> 'd"
  insw :: "u16 \<Rightarrow> 'd \<Rightarrow> u16 \<times> 'd"

text \<open>The wait for the buffer; \<open>None\<close> when the device never becomes ready.\<close>

partial_function (option) disk_wait :: "'d ports \<Rightarrow> 'd \<Rightarrow> 'd option" where
  "disk_wait io d =
     (let (c, d') = insb io 0x1F7 d
      in if c AND 0x08 \<noteq> 0 then Some d' else disk_wait io d')"

primrec disk_copy_words :: "'d ports \<Rightarrow> nat \<Rightarrow> 'd \<Rightarrow> u16 list \<times> 'd" where
  "disk_copy_words io 0 d = ([], d)"
| "disk_copy_words io (Suc n) d =
     (let (w, d1) = insw io 0x1F0 d;
          (ws, d2) = disk_copy_words io n d1
      in (w # ws, d2))"

primrec disk_copy_blocks :: "'d ports \<Rightarrow> nat \<Rightarrow> 'd \<Rightarrow> (u16 list \<times> 'd) option" where
  "disk_copy_blocks io 0 d = Some ([], d)"
| "disk_copy_blocks io (Suc b) d =
     (case disk_wait io d of None \<Rightarrow> None
      | Some d1 \<Rightarrow> (let (ws, d2) = disk_copy_words io 256 d1
                   in case disk_copy_blocks io b d2 of None \<Rightarrow> None
                      | Some (vs, d3) \<Rightarrow> Some (ws @ vs, d3)))"

text \<open>The six register writes, then the data; the words are what \<open>buf\<close> receives.\<close>

definition disk_read_sector :: "'d ports \<Rightarrow> int \<Rightarrow> int \<Rightarrow> 'd \<Rightarrow> (int \<times> u16 list \<times> 'd) option" where
  "disk_read_sector io lba tot d0 =
     (let d1 = outb io 0x1F6 (word_of_int (drop_bit 24 lba OR 0xE0)) d0;
          d2 = outb io 0x1F2 (word_of_int tot) d1;
          d3 = outb io 0x1F3 (word_of_int (lba AND 0xff)) d2;
          d4 = outb io 0x1F4 (word_of_int (drop_bit 8 lba)) d3;
          d5 = outb io 0x1F5 (word_of_int (drop_bit 16 lba)) d4;
          d6 = outb io 0x1F7 0x20 d5
      in case disk_copy_blocks io (nat tot) d6 of None \<Rightarrow> None
         | Some (ws, d7) \<Rightarrow> Some (0, ws, d7))"

section \<open>The disk object\<close>

text \<open>
  The kernel has one \<^verbatim>\<open>struct Disk\<close>; a pointer to a disk is null or points to it. A pointer to a
  \<^verbatim>\<open>struct Filesystem\<close> is the name in the object it points to. \<open>fs_private\<close> is an address.
\<close>

datatype disk_ptr = NullDisk | TheDisk

record Disk =
  disk_type :: u32
  disk_id :: int
  sector_size :: int
  filesystem :: "string option"
  fs_private :: u32

definition BIMBLEOS_DISK_TYPE_REAL :: u32 where "BIMBLEOS_DISK_TYPE_REAL = 0"

record disk_state = paging_state +
  disk :: Disk

definition disk_search_and_init ::
  "('a disk_state_scheme \<Rightarrow> fault + (string option \<times> 'a disk_state_scheme)) \<Rightarrow>
     'a disk_state_scheme \<Rightarrow> fault + 'a disk_state_scheme" where
  "disk_search_and_init fs_resolve m =
     (let m1 = m\<lparr>disk := \<lparr>disk_type = BIMBLEOS_DISK_TYPE_REAL, disk_id = 0,
                 sector_size = BIMBLEOS_SECTOR_SIZE, filesystem = None, fs_private = 0\<rparr>\<rparr>
      in bindE (fs_resolve m1) (\<lambda>(fs, m2). Inr (m2\<lparr>disk := (disk m2)\<lparr>filesystem := fs\<rparr>\<rparr>)))"

definition disk_get :: "int \<Rightarrow> disk_ptr" where
  "disk_get index = (if index = 0 then TheDisk else NullDisk)"

definition sector_bytes :: "disk_img \<Rightarrow> int \<Rightarrow> u8 list" where
  "sector_bytes img lba = map (img lba) [0..<512]"

text \<open>\<^verbatim>\<open>disk_read_block\<close> above the driver: the result and the bytes the buffer receives.\<close>

definition disk_read_block :: "disk_img \<Rightarrow> disk_ptr \<Rightarrow> int \<Rightarrow> int \<Rightarrow> int \<times> u8 list" where
  "disk_read_block img idisk lba tot =
     (if idisk \<noteq> TheDisk then (- EIO, [])
      else (0, concat (map (\<lambda>b. sector_bytes img (lba + int b)) [0..<nat tot])))"

section \<open>Streams\<close>

record DiskStream =
  stream_addr :: u32
  pos :: int
  stream_disk :: disk_ptr

text \<open>
  \<^verbatim>\<open>kzalloc(sizeof(diskStreamer))\<close> asks for the size of a pointer, 4 bytes; the heap rounds it up to
  a block.
\<close>

definition diskstreamer_new :: "'a machine_scheme \<Rightarrow> int \<Rightarrow> fault + (DiskStream option \<times> 'a machine_scheme)" where
  "diskstreamer_new m id_no =
     (let d = disk_get id_no
      in if d = NullDisk then Inr (None, m)
         else bindE (kzalloc m 4) (\<lambda>(p, m1).
                if p = 0 then Inl NullPointer
                else Inr (Some \<lparr>stream_addr = p, pos = 0, stream_disk = d\<rparr>, m1)))"

definition diskstreamer_seek :: "DiskStream \<Rightarrow> int \<Rightarrow> int \<times> DiskStream" where
  "diskstreamer_seek stream p = (0, stream\<lparr>pos := p\<rparr>)"

text \<open>The copy loop: \<open>buff[offset + i]\<close> for \<open>i\<close> from 0.\<close>

primrec copy_from_buff :: "u8 list \<Rightarrow> int \<Rightarrow> nat \<Rightarrow> fault + u8 list" where
  "copy_from_buff buff offset 0 = Inr []"
| "copy_from_buff buff offset (Suc n) =
     bindE (areadi buff offset) (\<lambda>b. bindE (copy_from_buff buff (offset + 1) n) (\<lambda>bs. Inr (b # bs)))"

lemma smod_512_less: "x smod 512 < 512" for x :: int
proof (cases "0 \<le> x")
  case False
  then have "x smod 512 = - (\<bar>x\<bar> mod 512)" by (simp add: smod_int_alt_def sgn_if)
  moreover have "0 \<le> \<bar>x\<bar> mod 512" by simp
  ultimately show ?thesis by linarith
qed (simp add: smod_nonneg)

text \<open>
  The result, the bytes written from \<open>out\<close> on, and the stream afterwards. A request that reaches the end
  of the sector is continued by the recursive call, with what is left of \<open>tot\<close> (possibly 0).
\<close>

function diskstreamer_read :: "disk_img \<Rightarrow> DiskStream \<Rightarrow> int \<Rightarrow> fault + (int \<times> u8 list \<times> DiskStream)" where
  "diskstreamer_read img stream tot =
     (let sector = pos stream sdiv BIMBLEOS_SECTOR_SIZE;
          offset = pos stream smod BIMBLEOS_SECTOR_SIZE;
          overflow = (BIMBLEOS_SECTOR_SIZE \<le> offset + tot);
          total_to_read = (if overflow then tot - (offset + tot - BIMBLEOS_SECTOR_SIZE) else tot);
          (res, buff) = disk_read_block img (stream_disk stream) sector 1
      in if res < 0 then Inr (res, [], stream)
         else bindE (copy_from_buff buff offset (nat total_to_read)) (\<lambda>bytes.
                (let stream1 = stream\<lparr>pos := c_int (pos stream + total_to_read)\<rparr>
                 in if overflow
                    then bindE (diskstreamer_read img stream1 (tot - total_to_read)) (\<lambda>(res', bytes', stream').
                           Inr (res', bytes @ bytes', stream'))
                    else Inr (res, bytes, stream1))))"
  by pat_completeness auto

termination
proof (relation "measure (\<lambda>(img, stream, tot). nat tot)", goal_cases)
  case (2 img stream tot)
  then show ?case using smod_512_less [of "pos stream"] by (auto simp: config split: if_splits)
qed simp

declare diskstreamer_read.simps [simp del]

definition diskstreamer_close :: "'a machine_scheme \<Rightarrow> DiskStream \<Rightarrow> fault + 'a machine_scheme" where
  "diskstreamer_close m stream = kfree m (stream_addr stream)"

section \<open>The byte stream\<close>

text \<open>Byte \<open>p\<close> of the disk, counted from its start.\<close>

definition flat :: "disk_img \<Rightarrow> int \<Rightarrow> u8" where
  "flat img p = img (p div 512) (nat (p mod 512))"

definition bytes_at :: "disk_img \<Rightarrow> int \<Rightarrow> nat \<Rightarrow> u8 list" where
  "bytes_at img p n = map (\<lambda>i. flat img (p + int i)) [0..<n]"

lemma length_bytes_at [simp]: "length (bytes_at img p n) = n"
  by (simp add: bytes_at_def)

lemma nth_bytes_at [simp]: "i < n \<Longrightarrow> bytes_at img p n ! i = flat img (p + int i)"
  by (simp add: bytes_at_def)

lemma bytes_at_add: "bytes_at img p (m + n) = bytes_at img p m @ bytes_at img (p + int m) n"
  by (rule nth_equalityI) (auto simp: nth_append)

lemma copy_from_buff_ok:
  "0 \<le> p \<Longrightarrow> p + int n \<le> int (length buff) \<Longrightarrow>
     copy_from_buff buff p n = Inr (take n (drop (nat p) buff))"
proof (induction n arbitrary: p)
  case (Suc n)
  then have lt: "nat p < length buff" by linarith
  have "copy_from_buff buff (p + 1) n = Inr (take n (drop (Suc (nat p)) buff))"
    using Suc.IH [of "p + 1"] Suc.prems by (simp add: nat_add_distrib)
  moreover have "areadi buff p = Inr (buff ! nat p)" using Suc.prems lt by (simp add: areadi_def)
  ultimately show ?case using lt by (simp add: Cons_nth_drop_Suc [symmetric])
qed simp

lemma sector_slice:
  assumes "0 \<le> p" and "p mod 512 + int n \<le> 512"
  shows "take n (drop (nat (p mod 512)) (sector_bytes img (p div 512))) = bytes_at img p n"
proof (rule nth_equalityI)
  have o: "nat (p mod 512) + n \<le> 512" using assms by linarith
  then show "length (take n (drop (nat (p mod 512)) (sector_bytes img (p div 512)))) = length (bytes_at img p n)"
    by (simp add: sector_bytes_def)
  fix i assume "i < length (take n (drop (nat (p mod 512)) (sector_bytes img (p div 512))))"
  then have i: "i < n" by simp
  have "p mod 512 + int i < 512" using assms(2) i by linarith
  then have "(p + int i) div 512 = p div 512" "(p + int i) mod 512 = p mod 512 + int i"
    using mult_div_mod_eq [of 512 p] pos_mod_sign [of 512 p]
    by (auto intro!: int_div_pos_eq [where r = "p mod 512 + int i"] int_mod_pos_eq [where q = "p div 512"])
  then show "take n (drop (nat (p mod 512)) (sector_bytes img (p div 512))) ! i = bytes_at img p n ! i"
    using i o by (simp add: sector_bytes_def flat_def nat_add_distrib)
qed

lemma disk_read_block_one:
  "disk_read_block img TheDisk lba 1 = (0, sector_bytes img lba)"
  by (simp add: disk_read_block_def)

lemma diskstreamer_read_ok:
  assumes "stream_disk s = TheDisk" and "0 \<le> pos s" and "pos s + int n < 2 ^ 31"
  shows "diskstreamer_read img s (int n) = Inr (0, bytes_at img (pos s) n, s\<lparr>pos := pos s + int n\<rparr>)"
  using assms
proof (induction n arbitrary: s rule: less_induct)
  case (less n)
  let ?p = "pos s" and ?o = "pos s mod 512"
  have o: "0 \<le> ?o" "?o < 512" by simp_all
  have len: "length (sector_bytes img (?p div 512)) = 512" by (simp add: sector_bytes_def)
  show ?case
  proof (cases "512 \<le> ?o + int n")
    case False
    then have "copy_from_buff (sector_bytes img (?p div 512)) ?o n = Inr (bytes_at img ?p n)"
      using less.prems o len by (subst copy_from_buff_ok) (simp_all add: sector_slice)
    then show ?thesis
      using less.prems False
      by (subst diskstreamer_read.simps) (simp add: config sdiv_nonneg smod_nonneg disk_read_block_one)
  next
    case True
    define k where "k = nat (512 - ?o)"
    have k: "int k = 512 - ?o" "k \<le> n" "0 < k" using o True by (auto simp: k_def)
    then obtain l where n: "n = k + l" by (metis le_Suc_ex)
    have copy: "copy_from_buff (sector_bytes img (?p div 512)) ?o k = Inr (bytes_at img ?p k)"
      using less.prems o len k sector_slice [of ?p k img] by (subst copy_from_buff_ok) auto
    have rd: "nat (512 - ?o) = k" by (simp add: k_def)
    let ?s = "s\<lparr>pos := ?p + int k\<rparr>"
    have "diskstreamer_read img ?s (int l) = Inr (0, bytes_at img (?p + int k) l, s\<lparr>pos := ?p + int n\<rparr>)"
      using less.IH [of l ?s] less.prems n k by (simp add: add.assoc)
    moreover have "int n - int k = int l" using n by simp
    ultimately show ?thesis
      using less.prems True copy n k
      by (subst diskstreamer_read.simps)
        (simp add: config sdiv_nonneg smod_nonneg disk_read_block_one Let_def rd bytes_at_add)
  qed
qed

text \<open>What the filesystem relies on: a positioned stream of bytes.\<close>

locale byte_stream =
  fixes valid :: "'s \<Rightarrow> bool"
    and tell :: "'s \<Rightarrow> int"
    and seek :: "'s \<Rightarrow> int \<Rightarrow> int \<times> 's"
    and read :: "'s \<Rightarrow> int \<Rightarrow> fault + (int \<times> u8 list \<times> 's)"
    and contents :: "int \<Rightarrow> nat \<Rightarrow> u8 list"
  assumes seek_ok: "valid s \<Longrightarrow> \<exists>s'. seek s p = (0, s') \<and> valid s' \<and> tell s' = p"
    and read_ok: "valid s \<Longrightarrow> 0 \<le> tell s \<Longrightarrow> tell s + int n < 2 ^ 31 \<Longrightarrow>
      \<exists>s'. read s (int n) = Inr (0, contents (tell s) n, s') \<and> valid s' \<and> tell s' = tell s + int n"
    and contents_add: "contents p (m + n) = contents p m @ contents (p + int m) n"
begin

text \<open>Seek, then read: the bytes at that position, whatever the position before.\<close>

lemma seek_read:
  assumes "valid s" and "0 \<le> p" and "p + int n < 2 ^ 31"
  shows "\<exists>s'. read (snd (seek s p)) (int n) = Inr (0, contents p n, s') \<and> valid s' \<and> tell s' = p + int n"
proof -
  from seek_ok [OF assms(1)] obtain s1 where "seek s p = (0, s1)" "valid s1" "tell s1 = p" by blast
  with read_ok [of s1 n] assms(2,3) show ?thesis by simp
qed

text \<open>Reading in two pieces is reading at once.\<close>

lemma read_split:
  assumes "valid s" and "0 \<le> tell s" and "tell s + int (m + n) < 2 ^ 31"
  shows "\<exists>s1 s2 s3. read s (int m) = Inr (0, contents (tell s) m, s1) \<and>
    read s1 (int n) = Inr (0, contents (tell s + int m) n, s2) \<and>
    read s (int (m + n)) = Inr (0, contents (tell s) m @ contents (tell s + int m) n, s3) \<and>
    tell s2 = tell s3"
proof -
  have "tell s + int m < 2 ^ 31" using assms(3) by simp
  from read_ok [OF assms(1,2) this] obtain s1 where
    s1: "read s (int m) = Inr (0, contents (tell s) m, s1)" "valid s1" "tell s1 = tell s + int m" by blast
  have "0 \<le> tell s1" "tell s1 + int n < 2 ^ 31" using assms s1 by simp_all
  from read_ok [OF s1(2) this] obtain s2 where
    s2: "read s1 (int n) = Inr (0, contents (tell s1) n, s2)" "tell s2 = tell s1 + int n" by blast
  from read_ok [OF assms] obtain s3 where
    s3: "read s (int (m + n)) = Inr (0, contents (tell s) (m + n), s3)" "tell s3 = tell s + int (m + n)"
    by blast
  show ?thesis using s1 s2 s3 by (intro exI [of _ s1] exI [of _ s2] exI [of _ s3]) (simp add: contents_add)
qed

end

definition stream_ok :: "DiskStream \<Rightarrow> bool" where
  "stream_ok s \<longleftrightarrow> stream_disk s = TheDisk"

interpretation ds: byte_stream stream_ok pos diskstreamer_seek "diskstreamer_read img" "bytes_at img"
  for img
  by unfold_locales (auto simp: stream_ok_def diskstreamer_seek_def diskstreamer_read_ok bytes_at_add)

section \<open>The driver over an ATA device\<close>

text \<open>
  The documented behaviour of an ATA device the driver relies on, for the image \<open>img\<close>:
  \<open>pending d ws\<close> says that the state \<open>d\<close> has the words \<open>ws\<close> still to deliver. The command writes of a
  read of \<open>n\<close> sectors from \<open>lba\<close> make their words pending; a status poll does not lose them, and
  a poll that answers "not ready" brings readiness nearer; a data read delivers the next word.
\<close>

definition le_words :: "u8 list \<Rightarrow> u16 list" where
  "le_words bs = map (\<lambda>i. ucast (bs ! (2 * i)) OR push_bit 8 (ucast (bs ! (2 * i + 1)))) [0..<length bs div 2]"

definition sectors_words :: "disk_img \<Rightarrow> nat \<Rightarrow> nat \<Rightarrow> u16 list" where
  "sectors_words img lba n = concat (map (\<lambda>b. le_words (sector_bytes img (int (lba + b)))) [0..<n])"

definition ata_command :: "'d ports \<Rightarrow> nat \<Rightarrow> nat \<Rightarrow> 'd \<Rightarrow> 'd" where
  "ata_command io lba n d = outb io 0x1F7 0x20 (outb io 0x1F5 (of_nat (lba div 2 ^ 16))
     (outb io 0x1F4 (of_nat (lba div 2 ^ 8)) (outb io 0x1F3 (of_nat (lba mod 256))
     (outb io 0x1F2 (of_nat n) (outb io 0x1F6 (of_nat (lba div 2 ^ 24) OR 0xE0) d)))))"

definition ata_device ::
  "'d ports \<Rightarrow> disk_img \<Rightarrow> ('d \<Rightarrow> u16 list \<Rightarrow> bool) \<Rightarrow> ('d \<Rightarrow> nat) \<Rightarrow> bool" where
  "ata_device io img pending delay \<longleftrightarrow>
     (\<forall>d lba n. lba < 2 ^ 28 \<longrightarrow> 0 < n \<longrightarrow> n < 256 \<longrightarrow>
        pending (ata_command io lba n d) (sectors_words img lba n)) \<and>
     (\<forall>d w ws. pending d (w # ws) \<longrightarrow> pending (snd (insb io 0x1F7 d)) (w # ws) \<and>
        (fst (insb io 0x1F7 d) AND 0x08 = 0 \<longrightarrow> delay (snd (insb io 0x1F7 d)) < delay d)) \<and>
     (\<forall>d w ws. pending d (w # ws) \<longrightarrow> fst (insw io 0x1F0 d) = w \<and> pending (snd (insw io 0x1F0 d)) ws)"

lemma disk_wait_ok:
  assumes "ata_device io img pending delay"
  shows "pending d (w # ws) \<Longrightarrow> \<exists>d'. disk_wait io d = Some d' \<and> pending d' (w # ws)"
proof (induction "delay d" arbitrary: d rule: less_induct)
  case less
  let ?d = "snd (insb io 0x1F7 d)"
  have p: "pending ?d (w # ws)"
    and prog: "fst (insb io 0x1F7 d) AND 0x08 = 0 \<Longrightarrow> delay ?d < delay d"
    using assms less.prems unfolding ata_device_def by blast+
  show ?case
  proof (cases "fst (insb io 0x1F7 d) AND 0x08 = 0")
    case True
    from less.hyps [OF prog [OF True] p] True show ?thesis
      by (subst disk_wait.simps) (simp add: split_beta)
  next
    case False
    with p show ?thesis by (subst disk_wait.simps) (simp add: split_beta)
  qed
qed

lemma disk_copy_words_ok:
  assumes "ata_device io img pending delay"
  shows "pending d (ws @ vs) \<Longrightarrow> \<exists>d'. disk_copy_words io (length ws) d = (ws, d') \<and> pending d' vs"
proof (induction ws arbitrary: d)
  case (Cons w ws)
  then have "fst (insw io 0x1F0 d) = w" "pending (snd (insw io 0x1F0 d)) (ws @ vs)"
    using assms unfolding ata_device_def by auto
  with Cons.IH show ?case by (fastforce simp: split_beta)
qed simp

lemma length_le_words [simp]: "length (le_words bs) = length bs div 2"
  by (simp add: le_words_def)

lemma disk_copy_blocks_ok:
  assumes "ata_device io img pending delay"
  shows "pending d (sectors_words img lba n @ vs) \<Longrightarrow>
    \<exists>d'. disk_copy_blocks io n d = Some (sectors_words img lba n, d') \<and> pending d' vs"
proof (induction n arbitrary: d lba)
  case 0
  then show ?case by (simp add: sectors_words_def)
next
  case (Suc n)
  let ?ws = "le_words (sector_bytes img (int lba))"
  have len: "length ?ws = 256" by (simp add: sector_bytes_def)
  have split: "sectors_words img lba (Suc n) = ?ws @ sectors_words img (Suc lba) n"
    unfolding sectors_words_def upt_conv_Cons [OF zero_less_Suc] by (simp add: map_Suc_upt [symmetric] comp_def algebra_simps del: upt_Suc)
  have p: "pending d (?ws @ sectors_words img (Suc lba) n @ vs)" using Suc.prems unfolding split by simp
  then obtain w ws where "pending d (w # ws)" "w # ws = ?ws @ sectors_words img (Suc lba) n @ vs"
    using len by (cases ?ws) auto
  with disk_wait_ok [OF assms] obtain d1 where
    d1: "disk_wait io d = Some d1" "pending d1 (?ws @ sectors_words img (Suc lba) n @ vs)" by metis
  from disk_copy_words_ok [OF assms d1(2)] obtain d2 where
    d2: "disk_copy_words io 256 d1 = (?ws, d2)" "pending d2 (sectors_words img (Suc lba) n @ vs)"
    unfolding len by blast
  from Suc.IH [OF d2(2)] d1 d2 show ?case by (auto simp: split)
qed

lemma register_bytes:
  "(word_of_int (int lba AND 0xff) :: u8) = of_nat (lba mod 256)"
  "(word_of_int (drop_bit k (int lba)) :: u8) = of_nat (lba div 2 ^ k)"
proof -
  have "int lba AND 0xff = int (lba mod 256)"
    using take_bit_eq_mask [of 8 "int lba"] by (simp add: mask_eq_exp_minus_1 take_bit_eq_mod zmod_int)
  then show "(word_of_int (int lba AND 0xff) :: u8) = of_nat (lba mod 256)" by simp
  show "(word_of_int (drop_bit k (int lba)) :: u8) = of_nat (lba div 2 ^ k)"
    by (simp add: drop_bit_eq_div flip: zdiv_int of_nat_power)
      (metis of_int_of_nat_eq of_nat_numeral of_nat_power zdiv_int)
qed

section \<open>Properties\<close>

text \<open>A device for the witnesses: the registers written, the words to deliver, polls to go.\<close>

record demo_device =
  regs :: "u16 \<Rightarrow> u8"
  queue :: "u16 list"
  polls :: nat

definition demo_ports :: "disk_img \<Rightarrow> demo_device ports" where
  "demo_ports img = \<lparr>
     outb = (\<lambda>port v d.
       if port = 0x1F7 then
         d\<lparr>queue := sectors_words img
              (unat (regs d 0x1F3) + 256 * unat (regs d 0x1F4) + 65536 * unat (regs d 0x1F5) +
               16777216 * unat (take_bit 4 (regs d 0x1F6)))
              (unat (regs d 0x1F2)), polls := 3\<rparr>
       else d\<lparr>regs := (regs d)(port := v)\<rparr>),
     insb = (\<lambda>port d. if polls d = 0 then (0x48, d) else (0x80, d\<lparr>polls := polls d - 1\<rparr>)),
     insw = (\<lambda>port d. case queue d of [] \<Rightarrow> (0, d) | w # ws \<Rightarrow> (w, d\<lparr>queue := ws\<rparr>))\<rparr>"

lemma four_digits:
  "x + 256 * a = l \<Longrightarrow> y + 256 * b = a \<Longrightarrow> z + 256 * c = b \<Longrightarrow>
     x + 256 * y + 65536 * z + 16777216 * c = (l :: nat)"
  by simp

lemma lba_bytes:
  "lba mod 256 + 256 * (lba div 256 mod 256) + 65536 * (lba div 65536 mod 256) +
    16777216 * (lba div 16777216) = (lba :: nat)"
proof -
  define a b c where "a = lba div 256" and "b = lba div 65536" and "c = lba div 16777216"
  have d: "a div 256 = b" "b div 256 = c" by (simp_all add: a_def b_def c_def flip: div_mult2_eq)

  have "lba mod 256 + 256 * a = lba" "a mod 256 + 256 * b = a" "b mod 256 + 256 * c = b"
    using mod_mult_div_eq [of lba 256] mod_mult_div_eq [of a 256] mod_mult_div_eq [of b 256]
    unfolding d by (simp_all add: a_def)
  then have "lba mod 256 + 256 * (a mod 256) + 65536 * (b mod 256) + 16777216 * c = lba"
    by (rule four_digits)
  then show ?thesis by (simp add: a_def b_def c_def)
qed

lemma demo_ata: "ata_device (demo_ports img) img (\<lambda>d ws. queue d = ws) polls"
proof -
  have reg6: "unat (take_bit 4 (of_nat x :: u8)) = x mod 16" for x
  proof -
    have "take_bit 4 (of_nat x :: u8) = of_nat (x mod 16)"
      by (simp only: take_bit_of_nat) (simp add: take_bit_eq_mod)
    moreover have "unat (of_nat (x mod 16) :: u8) = x mod 16"
      by (simp add: unat_of_nat take_bit_eq_mod)
    ultimately show ?thesis by metis
  qed
  have u: "unat (of_nat k :: u8) = k mod 256" for k
    by (simp add: unat_of_nat take_bit_eq_mod)
  show ?thesis
    unfolding ata_device_def
    by (auto simp: demo_ports_def ata_command_def reg6 u lba_bytes split: list.splits)
qed

text \<open>
  On a device that keeps the ATA contract, reading \<open>n\<close> sectors from \<open>lba\<close> (below 2^28) returns 0
  and puts exactly the words of those sectors into the buffer: the poll loop ends, and no word is
  read twice or skipped.
\<close>

theorem disk_read_sector_ok:
  assumes dev: "ata_device io img pending delay" and lba: "lba < 2 ^ 28" and n: "0 < n" "n < 256"
  shows "\<exists>d'. disk_read_sector io (int lba) (int n) d = Some (0, sectors_words img lba n, d') \<and> pending d' []"
proof -
  have "pending (ata_command io lba n d) (sectors_words img lba n @ [])"
    using dev lba n by (simp add: ata_device_def)
  from disk_copy_blocks_ok [OF dev this] obtain d' where
    d': "disk_copy_blocks io n (ata_command io lba n d) = Some (sectors_words img lba n, d')" "pending d' []"
    by blast
  have "(word_of_int (drop_bit 24 (int lba) OR 0xE0) :: u8) = word_of_int (drop_bit 24 (int lba)) OR word_of_int 0xE0"
    by (rule bit_word_eqI) (simp add: bit_simps)
  then have "(word_of_int (drop_bit 24 (int lba) OR 0xE0) :: u8) = of_nat (lba div 2 ^ 24) OR 0xE0"
    by (simp only: register_bytes) simp
  then have "disk_read_sector io (int lba) (int n) d =
      (case disk_copy_blocks io n (ata_command io lba n d) of None \<Rightarrow> None | Some (ws, d7) \<Rightarrow> Some (0, ws, d7))"
    unfolding disk_read_sector_def ata_command_def Let_def register_bytes by simp
  with d' show ?thesis by simp
qed

theorem disk_read_sector_ok_witness:
  "\<exists>d'. disk_read_sector (demo_ports (\<lambda>lba i. of_int lba + of_nat i)) (int 70000) (int 2)
      \<lparr>regs = (\<lambda>_. 0), queue = [], polls = 0\<rparr> =
    Some (0, sectors_words (\<lambda>lba i. of_int lba + of_nat i) 70000 2, d') \<and> queue d' = []"
  using disk_read_sector_ok [OF demo_ata, of 70000 2] by simp

text \<open>
  C24: Reading \<open>n\<close> bytes from a stream at any position returns 0 with exactly the bytes of the disk
  there, whatever sector boundaries lie between, and advances the stream by \<open>n\<close>; the recursion
  over sectors ends for every request.
\<close>

theorem diskstreamer_read_refines:
  assumes "stream_ok s" and "0 \<le> p" and "p + int n < 2 ^ 31"
  shows "\<exists>s'. diskstreamer_read img (snd (diskstreamer_seek s p)) (int n) = Inr (0, bytes_at img p n, s') \<and>
    stream_ok s' \<and> pos s' = p + int n"
  using assms by (rule ds.seek_read)

theorem diskstreamer_read_refines_witness:
  "\<exists>s'. diskstreamer_read (\<lambda>lba i. of_int lba + of_nat i)
      (snd (diskstreamer_seek \<lparr>stream_addr = 0x1000, pos = 0, stream_disk = TheDisk\<rparr> 510)) (int 4) =
    Inr (0, bytes_at (\<lambda>lba i. of_int lba + of_nat i) 510 4, s') \<and> pos s' = 514"
  using diskstreamer_read_refines [of "\<lparr>stream_addr = 0x1000, pos = 0, stream_disk = TheDisk\<rparr>" 510 4
      "\<lambda>lba i. of_int lba + of_nat i"]
  by (auto simp: stream_ok_def)

end
