(* ===== verification/PathParser.thy ===== *)
theory PathParser
  imports DiskStream
begin

text \<open>
  The path parser (\<^verbatim>\<open>fs/pparser.c\<close>): a path \<open>d:/a/b/c\<close> becomes a drive number and a linked list of
  components. Every object of the result is a block of the kernel heap; the model keeps its
  address beside its value, and the list of parts in the order of their \<open>next\<close> pointers.
\<close>

section \<open>Data\<close>

record PathPart =
  part_addr :: u32
  part_str_addr :: u32
  part :: "u8 list"

record PathRoot =
  root_addr :: u32
  drive_no :: int
  first :: "PathPart list"

definition slash :: u8 where "slash = 0x2F"

section \<open>Operations\<close>

definition pathparser_path_valid_format :: "u8 list \<Rightarrow> fault + bool" where
  "pathparser_path_valid_format filename =
     bindE (strnlen filename (int BIMBLEOS_MAX_PATH)) (\<lambda>len.
       if len < 3 then Inr False
       else bindE (aread filename 0) (\<lambda>c.
              if \<not> is_digit c then Inr False
              else bindE (memcmp (drop 1 filename) [0x3A, slash, 0] 2) (\<lambda>r. Inr (r = 0))))"

text \<open>The drive number (or \<open>-EBADPATH\<close>) and the path behind it.\<close>

definition pathparser_get_drive_by_path :: "u8 list \<Rightarrow> fault + (int \<times> u8 list)" where
  "pathparser_get_drive_by_path path =
     bindE (pathparser_path_valid_format path) (\<lambda>valid.
       if \<not> valid then Inr (- EBADPATH, path)
       else bindE (aread path 0) (\<lambda>c. Inr (to_numeric_digit c, drop 3 path)))"

definition pathparser_create_root ::
  "'a machine_scheme \<Rightarrow> int \<Rightarrow> fault + (PathRoot \<times> 'a machine_scheme)" where
  "pathparser_create_root m drive_number =
     bindE (kzalloc m 8) (\<lambda>(p, m1).
       if p = 0 then Inl NullPointer
       else Inr (\<lparr>root_addr = p, drive_no = drive_number, first = []\<rparr>, m1))"

text \<open>
  The copy loop of \<^verbatim>\<open>pathparser_get_path_part\<close>: the buffer, the number of bytes copied, the rest of
  the path.
\<close>

fun path_part_loop :: "u8 list \<Rightarrow> u8 list \<Rightarrow> nat \<Rightarrow> fault + (u8 list \<times> nat \<times> u8 list)" where
  "path_part_loop [] buf i = Inl OutOfBounds"
| "path_part_loop (c # path) buf i =
     (if c \<noteq> slash \<and> c \<noteq> 0 then bindE (awrite buf i c) (\<lambda>buf'. path_part_loop path buf' (Suc i))
      else Inr (buf, i, c # path))"

definition pathparser_get_path_part ::
  "'a machine_scheme \<Rightarrow> u8 list \<Rightarrow> fault + ((u32 \<times> u8 list) option \<times> u8 list \<times> 'a machine_scheme)" where
  "pathparser_get_path_part m path =
     bindE (kzalloc m (of_nat BIMBLEOS_MAX_PATH)) (\<lambda>(p, m1).
     bindE (path_part_loop path (if p = 0 then [] else replicate BIMBLEOS_MAX_PATH 0) 0) (\<lambda>(buf, i, path1).
     bindE (aread path1 0) (\<lambda>c.
       (let path2 = (if c = slash then drop 1 path1 else path1)
        in if i = 0 then bindE (kfree m1 p) (\<lambda>m2. Inr (None, path2, m2))
           else Inr (Some (p, buf), path2, m1)))))"

text \<open>Linking the new part behind \<open>last_part\<close> is appending it to the list.\<close>

definition pathparser_parse_path_part ::
  "'a machine_scheme \<Rightarrow> u8 list \<Rightarrow> fault + (PathPart option \<times> u8 list \<times> 'a machine_scheme)" where
  "pathparser_parse_path_part m path =
     bindE (pathparser_get_path_part m path) (\<lambda>(str, path1, m1).
       case str of None \<Rightarrow> Inr (None, path1, m1)
       | Some (sp, buf) \<Rightarrow>
           bindE (kzalloc m1 8) (\<lambda>(p, m2).
             if p = 0 then Inl NullPointer
             else Inr (Some \<lparr>part_addr = p, part_str_addr = sp, part = buf\<rparr>, path1, m2)))"

lemma path_part_loop_length:
  "path_part_loop path buf i = Inr (buf', j, rest) \<Longrightarrow> length rest + j = length path + i \<and> i \<le> j"
  by (induction path buf i rule: path_part_loop.induct) (fastforce split: if_splits)+

lemma parse_path_part_shorter:
  "pathparser_parse_path_part m path = Inr (Some pt, rest, m') \<Longrightarrow> length rest < length path"
  by (auto simp: pathparser_parse_path_part_def pathparser_get_path_part_def Let_def
      dest!: path_part_loop_length split: option.splits prod.splits if_splits)
    (metis add_diff_cancel_right' add_less_same_cancel1 diff_le_self le_less_trans less_add_same_cancel1)

function pathparser_parse_parts ::
  "'a machine_scheme \<Rightarrow> u8 list \<Rightarrow> fault + (PathPart list \<times> 'a machine_scheme)" where
  "pathparser_parse_parts m path =
     bindE (pathparser_parse_path_part m path) (\<lambda>(pt, path1, m1).
       case pt of None \<Rightarrow> Inr ([], m1)
       | Some x \<Rightarrow> bindE (pathparser_parse_parts m1 path1) (\<lambda>(ps, m2). Inr (x # ps, m2)))"
  by pat_completeness auto
termination
  by (relation "measure (\<lambda>(m, path). length path)") (auto dest: parse_path_part_shorter)

declare pathparser_parse_parts.simps [simp del]

text \<open>\<open>None\<close> is the null pointer. \<^verbatim>\<open>current_directory_path\<close> is not used by the code.\<close>

definition pathparser_parse ::
  "'a machine_scheme \<Rightarrow> u8 list \<Rightarrow> fault + (PathRoot option \<times> 'a machine_scheme)" where
  "pathparser_parse m path =
     bindE (strlen path) (\<lambda>len.
       if BIMBLEOS_MAX_PATH < len then Inr (None, m)
       else bindE (pathparser_get_drive_by_path path) (\<lambda>(driveNo, tmp_path).
         if driveNo < 0 then Inr (None, m)
         else bindE (pathparser_create_root m driveNo) (\<lambda>(pathRoot, m1).
              bindE (pathparser_parse_path_part m1 tmp_path) (\<lambda>(first_part, path1, m2).
                case first_part of None \<Rightarrow> Inr (Some pathRoot, m2)
                | Some p1 \<Rightarrow>
                    bindE (pathparser_parse_parts m2 path1) (\<lambda>(ps, m3).
                      Inr (Some (pathRoot\<lparr>first := p1 # ps\<rparr>), m3))))))"

primrec pathparser_free_parts :: "'a machine_scheme \<Rightarrow> PathPart list \<Rightarrow> fault + 'a machine_scheme" where
  "pathparser_free_parts m [] = Inr m"
| "pathparser_free_parts m (p # ps) =
     bindE (kfree m (part_str_addr p)) (\<lambda>m1.
     bindE (kfree m1 (part_addr p)) (\<lambda>m2. pathparser_free_parts m2 ps))"

definition pathparser_free :: "'a machine_scheme \<Rightarrow> PathRoot \<Rightarrow> fault + 'a machine_scheme" where
  "pathparser_free m root = bindE (pathparser_free_parts m (first root)) (\<lambda>m1. kfree m1 (root_addr root))"

section \<open>The components of a path\<close>

text \<open>
  The reference: the names between the slashes, up to the first empty one.
\<close>

function path_parts :: "u8 list \<Rightarrow> u8 list list" where
  "path_parts s =
     (let w = takeWhile (\<lambda>c. c \<noteq> slash) s
      in if w = [] then [] else w # path_parts (drop (Suc (length w)) s))"
  by pat_completeness auto
termination
  by (relation "measure length") (auto simp: takeWhile_eq_Nil_iff neq_Nil_conv)

declare path_parts.simps [simp del]

lemma path_parts_Nil [simp]: "path_parts [] = []"
  by (simp add: path_parts.simps)

lemma slash_nonzero [simp]: "slash \<noteq> 0"
  by (simp add: slash_def)

lemma path_part_loop_ok:
  assumes "terminated path" and "i + length (takeWhile (\<lambda>c. c \<noteq> slash) (cstr path)) \<le> length buf"
  shows "path_part_loop path buf i =
    (let w = takeWhile (\<lambda>c. c \<noteq> slash) (cstr path)
     in Inr (take i buf @ w @ drop (i + length w) buf, i + length w, drop (length w) path))"
  using assms
proof (induction path buf i rule: path_part_loop.induct)
  case (2 c path buf i)
  show ?case
  proof (cases "c \<noteq> slash \<and> c \<noteq> 0")
    case True
    let ?w = "takeWhile (\<lambda>c. c \<noteq> slash) (cstr path)"
    have "path_part_loop path (buf[i := c]) (Suc i) =
        Inr (take (Suc i) (buf[i := c]) @ ?w @ drop (Suc i + length ?w) (buf[i := c]), Suc i + length ?w,
             drop (length ?w) path)"
      using 2 True by (simp add: Let_def)
    moreover have "take (Suc i) (buf[i := c]) = take i buf @ [c]"
      using 2 True by (simp add: take_Suc_conv_app_nth)
    ultimately show ?thesis using 2 True by (simp add: Let_def)
  next
    case False
    then show ?thesis by auto
  qed
qed simp

lemma cstr_drop: "n \<le> length (cstr path) \<Longrightarrow> cstr (drop n path) = drop n (cstr path)"
proof (induction n arbitrary: path)
  case (Suc n)
  then obtain c cs where "path = c # cs" "c \<noteq> 0" by (cases path) (auto split: if_splits simp: cstr_def)
  with Suc show ?case by simp
qed simp

lemma terminated_drop: "terminated path \<Longrightarrow> n \<le> length (cstr path) \<Longrightarrow> terminated (drop n path)"
proof (induction n arbitrary: path)
  case (Suc n)
  then obtain c cs where "path = c # cs" "c \<noteq> 0" by (cases path) (auto split: if_splits simp: cstr_def)
  with Suc show ?case by simp
qed simp

lemma terminated_hd: "terminated path \<Longrightarrow> path = [] \<longleftrightarrow> False"
  by auto

lemma hd_cstr: "terminated path \<Longrightarrow> path ! 0 = (if cstr path = [] then 0 else hd (cstr path))"
  by (cases path) (auto simp: cstr_def)

section \<open>Correctness of the parser\<close>

lemma kfree_fresh:
  assumes inv: "machine_inv m A" and r: "A r = None"
    and inv1: "machine_inv m1 (A(r \<mapsto> 1))"
  shows "\<exists>h. kfree m1 (block_addr r) = Inr (m1\<lparr>kernel_heap := h\<rparr>) \<and> machine_inv (m1\<lparr>kernel_heap := h\<rparr>) A"
proof -
  have "(A(r \<mapsto> 1)) r = Some 1" "(A(r \<mapsto> 1))(r := None) = A" using r by auto
  with kfree_live [OF inv1, of r 1] show ?thesis by auto
qed

text \<open>
  One component. \<open>w\<close> is the name up to the next slash; with \<open>w\<close> empty the transient buffer goes back.
\<close>

definition name_of :: "u8 list \<Rightarrow> u8 list" where
  "name_of path = takeWhile (\<lambda>c. c \<noteq> slash) (cstr path)"

lemma takeWhile_slash_next:
  "terminated path \<Longrightarrow> n = length (name_of path) \<Longrightarrow>
     drop n path ! 0 = (if n < length (cstr path) then slash else 0) \<and> n < length path"
proof -
  assume t: "terminated path" and n: "n = length (name_of path)"
  let ?s = "cstr path"
  have le: "n \<le> length ?s" unfolding n name_of_def by (rule length_takeWhile_le)
  have lt: "length ?s < length path" by (rule length_cstr_less [OF t])
  have td: "terminated (drop n path)" by (rule terminated_drop [OF t le])
  have "drop n path ! 0 = (if drop n ?s = [] then 0 else hd (drop n ?s))"
    using hd_cstr [OF td] cstr_drop [OF le] by simp
  moreover have "hd (drop n ?s) = slash" if "n < length ?s"
    using nth_length_takeWhile [of "\<lambda>c. c \<noteq> slash" ?s] that unfolding n name_of_def
    by (simp add: hd_drop_conv_nth)
  ultimately show ?thesis using le lt by auto
qed

lemma name_of_no_zero: "0 \<notin> set (name_of path)"
  using cstr_no_zero [of path] by (auto simp: name_of_def dest: set_takeWhileD)

lemma get_path_part_ok:
  assumes inv: "machine_inv m A" and room: "card (kh.used A) < kheap_blocks"
    and t: "terminated path" and len: "length (cstr path) < BIMBLEOS_MAX_PATH"
  shows "\<exists>r str m'. pathparser_get_path_part m path =
      Inr (str, drop (length (name_of path) + (if length (name_of path) < length (cstr path) then 1 else 0)) path, m') \<and>
    (if name_of path = [] then str = None \<and> machine_inv m' A
     else str = Some (block_addr r, name_of path @ replicate (108 - length (name_of path)) 0) \<and>
       machine_inv m' (A(r \<mapsto> 1)) \<and> A r = None \<and> r < kheap_blocks \<and>
       kh.used (A(r \<mapsto> 1)) = insert r (kh.used A)) \<and> mem_kept A m m'"
proof -
  let ?w = "name_of path" and ?n = "length (name_of path)"
  from kzalloc_page [OF inv _ _ room, of 108] obtain r h mm where
    z: "kzalloc m 108 = Inr (block_addr r, m\<lparr>kernel_heap := h, mem := mm\<rparr>)"
    and inv1: "machine_inv (m\<lparr>kernel_heap := h, mem := mm\<rparr>) (A(r \<mapsto> 1))"
    and r: "r < kheap_blocks" "A r = None" "kh.used (A(r \<mapsto> 1)) = insert r (kh.used A)"
    and frame: "r \<notin> kh.used A" "\<forall>b. pn b \<noteq> pn (block_addr r) \<longrightarrow> mm b = mem m b" by auto
  have kept: "mem_kept A m m'" if "mem m' = mm" for m' :: "'a machine_scheme"
    using frame that by (intro mem_kept_page [OF r(1)]) simp_all
  have wlen: "?n \<le> length (cstr path)" unfolding name_of_def by (rule length_takeWhile_le)
  have loop: "path_part_loop path (replicate 108 0) 0 =
      Inr (?w @ replicate (108 - ?n) 0, ?n, drop ?n path)"
    using path_part_loop_ok [OF t, of 0 "replicate 108 0"] wlen len
    by (simp add: Let_def name_of_def config)
  have nxt: "aread (drop ?n path) 0 = Inr (if ?n < length (cstr path) then slash else 0)"
    using takeWhile_slash_next [OF t refl] by (simp add: aread_def)
  have run: "pathparser_get_path_part m path =
      (let path2 = drop (?n + (if ?n < length (cstr path) then 1 else 0)) path
       in if ?n = 0 then bindE (kfree (m\<lparr>kernel_heap := h, mem := mm\<rparr>) (block_addr r)) (\<lambda>m2. Inr (None, path2, m2))
          else Inr (Some (block_addr r, ?w @ replicate (108 - ?n) 0), path2, m\<lparr>kernel_heap := h, mem := mm\<rparr>))"
    using r(1) by (simp add: pathparser_get_path_part_def config z loop nxt slash_nonzero [symmetric] add.commute)
  show ?thesis
  proof (cases "?w = []")
    case True
    let ?m1 = "m\<lparr>kernel_heap := h, mem := mm\<rparr>"
    from kfree_fresh [OF inv r(2) inv1] obtain h' where
      "kfree ?m1 (block_addr r) = Inr (?m1\<lparr>kernel_heap := h'\<rparr>)" "machine_inv (?m1\<lparr>kernel_heap := h'\<rparr>) A" by blast
    with True show ?thesis unfolding run by (intro exI [of _ r] exI [of _ None]) (simp add: Let_def kept)
  next
    case False
    with inv1 r show ?thesis unfolding run
      by (intro exI [of _ r] exI [of _ "Some (block_addr r, ?w @ replicate (108 - ?n) 0)"]) (simp add: Let_def kept)
  qed
qed

lemma kzalloc_fresh:
  assumes "machine_inv m A" and "0 < unat sz" and "unat sz \<le> 4096"
    and "card (kh.used A) < kheap_blocks"
  shows "\<exists>r m'. kzalloc m sz = Inr (block_addr r, m') \<and> machine_inv m' (A(r \<mapsto> 1)) \<and> A r = None \<and>
    r < kheap_blocks \<and> kh.used (A(r \<mapsto> 1)) = insert r (kh.used A) \<and> mem_kept A m m'"
proof -
  from kzalloc_page [OF assms] obtain r h mm where z: "kzalloc m sz = Inr (block_addr r, m\<lparr>kernel_heap := h, mem := mm\<rparr>)"
    "machine_inv (m\<lparr>kernel_heap := h, mem := mm\<rparr>) (A(r \<mapsto> 1))" "A r = None" "r < kheap_blocks"
    "kh.used (A(r \<mapsto> 1)) = insert r (kh.used A)" "r \<notin> kh.used A" "\<forall>b. pn b \<noteq> pn (block_addr r) \<longrightarrow> mm b = mem m b" by blast
  then show ?thesis using mem_kept_page [OF z(4,6), of "m\<lparr>kernel_heap := h, mem := mm\<rparr>" m] by auto
qed

text \<open>The rest of the path behind a component, as the reference sees it.\<close>

definition rest_of :: "u8 list \<Rightarrow> u8 list" where
  "rest_of path = drop (length (name_of path) + (if length (name_of path) < length (cstr path) then 1 else 0)) path"

lemma rest_of_ok:
  assumes t: "terminated path"
  shows "terminated (rest_of path)" and "cstr (rest_of path) = drop (Suc (length (name_of path))) (cstr path)"
    and "length (cstr (rest_of path)) \<le> length (cstr path)"
proof -
  let ?n = "length (name_of path)" and ?s = "cstr path"
  have le: "?n \<le> length ?s" unfolding name_of_def by (rule length_takeWhile_le)
  then have k: "?n + (if ?n < length ?s then 1 else 0) \<le> length ?s" by auto
  show "terminated (rest_of path)" unfolding rest_of_def by (rule terminated_drop [OF t k])
  show e: "cstr (rest_of path) = drop (Suc (length (name_of path))) (cstr path)"
    unfolding rest_of_def cstr_drop [OF k] using le by auto
  then show "length (cstr (rest_of path)) \<le> length (cstr path)" by simp
qed

lemma path_parts_step:
  "path_parts (cstr path) = (if name_of path = [] then [] else name_of path # path_parts (cstr (rest_of path)))"
  if "terminated path"
  using rest_of_ok(2) [OF that] by (subst path_parts.simps) (simp add: Let_def name_of_def)

lemma parse_path_part_ok:
  assumes inv: "machine_inv m A" and room: "card (kh.used A) + 2 \<le> kheap_blocks"
    and t: "terminated path" and len: "length (cstr path) < BIMBLEOS_MAX_PATH"
  shows "\<exists>r s pt m'. pathparser_parse_path_part m path = Inr (pt, rest_of path, m') \<and>
    (if name_of path = [] then pt = None \<and> machine_inv m' A
     else pt = Some \<lparr>part_addr = block_addr s, part_str_addr = block_addr r,
              part = name_of path @ replicate (108 - length (name_of path)) 0\<rparr> \<and>
       machine_inv m' (add_pages A [r, s]) \<and> r \<noteq> s \<and> A r = None \<and> A s = None \<and>
       kh.used (add_pages A [r, s]) = {r, s} \<union> kh.used A) \<and> mem_kept A m m'"
proof -
  have "card (kh.used A) < kheap_blocks" using room by simp
  from get_path_part_ok [OF inv this t len] obtain r str m1 where
    g: "pathparser_get_path_part m path = Inr (str, rest_of path, m1)"
    and c: "if name_of path = [] then str = None \<and> machine_inv m1 A
     else str = Some (block_addr r, name_of path @ replicate (108 - length (name_of path)) 0) \<and>
       machine_inv m1 (A(r \<mapsto> 1)) \<and> A r = None \<and> r < kheap_blocks \<and>
       kh.used (A(r \<mapsto> 1)) = insert r (kh.used A)" and kept: "mem_kept A m m1"
    unfolding rest_of_def [symmetric] by blast
  show ?thesis
  proof (cases "name_of path = []")
    case True
    with g c kept show ?thesis by (simp add: pathparser_parse_path_part_def)
  next
    case False
    with c have c': "str = Some (block_addr r, name_of path @ replicate (108 - length (name_of path)) 0)"
      "machine_inv m1 (A(r \<mapsto> 1))" "A r = None" "r < kheap_blocks" and u: "kh.used (A(r \<mapsto> 1)) = insert r (kh.used A)"
      by simp_all
    have "card (kh.used (A(r \<mapsto> 1))) \<le> Suc (card (kh.used A))" unfolding u by (rule card_insert_le_m1) simp_all
    then have "card (kh.used (A(r \<mapsto> 1))) < kheap_blocks" using room by simp
    from kzalloc_fresh [OF c'(2) _ _ this, of 8] obtain s m2 where
      s: "kzalloc m1 8 = Inr (block_addr s, m2)" "machine_inv m2 ((A(r \<mapsto> 1))(s \<mapsto> 1))" "(A(r \<mapsto> 1)) s = None"
        "s < kheap_blocks" "kh.used ((A(r \<mapsto> 1))(s \<mapsto> 1)) = insert s (kh.used (A(r \<mapsto> 1)))" "mem_kept (A(r \<mapsto> 1)) m1 m2" by auto
    have p: "(A(r \<mapsto> 1))(s \<mapsto> 1) = add_pages A [r, s]" by (auto simp: add_pages_def)
    have "A s = None" "r \<noteq> s" using s(3) by (auto split: if_splits)
    moreover have "pathparser_parse_path_part m path = Inr (Some \<lparr>part_addr = block_addr s, part_str_addr = block_addr r,
          part = name_of path @ replicate (108 - length (name_of path)) 0\<rparr>, rest_of path, m2)"
      using s(1,4) by (simp add: pathparser_parse_path_part_def g c'(1))
    moreover have "kh.used (add_pages A [r, s]) = {r, s} \<union> kh.used A"
      using s(5) u unfolding p by auto
    moreover have "mem_kept A m m2" using c'(3) by (intro mem_kept_trans [OF kept s(6)]) (auto simp: map_le_def)
    ultimately show ?thesis using False c'(3) s(2) unfolding p by auto
  qed
qed

text \<open>The pages of a list of parts, in the order of their allocation and of their release.\<close>

definition parts_pages :: "PathPart list \<Rightarrow> u32 list" where
  "parts_pages ps = concat (map (\<lambda>p. [part_str_addr p, part_addr p]) ps)"

lemma parts_pages_simps [simp]:
  "parts_pages [] = []" "parts_pages (p # ps) = part_str_addr p # part_addr p # parts_pages ps"
  by (simp_all add: parts_pages_def)

lemma cstr_name_buf: "cstr (name_of path @ replicate (Suc k) 0) = name_of path"
  using cstr_append [OF name_of_no_zero, of path "replicate k 0"] by simp

lemma parse_parts_ok:
  assumes "machine_inv m A" and "terminated path" and "length (cstr path) < BIMBLEOS_MAX_PATH"
    and "card (kh.used A) + 2 * length (path_parts (cstr path)) + 2 \<le> kheap_blocks"
  shows "\<exists>ps ts m'. pathparser_parse_parts m path = Inr (ps, m') \<and>
    map (\<lambda>p. cstr (part p)) ps = path_parts (cstr path) \<and> (\<forall>p\<in>set ps. terminated (part p)) \<and>
    machine_inv m' (add_pages A ts) \<and> distinct ts \<and> (\<forall>t\<in>set ts. A t = None) \<and>
    parts_pages ps = map block_addr ts \<and> mem_kept A m m'"
  using assms
proof (induction "length (path_parts (cstr path))" arbitrary: m A path)
  case 0
  then have "name_of path = []" using path_parts_step [of path] by (auto split: if_splits)
  with parse_path_part_ok [OF 0(2) _ 0(3,4)] 0 obtain m' where
    "pathparser_parse_path_part m path = Inr (None, rest_of path, m')" "machine_inv m' A" "mem_kept A m m'" by auto
  then show ?case using 0
    by (subst pathparser_parse_parts.simps) (auto simp: add_pages_def intro!: exI [of _ "[]"])
next
  case (Suc n)
  then have w: "name_of path \<noteq> []" and ps: "path_parts (cstr path) = name_of path # path_parts (cstr (rest_of path))"
    using path_parts_step [of path] by (auto split: if_splits)
  have "card (kh.used A) + 2 \<le> kheap_blocks" using Suc.prems(4) by simp
  from parse_path_part_ok [OF Suc.prems(1) this Suc.prems(2,3)] w obtain r s m1 where
    p: "pathparser_parse_path_part m path = Inr (Some \<lparr>part_addr = block_addr s, part_str_addr = block_addr r,
          part = name_of path @ replicate (108 - length (name_of path)) 0\<rparr>, rest_of path, m1)"
    and inv1: "machine_inv m1 (add_pages A [r, s])" and rs: "r \<noteq> s" "A r = None" "A s = None"
    and used: "kh.used (add_pages A [r, s]) = {r, s} \<union> kh.used A" and kept: "mem_kept A m m1" by auto
  let ?pt = "\<lparr>part_addr = block_addr s, part_str_addr = block_addr r,
          part = name_of path @ replicate (108 - length (name_of path)) 0\<rparr>"
  have "card ({r, s} \<union> kh.used A) \<le> 2 + card (kh.used A)"
    using card_Un_le [of "{r, s}" "kh.used A"] rs(1) by simp
  then have room1: "card (kh.used (add_pages A [r, s])) + 2 * length (path_parts (cstr (rest_of path))) + 2 \<le> kheap_blocks"
    using Suc.prems(4) unfolding used ps by simp
  have n: "n = length (path_parts (cstr (rest_of path)))" using Suc.hyps(2) ps by simp
  have short: "length (cstr (rest_of path)) < BIMBLEOS_MAX_PATH"
    using rest_of_ok(3) [OF Suc.prems(2)] Suc.prems(3) by simp
  from Suc.hyps(1) [OF n inv1 rest_of_ok(1) [OF Suc.prems(2)] short room1] obtain qs ts m2 where
    q: "pathparser_parse_parts m1 (rest_of path) = Inr (qs, m2)"
      "map (\<lambda>p. cstr (part p)) qs = path_parts (cstr (rest_of path))" "\<forall>p\<in>set qs. terminated (part p)"
      "machine_inv m2 (add_pages (add_pages A [r, s]) ts)" "distinct ts"
      "\<forall>t\<in>set ts. add_pages A [r, s] t = None" "parts_pages qs = map block_addr ts" "mem_kept (add_pages A [r, s]) m1 m2" by blast
  have wl: "length (name_of path) < 108"
    using Suc.prems(3) length_takeWhile_le [of "\<lambda>c. c \<noteq> slash" "cstr path"] by (simp add: name_of_def config)
  then obtain k where k: "108 - length (name_of path) = Suc k" by (metis Suc_diff_Suc)
  have "cstr (part ?pt) = name_of path" "terminated (part ?pt)"
    by (simp_all add: k cstr_name_buf [unfolded replicate_Suc] terminated_def)
  moreover have "add_pages (add_pages A [r, s]) ts = add_pages A (r # s # ts)" by (auto simp: add_pages_def)
  moreover have "r \<notin> set ts" "s \<notin> set ts" "\<forall>t\<in>set ts. A t = None" using q(6) by (auto simp: add_pages_def split: if_splits)
  moreover have "mem_kept A m m2" using rs by (intro mem_kept_trans [OF kept q(8)]) (auto simp: map_le_def add_pages_def)
  ultimately show ?case
    using q p rs ps
    by (intro exI [of _ "?pt # qs"] exI [of _ "r # s # ts"] exI [of _ m2])
      (subst pathparser_parse_parts.simps, simp)
qed

text \<open>A well-formed path: a digit, \<open>:/\<close>, and at most \<^verbatim>\<open>BIMBLEOS_MAX_PATH\<close> characters.\<close>

definition valid_path :: "u8 list \<Rightarrow> bool" where
  "valid_path s \<longleftrightarrow> 3 \<le> length s \<and> length s \<le> BIMBLEOS_MAX_PATH \<and> is_digit (s ! 0) \<and> s ! 1 = 0x3A \<and> s ! 2 = slash"

lemma nth_cstr: "i < length (cstr path) \<Longrightarrow> path ! i = cstr path ! i"
  by (simp add: cstr_def takeWhile_nth)

lemma memcmp_loop_total: "n \<le> length s1 \<Longrightarrow> n \<le> length s2 \<Longrightarrow> \<exists>r. memcmp_loop s1 s2 n = Inr r"
  by (induction s1 s2 n rule: memcmp_loop.induct) auto

lemma valid_format_ok:
  assumes t: "terminated path" and len: "length (cstr path) \<le> BIMBLEOS_MAX_PATH"
  shows "pathparser_path_valid_format path = Inr (valid_path (cstr path))"
proof -
  have n: "strnlen path (int BIMBLEOS_MAX_PATH) = Inr (length (cstr path))"
    using strnlen_loop_ok [of path 108] t len by (simp add: strnlen_def config)
  show ?thesis
  proof (cases "3 \<le> length (cstr path)")
    case False
    then show ?thesis by (simp add: pathparser_path_valid_format_def n valid_path_def)
  next
    case True
    have lt: "length (cstr path) < length path" by (rule length_cstr_less [OF t])
    then have two: "2 \<le> length (drop 1 path)" using True by simp
    obtain r where r: "memcmp (drop 1 path) [0x3A, slash, 0] 2 = Inr r"
      using memcmp_loop_total [of 2 "drop 1 path" "[0x3A, slash, 0]", OF two] by (auto simp: memcmp_def)
    have "r = 0 \<longleftrightarrow> take 2 (drop 1 path) = [0x3A, slash]"
      using r memcmp_loop_0_iff [of 2 "drop 1 path" "[0x3A, slash, 0]"] True lt by (auto simp: memcmp_def)
    also have "\<dots> \<longleftrightarrow> path ! 1 = 0x3A \<and> path ! 2 = slash"
      using True lt by (auto simp: list_eq_iff_nth_eq less_Suc_eq numeral_2_eq_2 all_lt_Suc)
    finally have "r = 0 \<longleftrightarrow> cstr path ! 1 = 0x3A \<and> cstr path ! 2 = slash" using True by (simp add: nth_cstr)
    moreover have "aread path 0 = Inr (cstr path ! 0)"
    proof -
      have "0 < length (cstr path)" using True by linarith
      then show ?thesis using lt nth_cstr [of 0 path] by (auto simp: aread_def)
    qed
    ultimately show ?thesis
      using True len by (simp add: pathparser_path_valid_format_def n valid_path_def r [simplified])
  qed
qed

lemma is_digit_range: "is_digit c \<Longrightarrow> 0 \<le> to_numeric_digit c \<and> to_numeric_digit c \<le> 9"
  by (simp add: is_digit_def to_numeric_digit_def)

lemma pathparser_parse_reject:
  assumes t: "terminated path" and bad: "\<not> valid_path (cstr path)"
  shows "pathparser_parse m path = Inr (None, m)"
proof (cases "BIMBLEOS_MAX_PATH < length (cstr path)")
  case True
  then show ?thesis by (simp add: pathparser_parse_def strlen_terminated [OF t])
next
  case False
  then have "pathparser_path_valid_format path = Inr False" using valid_format_ok [OF t] bad by simp
  then show ?thesis
    using False by (simp add: pathparser_parse_def strlen_terminated [OF t] pathparser_get_drive_by_path_def config)
qed

lemma pathparser_parse_valid:
  assumes t: "terminated path" and ok: "valid_path (cstr path)"
  shows "pathparser_parse m path =
    bindE (pathparser_create_root m (to_numeric_digit (path ! 0))) (\<lambda>(root, m1).
    bindE (pathparser_parse_parts m1 (drop 3 path)) (\<lambda>(ps, m2). Inr (Some (root\<lparr>first := ps\<rparr>), m2)))"
proof -
  have len: "length (cstr path) \<le> BIMBLEOS_MAX_PATH" "3 \<le> length (cstr path)" using ok by (simp_all add: valid_path_def)
  have "path ! 0 = cstr path ! 0" using len by (intro nth_cstr) linarith
  then have dg: "0 \<le> to_numeric_digit (path ! 0)" using ok is_digit_range by (simp add: valid_path_def)
  have "path \<noteq> []" using t by auto
  then have drive: "pathparser_get_drive_by_path path = Inr (to_numeric_digit (path ! 0), drop 3 path)"
    using valid_format_ok [OF t len(1)] ok by (simp add: pathparser_get_drive_by_path_def)
  have root: "pathparser_create_root m dn = Inr (root, m1) \<Longrightarrow> root = root\<lparr>first := []\<rparr>" for dn root m1
    by (auto simp: pathparser_create_root_def split: if_splits prod.splits)
  show ?thesis
    using dg len(1) unfolding pathparser_parse_def strlen_terminated [OF t] drive pathparser_parse_parts.simps [of _ "drop 3 path"]
    by (auto simp: bindE_assoc split_beta split: option.split intro!: bindE_cong dest: root)
qed

lemma pathparser_parse_ok:
  assumes inv: "machine_inv m A" and t: "terminated path" and ok: "valid_path (cstr path)"
    and room: "card (kh.used A) + 2 * length (path_parts (drop 3 (cstr path))) + 3 \<le> kheap_blocks"
  shows "\<exists>root ts r m'. pathparser_parse m path = Inr (Some root, m') \<and>
    drive_no root = to_numeric_digit (path ! 0) \<and>
    map (\<lambda>p. cstr (part p)) (first root) = path_parts (drop 3 (cstr path)) \<and>
    (\<forall>p\<in>set (first root). terminated (part p)) \<and>
    machine_inv m' (add_pages A (r # ts)) \<and> distinct (r # ts) \<and> (\<forall>t\<in>set (r # ts). A t = None) \<and>
    parts_pages (first root) = map block_addr ts \<and> root_addr root = block_addr r \<and> mem_kept A m m'"
proof -
  have "card (kh.used A) < kheap_blocks" using room by simp
  from kzalloc_fresh [OF inv _ _ this, of 8] obtain r m1 where
    z: "kzalloc m 8 = Inr (block_addr r, m1)" and inv1: "machine_inv m1 (A(r \<mapsto> 1))" and r: "A r = None" "r < kheap_blocks"
    and u: "kh.used (A(r \<mapsto> 1)) = insert r (kh.used A)" and kept: "mem_kept A m m1" by auto
  have le: "3 \<le> length (cstr path)" "length (cstr path) \<le> 108" using ok by (simp_all add: valid_path_def config)
  have t3: "terminated (drop 3 path)" and c3: "cstr (drop 3 path) = drop 3 (cstr path)"
    by (rule terminated_drop [OF t le(1)], rule cstr_drop [OF le(1)])
  have "card (kh.used (A(r \<mapsto> 1))) \<le> Suc (card (kh.used A))" unfolding u by (rule card_insert_le_m1) simp_all
  then have room1: "card (kh.used (A(r \<mapsto> 1))) + 2 * length (path_parts (cstr (drop 3 path))) + 2 \<le> kheap_blocks"
    using room by (simp add: c3)
  have "length (cstr (drop 3 path)) < BIMBLEOS_MAX_PATH" using le by (simp add: c3 config)
  from parse_parts_ok [OF inv1 t3 this room1] obtain ps ts m2 where
    p: "pathparser_parse_parts m1 (drop 3 path) = Inr (ps, m2)"
      "map (\<lambda>p. cstr (part p)) ps = path_parts (cstr (drop 3 path))" "\<forall>p\<in>set ps. terminated (part p)"
      "machine_inv m2 (add_pages (A(r \<mapsto> 1)) ts)" "distinct ts" "\<forall>t\<in>set ts. (A(r \<mapsto> 1)) t = None"
      "parts_pages ps = map block_addr ts" "mem_kept (A(r \<mapsto> 1)) m1 m2" by blast
  have e: "add_pages (A(r \<mapsto> 1)) ts = add_pages A (r # ts)" by (auto simp: add_pages_def)
  let ?root = "\<lparr>root_addr = block_addr r, drive_no = to_numeric_digit (path ! 0), first = ps\<rparr>"
  have "pathparser_parse m path = Inr (Some ?root, m2)"
    using r(2) p(1) z by (simp add: pathparser_parse_valid [OF t ok] pathparser_create_root_def)
  moreover have "r \<notin> set ts" "\<forall>t\<in>set ts. A t = None" using p(6) by (auto split: if_splits)
  moreover have "mem_kept A m m2" using r(1) by (intro mem_kept_trans [OF kept p(8)]) (auto simp: map_le_def)
  ultimately show ?thesis
    using p r(1) unfolding e c3
    by (intro exI [of _ ?root] exI [of _ ts] exI [of _ r] exI [of _ m2]) simp
qed

text \<open>Releasing the pages of the parts and of the root.\<close>

lemma free_parts_ok:
  assumes "machine_inv m A" and "distinct ts" and "\<forall>t\<in>set ts. A t = Some 1"
    and "parts_pages ps = map block_addr ts"
  shows "\<exists>h. pathparser_free_parts m ps = Inr (m\<lparr>kernel_heap := h\<rparr>) \<and> machine_inv (m\<lparr>kernel_heap := h\<rparr>) (drop_pages A ts)"
  using assms
proof (induction ps arbitrary: m A ts)
  case Nil
  then show ?case by (intro exI [of _ "kernel_heap m"]) (simp add: drop_pages_def)
next
  case (Cons p ps)
  then obtain r s us where ts: "ts = r # s # us" "part_str_addr p = block_addr r" "part_addr p = block_addr s"
    "parts_pages ps = map block_addr us" by (auto simp: map_eq_Cons_conv Cons_eq_map_conv)
  from kfree_live [OF Cons.prems(1), of r 1] Cons.prems(3) ts obtain h1 where
    h1: "kfree m (block_addr r) = Inr (m\<lparr>kernel_heap := h1\<rparr>)" "machine_inv (m\<lparr>kernel_heap := h1\<rparr>) (A(r := None))"
    by auto
  have "(A(r := None)) s = Some 1" using Cons.prems(2,3) ts by auto
  from kfree_live [OF h1(2) this] obtain h2 where
    h2: "kfree (m\<lparr>kernel_heap := h1\<rparr>) (block_addr s) = Inr (m\<lparr>kernel_heap := h2\<rparr>)"
      "machine_inv (m\<lparr>kernel_heap := h2\<rparr>) ((A(r := None))(s := None))" by (auto simp: fun_upd_def)
  have "distinct us" "\<forall>t\<in>set us. ((A(r := None))(s := None)) t = Some 1" using Cons.prems(2,3) ts by auto
  from Cons.IH [OF h2(2) this ts(4)] obtain h3 where
    h3: "pathparser_free_parts (m\<lparr>kernel_heap := h2\<rparr>) ps = Inr (m\<lparr>kernel_heap := h3\<rparr>)"
      "machine_inv (m\<lparr>kernel_heap := h3\<rparr>) (drop_pages ((A(r := None))(s := None)) us)"
    by (auto simp: fun_upd_def)
  have "drop_pages ((A(r := None))(s := None)) us = drop_pages A ts" by (auto simp: drop_pages_def ts)
  with h3 h1 h2 ts show ?case by (intro exI [of _ h3]) simp
qed

lemma pathparser_free_ok:
  assumes inv: "machine_inv m (add_pages A (r # ts))" and dist: "distinct (r # ts)"
    and new: "\<forall>t\<in>set (r # ts). A t = None"
    and pages: "parts_pages (first root) = map block_addr ts" "root_addr root = block_addr r"
  shows "\<exists>h. pathparser_free m root = Inr (m\<lparr>kernel_heap := h\<rparr>) \<and> machine_inv (m\<lparr>kernel_heap := h\<rparr>) A"
proof -
  have "distinct ts" "\<forall>t\<in>set ts. add_pages A (r # ts) t = Some 1" using dist by (auto simp: add_pages_def)
  from free_parts_ok [OF inv this pages(1)] obtain h1 where
    h1: "pathparser_free_parts m (first root) = Inr (m\<lparr>kernel_heap := h1\<rparr>)"
      "machine_inv (m\<lparr>kernel_heap := h1\<rparr>) (drop_pages (add_pages A (r # ts)) ts)" by blast
  have e: "drop_pages (add_pages A (r # ts)) ts = A(r \<mapsto> 1)"
    using dist new by (auto simp: drop_pages_def add_pages_def)
  have "(A(r \<mapsto> 1)) r = Some 1" "(A(r \<mapsto> 1))(r := None) = A" using new by auto
  with kfree_live [OF h1(2) [unfolded e]] obtain h2 where
    "kfree (m\<lparr>kernel_heap := h1\<rparr>) (block_addr r) = Inr (m\<lparr>kernel_heap := h2\<rparr>)" "machine_inv (m\<lparr>kernel_heap := h2\<rparr>) A"
    by fastforce
  then show ?thesis using h1(1) pages(2) by (intro exI [of _ h2]) (simp add: pathparser_free_def)
qed

section \<open>Properties\<close>

text \<open>A path for the witnesses: \<open>0:/BIN/SHELL.ELF\<close>.\<close>

definition demo_path :: "u8 list" where
  "demo_path = [48, 58, 47, 66, 73, 78, 47, 83, 72, 69, 76, 76, 46, 69, 76, 70, 0]"

lemma demo_path_facts:
  "terminated demo_path" "valid_path (cstr demo_path)"
  "path_parts (drop 3 (cstr demo_path)) = [[66, 73, 78], [83, 72, 69, 76, 76, 46, 69, 76, 70]]"
  "demo_path ! 0 = 48"
proof -
  show "terminated demo_path" "valid_path (cstr demo_path)" "demo_path ! 0 = 48"
    by (simp_all add: demo_path_def valid_path_def is_digit_def slash_def config terminated_def)
  have "drop 3 (cstr demo_path) = [66, 73, 78, 47, 83, 72, 69, 76, 76, 46, 69, 76, 70]"
    by (simp add: demo_path_def)
  moreover have "path_parts [66, 73, 78, 47, 83, 72, 69, 76, 76, 46, 69, 76, 70] =
      [66, 73, 78] # path_parts [83, 72, 69, 76, 76, 46, 69, 76, 70]"
    by (subst path_parts.simps) (simp add: slash_def)
  moreover have "path_parts [83, 72, 69, 76, 76, 46, 69, 76, 70] = [[83, 72, 69, 76, 76, 46, 69, 76, 70]]"
    by (subst path_parts.simps) (simp add: slash_def)
  ultimately show "path_parts (drop 3 (cstr demo_path)) = [[66, 73, 78], [83, 72, 69, 76, 76, 46, 69, 76, 70]]"
    by simp
qed

lemma demo_heap_room: "card (kh.used Map.empty) + n \<le> kheap_blocks \<longleftrightarrow> n \<le> kheap_blocks"
  by (simp add: kh.used_def covers_def)

lemma demo_machine: "\<exists>m :: machine. machine_inv m Map.empty"
  using kheap_init_ok [of "replicate kheap_blocks 0"] by fastforce

text \<open>
  C27: Parsing a well-formed path gives the drive number and exactly the names between the slashes,
  up to the first empty one, each as a terminated string in a buffer of its own; all objects are
  fresh blocks of the kernel heap. No name overruns its buffer.
\<close>

theorem pathparser_parse_refines:
  assumes "machine_inv m A" and "terminated path" and "valid_path (cstr path)"
    and "card (kh.used A) + 2 * length (path_parts (drop 3 (cstr path))) + 3 \<le> kheap_blocks"
  shows "\<exists>root m' ts. pathparser_parse m path = Inr (Some root, m') \<and>
    drive_no root = to_numeric_digit (path ! 0) \<and>
    map (\<lambda>p. cstr (part p)) (first root) = path_parts (drop 3 (cstr path)) \<and>
    (\<forall>p\<in>set (first root). terminated (part p)) \<and>
    machine_inv m' (add_pages A ts) \<and> (\<forall>t\<in>set ts. A t = None) \<and> distinct ts \<and>
    root_addr root # parts_pages (first root) = map block_addr ts"
proof -
  from pathparser_parse_ok [OF assms] obtain root ts r m' where p: "pathparser_parse m path = Inr (Some root, m')"
    "drive_no root = to_numeric_digit (path ! 0)"
    "map (\<lambda>p. cstr (part p)) (first root) = path_parts (drop 3 (cstr path))"
    "\<forall>p\<in>set (first root). terminated (part p)"
    "machine_inv m' (add_pages A (r # ts))" "distinct (r # ts)" "\<forall>t\<in>set (r # ts). A t = None"
    "parts_pages (first root) = map block_addr ts" "root_addr root = block_addr r" by blast
  show ?thesis
    by (intro exI [of _ root] exI [of _ m'] exI [of _ "r # ts"] conjI p) (simp add: p)
qed

theorem pathparser_parse_refines_witness:
  "\<exists>m root m'. pathparser_parse (m :: machine) demo_path = Inr (Some root, m') \<and> drive_no root = 0 \<and>
     map (\<lambda>p. cstr (part p)) (first root) = [[66, 73, 78], [83, 72, 69, 76, 76, 46, 69, 76, 70]]"
proof -
  obtain m :: machine where m: "machine_inv m Map.empty" using demo_machine by blast
  have "card (kh.used Map.empty) + 2 * length (path_parts (drop 3 (cstr demo_path))) + 3 \<le> kheap_blocks"
    unfolding demo_path_facts by (simp add: kh.used_def covers_def kheap_blocks_def)
  from pathparser_parse_refines [OF m demo_path_facts(1,2) this] obtain root m' where
    "pathparser_parse m demo_path = Inr (Some root, m')" "drive_no root = to_numeric_digit 48"
    "map (\<lambda>p. cstr (part p)) (first root) = [[66, 73, 78], [83, 72, 69, 76, 76, 46, 69, 76, 70]]"
    unfolding demo_path_facts by (elim exE conjE) (rule that)
  moreover have "to_numeric_digit 48 = 0" by (simp add: to_numeric_digit_def)
  ultimately show ?thesis by metis
qed

text \<open>
  A string that is too long, too short, or does not start with a digit and \<open>:/\<close> is rejected
  with the null pointer; nothing is allocated.
\<close>

theorem pathparser_parse_rejects:
  assumes "terminated path" and "\<not> valid_path (cstr path)"
  shows "pathparser_parse m path = Inr (None, m)"
  using assms by (rule pathparser_parse_reject)

theorem pathparser_parse_rejects_witness: "\<forall>m :: machine. pathparser_parse m [65, 58, 47, 66, 0] = Inr (None, m)"
  by (intro allI, rule pathparser_parse_rejects) (simp_all add: valid_path_def is_digit_def terminated_def)

text \<open>
  \<open>pathparser_free\<close> on the result of a parse returns every block: the kernel heap is again
  exactly what it was before the parse.
\<close>

theorem pathparser_free_roundtrip:
  assumes inv: "machine_inv m A" and t: "terminated path" and ok: "valid_path (cstr path)"
    and room: "card (kh.used A) + 2 * length (path_parts (drop 3 (cstr path))) + 3 \<le> kheap_blocks"
  shows "\<exists>root m' m''. pathparser_parse m path = Inr (Some root, m') \<and> pathparser_free m' root = Inr m'' \<and>
    kernel_heap m'' = kernel_heap m"
proof -
  from pathparser_parse_ok [OF assms] obtain root ts r m' where
    p: "pathparser_parse m path = Inr (Some root, m')" "machine_inv m' (add_pages A (r # ts))" "distinct (r # ts)"
      "\<forall>t\<in>set (r # ts). A t = None" "parts_pages (first root) = map block_addr ts" "root_addr root = block_addr r"
    by blast
  from pathparser_free_ok [OF p(2-6)] machine_inv_functional [OF _ inv] p(1) show ?thesis by blast
qed

theorem pathparser_free_roundtrip_witness:
  "\<exists>m root m' m''. pathparser_parse (m :: machine) demo_path = Inr (Some root, m') \<and>
     pathparser_free m' root = Inr m'' \<and> kernel_heap m'' = kernel_heap m"
proof -
  obtain m :: machine where m: "machine_inv m Map.empty" using demo_machine by blast
  have "card (kh.used Map.empty) + 2 * length (path_parts (drop 3 (cstr demo_path))) + 3 \<le> kheap_blocks"
    unfolding demo_path_facts by (simp add: kh.used_def covers_def kheap_blocks_def)
  from pathparser_free_roundtrip [OF m demo_path_facts(1,2) this] show ?thesis by blast
qed

end
