(* ===== verification/Fat16.thy ===== *)
theory Fat16
  imports PathParser
begin

text \<open>
  The FAT16 driver (\<^verbatim>\<open>fs/fat/fat16.c\<close>, \<^verbatim>\<open>fs/fat/fat16.h\<close>): the on-disk structures and their decoding,
  the directory scan, the cluster chain, reading, and the operations behind the filesystem
  interface. Heap objects are values kept beside their addresses; the disk is the parameter
  \<open>img\<close>.
\<close>

section \<open>On-disk structures\<close>

definition BIMBLEOS_FAT16_SIGNATURE :: u8 where "BIMBLEOS_FAT16_SIGNATURE = 0x29"
definition BIMBLEOS_FAT16_FAT_ENTRY_SIZE :: int where "BIMBLEOS_FAT16_FAT_ENTRY_SIZE = 2"
definition BIMBLEOS_FAT16_BAD_SECTOR :: int where "BIMBLEOS_FAT16_BAD_SECTOR = 0xFF7"
definition FAT_FILE_READ_ONLY :: u8 where "FAT_FILE_READ_ONLY = 0x01"
definition FAT_FILE_SUBDIRECTORY :: u8 where "FAT_FILE_SUBDIRECTORY = 0x10"

record FAT_Header =
  short_jmp_ins :: "u8 list"
  oem_identifier :: "u8 list"
  bytes_per_sector :: u16
  sectors_per_cluster :: u8
  reserved_sectors :: u16
  fat_copies :: u8
  root_dir_entries :: u16
  number_of_sectors :: u16
  media_type :: u8
  sectors_per_fat :: u16
  sectors_per_track :: u16
  number_of_heads :: u16
  hidden_setors :: u32
  sectors_big :: u32

record FAT_HeaderExtended =
  drive_number :: u8
  win_nt_bit :: u8
  signature :: u8
  volume_id :: u32
  volume_id_string :: "u8 list"
  system_id_string :: "u8 list"

record FAT_H =
  primary_header :: FAT_Header
  extended_header :: FAT_HeaderExtended

record FAT_DirectoryItem =
  filename :: "u8 list"
  ext :: "u8 list"
  attribute :: u8
  reserved :: u8
  creation_time_tenths_of_a_sec :: u8
  creation_time :: u16
  creation_date :: u16
  last_access :: u16
  high_16_bits_first_cluster :: u16
  last_mod_time :: u16
  last_mod_date :: u16
  low_16_bits_first_cluster :: u16
  filesize :: u32

text \<open>The packed structs as the bytes the disk holds, little endian.\<close>

definition le16 :: "u8 list \<Rightarrow> nat \<Rightarrow> u16" where
  "le16 bs i = ucast (bs ! i) OR push_bit 8 (ucast (bs ! (i + 1)))"

definition le32 :: "u8 list \<Rightarrow> nat \<Rightarrow> u32" where
  "le32 bs i = ucast (le16 bs i) OR push_bit 16 (ucast (le16 bs (i + 2)))"

definition slice :: "u8 list \<Rightarrow> nat \<Rightarrow> nat \<Rightarrow> u8 list" where
  "slice bs i n = take n (drop i bs)"

definition FAT_Header_of :: "u8 list \<Rightarrow> FAT_Header" where
  "FAT_Header_of bs = \<lparr>short_jmp_ins = slice bs 0 3, oem_identifier = slice bs 3 8,
     bytes_per_sector = le16 bs 11, sectors_per_cluster = bs ! 13, reserved_sectors = le16 bs 14,
     fat_copies = bs ! 16, root_dir_entries = le16 bs 17, number_of_sectors = le16 bs 19,
     media_type = bs ! 21, sectors_per_fat = le16 bs 22, sectors_per_track = le16 bs 24,
     number_of_heads = le16 bs 26, hidden_setors = le32 bs 28, sectors_big = le32 bs 32\<rparr>"

definition FAT_HeaderExtended_of :: "u8 list \<Rightarrow> FAT_HeaderExtended" where
  "FAT_HeaderExtended_of bs = \<lparr>drive_number = bs ! 0, win_nt_bit = bs ! 1, signature = bs ! 2,
     volume_id = le32 bs 3, volume_id_string = slice bs 7 11, system_id_string = slice bs 18 8\<rparr>"

definition FAT_H_of :: "u8 list \<Rightarrow> FAT_H" where
  "FAT_H_of bs = \<lparr>primary_header = FAT_Header_of bs, extended_header = FAT_HeaderExtended_of (drop 36 bs)\<rparr>"

definition FAT_DirectoryItem_of :: "u8 list \<Rightarrow> FAT_DirectoryItem" where
  "FAT_DirectoryItem_of bs = \<lparr>filename = slice bs 0 8, ext = slice bs 8 3, attribute = bs ! 11,
     reserved = bs ! 12, creation_time_tenths_of_a_sec = bs ! 13, creation_time = le16 bs 14,
     creation_date = le16 bs 16, last_access = le16 bs 18, high_16_bits_first_cluster = le16 bs 20,
     last_mod_time = le16 bs 22, last_mod_date = le16 bs 24, low_16_bits_first_cluster = le16 bs 26,
     filesize = le32 bs 28\<rparr>"

definition FAT_DirectoryItems_of :: "u8 list \<Rightarrow> FAT_DirectoryItem list" where
  "FAT_DirectoryItems_of bs = map (\<lambda>k. FAT_DirectoryItem_of (slice bs (32 * k) 32)) [0..<length bs div 32]"

section \<open>Objects in memory\<close>

record FAT_Directory =
  dir_addr :: u32
  item_addr :: u32
  item :: "FAT_DirectoryItem list"
  dir_total :: int
  sector_pos :: int
  ending_sector_pos :: int

text \<open>A pointer to a directory; \<open>FreedDir\<close> is one whose object has been freed.\<close>

datatype dir_ptr = NullDir | LiveDir FAT_Directory | FreedDir

text \<open>
  \<^verbatim>\<open>struct FAT_Item\<close> with its address: the union's member is the one \<open>type\<close> names. The copied entry of
  a file keeps its own address (\<open>None\<close>: the copy failed).
\<close>

datatype FAT_Item =
    DirectoryItem (item_obj: u32) (directory: dir_ptr)
  | FileItem (item_obj: u32) (entry: "(u32 \<times> FAT_DirectoryItem) option")

record FAT_FileDescriptor =
  desc_addr :: u32
  desc_item :: FAT_Item
  desc_pos :: u32

record FAT_Private =
  header :: FAT_H
  root_directory :: FAT_Directory
  cluster_read_stream :: "DiskStream option"
  fat_read_stream :: "DiskStream option"
  directory_stream :: "DiskStream option"

text \<open>\<open>fat_private\<close> is the object \<^verbatim>\<open>disk->fs_private\<close> points to.\<close>

record fat_state = disk_state +
  fat_private :: FAT_Private

definition get_private :: "'a fat_state_scheme \<Rightarrow> fault + FAT_Private" where
  "get_private m = (if fs_private (disk m) = 0 then Inl NullPointer else Inr (fat_private m))"

definition zero_header :: FAT_H where
  "zero_header = FAT_H_of (replicate 62 0)"

definition zero_directory :: FAT_Directory where
  "zero_directory = \<lparr>dir_addr = 0, item_addr = 0, item = [], dir_total = 0, sector_pos = 0, ending_sector_pos = 0\<rparr>"

text \<open>Positioning and reading one of the three streams.\<close>

definition dir_seek :: "'a fat_state_scheme \<Rightarrow> int \<Rightarrow> fault + (int \<times> 'a fat_state_scheme)" where
  "dir_seek m p = bindE (get_private m) (\<lambda>fp. case directory_stream fp of None \<Rightarrow> Inl NullPointer
     | Some s \<Rightarrow> (let (res, s') = diskstreamer_seek s p
                 in Inr (res, m\<lparr>fat_private := fp\<lparr>directory_stream := Some s'\<rparr>\<rparr>)))"

definition dir_read :: "disk_img \<Rightarrow> 'a fat_state_scheme \<Rightarrow> int \<Rightarrow> fault + (int \<times> u8 list \<times> 'a fat_state_scheme)" where
  "dir_read img m n = bindE (get_private m) (\<lambda>fp. case directory_stream fp of None \<Rightarrow> Inl NullPointer
     | Some s \<Rightarrow> bindE (diskstreamer_read img s n) (\<lambda>(res, bs, s').
                 Inr (res, bs, m\<lparr>fat_private := fp\<lparr>directory_stream := Some s'\<rparr>\<rparr>)))"

definition cluster_seek :: "'a fat_state_scheme \<Rightarrow> int \<Rightarrow> fault + (int \<times> 'a fat_state_scheme)" where
  "cluster_seek m p = bindE (get_private m) (\<lambda>fp. case cluster_read_stream fp of None \<Rightarrow> Inl NullPointer
     | Some s \<Rightarrow> (let (res, s') = diskstreamer_seek s p
                 in Inr (res, m\<lparr>fat_private := fp\<lparr>cluster_read_stream := Some s'\<rparr>\<rparr>)))"

definition cluster_read :: "disk_img \<Rightarrow> 'a fat_state_scheme \<Rightarrow> int \<Rightarrow> fault + (int \<times> u8 list \<times> 'a fat_state_scheme)" where
  "cluster_read img m n = bindE (get_private m) (\<lambda>fp. case cluster_read_stream fp of None \<Rightarrow> Inl NullPointer
     | Some s \<Rightarrow> bindE (diskstreamer_read img s n) (\<lambda>(res, bs, s').
                 Inr (res, bs, m\<lparr>fat_private := fp\<lparr>cluster_read_stream := Some s'\<rparr>\<rparr>)))"

section \<open>Directories\<close>

text \<open>
  The scan of \<^verbatim>\<open>fat16_get_total_items_for_directory\<close>. A stream position is a multiple of 32 apart from
  its start and takes at most 2^27 values before it repeats, so a scan of that many entries without
  a terminator never ends.
\<close>

definition scan_limit :: int where
  "scan_limit = 2 ^ 27"

function count_items ::
  "disk_img \<Rightarrow> 'a fat_state_scheme \<Rightarrow> int \<Rightarrow> int \<Rightarrow> fault + (int \<times> 'a fat_state_scheme)" where
  "count_items img m fuel i =
     (if fuel \<le> 0 then Inl Hang
      else bindE (dir_read img m 32) (\<lambda>(res, bs, m1).
        if res \<noteq> BIMBLEOS_ALL_OK then Inr (- EIO, m1)
        else (let it = FAT_DirectoryItem_of bs
              in if filename it ! 0 = 0x00 then Inr (i, m1)
                 else if filename it ! 0 = 0xE5 then count_items img m1 (fuel - 1) i
                 else count_items img m1 (fuel - 1) (i + 1))))"
  by pat_completeness auto
termination
  by (relation "measure (\<lambda>(img, m, fuel, i). nat fuel)") auto

declare count_items.simps [simp del]

definition fat16_get_total_items_for_directory ::
  "disk_img \<Rightarrow> 'a fat_state_scheme \<Rightarrow> u32 \<Rightarrow> fault + (int \<times> 'a fat_state_scheme)" where
  "fat16_get_total_items_for_directory img m directory_start_sector =
     (let directory_start_pos = sint (directory_start_sector * word_of_int (sector_size (disk m)))
      in bindE (dir_seek m directory_start_pos) (\<lambda>(res, m1).
           if res \<noteq> BIMBLEOS_ALL_OK then Inr (- EIO, m1)
           else count_items img m1 scan_limit 0))"

definition fat16_sector_to_absolute :: "Disk \<Rightarrow> int \<Rightarrow> int" where
  "fat16_sector_to_absolute d sector = c_int (sector * sector_size d)"

text \<open>
  The result and the state; on success the directory is stored in the private data (the code's
  \<open>total_sectors\<close> is computed and not used).
\<close>

definition fat16_get_root_directory ::
  "disk_img \<Rightarrow> 'a fat_state_scheme \<Rightarrow> fault + (int \<times> 'a fat_state_scheme)" where
  "fat16_get_root_directory img m =
     bindE (get_private m) (\<lambda>fp.
     (let ph = primary_header (header fp);
          root_dir_sector_pos = uint (fat_copies ph) * uint (sectors_per_fat ph) + uint (reserved_sectors ph);
          root_dir_size = uint (root_dir_entries ph) * 32
      in bindE (cdiv root_dir_size (sector_size (disk m))) (\<lambda>sectors.
         bindE (fat16_get_total_items_for_directory img m (word_of_int root_dir_sector_pos)) (\<lambda>(total_items, m1).
         bindE (kzalloc m1 (word_of_int root_dir_size)) (\<lambda>(dir, m2).
           if dir = 0 then Inr (- ENOMEM, m2)
           else bindE (dir_seek m2 (fat16_sector_to_absolute (disk m2) root_dir_sector_pos)) (\<lambda>(res, m3).
             if res \<noteq> BIMBLEOS_ALL_OK then bindE (kfree m3 dir) (\<lambda>m4. Inr (- EIO, m4))
             else bindE (dir_read img m3 root_dir_size) (\<lambda>(res, bs, m4).
               if res \<noteq> BIMBLEOS_ALL_OK then bindE (kfree m4 dir) (\<lambda>m5. Inr (- EIO, m5))
               else Inr (0, m4\<lparr>fat_private := (fat_private m4)\<lparr>root_directory :=
                      (root_directory (fat_private m4))\<lparr>item_addr := dir, item := FAT_DirectoryItems_of bs,
                         dir_total := total_items, sector_pos := root_dir_sector_pos,
                         ending_sector_pos := root_dir_sector_pos + sectors\<rparr>\<rparr>\<rparr>))))))))"

section \<open>Recognising the filesystem\<close>

text \<open>\<^verbatim>\<open>memset\<close> clears the object, then the three streams are created.\<close>

definition fat16_init_private :: "'a fat_state_scheme \<Rightarrow> fault + 'a fat_state_scheme" where
  "fat16_init_private m =
     bindE (diskstreamer_new m (disk_id (disk m))) (\<lambda>(s1, m1).
     bindE (diskstreamer_new m1 (disk_id (disk m1))) (\<lambda>(s2, m2).
     bindE (diskstreamer_new m2 (disk_id (disk m2))) (\<lambda>(s3, m3).
       Inr (m3\<lparr>fat_private := \<lparr>header = zero_header, root_directory = zero_directory,
              cluster_read_stream = s1, fat_read_stream = s2, directory_stream = s3\<rparr>\<rparr>))))"

text \<open>The part of \<^verbatim>\<open>fat16_resolve\<close> between the creation of the stream and the label \<^verbatim>\<open>out\<close>.\<close>

definition fat16_resolve_header ::
  "disk_img \<Rightarrow> 'a fat_state_scheme \<Rightarrow> DiskStream \<Rightarrow> fault + (int \<times> 'a fat_state_scheme)" where
  "fat16_resolve_header img m stream =
     bindE (diskstreamer_read img stream 62) (\<lambda>(res, bs, stream').
       if res \<noteq> BIMBLEOS_ALL_OK then Inr (- EIO, m)
       else (let m1 = m\<lparr>fat_private := (fat_private m)\<lparr>header := FAT_H_of bs\<rparr>\<rparr>
             in if signature (extended_header (header (fat_private m1))) \<noteq> BIMBLEOS_FAT16_SIGNATURE
                then Inr (- EFSNOTUS, m1)
                else bindE (fat16_get_root_directory img m1) (\<lambda>(res, m2).
                       if res \<noteq> BIMBLEOS_ALL_OK then Inr (- EIO, m2) else Inr (0, m2))))"

definition fat16_resolve :: "disk_img \<Rightarrow> 'a fat_state_scheme \<Rightarrow> fault + (int \<times> 'a fat_state_scheme)" where
  "fat16_resolve img m =
     bindE (kzalloc m 92) (\<lambda>(p, m1).
       if p = 0 then Inl NullPointer
       else bindE (fat16_init_private m1) (\<lambda>m2.
         (let m3 = m2\<lparr>disk := (disk m2)\<lparr>fs_private := p, filesystem := Some ''FAT16''\<rparr>\<rparr>
          in bindE (diskstreamer_new m3 (disk_id (disk m3))) (\<lambda>(stream, m4).
             bindE (case stream of None \<Rightarrow> Inr (- ENOMEM, m4)
                    | Some s \<Rightarrow> bindE (fat16_resolve_header img m4 s) (\<lambda>(res, m5).
                               bindE (diskstreamer_close m5 s) (\<lambda>m6. Inr (res, m6)))) (\<lambda>(res, m7).
               if res < 0
               then bindE (kfree m7 p) (\<lambda>m8. Inr (res, m8\<lparr>disk := (disk m8)\<lparr>fs_private := 0\<rparr>\<rparr>))
               else Inr (res, m7))))))"

section \<open>Names\<close>

text \<open>
  \<open>out\<close> is the whole destination object and \<open>p\<close> the index of the pointer \<^verbatim>\<open>*out\<close> in it; the result is the object
  and the index afterwards.
\<close>

fun to_proper_loop :: "u8 list \<Rightarrow> nat \<Rightarrow> u8 list \<Rightarrow> nat \<Rightarrow> nat \<Rightarrow> fault + (u8 list \<times> nat)" where
  "to_proper_loop out p [] i sz = Inl OutOfBounds"
| "to_proper_loop out p (c # inp) i sz =
     (if c \<noteq> 0x00 \<and> c \<noteq> 0x20 then
        bindE (awrite out p c) (\<lambda>out1.
          if sz - 1 \<le> i then Inr (out1, p + 1) else to_proper_loop out1 (p + 1) inp (i + 1) sz)
      else Inr (out, p))"

definition fat16_to_proper_string :: "u8 list \<Rightarrow> nat \<Rightarrow> u8 list \<Rightarrow> nat \<Rightarrow> fault + (u8 list \<times> nat)" where
  "fat16_to_proper_string out p inp sz =
     bindE (to_proper_loop out p inp 0 sz) (\<lambda>(out1, p1).
     bindE (awrite out1 p1 0x00) (\<lambda>out2. Inr (out2, p1)))"

definition fat16_get_full_relative_filename :: "FAT_DirectoryItem \<Rightarrow> u8 list \<Rightarrow> nat \<Rightarrow> fault + u8 list" where
  "fat16_get_full_relative_filename it out max_len =
     bindE (memset out 0 max_len) (\<lambda>out0.
     bindE (fat16_to_proper_string out0 0 (filename it) 8) (\<lambda>(out1, p1).
     bindE (aread (ext it) 0) (\<lambda>e0.
       if e0 \<noteq> 0x00 \<and> e0 \<noteq> 0x20
       then bindE (awrite out1 p1 0x2E) (\<lambda>out2.
            bindE (fat16_to_proper_string out2 (p1 + 1) (ext it) 3) (\<lambda>(out3, p3). Inr out3))
       else Inr out1)))"

definition fat16_clone_directory_item ::
  "'a machine_scheme \<Rightarrow> FAT_DirectoryItem \<Rightarrow> int \<Rightarrow> fault + ((u32 \<times> FAT_DirectoryItem) option \<times> 'a machine_scheme)" where
  "fat16_clone_directory_item m it sz =
     (if sz < 32 then Inr (None, m)
      else bindE (kzalloc m (word_of_int sz)) (\<lambda>(p, m1).
             if p = 0 then Inr (None, m1) else Inr (Some (p, it), m1)))"

section \<open>Clusters\<close>

definition fat16_get_first_cluster :: "FAT_DirectoryItem \<Rightarrow> u32" where
  "fat16_get_first_cluster it = ucast (high_16_bits_first_cluster it OR low_16_bits_first_cluster it)"

definition fat16_cluster_to_sector :: "FAT_Private \<Rightarrow> int \<Rightarrow> int" where
  "fat16_cluster_to_sector fp cluster =
     c_int (ending_sector_pos (root_directory fp) +
       (cluster - 2) * uint (sectors_per_cluster (primary_header (header fp))))"

definition fat16_get_first_fat_sector :: "FAT_Private \<Rightarrow> u32" where
  "fat16_get_first_fat_sector fp = ucast (reserved_sectors (primary_header (header fp)))"

definition fat16_get_fat_entry ::
  "disk_img \<Rightarrow> 'a fat_state_scheme \<Rightarrow> int \<Rightarrow> fault + (int \<times> 'a fat_state_scheme)" where
  "fat16_get_fat_entry img m cluster =
     bindE (get_private m) (\<lambda>fp.
       case fat_read_stream fp of None \<Rightarrow> Inr (- 1, m)
       | Some stream \<Rightarrow>
           (let fat_table_position = fat16_get_first_fat_sector fp * word_of_int (sector_size (disk m));
                (res, s1) = diskstreamer_seek stream
                  (sint (fat_table_position * word_of_int (cluster * BIMBLEOS_FAT16_FAT_ENTRY_SIZE)));
                m1 = m\<lparr>fat_private := fp\<lparr>fat_read_stream := Some s1\<rparr>\<rparr>
            in if res < 0 then Inr (res, m1)
               else bindE (diskstreamer_read img s1 2) (\<lambda>(res, bs, s2).
                      (let m2 = m1\<lparr>fat_private := fp\<lparr>fat_read_stream := Some s2\<rparr>\<rparr>
                       in if res < 0 then Inr (res, m2) else Inr (uint (le16 bs 0), m2)))))"

text \<open>The loop over the clusters ahead: \<open>n\<close> of them are left.\<close>

primrec follow_chain ::
  "disk_img \<Rightarrow> nat \<Rightarrow> 'a fat_state_scheme \<Rightarrow> int \<Rightarrow> fault + (int \<times> 'a fat_state_scheme)" where
  "follow_chain img 0 m cluster_to_use = Inr (cluster_to_use, m)"
| "follow_chain img (Suc n) m cluster_to_use =
     bindE (fat16_get_fat_entry img m cluster_to_use) (\<lambda>(e, m1).
       if e = 0xFF8 \<or> e = 0xFFF then Inr (- EIO, m1)
       else if e = BIMBLEOS_FAT16_BAD_SECTOR then Inr (- EIO, m1)
       else if e = 0xFF0 \<or> e = 0xFF6 then Inr (- EIO, m1)
       else if e = 0x00 then Inr (- EIO, m1)
       else follow_chain img n m1 e)"

definition size_of_cluster :: "'a fat_state_scheme \<Rightarrow> int" where
  "size_of_cluster m = uint (sectors_per_cluster (primary_header (header (fat_private m)))) * sector_size (disk m)"

definition fat16_get_cluster_for_offset ::
  "disk_img \<Rightarrow> 'a fat_state_scheme \<Rightarrow> int \<Rightarrow> int \<Rightarrow> fault + (int \<times> 'a fat_state_scheme)" where
  "fat16_get_cluster_for_offset img m starting_cluster offset =
     bindE (get_private m) (\<lambda>fp.
     bindE (cdiv offset (size_of_cluster m)) (\<lambda>clusters_ahead.
       follow_chain img (nat clusters_ahead) m starting_cluster))"

text \<open>
  One call per cluster; the results are the status, the bytes written from \<open>out\<close> on, and the state.
  The size of a cluster is not negative, so \<open>total_to_read\<close> is positive in the recursive call.
\<close>

function fat16_read_internal_from_stream ::
  "disk_img \<Rightarrow> 'a fat_state_scheme \<Rightarrow> int \<Rightarrow> int \<Rightarrow> int \<Rightarrow> fault + (int \<times> u8 list \<times> 'a fat_state_scheme)" where
  "fat16_read_internal_from_stream img m cluster offset tot =
     bindE (fat16_get_cluster_for_offset img m cluster offset) (\<lambda>(cluster_to_use, m1).
       if cluster_to_use < 0 then Inr (cluster_to_use, [], m1)
       else bindE (cmod offset (size_of_cluster m)) (\<lambda>offset_from_cluster.
         (let starting_sector = fat16_cluster_to_sector (fat_private m1) cluster_to_use;
              starting_pos = c_int (starting_sector * sector_size (disk m1) + offset_from_cluster);
              total_to_read = (if size_of_cluster m < tot then size_of_cluster m else tot)
          in bindE (cluster_seek m1 starting_pos) (\<lambda>(res, m2).
             if res \<noteq> BIMBLEOS_ALL_OK then Inr (res, [], m2)
             else bindE (cluster_read img m2 total_to_read) (\<lambda>(res, bs, m3).
               if res \<noteq> BIMBLEOS_ALL_OK then Inr (res, bs, m3)
               else if 0 < tot - total_to_read then
                 (if total_to_read \<le> 0 then Inl Hang
                  else bindE (fat16_read_internal_from_stream img m3 cluster (c_int (offset + total_to_read))
                              (tot - total_to_read)) (\<lambda>(res, bs', m4). Inr (res, bs @ bs', m4)))
               else Inr (res, bs, m3))))))"
  by pat_completeness auto
termination
  by (relation "measure (\<lambda>(img, m, c, offset, tot). nat tot)") (auto simp: Let_def split: if_splits)

declare fat16_read_internal_from_stream.simps [simp del]

definition fat16_read_internal ::
  "disk_img \<Rightarrow> 'a fat_state_scheme \<Rightarrow> int \<Rightarrow> int \<Rightarrow> int \<Rightarrow> fault + (int \<times> u8 list \<times> 'a fat_state_scheme)" where
  "fat16_read_internal img m starting_cluster offset tot =
     bindE (get_private m) (\<lambda>fp. fat16_read_internal_from_stream img m starting_cluster offset tot)"

section \<open>Items\<close>

definition fat16_free_directory :: "'a machine_scheme \<Rightarrow> dir_ptr \<Rightarrow> fault + 'a machine_scheme" where
  "fat16_free_directory m dp =
     (case dp of NullDir \<Rightarrow> Inr m
      | FreedDir \<Rightarrow> Inl UseAfterFree
      | LiveDir d \<Rightarrow>
          bindE (if item_addr d \<noteq> 0 then kfree m (item_addr d) else Inr m) (\<lambda>m1. kfree m1 (dir_addr d)))"

definition fat16_fat_item_free :: "'a machine_scheme \<Rightarrow> FAT_Item \<Rightarrow> fault + 'a machine_scheme" where
  "fat16_fat_item_free m it =
     bindE (case it of DirectoryItem p d \<Rightarrow> fat16_free_directory m d
            | FileItem p e \<Rightarrow> kfree m (case e of None \<Rightarrow> 0 | Some (a, di) \<Rightarrow> a))
       (\<lambda>m1. kfree m1 (item_obj it))"

text \<open>
  Loading a subdirectory. After an error the directory is freed and its pointer returned all the same.
\<close>

definition fat16_load_fat_directory ::
  "disk_img \<Rightarrow> 'a fat_state_scheme \<Rightarrow> FAT_DirectoryItem \<Rightarrow> fault + (dir_ptr \<times> 'a fat_state_scheme)" where
  "fat16_load_fat_directory img m it =
     (if attribute it AND FAT_FILE_SUBDIRECTORY = 0 then Inr (NullDir, m)
      else bindE (kzalloc m 16) (\<lambda>(p, m1).
        if p = 0 then Inr (NullDir, m1)
        else bindE (get_private m1) (\<lambda>fp.
          (let cluster = sint (fat16_get_first_cluster it);
               cluster_sector = fat16_cluster_to_sector fp cluster
           in bindE (fat16_get_total_items_for_directory img m1 (word_of_int cluster_sector)) (\<lambda>(total_items, m2).
              (let directory_size = c_int (total_items * 32);
                   d = \<lparr>dir_addr = p, item_addr = 0, item = [], dir_total = total_items, sector_pos = 0,
                        ending_sector_pos = 0\<rparr>
               in bindE (kzalloc m2 (word_of_int directory_size)) (\<lambda>(q, m3).
                  if q = 0 then bindE (fat16_free_directory m3 (LiveDir d)) (\<lambda>m4. Inr (FreedDir, m4))
                  else bindE (fat16_read_internal img m3 cluster 0 directory_size) (\<lambda>(res, bs, m4).
                    (let d1 = d\<lparr>item_addr := q, item := FAT_DirectoryItems_of bs\<rparr>
                     in if res \<noteq> BIMBLEOS_ALL_OK
                        then bindE (fat16_free_directory m4 (LiveDir d1)) (\<lambda>m5. Inr (FreedDir, m5))
                        else Inr (LiveDir d1, m4))))))))))"

definition fat16_new_fat_item_for_directory_item ::
  "disk_img \<Rightarrow> 'a fat_state_scheme \<Rightarrow> FAT_DirectoryItem \<Rightarrow> fault + (FAT_Item option \<times> 'a fat_state_scheme)" where
  "fat16_new_fat_item_for_directory_item img m it =
     bindE (kzalloc m 8) (\<lambda>(f_item, m1).
       if f_item = 0 then Inr (None, m1)
       else if attribute it AND FAT_FILE_SUBDIRECTORY \<noteq> 0
       then bindE (fat16_load_fat_directory img m1 it) (\<lambda>(d, m2). Inr (Some (DirectoryItem f_item d), m2))
       else bindE (fat16_clone_directory_item m1 it 32) (\<lambda>(e, m2). Inr (Some (FileItem f_item e), m2)))"

text \<open>
  The search loop from entry \<open>i\<close> on: every match replaces the item found before. \<open>tmp\<close> is the name buffer.
\<close>

function find_loop ::
  "disk_img \<Rightarrow> 'a fat_state_scheme \<Rightarrow> FAT_Directory \<Rightarrow> u8 list \<Rightarrow> int \<Rightarrow> FAT_Item option \<Rightarrow>
     fault + (FAT_Item option \<times> 'a fat_state_scheme)" where
  "find_loop img m d name i f_item =
     (if i < dir_total d then
        bindE (areadi (item d) i) (\<lambda>it.
        bindE (fat16_get_full_relative_filename it (replicate BIMBLEOS_MAX_PATH 0) BIMBLEOS_MAX_PATH) (\<lambda>tmp.
        bindE (istrncmp tmp name (int BIMBLEOS_MAX_PATH)) (\<lambda>r.
          if r = 0
          then bindE (fat16_new_fat_item_for_directory_item img m it) (\<lambda>(f_item', m1).
                 find_loop img m1 d name (i + 1) f_item')
          else find_loop img m d name (i + 1) f_item)))
      else Inr (f_item, m))"
  by pat_completeness auto
termination
  by (relation "measure (\<lambda>(img, m, d, name, i, f). nat (dir_total d - i))") auto

declare find_loop.simps [simp del]

definition fat16_find_item_in_directory ::
  "disk_img \<Rightarrow> 'a fat_state_scheme \<Rightarrow> dir_ptr \<Rightarrow> u8 list \<Rightarrow> fault + (FAT_Item option \<times> 'a fat_state_scheme)" where
  "fat16_find_item_in_directory img m dp name =
     (case dp of NullDir \<Rightarrow> Inl NullPointer
      | FreedDir \<Rightarrow> Inl UseAfterFree
      | LiveDir d \<Rightarrow> find_loop img m d name 0 None)"

text \<open>The walk along the components; the item is dereferenced before it is compared with null.\<close>

fun walk_parts ::
  "disk_img \<Rightarrow> 'a fat_state_scheme \<Rightarrow> FAT_Item option \<Rightarrow> PathPart list \<Rightarrow>
     fault + (FAT_Item option \<times> 'a fat_state_scheme)" where
  "walk_parts img m current [] = Inr (current, m)"
| "walk_parts img m None (p # ps) = Inl NullPointer"
| "walk_parts img m (Some (FileItem a e)) (p # ps) = Inr (None, m)"
| "walk_parts img m (Some (DirectoryItem a d)) (p # ps) =
     bindE (fat16_find_item_in_directory img m d (part p)) (\<lambda>(tmp_item, m1).
     bindE (fat16_fat_item_free m1 (DirectoryItem a d)) (\<lambda>m2. walk_parts img m2 tmp_item ps))"

definition fat16_get_directory_entry ::
  "disk_img \<Rightarrow> 'a fat_state_scheme \<Rightarrow> PathPart list \<Rightarrow> fault + (FAT_Item option \<times> 'a fat_state_scheme)" where
  "fat16_get_directory_entry img m path =
     bindE (get_private m) (\<lambda>fp.
       case path of [] \<Rightarrow> Inl NullPointer
       | p # ps \<Rightarrow>
           bindE (fat16_find_item_in_directory img m (LiveDir (root_directory fp)) (part p)) (\<lambda>(root_item, m1).
             case root_item of None \<Rightarrow> Inr (None, m1)
             | Some it \<Rightarrow> walk_parts img m1 (Some it) ps))"

section \<open>The filesystem operations\<close>

definition FILE_MODE_READ :: u32 where "FILE_MODE_READ = 0"
definition FILE_MODE_WRITE :: u32 where "FILE_MODE_WRITE = 1"
definition FILE_MODE_APPEND :: u32 where "FILE_MODE_APPEND = 2"
definition FILE_MODE_INVALID :: u32 where "FILE_MODE_INVALID = 3"
definition SEEK_SET :: u32 where "SEEK_SET = 0"
definition SEEK_CUR :: u32 where "SEEK_CUR = 1"
definition SEEK_END :: u32 where "SEEK_END = 2"
definition FILE_STAT_READ_ONLY :: u32 where "FILE_STAT_READ_ONLY = 0x01"

lemmas file_consts = FILE_MODE_READ_def FILE_MODE_WRITE_def FILE_MODE_APPEND_def FILE_MODE_INVALID_def
  SEEK_SET_def SEEK_CUR_def SEEK_END_def FILE_STAT_READ_ONLY_def

record FileStat =
  stat_flags :: u32
  stat_filesize :: u32

text \<open>The pointer result of \<open>open\<close>: \<open>Inl\<close> is an error code passed through \<^verbatim>\<open>ERROR\<close>.\<close>

definition fat16_open ::
  "disk_img \<Rightarrow> 'a fat_state_scheme \<Rightarrow> PathPart list \<Rightarrow> u32 \<Rightarrow>
     fault + ((int + FAT_FileDescriptor) \<times> 'a fat_state_scheme)" where
  "fat16_open img m path_part filemode =
     (if filemode \<noteq> FILE_MODE_READ then Inr (Inl (- ERDONLY), m)
      else bindE (kzalloc m 8) (\<lambda>(desc, m1).
        if desc = 0 then Inr (Inl (- ENOMEM), m1)
        else bindE (fat16_get_directory_entry img m1 path_part) (\<lambda>(it, m2).
          case it of None \<Rightarrow> bindE (kfree m2 desc) (\<lambda>m3. Inr (Inl (- EIO), m3))
          | Some i \<Rightarrow> Inr (Inr \<lparr>desc_addr = desc, desc_item = i, desc_pos = 0\<rparr>, m2))))"

definition fat16_free_file_descriptor ::
  "'a machine_scheme \<Rightarrow> FAT_FileDescriptor \<Rightarrow> fault + 'a machine_scheme" where
  "fat16_free_file_descriptor m desc =
     bindE (fat16_fat_item_free m (desc_item desc)) (\<lambda>m1. kfree m1 (desc_addr desc))"

definition fat16_close :: "'a machine_scheme \<Rightarrow> FAT_FileDescriptor \<Rightarrow> fault + (int \<times> 'a machine_scheme)" where
  "fat16_close m desc = bindE (fat16_free_file_descriptor m desc) (\<lambda>m1. Inr (0, m1))"

text \<open>The result and the structure \<^verbatim>\<open>stat\<close> afterwards.\<close>

definition fat16_stat :: "FAT_FileDescriptor \<Rightarrow> FileStat \<Rightarrow> fault + (int \<times> FileStat)" where
  "fat16_stat desc st =
     (case desc_item desc of DirectoryItem p d \<Rightarrow> Inr (- EINVARG, st)
      | FileItem p None \<Rightarrow> Inl NullPointer
      | FileItem p (Some (a, ritem)) \<Rightarrow>
          Inr (0, \<lparr>stat_flags = (if attribute ritem AND FAT_FILE_READ_ONLY \<noteq> 0 then FILE_STAT_READ_ONLY else 0),
                  stat_filesize = filesize ritem\<rparr>))"

text \<open>The loop over the members of \<^verbatim>\<open>fat16_read\<close>; \<open>n\<close> are left.\<close>

primrec fat16_read_loop ::
  "disk_img \<Rightarrow> 'a fat_state_scheme \<Rightarrow> FAT_DirectoryItem \<Rightarrow> int \<Rightarrow> u32 \<Rightarrow> nat \<Rightarrow> int \<Rightarrow>
     fault + (int \<times> u8 list \<times> 'a fat_state_scheme)" where
  "fat16_read_loop img m it offset sz 0 done_res = Inr (done_res, [], m)"
| "fat16_read_loop img m it offset sz (Suc n) done_res =
     bindE (fat16_read_internal img m (sint (fat16_get_first_cluster it)) offset (sint sz)) (\<lambda>(res, bs, m1).
       if res < 0 then Inr (res, bs, m1)
       else bindE (fat16_read_loop img m1 it (sint (word_of_int offset + sz)) sz n done_res) (\<lambda>(res', bs', m2).
              Inr (res', bs @ bs', m2)))"

definition fat16_read ::
  "disk_img \<Rightarrow> 'a fat_state_scheme \<Rightarrow> FAT_FileDescriptor \<Rightarrow> u32 \<Rightarrow> u32 \<Rightarrow>
     fault + (int \<times> u8 list \<times> 'a fat_state_scheme)" where
  "fat16_read img m desc sz nmemb =
     (if nmemb = 0 then Inr (0, [], m) else
      case desc_item desc of DirectoryItem p d \<Rightarrow> Inl WrongMember
      | FileItem p None \<Rightarrow> Inl NullPointer
      | FileItem p (Some (a, it)) \<Rightarrow>
          fat16_read_loop img m it (sint (desc_pos desc)) sz (unat nmemb) (sint nmemb))"

definition fat16_seek :: "FAT_FileDescriptor \<Rightarrow> u32 \<Rightarrow> u32 \<Rightarrow> fault + (int \<times> FAT_FileDescriptor)" where
  "fat16_seek desc offset seek_mode =
     (case desc_item desc of DirectoryItem p d \<Rightarrow> Inr (- EINVARG, desc)
      | FileItem p None \<Rightarrow> Inl NullPointer
      | FileItem p (Some (a, ritem)) \<Rightarrow>
          if filesize ritem \<le> offset then Inr (- EIO, desc)
          else if seek_mode = SEEK_SET then Inr (0, desc\<lparr>desc_pos := offset\<rparr>)
          else if seek_mode = SEEK_END then Inr (- EUNIMP, desc)
          else if seek_mode = SEEK_CUR then Inr (0, desc\<lparr>desc_pos := desc_pos desc + offset\<rparr>)
          else Inr (- EINVARG, desc))"

section \<open>A mounted filesystem\<close>

text \<open>
  What a successful \<open>fat16_resolve\<close> establishes and every operation keeps: the private data exists, sectors
  have 512 bytes, and the three streams are there.
\<close>

definition fat_ready :: "'a fat_state_scheme \<Rightarrow> bool" where
  "fat_ready m \<longleftrightarrow> fs_private (disk m) \<noteq> 0 \<and> sector_size (disk m) = 512 \<and>
     (\<exists>s1 s2 s3. cluster_read_stream (fat_private m) = Some s1 \<and> stream_ok s1 \<and>
       fat_read_stream (fat_private m) = Some s2 \<and> stream_ok s2 \<and>
       directory_stream (fat_private m) = Some s3 \<and> stream_ok s3)"

text \<open>What reading changes: the positions of the streams and nothing else.\<close>

definition streams_only :: "'a fat_state_scheme \<Rightarrow> 'a fat_state_scheme \<Rightarrow> bool" where
  "streams_only m m' \<longleftrightarrow> (\<exists>s1 s2 s3. m' = m\<lparr>fat_private := (fat_private m)\<lparr>cluster_read_stream := s1,
     fat_read_stream := s2, directory_stream := s3\<rparr>\<rparr>)"

lemma streams_only_refl [simp]: "streams_only m m"
  unfolding streams_only_def
  by (rule exI [of _ "cluster_read_stream (fat_private m)"], rule exI [of _ "fat_read_stream (fat_private m)"],
      rule exI [of _ "directory_stream (fat_private m)"]) simp

lemma streams_only_trans: "streams_only m m' \<Longrightarrow> streams_only m' m'' \<Longrightarrow> streams_only m m''"
  by (clarsimp simp: streams_only_def) (intro exI, rule refl)

lemma streams_only_simps:
  assumes "streams_only m m'"
  shows "kernel_heap m' = kernel_heap m" "mem m' = mem m" "disk m' = disk m"
    "header (fat_private m') = header (fat_private m)"
    "root_directory (fat_private m') = root_directory (fat_private m)"
    "size_of_cluster m' = size_of_cluster m"
    "machine_inv m' A = machine_inv m A" "paging_enabled m' = paging_enabled m"
  using assms by (auto simp: streams_only_def size_of_cluster_def machine_inv_def)

definition dpos :: "'a fat_state_scheme \<Rightarrow> int" where
  "dpos m = pos (the (directory_stream (fat_private m)))"

lemma get_private_ready [simp]: "fat_ready m \<Longrightarrow> get_private m = Inr (fat_private m)"
  by (simp add: fat_ready_def get_private_def)

text \<open>The operations on one stream, from the laws of the byte stream.\<close>

lemma dir_seek_ok:
  assumes "fat_ready m"
  shows "\<exists>m'. dir_seek m p = Inr (0, m') \<and> streams_only m m' \<and> fat_ready m' \<and> dpos m' = p"
proof -
  from assms obtain s where s: "directory_stream (fat_private m) = Some s" "stream_ok s"
    by (auto simp: fat_ready_def)
  obtain s' where s': "diskstreamer_seek s p = (0, s')" "stream_ok s'" "pos s' = p"
    using ds.seek_ok [OF s(2)] by blast
  let ?m = "m\<lparr>fat_private := (fat_private m)\<lparr>directory_stream := Some s'\<rparr>\<rparr>"
  have "streams_only m ?m" unfolding streams_only_def
    by (rule exI [of _ "cluster_read_stream (fat_private m)"], rule exI [of _ "fat_read_stream (fat_private m)"],
        rule exI [of _ "Some s'"]) simp
  moreover have "dir_seek m p = Inr (0, ?m)" using assms s s' by (simp add: dir_seek_def)
  ultimately show ?thesis using assms s' by (intro exI [of _ ?m]) (auto simp: fat_ready_def dpos_def)
qed

lemma dir_read_ok:
  assumes "fat_ready m" and "0 \<le> dpos m" and "dpos m + int n < 2 ^ 31"
  shows "\<exists>m'. dir_read img m (int n) = Inr (0, bytes_at img (dpos m) n, m') \<and> streams_only m m' \<and> fat_ready m' \<and>
    dpos m' = dpos m + int n"
proof -
  from assms(1) obtain s where s: "directory_stream (fat_private m) = Some s" "stream_ok s"
    by (auto simp: fat_ready_def)
  then have "0 \<le> pos s" "pos s + int n < 2 ^ 31" using assms by (simp_all add: dpos_def)
  from ds.read_ok [OF s(2) this] obtain s' where
    s': "diskstreamer_read img s (int n) = Inr (0, bytes_at img (pos s) n, s')" "stream_ok s'" "pos s' = pos s + int n"
    by blast
  let ?m = "m\<lparr>fat_private := (fat_private m)\<lparr>directory_stream := Some s'\<rparr>\<rparr>"
  have "streams_only m ?m" unfolding streams_only_def
    by (rule exI [of _ "cluster_read_stream (fat_private m)"], rule exI [of _ "fat_read_stream (fat_private m)"],
        rule exI [of _ "Some s'"]) simp
  moreover have "dir_read img m (int n) = Inr (0, bytes_at img (dpos m) n, ?m)"
    using assms s s' by (simp add: dir_read_def dpos_def)
  ultimately show ?thesis using assms s s' by (intro exI [of _ ?m]) (auto simp: fat_ready_def dpos_def)
qed

text \<open>Seek then read on the cluster stream.\<close>

lemma cluster_seek_read_ok:
  assumes "fat_ready m" and "0 \<le> p" and "p + int n < 2 ^ 31"
  shows "\<exists>m1 m'. cluster_seek m p = Inr (0, m1) \<and> cluster_read img m1 (int n) = Inr (0, bytes_at img p n, m') \<and>
    streams_only m m' \<and> fat_ready m'"
proof -
  from assms(1) obtain s where s: "cluster_read_stream (fat_private m) = Some s" "stream_ok s"
    by (auto simp: fat_ready_def)
  from ds.seek_read [OF s(2) assms(2,3)] obtain s' where
    s': "diskstreamer_read img (snd (diskstreamer_seek s p)) (int n) = Inr (0, bytes_at img p n, s')" "stream_ok s'"
    by blast
  let ?m1 = "m\<lparr>fat_private := (fat_private m)\<lparr>cluster_read_stream := Some (snd (diskstreamer_seek s p))\<rparr>\<rparr>"
  let ?m = "m\<lparr>fat_private := (fat_private m)\<lparr>cluster_read_stream := Some s'\<rparr>\<rparr>"
  have "cluster_seek m p = Inr (0, ?m1)" using assms(1) s by (simp add: cluster_seek_def diskstreamer_seek_def)
  moreover have "get_private ?m1 = Inr (fat_private ?m1)" using assms(1) by (simp add: get_private_def fat_ready_def)
  then have "cluster_read img ?m1 (int n) = Inr (0, bytes_at img p n, ?m)"
    using s' by (simp add: cluster_read_def)
  moreover have "streams_only m ?m" unfolding streams_only_def
    by (rule exI [of _ "Some s'"], rule exI [of _ "fat_read_stream (fat_private m)"],
        rule exI [of _ "directory_stream (fat_private m)"]) simp
  moreover have "fat_ready ?m" using assms(1) s' by (auto simp: fat_ready_def)
  ultimately show ?thesis by blast
qed

section \<open>The directory scan\<close>

text \<open>
  Entry \<open>k\<close> of the directory at byte \<open>p\<close> of the disk, and the number of entries before entry \<open>n\<close> that are
  in use (not marked 0xE5).
\<close>

definition entry_at :: "disk_img \<Rightarrow> int \<Rightarrow> nat \<Rightarrow> FAT_DirectoryItem" where
  "entry_at img p k = FAT_DirectoryItem_of (bytes_at img (p + 32 * int k) 32)"

definition used_entries :: "disk_img \<Rightarrow> int \<Rightarrow> nat \<Rightarrow> nat" where
  "used_entries img p n = length (filter (\<lambda>k. flat img (p + 32 * int k) \<noteq> 0xE5) [0..<n])"

lemma filename_first: "length bs = 32 \<Longrightarrow> filename (FAT_DirectoryItem_of bs) ! 0 = bs ! 0"
  by (simp add: FAT_DirectoryItem_of_def slice_def)

lemma used_entries_Suc:
  "used_entries img p (Suc n) = (if flat img p \<noteq> 0xE5 then 1 else 0) + used_entries img (p + 32) n"
proof -
  have "[0..<Suc n] = 0 # map Suc [0..<n]" by (simp add: upt_conv_Cons map_Suc_upt del: upt_Suc)
  then show ?thesis
    by (simp add: used_entries_def filter_map comp_def algebra_simps del: upt_Suc)
qed

lemma count_items_ok:
  assumes "fat_ready m" and "0 \<le> dpos m" and "dpos m + 32 * int (Suc n) < 2 ^ 31" and "int n < fuel"
    and "flat img (dpos m + 32 * int n) = 0" and "\<forall>k<n. flat img (dpos m + 32 * int k) \<noteq> 0"
  shows "\<exists>m'. count_items img m fuel i = Inr (i + int (used_entries img (dpos m) n), m') \<and>
    streams_only m m' \<and> fat_ready m'"
  using assms
proof (induction n arbitrary: m fuel i)
  case 0
  from dir_read_ok [OF 0(1,2), of 32 img] 0(3) obtain m1 where
    r: "dir_read img m 32 = Inr (0, bytes_at img (dpos m) 32, m1)" "streams_only m m1" "fat_ready m1" by auto
  with 0 show ?case
    by (subst count_items.simps) (simp add: config filename_first Let_def used_entries_def)
next
  case (Suc n)
  have "dpos m + int 32 < 2 ^ 31" using Suc.prems(3) by simp
  from dir_read_ok [OF Suc.prems(1,2) this, of img] obtain m1 where
    r: "dir_read img m 32 = Inr (0, bytes_at img (dpos m) 32, m1)" "streams_only m m1" "fat_ready m1"
      "dpos m1 = dpos m + 32" by auto
  have first: "flat img (dpos m) \<noteq> 0" using Suc.prems(6) by fastforce
  let ?i = "if flat img (dpos m) = 0xE5 then i else i + 1"
  have step: "count_items img m fuel i = count_items img m1 (fuel - 1) ?i"
    using Suc.prems(4) first r(1)
    by (subst count_items.simps) (simp add: config filename_first Let_def)
  have "0 \<le> dpos m1" "dpos m1 + 32 * int (Suc n) < 2 ^ 31" "int n < fuel - 1"
    "flat img (dpos m1 + 32 * int n) = 0"
    using Suc.prems(2-5) r(4) by (simp_all add: algebra_simps)
  moreover have "\<forall>k<n. flat img (dpos m1 + 32 * int k) \<noteq> 0"
  proof (intro allI impI)
    fix k assume "k < n"
    with Suc.prems(6) have "flat img (dpos m + 32 * int (Suc k)) \<noteq> 0" by blast
    then show "flat img (dpos m1 + 32 * int k) \<noteq> 0" using r(4) by (simp add: algebra_simps)
  qed
  ultimately obtain m' where
    "count_items img m1 (fuel - 1) ?i = Inr (?i + int (used_entries img (dpos m1) n), m')"
    "streams_only m1 m'" "fat_ready m'"
    using Suc.IH [OF r(3)] by blast
  then show ?case
    using step r(2,4) streams_only_trans by (auto simp: used_entries_Suc)
qed

section \<open>Mounting\<close>

text \<open>
  The heap for the mount: from block \<open>s\<close> on nothing is allocated. A first-fit request then lands at or
  before \<open>s\<close>, and the rest stays free.
\<close>

definition tail_free :: "live \<Rightarrow> nat \<Rightarrow> bool" where
  "tail_free A s \<longleftrightarrow> (\<forall>i s' k'. s \<le> i \<longrightarrow> \<not> covers A s' k' i)"

lemma tail_free_mono: "tail_free A s \<Longrightarrow> s \<le> t \<Longrightarrow> tail_free A t"
  by (simp add: tail_free_def)

lemma tail_free_upd: "tail_free A s \<Longrightarrow> r \<le> s \<Longrightarrow> tail_free (A(r \<mapsto> k)) (s + k)"
  by (auto simp: tail_free_def covers_def split: if_splits)

lemma tail_free_drop: "tail_free A s \<Longrightarrow> tail_free (A(r := None)) s"
  by (auto simp: tail_free_def covers_def split: if_splits)

lemma kzalloc_room:
  assumes inv: "machine_inv m A" and sz: "0 < unat sz" "unat sz \<le> 2 ^ 32 - 4096"
    and room: "s + blocks_for (unat sz) \<le> kheap_blocks" and free: "tail_free A s"
  shows "\<exists>r h mm. kzalloc m sz = Inr (block_addr r, m\<lparr>kernel_heap := h, mem := mm\<rparr>) \<and> r \<le> s \<and>
    machine_inv (m\<lparr>kernel_heap := h, mem := mm\<rparr>) (A(r \<mapsto> blocks_for (unat sz))) \<and> A r = None \<and>
    tail_free (A(r \<mapsto> blocks_for (unat sz))) (s + blocks_for (unat sz))"
proof -
  from kmalloc_room [OF inv sz room] free obtain r h where
    r: "r \<le> s" "kmalloc m sz = Inr (block_addr r, m\<lparr>kernel_heap := h\<rparr>)"
      "machine_inv (m\<lparr>kernel_heap := h\<rparr>) (A(r \<mapsto> blocks_for (unat sz)))"
    and fresh: "\<forall>i s' k'. r \<le> i \<and> i < r + blocks_for (unat sz) \<longrightarrow> \<not> covers A s' k' i"
    unfolding tail_free_def by blast
  have "A r = None"
    using kh.fresh_not_live [OF _ blocks_for_pos [OF sz(1)] fresh] inv unfolding machine_inv_def by blast
  moreover have "block_addr r \<noteq> 0" using r(1) room by (intro block_addr_nonzero) simp
  ultimately show ?thesis
    using r tail_free_upd [OF free r(1)]
    by (intro exI [of _ r] exI [of _ h] exI [of _ "memset_mem (mem m) (block_addr r) 0 (unat sz)"])
      (simp add: kzalloc_def machine_inv_def)
qed

lemma blocks_for_small: "0 < n \<Longrightarrow> n \<le> 4096 \<Longrightarrow> blocks_for n = 1"
  by (rule blocks_for_eq) simp_all

lemma kzalloc_tail:
  assumes "machine_inv m A" and "0 < unat sz" and "unat sz \<le> 4096" and "s + 1 \<le> kheap_blocks" and "tail_free A s"
  shows "\<exists>r h mm. kzalloc m sz = Inr (block_addr r, m\<lparr>kernel_heap := h, mem := mm\<rparr>) \<and> r < kheap_blocks \<and>
    machine_inv (m\<lparr>kernel_heap := h, mem := mm\<rparr>) (A(r \<mapsto> 1)) \<and> A r = None \<and> tail_free (A(r \<mapsto> 1)) (s + 1)"
proof -
  have "s + blocks_for (unat sz) \<le> kheap_blocks" "unat sz \<le> 2 ^ 32 - 4096"
    using assms by (simp_all add: blocks_for_small)
  from kzalloc_room [OF assms(1,2) this(2,1) assms(5)] assms(2-4) show ?thesis
    unfolding blocks_for_small [OF assms(2,3)] by fastforce
qed

lemma fat_ready_heap [simp]: "fat_ready (m\<lparr>kernel_heap := h, mem := mm\<rparr>) = fat_ready m"
  by (simp add: fat_ready_def)

lemma fat_ready_heap' [simp]: "fat_ready (m\<lparr>kernel_heap := h\<rparr>) = fat_ready m"
  by (simp add: fat_ready_def)

text \<open>The geometry the header gives: the root directory's first byte and its number of entries.\<close>

definition root_sector :: "FAT_H \<Rightarrow> int" where
  "root_sector H = uint (fat_copies (primary_header H)) * uint (sectors_per_fat (primary_header H)) +
     uint (reserved_sectors (primary_header H))"

definition root_entries :: "FAT_H \<Rightarrow> nat" where
  "root_entries H = unat (root_dir_entries (primary_header H))"

text \<open>
  The header describes a volume the driver can address: the root directory is not empty, it lies below
  2 GB, and entry \<open>n\<close> is the first free entry that ends it.
\<close>

definition root_ok :: "disk_img \<Rightarrow> FAT_H \<Rightarrow> nat \<Rightarrow> bool" where
  "root_ok img H n \<longleftrightarrow> 0 < root_entries H \<and>
     root_sector H * 512 + 32 * int (Suc n) < 2 ^ 31 \<and> root_sector H * 512 + 32 * int (root_entries H) < 2 ^ 31 \<and>
     int n < scan_limit \<and>
     flat img (root_sector H * 512 + 32 * int n) = 0 \<and> (\<forall>k<n. flat img (root_sector H * 512 + 32 * int k) \<noteq> 0)"

lemma root_sector_nonneg [simp]: "0 \<le> root_sector H"
  by (simp add: root_sector_def)

lemma total_items_ok:
  assumes ready: "fat_ready m" and s: "0 \<le> s" and p: "s * 512 + 32 * int (Suc n) < 2 ^ 31" "int n < scan_limit"
    and last: "flat img (s * 512 + 32 * int n) = 0" "\<forall>k<n. flat img (s * 512 + 32 * int k) \<noteq> 0"
  shows "\<exists>m'. fat16_get_total_items_for_directory img m (word_of_int s) =
      Inr (int (used_entries img (s * 512) n), m') \<and> streams_only m m' \<and> fat_ready m'"
proof -
  have sector: "sector_size (disk m) = 512" using ready by (simp add: fat_ready_def)
  have "sint (word_of_int (s * 512) :: u32) = s * 512" using s p(1) by (intro sint_word_of_int_u32) simp_all
  then have start: "sint (word_of_int s * word_of_int (sector_size (disk m)) :: u32) = s * 512"
    unfolding sector of_int_mult .
  from dir_seek_ok [OF ready, of "s * 512"] obtain m1 where
    m1: "dir_seek m (s * 512) = Inr (0, m1)" "streams_only m m1" "fat_ready m1" "dpos m1 = s * 512" by blast
  from count_items_ok [OF m1(3), of n scan_limit img 0] m1(4) s p last obtain m2 where
    "count_items img m1 scan_limit 0 = Inr (0 + int (used_entries img (s * 512) n), m2)"
    "streams_only m1 m2" "fat_ready m2" by auto
  then show ?thesis
    using m1 streams_only_trans
    by (auto simp: fat16_get_total_items_for_directory_def start config)
qed

lemma slice_bytes_at: "i + n \<le> l \<Longrightarrow> slice (bytes_at img p l) i n = bytes_at img (p + int i) n"
  by (rule nth_equalityI) (auto simp: slice_def algebra_simps)

lemma items_of_bytes:
  "FAT_DirectoryItems_of (bytes_at img p (32 * n)) = map (entry_at img p) [0..<n]"
proof -
  have "slice (bytes_at img p (32 * n)) (32 * k) 32 = bytes_at img (p + 32 * int k) 32" if "k < n" for k
    using that by (subst slice_bytes_at) simp_all
  then show ?thesis by (simp add: FAT_DirectoryItems_of_def entry_at_def)
qed

definition root_blocks :: "FAT_H \<Rightarrow> nat" where
  "root_blocks H = blocks_for (32 * root_entries H)"

lemma root_entries_bound: "root_entries H < 65536"
  using unsigned_less [of "root_dir_entries (primary_header H)", where 'a = nat] by (simp add: root_entries_def)

lemma get_root_directory_ok:
  assumes ready: "fat_ready m" and inv: "machine_inv m A" and root: "root_ok img (header (fat_private m)) n"
    and room: "s + root_blocks (header (fat_private m)) \<le> kheap_blocks" and free: "tail_free A s"
  shows "\<exists>m' r. fat16_get_root_directory img m = Inr (0, m') \<and> fat_ready m' \<and>
    disk m' = disk m \<and> header (fat_private m') = header (fat_private m) \<and>
    machine_inv m' (A(r \<mapsto> root_blocks (header (fat_private m)))) \<and> A r = None \<and>
    root_directory (fat_private m') = (root_directory (fat_private m))\<lparr>item_addr := block_addr r,
      item := map (entry_at img (root_sector (header (fat_private m)) * 512)) [0..<root_entries (header (fat_private m))],
      dir_total := int (used_entries img (root_sector (header (fat_private m)) * 512) n),
      sector_pos := root_sector (header (fat_private m)),
      ending_sector_pos := root_sector (header (fat_private m)) + int (root_entries (header (fat_private m))) * 32 div 512\<rparr>"
proof -
  let ?H = "header (fat_private m)"
  let ?E = "root_entries ?H" and ?S = "root_sector ?H"
  have sector: "sector_size (disk m) = 512" using ready by (simp add: fat_ready_def)
  have E: "0 < ?E" "?E < 65536" using root root_entries_bound by (simp_all add: root_ok_def)
  have p: "?S * 512 + 32 * int (Suc n) < 2 ^ 31" "int n < scan_limit" "flat img (?S * 512 + 32 * int n) = 0"
    "\<forall>k<n. flat img (?S * 512 + 32 * int k) \<noteq> 0" "?S * 512 + 32 * int ?E < 2 ^ 31"
    using root by (simp_all add: root_ok_def)
  from total_items_ok [OF ready root_sector_nonneg p(1-4)] obtain m1 where
    m1: "fat16_get_total_items_for_directory img m (word_of_int ?S) = Inr (int (used_entries img (?S * 512) n), m1)"
      "streams_only m m1" "fat_ready m1" by blast
  note s1 = streams_only_simps [OF m1(2)]
  let ?sz = "word_of_int (int ?E * 32) :: u32"
  have sz: "unat ?sz = 32 * ?E" using E by (subst unat_word_of_int_u32) simp_all
  have inv1: "machine_inv m1 A" using inv by (simp only: s1)
  have "s + blocks_for (unat ?sz) \<le> kheap_blocks" using room by (simp only: sz root_blocks_def)
  moreover have "0 < unat ?sz" "unat ?sz \<le> 2 ^ 32 - 4096" unfolding sz using E by simp_all
  ultimately obtain r h mm where
    r: "kzalloc m1 ?sz = Inr (block_addr r, m1\<lparr>kernel_heap := h, mem := mm\<rparr>)" "r \<le> s"
      "machine_inv (m1\<lparr>kernel_heap := h, mem := mm\<rparr>) (A(r \<mapsto> root_blocks ?H))" "A r = None"
    using kzalloc_room [OF inv1 _ _ _ free, of ?sz] unfolding sz root_blocks_def by blast
  let ?m2 = "m1\<lparr>kernel_heap := h, mem := mm\<rparr>"
  have ready2: "fat_ready ?m2" using m1(3) by simp
  have nz: "block_addr r \<noteq> 0" using r(2) room by (intro block_addr_nonzero) simp
  have "0 \<le> ?S * 512" by simp
  then have "c_int (?S * 512) = ?S * 512" using p(1) by (intro c_int_id) linarith+
  then have abs: "fat16_sector_to_absolute (disk ?m2) ?S = ?S * 512"
    using s1(3) sector by (simp add: fat16_sector_to_absolute_def)
  from dir_seek_ok [OF ready2, of "?S * 512"] obtain m3 where
    m3: "dir_seek ?m2 (?S * 512) = Inr (0, m3)" "streams_only ?m2 m3" "fat_ready m3" "dpos m3 = ?S * 512" by blast
  have "0 \<le> dpos m3" "dpos m3 + int (32 * ?E) < 2 ^ 31" using m3(4) p(5) by simp_all
  from dir_read_ok [OF m3(3) this, of img] obtain m4 where
    m4: "dir_read img m3 (int (32 * ?E)) = Inr (0, bytes_at img (?S * 512) (32 * ?E), m4)" "streams_only m3 m4" "fat_ready m4"
    unfolding m3(4) by blast
  note s4 = streams_only_simps [OF streams_only_trans [OF m3(2) m4(2)]]
  have len: "uint (root_dir_entries (primary_header ?H)) = int ?E" by (simp add: root_entries_def)
  have len': "int (32 * ?E) = int ?E * 32" by simp
  have sec: "uint (fat_copies (primary_header ?H)) * uint (sectors_per_fat (primary_header ?H)) +
      uint (reserved_sectors (primary_header ?H)) = ?S" by (simp add: root_sector_def)
  let ?m5 = "m4\<lparr>fat_private := (fat_private m4)\<lparr>root_directory :=
      (root_directory (fat_private m4))\<lparr>item_addr := block_addr r, item := map (entry_at img (?S * 512)) [0..<?E],
         dir_total := int (used_entries img (?S * 512) n), sector_pos := ?S,
         ending_sector_pos := ?S + int ?E * 32 div 512\<rparr>\<rparr>\<rparr>"
  have cd: "cdiv (int ?E * 32) 512 = Inr (int ?E * 32 div 512)" by (rule cdiv_pos) simp_all
  have run: "fat16_get_root_directory img m = Inr (0, ?m5)"
    unfolding fat16_get_root_directory_def get_private_ready [OF ready] bindE_Inr Let_def len sec sector cd
      m1(1) r(1) prod.case abs m3(1) m4(1) [unfolded len'] items_of_bytes
    using nz by (simp add: config)
  have "fat_ready ?m5" using m4(3) by (simp add: fat_ready_def)
  moreover have "machine_inv ?m5 (A(r \<mapsto> root_blocks ?H))" using r(3) s4(1) by (simp add: machine_inv_def)
  ultimately show ?thesis using run r(4) s4(3-5) s1(3-5)
    by (intro exI [of _ ?m5] exI [of _ r]) simp
qed

text \<open>The three streams and the fourth, transient one.\<close>

lemma diskstreamer_new_ok:
  assumes "machine_inv m A" and "s + 1 \<le> kheap_blocks" and "tail_free A s"
  shows "\<exists>r h mm. diskstreamer_new m 0 = Inr (Some \<lparr>stream_addr = block_addr r, pos = 0, stream_disk = TheDisk\<rparr>,
      m\<lparr>kernel_heap := h, mem := mm\<rparr>) \<and> A r = None \<and> r < kheap_blocks \<and>
    machine_inv (m\<lparr>kernel_heap := h, mem := mm\<rparr>) (A(r \<mapsto> 1)) \<and> tail_free (A(r \<mapsto> 1)) (s + 1)"
proof -
  from kzalloc_tail [OF assms(1) _ _ assms(2,3), of 4] obtain r h mm where
    r: "kzalloc m 4 = Inr (block_addr r, m\<lparr>kernel_heap := h, mem := mm\<rparr>)" "r < kheap_blocks"
      "machine_inv (m\<lparr>kernel_heap := h, mem := mm\<rparr>) (A(r \<mapsto> 1))" "A r = None" "tail_free (A(r \<mapsto> 1)) (s + 1)"
    by auto
  from r(1,2) have "diskstreamer_new m 0 = Inr (Some \<lparr>stream_addr = block_addr r, pos = 0, stream_disk = TheDisk\<rparr>,
      m\<lparr>kernel_heap := h, mem := mm\<rparr>)" by (simp add: diskstreamer_new_def disk_get_def)
  with r(2-5) show ?thesis by blast
qed

lemma init_private_ok:
  assumes "machine_inv m A" and "s + 3 \<le> kheap_blocks" and "tail_free A s" and "disk_id (disk m) = 0"
  shows "\<exists>a b c h mm s1 s2 s3. fat16_init_private m = Inr (m\<lparr>kernel_heap := h, mem := mm,
      fat_private := \<lparr>header = zero_header, root_directory = zero_directory, cluster_read_stream = Some s1,
        fat_read_stream = Some s2, directory_stream = Some s3\<rparr>\<rparr>) \<and> stream_ok s1 \<and> stream_ok s2 \<and> stream_ok s3 \<and>
    machine_inv (m\<lparr>kernel_heap := h, mem := mm\<rparr>) (add_pages A [a, b, c]) \<and> distinct [a, b, c] \<and>
    (\<forall>t\<in>{a, b, c}. A t = None) \<and> tail_free (add_pages A [a, b, c]) (s + 3)"
proof -
  have room: "s + 1 \<le> kheap_blocks" "s + 1 + 1 \<le> kheap_blocks" "s + 1 + 1 + 1 \<le> kheap_blocks" using assms(2) by simp_all
  from diskstreamer_new_ok [OF assms(1) room(1) assms(3)] obtain a h1 m1 where
    a: "diskstreamer_new m 0 = Inr (Some \<lparr>stream_addr = block_addr a, pos = 0, stream_disk = TheDisk\<rparr>,
      m\<lparr>kernel_heap := h1, mem := m1\<rparr>)" "A a = None" "machine_inv (m\<lparr>kernel_heap := h1, mem := m1\<rparr>) (A(a \<mapsto> 1))"
      "tail_free (A(a \<mapsto> 1)) (s + 1)" by blast
  from diskstreamer_new_ok [OF a(3) room(2) a(4)] obtain b h2 m2 where
    b: "diskstreamer_new (m\<lparr>kernel_heap := h1, mem := m1\<rparr>) 0 = Inr (Some \<lparr>stream_addr = block_addr b, pos = 0, stream_disk = TheDisk\<rparr>,
      m\<lparr>kernel_heap := h2, mem := m2\<rparr>)" "(A(a \<mapsto> 1)) b = None"
      "machine_inv (m\<lparr>kernel_heap := h2, mem := m2\<rparr>) ((A(a \<mapsto> 1))(b \<mapsto> 1))" "tail_free ((A(a \<mapsto> 1))(b \<mapsto> 1)) (s + 1 + 1)"
    by auto
  from diskstreamer_new_ok [OF b(3) room(3) b(4)] obtain c h3 m3 where
    c: "diskstreamer_new (m\<lparr>kernel_heap := h2, mem := m2\<rparr>) 0 = Inr (Some \<lparr>stream_addr = block_addr c, pos = 0, stream_disk = TheDisk\<rparr>,
      m\<lparr>kernel_heap := h3, mem := m3\<rparr>)" "((A(a \<mapsto> 1))(b \<mapsto> 1)) c = None"
      "machine_inv (m\<lparr>kernel_heap := h3, mem := m3\<rparr>) (((A(a \<mapsto> 1))(b \<mapsto> 1))(c \<mapsto> 1))"
      "tail_free (((A(a \<mapsto> 1))(b \<mapsto> 1))(c \<mapsto> 1)) (s + 1 + 1 + 1)" by auto
  have e: "((A(a \<mapsto> 1))(b \<mapsto> 1))(c \<mapsto> 1) = add_pages A [a, b, c]" by (auto simp: add_pages_def)
  have "distinct [a, b, c]" "\<forall>t\<in>{a, b, c}. A t = None" using a(2) b(2) c(2) by (auto split: if_splits)
  moreover have "machine_inv (m\<lparr>kernel_heap := h3, mem := m3\<rparr>) (add_pages A [a, b, c])"
    "tail_free (add_pages A [a, b, c]) (s + 3)"
    using c(3,4) unfolding e by (simp_all only: add.assoc) (simp add: numeral_3_eq_3)
  moreover have "fat16_init_private m = Inr (m\<lparr>kernel_heap := h3, mem := m3,
      fat_private := \<lparr>header = zero_header, root_directory = zero_directory,
        cluster_read_stream = Some \<lparr>stream_addr = block_addr a, pos = 0, stream_disk = TheDisk\<rparr>,
        fat_read_stream = Some \<lparr>stream_addr = block_addr b, pos = 0, stream_disk = TheDisk\<rparr>,
        directory_stream = Some \<lparr>stream_addr = block_addr c, pos = 0, stream_disk = TheDisk\<rparr>\<rparr>\<rparr>)"
    by (simp add: fat16_init_private_def assms(4) a(1) b(1) c(1))
  moreover have "stream_ok \<lparr>stream_addr = x, pos = 0, stream_disk = TheDisk\<rparr>" for x by (simp add: stream_ok_def)
  ultimately show ?thesis by blast
qed

text \<open>
  What a mount leaves allocated: the private data, three streams (one block each) and the root
  directory.
\<close>

lemma kfree_back:
  assumes inv: "machine_inv m (A(r \<mapsto> k))" and r: "A r = None"
  shows "\<exists>h. kfree m (block_addr r) = Inr (m\<lparr>kernel_heap := h\<rparr>) \<and> machine_inv (m\<lparr>kernel_heap := h\<rparr>) A"
proof -
  have "(A(r \<mapsto> k)) r = Some k" "(A(r \<mapsto> k))(r := None) = A" using r by auto
  with kfree_live [OF inv, of r k] show ?thesis by auto
qed

lemma resolve_header_ok:
  assumes "fat_ready m" and "machine_inv m A" and "stream_ok st" and "pos st = 0"
    and sig: "signature (extended_header (FAT_H_of (bytes_at img 0 62))) = 0x29"
    and root: "root_ok img (FAT_H_of (bytes_at img 0 62)) n"
    and room: "s + root_blocks (FAT_H_of (bytes_at img 0 62)) \<le> kheap_blocks" and free: "tail_free A s"
  shows "\<exists>m' r. fat16_resolve_header img m st = Inr (0, m') \<and> fat_ready m' \<and> disk m' = disk m \<and>
    header (fat_private m') = FAT_H_of (bytes_at img 0 62) \<and>
    machine_inv m' (A(r \<mapsto> root_blocks (FAT_H_of (bytes_at img 0 62)))) \<and> A r = None \<and>
    item (root_directory (fat_private m')) =
      map (entry_at img (root_sector (FAT_H_of (bytes_at img 0 62)) * 512)) [0..<root_entries (FAT_H_of (bytes_at img 0 62))] \<and>
    dir_total (root_directory (fat_private m')) =
      int (used_entries img (root_sector (FAT_H_of (bytes_at img 0 62)) * 512) n)"
proof -
  let ?H = "FAT_H_of (bytes_at img 0 62)"
  let ?m1 = "m\<lparr>fat_private := (fat_private m)\<lparr>header := ?H\<rparr>\<rparr>"
  have h: "header (fat_private ?m1) = ?H" by simp
  have "fat_ready ?m1" "machine_inv ?m1 A" using assms(1,2) by (simp_all add: fat_ready_def machine_inv_def)
  from get_root_directory_ok [OF this, unfolded h, OF root room free] obtain m' r where
    m': "fat16_get_root_directory img ?m1 = Inr (0, m')" "fat_ready m'" "disk m' = disk ?m1"
      "header (fat_private m') = ?H" "machine_inv m' (A(r \<mapsto> root_blocks ?H))" "A r = None"
      "item (root_directory (fat_private m')) = map (entry_at img (root_sector ?H * 512)) [0..<root_entries ?H]"
      "dir_total (root_directory (fat_private m')) = int (used_entries img (root_sector ?H * 512) n)"
    by auto
  obtain st' where "diskstreamer_read img st 62 = Inr (0, bytes_at img 0 62, st')"
    using ds.read_ok [OF assms(3), of 62 img] assms(4) by auto
  then have "fat16_resolve_header img m st = Inr (0, m')"
    using m'(1) sig by (simp add: fat16_resolve_header_def config BIMBLEOS_FAT16_SIGNATURE_def)
  with m' show ?thesis by auto
qed

lemma fat16_resolve_ok:
  assumes inv: "machine_inv m A" and free: "tail_free A s"
    and room: "s + 5 + root_blocks (FAT_H_of (bytes_at img 0 62)) \<le> kheap_blocks"
    and dsk: "disk_id (disk m) = 0" "sector_size (disk m) = 512"
    and sig: "signature (extended_header (FAT_H_of (bytes_at img 0 62))) = 0x29"
    and root: "root_ok img (FAT_H_of (bytes_at img 0 62)) n"
  shows "\<exists>m' p a b c r. fat16_resolve img m = Inr (0, m') \<and> fat_ready m' \<and>
    filesystem (disk m') = Some ''FAT16'' \<and> fs_private (disk m') = block_addr p \<and>
    header (fat_private m') = FAT_H_of (bytes_at img 0 62) \<and>
    item (root_directory (fat_private m')) =
      map (entry_at img (root_sector (FAT_H_of (bytes_at img 0 62)) * 512)) [0..<root_entries (FAT_H_of (bytes_at img 0 62))] \<and>
    dir_total (root_directory (fat_private m')) =
      int (used_entries img (root_sector (FAT_H_of (bytes_at img 0 62)) * 512) n) \<and>
    machine_inv m' ((add_pages A [p, a, b, c])(r \<mapsto> root_blocks (FAT_H_of (bytes_at img 0 62)))) \<and>
    distinct [p, a, b, c, r] \<and> (\<forall>t\<in>{p, a, b, c, r}. A t = None)"
proof -
  let ?H = "FAT_H_of (bytes_at img 0 62)"
  have r1: "s + 1 \<le> kheap_blocks" "s + 1 + 3 \<le> kheap_blocks" "s + 1 + 3 + 1 \<le> kheap_blocks"
    "s + 1 + 3 + 1 + root_blocks ?H \<le> kheap_blocks" using room by simp_all
  from kzalloc_tail [OF inv _ _ r1(1) free, of 92] obtain p h1 mm1 where
    p: "kzalloc m 92 = Inr (block_addr p, m\<lparr>kernel_heap := h1, mem := mm1\<rparr>)" "p < kheap_blocks"
      "machine_inv (m\<lparr>kernel_heap := h1, mem := mm1\<rparr>) (A(p \<mapsto> 1))" "A p = None" "tail_free (A(p \<mapsto> 1)) (s + 1)"
    by auto
  let ?m1 = "m\<lparr>kernel_heap := h1, mem := mm1\<rparr>"
  from init_private_ok [OF p(3) r1(2) p(5)] dsk(1) obtain a b c h2 mm2 s1 s2 s3 where
    i: "fat16_init_private ?m1 = Inr (?m1\<lparr>kernel_heap := h2, mem := mm2,
      fat_private := \<lparr>header = zero_header, root_directory = zero_directory, cluster_read_stream = Some s1,
        fat_read_stream = Some s2, directory_stream = Some s3\<rparr>\<rparr>)" "stream_ok s1" "stream_ok s2" "stream_ok s3"
      "machine_inv (?m1\<lparr>kernel_heap := h2, mem := mm2\<rparr>) (add_pages (A(p \<mapsto> 1)) [a, b, c])" "distinct [a, b, c]"
      "\<forall>t\<in>{a, b, c}. (A(p \<mapsto> 1)) t = None" "tail_free (add_pages (A(p \<mapsto> 1)) [a, b, c]) (s + 1 + 3)" by auto
  let ?B = "add_pages (A(p \<mapsto> 1)) [a, b, c]"
  have B: "?B = add_pages A [p, a, b, c]" by (auto simp: add_pages_def)
  let ?m3 = "m\<lparr>kernel_heap := h2, mem := mm2,
      fat_private := \<lparr>header = zero_header, root_directory = zero_directory, cluster_read_stream = Some s1,
        fat_read_stream = Some s2, directory_stream = Some s3\<rparr>,
      disk := (disk m)\<lparr>fs_private := block_addr p, filesystem := Some ''FAT16''\<rparr>\<rparr>"
  have inv3: "machine_inv ?m3 ?B" using i(5) by (simp add: machine_inv_def)
  from diskstreamer_new_ok [OF inv3 r1(3) i(8)] obtain q h4 mm4 where
    q: "diskstreamer_new ?m3 0 = Inr (Some \<lparr>stream_addr = block_addr q, pos = 0, stream_disk = TheDisk\<rparr>,
      ?m3\<lparr>kernel_heap := h4, mem := mm4\<rparr>)" "?B q = None"
      "machine_inv (?m3\<lparr>kernel_heap := h4, mem := mm4\<rparr>) (?B(q \<mapsto> 1))" "tail_free (?B(q \<mapsto> 1)) (s + 1 + 3 + 1)" by blast
  let ?m4 = "?m3\<lparr>kernel_heap := h4, mem := mm4\<rparr>"
  have ready4: "fat_ready ?m4" using i(2-4) dsk p(2) by (simp add: fat_ready_def)
  have st: "stream_ok \<lparr>stream_addr = block_addr q, pos = 0, stream_disk = TheDisk\<rparr>" by (simp add: stream_ok_def)
  from resolve_header_ok [OF ready4 q(3) st _ sig root r1(4) q(4)] obtain m5 r where
    h: "fat16_resolve_header img ?m4 \<lparr>stream_addr = block_addr q, pos = 0, stream_disk = TheDisk\<rparr> = Inr (0, m5)"
      "fat_ready m5" "disk m5 = disk ?m4" "header (fat_private m5) = ?H"
      "machine_inv m5 (?B(q \<mapsto> 1, r \<mapsto> root_blocks ?H))" "(?B(q \<mapsto> 1)) r = None"
      "item (root_directory (fat_private m5)) = map (entry_at img (root_sector ?H * 512)) [0..<root_entries ?H]"
      "dir_total (root_directory (fat_private m5)) = int (used_entries img (root_sector ?H * 512) n)" by auto
  have rq: "r \<noteq> q" "?B r = None" using h(6) by (auto split: if_splits)
  have tw: "?B(q \<mapsto> 1, r \<mapsto> root_blocks ?H) = (?B(r \<mapsto> root_blocks ?H))(q \<mapsto> 1)" using rq by (auto simp: fun_eq_iff)
  have "(?B(r \<mapsto> root_blocks ?H)) q = None" using q(2) rq by auto
  from kfree_back [OF h(5) [unfolded tw] this] obtain h6 where
    f: "kfree m5 (block_addr q) = Inr (m5\<lparr>kernel_heap := h6\<rparr>)"
      "machine_inv (m5\<lparr>kernel_heap := h6\<rparr>) (?B(r \<mapsto> root_blocks ?H))" by blast
  have "fat16_resolve img m = Inr (0, m5\<lparr>kernel_heap := h6\<rparr>)"
    using dsk(1) p(2) i(1) q(1) h(1) f(1) by (simp add: fat16_resolve_def p(1) diskstreamer_close_def)
  moreover have "distinct [p, a, b, c, r]" "\<forall>t\<in>{p, a, b, c, r}. A t = None"
    using i(6,7) p(4) rq(2) by (auto simp: add_pages_def split: if_splits)
  ultimately show ?thesis using h f(2) unfolding B
    by (intro exI [of _ "m5\<lparr>kernel_heap := h6\<rparr>"] exI [of _ p] exI [of _ a] exI [of _ b] exI [of _ c] exI [of _ r]) simp
qed

section \<open>Names of directory entries\<close>

text \<open>The part of a padded name field before the first zero or blank, and the name \<open>NAME.EXT\<close>.\<close>

definition trim :: "u8 list \<Rightarrow> u8 list" where
  "trim f = takeWhile (\<lambda>c. c \<noteq> 0x00 \<and> c \<noteq> 0x20) f"

definition full_name :: "FAT_DirectoryItem \<Rightarrow> u8 list" where
  "full_name it = trim (filename it) @ (if trim (ext it) = [] then [] else 0x2E # trim (ext it))"

definition item_wf :: "FAT_DirectoryItem \<Rightarrow> bool" where
  "item_wf it \<longleftrightarrow> length (filename it) = 8 \<and> length (ext it) = 3"

lemma item_wf_of: "length bs = 32 \<Longrightarrow> item_wf (FAT_DirectoryItem_of bs)"
  by (simp add: item_wf_def FAT_DirectoryItem_of_def slice_def)

lemma trim_no_zero: "0 \<notin> set (trim f)"
  by (auto simp: trim_def dest: set_takeWhileD)

lemma length_trim: "length (trim f) \<le> length f"
  unfolding trim_def by (rule length_takeWhile_le)

lemma full_name_no_zero: "0 \<notin> set (full_name it)"
  using trim_no_zero by (auto simp: full_name_def)

lemma full_name_length: "item_wf it \<Longrightarrow> length (full_name it) \<le> 12"
  using length_trim [of "filename it"] length_trim [of "ext it"] by (auto simp: full_name_def item_wf_def)

lemma to_proper_loop_ok:
  assumes "p + length (trim inp) \<le> length out" and "i + length inp = sz" and "inp \<noteq> []"
  shows "to_proper_loop out p inp i sz =
    Inr (take p out @ trim inp @ drop (p + length (trim inp)) out, p + length (trim inp))"
  using assms
proof (induction out p inp i sz rule: to_proper_loop.induct)
  case (2 out p c inp i sz)
  show ?case
  proof (cases "c \<noteq> 0x00 \<and> c \<noteq> 0x20")
    case True
    then have w: "trim (c # inp) = c # trim inp" by (simp add: trim_def)
    have wr: "awrite out p c = Inr (out[p := c])" "take (Suc p) (out[p := c]) = take p out @ [c]"
      using "2.prems"(1) w by (simp_all add: take_Suc_conv_app_nth)
    show ?thesis
    proof (cases "inp = []")
      case True
      then have "sz - 1 \<le> i" "trim inp = []" using "2.prems"(2) by (simp_all add: trim_def)
      with \<open>c \<noteq> 0x00 \<and> c \<noteq> 0x20\<close> wr show ?thesis
        using "2.prems"(1) unfolding w by (simp add: upd_conv_take_nth_drop)
    next
      case False
      then have lt: "\<not> sz - 1 \<le> i" using "2.prems"(2) by (cases inp) auto
      have "to_proper_loop (out[p := c]) (p + 1) inp (i + 1) sz =
          Inr (take (p + 1) (out[p := c]) @ trim inp @ drop (p + 1 + length (trim inp)) (out[p := c]), p + 1 + length (trim inp))"
        using "2.IH" [OF True wr(1) lt] "2.prems" False w by simp
      with True lt wr w show ?thesis by simp
    qed
  next
    case False
    then have "trim (c # inp) = []" by (auto simp: trim_def)
    with False show ?thesis by auto
  qed
qed simp

lemma to_proper_string_ok:
  assumes "length (trim inp) < n" and "length inp = sz" and "inp \<noteq> []"
  shows "fat16_to_proper_string (w @ replicate n 0) (length w) inp sz =
    Inr (w @ trim inp @ replicate (n - length (trim inp)) 0, length w + length (trim inp))"
proof -
  have "to_proper_loop (w @ replicate n 0) (length w) inp 0 sz =
      Inr (w @ trim inp @ replicate (n - length (trim inp)) 0, length w + length (trim inp))"
    using assms by (subst to_proper_loop_ok) simp_all
  moreover obtain k where "n - length (trim inp) = Suc k" using assms(1) by (metis Suc_diff_Suc)
  ultimately show ?thesis
    by (simp add: fat16_to_proper_string_def awrite_def list_update_append)
qed

lemma full_relative_filename_ok:
  assumes wf: "item_wf it" and len: "length out = n" and n: "16 \<le> n"
  shows "fat16_get_full_relative_filename it out n = Inr (full_name it @ replicate (n - length (full_name it)) 0)"
proof -
  let ?f = "trim (filename it)" and ?e = "trim (ext it)"
  have lf: "length ?f \<le> 8" "length ?e \<le> 3" "filename it \<noteq> []" "ext it \<noteq> []"
    using length_trim [of "filename it"] length_trim [of "ext it"] wf by (auto simp: item_wf_def)
  have s1: "fat16_to_proper_string (replicate n 0) 0 (filename it) 8 = Inr (?f @ replicate (n - length ?f) 0, length ?f)"
    using to_proper_string_ok [of "filename it" n 8 "[]"] lf n wf by (simp add: item_wf_def)
  have e0: "aread (ext it) 0 = Inr (ext it ! 0)" using lf by simp
  have e: "?e = [] \<longleftrightarrow> ext it ! 0 = 0x00 \<or> ext it ! 0 = 0x20"
    using lf(4) by (cases "ext it") (auto simp: trim_def)
  show ?thesis
  proof (cases "?e = []")
    case True
    then show ?thesis
      using e len by (auto simp: fat16_get_full_relative_filename_def memset_ok s1 e0 full_name_def)
  next
    case False
    have "awrite (?f @ replicate (n - length ?f) 0) (length ?f) 0x2E = Inr ((?f @ [0x2E]) @ replicate (n - length ?f - 1) 0)"
    proof -
      obtain k where "n - length ?f = Suc k" using lf(1) n by (cases "n - length ?f") auto
      then show ?thesis by (simp add: awrite_def list_update_append)
    qed
    moreover have "fat16_to_proper_string ((?f @ [0x2E]) @ replicate (n - length ?f - 1) 0) (length (?f @ [0x2E])) (ext it) 3 =
        Inr ((?f @ [0x2E]) @ ?e @ replicate (n - length ?f - 1 - length ?e) 0, length (?f @ [0x2E]) + length ?e)"
      using lf n wf by (intro to_proper_string_ok) (simp_all add: item_wf_def)
    ultimately show ?thesis
      using False e len by (simp add: fat16_get_full_relative_filename_def memset_ok s1 e0 full_name_def)
  qed
qed

section \<open>Finding an item\<close>

text \<open>The comparison ignores case and looks at \<^verbatim>\<open>BIMBLEOS_MAX_PATH\<close> characters.\<close>

definition name_matches :: "FAT_DirectoryItem \<Rightarrow> u8 list \<Rightarrow> bool" where
  "name_matches it name \<longleftrightarrow> map tolower (full_name it) = map tolower (take 108 (cstr name))"

lemma istrncmp_loop_total:
  "terminated s1 \<Longrightarrow> terminated s2 \<Longrightarrow> \<exists>r. istrncmp_loop s1 s2 n = Inr r"
proof (induction s1 s2 n rule: istrncmp_loop.induct)
  case (2 u1 s1 u2 s2 n)
  show ?case
  proof (cases "u1 = 0")
    case True then show ?thesis by (auto simp: tolower_def)
  next
    case False
    then have "u2 = 0 \<Longrightarrow> tolower u1 \<noteq> tolower u2" by (metis tolower_eq_0)
    with 2 False show ?thesis by (cases "u2 = 0") auto
  qed
qed auto

lemma name_compare:
  assumes "item_wf it" and "terminated name"
  shows "\<exists>r. istrncmp (full_name it @ replicate (108 - length (full_name it)) 0) name (int BIMBLEOS_MAX_PATH) = Inr r \<and>
    (r = 0 \<longleftrightarrow> name_matches it name)"
proof -
  let ?b = "full_name it @ replicate (108 - length (full_name it)) 0"
  have l: "length (full_name it) \<le> 12" by (rule full_name_length [OF assms(1)])
  then obtain k where k: "108 - length (full_name it) = Suc k" by (cases "108 - length (full_name it)") auto
  have t: "terminated ?b" unfolding k by (simp add: terminated_def)
  have c: "cstr ?b = full_name it" unfolding k using cstr_append [OF full_name_no_zero] by simp
  obtain r where "istrncmp_loop ?b name 108 = Inr r" using istrncmp_loop_total [OF t assms(2)] by blast
  moreover from this have "r = 0 \<longleftrightarrow> name_matches it name"
    using istrncmp_loop_0_iff [OF t assms(2), of 108] l unfolding c name_matches_def by simp
  ultimately show ?thesis by (simp add: istrncmp_def config)
qed

text \<open>No match from entry \<open>i\<close> on: the item found before is kept and nothing is allocated.\<close>

lemma find_loop_step:
  assumes "i < length (item d)" and "int i < dir_total d" and "item_wf (item d ! i)" and "terminated name"
  shows "find_loop img m d name (int i) f =
    (if name_matches (item d ! i) name
     then bindE (fat16_new_fat_item_for_directory_item img m (item d ! i)) (\<lambda>(f', m1). find_loop img m1 d name (int i + 1) f')
     else find_loop img m d name (int i + 1) f)"
proof -
  have "fat16_get_full_relative_filename (item d ! i) (replicate BIMBLEOS_MAX_PATH 0) BIMBLEOS_MAX_PATH =
      Inr (full_name (item d ! i) @ replicate (108 - length (full_name (item d ! i))) 0)"
    using full_relative_filename_ok [OF assms(3), of "replicate 108 0" 108] by (simp add: config)
  with name_compare [OF assms(3,4)] show ?thesis
    using assms(1,2) by (subst find_loop.simps) auto
qed

lemma find_loop_none:
  assumes "dir_total d = int n" and "n \<le> length (item d)" and "\<forall>it\<in>set (item d). item_wf it" and "terminated name"
    and "\<forall>k. i \<le> k \<and> k < n \<longrightarrow> \<not> name_matches (item d ! k) name" and "i \<le> n"
  shows "find_loop img m d name (int i) f = Inr (f, m)"
  using assms(5,6)
proof (induction "n - i" arbitrary: i)
  case 0
  then show ?case using assms(1) by (subst find_loop.simps) simp
next
  case (Suc x)
  then have i: "i < n" by simp
  have "find_loop img m d name (int i) f = find_loop img m d name (int (Suc i)) f"
    using Suc.prems(1) i assms(1-4) by (subst find_loop_step) (auto simp: add.commute)
  also have "\<dots> = Inr (f, m)" using Suc i by (intro Suc.hyps(1)) auto
  finally show ?case .
qed

text \<open>Up to entry \<open>k\<close> nothing matches.\<close>

lemma find_loop_skip:
  assumes "dir_total d = int n" and "n \<le> length (item d)" and "\<forall>it\<in>set (item d). item_wf it" and "terminated name"
    and "\<forall>j<k. \<not> name_matches (item d ! j) name" and "k \<le> n"
  shows "find_loop img m d name 0 f = find_loop img m d name (int k) f"
  using assms(5,6)
proof (induction k)
  case (Suc k)
  then have "find_loop img m d name 0 f = find_loop img m d name (int k) f" by simp
  also have "\<dots> = find_loop img m d name (int (Suc k)) f"
    using Suc.prems assms(1-4) by (subst find_loop_step) (auto simp: add.commute)
  finally show ?case .
qed simp

section \<open>The cluster chain\<close>

text \<open>Where the code reads the entry of a cluster, and what it reads there.\<close>

definition fat_entry_pos :: "FAT_H \<Rightarrow> int \<Rightarrow> int" where
  "fat_entry_pos H c = uint (reserved_sectors (primary_header H)) * 512 * (2 * c)"

definition fat_entry :: "disk_img \<Rightarrow> FAT_H \<Rightarrow> int \<Rightarrow> int" where
  "fat_entry img H c = uint (le16 (bytes_at img (fat_entry_pos H c) 2) 0)"

lemma get_fat_entry_ok:
  assumes ready: "fat_ready m" and c: "0 \<le> c"
    and p: "fat_entry_pos (header (fat_private m)) c + 2 < 2 ^ 31"
  shows "\<exists>m'. fat16_get_fat_entry img m c = Inr (fat_entry img (header (fat_private m)) c, m') \<and>
    streams_only m m' \<and> fat_ready m'"
proof -
  let ?H = "header (fat_private m)" and ?R = "uint (reserved_sectors (primary_header (header (fat_private m))))"
  have sector: "sector_size (disk m) = 512" using ready by (simp add: fat_ready_def)
  have nn: "0 \<le> fat_entry_pos ?H c" using c by (simp add: fat_entry_pos_def)
  have "(ucast (reserved_sectors (primary_header ?H)) :: u32) = word_of_int ?R" by simp
  then have "fat16_get_first_fat_sector (fat_private m) * word_of_int 512 * word_of_int (c * 2) =
      word_of_int (?R * 512 * (c * 2))"
    unfolding fat16_get_first_fat_sector_def by (simp only: of_int_mult)
  then have "sint (fat16_get_first_fat_sector (fat_private m) * word_of_int 512 * word_of_int (c * 2)) =
      sint (word_of_int (fat_entry_pos ?H c) :: u32)"
    by (simp only: fat_entry_pos_def mult.commute [of c 2])
  also have "\<dots> = fat_entry_pos ?H c" using nn p by (intro sint_word_of_int_u32) linarith+
  finally have pos: "sint (fat16_get_first_fat_sector (fat_private m) * word_of_int 512 * word_of_int (c * 2)) =
      fat_entry_pos ?H c" .
  from ready obtain s where s: "fat_read_stream (fat_private m) = Some s" "stream_ok s" by (auto simp: fat_ready_def)
  have p2: "fat_entry_pos ?H c + int 2 < 2 ^ 31" using p by simp
  from ds.seek_read [OF s(2) nn p2, of img] obtain s' where
    s': "diskstreamer_read img (snd (diskstreamer_seek s (fat_entry_pos ?H c))) 2 =
      Inr (0, bytes_at img (fat_entry_pos ?H c) 2, s')" "stream_ok s'" by auto
  let ?m = "m\<lparr>fat_private := (fat_private m)\<lparr>fat_read_stream := Some s'\<rparr>\<rparr>"
  have "fat16_get_fat_entry img m c = Inr (fat_entry img ?H c, ?m)"
    unfolding fat16_get_fat_entry_def get_private_ready [OF ready] bindE_Inr s(1) option.case Let_def sector
      BIMBLEOS_FAT16_FAT_ENTRY_SIZE_def pos
    using s'(1) by (simp add: diskstreamer_seek_def fat_entry_def)
  moreover have "streams_only m ?m" unfolding streams_only_def
    by (rule exI [of _ "cluster_read_stream (fat_private m)"], rule exI [of _ "Some s'"],
        rule exI [of _ "directory_stream (fat_private m)"]) simp
  moreover have "fat_ready ?m" using ready s'(2) by (auto simp: fat_ready_def)
  ultimately show ?thesis by blast
qed

text \<open>
  The clusters the code comes to, by its own lookup: each is what it reads for the one before, and none is one of the values at
  which the walk stops. This says what the driver does, not where the file is: that is \<open>fat_path\<close>, below.
\<close>

definition driver_next :: "disk_img \<Rightarrow> FAT_H \<Rightarrow> int \<Rightarrow> int \<Rightarrow> bool" where
  "driver_next img H c d \<longleftrightarrow> 0 \<le> c \<and> fat_entry_pos H c + 2 < 2 ^ 31 \<and> fat_entry img H c = d \<and>
     d \<notin> {0xFF8, 0xFFF, 0xFF7, 0xFF0, 0xFF6, 0}"

definition driver_chain :: "disk_img \<Rightarrow> FAT_H \<Rightarrow> int list \<Rightarrow> bool" where
  "driver_chain img H cs \<longleftrightarrow> (\<forall>j. Suc j < length cs \<longrightarrow> driver_next img H (cs ! j) (cs ! Suc j))"

text \<open>
  The clusters of a file by the format: the entry of cluster \<open>c\<close> is the 16-bit word at place \<open>c\<close> of the table, which begins behind
  the reserved sectors, clusters count from 2, and an entry from \<open>0xFFF8\<close> on ends the file.
\<close>

definition fat_link :: "disk_img \<Rightarrow> FAT_H \<Rightarrow> int \<Rightarrow> int" where
  "fat_link img H c = uint (le16 (bytes_at img (uint (reserved_sectors (primary_header H)) * 512 + 2 * c) 2) 0)"

primrec fat_path :: "disk_img \<Rightarrow> FAT_H \<Rightarrow> int \<Rightarrow> int list \<Rightarrow> bool" where
  "fat_path img H x [] \<longleftrightarrow> 0xFFF8 \<le> x"
| "fat_path img H x (c # cs) \<longleftrightarrow> x = c \<and> 2 \<le> c \<and> c < 0xFFF7 \<and> fat_path img H (fat_link img H c) cs"

text \<open>The code's lookup of \<open>c\<close>, in the wrong place, comes upon the entry of \<open>c\<close> nevertheless.\<close>

definition lookup_right :: "disk_img \<Rightarrow> FAT_H \<Rightarrow> int \<Rightarrow> bool" where
  "lookup_right img H c \<longleftrightarrow> driver_next img H c (fat_link img H c)"

lemma fat_path_nth: "fat_path img H x cs \<Longrightarrow> Suc j < length cs \<Longrightarrow> cs ! Suc j = fat_link img H (cs ! j)"
proof (induction cs arbitrary: x j)
  case (Cons c cs)
  then show ?case by (cases j; cases cs) auto
qed simp

lemma fat_path_hd: "fat_path img H x cs \<Longrightarrow> cs \<noteq> [] \<Longrightarrow> hd cs = x"
  by (cases cs) simp_all

text \<open>Where the lookups that are needed are right, the code comes to the clusters of the file.\<close>

lemma fat_path_driver:
  assumes "fat_path img H x cs" and "\<forall>j. Suc j < k \<longrightarrow> lookup_right img H (cs ! j)"
  shows "driver_chain img H (take k cs)"
  using assms by (simp add: driver_chain_def lookup_right_def fat_path_nth)

lemma follow_chain_ok:
  assumes "fat_ready m" and "driver_chain img (header (fat_private m)) cs" and "i + n < length cs"
  shows "\<exists>m'. follow_chain img n m (cs ! i) = Inr (cs ! (i + n), m') \<and> streams_only m m' \<and> fat_ready m'"
  using assms
proof (induction n arbitrary: m i)
  case 0
  then show ?case by (auto intro!: exI [of _ m])
next
  case (Suc n)
  let ?H = "header (fat_private m)"
  have nx: "driver_next img ?H (cs ! i) (cs ! Suc i)" using Suc.prems(2,3) by (simp add: driver_chain_def)
  then obtain m1 where m1: "fat16_get_fat_entry img m (cs ! i) = Inr (cs ! Suc i, m1)" "streams_only m m1" "fat_ready m1"
    using get_fat_entry_ok [OF Suc.prems(1), of "cs ! i" img] by (auto simp: driver_next_def)
  have "driver_chain img (header (fat_private m1)) cs" "Suc i + n < length cs"
    using Suc.prems streams_only_simps(4) [OF m1(2)] by simp_all
  from Suc.IH [OF m1(3) this] obtain m' where
    "follow_chain img n m1 (cs ! Suc i) = Inr (cs ! (Suc i + n), m')" "streams_only m1 m'" "fat_ready m'" by blast
  with m1 nx show ?case
    using streams_only_trans [OF m1(2)] by (auto simp: driver_next_def BIMBLEOS_FAT16_BAD_SECTOR_def)
qed

section \<open>Reading\<close>

text \<open>The first byte of a cluster's data, and the size of a cluster.\<close>

definition cluster_pos :: "FAT_Private \<Rightarrow> int \<Rightarrow> int" where
  "cluster_pos fp c = (ending_sector_pos (root_directory fp) +
     (c - 2) * uint (sectors_per_cluster (primary_header (header fp)))) * 512"

definition cluster_bytes :: "FAT_Private \<Rightarrow> nat" where
  "cluster_bytes fp = unat (sectors_per_cluster (primary_header (header fp))) * 512"

definition cluster_ok :: "FAT_Private \<Rightarrow> int \<Rightarrow> bool" where
  "cluster_ok fp c \<longleftrightarrow> 0 \<le> c \<and> 0 \<le> cluster_pos fp c \<and> cluster_pos fp c + 2 * int (cluster_bytes fp) < 2 ^ 31"

lemma size_of_cluster_ready: "fat_ready m \<Longrightarrow> size_of_cluster m = int (cluster_bytes (fat_private m))"
  by (simp add: size_of_cluster_def cluster_bytes_def fat_ready_def)

lemma streams_only_cluster:
  "streams_only m m' \<Longrightarrow> cluster_pos (fat_private m') = cluster_pos (fat_private m) \<and>
     cluster_bytes (fat_private m') = cluster_bytes (fat_private m) \<and> cluster_ok (fat_private m') = cluster_ok (fat_private m)"
  using streams_only_simps(4,5) [of m m'] by (simp add: cluster_pos_def cluster_bytes_def cluster_ok_def fun_eq_iff)

text \<open>
  One round of the read: the cluster is found, the stream positioned at offset \<open>o\<close> in it, and at most one
  cluster's worth of bytes read from there.
\<close>

lemma sector_bounds: "x * 512 = p \<Longrightarrow> 0 \<le> p \<Longrightarrow> p + 2 * int k < 2 ^ 31 \<Longrightarrow> 0 \<le> x \<and> x < 2 ^ 31" for x :: int
  by simp

lemma read_chunk:
  assumes ready: "fat_ready m" and chain: "driver_chain img (header (fat_private m)) cs" "cs \<noteq> []"
    and ok: "\<forall>c\<in>set cs. cluster_ok (fat_private m) c" and CS: "cluster_bytes (fat_private m) = CS" "0 < CS"
    and offs: "ofs = j * CS + q" "q < CS" "j < length cs" and n: "n \<le> CS"
  shows "\<exists>m1 m2 m3. fat16_get_cluster_for_offset img m (hd cs) (int ofs) = Inr (cs ! j, m1) \<and>
    cmod (int ofs) (size_of_cluster m) = Inr (int q) \<and>
    cluster_seek m1 (c_int (fat16_cluster_to_sector (fat_private m1) (cs ! j) * sector_size (disk m1) + int q)) = Inr (0, m2) \<and>
    cluster_read img m2 (int n) = Inr (0, bytes_at img (cluster_pos (fat_private m) (cs ! j) + int q) n, m3) \<and>
    streams_only m m3 \<and> fat_ready m3"
proof -
  let ?c = "cs ! j"
  have size: "size_of_cluster m = int CS" using size_of_cluster_ready [OF ready] CS by simp
  have dm: "ofs div CS = j" "ofs mod CS = q" using offs(1,2) by simp_all
  from follow_chain_ok [OF ready chain(1), of 0 j] offs(3) obtain m1 where
    f: "follow_chain img j m (hd cs) = Inr (?c, m1)" "streams_only m m1" "fat_ready m1"
    using chain(2) by (auto simp: hd_conv_nth)
  have g: "fat16_get_cluster_for_offset img m (hd cs) (int ofs) = Inr (?c, m1)"
    using CS(2) dm f(1) by (simp add: fat16_get_cluster_for_offset_def ready size flip: zdiv_int)
  have md: "cmod (int ofs) (size_of_cluster m) = Inr (int q)" using CS(2) dm by (simp add: size flip: zmod_int)
  have c: "cluster_ok (fat_private m) ?c" using ok offs(3) by simp
  then have b: "0 \<le> cluster_pos (fat_private m) ?c" "cluster_pos (fat_private m) ?c + 2 * int CS < 2 ^ 31"
    using CS by (simp_all add: cluster_ok_def)
  have fp1: "cluster_pos (fat_private m1) ?c = cluster_pos (fat_private m) ?c" "disk m1 = disk m"
    using streams_only_cluster [OF f(2)] streams_only_simps(3) [OF f(2)] by simp_all
  have sec: "sector_size (disk m1) = 512" using ready fp1(2) by (simp add: fat_ready_def)
  let ?x = "ending_sector_pos (root_directory (fat_private m1)) +
      (?c - 2) * uint (sectors_per_cluster (primary_header (header (fat_private m1))))"
  have x: "?x * 512 = cluster_pos (fat_private m) ?c" using fp1(1) by (simp add: cluster_pos_def)
  then have "0 \<le> ?x" "?x < 2 ^ 31" using sector_bounds [OF x b] by simp_all
  then have "fat16_cluster_to_sector (fat_private m1) ?c = ?x"
    unfolding fat16_cluster_to_sector_def by (intro c_int_id) linarith+
  then have e: "fat16_cluster_to_sector (fat_private m1) ?c * sector_size (disk m1) + int q =
      cluster_pos (fat_private m) ?c + int q" by (simp only: sec x)
  have p: "0 \<le> cluster_pos (fat_private m) ?c + int q" "cluster_pos (fat_private m) ?c + int q + int n < 2 ^ 31"
    using b offs(2) n by linarith+
  then have "c_int (cluster_pos (fat_private m) ?c + int q) = cluster_pos (fat_private m) ?c + int q"
    by (intro c_int_id) linarith+
  then have ce: "c_int (fat16_cluster_to_sector (fat_private m1) ?c * sector_size (disk m1) + int q) =
      cluster_pos (fat_private m) ?c + int q" by (simp only: e)
  from cluster_seek_read_ok [OF f(3) p, of img] obtain m2 m3 where
    "cluster_seek m1 (cluster_pos (fat_private m) ?c + int q) = Inr (0, m2)"
    "cluster_read img m2 (int n) = Inr (0, bytes_at img (cluster_pos (fat_private m) ?c + int q) n, m3)"
    "streams_only m1 m3" "fat_ready m3" by blast
  with g md streams_only_trans [OF f(2)] show ?thesis
    by (intro exI [of _ m1] exI [of _ m2] exI [of _ m3]) (simp add: ce)
qed

text \<open>
  Reading \<open>tot\<close> bytes from the start of cluster number \<open>j\<close> of the chain on: the data of the clusters in chain
  order.
\<close>

definition cluster_data :: "disk_img \<Rightarrow> FAT_Private \<Rightarrow> int \<Rightarrow> u8 list" where
  "cluster_data img fp c = bytes_at img (cluster_pos fp c) (cluster_bytes fp)"

lemma bytes_at_take: "n \<le> l \<Longrightarrow> take n (bytes_at img p l) = bytes_at img p n"
  by (rule nth_equalityI) simp_all

lemma read_internal_chain:
  assumes "fat_ready m" and "driver_chain img (header (fat_private m)) cs" and "cs \<noteq> []"
    and "\<forall>c\<in>set cs. cluster_ok (fat_private m) c" and "cluster_bytes (fat_private m) = CS" and "0 < CS"
    and "0 < n" and "j * CS + n \<le> length cs * CS" and "length cs * CS < 2 ^ 31"
  shows "\<exists>m'. fat16_read_internal_from_stream img m (hd cs) (int (j * CS)) (int n) =
      Inr (0, take n (concat (map (cluster_data img (fat_private m)) (drop j cs))), m') \<and>
    streams_only m m' \<and> fat_ready m'"
  using assms
proof (induction n arbitrary: m j rule: less_induct)
  case (less n)
  let ?fp = "fat_private m"
  have j: "j < length cs"
  proof (rule ccontr)
    assume "\<not> j < length cs"
    then have "length cs * CS \<le> j * CS" by (intro mult_le_mono1) simp
    with less.prems(7,8) show False by simp
  qed
  define k where "k = min n CS"
  have k: "k \<le> CS" "k \<le> n" "0 < k" using less.prems(6,7) by (simp_all add: k_def)
  have size: "size_of_cluster m = int CS" using size_of_cluster_ready less.prems(1,5) by metis
  have kk: "(if int CS < int n then int CS else int n) = int k" by (simp add: k_def)
  from read_chunk [OF less.prems(1-6), of "j * CS" j 0 k] j k obtain m1 m2 m3 where
    r: "fat16_get_cluster_for_offset img m (hd cs) (int (j * CS)) = Inr (cs ! j, m1)"
      "cmod (int (j * CS)) (int CS) = Inr 0"
      "cluster_seek m1 (c_int (fat16_cluster_to_sector (fat_private m1) (cs ! j) * sector_size (disk m1) + 0)) = Inr (0, m2)"
      "cluster_read img m2 (int k) = Inr (0, bytes_at img (cluster_pos ?fp (cs ! j)) k, m3)" "streams_only m m3" "fat_ready m3"
    using less.prems(6) size by auto
  have "cluster_ok ?fp (cs ! j)" using less.prems(4) j by simp
  then have c0: "\<not> cs ! j < 0" by (simp add: cluster_ok_def)
  have d: "drop j cs = cs ! j # drop (Suc j) cs" using j by (simp add: Cons_nth_drop_Suc)
  have cd: "take k (cluster_data img ?fp (cs ! j)) = bytes_at img (cluster_pos ?fp (cs ! j)) k"
    using k less.prems(5) by (simp add: cluster_data_def bytes_at_take)
  have lcd: "length (cluster_data img ?fp (cs ! j)) = CS" using less.prems(5) by (simp add: cluster_data_def)
  show ?case
  proof (cases "n \<le> CS")
    case True
    then have "k = n" by (simp add: k_def)
    then show ?thesis
      using r c0 True cd lcd unfolding d
      by (subst fat16_read_internal_from_stream.simps) (simp add: size Let_def kk[simplified] config)
  next
    case False
    then have kCS: "k = CS" by (simp add: k_def)
    have ready3: "fat_ready m3" by (rule r(6))
    note s3 = streams_only_simps(4) [OF r(5)] streams_only_cluster [OF r(5)]
    have cdata: "cluster_data img (fat_private m3) = cluster_data img ?fp"
      using s3 by (simp add: fun_eq_iff cluster_data_def)
    have "Suc j * CS + (n - CS) \<le> length cs * CS" using less.prems(8) False by simp
    then obtain m' where IH: "fat16_read_internal_from_stream img m3 (hd cs) (int (Suc j * CS)) (int (n - CS)) =
        Inr (0, take (n - CS) (concat (map (cluster_data img ?fp) (drop (Suc j) cs))), m')" "streams_only m3 m'" "fat_ready m'"
      using less.IH [of "n - CS" m3 "Suc j"] ready3 less.prems s3 False unfolding cdata by auto
    have nn: "int n - int CS = int (n - CS)" using False by simp
    have "int (Suc j * CS) < 2 ^ 31" using less.prems(8,9) False by (simp del: of_nat_mult)
    then have "c_int (int (Suc j * CS)) = int (Suc j * CS)"
      by (intro c_int_id) (simp_all del: of_nat_mult)
    moreover have "int (j * CS) + int CS = int (Suc j * CS)" by simp
    ultimately have off: "c_int (int (j * CS) + int CS) = int (Suc j * CS)" by (simp only:)
    have "fat16_read_internal_from_stream img m (hd cs) (int (j * CS)) (int n) =
        Inr (0, bytes_at img (cluster_pos ?fp (cs ! j)) CS @
          take (n - CS) (concat (map (cluster_data img ?fp) (drop (Suc j) cs))), m')"
      using r c0 False less.prems(6) IH(1) [folded nn] unfolding kCS
      by (subst fat16_read_internal_from_stream.simps) (simp add: size Let_def config off del: of_nat_mult)
    moreover have "take n (concat (map (cluster_data img ?fp) (drop j cs))) = bytes_at img (cluster_pos ?fp (cs ! j)) CS @
          take (n - CS) (concat (map (cluster_data img ?fp) (drop (Suc j) cs)))"
      using less.prems(5) False unfolding d by (simp add: cluster_data_def)
    moreover have "streams_only m m'" by (rule streams_only_trans [OF r(5) IH(2)])
    ultimately show ?thesis using IH(3) by (intro exI [of _ m']) (simp only: simp_thms)
  qed
qed

section \<open>Opening and closing\<close>

definition heap_only :: "'a machine_scheme \<Rightarrow> 'a machine_scheme \<Rightarrow> bool" where
  "heap_only m m' \<longleftrightarrow> (\<exists>h mm. m' = m\<lparr>kernel_heap := h, mem := mm\<rparr>)"

lemma heap_only_trans: "heap_only m m' \<Longrightarrow> heap_only m' m'' \<Longrightarrow> heap_only m m''"
  by (clarsimp simp: heap_only_def) (intro exI, rule refl)

lemma heap_only_fat:
  assumes "heap_only m m'"
  shows "disk m' = disk m" "fat_private m' = fat_private m" "fat_ready m' = fat_ready m"
    "paging_enabled m' = paging_enabled m"
  using assms by (auto simp: heap_only_def fat_ready_def)

lemma kzalloc_heap_only:
  assumes "machine_inv m A" and "0 < unat sz" and "unat sz \<le> 4096" and "card (kh.used A) < kheap_blocks"
  shows "\<exists>r m'. kzalloc m sz = Inr (block_addr r, m') \<and> heap_only m m' \<and> machine_inv m' (A(r \<mapsto> 1)) \<and> A r = None \<and>
    r < kheap_blocks \<and> kh.used (A(r \<mapsto> 1)) = insert r (kh.used A) \<and> mem_kept A m m'"
proof -
  from kzalloc_page [OF assms] obtain r h mm where z: "kzalloc m sz = Inr (block_addr r, m\<lparr>kernel_heap := h, mem := mm\<rparr>)" by blast
  moreover have "heap_only m (m\<lparr>kernel_heap := h, mem := mm\<rparr>)" by (auto simp: heap_only_def)
  ultimately show ?thesis using kzalloc_fresh [OF assms] by auto
qed

lemma used_two:
  assumes "kh.used A' = insert r (kh.used A)" and "card (kh.used A) + Suc k \<le> n"
  shows "card (kh.used A') + k \<le> n"
proof -
  have "card (kh.used A') \<le> Suc (card (kh.used A))" unfolding assms(1) by (rule card_insert_le_m1) simp_all
  then show ?thesis using assms(2) by simp
qed

text \<open>A name that exactly one entry has, a file.\<close>

definition unique_file :: "FAT_Directory \<Rightarrow> u8 list \<Rightarrow> nat \<Rightarrow> bool" where
  "unique_file d name k \<longleftrightarrow> terminated name \<and> 0 \<le> dir_total d \<and> nat (dir_total d) \<le> length (item d) \<and>
     (\<forall>it\<in>set (item d). item_wf it) \<and> k < nat (dir_total d) \<and>
     (\<forall>j<nat (dir_total d). name_matches (item d ! j) name \<longleftrightarrow> j = k) \<and>
     attribute (item d ! k) AND FAT_FILE_SUBDIRECTORY = 0"

lemma find_file_ok:
  fixes m :: "'a fat_state_scheme"
  assumes u: "unique_file d name k" and inv: "machine_inv m A" and room: "card (kh.used A) + 2 \<le> kheap_blocks"
  shows "\<exists>a b m'. fat16_find_item_in_directory img m (LiveDir d) name =
      Inr (Some (FileItem (block_addr a) (Some (block_addr b, item d ! k))), m') \<and> heap_only m m' \<and>
    machine_inv m' (A(a \<mapsto> 1, b \<mapsto> 1)) \<and> a \<noteq> b \<and> A a = None \<and> A b = None \<and> mem_kept A m m'"
proof -
  obtain n where n: "dir_total d = int n" "n \<le> length (item d)" "k < n" "terminated name" "\<forall>it\<in>set (item d). item_wf it"
    "\<forall>j<n. name_matches (item d ! j) name \<longleftrightarrow> j = k" "attribute (item d ! k) AND FAT_FILE_SUBDIRECTORY = 0"
    using u by (auto simp: unique_file_def intro: that [of "nat (dir_total d)"])
  have "card (kh.used A) < kheap_blocks" using room by simp
  from kzalloc_heap_only [OF inv _ _ this, of 8] obtain a m1 where
    a: "kzalloc m 8 = Inr (block_addr a, m1)" "heap_only m m1" "machine_inv m1 (A(a \<mapsto> 1))" "A a = None" "a < kheap_blocks"
      "kh.used (A(a \<mapsto> 1)) = insert a (kh.used A)" "mem_kept A m m1" by auto
  have "card (kh.used (A(a \<mapsto> 1))) < kheap_blocks" using used_two [OF a(6), of 1 kheap_blocks] room by simp
  from kzalloc_heap_only [OF a(3) _ _ this, of 32] obtain b m2 where
    b: "kzalloc m1 32 = Inr (block_addr b, m2)" "heap_only m1 m2" "machine_inv m2 ((A(a \<mapsto> 1))(b \<mapsto> 1))"
      "(A(a \<mapsto> 1)) b = None" "b < kheap_blocks" "mem_kept (A(a \<mapsto> 1)) m1 m2" by auto
  have new: "fat16_new_fat_item_for_directory_item img m (item d ! k) =
      Inr (Some (FileItem (block_addr a) (Some (block_addr b, item d ! k))), m2)"
    using a(1,5) b(1,5) n(7) by (simp add: fat16_new_fat_item_for_directory_item_def fat16_clone_directory_item_def)
  have "find_loop img m d name 0 None = find_loop img m d name (int k) None"
    using n by (intro find_loop_skip [OF n(1,2,5,4)]) auto
  also have "\<dots> = find_loop img m2 d name (int (Suc k)) (Some (FileItem (block_addr a) (Some (block_addr b, item d ! k))))"
    using n new by (subst find_loop_step) (auto simp: add.commute)
  also have "\<dots> = Inr (Some (FileItem (block_addr a) (Some (block_addr b, item d ! k))), m2)"
    using n by (intro find_loop_none [OF n(1,2,5,4)]) auto
  finally have "fat16_find_item_in_directory img m (LiveDir d) name =
      Inr (Some (FileItem (block_addr a) (Some (block_addr b, item d ! k))), m2)"
    by (simp add: fat16_find_item_in_directory_def)
  moreover have "a \<noteq> b" "A b = None" using b(4) by (auto split: if_splits)
  moreover have "mem_kept A m m2" using a(4) by (intro mem_kept_trans [OF a(7) b(6)]) (auto simp: map_le_def)
  ultimately show ?thesis using a(4) b(3) heap_only_trans [OF a(2) b(2)] by blast
qed

lemma fat16_open_ok:
  fixes m :: "'a fat_state_scheme"
  assumes ready: "fat_ready m" and inv: "machine_inv m A" and room: "card (kh.used A) + 3 \<le> kheap_blocks"
    and u: "unique_file (root_directory (fat_private m)) (part p) k"
  shows "\<exists>c a b m'. fat16_open img m [p] FILE_MODE_READ =
      Inr (Inr \<lparr>desc_addr = block_addr c, desc_item = FileItem (block_addr a)
        (Some (block_addr b, item (root_directory (fat_private m)) ! k)), desc_pos = 0\<rparr>, m') \<and>
    heap_only m m' \<and> machine_inv m' (A(c \<mapsto> 1, a \<mapsto> 1, b \<mapsto> 1)) \<and> distinct [c, a, b] \<and> (\<forall>t\<in>{c, a, b}. A t = None) \<and>
    mem_kept A m m'"
proof -
  have "card (kh.used A) < kheap_blocks" using room by simp
  from kzalloc_heap_only [OF inv _ _ this, of 8] obtain c m1 where
    c: "kzalloc m 8 = Inr (block_addr c, m1)" "heap_only m m1" "machine_inv m1 (A(c \<mapsto> 1))" "A c = None" "c < kheap_blocks"
      "kh.used (A(c \<mapsto> 1)) = insert c (kh.used A)" "mem_kept A m m1" by auto
  have "card (kh.used (A(c \<mapsto> 1))) + 2 \<le> kheap_blocks" using used_two [OF c(6), of 2 kheap_blocks] room by simp
  moreover have "unique_file (root_directory (fat_private m1)) (part p) k" using u heap_only_fat(2) [OF c(2)] by simp
  ultimately obtain a b m2 where
    f: "fat16_find_item_in_directory img m1 (LiveDir (root_directory (fat_private m1))) (part p) =
      Inr (Some (FileItem (block_addr a) (Some (block_addr b, item (root_directory (fat_private m1)) ! k))), m2)"
      "heap_only m1 m2" "machine_inv m2 ((A(c \<mapsto> 1))(a \<mapsto> 1, b \<mapsto> 1))" "a \<noteq> b" "(A(c \<mapsto> 1)) a = None" "(A(c \<mapsto> 1)) b = None"
      "mem_kept (A(c \<mapsto> 1)) m1 m2"
    using find_file_ok [OF _ c(3)] by blast
  have "fat_ready m1" using ready heap_only_fat(3) [OF c(2)] by simp
  then have "fat16_open img m [p] FILE_MODE_READ =
      Inr (Inr \<lparr>desc_addr = block_addr c, desc_item = FileItem (block_addr a)
        (Some (block_addr b, item (root_directory (fat_private m)) ! k)), desc_pos = 0\<rparr>, m2)"
    using c(1,5) f(1) heap_only_fat(2) [OF c(2)] by (simp add: fat16_open_def fat16_get_directory_entry_def)
  moreover have "distinct [c, a, b]" "\<forall>t\<in>{c, a, b}. A t = None" using f(4-6) c(4) by (auto split: if_splits)
  moreover have "mem_kept A m m2" using c(4) by (intro mem_kept_trans [OF c(7) f(7)]) (auto simp: map_le_def)
  ultimately show ?thesis using f(3) heap_only_trans [OF c(2) f(2)] by blast
qed

lemma fat16_close_file_ok:
  assumes inv: "machine_inv m (A(c \<mapsto> 1, a \<mapsto> 1, b \<mapsto> 1))" and dist: "distinct [c, a, b]" and new: "\<forall>t\<in>{c, a, b}. A t = None"
    and desc: "desc_addr desc = block_addr c" "desc_item desc = FileItem (block_addr a) (Some (block_addr b, it))"
  shows "\<exists>h. fat16_close m desc = Inr (0, m\<lparr>kernel_heap := h\<rparr>) \<and> machine_inv (m\<lparr>kernel_heap := h\<rparr>) A"
proof -
  have "(A(c \<mapsto> 1, a \<mapsto> 1)) b = None" using dist new by auto
  from kfree_back [OF inv this] obtain h1 where
    h1: "kfree m (block_addr b) = Inr (m\<lparr>kernel_heap := h1\<rparr>)" "machine_inv (m\<lparr>kernel_heap := h1\<rparr>) (A(c \<mapsto> 1, a \<mapsto> 1))" by blast
  have "(A(c \<mapsto> 1)) a = None" using dist new by auto
  from kfree_back [OF h1(2) this] obtain h2 where
    h2: "kfree (m\<lparr>kernel_heap := h1\<rparr>) (block_addr a) = Inr (m\<lparr>kernel_heap := h2\<rparr>)"
      "machine_inv (m\<lparr>kernel_heap := h2\<rparr>) (A(c \<mapsto> 1))" by (auto simp: fun_upd_def)
  have "A c = None" using new by auto
  from kfree_back [OF h2(2) this] obtain h3 where
    h3: "kfree (m\<lparr>kernel_heap := h2\<rparr>) (block_addr c) = Inr (m\<lparr>kernel_heap := h3\<rparr>)"
      "machine_inv (m\<lparr>kernel_heap := h3\<rparr>) A" by (auto simp: fun_upd_def)
  show ?thesis using h1 h2 h3 desc
    by (intro exI [of _ h3]) (simp add: fat16_close_def fat16_free_file_descriptor_def fat16_fat_item_free_def)
qed

text \<open>No entry has the name: the descriptor is freed and the state is as before.\<close>

definition no_entry :: "FAT_Directory \<Rightarrow> u8 list \<Rightarrow> bool" where
  "no_entry d name \<longleftrightarrow> terminated name \<and> 0 \<le> dir_total d \<and> nat (dir_total d) \<le> length (item d) \<and>
     (\<forall>it\<in>set (item d). item_wf it) \<and> (\<forall>j<nat (dir_total d). \<not> name_matches (item d ! j) name)"

lemma find_no_entry:
  assumes "no_entry d name" shows "fat16_find_item_in_directory img m (LiveDir d) name = Inr (None, m)"
proof -
  have "find_loop img m d name (int 0) None = Inr (None, m)"
    using assms by (intro find_loop_none [where n = "nat (dir_total d)"]) (auto simp: no_entry_def)
  then show ?thesis by (simp add: fat16_find_item_in_directory_def)
qed

text \<open>A volume whose signature is not that of FAT16.\<close>

lemma fat16_resolve_reject:
  assumes inv: "machine_inv m A" and free: "tail_free A s" and room: "s + 5 \<le> kheap_blocks"
    and dsk: "disk_id (disk m) = 0" "sector_size (disk m) = 512"
    and sig: "signature (extended_header (FAT_H_of (bytes_at img 0 62))) \<noteq> 0x29"
  shows "\<exists>m' a b c. fat16_resolve img m = Inr (- EFSNOTUS, m') \<and> fs_private (disk m') = 0 \<and>
    machine_inv m' (add_pages A [a, b, c]) \<and> distinct [a, b, c] \<and> (\<forall>t\<in>{a, b, c}. A t = None)"
proof -
  have r1: "s + 1 \<le> kheap_blocks" "s + 1 + 3 \<le> kheap_blocks" "s + 1 + 3 + 1 \<le> kheap_blocks" using room by simp_all
  from kzalloc_tail [OF inv _ _ r1(1) free, of 92] obtain p h1 mm1 where
    p: "kzalloc m 92 = Inr (block_addr p, m\<lparr>kernel_heap := h1, mem := mm1\<rparr>)" "p < kheap_blocks"
      "machine_inv (m\<lparr>kernel_heap := h1, mem := mm1\<rparr>) (A(p \<mapsto> 1))" "A p = None" "tail_free (A(p \<mapsto> 1)) (s + 1)"
    by auto
  let ?m1 = "m\<lparr>kernel_heap := h1, mem := mm1\<rparr>"
  from init_private_ok [OF p(3) r1(2) p(5)] dsk(1) obtain a b c h2 mm2 s1 s2 s3 where
    i: "fat16_init_private ?m1 = Inr (?m1\<lparr>kernel_heap := h2, mem := mm2,
      fat_private := \<lparr>header = zero_header, root_directory = zero_directory, cluster_read_stream = Some s1,
        fat_read_stream = Some s2, directory_stream = Some s3\<rparr>\<rparr>)"
      "machine_inv (?m1\<lparr>kernel_heap := h2, mem := mm2\<rparr>) (add_pages (A(p \<mapsto> 1)) [a, b, c])" "distinct [a, b, c]"
      "\<forall>t\<in>{a, b, c}. (A(p \<mapsto> 1)) t = None" "tail_free (add_pages (A(p \<mapsto> 1)) [a, b, c]) (s + 1 + 3)" by auto
  let ?B = "add_pages (A(p \<mapsto> 1)) [a, b, c]"
  have ne: "p \<notin> {a, b, c}" "\<forall>t\<in>{a, b, c}. A t = None" using i(4) by (auto split: if_splits)
  have B: "?B = (add_pages A [a, b, c])(p \<mapsto> 1)" using ne by (auto simp: add_pages_def)
  let ?m3 = "m\<lparr>kernel_heap := h2, mem := mm2,
      fat_private := \<lparr>header = zero_header, root_directory = zero_directory, cluster_read_stream = Some s1,
        fat_read_stream = Some s2, directory_stream = Some s3\<rparr>,
      disk := (disk m)\<lparr>fs_private := block_addr p, filesystem := Some ''FAT16''\<rparr>\<rparr>"
  have inv3: "machine_inv ?m3 ?B" using i(2) by (simp add: machine_inv_def)
  let ?st = "\<lambda>q. \<lparr>stream_addr = block_addr q, pos = 0, stream_disk = TheDisk\<rparr>"
  from diskstreamer_new_ok [OF inv3 r1(3) i(5)] obtain q h4 mm4 where
    q: "diskstreamer_new ?m3 0 = Inr (Some (?st q), ?m3\<lparr>kernel_heap := h4, mem := mm4\<rparr>)" "?B q = None"
      "machine_inv (?m3\<lparr>kernel_heap := h4, mem := mm4\<rparr>) (?B(q \<mapsto> 1))" by blast
  let ?m5 = "?m3\<lparr>kernel_heap := h4, mem := mm4, fat_private := (fat_private ?m3)\<lparr>header := FAT_H_of (bytes_at img 0 62)\<rparr>\<rparr>"
  obtain st' where "diskstreamer_read img (?st q) 62 = Inr (0, bytes_at img 0 62, st')"
    using ds.read_ok [of "?st q" 62 img] by (auto simp: stream_ok_def)
  then have h: "fat16_resolve_header img (?m3\<lparr>kernel_heap := h4, mem := mm4\<rparr>) (?st q) = Inr (- EFSNOTUS, ?m5)"
    using sig by (simp add: fat16_resolve_header_def config BIMBLEOS_FAT16_SIGNATURE_def)
  have "machine_inv ?m5 (?B(q \<mapsto> 1))" using q(3) by (simp add: machine_inv_def)
  from kfree_back [OF this q(2)] obtain h6 where
    f: "kfree ?m5 (block_addr q) = Inr (?m5\<lparr>kernel_heap := h6\<rparr>)" "machine_inv (?m5\<lparr>kernel_heap := h6\<rparr>) ?B" by blast
  have "add_pages A [a, b, c] p = None" using ne p(4) by (simp add: add_pages_def)
  from kfree_back [OF f(2) [unfolded B] this] obtain h7 where
    g: "kfree (?m5\<lparr>kernel_heap := h6\<rparr>) (block_addr p) = Inr (?m5\<lparr>kernel_heap := h6, kernel_heap := h7\<rparr>)"
      "machine_inv (?m5\<lparr>kernel_heap := h6, kernel_heap := h7\<rparr>) (add_pages A [a, b, c])" by blast
  let ?m8 = "?m5\<lparr>kernel_heap := h6, kernel_heap := h7\<rparr>"
  have "fat16_resolve img m = Inr (- EFSNOTUS, ?m8\<lparr>disk := (disk ?m8)\<lparr>fs_private := 0\<rparr>\<rparr>)"
    using dsk(1) p(2) i(1) q(1) h f(1) g(1)
    by (simp add: fat16_resolve_def p(1) diskstreamer_close_def) (simp add: config)
  moreover have "machine_inv (?m8\<lparr>disk := (disk ?m8)\<lparr>fs_private := 0\<rparr>\<rparr>) (add_pages A [a, b, c])"
    using g(2) by (simp add: machine_inv_def)
  ultimately show ?thesis using i(3) ne(2) by (intro exI [of _ "?m8\<lparr>disk := (disk ?m8)\<lparr>fs_private := 0\<rparr>\<rparr>"]
        exI [of _ a] exI [of _ b] exI [of _ c]) simp
qed

section \<open>Properties\<close>

text \<open>
  A small volume for the witnesses: boot sector, one FAT sector, a root directory of 16 entries with the
  file \<open>HELLO.TXT\<close> in cluster 2, data from sector 3 on.
\<close>

definition demo_boot :: "u8 list" where
  "demo_boot = replicate 13 0 @ [1, 1, 0, 1, 16, 0, 0, 0, 0, 1, 0] @ replicate 14 0 @ [0x29] @ replicate 23 0"

definition demo_root :: "u8 list" where
  "demo_root = [72, 69, 76, 76, 79, 32, 32, 32, 84, 88, 84, 0x20] @ replicate 14 0 @ [2, 0, 5, 0, 0, 0]"

definition demo_img :: disk_img where
  "demo_img lba i = (if lba = 0 then (if i < length demo_boot then demo_boot ! i else 0)
     else if lba = 2 then (if i < 32 then demo_root ! i else 0) else of_nat i)"

lemma demo_header:
  "signature (extended_header (FAT_H_of (bytes_at demo_img 0 62))) = 0x29"
  "root_dir_entries (primary_header (FAT_H_of (bytes_at demo_img 0 62))) = 16"
  "fat_copies (primary_header (FAT_H_of (bytes_at demo_img 0 62))) = 1"
  "sectors_per_fat (primary_header (FAT_H_of (bytes_at demo_img 0 62))) = 1"
  "reserved_sectors (primary_header (FAT_H_of (bytes_at demo_img 0 62))) = 1"
  "sectors_per_cluster (primary_header (FAT_H_of (bytes_at demo_img 0 62))) = 1"
  by code_simp+

lemma demo_geometry:
  "root_sector (FAT_H_of (bytes_at demo_img 0 62)) = 2" "root_entries (FAT_H_of (bytes_at demo_img 0 62)) = 16"
  "root_blocks (FAT_H_of (bytes_at demo_img 0 62)) = 1"
  by (simp_all add: root_sector_def root_entries_def root_blocks_def demo_header blocks_for_def)

lemma demo_flat: "flat demo_img 1024 = 72" "flat demo_img 1056 = 0"
  by code_simp+

lemma demo_root_ok: "root_ok demo_img (FAT_H_of (bytes_at demo_img 0 62)) 1"
  by (simp add: root_ok_def demo_geometry scan_limit_def demo_flat)

lemma demo_state: "\<exists>m :: fat_state. machine_inv m Map.empty \<and> disk_id (disk m) = 0 \<and> sector_size (disk m) = 512"
proof -
  obtain m :: fat_state where "machine_inv m Map.empty"
    using kheap_init_ok [of "replicate kheap_blocks 0"] by fastforce
  then have "machine_inv (m\<lparr>disk := (disk m)\<lparr>disk_id := 0, sector_size := 512\<rparr>\<rparr>) Map.empty"
    by (simp add: machine_inv_def)
  then show ?thesis by (intro exI [of _ "m\<lparr>disk := (disk m)\<lparr>disk_id := 0, sector_size := 512\<rparr>\<rparr>"]) simp
qed

lemma tail_free_empty: "tail_free Map.empty 0"
  by (simp add: tail_free_def covers_def)

text \<open>
  C18: Mounting: on a disk with the FAT16 signature and a sane root directory, \<open>fat16_resolve\<close> returns 0, makes
  FAT16 the disk's filesystem, and the root directory in memory is the one on the disk: all its entries,
  and as \<open>total\<close> the number of entries in use before the end mark. Exactly the private data, three
  streams and the directory stay allocated.
\<close>

theorem fat16_resolve_mounts:
  assumes "machine_inv m A" and "tail_free A s"
    and "s + 5 + root_blocks (FAT_H_of (bytes_at img 0 62)) \<le> kheap_blocks"
    and "disk_id (disk m) = 0" and "sector_size (disk m) = 512"
    and "signature (extended_header (FAT_H_of (bytes_at img 0 62))) = 0x29"
    and "root_ok img (FAT_H_of (bytes_at img 0 62)) n"
  shows "\<exists>m' p a b c r. fat16_resolve img m = Inr (0, m') \<and> fat_ready m' \<and>
    filesystem (disk m') = Some ''FAT16'' \<and> header (fat_private m') = FAT_H_of (bytes_at img 0 62) \<and>
    item (root_directory (fat_private m')) =
      map (entry_at img (root_sector (FAT_H_of (bytes_at img 0 62)) * 512)) [0..<root_entries (FAT_H_of (bytes_at img 0 62))] \<and>
    dir_total (root_directory (fat_private m')) =
      int (used_entries img (root_sector (FAT_H_of (bytes_at img 0 62)) * 512) n) \<and>
    machine_inv m' ((add_pages A [p, a, b, c])(r \<mapsto> root_blocks (FAT_H_of (bytes_at img 0 62)))) \<and>
    distinct [p, a, b, c, r] \<and> (\<forall>t\<in>{p, a, b, c, r}. A t = None)"
  using fat16_resolve_ok [OF assms] by blast

theorem fat16_resolve_mounts_witness:
  "\<exists>m m'. fat16_resolve demo_img (m :: fat_state) = Inr (0, m') \<and> dir_total (root_directory (fat_private m')) = 1"
proof -
  obtain m :: fat_state where m: "machine_inv m Map.empty" "disk_id (disk m) = 0" "sector_size (disk m) = 512"
    using demo_state by blast
  have "used_entries demo_img 1024 1 = 1" by (simp add: used_entries_def demo_flat)
  moreover have "0 + 5 + root_blocks (FAT_H_of (bytes_at demo_img 0 62)) \<le> kheap_blocks"
    by (simp add: demo_geometry kheap_blocks_def)
  ultimately show ?thesis
    using fat16_resolve_mounts [OF m(1) tail_free_empty _ m(2,3) demo_header(1) demo_root_ok] by (auto simp: demo_geometry)
qed

text \<open>
  A disk without the signature is refused with \<open>-EFSNOTUS\<close>; the private data is freed and the disk keeps no
  pointer to it, but the three streams created for it stay allocated and are lost.
\<close>

theorem fat16_resolve_refuses:
  assumes "machine_inv m A" and "tail_free A s" and "s + 5 \<le> kheap_blocks"
    and "disk_id (disk m) = 0" and "sector_size (disk m) = 512"
    and "signature (extended_header (FAT_H_of (bytes_at img 0 62))) \<noteq> 0x29"
  shows "\<exists>m' a b c. fat16_resolve img m = Inr (- EFSNOTUS, m') \<and> fs_private (disk m') = 0 \<and>
    machine_inv m' (add_pages A [a, b, c]) \<and> distinct [a, b, c] \<and> (\<forall>t\<in>{a, b, c}. A t = None)"
  by (rule fat16_resolve_reject [OF assms])

theorem fat16_resolve_refuses_witness:
  "\<exists>m m'. fat16_resolve (\<lambda>lba i. 0) (m :: fat_state) = Inr (- EFSNOTUS, m')"
proof -
  obtain m :: fat_state where m: "machine_inv m Map.empty" "disk_id (disk m) = 0" "sector_size (disk m) = 512"
    using demo_state by blast
  have "signature (extended_header (FAT_H_of (bytes_at (\<lambda>lba i. 0) 0 62))) \<noteq> 0x29" by code_simp
  then show ?thesis
    using fat16_resolve_refuses [OF m(1) tail_free_empty _ m(2,3), of "\<lambda>lba i. 0"] by (auto simp: kheap_blocks_def)
qed

text \<open>
  The name of a directory entry is its padded name field up to the first blank, a dot and the extension when
  there is one; it is terminated, fits its buffer and no byte outside the buffer is written.
\<close>

theorem fat16_get_full_relative_filename_spec:
  assumes "item_wf it" and "length out = n" and "16 \<le> n"
  shows "fat16_get_full_relative_filename it out n = Inr (full_name it @ replicate (n - length (full_name it)) 0) \<and>
    length (full_name it) \<le> 12"
  using full_relative_filename_ok [OF assms] full_name_length [OF assms(1)] by simp

theorem fat16_get_full_relative_filename_spec_witness:
  "fat16_get_full_relative_filename (FAT_DirectoryItem_of demo_root) (replicate 16 7) 16 =
     Inr ([72, 69, 76, 76, 79, 46, 84, 88, 84] @ replicate 7 0)"
proof -
  have w: "item_wf (FAT_DirectoryItem_of demo_root)" by (rule item_wf_of) (simp add: demo_root_def)
  have "full_name (FAT_DirectoryItem_of demo_root) = [72, 69, 76, 76, 79, 46, 84, 88, 84]" by code_simp
  with fat16_get_full_relative_filename_spec [OF w, of "replicate 16 7" 16] show ?thesis by simp
qed

text \<open>The mounted volume of the witnesses.\<close>

definition demo_private :: FAT_Private where
  "demo_private = \<lparr>header = FAT_H_of (bytes_at demo_img 0 62),
     root_directory = zero_directory\<lparr>item := map (entry_at demo_img 1024) [0..<16], dir_total := 1, ending_sector_pos := 3\<rparr>,
     cluster_read_stream = Some \<lparr>stream_addr = 0x1002000, pos = 0, stream_disk = TheDisk\<rparr>,
     fat_read_stream = Some \<lparr>stream_addr = 0x1003000, pos = 0, stream_disk = TheDisk\<rparr>,
     directory_stream = Some \<lparr>stream_addr = 0x1004000, pos = 0, stream_disk = TheDisk\<rparr>\<rparr>"

definition demo_name :: "u8 list" where
  "demo_name = [104, 101, 108, 108, 111, 46, 116, 120, 116] @ replicate 99 0"

definition demo_part :: PathPart where
  "demo_part = \<lparr>part_addr = 0x1006000, part_str_addr = 0x1005000, part = demo_name\<rparr>"

lemma demo_mounted: "\<exists>m :: fat_state. machine_inv m Map.empty \<and> fat_ready m \<and> fat_private m = demo_private"
proof -
  obtain m :: fat_state where m: "machine_inv m Map.empty" "sector_size (disk m) = 512" using demo_state by blast
  let ?m = "m\<lparr>disk := (disk m)\<lparr>fs_private := 1\<rparr>, fat_private := demo_private\<rparr>"
  have "machine_inv ?m Map.empty" "fat_ready ?m" "fat_private ?m = demo_private"
    using m by (simp_all add: machine_inv_def fat_ready_def demo_private_def stream_ok_def)
  then show ?thesis by blast
qed

lemma demo_entry: "entry_at demo_img 1024 0 = FAT_DirectoryItem_of demo_root"
  by code_simp

lemma demo_items: "item (root_directory demo_private) ! 0 = FAT_DirectoryItem_of demo_root"
  "dir_total (root_directory demo_private) = 1" "length (item (root_directory demo_private)) = 16"
  "\<forall>it\<in>set (item (root_directory demo_private)). item_wf it"
  by (auto simp: demo_private_def nth_map demo_entry [symmetric] entry_at_def intro!: item_wf_of)

lemma demo_full_name: "full_name (FAT_DirectoryItem_of demo_root) = [72, 69, 76, 76, 79, 46, 84, 88, 84]"
  by code_simp

lemma demo_unique: "unique_file (root_directory demo_private) demo_name 0"
proof -
  have "name_matches (FAT_DirectoryItem_of demo_root) demo_name" by code_simp
  moreover have "attribute (FAT_DirectoryItem_of demo_root) AND FAT_FILE_SUBDIRECTORY = 0" by code_simp
  moreover have "terminated demo_name" by (simp add: terminated_def demo_name_def)
  ultimately show ?thesis using demo_items by (simp add: unique_file_def)
qed

lemma demo_room: "n \<le> 25600 \<Longrightarrow> card (kh.used Map.empty) + n \<le> kheap_blocks"
  by (simp add: kh.used_def covers_def kheap_blocks_def)

text \<open>
  Opening a file of the root directory for reading gives a descriptor at position 0 whose entry is the one
  entry with that name (letter case ignored); three fresh blocks are taken and no stream moves.
\<close>

theorem fat16_open_file:
  fixes m :: "'a fat_state_scheme"
  assumes "fat_ready m" and "machine_inv m A" and "card (kh.used A) + 3 \<le> kheap_blocks"
    and "unique_file (root_directory (fat_private m)) (part p) k"
  shows "\<exists>c a b m'. fat16_open img m [p] FILE_MODE_READ =
      Inr (Inr \<lparr>desc_addr = block_addr c, desc_item = FileItem (block_addr a)
        (Some (block_addr b, item (root_directory (fat_private m)) ! k)), desc_pos = 0\<rparr>, m') \<and>
    heap_only m m' \<and> machine_inv m' (A(c \<mapsto> 1, a \<mapsto> 1, b \<mapsto> 1)) \<and> distinct [c, a, b] \<and> (\<forall>t\<in>{c, a, b}. A t = None)"
  using fat16_open_ok [OF assms] by blast

theorem fat16_open_file_witness:
  "\<exists>(m :: fat_state) c a b m'. fat16_open demo_img m [demo_part] FILE_MODE_READ =
     Inr (Inr \<lparr>desc_addr = block_addr c, desc_item = FileItem (block_addr a)
       (Some (block_addr b, FAT_DirectoryItem_of demo_root)), desc_pos = 0\<rparr>, m')"
proof -
  obtain m :: fat_state where m: "machine_inv m Map.empty" "fat_ready m" "fat_private m = demo_private"
    using demo_mounted by blast
  then have "unique_file (root_directory (fat_private m)) (part demo_part) 0" using demo_unique by (simp add: demo_part_def)
  from fat16_open_file [OF m(2,1) demo_room this, of demo_img] m(3) demo_items(1) show ?thesis by fastforce
qed

text \<open>
  Closing the descriptor of a file just opened returns its three blocks: the kernel heap is exactly what
  it was before the open.
\<close>

theorem fat16_open_close_roundtrip:
  fixes m :: "'a fat_state_scheme"
  assumes ready: "fat_ready m" and inv: "machine_inv m A" and room: "card (kh.used A) + 3 \<le> kheap_blocks"
    and u: "unique_file (root_directory (fat_private m)) (part p) k"
  shows "\<exists>desc m' m''. fat16_open img m [p] FILE_MODE_READ = Inr (Inr desc, m') \<and>
    fat16_close m' desc = Inr (0, m'') \<and> kernel_heap m'' = kernel_heap m"
proof -
  from fat16_open_ok [OF assms] obtain c a b m' where
    o: "fat16_open img m [p] FILE_MODE_READ =
      Inr (Inr \<lparr>desc_addr = block_addr c, desc_item = FileItem (block_addr a)
        (Some (block_addr b, item (root_directory (fat_private m)) ! k)), desc_pos = 0\<rparr>, m')"
      "machine_inv m' (A(c \<mapsto> 1, a \<mapsto> 1, b \<mapsto> 1))" "distinct [c, a, b]" "\<forall>t\<in>{c, a, b}. A t = None" by blast
  let ?d = "\<lparr>desc_addr = block_addr c, desc_item = FileItem (block_addr a)
        (Some (block_addr b, item (root_directory (fat_private m)) ! k)), desc_pos = 0\<rparr>"
  from fat16_close_file_ok [OF o(2-4), of ?d] obtain h where
    "fat16_close m' ?d = Inr (0, m'\<lparr>kernel_heap := h\<rparr>)" "machine_inv (m'\<lparr>kernel_heap := h\<rparr>) A" by auto
  with o(1) machine_inv_functional [OF _ inv] show ?thesis by blast
qed

theorem fat16_open_close_roundtrip_witness:
  "\<exists>(m :: fat_state) desc m' m''. fat16_open demo_img m [demo_part] FILE_MODE_READ = Inr (Inr desc, m') \<and>
     fat16_close m' desc = Inr (0, m'') \<and> kernel_heap m'' = kernel_heap m"
proof -
  obtain m :: fat_state where m: "machine_inv m Map.empty" "fat_ready m" "fat_private m = demo_private"
    using demo_mounted by blast
  then have "unique_file (root_directory (fat_private m)) (part demo_part) 0" using demo_unique by (simp add: demo_part_def)
  from fat16_open_close_roundtrip [OF m(2,1) demo_room this, of demo_img] show ?thesis by fastforce
qed

text \<open>
  A path whose middle component does not exist: with a further component to look up, the walk dereferences
  the null item the failed search returned.
\<close>

theorem walk_parts_missing_component:
  assumes inv: "machine_inv m A" and live: "A t = Some 1" "A u = Some 1" "A w = Some 1" "distinct [t, u, w]"
    and d: "dir_addr d = block_addr t" "item_addr d = block_addr u" and no: "no_entry d (part p)"
  shows "walk_parts img m (Some (DirectoryItem (block_addr w) (LiveDir d))) (p # q # ps) = Inl NullPointer"
proof -
  have "u \<le> kheap_blocks" using machine_inv_bounds [OF inv live(2)] by simp
  then have nz: "block_addr u \<noteq> 0" by simp
  from kfree_live [OF inv live(2)] obtain h1 where
    h1: "kfree m (block_addr u) = Inr (m\<lparr>kernel_heap := h1\<rparr>)" "machine_inv (m\<lparr>kernel_heap := h1\<rparr>) (A(u := None))" by blast
  have "(A(u := None)) t = Some 1" using live by auto
  from kfree_live [OF h1(2) this] obtain h2 where
    h2: "kfree (m\<lparr>kernel_heap := h1\<rparr>) (block_addr t) = Inr (m\<lparr>kernel_heap := h2\<rparr>)"
      "machine_inv (m\<lparr>kernel_heap := h2\<rparr>) ((A(u := None))(t := None))" by (auto simp: fun_upd_def)
  have "((A(u := None))(t := None)) w = Some 1" using live by auto
  from kfree_live [OF h2(2) this] obtain h3 where
    h3: "kfree (m\<lparr>kernel_heap := h2\<rparr>) (block_addr w) = Inr (m\<lparr>kernel_heap := h3\<rparr>)" by (auto simp: fun_upd_def)
  have "fat16_fat_item_free m (DirectoryItem (block_addr w) (LiveDir d)) = Inr (m\<lparr>kernel_heap := h3\<rparr>)"
    by (simp add: fat16_fat_item_free_def fat16_free_directory_def d nz h1(1) h2(1) h3)
  then show ?thesis by (simp add: find_no_entry [OF no])
qed

theorem walk_parts_missing_component_witness:
  "\<exists>(m :: fat_state) x d. walk_parts demo_img m (Some (DirectoryItem x (LiveDir d))) [demo_part, demo_part] = Inl NullPointer"
proof -
  obtain m :: fat_state where m: "machine_inv m Map.empty" "fat_ready m" "fat_private m = demo_private"
    using demo_mounted by blast
  then have u: "unique_file (root_directory (fat_private m)) (part demo_part) 0" using demo_unique by (simp add: demo_part_def)
  from fat16_open_ok [OF m(2,1) demo_room u, of demo_img] obtain c a b and m' :: fat_state where
    m': "machine_inv m' (Map.empty(c \<mapsto> 1, a \<mapsto> 1, b \<mapsto> 1))" "distinct [c, a, b]" by auto
  let ?d = "zero_directory\<lparr>dir_addr := block_addr c, item_addr := block_addr a\<rparr>"
  have "no_entry ?d (part demo_part)"
    by (simp add: no_entry_def zero_directory_def demo_part_def demo_name_def terminated_def)
  from walk_parts_missing_component [OF m'(1) _ _ _ m'(2), of ?d demo_part] this m'(2) show ?thesis by fastforce
qed

lemma fat16_read_chain_ok:
  fixes m :: "'a fat_state_scheme"
  assumes ready: "fat_ready m" and chain: "driver_chain img (header (fat_private m)) cs" "cs \<noteq> []"
    and ok: "\<forall>c\<in>set cs. cluster_ok (fat_private m) c"
    and len: "0 < n" "n \<le> length cs * cluster_bytes (fat_private m)" "length cs * cluster_bytes (fat_private m) < 2 ^ 31"
    and desc: "desc_item d = FileItem x (Some (y, it))" "desc_pos d = 0" and first: "sint (fat16_get_first_cluster it) = hd cs"
  shows "\<exists>m'. fat16_read img m d (of_nat n) 1 =
    Inr (1, take n (concat (map (cluster_data img (fat_private m)) cs)), m') \<and> streams_only m m' \<and> fat_ready m'"
proof -
  have CS: "0 < cluster_bytes (fat_private m)" using len(1,2) by (cases "cluster_bytes (fat_private m)") simp_all
  have "0 * cluster_bytes (fat_private m) + n \<le> length cs * cluster_bytes (fat_private m)" using len(2) by simp
  from read_internal_chain [OF ready chain ok refl CS len(1) this len(3)] obtain m' where
    r: "fat16_read_internal_from_stream img m (hd cs) 0 (int n) =
      Inr (0, take n (concat (map (cluster_data img (fat_private m)) cs)), m')" "streams_only m m'" "fat_ready m'"
    by auto
  have "unat (of_nat n :: u32) = n" using len(2,3) by (intro unat_of_nat_u32) simp
  then have "sint (of_nat n :: u32) = int n" using len(2,3) by (subst sint_small_u32) simp_all
  then have "fat16_read img m d (of_nat n) 1 = Inr (1, take n (concat (map (cluster_data img (fat_private m)) cs)), m')"
    using r(1) ready by (simp add: fat16_read_def desc first fat16_read_internal_def)
  with r(2,3) show ?thesis by blast
qed

text \<open>
  The first \<open>n\<close> bytes of a file need the clusters up to the one of byte \<open>n - 1\<close>, and the lookups of all of these but the last.
\<close>

lemma fat16_read_file_ok:
  fixes m :: "'a fat_state_scheme"
  assumes ready: "fat_ready m" and chain: "fat_path img (header (fat_private m)) (sint (fat16_get_first_cluster it)) cs"
    and found: "\<forall>j. Suc j * cluster_bytes (fat_private m) < n \<longrightarrow> lookup_right img (header (fat_private m)) (cs ! j)"
    and ok: "\<forall>c\<in>set cs. cluster_ok (fat_private m) c"
    and len: "0 < n" "n \<le> length cs * cluster_bytes (fat_private m)" "length cs * cluster_bytes (fat_private m) < 2 ^ 31"
    and desc: "desc_item d = FileItem x (Some (y, it))" "desc_pos d = 0"
  shows "\<exists>m'. fat16_read img m d (of_nat n) 1 =
    Inr (1, take n (concat (map (cluster_data img (fat_private m)) cs)), m') \<and> streams_only m m' \<and> fat_ready m'"
proof -
  let ?CS = "cluster_bytes (fat_private m)" and ?H = "header (fat_private m)" and ?f = "cluster_data img (fat_private m)"
  define k where "k = (n - 1) div ?CS + 1"
  have CS: "0 < ?CS" using len(1,2) by (cases "?CS") simp_all
  have n: "n \<le> k * ?CS" using len(1) dividend_less_div_times [OF CS, of "n - 1"] by (simp add: k_def)
  have "(n - 1) div ?CS < length cs" using len(1,2) CS by (simp add: div_less_iff_less_mult)
  then have k: "k \<le> length cs" "take k cs \<noteq> []" by (auto simp: k_def)
  have "driver_chain img ?H (take k cs)"
  proof (rule fat_path_driver [OF chain], intro allI impI)
    fix j assume "Suc j < k"
    then have "Suc j * ?CS \<le> (n - 1) div ?CS * ?CS" by (intro mult_right_mono) (simp_all add: k_def)
    also have "\<dots> \<le> n - 1" by (rule div_times_less_eq_dividend)
    finally have "Suc j * ?CS < n" using len(1) by linarith
    then show "lookup_right img ?H (cs ! j)" using found by blast
  qed
  moreover have "\<forall>c\<in>set (take k cs). cluster_ok (fat_private m) c" using ok by (auto dest: in_set_takeD)
  moreover have l: "n \<le> length (take k cs) * ?CS" using n k(1) by simp
  moreover have "length (take k cs) * ?CS \<le> length cs * ?CS" by (intro mult_right_mono) simp_all
  then have "length (take k cs) * ?CS < 2 ^ 31" using len(3) by linarith
  moreover have "sint (fat16_get_first_cluster it) = hd (take k cs)" using fat_path_hd [OF chain] k by (cases cs; cases k) auto
  ultimately obtain m' where r: "fat16_read img m d (of_nat n) 1 = Inr (1, take n (concat (map ?f (take k cs))), m')"
    "streams_only m m'" "fat_ready m'"
    using fat16_read_chain_ok [OF ready _ k(2) _ len(1) _ _ desc] by blast
  have size: "length (concat (map ?f ds)) = length ds * ?CS" for ds by (induction ds) (simp_all add: cluster_data_def)
  have "concat (map ?f cs) = concat (map ?f (take k cs)) @ concat (map ?f (drop k cs))"
    by (metis append_take_drop_id concat_append map_append)
  then have "take n (concat (map ?f cs)) = take n (concat (map ?f (take k cs)))" using l by (simp add: size)
  with r show ?thesis by auto
qed

text \<open>
  C17: Reading from the start of a file gives the file's first bytes: the data of the clusters on the path of its FAT entries, from
  the first cluster of its directory item to the end mark. The bytes of the first cluster come without further conditions; beyond it
  the code has to come upon the right entries, as it looks for the entry of a cluster in the wrong place, and only where the wrong
  place holds the same entry, not one of the values at which the code stops, does it go on to the right cluster.
\<close>

theorem fat16_read_file:
  fixes m :: "'a fat_state_scheme"
  assumes ready: "fat_ready m" and chain: "fat_path img (header (fat_private m)) (sint (fat16_get_first_cluster it)) cs"
    and found: "\<forall>j. Suc j * cluster_bytes (fat_private m) < n \<longrightarrow> lookup_right img (header (fat_private m)) (cs ! j)"
    and ok: "\<forall>c\<in>set cs. cluster_ok (fat_private m) c"
    and len: "0 < n" "n \<le> length cs * cluster_bytes (fat_private m)" "length cs * cluster_bytes (fat_private m) < 2 ^ 31"
    and desc: "desc_item d = FileItem x (Some (y, it))" "desc_pos d = 0"
  shows "\<exists>m'. fat16_read img m d (of_nat n) 1 =
    Inr (1, take n (concat (map (cluster_data img (fat_private m)) cs)), m') \<and> streams_only m m' \<and> fat_ready m'"
  by (rule fat16_read_file_ok [OF assms])

lemma demo_cluster: "cluster_bytes demo_private = 512" "cluster_pos demo_private 2 = 1536" "cluster_ok demo_private 2"
proof -
  show b: "cluster_bytes demo_private = 512" by (simp add: cluster_bytes_def demo_private_def demo_header)
  show p: "cluster_pos demo_private 2 = 1536" by (simp add: cluster_pos_def demo_private_def)
  show "cluster_ok demo_private 2" by (simp add: cluster_ok_def b p)
qed

text \<open>
  The demonstration disk with a table in which the file has the clusters 2 and 3, and the bytes 3 and 0 in the place where the code
  looks for the entry of cluster 2, which is the beginning of cluster 3.
\<close>

definition two_clusters :: disk_img where
  "two_clusters lba i = (if lba = 1 then (if i < 8 then [0xF8, 0xFF, 0xFF, 0xFF, 3, 0, 0xFF, 0xFF] ! i else 0)
     else if lba = 4 \<and> i < 2 then [3, 0] ! i else demo_img lba i)"

lemma two_clusters_path:
  "fat_path two_clusters (header demo_private) (sint (fat16_get_first_cluster (FAT_DirectoryItem_of demo_root))) [2, 3]"
  "lookup_right two_clusters (header demo_private) 2" "cluster_ok demo_private 3"
  "take 514 (concat (map (cluster_data two_clusters demo_private) [2, 3])) = bytes_at demo_img 1536 512 @ [3, 0]"
proof -
  have R: "uint (reserved_sectors (primary_header (header demo_private))) = 1" by (simp add: demo_private_def demo_header)
  have f: "sint (fat16_get_first_cluster (FAT_DirectoryItem_of demo_root)) = 2" by code_simp
  have "uint (le16 (bytes_at two_clusters (1 * 512 + 2 * 2) 2) 0) = 3" "uint (le16 (bytes_at two_clusters (1 * 512 + 2 * 3) 2) 0) = 0xFFFF"
    "uint (le16 (bytes_at two_clusters (1 * 512 * (2 * 2)) 2) 0) = 3" by code_simp+
  then have l: "fat_link two_clusters (header demo_private) 2 = 3" "fat_link two_clusters (header demo_private) 3 = 0xFFFF"
    "fat_entry two_clusters (header demo_private) 2 = 3" by (simp_all add: fat_link_def fat_entry_def fat_entry_pos_def R)
  show "fat_path two_clusters (header demo_private) (sint (fat16_get_first_cluster (FAT_DirectoryItem_of demo_root))) [2, 3]"
    by (simp add: f l)
  show "lookup_right two_clusters (header demo_private) 2"
    by (simp add: lookup_right_def driver_next_def l fat_entry_pos_def R)
  have p: "cluster_pos demo_private 3 = 2048" "cluster_bytes demo_private = 512"
    by (simp_all add: cluster_pos_def cluster_bytes_def demo_private_def demo_header)
  then show "cluster_ok demo_private 3" by (simp add: cluster_ok_def)
  have "bytes_at two_clusters 1536 512 = bytes_at demo_img 1536 512"
    by (auto simp: bytes_at_def flat_def two_clusters_def)
  moreover have "take 2 (bytes_at two_clusters 2048 512) = [3, 0]" by (simp add: bytes_at_take) code_simp
  ultimately show "take 514 (concat (map (cluster_data two_clusters demo_private) [2, 3])) = bytes_at demo_img 1536 512 @ [3, 0]"
    using demo_cluster(2) by (simp add: cluster_data_def p)
qed

theorem fat16_read_file_witness:
  "\<exists>(m :: fat_state) m'. fat16_read two_clusters m \<lparr>desc_addr = 0x1007000,
       desc_item = FileItem 0x1008000 (Some (0x1009000, FAT_DirectoryItem_of demo_root)), desc_pos = 0\<rparr> 514 1 =
     Inr (1, bytes_at demo_img 1536 512 @ [3, 0], m')"
proof -
  obtain m :: fat_state where m: "fat_ready m" "fat_private m = demo_private" using demo_mounted by blast
  have found: "\<forall>j. Suc j * cluster_bytes (fat_private m) < 514 \<longrightarrow> lookup_right two_clusters (header (fat_private m)) ([2, 3] ! j)"
  proof (intro allI impI)
    fix j assume "Suc j * cluster_bytes (fat_private m) < 514"
    then have "j = 0" by (cases j) (simp_all add: m(2) demo_cluster)
    then show "lookup_right two_clusters (header (fat_private m)) ([2, 3] ! j)" by (simp add: m(2) two_clusters_path)
  qed
  have "\<exists>m'. fat16_read two_clusters m \<lparr>desc_addr = 0x1007000,
       desc_item = FileItem 0x1008000 (Some (0x1009000, FAT_DirectoryItem_of demo_root)), desc_pos = 0\<rparr> (of_nat 514) 1 =
     Inr (1, take 514 (concat (map (cluster_data two_clusters (fat_private m)) [2, 3])), m') \<and> streams_only m m' \<and> fat_ready m'"
    by (rule fat16_read_file [OF m(1) _ found]) (use two_clusters_path demo_cluster m(2) in simp_all)
  then show ?thesis unfolding m(2) two_clusters_path(4) by auto
qed

text \<open>
  C35: A read that starts at offset \<open>q\<close> of the first cluster takes up to a whole cluster from there in one piece: when it
  runs past the cluster's end the rest comes from the sectors that follow on the disk, not from the next
  cluster of the file.
\<close>

theorem fat16_read_crosses_cluster:
  fixes m :: "'a fat_state_scheme"
  assumes ready: "fat_ready m" and ok: "cluster_ok (fat_private m) c"
    and q: "q < cluster_bytes (fat_private m)" and n: "0 < n" "n \<le> cluster_bytes (fat_private m)"
    and desc: "desc_item d = FileItem x (Some (y, it))" "desc_pos d = of_nat q" and first: "sint (fat16_get_first_cluster it) = c"
  shows "\<exists>m'. fat16_read img m d (of_nat n) 1 = Inr (1, bytes_at img (cluster_pos (fat_private m) c + int q) n, m')"
proof -
  let ?CS = "cluster_bytes (fat_private m)"
  have small: "2 * int ?CS < 2 ^ 31" "0 < ?CS" "\<not> c < 0" using ok q by (simp_all add: cluster_ok_def)
  have size: "size_of_cluster m = int ?CS" using size_of_cluster_ready ready by metis
  from read_chunk [OF ready _ _ _ refl small(2), of img "[c]" q 0 q n] ok q n(2) obtain m1 m2 m3 where
    r: "fat16_get_cluster_for_offset img m c (int q) = Inr (c, m1)" "cmod (int q) (int ?CS) = Inr (int q)"
      "cluster_seek m1 (c_int (fat16_cluster_to_sector (fat_private m1) c * sector_size (disk m1) + int q)) = Inr (0, m2)"
      "cluster_read img m2 (int n) = Inr (0, bytes_at img (cluster_pos (fat_private m) c + int q) n, m3)"
    by (auto simp: driver_chain_def size)
  have "fat16_read_internal_from_stream img m c (int q) (int n) =
      Inr (0, bytes_at img (cluster_pos (fat_private m) c + int q) n, m3)"
    using r small(3) n(2) by (subst fat16_read_internal_from_stream.simps) (auto simp: size Let_def config)
  moreover have "unat (of_nat n :: u32) = n" "unat (of_nat q :: u32) = q"
    using n(2) q small(1) by (auto intro!: unat_of_nat_u32)
  then have "sint (of_nat n :: u32) = int n" "sint (of_nat q :: u32) = int q"
    using n(2) q small(1) by (auto simp: sint_small_u32)
  ultimately have "fat16_read img m d (of_nat n) 1 = Inr (1, bytes_at img (cluster_pos (fat_private m) c + int q) n, m3)"
    using ready by (simp add: fat16_read_def desc first fat16_read_internal_def)
  then show ?thesis by blast
qed

theorem fat16_read_crosses_cluster_witness:
  "\<exists>(m :: fat_state) m'. fat16_read demo_img m \<lparr>desc_addr = 0x1007000,
       desc_item = FileItem 0x1008000 (Some (0x1009000, FAT_DirectoryItem_of demo_root)), desc_pos = 510\<rparr> 4 1 =
     Inr (1, [0xFE, 0xFF, 0, 1], m')"
proof -
  obtain m :: fat_state where m: "fat_ready m" "fat_private m = demo_private" using demo_mounted by blast
  have f: "sint (fat16_get_first_cluster (FAT_DirectoryItem_of demo_root)) = 2" by code_simp
  have "\<exists>m'. fat16_read demo_img m \<lparr>desc_addr = 0x1007000,
       desc_item = FileItem 0x1008000 (Some (0x1009000, FAT_DirectoryItem_of demo_root)), desc_pos = 510\<rparr> (of_nat 4) 1 =
     Inr (1, bytes_at demo_img (cluster_pos (fat_private m) 2 + int 510) 4, m')"
    using m demo_cluster f by (intro fat16_read_crosses_cluster) simp_all
  moreover have "bytes_at demo_img (1536 + int 510) 4 = [0xFE, 0xFF, 0, 1]" by code_simp
  ultimately show ?thesis using m(2) demo_cluster(2) by auto
qed

text \<open>
  C34: The entry of cluster \<open>c\<close> is read at the FAT's position multiplied by \<open>2 * c\<close>; for no cluster from 1 on is that
  the entry's place, which is the FAT's position plus \<open>2 * c\<close>.
\<close>

theorem fat16_get_fat_entry_position:
  fixes m :: "'a fat_state_scheme"
  assumes ready: "fat_ready m" and c: "1 \<le> c"
    and R: "R = uint (reserved_sectors (primary_header (header (fat_private m))))"
    and small: "R * 512 * (2 * c) + 2 < 2 ^ 31"
  shows "\<exists>m'. fat16_get_fat_entry img m c = Inr (uint (le16 (bytes_at img (R * 512 * (2 * c)) 2) 0), m') \<and>
    R * 512 * (2 * c) \<noteq> R * 512 + 2 * c"
proof -
  have "R * 512 * (2 * c) \<noteq> R * 512 + 2 * c"
  proof (cases "R = 0")
    case False
    then have "1 \<le> R" using uint_ge_0 [of "reserved_sectors (primary_header (header (fat_private m)))"] unfolding R by linarith
    then have "1 * c \<le> R * c" "R * 1 \<le> R * c" using c by (intro mult_right_mono mult_left_mono; simp)+
    then have "R * 512 + 2 * c < 1024 * (R * c)" using c \<open>1 \<le> R\<close> by linarith
    then show ?thesis by (simp add: algebra_simps)
  qed (use c in simp)
  moreover have "fat_entry_pos (header (fat_private m)) c + 2 < 2 ^ 31" using small by (simp add: fat_entry_pos_def R)
  ultimately show ?thesis
    using get_fat_entry_ok [OF ready, of c img] c by (auto simp: fat_entry_def fat_entry_pos_def R)
qed

theorem fat16_get_fat_entry_position_witness:
  "\<exists>(m :: fat_state) m'. fat16_get_fat_entry demo_img m 2 = Inr (uint (le16 (bytes_at demo_img 2048 2) 0), m')"
proof -
  obtain m :: fat_state where m: "fat_ready m" "fat_private m = demo_private" using demo_mounted by blast
  have "(1 :: int) = uint (reserved_sectors (primary_header (header (fat_private m))))"
    by (simp add: m(2) demo_private_def demo_header)
  from fat16_get_fat_entry_position [OF m(1) _ this, of 2 demo_img] show ?thesis by auto
qed

text \<open>
  Seeking in a file sets or advances the position only for an offset inside the file; a request relative to the
  current position is judged by its offset alone, so the position can pass the end of the file.
\<close>

theorem fat16_seek_spec:
  assumes "desc_item d = FileItem x (Some (y, it))"
  shows "fat16_seek d offset mode =
    (if filesize it \<le> offset then Inr (- 1, d)
     else if mode = 0 then Inr (0, d\<lparr>desc_pos := offset\<rparr>)
     else if mode = 1 then Inr (0, d\<lparr>desc_pos := desc_pos d + offset\<rparr>)
     else if mode = 2 then Inr (- 7, d) else Inr (- 2, d))"
  using assms by (simp add: fat16_seek_def file_consts config)

theorem fat16_seek_spec_witness:
  "fat16_seek \<lparr>desc_addr = 1, desc_item = FileItem 2 (Some (3, FAT_DirectoryItem_of demo_root)), desc_pos = 4\<rparr> 4 1 =
     Inr (0, \<lparr>desc_addr = 1, desc_item = FileItem 2 (Some (3, FAT_DirectoryItem_of demo_root)), desc_pos = 8\<rparr>)"
proof -
  have "filesize (FAT_DirectoryItem_of demo_root) = 5" by code_simp
  then show ?thesis
    using fat16_seek_spec [of "\<lparr>desc_addr = 1, desc_item = FileItem 2 (Some (3, FAT_DirectoryItem_of demo_root)), desc_pos = 4\<rparr>"
        2 3 "FAT_DirectoryItem_of demo_root" 4 1] by simp
qed

end
