(* ===== verification/VFile.thy ===== *)
theory VFile
  imports Fat16
begin

text \<open>
  The file layer (\<^verbatim>\<open>fs/file.c\<close>, \<^verbatim>\<open>fs/file.h\<close>): the table of filesystems, the table of descriptors, and the
  calls behind \<^verbatim>\<open>fopen\<close> and its companions. A filesystem is its record of operations; a pointer to
  one is its name. The contract the layer relies on is the locale \<open>filesystem_contract\<close>, interpreted
  on the FAT16 driver.
\<close>

section \<open>Data\<close>

text \<open>
  The function pointers of \<^verbatim>\<open>struct Filesystem\<close> on states \<open>'s\<close>, with \<open>'p\<close> the type of the private data of an
  open file. An operation that changes the private data returns it.
\<close>

record ('s, 'p) Filesystem =
  op_resolve :: "'s \<Rightarrow> fault + (int \<times> 's)"
  op_open :: "'s \<Rightarrow> PathPart list \<Rightarrow> u32 \<Rightarrow> fault + ((int + 'p) \<times> 's)"
  op_read :: "'s \<Rightarrow> 'p \<Rightarrow> u32 \<Rightarrow> u32 \<Rightarrow> fault + (int \<times> u8 list \<times> 's)"
  op_seek :: "'p \<Rightarrow> u32 \<Rightarrow> u32 \<Rightarrow> fault + (int \<times> 'p)"
  op_close :: "'s \<Rightarrow> 'p \<Rightarrow> fault + (int \<times> 's)"
  op_stat :: "'p \<Rightarrow> FileStat \<Rightarrow> fault + (int \<times> FileStat)"

record 'p FileDescriptor =
  fdesc_addr :: u32
  index :: int
  fd_filesystem :: "string option"
  private_data :: "'p option"
  fd_disk :: disk_ptr

record 'p vfs_state = fat_state +
  filesystems :: "string option list"
  file_descriptors :: "'p FileDescriptor option list"

section \<open>Filesystems\<close>

definition fat16_init :: string where
  "fat16_init = ''FAT16''"

text \<open>The first free slot of a table, as the loops over the two tables find it.\<close>

fun first_free :: "'x option list \<Rightarrow> nat option" where
  "first_free [] = None"
| "first_free (None # xs) = Some 0"
| "first_free (Some x # xs) = map_option Suc (first_free xs)"

definition fs_get_free_filesystem :: "('p, 'a) vfs_state_scheme \<Rightarrow> nat option" where
  "fs_get_free_filesystem m = first_free (filesystems m)"

text \<open>With the table full it prints a message and loops for ever.\<close>

definition fs_insert_filesystem ::
  "('p, 'a) vfs_state_scheme \<Rightarrow> string \<Rightarrow> fault + ('p, 'a) vfs_state_scheme" where
  "fs_insert_filesystem m fs =
     (case fs_get_free_filesystem m of None \<Rightarrow> Inl Hang
      | Some i \<Rightarrow> Inr (m\<lparr>filesystems := (filesystems m)[i := Some fs]\<rparr>))"

definition fs_static_load :: "('p, 'a) vfs_state_scheme \<Rightarrow> fault + ('p, 'a) vfs_state_scheme" where
  "fs_static_load m = fs_insert_filesystem m fat16_init"

definition fs_load :: "('p, 'a) vfs_state_scheme \<Rightarrow> fault + ('p, 'a) vfs_state_scheme" where
  "fs_load m = fs_static_load (m\<lparr>filesystems := replicate BIMBLEOS_MAX_FILESYSTEMS None\<rparr>)"

definition fs_init :: "('p, 'a) vfs_state_scheme \<Rightarrow> fault + ('p, 'a) vfs_state_scheme" where
  "fs_init m = fs_load (m\<lparr>file_descriptors := replicate BIMBLEOS_MAX_FILE_DESCRIPTORS None\<rparr>)"

text \<open>The filesystems are asked in the order of their slots; the first that answers 0 is the disk's.\<close>

fun fs_resolve_loop ::
  "(string \<Rightarrow> (('p, 'a) vfs_state_scheme, 'p) Filesystem) \<Rightarrow> ('p, 'a) vfs_state_scheme \<Rightarrow> string option list \<Rightarrow>
     fault + (string option \<times> ('p, 'a) vfs_state_scheme)" where
  "fs_resolve_loop fs m [] = Inr (None, m)"
| "fs_resolve_loop fs m (None # xs) = fs_resolve_loop fs m xs"
| "fs_resolve_loop fs m (Some n # xs) =
     bindE (op_resolve (fs n) m) (\<lambda>(res, m1). if res = 0 then Inr (Some n, m1) else fs_resolve_loop fs m1 xs)"

definition fs_resolve ::
  "(string \<Rightarrow> (('p, 'a) vfs_state_scheme, 'p) Filesystem) \<Rightarrow> ('p, 'a) vfs_state_scheme \<Rightarrow>
     fault + (string option \<times> ('p, 'a) vfs_state_scheme)" where
  "fs_resolve fs m = fs_resolve_loop fs m (filesystems m)"

section \<open>Descriptors\<close>

text \<open>The result, and the slot of the new descriptor.\<close>

definition file_new_descriptor ::
  "('p, 'a) vfs_state_scheme \<Rightarrow> fault + (int \<times> nat option \<times> ('p, 'a) vfs_state_scheme)" where
  "file_new_descriptor m =
     (case first_free (file_descriptors m) of None \<Rightarrow> Inr (- ENOMEM, None, m)
      | Some i \<Rightarrow>
          bindE (kzalloc m 16) (\<lambda>(p, m1).
            if p = 0 then Inl NullPointer
            else Inr (0, Some i, m1\<lparr>file_descriptors := (file_descriptors m1)[i :=
                   Some \<lparr>fdesc_addr = p, index = int i + 1, fd_filesystem = None, private_data = None,
                         fd_disk = NullDisk\<rparr>]\<rparr>)))"

definition file_get_descriptor :: "('p, 'a) vfs_state_scheme \<Rightarrow> int \<Rightarrow> 'p FileDescriptor option" where
  "file_get_descriptor m fd =
     (if fd \<le> 0 \<or> int BIMBLEOS_MAX_FILE_DESCRIPTORS \<le> fd then None
      else file_descriptors m ! nat (fd - 1))"

text \<open>The dereferences of \<^verbatim>\<open>desc->filesystem\<close> and of the private data by the operations.\<close>

definition desc_ops ::
  "(string \<Rightarrow> (('p, 'a) vfs_state_scheme, 'p) Filesystem) \<Rightarrow> 'p FileDescriptor \<Rightarrow>
     fault + ((('p, 'a) vfs_state_scheme, 'p) Filesystem \<times> 'p)" where
  "desc_ops fs desc =
     (case (fd_filesystem desc, private_data desc) of (Some n, Some p) \<Rightarrow> Inr (fs n, p) | _ \<Rightarrow> Inl NullPointer)"

definition fstat ::
  "(string \<Rightarrow> (('p, 'a) vfs_state_scheme, 'p) Filesystem) \<Rightarrow> ('p, 'a) vfs_state_scheme \<Rightarrow> int \<Rightarrow> FileStat \<Rightarrow>
     fault + (int \<times> FileStat)" where
  "fstat fs m fd stat =
     (case file_get_descriptor m fd of None \<Rightarrow> Inr (- EIO, stat)
      | Some desc \<Rightarrow> bindE (desc_ops fs desc) (\<lambda>(f, p). op_stat f p stat))"

definition file_get_mode_by_string :: "u8 list \<Rightarrow> fault + u32" where
  "file_get_mode_by_string str =
     bindE (strncmp str [0x72, 0] 1) (\<lambda>r.
       if r = 0 then Inr FILE_MODE_READ
       else bindE (strncmp str [0x77, 0] 1) (\<lambda>w.
         if w = 0 then Inr FILE_MODE_WRITE
         else bindE (strncmp str [0x61, 0] 1) (\<lambda>a.
           if a = 0 then Inr FILE_MODE_APPEND else Inr FILE_MODE_INVALID)))"

definition fseek ::
  "(string \<Rightarrow> (('p, 'a) vfs_state_scheme, 'p) Filesystem) \<Rightarrow> ('p, 'a) vfs_state_scheme \<Rightarrow> int \<Rightarrow> int \<Rightarrow> u32 \<Rightarrow>
     fault + (int \<times> ('p, 'a) vfs_state_scheme)" where
  "fseek fs m fd offset whence =
     (case file_get_descriptor m fd of None \<Rightarrow> Inr (- EIO, m)
      | Some desc \<Rightarrow>
          bindE (desc_ops fs desc) (\<lambda>(f, p).
          bindE (op_seek f p (word_of_int offset) whence) (\<lambda>(res, p').
            Inr (res, m\<lparr>file_descriptors := (file_descriptors m)[nat (fd - 1) := Some (desc\<lparr>private_data := Some p'\<rparr>)]\<rparr>))))"

text \<open>
  Opening, up to the label \<^verbatim>\<open>out\<close>: the value of \<^verbatim>\<open>res\<close> there. The parsed path is not freed on any way out.
\<close>

definition fopen_res ::
  "(string \<Rightarrow> (('p, 'a) vfs_state_scheme, 'p) Filesystem) \<Rightarrow> ('p, 'a) vfs_state_scheme \<Rightarrow> u8 list \<Rightarrow> u8 list \<Rightarrow>
     fault + (int \<times> ('p, 'a) vfs_state_scheme)" where
  "fopen_res fs m fname mode_str =
     bindE (pathparser_parse m fname) (\<lambda>(root_path, m1).
       case root_path of None \<Rightarrow> Inr (- EINVARG, m1)
       | Some root \<Rightarrow>
           if first root = [] then Inr (- EINVARG, m1)
           else if disk_get (drive_no root) = NullDisk then Inr (- EIO, m1)
           else (case filesystem (disk m1) of None \<Rightarrow> Inr (- EIO, m1)
             | Some n \<Rightarrow>
                 bindE (file_get_mode_by_string mode_str) (\<lambda>mode.
                   if mode = FILE_MODE_INVALID then Inr (- EINVARG, m1)
                   else bindE (op_open (fs n) m1 (first root) mode) (\<lambda>(r, m2).
                     case r of Inl e \<Rightarrow> Inr (e, m2)
                     | Inr priv \<Rightarrow>
                         bindE (file_new_descriptor m2) (\<lambda>(res, slot, m3).
                           case slot of None \<Rightarrow> Inr (res, m3)
                           | Some i \<Rightarrow> Inr (int i + 1, m3\<lparr>file_descriptors := (file_descriptors m3)[i :=
                               map_option (\<lambda>d. d\<lparr>fd_filesystem := Some n, private_data := Some priv,
                                 fd_disk := TheDisk\<rparr>) (file_descriptors m3 ! i)]\<rparr>))))))"

definition fopen ::
  "(string \<Rightarrow> (('p, 'a) vfs_state_scheme, 'p) Filesystem) \<Rightarrow> ('p, 'a) vfs_state_scheme \<Rightarrow> u8 list \<Rightarrow> u8 list \<Rightarrow>
     fault + (int \<times> ('p, 'a) vfs_state_scheme)" where
  "fopen fs m fname mode_str =
     bindE (fopen_res fs m fname mode_str) (\<lambda>(res, m1). Inr (if res < 0 then 0 else res, m1))"

definition file_free_descriptor ::
  "('p, 'a) vfs_state_scheme \<Rightarrow> 'p FileDescriptor \<Rightarrow> fault + ('p, 'a) vfs_state_scheme" where
  "file_free_descriptor m desc =
     kfree (m\<lparr>file_descriptors := (file_descriptors m)[nat (index desc - 1) := None]\<rparr>) (fdesc_addr desc)"

definition fclose ::
  "(string \<Rightarrow> (('p, 'a) vfs_state_scheme, 'p) Filesystem) \<Rightarrow> ('p, 'a) vfs_state_scheme \<Rightarrow> int \<Rightarrow>
     fault + (int \<times> ('p, 'a) vfs_state_scheme)" where
  "fclose fs m fd =
     (case file_get_descriptor m fd of None \<Rightarrow> Inr (- EIO, m)
      | Some desc \<Rightarrow>
          bindE (desc_ops fs desc) (\<lambda>(f, p).
          bindE (op_close f m p) (\<lambda>(res, m1).
            if res = BIMBLEOS_ALL_OK
            then bindE (file_free_descriptor m1 desc) (\<lambda>m2. Inr (res, m2))
            else Inr (res, m1))))"

text \<open>The bytes are what \<^verbatim>\<open>ptr\<close> receives.\<close>

definition fread ::
  "(string \<Rightarrow> (('p, 'a) vfs_state_scheme, 'p) Filesystem) \<Rightarrow> ('p, 'a) vfs_state_scheme \<Rightarrow> u32 \<Rightarrow> u32 \<Rightarrow> int \<Rightarrow>
     fault + (int \<times> u8 list \<times> ('p, 'a) vfs_state_scheme)" where
  "fread fs m sz nmemb fd =
     (if sz = 0 \<or> nmemb = 0 \<or> fd < 1 then Inr (- EINVARG, [], m)
      else (case file_get_descriptor m fd of None \<Rightarrow> Inr (- EINVARG, [], m)
            | Some desc \<Rightarrow> bindE (desc_ops fs desc) (\<lambda>(f, p). op_read f m p sz nmemb)))"

section \<open>The FAT16 driver as a filesystem\<close>

definition fat16_fs :: "disk_img \<Rightarrow> string \<Rightarrow> ('a fat_state_scheme, FAT_FileDescriptor) Filesystem" where
  "fat16_fs img n = \<lparr>op_resolve = fat16_resolve img, op_open = fat16_open img, op_read = fat16_read img,
     op_seek = fat16_seek, op_close = fat16_close, op_stat = fat16_stat\<rparr>"

section \<open>The driver's footprint\<close>

text \<open>
  Whatever it does, the FAT16 driver leaves alone every variable the records above its own add: the file
  layer's tables among them.
\<close>

named_theorems footprint \<open>an operation keeps the state above the driver's record\<close>

abbreviation above :: "'a fat_state_scheme \<Rightarrow> 'a" where
  "above \<equiv> fat_state.more"

lemma kmalloc_above [footprint]: "kmalloc m sz = Inr (p, m') \<Longrightarrow> above m' = above m"
  by (auto simp: kmalloc_def)

lemma kzalloc_above [footprint]: "kzalloc m sz = Inr (p, m') \<Longrightarrow> above m' = above m"
  by (auto simp: kzalloc_def split: if_splits prod.splits dest!: kmalloc_above)

lemma kfree_above [footprint]: "kfree m p = Inr m' \<Longrightarrow> above m' = above m"
  by (auto simp: kfree_def)

lemma diskstreamer_new_above [footprint]: "diskstreamer_new m i = Inr (s, m') \<Longrightarrow> above m' = above m"
  by (auto simp: diskstreamer_new_def Let_def split: if_splits prod.splits dest!: footprint)

lemma diskstreamer_close_above [footprint]: "diskstreamer_close m s = Inr m' \<Longrightarrow> above m' = above m"
  by (simp add: diskstreamer_close_def footprint)

lemma stream_ops_above [footprint]:
  "dir_seek m p = Inr (r, m') \<Longrightarrow> above m' = above m"
  "dir_read img m n = Inr (r, bs, m') \<Longrightarrow> above m' = above m"
  "cluster_seek m p = Inr (r, m') \<Longrightarrow> above m' = above m"
  "cluster_read img m n = Inr (r, bs, m') \<Longrightarrow> above m' = above m"
  by (auto simp: dir_seek_def dir_read_def cluster_seek_def cluster_read_def Let_def split: option.splits prod.splits)

lemma count_items_above [footprint]: "count_items img m fuel i = Inr (r, m') \<Longrightarrow> above m' = above m"
proof (induction "nat fuel" arbitrary: m fuel i rule: less_induct)
  case less
  have IH: "count_items img m1 (fuel - 1) j = Inr (r, m') \<Longrightarrow> 0 < fuel \<Longrightarrow> above m' = above m1" for m1 j
    using less.hyps [of "fuel - 1"] by simp
  from less.prems show ?case
    by (subst (asm) count_items.simps)
      (auto simp: Let_def split: if_splits prod.splits dest!: stream_ops_above IH)
qed

lemma total_items_above [footprint]:
  "fat16_get_total_items_for_directory img m s = Inr (r, m') \<Longrightarrow> above m' = above m"
  by (auto simp: fat16_get_total_items_for_directory_def Let_def split: if_splits prod.splits dest!: footprint)

lemma get_root_directory_above [footprint]:
  "fat16_get_root_directory img m = Inr (r, m') \<Longrightarrow> above m' = above m"
  by (auto simp: fat16_get_root_directory_def Let_def split: if_splits prod.splits dest!: footprint)

lemma init_private_above [footprint]: "fat16_init_private m = Inr m' \<Longrightarrow> above m' = above m"
  by (auto simp: fat16_init_private_def split: prod.splits dest!: footprint)

lemma resolve_header_above [footprint]:
  "fat16_resolve_header img m s = Inr (r, m') \<Longrightarrow> above m' = above m"
  by (auto simp: fat16_resolve_header_def Let_def split: if_splits prod.splits dest!: footprint)

lemma resolve_above [footprint]: "fat16_resolve img m = Inr (r, m') \<Longrightarrow> above m' = above m"
  by (auto simp: fat16_resolve_def Let_def split: if_splits prod.splits option.splits dest!: footprint)

lemma get_fat_entry_above [footprint]: "fat16_get_fat_entry img m c = Inr (r, m') \<Longrightarrow> above m' = above m"
  by (auto simp: fat16_get_fat_entry_def Let_def split: if_splits prod.splits option.splits)

lemma follow_chain_above [footprint]: "follow_chain img n m c = Inr (r, m') \<Longrightarrow> above m' = above m"
  by (induction n arbitrary: m c) (fastforce split: if_splits prod.splits dest!: get_fat_entry_above)+

lemma get_cluster_above [footprint]:
  "fat16_get_cluster_for_offset img m c ofs = Inr (r, m') \<Longrightarrow> above m' = above m"
  by (auto simp: fat16_get_cluster_for_offset_def dest!: footprint)

lemma read_stream_above [footprint]:
  "fat16_read_internal_from_stream img m c ofs n = Inr (r, bs, m') \<Longrightarrow> above m' = above m"
proof (induction "nat n" arbitrary: m ofs n bs r rule: less_induct)
  case less
  have IH: "fat16_read_internal_from_stream img m1 c o1 (n - k) = Inr (r1, bs1, m') \<Longrightarrow> 0 < k \<Longrightarrow> 0 < n - k \<Longrightarrow>
      above m' = above m1" for m1 o1 k r1 bs1
    using less.hyps [of "n - k"] by simp
  from less.prems show ?case
    by (subst (asm) fat16_read_internal_from_stream.simps)
      (auto simp: Let_def not_le split: if_splits prod.splits dest!: get_cluster_above stream_ops_above IH)
qed

lemma read_internal_above [footprint]:
  "fat16_read_internal img m c ofs n = Inr (r, bs, m') \<Longrightarrow> above m' = above m"
  by (auto simp: fat16_read_internal_def dest!: footprint)

lemma item_free_above [footprint]:
  "fat16_free_directory m d = Inr m' \<Longrightarrow> above m' = above m"
  "fat16_fat_item_free m it = Inr m' \<Longrightarrow> above m' = above m"
  by (auto simp: fat16_free_directory_def fat16_fat_item_free_def split: dir_ptr.splits FAT_Item.splits option.splits
      if_splits dest!: kfree_above)

lemma load_fat_directory_above [footprint]:
  "fat16_load_fat_directory img m it = Inr (d, m') \<Longrightarrow> above m' = above m"
  by (auto simp: fat16_load_fat_directory_def Let_def split: if_splits prod.splits dest!: footprint)

lemma new_fat_item_above [footprint]:
  "fat16_new_fat_item_for_directory_item img m it = Inr (f, m') \<Longrightarrow> above m' = above m"
  by (auto simp: fat16_new_fat_item_for_directory_item_def fat16_clone_directory_item_def
      split: if_splits prod.splits dest!: footprint)

lemma find_loop_above [footprint]:
  "find_loop img m d name i f = Inr (g, m') \<Longrightarrow> above m' = above m"
proof (induction "nat (dir_total d - i)" arbitrary: m i f rule: less_induct)
  case less
  have IH: "find_loop img m1 d name (i + 1) f1 = Inr (g, m') \<Longrightarrow> i < dir_total d \<Longrightarrow> above m' = above m1" for m1 f1
    using less.hyps [of "i + 1"] by simp
  from less.prems show ?case
    by (subst (asm) find_loop.simps) (auto split: if_splits prod.splits dest!: new_fat_item_above IH)
qed

lemma find_item_above [footprint]:
  "fat16_find_item_in_directory img m d name = Inr (f, m') \<Longrightarrow> above m' = above m"
  by (auto simp: fat16_find_item_in_directory_def split: dir_ptr.splits dest!: find_loop_above)

lemma walk_parts_above [footprint]: "walk_parts img m c ps = Inr (f, m') \<Longrightarrow> above m' = above m"
proof (induction ps arbitrary: m c)
  case (Cons p ps)
  then show ?case
    by (cases c rule: option.exhaust; cases "the c")
      (auto split: prod.splits dest!: find_item_above item_free_above)
qed auto

lemma get_directory_entry_above [footprint]:
  "fat16_get_directory_entry img m ps = Inr (f, m') \<Longrightarrow> above m' = above m"
  by (auto simp: fat16_get_directory_entry_def split: list.splits option.splits prod.splits
      dest!: find_item_above walk_parts_above)

lemma open_above [footprint]: "fat16_open img m ps mode = Inr (r, m') \<Longrightarrow> above m' = above m"
  by (auto simp: fat16_open_def split: if_splits option.splits prod.splits
      dest!: kzalloc_above kfree_above get_directory_entry_above)

lemma close_above [footprint]: "fat16_close m desc = Inr (r, m') \<Longrightarrow> above m' = above m"
  by (auto simp: fat16_close_def fat16_free_file_descriptor_def dest!: kfree_above item_free_above)

lemma read_loop_above [footprint]:
  "fat16_read_loop img m it ofs sz n r0 = Inr (r, bs, m') \<Longrightarrow> above m' = above m"
  by (induction n arbitrary: m ofs r bs) (auto split: if_splits prod.splits dest!: read_internal_above)

lemma read_above [footprint]: "fat16_read img m desc sz nmemb = Inr (r, bs, m') \<Longrightarrow> above m' = above m"
  by (auto simp: fat16_read_def split: if_splits FAT_Item.splits option.splits prod.splits dest!: read_loop_above)

lemma desc_ops_Inr: "desc_ops fs desc = Inr (f, p) \<Longrightarrow> \<exists>n. fd_filesystem desc = Some n \<and> f = fs n \<and> private_data desc = Some p"
  by (auto simp: desc_ops_def split: option.splits)

section \<open>The contract of a filesystem\<close>

text \<open>
  What the file layer relies on: the operations leave its tables alone, and \<open>open\<close> reports errors as
  negative codes.
\<close>

locale filesystem_contract =
  fixes fs :: "string \<Rightarrow> (('p, 'a) vfs_state_scheme, 'p) Filesystem"
  assumes resolve_frame: "op_resolve (fs n) m = Inr (r, m') \<Longrightarrow> above m' = above m"
    and open_frame: "op_open (fs n) m ps mode = Inr (r2, m') \<Longrightarrow> above m' = above m"
    and read_frame: "op_read (fs n) m p sz k = Inr (r3, bs, m') \<Longrightarrow> above m' = above m"
    and close_frame: "op_close (fs n) m p = Inr (r, m') \<Longrightarrow> above m' = above m"
    and open_error: "op_open (fs n) m ps mode = Inr (Inl e, m') \<Longrightarrow> e < 0"
begin

text \<open>Reading changes neither table.\<close>

lemma fread_tables: "fread fs m sz k fd = Inr (r, bs, m') \<Longrightarrow> above m' = above m"
  by (auto simp: fread_def split: if_splits option.splits prod.splits dest!: desc_ops_Inr read_frame)

lemma fs_resolve_tables: "fs_resolve fs m = Inr (r, m') \<Longrightarrow> above m' = above m"
proof -
  have "fs_resolve_loop fs m xs = Inr (r, m') \<Longrightarrow> above m' = above m" for xs
  proof (induction xs arbitrary: m)
    case (Cons x xs)
    then show ?case by (cases x) (auto split: if_splits prod.splits dest!: resolve_frame)
  qed simp
  then show "fs_resolve fs m = Inr (r, m') \<Longrightarrow> above m' = above m" by (simp add: fs_resolve_def)
qed

end

lemma above_tables:
  "above m' = above (m :: ('p, 'a) vfs_state_scheme) \<Longrightarrow>
     file_descriptors m' = file_descriptors m \<and> filesystems m' = filesystems m"
  by (cases m; cases m') simp

lemma parse_path_above [footprint]:
  "pathparser_parse_path_part m path = Inr (p, rest, m') \<Longrightarrow> above m' = above m"
  by (auto simp: pathparser_parse_path_part_def pathparser_get_path_part_def Let_def
      split: if_splits option.splits prod.splits dest!: kzalloc_above kfree_above)

lemma parse_parts_above [footprint]:
  "pathparser_parse_parts m path = Inr (ps, m') \<Longrightarrow> above m' = above m"
proof (induction "length path" arbitrary: m path ps rule: less_induct)
  case less
  have IH: "pathparser_parse_path_part m path = Inr (Some p, rest, m1) \<Longrightarrow> pathparser_parse_parts m1 rest = Inr (qs, m') \<Longrightarrow>
      above m' = above m" for p rest m1 qs
    using less.hyps [of rest m1 qs] parse_path_part_shorter parse_path_above by metis
  from less.prems show ?case
    by (subst (asm) pathparser_parse_parts.simps)
      (auto split: option.splits prod.splits intro: IH dest: parse_path_above)
qed

lemma parse_above [footprint]: "pathparser_parse m path = Inr (r, m') \<Longrightarrow> above m' = above m"
  by (auto simp: pathparser_parse_def pathparser_create_root_def split: if_splits option.splits prod.splits
      dest!: kzalloc_above parse_path_above parse_parts_above)

text \<open>The free slot the search finds.\<close>

lemma first_free_Some: "first_free xs = Some i \<Longrightarrow> i < length xs \<and> xs ! i = None \<and> (\<forall>j<i. xs ! j \<noteq> None)"
proof (induction xs arbitrary: i rule: first_free.induct)
  case (3 x xs)
  then obtain j where "first_free xs = Some j" "i = Suc j" by auto
  with "3.IH" [of j] show ?case by (auto simp: nth_Cons split: nat.splits)
qed auto

lemma first_free_None: "first_free xs = None \<longleftrightarrow> None \<notin> set xs"
  by (induction xs rule: first_free.induct) auto

lemma file_tables_upd [simp]:
  "above (m\<lparr>kernel_heap := h\<rparr>) = above m" "above (m\<lparr>kernel_heap := h, mem := mm\<rparr>) = above m"
  by simp_all

lemma kzalloc_tables:
  "kzalloc m sz = Inr (p, m') \<Longrightarrow> file_descriptors m' = file_descriptors m \<and> filesystems m' = filesystems m"
  by (rule above_tables) (rule kzalloc_above)

lemma kfree_tables:
  "kfree m p = Inr m' \<Longrightarrow> file_descriptors m' = file_descriptors m \<and> filesystems m' = filesystems m"
  by (rule above_tables) (rule kfree_above)

text \<open>The invariant of the descriptor table: 512 slots, and a descriptor knows its slot and its file.\<close>

definition vfs_inv :: "('p, 'a) vfs_state_scheme \<Rightarrow> bool" where
  "vfs_inv m \<longleftrightarrow> length (file_descriptors m) = BIMBLEOS_MAX_FILE_DESCRIPTORS \<and>
     (\<forall>i d. i < BIMBLEOS_MAX_FILE_DESCRIPTORS \<and> file_descriptors m ! i = Some d \<longrightarrow>
        index d = int i + 1 \<and> fd_filesystem d \<noteq> None \<and> private_data d \<noteq> None)"

lemma vfs_inv_update:
  fixes m m' :: "('p, 'a) vfs_state_scheme"
  assumes inv: "vfs_inv m" and upd: "file_descriptors m' = (file_descriptors m)[i := x]"
    and x: "\<And>d. x = Some d \<Longrightarrow> index d = int i + 1 \<and> fd_filesystem d \<noteq> None \<and> private_data d \<noteq> None"
  shows "vfs_inv m'"
  unfolding vfs_inv_def
proof (intro conjI allI impI)
  show "length (file_descriptors m') = BIMBLEOS_MAX_FILE_DESCRIPTORS"
    using inv upd by (simp add: vfs_inv_def)
next
  fix j d
  assume j: "j < BIMBLEOS_MAX_FILE_DESCRIPTORS \<and> file_descriptors m' ! j = Some d"
  have "index d = int j + 1 \<and> fd_filesystem d \<noteq> None \<and> private_data d \<noteq> None"
  proof (cases "j = i")
    case True
    with j inv upd have "x = Some d" by (auto simp: vfs_inv_def)
    with x True show ?thesis by blast
  next
    case False
    with j inv upd show ?thesis by (simp add: vfs_inv_def)
  qed
  then show "index d = int j + 1" "fd_filesystem d \<noteq> None" "private_data d \<noteq> None" by auto
qed

lemma get_descriptor_Some:
  assumes "vfs_inv m" and "file_get_descriptor m fd = Some d"
  shows "1 \<le> fd \<and> fd < 512 \<and> file_descriptors m ! nat (fd - 1) = Some d \<and> nat (fd - 1) < length (file_descriptors m) \<and>
    index d = fd"
proof -
  have fd: "1 \<le> fd" "fd < 512" "file_descriptors m ! nat (fd - 1) = Some d"
    using assms(2) by (auto simp: file_get_descriptor_def config split: if_splits)
  then have "nat (fd - 1) < BIMBLEOS_MAX_FILE_DESCRIPTORS" by (simp add: config)
  with assms(1) fd show ?thesis by (auto simp: vfs_inv_def)
qed

lemma first_free_length: "first_free xs = Some i \<Longrightarrow> i < length xs"
  using first_free_Some by blast

lemma new_descriptor_slot:
  assumes "file_new_descriptor m = Inr (r, slot, m')"
  shows "(slot = None \<and> first_free (file_descriptors m) = None \<and> r = - ENOMEM \<and> m' = m) \<or>
    (\<exists>i d. slot = Some i \<and> first_free (file_descriptors m) = Some i \<and> r = 0 \<and> filesystems m' = filesystems m \<and>
      file_descriptors m' = (file_descriptors m)[i := Some d] \<and> index d = int i + 1)"
proof (cases "first_free (file_descriptors m)")
  case None
  with assms show ?thesis by (simp add: file_new_descriptor_def)
next
  case (Some i)
  with assms obtain p m1 where kz: "kzalloc m 16 = Inr (p, m1)" "p \<noteq> 0"
    by (auto simp: file_new_descriptor_def split: if_splits)
  let ?d = "\<lparr>fdesc_addr = p, index = int i + 1, fd_filesystem = None, private_data = None, fd_disk = NullDisk\<rparr>"
  from assms Some kz have "slot = Some i" "r = 0" "m' = m1\<lparr>file_descriptors := (file_descriptors m1)[i := Some ?d]\<rparr>"
    by (auto simp: file_new_descriptor_def)
  with Some kzalloc_tables [OF kz(1)] show ?thesis
    by (intro disjI2 exI [of _ i] exI [of _ ?d]) simp
qed

context filesystem_contract
begin

text \<open>
  Up to the new descriptor \<open>fopen\<close> changes no table: it has failed, or it goes on from a state with the same
  tables to \<open>file_new_descriptor\<close>.
\<close>

lemma fopen_res_new:
  assumes "fopen_res fs m f md = Inr (res, m')"
  shows "(res < 0 \<and> above m' = above m) \<or>
    (\<exists>n priv m2 r slot m3. above m2 = above m \<and> file_new_descriptor m2 = Inr (r, slot, m3) \<and>
       (case slot of None \<Rightarrow> res = r \<and> m' = m3
        | Some i \<Rightarrow> res = int i + 1 \<and> m' = m3\<lparr>file_descriptors := (file_descriptors m3)[i :=
            map_option (\<lambda>d. d\<lparr>fd_filesystem := Some n, private_data := Some priv, fd_disk := TheDisk\<rparr>)
              (file_descriptors m3 ! i)]\<rparr>))"
proof -
  obtain root_path m1 where pp: "pathparser_parse m f = Inr (root_path, m1)"
    using assms by (cases "pathparser_parse m f") (auto simp: fopen_res_def)
  have early: ?thesis if "res < 0" "m' = m1"
    using that parse_above [OF pp] by simp
  show ?thesis
  proof (cases "\<exists>root n mode. root_path = Some root \<and> first root \<noteq> [] \<and> disk_get (drive_no root) \<noteq> NullDisk \<and>
      filesystem (disk m1) = Some n \<and> file_get_mode_by_string md = Inr mode \<and> mode \<noteq> FILE_MODE_INVALID")
    case False
    with assms pp show ?thesis
      by (intro early) (auto simp: fopen_res_def config split: option.splits if_splits)
  next
    case True
    then obtain root n mode where root: "root_path = Some root" "first root \<noteq> []"
        "disk_get (drive_no root) \<noteq> NullDisk" "filesystem (disk m1) = Some n"
        "file_get_mode_by_string md = Inr mode" "mode \<noteq> FILE_MODE_INVALID" by blast
    with assms pp obtain r m2 where op: "op_open (fs n) m1 (first root) mode = Inr (r, m2)"
      by (auto simp: fopen_res_def)
    then have m2: "above m2 = above m" using open_frame [OF op] parse_above [OF pp] by simp
    show ?thesis
    proof (cases r)
      case (Inl e)
      with assms pp root op have "res = e" "m' = m2" by (auto simp: fopen_res_def)
      moreover from op Inl have "e < 0" using open_error by blast
      ultimately show ?thesis using m2 by simp
    next
      case (Inr priv)
      with assms pp root op obtain slot r1 m3 where nw: "file_new_descriptor m2 = Inr (r1, slot, m3)"
        by (auto simp: fopen_res_def)
      with assms pp root op Inr m2 show ?thesis
        by (intro disjI2 exI [of _ n] exI [of _ priv] exI [of _ m2] exI [of _ r1] exI [of _ slot] exI [of _ m3])
          (auto simp: fopen_res_def split: option.splits)
    qed
  qed
qed

text \<open>
  \<open>fopen\<close> either fails with 0 and unchanged tables, or fills exactly the first free slot.
\<close>

lemma fopen_slot:
  assumes "fopen fs m f md = Inr (fd, m')"
  shows "filesystems m' = filesystems m \<and>
    ((fd = 0 \<and> file_descriptors m' = file_descriptors m) \<or>
     (\<exists>i d. first_free (file_descriptors m) = Some i \<and> fd = int i + 1 \<and>
        file_descriptors m' = (file_descriptors m)[i := Some d] \<and> index d = fd \<and>
        fd_filesystem d \<noteq> None \<and> private_data d \<noteq> None))"
proof -
  from assms obtain res where res: "fopen_res fs m f md = Inr (res, m')" and fd: "fd = (if res < 0 then 0 else res)"
    by (auto simp: fopen_def)
  from fopen_res_new [OF res] show ?thesis
  proof (elim disjE exE conjE)
    assume "res < 0" "above m' = above m"
    with fd above_tables show ?thesis by auto
  next
    fix n priv m2 r slot m3
    assume m2: "above m2 = above m" and nw: "file_new_descriptor m2 = Inr (r, slot, m3)"
      and fin: "case slot of None \<Rightarrow> res = r \<and> m' = m3
        | Some i \<Rightarrow> res = int i + 1 \<and> m' = m3\<lparr>file_descriptors := (file_descriptors m3)[i :=
            map_option (\<lambda>d. d\<lparr>fd_filesystem := Some n, private_data := Some priv, fd_disk := TheDisk\<rparr>)
              (file_descriptors m3 ! i)]\<rparr>"
    note t2 = above_tables [OF m2]
    show ?thesis
    proof (cases slot)
      case None
      with new_descriptor_slot [OF nw] t2 fin fd show ?thesis by (auto simp: config)
    next
      case (Some i)
      with new_descriptor_slot [OF nw] t2 obtain d where d: "first_free (file_descriptors m) = Some i"
          "filesystems m3 = filesystems m" "file_descriptors m3 = (file_descriptors m)[i := Some d]" "index d = int i + 1"
        by auto
      let ?d = "d\<lparr>fd_filesystem := Some n, private_data := Some priv, fd_disk := TheDisk\<rparr>"
      from Some fin d first_free_length [OF d(1)] fd
      show ?thesis by (intro conjI disjI2 exI [of _ i] exI [of _ ?d]) simp_all
    qed
  qed
qed

text \<open>\<open>fclose\<close> frees exactly the descriptor's slot, or leaves the tables alone.\<close>

lemma fclose_slot:
  assumes "fclose fs m fd = Inr (r, m')" and "vfs_inv m"
  shows "filesystems m' = filesystems m \<and>
    (file_descriptors m' = file_descriptors m \<or>
     (r = 0 \<and> 1 \<le> fd \<and> fd < 512 \<and> file_descriptors m' = (file_descriptors m)[nat (fd - 1) := None]))"
proof (cases "file_get_descriptor m fd")
  case None
  with assms show ?thesis by (simp add: fclose_def)
next
  case (Some d)
  note d = get_descriptor_Some [OF assms(2) Some]
  from Some assms(1) obtain f p m1 where ops: "desc_ops fs d = Inr (f, p)" and cl: "op_close f m p = Inr (r, m1)"
    and rest: "if r = BIMBLEOS_ALL_OK then file_free_descriptor m1 d = Inr m' else m' = m1"
    by (auto simp: fclose_def split: if_splits)
  from desc_ops_Inr [OF ops] cl have m1: "above m1 = above m" using close_frame by blast
  show ?thesis
  proof (cases "r = BIMBLEOS_ALL_OK")
    case True
    with rest d above_tables [OF m1] show ?thesis
      by (auto simp: file_free_descriptor_def config dest!: kfree_tables)
  next
    case False
    with rest above_tables [OF m1] show ?thesis by simp
  qed
qed

text \<open>\<open>fseek\<close> replaces the private data of one descriptor.\<close>

lemma fseek_slot:
  assumes "fseek fs m fd ofs wh = Inr (r, m')" and "vfs_inv m"
  shows "filesystems m' = filesystems m \<and>
    (file_descriptors m' = file_descriptors m \<or>
     (\<exists>d p. file_get_descriptor m fd = Some d \<and> index d = fd \<and> fd_filesystem d \<noteq> None \<and>
        file_descriptors m' = (file_descriptors m)[nat (fd - 1) := Some (d\<lparr>private_data := Some p\<rparr>)]))"
proof (cases "file_get_descriptor m fd")
  case None
  with assms show ?thesis by (simp add: fseek_def)
next
  case (Some d)
  note d = get_descriptor_Some [OF assms(2) Some]
  from Some assms(1) obtain f p p' where "desc_ops fs d = Inr (f, p)" "op_seek f p (word_of_int ofs) wh = Inr (r, p')"
    and "m' = m\<lparr>file_descriptors := (file_descriptors m)[nat (fd - 1) := Some (d\<lparr>private_data := Some p'\<rparr>)]\<rparr>"
    by (auto simp: fseek_def)
  with Some d desc_ops_Inr [of fs d] show ?thesis by auto
qed

end

section \<open>Reachable states\<close>

text \<open>
  The file layer as a state machine: \<^verbatim>\<open>fs_init\<close> is its start, its steps are the calls the rest of the kernel makes.
\<close>

inductive vfs_step ::
  "(string \<Rightarrow> (('p, 'a) vfs_state_scheme, 'p) Filesystem) \<Rightarrow> ('p, 'a) vfs_state_scheme \<Rightarrow> ('p, 'a) vfs_state_scheme \<Rightarrow> bool"
  for fs where
  step_mount: "disk_search_and_init (fs_resolve fs) m = Inr m' \<Longrightarrow> vfs_step fs m m'"
| step_fopen: "fopen fs m fname mode_str = Inr (fd, m') \<Longrightarrow> vfs_step fs m m'"
| step_fseek: "fseek fs m fd offset whence = Inr (r, m') \<Longrightarrow> vfs_step fs m m'"
| step_fread: "fread fs m sz nmemb fd = Inr (r, bs, m') \<Longrightarrow> vfs_step fs m m'"
| step_fclose: "fclose fs m fd = Inr (r, m') \<Longrightarrow> vfs_step fs m m'"

inductive_cases vfs_stepE: "vfs_step fs m m'"

inductive vfs_reachable ::
  "(string \<Rightarrow> (('p, 'a) vfs_state_scheme, 'p) Filesystem) \<Rightarrow> ('p, 'a) vfs_state_scheme \<Rightarrow> bool" for fs where
  reach_init: "fs_init m = Inr m' \<Longrightarrow> vfs_reachable fs m'"
| reach_step: "vfs_reachable fs m \<Longrightarrow> vfs_step fs m m' \<Longrightarrow> vfs_reachable fs m'"

lemma vfs_inv_tables: "vfs_inv m \<Longrightarrow> file_descriptors m' = file_descriptors m \<Longrightarrow> vfs_inv m'"
  by (simp add: vfs_inv_def)

lemma fs_init_tables:
  assumes "fs_init m = Inr m'"
  shows "vfs_inv m' \<and> filesystems m' = Some fat16_init # replicate 11 None"
proof -
  have r: "replicate BIMBLEOS_MAX_FILESYSTEMS None = None # replicate 11 None"
    by (simp add: BIMBLEOS_MAX_FILESYSTEMS_def numeral_eq_Suc)
  from assms have "m' = m\<lparr>file_descriptors := replicate BIMBLEOS_MAX_FILE_DESCRIPTORS None,
      filesystems := Some fat16_init # replicate 11 None\<rparr>"
    by (simp add: fs_init_def fs_load_def fs_static_load_def fs_insert_filesystem_def fs_get_free_filesystem_def r)
  then show ?thesis by (auto simp: vfs_inv_def)
qed

text \<open>What every call keeps: the invariant of the descriptor table, and the table of filesystems.\<close>

definition keeps :: "('p, 'a) vfs_state_scheme \<Rightarrow> ('p, 'a) vfs_state_scheme \<Rightarrow> bool" where
  "keeps m m' \<longleftrightarrow> (vfs_inv m \<longrightarrow> vfs_inv m') \<and> filesystems m' = filesystems m"

lemma keeps_above: "above m' = above m \<Longrightarrow> keeps m m'"
  using above_tables [of m' m] by (simp add: keeps_def vfs_inv_def)

context filesystem_contract
begin

lemma mount_keeps: "disk_search_and_init (fs_resolve fs) m = Inr m' \<Longrightarrow> keeps m m'"
  by (intro keeps_above) (auto simp: disk_search_and_init_def Let_def dest!: fs_resolve_tables)

lemma fread_keeps: "fread fs m sz k fd = Inr (r, bs, m') \<Longrightarrow> keeps m m'"
  by (intro keeps_above fread_tables)

lemma fopen_keeps:
  assumes "fopen fs m f md = Inr (fd, m')" shows "keeps m m'"
  using fopen_slot [OF assms]
proof (elim conjE disjE exE)
  fix i d
  assume "filesystems m' = filesystems m" and m': "file_descriptors m' = (file_descriptors m)[i := Some d]"
    and "fd = int i + 1" "index d = fd" "fd_filesystem d \<noteq> None" "private_data d \<noteq> None"
  then show ?thesis using vfs_inv_update [OF _ m'] by (auto simp: keeps_def)
qed (simp add: keeps_def vfs_inv_def)

lemma fseek_keeps:
  assumes "fseek fs m fd ofs wh = Inr (r, m')" and inv: "vfs_inv m" shows "keeps m m'"
  using fseek_slot [OF assms]
proof (elim conjE disjE exE)
  fix d p
  assume fs: "filesystems m' = filesystems m" and d: "file_get_descriptor m fd = Some d" "index d = fd" "fd_filesystem d \<noteq> None"
    and m': "file_descriptors m' = (file_descriptors m)[nat (fd - 1) := Some (d\<lparr>private_data := Some p\<rparr>)]"
  have "1 \<le> fd" using get_descriptor_Some [OF inv d(1)] by blast
  then have "vfs_inv m'" using d by (intro vfs_inv_update [OF inv m']) auto
  with fs show ?thesis by (simp add: keeps_def)
qed (simp add: keeps_def vfs_inv_def)

lemma fclose_keeps:
  assumes "fclose fs m fd = Inr (r, m')" and "vfs_inv m" shows "keeps m m'"
  using fclose_slot [OF assms] vfs_inv_update [OF assms(2), of m' "nat (fd - 1)" None]
  by (auto simp: keeps_def vfs_inv_def)

lemma vfs_step_inv: "vfs_step fs m m' \<Longrightarrow> vfs_inv m \<Longrightarrow> vfs_inv m' \<and> filesystems m' = filesystems m"
  by (elim vfs_stepE) (auto dest: mount_keeps fopen_keeps fseek_keeps fread_keeps fclose_keeps simp: keeps_def)

lemma vfs_reachable_tables:
  "vfs_reachable fs m \<Longrightarrow> vfs_inv m \<and> filesystems m = Some fat16_init # replicate 11 None"
  by (induction rule: vfs_reachable.induct) (use fs_init_tables vfs_step_inv in auto)

end

section \<open>The FAT16 driver keeps the contract\<close>

lemma fat16_open_error: "fat16_open img m ps mode = Inr (Inl e, m') \<Longrightarrow> e < 0"
  by (auto simp: fat16_open_def config split: if_splits option.splits prod.splits)

lemma fat16_close_ok: "fat16_close m desc = Inr (r, m') \<Longrightarrow> r = 0"
  by (auto simp: fat16_close_def config)

interpretation vf: filesystem_contract "fat16_fs img" for img
  by unfold_locales (auto simp: fat16_fs_def footprint dest: fat16_open_error)

section \<open>Opening a file from its path\<close>

text \<open>Parsing a path changes the heap and the memory only.\<close>

lemma heap_only_iff: "heap_only m m' \<longleftrightarrow> machine.more m' = machine.more m"
  by (cases m; cases m') (auto simp: heap_only_def)

lemma kzalloc_more: "kzalloc m sz = Inr (p, m') \<Longrightarrow> machine.more m' = machine.more m"
  by (auto simp: kzalloc_def kmalloc_def split: if_splits prod.splits)

lemma kfree_more: "kfree m p = Inr m' \<Longrightarrow> machine.more m' = machine.more m"
  by (auto simp: kfree_def)

lemma parse_path_more:
  "pathparser_parse_path_part m path = Inr (p, rest, m') \<Longrightarrow> machine.more m' = machine.more m"
  by (auto simp: pathparser_parse_path_part_def pathparser_get_path_part_def Let_def
      split: if_splits option.splits prod.splits dest!: kzalloc_more kfree_more)

lemma parse_parts_more: "pathparser_parse_parts m path = Inr (ps, m') \<Longrightarrow> machine.more m' = machine.more m"
proof (induction "length path" arbitrary: m path ps rule: less_induct)
  case less
  have IH: "pathparser_parse_path_part m path = Inr (Some p, rest, m1) \<Longrightarrow> pathparser_parse_parts m1 rest = Inr (qs, m') \<Longrightarrow>
      machine.more m' = machine.more m" for p rest m1 qs
    using less.hyps [of rest m1 qs] parse_path_part_shorter parse_path_more by metis
  from less.prems show ?case
    by (subst (asm) pathparser_parse_parts.simps)
      (auto split: option.splits prod.splits intro: IH dest: parse_path_more)
qed

lemma parse_heap_only: "pathparser_parse m path = Inr (r, m') \<Longrightarrow> heap_only m m'"
  unfolding heap_only_iff
  by (auto simp: pathparser_parse_def pathparser_create_root_def split: if_splits option.splits prod.splits
      dest!: kzalloc_more parse_path_more parse_parts_more)

text \<open>The entry a name picks does not depend on what follows the terminator in its buffer.\<close>

lemma unique_file_cstr:
  "unique_file d s k \<Longrightarrow> cstr s' = cstr s \<Longrightarrow> terminated s' \<Longrightarrow> unique_file d s' k"
  by (simp add: unique_file_def name_matches_def)

lemma mode_read: "file_get_mode_by_string [0x72, 0] = Inr FILE_MODE_READ"
  by (simp add: file_get_mode_by_string_def strncmp_def)

text \<open>
  The circumstances of a successful \<^verbatim>\<open>fopen\<close> of the file \<open>k\<close> of the root directory: the disk is mounted with
  the driver, the path is the drive and one name, exactly the entry \<open>k\<close> carries it, \<open>slot\<close> is the first free
  descriptor, and 7 heap blocks are free.
\<close>

definition openable ::
  "(FAT_FileDescriptor, 'a) vfs_state_scheme \<Rightarrow> live \<Rightarrow> u8 list \<Rightarrow> nat \<Rightarrow> nat \<Rightarrow> bool" where
  "openable m A path k slot \<longleftrightarrow> machine_inv m A \<and> fat_ready m \<and> filesystem (disk m) = Some fat16_init \<and>
     card (kh.used A) + 7 \<le> kheap_blocks \<and> first_free (file_descriptors m) = Some slot \<and>
     terminated path \<and> valid_path (cstr path) \<and> path ! 0 = 0x30 \<and>
     (\<exists>nm. path_parts (drop 3 (cstr path)) = [cstr nm] \<and> unique_file (root_directory (fat_private m)) nm k)"

lemma used_add_pages:
  "\<forall>t\<in>set ts. A t = None \<Longrightarrow> kh.used (add_pages A ts) = set ts \<union> kh.used A"
proof (induction ts)
  case Nil
  then show ?case by (simp add: add_pages_def)
next
  case (Cons t ts)
  have e: "add_pages A (t # ts) = (add_pages A ts)(t \<mapsto> 1)" by (auto simp: add_pages_def)
  show ?case
  proof (cases "t \<in> set ts")
    case True
    then have "(add_pages A ts)(t \<mapsto> 1) = add_pages A ts" by (auto simp: add_pages_def)
    with True Cons e show ?thesis by auto
  next
    case False
    then have "add_pages A ts t = None" using Cons(2) by (simp add: add_pages_def)
    then have "kh.used ((add_pages A ts)(t \<mapsto> 1)) = kh.used (add_pages A ts) \<union> {t..<t + 1}" by (rule kh.used_upd)
    then have "kh.used (add_pages A (t # ts)) = insert t (kh.used (add_pages A ts))" unfolding e [symmetric] by auto
    with Cons show ?thesis by simp
  qed
qed

lemma room_add_pages:
  assumes "\<forall>t\<in>set ts. A t = None" and "card (kh.used A) + length ts + n \<le> N"
  shows "card (kh.used (add_pages A ts)) + n \<le> N"
  using assms(2) card_Un_le [of "set ts" "kh.used A"] card_length [of ts]
  unfolding used_add_pages [OF assms(1)] by linarith

lemma card_new_pages:
  assumes old: "machine_inv m A" and mi: "machine_inv m' (add_pages A ts)" and new: "\<forall>t\<in>set ts. A t = None" "distinct ts"
  shows "card (kh.used (add_pages A ts)) = card (kh.used A) + length ts"
proof -
  have "t \<notin> kh.used A" if t: "t \<in> set ts" for t
  proof
    assume "t \<in> kh.used A"
    then obtain s k where c: "covers A s k t" by (auto simp: kh.used_def)
    then have "s \<notin> set ts" using new(1) by (auto simp: covers_def)
    then have "covers (add_pages A ts) s k t" using c by (simp add: covers_def add_pages_def)
    moreover have "covers (add_pages A ts) t 1 t" using t by (simp add: covers_def add_pages_def)
    ultimately have "s = t" using mi kh.live_disjoint unfolding machine_inv_def by blast
    then show False using t \<open>s \<notin> set ts\<close> by simp
  qed
  moreover have "finite (kh.used A)" using old kh.finite_used by (auto simp: machine_inv_def)
  ultimately show ?thesis
    unfolding used_add_pages [OF new(1)] using new(2) by (subst card_Un_disjoint) (auto simp: distinct_card)
qed

lemma fopen_file_ok:
  fixes m :: "(FAT_FileDescriptor, 'a) vfs_state_scheme"
  assumes op: "openable m A path k slot"
  shows "\<exists>c a b p ts m'. fopen (fat16_fs img) m path [0x72, 0] = Inr (int slot + 1, m') \<and>
    file_descriptors m' = (file_descriptors m)[slot := Some \<lparr>fdesc_addr = block_addr p, index = int slot + 1,
      fd_filesystem = Some fat16_init, private_data = Some \<lparr>desc_addr = block_addr c, desc_item = FileItem (block_addr a)
        (Some (block_addr b, item (root_directory (fat_private m)) ! k)), desc_pos = 0\<rparr>, fd_disk = TheDisk\<rparr>] \<and>
    fat_private m' = fat_private m \<and> disk m' = disk m \<and> length ts = 3 \<and>
    machine_inv m' ((add_pages A ts)(c \<mapsto> 1, a \<mapsto> 1, b \<mapsto> 1, p \<mapsto> 1)) \<and> distinct [c, a, b, p] \<and>
    (\<forall>t\<in>{c, a, b, p}. add_pages A ts t = None) \<and> (\<forall>t\<in>set ts. A t = None) \<and> distinct ts \<and> mem_kept A m m' \<and>
    paging_enabled m' = paging_enabled m"
proof -
  from op obtain nm where inv: "machine_inv m A" and room: "card (kh.used A) + 7 \<le> kheap_blocks"
    and path: "terminated path" "valid_path (cstr path)" "path ! 0 = 0x30" and parts: "path_parts (drop 3 (cstr path)) = [cstr nm]"
    and u: "unique_file (root_directory (fat_private m)) nm k" and ready: "fat_ready m"
    and fs: "filesystem (disk m) = Some fat16_init" and slot: "first_free (file_descriptors m) = Some slot"
    by (auto simp: openable_def)
  have "card (kh.used A) + 2 * length (path_parts (drop 3 (cstr path))) + 3 \<le> kheap_blocks" using room parts by simp
  from pathparser_parse_ok [OF inv path(1,2) this] obtain root ts r m1 where
    pp: "pathparser_parse m path = Inr (Some root, m1)" "drive_no root = 0" "map (\<lambda>p. cstr (part p)) (first root) = [cstr nm]"
      "\<forall>p\<in>set (first root). terminated (part p)"
    and inv1: "machine_inv m1 (add_pages A (r # ts))" and pages: "parts_pages (first root) = map block_addr ts"
    and new: "\<forall>t\<in>set (r # ts). A t = None" "distinct (r # ts)" and kept1: "mem_kept A m m1"
    unfolding path(3) parts by (auto simp: to_numeric_digit_def)
  from pp(3,4) obtain q where q: "first root = [q]" "cstr (part q) = cstr nm" "terminated (part q)" by auto
  from pages q(1) have "length ts = 2" by (auto dest!: arg_cong [of _ _ length])
  then have ts: "length (r # ts) = 3" by simp
  note h1 = heap_only_fat [OF parse_heap_only [OF pp(1)]]
  have "card (kh.used A) + length (r # ts) + 4 \<le> kheap_blocks" using room ts by simp
  note room1 = room_add_pages [OF new(1) this]
  then have "card (kh.used (add_pages A (r # ts))) + 3 \<le> kheap_blocks" by simp
  from fat16_open_ok [OF _ inv1 this, of q k img] ready u q h1 obtain c a b m2 where
    o: "fat16_open img m1 [q] FILE_MODE_READ = Inr (Inr \<lparr>desc_addr = block_addr c, desc_item = FileItem (block_addr a)
        (Some (block_addr b, item (root_directory (fat_private m)) ! k)), desc_pos = 0\<rparr>, m2)" "heap_only m1 m2"
      "machine_inv m2 ((add_pages A (r # ts))(c \<mapsto> 1, a \<mapsto> 1, b \<mapsto> 1))" "distinct [c, a, b]"
      "\<forall>t\<in>{c, a, b}. add_pages A (r # ts) t = None" "mem_kept (add_pages A (r # ts)) m1 m2"
    using unique_file_cstr [of "root_directory (fat_private m)" nm k "part q"] by auto
  note h2 = heap_only_fat [OF o(2)]
  have p4: "(add_pages A (r # ts))(c \<mapsto> 1, a \<mapsto> 1, b \<mapsto> 1) = add_pages (add_pages A (r # ts)) [c, a, b]"
    by (auto simp: add_pages_def)
  have "card (kh.used ((add_pages A (r # ts))(c \<mapsto> 1, a \<mapsto> 1, b \<mapsto> 1))) + 1 \<le> kheap_blocks"
    unfolding p4 using room1 o(5) by (intro room_add_pages) auto
  then have "card (kh.used ((add_pages A (r # ts))(c \<mapsto> 1, a \<mapsto> 1, b \<mapsto> 1))) < kheap_blocks" by simp
  from kzalloc_heap_only [OF o(3) _ _ this, of 16] obtain p m3 where
    z: "kzalloc m2 16 = Inr (block_addr p, m3)" "heap_only m2 m3"
      "machine_inv m3 ((add_pages A (r # ts))(c \<mapsto> 1, a \<mapsto> 1, b \<mapsto> 1, p \<mapsto> 1))"
      "((add_pages A (r # ts))(c \<mapsto> 1, a \<mapsto> 1, b \<mapsto> 1)) p = None" "p < kheap_blocks"
      "mem_kept ((add_pages A (r # ts))(c \<mapsto> 1, a \<mapsto> 1, b \<mapsto> 1)) m2 m3" by auto
  have "mem_kept (add_pages A (r # ts)) m1 m3"
    using o(5) by (intro mem_kept_trans [OF o(6) z(6)]) (auto simp: map_le_def)
  then have kept: "mem_kept A m m3" using new by (intro mem_kept_trans [OF kept1]) (auto simp: map_le_def add_pages_def)
  note t1 = above_tables [OF parse_above [OF pp(1)]]
  have "above m2 = above m1" using o(2) by (auto simp: heap_only_def)
  note t2 = above_tables [OF this] and t3 = kzalloc_tables [OF z(1)] and h3 = heap_only_fat [OF z(2)]
  have nz: "block_addr p \<noteq> 0" using z(5) by (intro block_addr_nonzero) simp
  let ?fd = "\<lparr>desc_addr = block_addr c, desc_item = FileItem (block_addr a)
        (Some (block_addr b, item (root_directory (fat_private m)) ! k)), desc_pos = 0\<rparr>"
  let ?new = "\<lparr>fdesc_addr = block_addr p, index = int slot + 1, fd_filesystem = None, private_data = None, fd_disk = NullDisk\<rparr>"
  let ?d = "\<lparr>fdesc_addr = block_addr p, index = int slot + 1, fd_filesystem = Some fat16_init, private_data = Some ?fd,
      fd_disk = TheDisk\<rparr>"
  let ?m = "m3\<lparr>file_descriptors := (file_descriptors m)[slot := Some ?d]\<rparr>"
  have "file_new_descriptor m2 = Inr (0, Some slot, m3\<lparr>file_descriptors := (file_descriptors m)[slot := Some ?new]\<rparr>)"
    using z(1) nz t1 t2 t3 slot by (simp add: file_new_descriptor_def)
  moreover have "slot < length (file_descriptors m)" by (rule first_free_length [OF slot])
  ultimately have "fopen_res (fat16_fs img) m path [0x72, 0] = Inr (int slot + 1, ?m)"
    using pp(1,2) q(1) h1 fs o(1) by (simp add: fopen_res_def mode_read disk_get_def fat16_fs_def file_consts)
  then have "fopen (fat16_fs img) m path [0x72, 0] = Inr (int slot + 1, ?m)" by (simp add: fopen_def)
  moreover have "machine_inv ?m ((add_pages A (r # ts))(c \<mapsto> 1, a \<mapsto> 1, b \<mapsto> 1, p \<mapsto> 1))"
    using z(3) by (simp add: machine_inv_def)
  moreover have "distinct [c, a, b, p]" "\<forall>t\<in>{c, a, b, p}. add_pages A (r # ts) t = None"
    using o(4,5) z(4) by (auto split: if_splits)
  moreover have "mem_kept A m ?m" using kept by (simp add: mem_kept_def)
  ultimately show ?thesis using ts h1 h2 h3 new
    by (intro exI [of _ c] exI [of _ a] exI [of _ b] exI [of _ p] exI [of _ "r # ts"] exI [of _ ?m]) simp
qed

text \<open>Closing it again: the four blocks of the descriptor go, the three of the path stay.\<close>

lemma fclose_file_ok:
  assumes inv: "machine_inv m (A(c \<mapsto> 1, a \<mapsto> 1, b \<mapsto> 1, p \<mapsto> 1))" and dist: "distinct [c, a, b, p]"
    and new: "\<forall>t\<in>{c, a, b, p}. A t = None"
    and slot: "slot < length (file_descriptors m)" "int slot < 511"
    and desc: "file_descriptors m ! slot = Some \<lparr>fdesc_addr = block_addr p, index = int slot + 1, fd_filesystem = Some n,
      private_data = Some \<lparr>desc_addr = block_addr c, desc_item = FileItem (block_addr a) (Some (block_addr b, it)), desc_pos = q\<rparr>,
      fd_disk = TheDisk\<rparr>"
  shows "\<exists>m'. fclose (fat16_fs img) m (int slot + 1) = Inr (0, m') \<and> machine_inv m' A \<and>
    file_descriptors m' = (file_descriptors m)[slot := None] \<and> mem m' = mem m \<and> paging_enabled m' = paging_enabled m"
proof -
  let ?p = "\<lparr>desc_addr = block_addr c, desc_item = FileItem (block_addr a) (Some (block_addr b, it)), desc_pos = q\<rparr>"
  have swap: "A(c \<mapsto> 1, a \<mapsto> 1, b \<mapsto> 1, p \<mapsto> 1) = (A(p \<mapsto> 1))(c \<mapsto> 1, a \<mapsto> 1, b \<mapsto> 1)"
    using dist by (auto simp: fun_upd_def)
  have "distinct [c, a, b]" "\<forall>t\<in>{c, a, b}. (A(p \<mapsto> 1)) t = None" using dist new by auto
  from fat16_close_file_ok [OF inv [unfolded swap] this, of ?p] obtain h where
    h: "fat16_close m ?p = Inr (0, m\<lparr>kernel_heap := h\<rparr>)" "machine_inv (m\<lparr>kernel_heap := h\<rparr>) (A(p \<mapsto> 1))" by (auto simp only: FAT_FileDescriptor.simps)
  let ?m = "m\<lparr>kernel_heap := h, file_descriptors := (file_descriptors m)[slot := None]\<rparr>"
  have "machine_inv ?m (A(p \<mapsto> 1))" "A p = None" using h(2) new by (simp_all add: machine_inv_def)
  from kfree_back [OF this] obtain h2 where h2: "kfree ?m (block_addr p) = Inr (?m\<lparr>kernel_heap := h2\<rparr>)"
    "machine_inv (?m\<lparr>kernel_heap := h2\<rparr>) A" by blast
  have "file_get_descriptor m (int slot + 1) = file_descriptors m ! slot"
    using slot by (simp add: file_get_descriptor_def config)
  then have "fclose (fat16_fs img) m (int slot + 1) = Inr (0, ?m\<lparr>kernel_heap := h2\<rparr>)"
    using h(1) h2(1) by (simp add: fclose_def desc desc_ops_def fat16_fs_def file_free_descriptor_def config)
  with h2(2) show ?thesis by (intro exI [of _ "?m\<lparr>kernel_heap := h2\<rparr>"]) simp
qed

section \<open>A mounted disk\<close>

text \<open>The demonstration disk of the driver, mounted, with a given table of descriptors.\<close>

definition demo_vfs :: "fat_state \<Rightarrow> FAT_FileDescriptor FileDescriptor option list \<Rightarrow> FAT_FileDescriptor vfs_state" where
  "demo_vfs m tab = fat_state.extend (m\<lparr>disk := (disk m)\<lparr>filesystem := Some fat16_init\<rparr>\<rparr>)
     \<lparr>filesystems = Some fat16_init # replicate 11 None, file_descriptors = tab\<rparr>"

lemma demo_vfs_fields:
  "file_descriptors (demo_vfs m tab) = tab" "fat_private (demo_vfs m tab) = fat_private m"
  "machine_inv (demo_vfs m tab) A = machine_inv m A" "fat_ready (demo_vfs m tab) = fat_ready m"
  "filesystem (disk (demo_vfs m tab)) = Some fat16_init"
  by (simp_all add: demo_vfs_def fat_state.extend_def machine_inv_def fat_ready_def)

text \<open>The path \<^verbatim>\<open>0:/hello.txt\<close>.\<close>

definition demo_file_path :: "u8 list" where
  "demo_file_path = [48, 58, 47, 104, 101, 108, 108, 111, 46, 116, 120, 116, 0]"

lemma demo_openable:
  assumes "first_free tab = Some slot"
  shows "\<exists>m. openable (demo_vfs m tab) Map.empty demo_file_path 0 slot \<and> fat_private (demo_vfs m tab) = demo_private"
proof -
  obtain m :: fat_state where m: "machine_inv m Map.empty" "fat_ready m" "fat_private m = demo_private"
    using demo_mounted by blast
  have c: "cstr demo_name = [104, 101, 108, 108, 111, 46, 116, 120, 116]" by (simp add: demo_name_def cstr_def)
  have "path_parts (drop 3 (cstr demo_file_path)) = [cstr demo_name]"
    unfolding c by (simp add: demo_file_path_def path_parts.simps slash_def)
  moreover have "terminated demo_file_path" "valid_path (cstr demo_file_path)" "demo_file_path ! 0 = 0x30"
    by (simp_all add: demo_file_path_def valid_path_def is_digit_def slash_def config terminated_def)
  ultimately have "openable (demo_vfs m tab) Map.empty demo_file_path 0 slot"
    using m assms demo_unique demo_room [of 7] unfolding openable_def demo_vfs_fields by auto
  with m(3) show ?thesis by (auto simp: demo_vfs_fields)
qed

section \<open>Properties\<close>


text \<open>
  Opening a file of the root directory by its path for reading returns the number of the first free slot; the
  descriptor there is the driver's for that entry at position 0, every other slot is unchanged.
\<close>

theorem fopen_file:
  fixes m :: "(FAT_FileDescriptor, 'a) vfs_state_scheme"
  assumes "openable m A path k slot"
  shows "\<exists>d fd m'. fopen (fat16_fs img) m path [0x72, 0] = Inr (int slot + 1, m') \<and>
    file_descriptors m' = (file_descriptors m)[slot := Some d] \<and> index d = int slot + 1 \<and>
    fd_filesystem d = Some fat16_init \<and> private_data d = Some fd \<and> desc_pos fd = 0 \<and>
    (\<exists>a b. desc_item fd = FileItem a (Some (b, item (root_directory (fat_private m)) ! k)))"
  using fopen_file_ok [OF assms, of img] by fastforce

text \<open>
  C36: Opening a file by its path and closing it again restores the table of descriptors, but not the heap: three different
  blocks that were free before stay allocated, one each, those of the parsed path.
\<close>

theorem fopen_fclose_roundtrip:
  fixes m :: "(FAT_FileDescriptor, 'a) vfs_state_scheme"
  assumes op: "openable m A path k slot" and slot: "slot < 511" and len: "vfs_inv m"
  shows "\<exists>m' m'' ts. fopen (fat16_fs img) m path [0x72, 0] = Inr (int slot + 1, m') \<and>
    fclose (fat16_fs img) m' (int slot + 1) = Inr (0, m'') \<and> file_descriptors m'' = file_descriptors m \<and>
    length ts = 3 \<and> distinct ts \<and> (\<forall>t\<in>set ts. A t = None) \<and> machine_inv m'' (add_pages A ts) \<and>
    card (kh.used (add_pages A ts)) = card (kh.used A) + 3"
proof -
  have inv: "machine_inv m A" using op by (simp add: openable_def)
  from fopen_file_ok [OF op] obtain c a b p ts m' where
    o: "fopen (fat16_fs img) m path [0x72, 0] = Inr (int slot + 1, m')"
      "file_descriptors m' = (file_descriptors m)[slot := Some \<lparr>fdesc_addr = block_addr p, index = int slot + 1,
      fd_filesystem = Some fat16_init, private_data = Some \<lparr>desc_addr = block_addr c, desc_item = FileItem (block_addr a)
        (Some (block_addr b, item (root_directory (fat_private m)) ! k)), desc_pos = 0\<rparr>, fd_disk = TheDisk\<rparr>]"
      "length ts = 3" "machine_inv m' ((add_pages A ts)(c \<mapsto> 1, a \<mapsto> 1, b \<mapsto> 1, p \<mapsto> 1))" "distinct [c, a, b, p]"
      "\<forall>t\<in>{c, a, b, p}. add_pages A ts t = None" "\<forall>t\<in>set ts. A t = None" "distinct ts" by blast
  have s: "slot < length (file_descriptors m)" "file_descriptors m ! slot = None"
    using op first_free_Some by (auto simp: openable_def)
  with o(2) have "file_descriptors m' ! slot = Some \<lparr>fdesc_addr = block_addr p, index = int slot + 1,
      fd_filesystem = Some fat16_init, private_data = Some \<lparr>desc_addr = block_addr c, desc_item = FileItem (block_addr a)
        (Some (block_addr b, item (root_directory (fat_private m)) ! k)), desc_pos = 0\<rparr>, fd_disk = TheDisk\<rparr>" by simp
  from fclose_file_ok [OF o(4-6) _ _ this, of img] o(2) s(1) slot obtain m'' where
    "fclose (fat16_fs img) m' (int slot + 1) = Inr (0, m'')" "machine_inv m'' (add_pages A ts)"
    "file_descriptors m'' = (file_descriptors m)[slot := None]" by auto
  moreover have "(file_descriptors m)[slot := None] = file_descriptors m" using s list_update_id by metis
  moreover have "card (kh.used (add_pages A ts)) = card (kh.used A) + 3"
    using card_new_pages [OF inv calculation(2) o(7,8)] o(3) by simp
  ultimately show ?thesis using o(1,3,7,8) by metis
qed


theorem fopen_file_witness:
  "\<exists>m m' d fd. fopen (fat16_fs demo_img) (m :: FAT_FileDescriptor vfs_state) demo_file_path [0x72, 0] = Inr (1, m') \<and>
     file_descriptors m' ! 0 = Some d \<and> private_data d = Some fd \<and> desc_pos fd = 0"
proof -
  obtain m where m: "openable (demo_vfs m (replicate 512 None)) Map.empty demo_file_path 0 0"
    and t: "file_descriptors (demo_vfs m (replicate 512 None)) = replicate 512 None"
    using demo_openable [of "replicate 512 None" 0] demo_vfs_fields(1) by (auto simp: numeral_eq_Suc)
  from fopen_file [OF m, of demo_img] obtain d fd m' where
    "fopen (fat16_fs demo_img) (demo_vfs m (replicate 512 None)) demo_file_path [0x72, 0] = Inr (int 0 + 1, m')"
    "file_descriptors m' = (replicate 512 None)[0 := Some d]" "private_data d = Some fd" "desc_pos fd = 0"
    unfolding t by blast
  then show ?thesis
    by (intro exI [of _ "demo_vfs m (replicate 512 None)"] exI [of _ m'] exI [of _ d] exI [of _ fd]) simp
qed

theorem fopen_fclose_roundtrip_witness:
  "\<exists>m m' m'' ts. fopen (fat16_fs demo_img) (m :: FAT_FileDescriptor vfs_state) demo_file_path [0x72, 0] = Inr (1, m') \<and>
     fclose (fat16_fs demo_img) m' 1 = Inr (0, m'') \<and> length ts = 3 \<and> machine_inv m'' (add_pages Map.empty ts)"
proof -
  obtain m where m: "openable (demo_vfs m (replicate 512 None)) Map.empty demo_file_path 0 0"
    using demo_openable [of "replicate 512 None" 0] by (auto simp: numeral_eq_Suc)
  have "vfs_inv (demo_vfs m (replicate 512 None))" by (auto simp: vfs_inv_def demo_vfs_fields config)
  from fopen_fclose_roundtrip [OF m _ this, of demo_img] show ?thesis by fastforce
qed

text \<open>
  C12: Opening a file by its path and reading it through its descriptor number gives the file's first bytes, the data of the clusters
  on the path of its FAT entries, and the number of members; the tables are unchanged. Beyond the first cluster this needs that the
  driver, which looks for the entry of a cluster in the wrong place, comes upon the right entries there.
\<close>

theorem fopen_fread:
  fixes m :: "(FAT_FileDescriptor, 'a) vfs_state_scheme"
  assumes op: "openable m A path k slot" and slot: "slot < 511" and ready: "fat_ready m"
    and chain: "fat_path img (header (fat_private m)) (sint (fat16_get_first_cluster (item (root_directory (fat_private m)) ! k))) cs"
    and found: "\<forall>j. Suc j * cluster_bytes (fat_private m) < n \<longrightarrow> lookup_right img (header (fat_private m)) (cs ! j)"
    and ok: "\<forall>c\<in>set cs. cluster_ok (fat_private m) c"
    and len: "0 < n" "n \<le> length cs * cluster_bytes (fat_private m)" "length cs * cluster_bytes (fat_private m) < 2 ^ 31"
  shows "\<exists>m' m''. fopen (fat16_fs img) m path [0x72, 0] = Inr (int slot + 1, m') \<and>
    fread (fat16_fs img) m' (of_nat n) 1 (int slot + 1) =
      Inr (1, take n (concat (map (cluster_data img (fat_private m)) cs)), m'') \<and>
    file_descriptors m'' = file_descriptors m'"
proof -
  from fopen_file_ok [OF op, of img] obtain d fd a b m' where
    o: "fopen (fat16_fs img) m path [0x72, 0] = Inr (int slot + 1, m')"
      "file_descriptors m' = (file_descriptors m)[slot := Some d]" "fd_filesystem d = Some fat16_init"
      "private_data d = Some fd" "desc_pos fd = 0" "desc_item fd = FileItem a (Some (b, item (root_directory (fat_private m)) ! k))"
      "fat_private m' = fat_private m" "disk m' = disk m" by fastforce
  have s: "slot < length (file_descriptors m)" using op first_free_Some by (auto simp: openable_def)
  have "fat_ready m'" using ready o(7,8) by (simp add: fat_ready_def)
  from fat16_read_file_ok [OF this, unfolded o(7), OF chain found ok len o(6,5)] obtain m'' where
    r: "fat16_read img m' fd (of_nat n) 1 = Inr (1, take n (concat (map (cluster_data img (fat_private m)) cs)), m'')" by blast
  have g: "file_get_descriptor m' (int slot + 1) = Some d"
    using s slot o(2) by (simp add: file_get_descriptor_def config)
  have "unat (of_nat n :: u32) = n" using len(2,3) by (intro unat_of_nat_u32) simp
  then have "(of_nat n :: u32) \<noteq> 0" using len(1) by auto
  then have "fread (fat16_fs img) m' (of_nat n) 1 (int slot + 1) =
      Inr (1, take n (concat (map (cluster_data img (fat_private m)) cs)), m'')"
    using r o(3,4) g by (simp add: fread_def desc_ops_def fat16_fs_def)
  moreover have "file_descriptors m'' = file_descriptors m'" using above_tables [OF read_above [OF r]] by simp
  ultimately show ?thesis using o(1) by blast
qed

theorem fopen_fread_witness:
  "\<exists>m m' m''. fopen (fat16_fs two_clusters) (m :: FAT_FileDescriptor vfs_state) demo_file_path [0x72, 0] = Inr (1, m') \<and>
     fread (fat16_fs two_clusters) m' 514 1 1 = Inr (1, bytes_at demo_img 1536 512 @ [3, 0], m'')"
proof -
  let ?tab = "replicate 512 None"
  obtain m where m: "openable (demo_vfs m ?tab) Map.empty demo_file_path 0 0" "fat_private (demo_vfs m ?tab) = demo_private"
    using demo_openable [of ?tab 0] by (auto simp: numeral_eq_Suc)
  then have r: "fat_ready (demo_vfs m ?tab)" by (simp add: openable_def)
  have found: "\<forall>j. Suc j * cluster_bytes demo_private < 514 \<longrightarrow> lookup_right two_clusters (header demo_private) ([2, 3] ! j)"
  proof (intro allI impI)
    fix j assume "Suc j * cluster_bytes demo_private < 514"
    then have "j = 0" by (cases j) (simp_all add: demo_cluster)
    then show "lookup_right two_clusters (header demo_private) ([2, 3] ! j)" by (simp add: two_clusters_path)
  qed
  have ok: "\<forall>c\<in>set [2, 3]. cluster_ok demo_private c" using two_clusters_path(3) demo_cluster(3) by simp
  from fopen_fread [OF m(1) _ r, unfolded m(2), OF _ _ found ok] two_clusters_path(1,4) demo_cluster(1)
  show ?thesis unfolding demo_items(1) by fastforce
qed

text \<open>
  The table has a slot its numbers cannot reach: when only the last of the 512 slots is free, a successful
  \<^verbatim>\<open>fopen\<close> returns 512, a number that \<^verbatim>\<open>fclose\<close>, \<^verbatim>\<open>fseek\<close>, \<^verbatim>\<open>fread\<close> and \<^verbatim>\<open>fstat\<close> all refuse; the slot is never freed.
\<close>

theorem fopen_last_slot:
  fixes m :: "(FAT_FileDescriptor, 'a) vfs_state_scheme"
  assumes "fopen (fat16_fs img) m path md = Inr (fd, m')" and "0 < fd" and "first_free (file_descriptors m) = Some 511"
  shows "fd = 512 \<and> fclose (fat16_fs img) m' fd = Inr (- EIO, m') \<and>
    fseek (fat16_fs img) m' fd offset whence = Inr (- EIO, m') \<and>
    fread (fat16_fs img) m' sz nmemb fd = Inr (- EINVARG, [], m') \<and>
    fstat (fat16_fs img) m' fd st = Inr (- EIO, st)"
proof -
  have "fd = 512" using vf.fopen_slot [OF assms(1)] assms(2,3) by auto
  moreover have "file_get_descriptor m' 512 = None" by (simp add: file_get_descriptor_def config)
  ultimately show ?thesis by (simp add: fclose_def fseek_def fread_def fstat_def)
qed

theorem fopen_last_slot_witness:
  "\<exists>m m'. fopen (fat16_fs demo_img) (m :: FAT_FileDescriptor vfs_state) demo_file_path [0x72, 0] = Inr (512, m') \<and>
     fclose (fat16_fs demo_img) m' 512 = Inr (- EIO, m')"
proof -
  let ?d = "\<lparr>fdesc_addr = 0, index = 0, fd_filesystem = None, private_data = None, fd_disk = NullDisk\<rparr>"
  let ?tab = "replicate 511 (Some ?d) @ [None]"
  have "first_free (replicate n (Some ?d) @ [None]) = Some n" for n by (induction n) auto
  then have ff: "first_free ?tab = Some 511" by blast
  then obtain m where m: "openable (demo_vfs m ?tab) Map.empty demo_file_path 0 511" using demo_openable by blast
  from fopen_file_ok [OF m, of demo_img] obtain m' where
    o: "fopen (fat16_fs demo_img) (demo_vfs m ?tab) demo_file_path [0x72, 0] = Inr (512, m')" by auto
  have "first_free (file_descriptors (demo_vfs m ?tab)) = Some 511" using ff by (simp add: demo_vfs_fields)
  then have "fclose (fat16_fs demo_img) m' 512 = Inr (- EIO, m')" using fopen_last_slot [OF o] by simp
  with o show ?thesis by blast
qed

end
