(* ===== verification/ElfLoader.thy ===== *)
theory ElfLoader
  imports VFile
begin

text \<open>
  The ELF loader (\<^verbatim>\<open>loader/format/elfloader.c\<close>, \<^verbatim>\<open>loader/format/elf.h\<close>): a file is read into a block of the kernel heap,
  its header is checked and its program headers give the bounds of the image. The headers are decoded from
  physical memory, where they lie; a \<^verbatim>\<open>struct Elf_file\<close> is kept beside its address.
\<close>

section \<open>Headers\<close>

definition PF_W :: u32 where "PF_W = 0x02"
definition PT_LOAD :: u32 where "PT_LOAD = 1"
definition ET_EXEC :: u16 where "ET_EXEC = 2"
definition EI_CLASS :: nat where "EI_CLASS = 4"
definition EI_DATA :: nat where "EI_DATA = 5"
definition ELFCLASSNONE :: u8 where "ELFCLASSNONE = 0"
definition ELFCLASS32 :: u8 where "ELFCLASS32 = 1"
definition ELFDATANONE :: u8 where "ELFDATANONE = 0"
definition ELFDATA2LSB :: u8 where "ELFDATA2LSB = 1"

lemmas elf_consts = PF_W_def PT_LOAD_def ET_EXEC_def EI_CLASS_def EI_DATA_def ELFCLASSNONE_def ELFCLASS32_def
  ELFDATANONE_def ELFDATA2LSB_def

record Elf32_phdr =
  p_type :: u32
  p_offset :: u32
  p_vaddr :: u32
  p_paddr :: u32
  p_filesz :: u32
  p_memsz :: u32
  p_flags :: u32
  p_align :: u32

record Elf32_shdr =
  sh_name :: u32
  sh_type :: u32
  sh_flags :: u32
  sh_addr :: u32
  sh_offset :: u32
  sh_size :: u32
  sh_link :: u32
  sh_info :: u32
  sh_addralign :: u32
  sh_entsize :: u32

record Elf_header =
  e_ident :: "u8 list"
  e_type :: u16
  e_machine :: u16
  e_version :: u32
  e_entry :: u32
  e_phoff :: u32
  e_shoff :: u32
  e_flags :: u32
  e_ehsize :: u16
  e_phentsize :: u16
  e_phnum :: u16
  e_shentsize :: u16
  e_shnum :: u16
  e_shstrndx :: u16

text \<open>The packed structures at an address of memory; a signed offset is its two's complement word.\<close>

definition Elf32_phdr_at :: "(u32 \<Rightarrow> u8) \<Rightarrow> u32 \<Rightarrow> Elf32_phdr" where
  "Elf32_phdr_at m a = \<lparr>p_type = load32 m a, p_offset = load32 m (a + 4), p_vaddr = load32 m (a + 8),
     p_paddr = load32 m (a + 12), p_filesz = load32 m (a + 16), p_memsz = load32 m (a + 20),
     p_flags = load32 m (a + 24), p_align = load32 m (a + 28)\<rparr>"

definition Elf32_shdr_at :: "(u32 \<Rightarrow> u8) \<Rightarrow> u32 \<Rightarrow> Elf32_shdr" where
  "Elf32_shdr_at m a = \<lparr>sh_name = load32 m a, sh_type = load32 m (a + 4), sh_flags = load32 m (a + 8),
     sh_addr = load32 m (a + 12), sh_offset = load32 m (a + 16), sh_size = load32 m (a + 20),
     sh_link = load32 m (a + 24), sh_info = load32 m (a + 28), sh_addralign = load32 m (a + 32),
     sh_entsize = load32 m (a + 36)\<rparr>"

definition Elf_header_at :: "(u32 \<Rightarrow> u8) \<Rightarrow> u32 \<Rightarrow> Elf_header" where
  "Elf_header_at m a = \<lparr>e_ident = mem_bytes m a 16, e_type = load16 m (a + 16), e_machine = load16 m (a + 18),
     e_version = load32 m (a + 20), e_entry = load32 m (a + 24), e_phoff = load32 m (a + 28),
     e_shoff = load32 m (a + 32), e_flags = load32 m (a + 36), e_ehsize = load16 m (a + 40),
     e_phentsize = load16 m (a + 42), e_phnum = load16 m (a + 44), e_shentsize = load16 m (a + 46),
     e_shnum = load16 m (a + 48), e_shstrndx = load16 m (a + 50)\<rparr>"

record Elf_file =
  elf_addr :: u32
  elf_filename :: "u8 list"
  in_memory_size :: int
  elf_mem :: u32
  virtual_base_address :: u32
  virtual_end_address :: u32
  physical_base_address :: u32
  physical_end_address :: u32

section \<open>Accessors\<close>

text \<open>A pointer to a header is its address; a function that reads through it takes the memory.\<close>

definition elf_memory :: "Elf_file \<Rightarrow> u32" where
  "elf_memory file = elf_mem file"

definition elf_header :: "Elf_file \<Rightarrow> u32" where
  "elf_header file = elf_mem file"

definition elf_sheader :: "(u32 \<Rightarrow> u8) \<Rightarrow> u32 \<Rightarrow> u32" where
  "elf_sheader m hdr = hdr + e_shoff (Elf_header_at m hdr)"

definition elf_pheader :: "(u32 \<Rightarrow> u8) \<Rightarrow> u32 \<Rightarrow> u32" where
  "elf_pheader m hdr =
     (if e_phoff (Elf_header_at m hdr) = 0 then 0 else hdr + e_phoff (Elf_header_at m hdr))"

definition elf_section :: "(u32 \<Rightarrow> u8) \<Rightarrow> u32 \<Rightarrow> int \<Rightarrow> u32" where
  "elf_section m hdr idx = elf_sheader m hdr + word_of_int (40 * idx)"

definition elf_program_header :: "(u32 \<Rightarrow> u8) \<Rightarrow> u32 \<Rightarrow> int \<Rightarrow> u32" where
  "elf_program_header m hdr idx = elf_pheader m hdr + word_of_int (32 * idx)"

definition elf_phdr_phys_address :: "Elf_file \<Rightarrow> Elf32_phdr \<Rightarrow> u32" where
  "elf_phdr_phys_address file phdr = elf_memory file + p_offset phdr"

definition elf_str_table :: "(u32 \<Rightarrow> u8) \<Rightarrow> u32 \<Rightarrow> u32" where
  "elf_str_table m hdr =
     hdr + sh_offset (Elf32_shdr_at m (elf_section m hdr (uint (e_shstrndx (Elf_header_at m hdr)))))"

definition elf_virtual_base :: "Elf_file \<Rightarrow> u32" where "elf_virtual_base file = virtual_base_address file"
definition elf_virtual_end :: "Elf_file \<Rightarrow> u32" where "elf_virtual_end file = virtual_end_address file"
definition elf_phys_base :: "Elf_file \<Rightarrow> u32" where "elf_phys_base file = physical_base_address file"
definition elf_phys_end :: "Elf_file \<Rightarrow> u32" where "elf_phys_end file = physical_end_address file"
definition elf_get_entry :: "Elf_header \<Rightarrow> u32" where "elf_get_entry hdr = e_entry hdr"

section \<open>Validation\<close>

definition elf_signature :: "u8 list" where "elf_signature = [0x7f, 0x45, 0x4C, 0x46]"

definition elf_valid_signature :: "(u32 \<Rightarrow> u8) \<Rightarrow> u32 \<Rightarrow> fault + bool" where
  "elf_valid_signature m buffer =
     bindE (memcmp (mem_bytes m buffer 4) elf_signature 4) (\<lambda>r. Inr (r = 0))"

definition elf_valid_class :: "Elf_header \<Rightarrow> bool" where
  "elf_valid_class hdr \<longleftrightarrow> e_ident hdr ! EI_CLASS = ELFCLASSNONE \<or> e_ident hdr ! EI_CLASS = ELFCLASS32"

definition elf_valid_encoding :: "Elf_header \<Rightarrow> bool" where
  "elf_valid_encoding hdr \<longleftrightarrow> e_ident hdr ! EI_DATA = ELFDATANONE \<or> e_ident hdr ! EI_DATA = ELFDATA2LSB"

text \<open>Not called by the loader.\<close>

definition elf_is_executable :: "Elf_header \<Rightarrow> bool" where
  "elf_is_executable hdr \<longleftrightarrow> e_type hdr = ET_EXEC \<and> BIMBLEOS_PROGRAM_VIRTUAL_ADDRESS \<le> e_entry hdr"

definition elf_has_program_header :: "Elf_header \<Rightarrow> bool" where
  "elf_has_program_header hdr \<longleftrightarrow> e_phoff hdr \<noteq> 0"

definition elf_validate_loaded :: "(u32 \<Rightarrow> u8) \<Rightarrow> u32 \<Rightarrow> fault + int" where
  "elf_validate_loaded m hdr =
     bindE (elf_valid_signature m hdr) (\<lambda>signature_ok.
       Inr (if signature_ok \<and> elf_valid_class (Elf_header_at m hdr) \<and> elf_valid_encoding (Elf_header_at m hdr)
              \<and> elf_has_program_header (Elf_header_at m hdr) then BIMBLEOS_ALL_OK else - EINFORMAT))"

section \<open>Program headers\<close>

definition elf_process_phdr_pt_load :: "Elf_file \<Rightarrow> Elf32_phdr \<Rightarrow> int \<times> Elf_file" where
  "elf_process_phdr_pt_load elf_file phdr =
     (let elf1 = (if p_vaddr phdr \<le> virtual_base_address elf_file \<or> virtual_base_address elf_file = 0
                  then elf_file\<lparr>virtual_base_address := p_vaddr phdr,
                         physical_base_address := elf_memory elf_file + p_offset phdr\<rparr>
                  else elf_file);
          end_virtual_address = p_vaddr phdr + p_filesz phdr
      in (0, if virtual_end_address elf1 \<le> end_virtual_address \<or> virtual_end_address elf1 = 0
             then elf1\<lparr>virtual_end_address := end_virtual_address,
                    physical_end_address := elf_memory elf1 + p_offset phdr + p_filesz phdr\<rparr>
             else elf1))"

definition elf_process_pheader :: "Elf_file \<Rightarrow> Elf32_phdr \<Rightarrow> int \<times> Elf_file" where
  "elf_process_pheader elf_file phdr =
     (if p_type phdr = PT_LOAD then elf_process_phdr_pt_load elf_file phdr else (0, elf_file))"

text \<open>The loop over the headers \<open>i, \<dots>, n - 1\<close>.\<close>

function elf_pheaders_loop :: "(u32 \<Rightarrow> u8) \<Rightarrow> Elf_file \<Rightarrow> int \<Rightarrow> int \<Rightarrow> int \<Rightarrow> int \<times> Elf_file" where
  "elf_pheaders_loop m elf_file i n res =
     (if i < n then
        (let phdr = Elf32_phdr_at m (elf_program_header m (elf_header elf_file) i);
             (res', elf') = elf_process_pheader elf_file phdr
         in if res' < 0 then (res', elf') else elf_pheaders_loop m elf' (i + 1) n res')
      else (res, elf_file))"
  by pat_completeness auto
termination
  by (relation "measure (\<lambda>(m, f, i, n, r). nat (n - i))") auto

declare elf_pheaders_loop.simps [simp del]

definition elf_process_pheaders :: "(u32 \<Rightarrow> u8) \<Rightarrow> Elf_file \<Rightarrow> int \<times> Elf_file" where
  "elf_process_pheaders m elf_file =
     elf_pheaders_loop m elf_file 0 (uint (e_phnum (Elf_header_at m (elf_header elf_file)))) 0"

definition elf_process_loaded :: "(u32 \<Rightarrow> u8) \<Rightarrow> Elf_file \<Rightarrow> fault + (int \<times> Elf_file)" where
  "elf_process_loaded m elf_file =
     bindE (elf_validate_loaded m (elf_header elf_file)) (\<lambda>res.
       if res < 0 then Inr (res, elf_file) else Inr (elf_process_pheaders m elf_file))"

section \<open>Loading and closing\<close>

text \<open>A write of bytes through a pointer: nothing to write needs no object.\<close>

definition put_bytes :: "'a machine_scheme \<Rightarrow> u32 \<Rightarrow> u8 list \<Rightarrow> fault + 'a machine_scheme" where
  "put_bytes m ptr bs = (if bs = [] then Inr m else if ptr = 0 then Inl NullPointer
     else Inr (m\<lparr>mem := store_bytes (mem m) ptr bs\<rparr>))"

text \<open>From the open descriptor to the label \<^verbatim>\<open>out\<close>.\<close>

definition elf_load_file ::
  "(string \<Rightarrow> (('p, 'a) vfs_state_scheme, 'p) Filesystem) \<Rightarrow> ('p, 'a) vfs_state_scheme \<Rightarrow> Elf_file \<Rightarrow> int \<Rightarrow>
     fault + (int \<times> Elf_file option \<times> ('p, 'a) vfs_state_scheme)" where
  "elf_load_file fs m elf_file fd =
     bindE (fstat fs m fd \<lparr>stat_flags = 0, stat_filesize = 0\<rparr>) (\<lambda>(res, stat).
       if res < 0 then Inr (res, None, m)
       else bindE (kzalloc m (stat_filesize stat)) (\<lambda>(ptr, m1).
         if elf_addr elf_file = 0 then Inl NullPointer
         else bindE (fread fs m1 (stat_filesize stat) 1 fd) (\<lambda>(res, bytes, m2).
           bindE (put_bytes m2 ptr bytes) (\<lambda>m3.
             if res < 0 then Inr (res, None, m3)
             else bindE (elf_process_loaded (mem m3) (elf_file\<lparr>elf_mem := ptr\<rparr>)) (\<lambda>(res, elf).
               Inr (res, if res < 0 then None else Some elf, m3))))))"

text \<open>The result and the file, when \<^verbatim>\<open>*file_out\<close> is set.\<close>

definition elf_load ::
  "(string \<Rightarrow> (('p, 'a) vfs_state_scheme, 'p) Filesystem) \<Rightarrow> ('p, 'a) vfs_state_scheme \<Rightarrow> u8 list \<Rightarrow>
     fault + (int \<times> Elf_file option \<times> ('p, 'a) vfs_state_scheme)" where
  "elf_load fs m fname =
     bindE (kzalloc m 132) (\<lambda>(p, m1).
     bindE (fopen fs m1 fname [0x72, 0]) (\<lambda>(fd, m2).
     bindE (if fd \<le> 0 then Inr (- EIO, None, m2)
            else elf_load_file fs m2 \<lparr>elf_addr = p, elf_filename = replicate 108 0, in_memory_size = 0, elf_mem = 0,
              virtual_base_address = 0, virtual_end_address = 0, physical_base_address = 0,
              physical_end_address = 0\<rparr> fd) (\<lambda>(res, file_out, m3).
     bindE (fclose fs m3 (if fd \<le> 0 then 0 else fd)) (\<lambda>(_, m4).
       Inr (res, file_out, m4)))))"

definition elf_close :: "'a machine_scheme \<Rightarrow> Elf_file option \<Rightarrow> fault + 'a machine_scheme" where
  "elf_close m file =
     (case file of None \<Rightarrow> Inr m | Some f \<Rightarrow> bindE (kfree m (elf_mem f)) (\<lambda>m1. kfree m1 (elf_addr f)))"

section \<open>Validation and bounds\<close>

lemma elf_signature_iff:
  "elf_valid_signature m h = Inr (m h = 0x7f \<and> m (h + 1) = 0x45 \<and> m (h + 2) = 0x4C \<and> m (h + 3) = 0x46)"
proof -
  have b: "mem_bytes m h 4 = [m h, m (h + 1), m (h + 2), m (h + 3)]"
    by (simp add: mem_bytes_def upt_rec numeral_eq_Suc)
  have "\<exists>r. memcmp (mem_bytes m h 4) elf_signature 4 = Inr r"
    unfolding memcmp_def using memcmp_loop_total [of 4 "mem_bytes m h 4" elf_signature] by (simp add: elf_signature_def)
  then obtain r where r: "memcmp (mem_bytes m h 4) elf_signature 4 = Inr r" by blast
  moreover have "r = 0 \<longleftrightarrow> mem_bytes m h 4 = elf_signature"
    using r memcmp_loop_0_iff [of 4 "mem_bytes m h 4" elf_signature] by (auto simp: memcmp_def elf_signature_def)
  ultimately show ?thesis by (auto simp: elf_valid_signature_def b elf_signature_def)
qed

lemma elf_ident:
  "e_ident (Elf_header_at m h) ! EI_CLASS = m (h + 4)" "e_ident (Elf_header_at m h) ! EI_DATA = m (h + 5)"
  by (simp_all add: Elf_header_at_def EI_CLASS_def EI_DATA_def)

text \<open>The program headers of a file in memory, and the loadable ones.\<close>

definition phdrs_at :: "(u32 \<Rightarrow> u8) \<Rightarrow> u32 \<Rightarrow> Elf32_phdr list" where
  "phdrs_at m h = map (\<lambda>i. Elf32_phdr_at m (elf_program_header m h (int i))) [0..<unat (e_phnum (Elf_header_at m h))]"

definition loadable :: "(u32 \<Rightarrow> u8) \<Rightarrow> u32 \<Rightarrow> Elf32_phdr list" where
  "loadable m h = filter (\<lambda>p. p_type p = PT_LOAD) (phdrs_at m h)"

lemma process_pheader_res: "fst (elf_process_pheader f p) = 0"
  by (simp add: elf_process_pheader_def elf_process_phdr_pt_load_def Let_def)

lemma process_pheader_mem [simp]: "elf_mem (snd (elf_process_pheader f p)) = elf_mem f"
  by (simp add: elf_process_pheader_def elf_process_phdr_pt_load_def Let_def)

text \<open>The loop is a fold over the headers; it cannot fail.\<close>

lemma pheaders_loop_fold:
  "elf_pheaders_loop m f (int i) (int (i + k)) 0 =
     (0, fold (\<lambda>p f. snd (elf_process_pheader f p))
           (map (\<lambda>j. Elf32_phdr_at m (elf_program_header m (elf_header f) (int j))) [i..<i + k]) f)"
proof (induction k arbitrary: i f)
  case 0
  show ?case by (simp add: elf_pheaders_loop.simps)
next
  case (Suc k)
  let ?p = "Elf32_phdr_at m (elf_program_header m (elf_header f) (int i))"
  obtain f1 where res: "elf_process_pheader f ?p = (0, f1)"
    using process_pheader_res [of f ?p] by (metis prod.collapse)
  then have h: "elf_header f1 = elf_header f" using process_pheader_mem [of f ?p] by (simp add: elf_header_def)
  have "elf_pheaders_loop m f (int i) (int (i + Suc k)) 0 = elf_pheaders_loop m f1 (int i + 1) (int (i + Suc k)) 0"
    by (subst elf_pheaders_loop.simps) (simp add: res)
  also have "int i + 1 = int (Suc i)" by simp
  also have "i + Suc k = Suc i + k" by simp
  finally have step: "elf_pheaders_loop m f (int i) (int (i + Suc k)) 0 =
      elf_pheaders_loop m f1 (int (Suc i)) (int (Suc i + k)) 0" by simp
  have u: "[i..<i + Suc k] = i # [Suc i..<Suc i + k]" by (simp add: upt_conv_Cons)
  show ?case unfolding step Suc.IH h u by (simp add: res)
qed

lemma process_pheaders_fold:
  "elf_process_pheaders m f =
     (0, fold (\<lambda>p f. snd (elf_process_phdr_pt_load f p)) (loadable m (elf_header f)) f)"
proof -
  have skip: "fold (\<lambda>p f. snd (elf_process_pheader f p)) ps g =
      fold (\<lambda>p f. snd (elf_process_phdr_pt_load f p)) (filter (\<lambda>p. p_type p = PT_LOAD) ps) g" for ps g
    by (induction ps arbitrary: g) (simp_all add: elf_process_pheader_def)
  have u: "uint (e_phnum (Elf_header_at m (elf_header f))) = int (unat (e_phnum (Elf_header_at m (elf_header f))))"
    by simp
  show ?thesis
    unfolding elf_process_pheaders_def u loadable_def phdrs_at_def
    using pheaders_loop_fold [of m f 0 "unat (e_phnum (Elf_header_at m (elf_header f)))"] by (simp add: skip del: int_nat_eq of_nat_unat)
qed

text \<open>What the two fields of each bound hold after the headers \<open>ps\<close>.\<close>

definition bounds_of :: "Elf_file \<Rightarrow> Elf32_phdr list \<Rightarrow> bool" where
  "bounds_of f ps \<longleftrightarrow>
     virtual_base_address f = Min (p_vaddr ` set ps) \<and>
     virtual_end_address f = Max ((\<lambda>p. p_vaddr p + p_filesz p) ` set ps) \<and>
     (\<exists>p\<in>set ps. p_vaddr p = virtual_base_address f \<and> physical_base_address f = elf_mem f + p_offset p) \<and>
     (\<exists>p\<in>set ps. p_vaddr p + p_filesz p = virtual_end_address f \<and>
        physical_end_address f = elf_mem f + p_offset p + p_filesz p)"

lemma pt_load_bounds:
  assumes "bounds_of f ps" and "ps \<noteq> []" and nz: "\<forall>q\<in>set ps. p_vaddr q \<noteq> 0"
  shows "bounds_of (snd (elf_process_phdr_pt_load f p)) (ps @ [p])"
proof -
  have b: "virtual_base_address f = Min (p_vaddr ` set ps)"
    and e: "virtual_end_address f = Max ((\<lambda>p. p_vaddr p + p_filesz p) ` set ps)"
    using assms(1) by (simp_all add: bounds_of_def)
  have "virtual_base_address f \<in> p_vaddr ` set ps" unfolding b using assms(2) by (intro Min_in) auto
  then have "virtual_base_address f \<noteq> 0" using nz by auto
  moreover have "p_vaddr ` set (ps @ [p]) = insert (p_vaddr p) (p_vaddr ` set ps)"
    "(\<lambda>p. p_vaddr p + p_filesz p) ` set (ps @ [p]) = insert (p_vaddr p + p_filesz p) ((\<lambda>p. p_vaddr p + p_filesz p) ` set ps)"
    by auto
  moreover have "Min (insert (p_vaddr p) (p_vaddr ` set ps)) = min (p_vaddr p) (Min (p_vaddr ` set ps))"
    "Max (insert (p_vaddr p + p_filesz p) ((\<lambda>p. p_vaddr p + p_filesz p) ` set ps)) =
      max (p_vaddr p + p_filesz p) (Max ((\<lambda>p. p_vaddr p + p_filesz p) ` set ps))"
    using assms(2) by (simp_all add: Min_insert Max_insert)
  ultimately show ?thesis
    using assms(1)
    by (auto simp: bounds_of_def elf_process_phdr_pt_load_def Let_def elf_memory_def b [symmetric] e [symmetric]
        min_def max_def not_le)
qed

lemma fold_bounds:
  assumes "ps \<noteq> []" and "\<forall>p\<in>set ps. p_vaddr p \<noteq> 0" and "virtual_base_address f = 0" and "virtual_end_address f = 0"
  shows "bounds_of (fold (\<lambda>p f. snd (elf_process_phdr_pt_load f p)) ps f) ps"
  using assms
proof (induction ps rule: rev_induct)
  case (snoc p ps)
  show ?case
  proof (cases "ps = []")
    case True
    with snoc.prems show ?thesis
      by (simp add: bounds_of_def elf_process_phdr_pt_load_def Let_def elf_memory_def)
  next
    case False
    with snoc have "bounds_of (fold (\<lambda>p f. snd (elf_process_phdr_pt_load f p)) ps f) ps" by simp
    from pt_load_bounds [OF this False] snoc.prems show ?thesis by simp
  qed
qed simp

section \<open>Allocating several blocks\<close>

lemma le_blocks_for: "n \<le> blocks_for n * 4096"
  using div_mult_mod_eq [of "n + 4095" 4096] mod_less_divisor [of 4096 "n + 4095"]
  unfolding blocks_for_def by linarith

lemma unat_block_add:
  assumes "s + k \<le> kheap_blocks" and "n \<le> k * 4096"
  shows "unat (block_addr s + of_nat n) = 16777216 + s * 4096 + n"
proof -
  have n: "n < 2 ^ 32" and s: "s \<le> kheap_blocks" and sum: "16777216 + s * 4096 + n < 2 ^ 32"
    using assms by (simp_all add: kheap_blocks_def)
  show ?thesis
    using sum by (simp add: unat_word_ariths unat_block_addr [OF s] unat_of_nat_u32 [OF n])
qed

text \<open>The bytes of a run of blocks.\<close>

lemma in_run:
  assumes le: "r + k \<le> kheap_blocks" "n \<le> k * 4096" and b: "unat (b - block_addr r) < n"
  shows "4096 + r \<le> pn b \<and> pn b < 4096 + r + k"
proof -
  have "b = block_addr r + of_nat (unat (b - block_addr r))" by simp
  then have "unat b = 16777216 + r * 4096 + unat (b - block_addr r)"
    using unat_block_add [OF le(1), of "unat (b - block_addr r)"] b le(2) by simp
  then show ?thesis using b le(2) unfolding pn_def by linarith
qed

lemma memset_run:
  assumes "r + k \<le> kheap_blocks" and "n \<le> k * 4096" and "n \<le> 2 ^ 32" and "\<not> (4096 + r \<le> pn b \<and> pn b < 4096 + r + k)"
  shows "memset_mem mm (block_addr r) c n b = mm b"
  using in_run [OF assms(1,2), of b] assms(3,4) by (auto simp: memset_mem_apply)

lemma store_run:
  assumes "r + k \<le> kheap_blocks" and "length bs \<le> k * 4096" and "length bs \<le> 2 ^ 32"
    and "\<not> (4096 + r \<le> pn b \<and> pn b < 4096 + r + k)"
  shows "store_bytes mm (block_addr r) bs b = mm b"
  using in_run [OF assms(1,2), of b] assms(3,4) by (auto simp: store_bytes_apply)

lemma mem_kept_run:
  assumes "\<forall>i s' k'. r \<le> i \<and> i < r + k \<longrightarrow> \<not> covers A s' k' i"
    and "\<forall>b. \<not> (4096 + r \<le> pn b \<and> pn b < 4096 + r + k) \<longrightarrow> mem m' b = mem m b"
  shows "mem_kept A m m'"
  unfolding mem_kept_def
proof (intro allI impI)
  fix b x assume x: "x \<in> kh.used A" "pn b = 4096 + x"
  have "\<not> (r \<le> x \<and> x < r + k)"
  proof
    assume "r \<le> x \<and> x < r + k"
    then have "\<not> covers A s' k' x" for s' k' using assms(1) by blast
    with x(1) show False by (auto simp: kh.used_def)
  qed
  then have "\<not> (4096 + r \<le> pn b \<and> pn b < 4096 + r + k)" unfolding x(2) by linarith
  then show "mem m' b = mem m b" using assms(2) by blast
qed

lemma kzalloc_run:
  assumes inv: "machine_inv m A" and sz: "0 < unat sz" "unat sz \<le> 2 ^ 32 - 4096"
    and room: "s + blocks_for (unat sz) \<le> kheap_blocks"
    and free: "\<forall>i. s \<le> i \<and> i < s + blocks_for (unat sz) \<longrightarrow> i \<notin> kh.used A"
  shows "\<exists>r m'. kzalloc m sz = Inr (block_addr r, m') \<and> heap_only m m' \<and>
    machine_inv m' (A(r \<mapsto> blocks_for (unat sz))) \<and> A r = None \<and> r + blocks_for (unat sz) \<le> kheap_blocks \<and>
    block_addr r \<noteq> 0 \<and> r \<le> s \<and>
    (\<forall>b. \<not> (4096 + r \<le> pn b \<and> pn b < 4096 + r + blocks_for (unat sz)) \<longrightarrow> mem m' b = mem m b) \<and> mem_kept A m m' \<and>
    (\<forall>i s' k'. r \<le> i \<and> i < r + blocks_for (unat sz) \<longrightarrow> \<not> covers A s' k' i)"
proof -
  from inv have h: "heap_inv (kernel_heap m) A"
    and g: "heap_geom (kernel_heap m) = (BIMBLEOS_HEAP_ADDRESS, of_nat kheap_blocks)"
    by (simp_all add: machine_inv_def)
  have le: "s + blocks_for (unat sz) \<le> unat (snd (heap_geom (kernel_heap m)))"
    using room g by (simp add: kheap_blocks_def)
  have fr: "\<not> covers A s' k' i" if "s \<le> i" "i < s + blocks_for (unat sz)" for i s' k'
    using free that by (auto simp: kh.used_def)
  from kh.alloc_room [OF h blocks_for_pos [OF sz(1)] le fr] obtain r h' where
    r: "heap_malloc_blocks (kernel_heap m) (of_nat (blocks_for (unat sz))) = Inr (block_addr r, h')" "r \<le> s"
      "heap_inv h' (A(r \<mapsto> blocks_for (unat sz)))" "heap_geom h' = heap_geom (kernel_heap m)"
      "\<forall>i s' k'. r \<le> i \<and> i < r + blocks_for (unat sz) \<longrightarrow> \<not> covers A s' k' i"
    unfolding g geom_addr_kheap by auto
  have none: "A r = None" using kh.fresh_not_live [OF h blocks_for_pos [OF sz(1)] r(5)] .
  have nz: "block_addr r \<noteq> 0" using r(2) room by (intro block_addr_nonzero) simp
  let ?m = "m\<lparr>kernel_heap := h', mem := memset_mem (mem m) (block_addr r) 0 (unat sz)\<rparr>"
  have "kzalloc m sz = Inr (block_addr r, ?m)"
    using r(1) nz by (simp add: kzalloc_def kmalloc_def heap_malloc_blocks_for [OF sz(2)])
  moreover have "machine_inv ?m (A(r \<mapsto> blocks_for (unat sz)))" using r(3,4) g by (simp add: machine_inv_def)
  moreover have frame: "\<forall>b. \<not> (4096 + r \<le> pn b \<and> pn b < 4096 + r + blocks_for (unat sz)) \<longrightarrow> mem ?m b = mem m b"
    using r(2) room sz(2) memset_run [OF _ le_blocks_for, of r "unat sz"] by simp
  moreover have "mem_kept A m ?m" by (rule mem_kept_run [OF r(5) frame])
  moreover have "heap_only m ?m" "r + blocks_for (unat sz) \<le> kheap_blocks" using r(2) room by (auto simp: heap_only_def)
  ultimately show ?thesis using none nz r(2,5) by blast
qed

text \<open>
  A heap free from block \<open>t\<close> on still has a run of \<open>n\<close> blocks when up to \<open>c\<close> single blocks have been taken anywhere,
  if there is room for \<open>c + 1\<close> such runs.
\<close>

lemma run_among:
  assumes "finite X" and "card X \<le> c"
  shows "\<exists>j\<le>c. \<forall>i. t + j * n \<le> i \<and> i < t + Suc j * n \<longrightarrow> i \<notin> X"
proof (rule ccontr)
  assume "\<not> ?thesis"
  then have "\<forall>j. \<exists>i. j \<le> c \<longrightarrow> t + j * n \<le> i \<and> i < t + Suc j * n \<and> i \<in> X" by blast
  then obtain f where f: "\<And>j. j \<le> c \<Longrightarrow> t + j * n \<le> f j \<and> f j < t + Suc j * n \<and> f j \<in> X" by metis
  have "f j < f k" if "j < k" "k \<le> c" for j k :: nat
  proof -
    have "Suc j * n \<le> k * n" using that by (intro mult_right_mono) simp_all
    then show ?thesis using f [of j] f [of k] that by linarith
  qed
  then have "inj_on f {..c}" by (metis inj_onI atMost_iff less_irrefl linorder_neqE_nat)
  moreover have "f ` {..c} \<subseteq> X" using f by auto
  ultimately have "card {..c} \<le> card X" using assms(1) by (intro card_inj_on_le) auto
  with assms(2) show False by simp
qed

section \<open>Loading a file\<close>

abbreviation fresh_elf :: "u32 \<Rightarrow> Elf_file" where
  "fresh_elf p \<equiv> \<lparr>elf_addr = p, elf_filename = replicate 108 0, in_memory_size = 0, elf_mem = 0,
     virtual_base_address = 0, virtual_end_address = 0, physical_base_address = 0, physical_end_address = 0\<rparr>"

lemma process_loaded_total: "\<exists>r f'. elf_process_loaded mm f = Inr (r, f')"
  by (auto simp: elf_process_loaded_def elf_validate_loaded_def elf_signature_iff process_pheaders_fold)

lemma used_upd_subset: "kh.used (A(r \<mapsto> 1)) \<subseteq> insert r (kh.used A)"
  by (auto simp: kh.used_def covers_def split: if_splits)

lemma used_add_pages_subset: "kh.used (add_pages A ts) \<subseteq> set ts \<union> kh.used A"
proof (induction ts)
  case (Cons t ts)
  have "add_pages A (t # ts) = (add_pages A ts)(t \<mapsto> 1)" by (auto simp: add_pages_def)
  then have "kh.used (add_pages A (t # ts)) \<subseteq> insert t (kh.used (add_pages A ts))"
    using used_upd_subset by metis
  with Cons show ?case by auto
qed (simp add: add_pages_def)

lemma used_upd4: "kh.used (A(c \<mapsto> 1, a \<mapsto> 1, b \<mapsto> 1, p \<mapsto> 1)) \<subseteq> {c, a, b, p} \<union> kh.used A"
  using used_upd_subset [of A c] used_upd_subset [of "A(c \<mapsto> 1)" a] used_upd_subset [of "A(c \<mapsto> 1, a \<mapsto> 1)" b]
    used_upd_subset [of "A(c \<mapsto> 1, a \<mapsto> 1, b \<mapsto> 1)" p] by blast

lemma heap_only_descriptors: "heap_only m m' \<Longrightarrow> file_descriptors m' = file_descriptors m"
  by (auto simp: heap_only_def)

lemma openable_heap_only:
  assumes "openable m A path k slot" and "heap_only m m'" and "machine_inv m' A'" and "card (kh.used A') + 7 \<le> kheap_blocks"
  shows "openable m' A' path k slot"
  using assms heap_only_fat [OF assms(2)] heap_only_descriptors [OF assms(2)] by (auto simp: openable_def)

text \<open>From the open descriptor on.\<close>

lemma elf_load_file_ok:
  fixes m :: "(FAT_FileDescriptor, 'a) vfs_state_scheme"
  assumes ready: "fat_ready m" and inv: "machine_inv m A" and desc: "file_get_descriptor m fd = Some d"
      "fd_filesystem d = Some n" "private_data d = Some fdesc" "desc_pos fdesc = 0" "desc_item fdesc = FileItem x (Some (y, it))"
    and fd: "1 \<le> fd" and chain: "driver_chain img (header (fat_private m)) cs" "cs \<noteq> []"
    and ok: "\<forall>c\<in>set cs. cluster_ok (fat_private m) c"
    and len: "0 < unat (filesize it)" "unat (filesize it) \<le> length cs * cluster_bytes (fat_private m)"
      "length cs * cluster_bytes (fat_private m) < 2 ^ 31"
    and first: "sint (fat16_get_first_cluster it) = hd cs"
    and room: "s + blocks_for (unat (filesize it)) \<le> kheap_blocks"
      "\<forall>i. s \<le> i \<and> i < s + blocks_for (unat (filesize it)) \<longrightarrow> i \<notin> kh.used A"
    and p: "elf_addr f = p" "p \<noteq> 0"
  shows "\<exists>q r elf m'. elf_load_file (fat16_fs img) m f fd = Inr (r, if r < 0 then None else Some elf, m') \<and>
    elf_process_loaded (mem m') (f\<lparr>elf_mem := block_addr q\<rparr>) = Inr (r, elf) \<and>
    mem_bytes (mem m') (block_addr q) (unat (filesize it)) =
      take (unat (filesize it)) (concat (map (cluster_data img (fat_private m)) cs)) \<and>
    machine_inv m' (A(q \<mapsto> blocks_for (unat (filesize it)))) \<and> A q = None \<and> file_descriptors m' = file_descriptors m \<and>
    mem_kept A m m' \<and> paging_enabled m' = paging_enabled m"
proof -
  let ?n = "unat (filesize it)" and ?data = "take (unat (filesize it)) (concat (map (cluster_data img (fat_private m)) cs))"
  have "?n \<le> 2 ^ 32 - 4096" using len(2,3) by simp
  from kzalloc_run [OF inv len(1) this room] obtain q m1 where
    q: "kzalloc m (filesize it) = Inr (block_addr q, m1)" "heap_only m m1" "machine_inv m1 (A(q \<mapsto> blocks_for ?n))"
      "A q = None" "block_addr q \<noteq> 0" "q + blocks_for ?n \<le> kheap_blocks" "mem_kept A m m1"
      "\<forall>i s' k'. q \<le> i \<and> i < q + blocks_for ?n \<longrightarrow> \<not> covers A s' k' i" by blast
  note h1 = heap_only_fat [OF q(2)] and d1 = heap_only_descriptors [OF q(2)]
  from fat16_read_chain_ok [of m1 img cs ?n fdesc x y it] ready chain ok len first desc h1 obtain m2 where
    r: "fat16_read img m1 fdesc (filesize it) 1 = Inr (1, ?data, m2)" "streams_only m1 m2" by auto
  have d2: "file_descriptors m2 = file_descriptors m" using above_tables [OF read_above [OF r(1)]] d1 by simp
  have g: "file_get_descriptor m1 fd = Some d" using desc(1) d1 by (auto simp: file_get_descriptor_def)
  have "filesize it \<noteq> 0" using len(1) by auto
  then have rd: "fread (fat16_fs img) m1 (filesize it) 1 fd = Inr (1, ?data, m2)"
    using r(1) g desc(2,3) fd by (simp add: fread_def desc_ops_def fat16_fs_def)
  have "length (concat (map (cluster_data img (fat_private m)) cs)) = length cs * cluster_bytes (fat_private m)"
    by (induction cs) (simp_all add: cluster_data_def)
  then have l: "length ?data = ?n" using len(2) by simp
  then have ne: "?data \<noteq> []" using len(1) by (metis length_greater_0_conv)
  let ?m = "m2\<lparr>mem := store_bytes (mem m2) (block_addr q) ?data\<rparr>"
  have put: "put_bytes m2 (block_addr q) ?data = Inr ?m" using ne q(5) by (simp only: put_bytes_def if_False)
  obtain res elf where pl: "elf_process_loaded (mem ?m) (f\<lparr>elf_mem := block_addr q\<rparr>) = Inr (res, elf)"
    using process_loaded_total by blast
  have st: "fstat (fat16_fs img) m fd st = Inr (0, \<lparr>stat_flags = (if attribute it AND FAT_FILE_READ_ONLY \<noteq> 0
      then FILE_STAT_READ_ONLY else 0), stat_filesize = filesize it\<rparr>)" for st
    using desc by (simp add: fstat_def desc_ops_def fat16_fs_def fat16_stat_def)
  have "elf_load_file (fat16_fs img) m f fd = Inr (res, if res < 0 then None else Some elf, ?m)"
    using p pl rd q(1) put by (simp add: elf_load_file_def st)
  moreover have "mem_bytes (mem ?m) (block_addr q) ?n = ?data"
    using mem_bytes_store [of ?data "mem m2" "block_addr q"] l len(2,3) by simp
  moreover have "machine_inv ?m (A(q \<mapsto> blocks_for ?n))"
    using q(3) r(2) by (auto simp: machine_inv_def streams_only_def)
  moreover have "mem_kept A m ?m"
  proof (rule mem_kept_trans [OF q(7) _ map_le_refl], rule mem_kept_run [OF q(8)])
    have "mem m2 = mem m1" using r(2) by (auto simp: streams_only_def)
    then show "\<forall>b. \<not> (4096 + q \<le> pn b \<and> pn b < 4096 + q + blocks_for ?n) \<longrightarrow> mem ?m b = mem m1 b"
      using store_run [OF q(6), of ?data] l le_blocks_for [of ?n] len(2,3) by simp
  qed
  moreover have "paging_enabled ?m = paging_enabled m" using h1(4) streams_only_simps(8) [OF r(2)] by simp
  ultimately show ?thesis using pl q(4) d2
    by (intro exI [of _ q] exI [of _ res] exI [of _ elf] exI [of _ ?m]) simp
qed

definition root_entry :: "'a fat_state_scheme \<Rightarrow> nat \<Rightarrow> FAT_DirectoryItem" where
  "root_entry m k = item (root_directory (fat_private m)) ! k"

lemma elf_load_ok:
  fixes m :: "(FAT_FileDescriptor, 'a) vfs_state_scheme"
  assumes op: "openable m A path k slot" and slot: "slot < 511"
    and chain: "driver_chain img (header (fat_private m)) cs" "cs \<noteq> []" and ok: "\<forall>c\<in>set cs. cluster_ok (fat_private m) c"
    and len: "0 < unat (filesize (root_entry m k))" "unat (filesize (root_entry m k)) \<le> length cs * cluster_bytes (fat_private m)"
      "length cs * cluster_bytes (fat_private m) < 2 ^ 31"
    and first: "sint (fat16_get_first_cluster (root_entry m k)) = hd cs"
    and top: "kh.used A \<subseteq> {..<t}" "t + 9 * blocks_for (unat (filesize (root_entry m k))) \<le> kheap_blocks"
  shows "\<exists>e q ts r elf m'. elf_load (fat16_fs img) m path = Inr (r, if r < 0 then None else Some elf, m') \<and>
    elf_process_loaded (mem m') ((fresh_elf (block_addr e))\<lparr>elf_mem := block_addr q\<rparr>) = Inr (r, elf) \<and>
    mem_bytes (mem m') (block_addr q) (unat (filesize (root_entry m k))) =
      take (unat (filesize (root_entry m k))) (concat (map (cluster_data img (fat_private m)) cs)) \<and>
    file_descriptors m' = file_descriptors m \<and> length ts = 3 \<and> A e = None \<and> e < kheap_blocks \<and>
    add_pages (A(e \<mapsto> 1)) ts q = None \<and>
    machine_inv m' ((add_pages (A(e \<mapsto> 1)) ts)(q \<mapsto> blocks_for (unat (filesize (root_entry m k))))) \<and>
    (\<forall>t\<in>set ts. (A(e \<mapsto> 1)) t = None) \<and> mem_kept A m m' \<and> paging_enabled m' = paging_enabled m"
proof -
  let ?n = "blocks_for (unat (filesize (root_entry m k)))"
  have inv: "machine_inv m A" and ready: "fat_ready m" using op by (simp_all add: openable_def)
  have n: "0 < ?n" by (rule blocks_for_pos [OF len(1)])
  have cA: "card (kh.used A) \<le> t" using card_mono [OF _ top(1)] by simp
  have "card (kh.used A) < kheap_blocks" using cA top(2) n by linarith
  from kzalloc_heap_only [OF inv _ _ this, of 132] obtain e m1 where
    e: "kzalloc m 132 = Inr (block_addr e, m1)" "heap_only m m1" "machine_inv m1 (A(e \<mapsto> 1))" "A e = None"
      "e < kheap_blocks" "kh.used (A(e \<mapsto> 1)) = insert e (kh.used A)" "mem_kept A m m1" by auto
  have "card (kh.used (A(e \<mapsto> 1))) \<le> Suc t" unfolding e(6) using cA card_insert_le_m1 [of "Suc t"] by simp
  then have "card (kh.used (A(e \<mapsto> 1))) + 7 \<le> kheap_blocks" using top(2) n by linarith
  from fopen_file_ok [OF openable_heap_only [OF op e(2,3) this], of img] obtain c a b p ts m2 where
    o: "fopen (fat16_fs img) m1 path [0x72, 0] = Inr (int slot + 1, m2)"
      "file_descriptors m2 = (file_descriptors m1)[slot := Some \<lparr>fdesc_addr = block_addr p, index = int slot + 1,
      fd_filesystem = Some fat16_init, private_data = Some \<lparr>desc_addr = block_addr c, desc_item = FileItem (block_addr a)
        (Some (block_addr b, item (root_directory (fat_private m1)) ! k)), desc_pos = 0\<rparr>, fd_disk = TheDisk\<rparr>]"
      "fat_private m2 = fat_private m1" "disk m2 = disk m1" "length ts = 3"
      "machine_inv m2 ((add_pages (A(e \<mapsto> 1)) ts)(c \<mapsto> 1, a \<mapsto> 1, b \<mapsto> 1, p \<mapsto> 1))" "distinct [c, a, b, p]"
      "\<forall>t\<in>{c, a, b, p}. add_pages (A(e \<mapsto> 1)) ts t = None" "\<forall>t\<in>set ts. (A(e \<mapsto> 1)) t = None"
      "mem_kept (A(e \<mapsto> 1)) m1 m2" "paging_enabled m2 = paging_enabled m1" by blast
  note h1 = heap_only_fat [OF e(2)] and d1 = heap_only_descriptors [OF e(2)]
  have slot_free: "slot < length (file_descriptors m)" "file_descriptors m ! slot = None"
    using op first_free_Some by (auto simp: openable_def)
  let ?d = "\<lparr>fdesc_addr = block_addr p, index = int slot + 1, fd_filesystem = Some fat16_init,
      private_data = Some \<lparr>desc_addr = block_addr c, desc_item = FileItem (block_addr a) (Some (block_addr b, root_entry m k)),
        desc_pos = 0\<rparr>, fd_disk = TheDisk\<rparr>"
  have d2: "file_descriptors m2 = (file_descriptors m)[slot := Some ?d]" using o(2) d1 h1 by (simp add: root_entry_def)
  have g: "file_get_descriptor m2 (int slot + 1) = Some ?d"
    using d2 slot_free slot by (simp add: file_get_descriptor_def config)
  have ready2: "fat_ready m2" using ready h1(3) o(3,4) by (simp add: fat_ready_def)
  let ?A2 = "(add_pages (A(e \<mapsto> 1)) ts)(c \<mapsto> 1, a \<mapsto> 1, b \<mapsto> 1, p \<mapsto> 1)" and ?X = "set ([e, c, a, b, p] @ ts)"
  have sub: "kh.used ?A2 \<subseteq> ?X \<union> {..<t}"
    using used_upd4 [of "add_pages (A(e \<mapsto> 1)) ts" c a b p] used_add_pages_subset [of "A(e \<mapsto> 1)" ts] top(1)
    unfolding e(6) by auto
  have "card ?X \<le> 8" using card_length [of "[e, c, a, b, p] @ ts"] o(5) by simp
  from run_among [OF _ this] obtain j where j: "j \<le> 8" "\<forall>i. t + j * ?n \<le> i \<and> i < t + Suc j * ?n \<longrightarrow> i \<notin> ?X" by blast
  have "Suc j * ?n \<le> 9 * ?n" using j(1) by (intro mult_right_mono) simp_all
  then have room: "t + j * ?n + ?n \<le> kheap_blocks" using top(2) unfolding mult_Suc by linarith
  have free: "\<forall>i. t + j * ?n \<le> i \<and> i < t + j * ?n + ?n \<longrightarrow> i \<notin> kh.used ?A2" using sub j(2) by fastforce
  have fp: "fat_private m2 = fat_private m" using o(3) h1 by simp
  note load = elf_load_file_ok [OF ready2 o(6) g, unfolded fp, OF _ _ _ _ _ chain ok len first room free]
  have "\<exists>q r elf m3. elf_load_file (fat16_fs img) m2 (fresh_elf (block_addr e)) (int slot + 1) =
      Inr (r, if r < 0 then None else Some elf, m3) \<and>
    elf_process_loaded (mem m3) ((fresh_elf (block_addr e))\<lparr>elf_mem := block_addr q\<rparr>) = Inr (r, elf) \<and>
    mem_bytes (mem m3) (block_addr q) (unat (filesize (root_entry m k))) =
      take (unat (filesize (root_entry m k))) (concat (map (cluster_data img (fat_private m)) cs)) \<and>
    machine_inv m3 (?A2(q \<mapsto> ?n)) \<and> ?A2 q = None \<and> file_descriptors m3 = file_descriptors m2 \<and> mem_kept ?A2 m2 m3 \<and>
    paging_enabled m3 = paging_enabled m2"
    using block_addr_nonzero [OF less_imp_le [OF e(5)]] by (intro load [where x = "block_addr a" and y = "block_addr b"
          and fdesc = "\<lparr>desc_addr = block_addr c, desc_item = FileItem (block_addr a)
            (Some (block_addr b, root_entry m k)), desc_pos = 0\<rparr>" and n = fat16_init]) (simp_all add: less_imp_le)
  then obtain q r elf m3 where
    l: "elf_load_file (fat16_fs img) m2 (fresh_elf (block_addr e)) (int slot + 1) =
        Inr (r, if r < 0 then None else Some elf, m3)"
      "elf_process_loaded (mem m3) ((fresh_elf (block_addr e))\<lparr>elf_mem := block_addr q\<rparr>) = Inr (r, elf)"
      "mem_bytes (mem m3) (block_addr q) (unat (filesize (root_entry m k))) =
        take (unat (filesize (root_entry m k))) (concat (map (cluster_data img (fat_private m)) cs))"
      "machine_inv m3 (?A2(q \<mapsto> ?n))" "?A2 q = None" "file_descriptors m3 = file_descriptors m2" "mem_kept ?A2 m2 m3"
      "paging_enabled m3 = paging_enabled m2" by blast
  let ?A0 = "(add_pages (A(e \<mapsto> 1)) ts)(q \<mapsto> ?n)"
  have q: "q \<noteq> c" "q \<noteq> a" "q \<noteq> b" "q \<noteq> p" "add_pages (A(e \<mapsto> 1)) ts q = None"
    using l(5) by (auto split: if_splits)
  then have "?A2(q \<mapsto> ?n) = ?A0(c \<mapsto> 1, a \<mapsto> 1, b \<mapsto> 1, p \<mapsto> 1)" by (auto simp: fun_upd_def)
  then have inv3: "machine_inv m3 (?A0(c \<mapsto> 1, a \<mapsto> 1, b \<mapsto> 1, p \<mapsto> 1))" using l(4) by simp
  have new: "\<forall>t\<in>{c, a, b, p}. ?A0 t = None" using o(8) q by auto
  have "file_descriptors m3 ! slot = Some ?d" "slot < length (file_descriptors m3)" "int slot < 511"
    using l(6) d2 slot_free slot by simp_all
  from fclose_file_ok [OF inv3 o(7) new this(2,3,1)] obtain m4 where
    cl: "fclose (fat16_fs img) m3 (int slot + 1) = Inr (0, m4)" "machine_inv m4 ?A0"
      "file_descriptors m4 = (file_descriptors m3)[slot := None]" "mem m4 = mem m3"
      "paging_enabled m4 = paging_enabled m3" by blast
  have "file_descriptors m4 = file_descriptors m"
    using cl(3) l(6) d2 slot_free by (metis list_update_id list_update_overwrite)
  moreover have "elf_load (fat16_fs img) m path = Inr (r, if r < 0 then None else Some elf, m4)"
    using e(1) o(1) l(1) cl(1) by (simp add: elf_load_def)
  moreover have "mem_kept (A(e \<mapsto> 1)) m1 m3"
    using o(8,9) by (intro mem_kept_trans [OF o(10) l(7)]) (fastforce simp: map_le_def add_pages_def split: if_splits)
  then have "mem_kept A m m3" using e(4) by (intro mem_kept_trans [OF e(7)]) (auto simp: map_le_def)
  then have "mem_kept A m m4" using cl(4) by (simp add: mem_kept_def)
  moreover have "paging_enabled m4 = paging_enabled m" using cl(5) l(8) o(11) h1(4) by simp
  ultimately show ?thesis using l(2,3) cl(2,4) o(5,9) e(4,5) q(5)
    by (intro exI [of _ e] exI [of _ q] exI [of _ ts] exI [of _ r] exI [of _ elf] exI [of _ m4]) simp
qed

text \<open>The records above the file layer are not touched.\<close>

lemma elf_load_more:
  fixes m :: "(FAT_FileDescriptor, 'a) vfs_state_scheme"
  assumes "elf_load (fat16_fs img) m path = Inr (r, f, m')"
  shows "vfs_state.more m' = vfs_state.more m"
proof -
  have up: "vfs_state.more s' = vfs_state.more s" if "above s' = above s" for s s' :: "(FAT_FileDescriptor, 'a) vfs_state_scheme"
    using that by (cases s; cases s') simp
  have z: "kzalloc s n = Inr (p, s') \<Longrightarrow> vfs_state.more s' = vfs_state.more s"
    for s s' :: "(FAT_FileDescriptor, 'a) vfs_state_scheme" and n p by (intro up) (rule kzalloc_above)
  have o: "fopen (fat16_fs img) s a b = Inr (x, s') \<Longrightarrow> vfs_state.more s' = vfs_state.more s"
    for s s' :: "(FAT_FileDescriptor, 'a) vfs_state_scheme" and a b x
    by (auto simp: fopen_def fopen_res_def file_new_descriptor_def fat16_fs_def split: option.splits if_splits prod.splits sum.splits
        dest!: up [OF parse_above] up [OF open_above] z)
  have rd: "fread (fat16_fs img) s a b c = Inr (x, y, s') \<Longrightarrow> vfs_state.more s' = vfs_state.more s"
    for s s' :: "(FAT_FileDescriptor, 'a) vfs_state_scheme" and a b c x y
    by (auto simp: fread_def fat16_fs_def desc_ops_def split: option.splits if_splits prod.splits dest!: up [OF read_above])
  have fr: "kfree s p = Inr s' \<Longrightarrow> vfs_state.more s' = vfs_state.more s"
    for s s' :: "(FAT_FileDescriptor, 'a) vfs_state_scheme" and p by (intro up) (rule kfree_above)
  have cl: "fclose (fat16_fs img) s a = Inr (x, s') \<Longrightarrow> vfs_state.more s' = vfs_state.more s"
    for s s' :: "(FAT_FileDescriptor, 'a) vfs_state_scheme" and a x
    by (auto simp: fclose_def fat16_fs_def desc_ops_def file_free_descriptor_def split: option.splits if_splits prod.splits
        dest!: up [OF close_above] fr)
  have put: "put_bytes s p bs = Inr s' \<Longrightarrow> vfs_state.more s' = vfs_state.more s"
    for s s' :: "(FAT_FileDescriptor, 'a) vfs_state_scheme" and p bs by (auto simp: put_bytes_def split: if_splits)
  have l: "elf_load_file (fat16_fs img) s g fd = Inr (x, y, s') \<Longrightarrow> vfs_state.more s' = vfs_state.more s"
    for s s' :: "(FAT_FileDescriptor, 'a) vfs_state_scheme" and g fd x y
    by (auto simp: elf_load_file_def split: if_splits prod.splits dest!: z rd put)
  from assms show ?thesis by (auto simp: elf_load_def split: if_splits prod.splits dest!: z o cl l)
qed

text \<open>A file with two loadable segments, at address 0.\<close>

definition demo_elf :: "u32 \<Rightarrow> u8" where
  "demo_elf a = (if a = 28 then 52 else if a = 44 then 2
     else if a = 52 then 1 else if a = 53 then 0 else if a = 57 then 0x10 else if a = 62 then 0x50 else if a = 69 then 0x20
     else if a = 84 then 1 else if a = 89 then 0x30 else if a = 94 then 0x40 else if a = 101 then 0x20 else 0)"

lemma demo_loadable:
  "loadable demo_elf 0 = [Elf32_phdr_at demo_elf 52, Elf32_phdr_at demo_elf 84]"
  "map p_vaddr [Elf32_phdr_at demo_elf 52, Elf32_phdr_at demo_elf 84] = [0x500000, 0x400000]"
  by code_simp+

section \<open>Properties\<close>

text \<open>
  What the loader requires of a file in memory: the ELF signature, a class and an encoding that are 32-bit
  little-endian or unspecified, and a program header table; otherwise \<open>-EINFORMAT\<close>. Type, machine and entry point
  are not looked at.
\<close>

theorem elf_validate_loaded_spec:
  "elf_validate_loaded m h = Inr (if m h = 0x7f \<and> m (h + 1) = 0x45 \<and> m (h + 2) = 0x4C \<and> m (h + 3) = 0x46 \<and>
     m (h + 4) \<in> {0, 1} \<and> m (h + 5) \<in> {0, 1} \<and> load32 m (h + 28) \<noteq> 0 then 0 else - 9)"
proof -
  have "e_phoff (Elf_header_at m h) = load32 m (h + 28)" by (simp add: Elf_header_at_def)
  then show ?thesis
    by (simp add: elf_validate_loaded_def elf_signature_iff elf_valid_class_def elf_valid_encoding_def elf_ident
        elf_has_program_header_def ELFCLASSNONE_def ELFCLASS32_def ELFDATANONE_def ELFDATA2LSB_def config)
qed

text \<open>
  The bounds of the image after all program headers: the least virtual address and the greatest virtual end of
  the loadable segments, each with the physical address of a segment that has it.
\<close>

theorem elf_process_pheaders_bounds:
  assumes "loadable m (elf_header f) \<noteq> []" and "\<forall>p\<in>set (loadable m (elf_header f)). p_vaddr p \<noteq> 0"
    and "virtual_base_address f = 0" and "virtual_end_address f = 0"
  shows "\<exists>f'. elf_process_pheaders m f = (0, f') \<and> bounds_of f' (loadable m (elf_header f)) \<and> elf_mem f' = elf_mem f"
proof -
  have "elf_mem (fold (\<lambda>p f. snd (elf_process_phdr_pt_load f p)) ps g) = elf_mem g" for ps g
    by (induction ps arbitrary: g) (simp_all add: elf_process_phdr_pt_load_def Let_def)
  with fold_bounds [OF assms] show ?thesis by (simp add: process_pheaders_fold)
qed

text \<open>
  C21: Loading a file of the root directory: the block at \<open>elf_mem\<close> holds the bytes of the clusters the driver's lookups lead to (the
  file's own for a file of one cluster, and whenever these are the clusters of its FAT entries), the result is what the
  header checks say of them, and the descriptor table is as before. Besides the file's own two allocations the
  parsed path stays allocated; when the checks fail the two allocations stay as well, with no pointer to them.
\<close>

theorem elf_load_refines:
  fixes m :: "(FAT_FileDescriptor, 'a) vfs_state_scheme"
  assumes op: "openable m A path k slot" and slot: "slot < 511"
    and chain: "driver_chain img (header (fat_private m)) cs" "cs \<noteq> []" and ok: "\<forall>c\<in>set cs. cluster_ok (fat_private m) c"
    and len: "0 < unat (filesize (root_entry m k))" "unat (filesize (root_entry m k)) \<le> length cs * cluster_bytes (fat_private m)"
      "length cs * cluster_bytes (fat_private m) < 2 ^ 31"
    and first: "sint (fat16_get_first_cluster (root_entry m k)) = hd cs"
    and top: "kh.used A \<subseteq> {..<t}" "t + 9 * blocks_for (unat (filesize (root_entry m k))) \<le> kheap_blocks"
  shows "\<exists>e q ts r elf m'. elf_load (fat16_fs img) m path = Inr (r, if r < 0 then None else Some elf, m') \<and>
    elf_process_loaded (mem m') ((fresh_elf (block_addr e))\<lparr>elf_mem := block_addr q\<rparr>) = Inr (r, elf) \<and>
    mem_bytes (mem m') (block_addr q) (unat (filesize (root_entry m k))) =
      take (unat (filesize (root_entry m k))) (concat (map (cluster_data img (fat_private m)) cs)) \<and>
    file_descriptors m' = file_descriptors m \<and> length ts = 3 \<and>
    machine_inv m' ((add_pages (A(e \<mapsto> 1)) ts)(q \<mapsto> blocks_for (unat (filesize (root_entry m k)))))"
  using elf_load_ok [OF assms] by blast

theorem elf_process_pheaders_bounds_witness:
  "\<exists>f'. elf_process_pheaders demo_elf (fresh_elf 0x1000000) = (0, f') \<and> virtual_base_address f' = 0x400000"
proof -
  have v: "p_vaddr (Elf32_phdr_at demo_elf 52) = 0x500000" "p_vaddr (Elf32_phdr_at demo_elf 84) = 0x400000"
    using demo_loadable(2) by simp_all
  have h: "elf_header (fresh_elf 0x1000000) = 0" by (simp add: elf_header_def)
  from elf_process_pheaders_bounds [of demo_elf "fresh_elf 0x1000000", unfolded h demo_loadable] v show ?thesis
    by (auto simp: bounds_of_def)
qed

theorem elf_load_refines_witness:
  "\<exists>m m'. elf_load (fat16_fs demo_img) (m :: FAT_FileDescriptor vfs_state) demo_file_path = Inr (- 9, None, m') \<and>
     file_descriptors m' = file_descriptors m"
proof -
  let ?tab = "replicate 512 None"
  obtain m where m: "openable (demo_vfs m ?tab) Map.empty demo_file_path 0 0" "fat_private (demo_vfs m ?tab) = demo_private"
    using demo_openable [of ?tab 0] by (auto simp: numeral_eq_Suc)
  have e: "root_entry (demo_vfs m ?tab) 0 = FAT_DirectoryItem_of demo_root"
    by (simp add: root_entry_def m(2) demo_items(1))
  have sz: "unat (filesize (FAT_DirectoryItem_of demo_root)) = 5" by code_simp
  have f: "sint (fat16_get_first_cluster (FAT_DirectoryItem_of demo_root)) = hd [2]" by code_simp
  have "bytes_at demo_img 1536 5 = [0, 1, 2, 3, 4]" by code_simp
  then have d: "take 5 (cluster_data demo_img demo_private 2) = [0, 1, 2, 3, 4]"
    unfolding cluster_data_def demo_cluster by (simp add: bytes_at_take)
  have "blocks_for 5 = 1" by (simp add: blocks_for_def)
  then obtain e q r elf m' where l: "elf_load (fat16_fs demo_img) (demo_vfs m ?tab) demo_file_path =
      Inr (r, if r < 0 then None else Some elf, m')"
    "elf_process_loaded (mem m') ((fresh_elf (block_addr e))\<lparr>elf_mem := block_addr q\<rparr>) = Inr (r, elf)"
    "mem_bytes (mem m') (block_addr q) 5 = [0, 1, 2, 3, 4]" "file_descriptors m' = file_descriptors (demo_vfs m ?tab)"
    using elf_load_refines [OF m(1), of demo_img "[2]" 0, unfolded e sz m(2)] f d demo_cluster
    by (auto simp: driver_chain_def kh.used_def covers_def kheap_blocks_def)
  have "mem m' (block_addr q) = 0" using l(3) nth_mem_bytes [of 0 5 "mem m'" "block_addr q"] by simp
  then have "r = - 9"
    using l(2) by (simp add: elf_process_loaded_def elf_validate_loaded_def elf_signature_iff elf_header_def config)
  with l(1,4) show ?thesis by auto
qed

end
