(* ===== verification/Terminal.thy ===== *)
theory Terminal
  imports ElfLoader
begin

text \<open>
  The terminal and the other globals of \<^verbatim>\<open>kernel.c\<close>: a cursor over the VGA text memory at \<^verbatim>\<open>0xB8000\<close>, 80 columns by
  25 rows of a character byte and a colour byte each, and the kernel's page directory. The video memory is
  physical memory: nothing in the code keeps the cursor inside it.
\<close>

section \<open>State\<close>

definition VGA_WIDTH :: int where "VGA_WIDTH = 80"
definition VGA_HEIGHT :: int where "VGA_HEIGHT = 25"

lemmas vga = VGA_WIDTH_def VGA_HEIGHT_def

record 'p kernel_state = "'p vfs_state" +
  video_mem :: u32
  terminal_row :: int
  terminal_column :: int
  kernelPageDirectory :: u32

definition store16 :: "(u32 \<Rightarrow> u8) \<Rightarrow> u32 \<Rightarrow> u16 \<Rightarrow> (u32 \<Rightarrow> u8)" where
  "store16 m a v = m(a := ucast v, a + 1 := ucast (drop_bit 8 v))"

section \<open>Writing characters\<close>

text \<open>Both \<^verbatim>\<open>char\<close> arguments are signed and extended to \<^verbatim>\<open>int\<close> before the shift and the or.\<close>

definition terminal_make_char :: "u8 \<Rightarrow> u8 \<Rightarrow> u16" where
  "terminal_make_char character color = push_bit 8 (scast color) OR scast character"

definition terminal_putchar ::
  "('p, 'a) kernel_state_scheme \<Rightarrow> int \<Rightarrow> int \<Rightarrow> u8 \<Rightarrow> u8 \<Rightarrow> fault + ('p, 'a) kernel_state_scheme" where
  "terminal_putchar m x y character color =
     (if video_mem m = 0 then Inl NullPointer
      else Inr (m\<lparr>mem := store16 (mem m) (video_mem m + word_of_int (2 * c_int (VGA_WIDTH * y + x)))
                        (terminal_make_char character color)\<rparr>))"

function terminal_writechar ::
    "('p, 'a) kernel_state_scheme \<Rightarrow> u8 \<Rightarrow> u8 \<Rightarrow> fault + ('p, 'a) kernel_state_scheme"
and terminal_backspace :: "('p, 'a) kernel_state_scheme \<Rightarrow> fault + ('p, 'a) kernel_state_scheme" where
  "terminal_writechar m character color =
     (if character = 0x0A then Inr (m\<lparr>terminal_row := c_int (terminal_row m + 1), terminal_column := 0\<rparr>)
      else if character = 0x08 then terminal_backspace m
      else bindE (terminal_putchar m (terminal_column m) (terminal_row m) character color) (\<lambda>m1.
        let m2 = m1\<lparr>terminal_column := c_int (terminal_column m1 + 1)\<rparr>
        in Inr (if VGA_WIDTH \<le> terminal_column m2
                then m2\<lparr>terminal_row := c_int (terminal_row m2 + 1), terminal_column := 0\<rparr> else m2)))"
| "terminal_backspace m =
     (if terminal_row m = 0 \<and> terminal_column m = 0 then Inr m
      else
        (let m1 = (if terminal_column m = 0
                   then m\<lparr>terminal_row := c_int (terminal_row m - 1), terminal_column := VGA_WIDTH\<rparr> else m);
             m2 = m1\<lparr>terminal_column := c_int (terminal_column m1 - 1)\<rparr>
         in bindE (terminal_writechar m2 0x20 15) (\<lambda>m3.
              Inr (m3\<lparr>terminal_column := c_int (terminal_column m3 - 1)\<rparr>))))"
  by pat_completeness auto
termination
  by (relation "measure (\<lambda>x. case x of Inl (m, c, col) \<Rightarrow> if c = 0x08 then 2 else 0 | Inr m \<Rightarrow> 1)") auto

declare terminal_writechar.simps [simp del] terminal_backspace.simps [simp del]

lemma strlen_bound: "strlen str = Inr n \<Longrightarrow> n < length str"
  by (metis length_cstr_less strlen_terminated strlen_unterminated sum.inject(2) sum.distinct(2))

function print_loop ::
  "('p, 'a) kernel_state_scheme \<Rightarrow> u8 list \<Rightarrow> nat \<Rightarrow> fault + ('p, 'a) kernel_state_scheme" where
  "print_loop m str i =
     bindE (strlen str) (\<lambda>n.
       if i < n then bindE (terminal_writechar m (str ! i) 15) (\<lambda>m1. print_loop m1 str (Suc i)) else Inr m)"
  by pat_completeness auto
termination
  by (relation "measure (\<lambda>(m, str, i). length str - i)") (auto dest!: strlen_bound)

declare print_loop.simps [simp del]

definition print :: "('p, 'a) kernel_state_scheme \<Rightarrow> u8 list \<Rightarrow> fault + ('p, 'a) kernel_state_scheme" where
  "print m str = print_loop m str 0"

section \<open>Initialisation, panic, the kernel's pages\<close>

text \<open>The inner loop for \<open>x < n\<close> of row \<open>y\<close>, and the outer one for \<open>y < n\<close>.\<close>

primrec blank_row :: "('p, 'a) kernel_state_scheme \<Rightarrow> int \<Rightarrow> nat \<Rightarrow> fault + ('p, 'a) kernel_state_scheme" where
  "blank_row m y 0 = Inr m"
| "blank_row m y (Suc x) = bindE (blank_row m y x) (\<lambda>m1. terminal_putchar m1 (int x) y 0x20 0)"

primrec blank_rows :: "('p, 'a) kernel_state_scheme \<Rightarrow> nat \<Rightarrow> fault + ('p, 'a) kernel_state_scheme" where
  "blank_rows m 0 = Inr m"
| "blank_rows m (Suc y) = bindE (blank_rows m y) (\<lambda>m1. blank_row m1 (int y) (nat VGA_WIDTH))"

definition terminal_initialize :: "('p, 'a) kernel_state_scheme \<Rightarrow> fault + ('p, 'a) kernel_state_scheme" where
  "terminal_initialize m =
     blank_rows (m\<lparr>video_mem := 0xB8000, terminal_row := 0, terminal_column := 0\<rparr>) (nat VGA_HEIGHT)"

text \<open>It prints the message and loops for ever.\<close>

definition panic :: "('p, 'a) kernel_state_scheme \<Rightarrow> string \<Rightarrow> fault + ('p, 'a) kernel_state_scheme" where
  "panic m msg = bindE (print m (map of_char msg @ [0])) (\<lambda>_. Inl (Panic msg))"

text \<open>\<^verbatim>\<open>kernel_registers\<close> loads the segment registers, which the model does not have.\<close>

definition kernel_page :: "('p, 'a) kernel_state_scheme \<Rightarrow> fault + ('p, 'a) kernel_state_scheme" where
  "kernel_page m = paging_switch m (kernelPageDirectory m)"

section \<open>The cursor as one number\<close>

definition cursor :: "('p, 'a) kernel_state_scheme \<Rightarrow> int" where
  "cursor m = 80 * terminal_row m + terminal_column m"

definition cell_addr :: "int \<Rightarrow> u32" where
  "cell_addr i = 0xB8000 + word_of_int (2 * i)"

text \<open>The two bytes of a cell; a character from \<^verbatim>\<open>0x80\<close> on is negative and fills the colour byte with ones.\<close>

definition cell_bytes :: "u8 \<Rightarrow> u8 \<Rightarrow> u8 list" where
  "cell_bytes color c = [c, if c < 0x80 then color else 0xFF]"

lemma store16_bytes: "store16 m a v = store_bytes m a [ucast v, ucast (drop_bit 8 v)]"
  by (simp add: store16_def)

lemma length_cell_bytes [simp]: "length (cell_bytes color c) = 2"
  by (simp add: cell_bytes_def)

lemma make_char_bytes: "store16 m a (terminal_make_char c color) = store_bytes m a (cell_bytes color c)"
proof -
  have msb: "bit c 7 \<longleftrightarrow> \<not> c < 0x80"
  proof -
    have "unat c < 256" using unsigned_less [of c, where 'a = nat] by simp
    then have "unat c div 128 = (if unat c < 128 then 0 else 1)" by (auto intro: div_nat_eqI)
    moreover have "bit c 7 \<longleftrightarrow> bit (unat c) 7" by (simp add: bit_unsigned_iff)
    ultimately show ?thesis by (simp add: bit_iff_odd word_less_nat_alt)
  qed
  have "(ucast (terminal_make_char c color) :: u8) = c"
    by (rule bit_word_eqI) (auto simp: terminal_make_char_def bit_simps)
  moreover have "(ucast (drop_bit 8 (terminal_make_char c color)) :: u8) = (if c < 0x80 then color else mask 8)"
    using msb by (intro bit_word_eqI) (auto simp: terminal_make_char_def bit_simps)
  moreover have "(mask 8 :: u8) = 0xFF" by (simp add: mask_eq_exp_minus_1)
  ultimately show ?thesis by (simp add: store16_bytes cell_bytes_def)
qed

text \<open>The terminal is initialised and its numbers are far from overflow.\<close>

definition terminal_ok :: "('p, 'a) kernel_state_scheme \<Rightarrow> bool" where
  "terminal_ok m \<longleftrightarrow> video_mem m = 0xB8000 \<and> \<bar>terminal_row m\<bar> \<le> 2 ^ 20 \<and> \<bar>terminal_column m\<bar> \<le> 2 ^ 20"

lemma putchar_cell:
  assumes "video_mem m = 0xB8000" and "\<bar>y\<bar> \<le> 2 ^ 20" and "\<bar>x\<bar> \<le> 2 ^ 20"
  shows "terminal_putchar m x y c color =
    Inr (m\<lparr>mem := store_bytes (mem m) (cell_addr (80 * y + x)) (cell_bytes color c)\<rparr>)"
proof -
  have "c_int (80 * y + x) = 80 * y + x" using assms(2,3) by (intro c_int_id; simp; linarith)
  then show ?thesis using assms(1) by (simp add: terminal_putchar_def vga make_char_bytes cell_addr_def)
qed

lemma writechar_plain:
  assumes ok: "terminal_ok m" and c: "c \<noteq> 0x0A" "c \<noteq> 0x08"
  shows "terminal_writechar m c color =
    Inr (m\<lparr>mem := store_bytes (mem m) (cell_addr (cursor m)) (cell_bytes color c),
           terminal_row := (if 80 \<le> terminal_column m + 1 then terminal_row m + 1 else terminal_row m),
           terminal_column := (if 80 \<le> terminal_column m + 1 then 0 else terminal_column m + 1)\<rparr>)"
proof -
  have r: "c_int (terminal_row m + 1) = terminal_row m + 1" "c_int (terminal_column m + 1) = terminal_column m + 1"
    using ok by (auto simp: terminal_ok_def intro!: c_int_id)
  have p: "terminal_putchar m (terminal_column m) (terminal_row m) c color =
      Inr (m\<lparr>mem := store_bytes (mem m) (cell_addr (cursor m)) (cell_bytes color c)\<rparr>)"
    unfolding cursor_def using ok by (intro putchar_cell) (simp_all add: terminal_ok_def)
  show ?thesis using c by (simp add: terminal_writechar.simps p r vga Let_def)
qed

lemma backspace_cell:
  assumes ok: "terminal_ok m" "\<bar>terminal_row m\<bar> < 2 ^ 20" "\<bar>terminal_column m\<bar> < 2 ^ 20"
    and col: "terminal_column m < 80" and home: "terminal_row m \<noteq> 0 \<or> terminal_column m \<noteq> 0"
  shows "terminal_backspace m =
    Inr (m\<lparr>mem := store_bytes (mem m) (cell_addr (cursor m - 1)) [0x20, 15], terminal_column := terminal_column m - 1\<rparr>)"
proof -
  have b: "cell_bytes 15 0x20 = [0x20, 15]" by (simp add: cell_bytes_def)
  have i: "c_int (terminal_row m - 1) = terminal_row m - 1" "c_int (terminal_column m - 1) = terminal_column m - 1"
      "c_int 79 = 79" "c_int (- 1) = - 1"
    using ok by (auto simp: terminal_ok_def intro!: c_int_id)
  show ?thesis
  proof (cases "terminal_column m = 0")
    case True
    let ?m = "m\<lparr>terminal_row := terminal_row m - 1, terminal_column := 79\<rparr>"
    have ok1: "terminal_ok ?m" and cur: "cursor ?m = cursor m - 1" using ok True by (auto simp: terminal_ok_def cursor_def)
    have "terminal_writechar ?m 0x20 15 = Inr (m\<lparr>mem := store_bytes (mem m) (cell_addr (cursor m - 1)) [0x20, 15],
        terminal_row := terminal_row m, terminal_column := 0\<rparr>)"
      by (subst writechar_plain [OF ok1]) (simp_all add: cur b)
    with True home i show ?thesis by (simp add: terminal_backspace.simps Let_def vga)
  next
    case False
    let ?m = "m\<lparr>terminal_column := terminal_column m - 1\<rparr>"
    have ok1: "terminal_ok ?m" and cur: "cursor ?m = cursor m - 1" using ok by (auto simp: terminal_ok_def cursor_def)
    have "terminal_writechar ?m 0x20 15 = Inr (m\<lparr>mem := store_bytes (mem m) (cell_addr (cursor m - 1)) [0x20, 15],
        terminal_row := terminal_row m, terminal_column := terminal_column m\<rparr>)"
      using col by (subst writechar_plain [OF ok1]) (simp_all add: cur b)
    with False i show ?thesis by (simp add: terminal_backspace.simps Let_def vga)
  qed
qed

section \<open>Printing\<close>

text \<open>\<^verbatim>\<open>print\<close> writes the characters before the terminator in order.\<close>

primrec writechars :: "('p, 'a) kernel_state_scheme \<Rightarrow> u8 list \<Rightarrow> fault + ('p, 'a) kernel_state_scheme" where
  "writechars m [] = Inr m"
| "writechars m (c # cs) = bindE (terminal_writechar m c 15) (\<lambda>m1. writechars m1 cs)"

lemma print_loop_writechars:
  fixes m :: "('p, 'a) kernel_state_scheme"
  assumes "terminated str" shows "print_loop m str i = writechars m (drop i (cstr str))"
proof (induction "length (cstr str) - i" arbitrary: m i)
  case 0
  then show ?case by (simp add: print_loop.simps strlen_terminated [OF assms])
next
  case (Suc k)
  then have i: "i < length (cstr str)" by simp
  then have "drop i (cstr str) = str ! i # drop (Suc i) (cstr str)"
    by (simp add: Cons_nth_drop_Suc [symmetric] nth_cstr)
  moreover have "print_loop m1 str (Suc i) = writechars m1 (drop (Suc i) (cstr str))"
    for m1 :: "('p, 'a) kernel_state_scheme"
    using Suc.hyps(1) [of "Suc i"] Suc.hyps(2) by simp
  ultimately show ?case using i by (simp add: print_loop.simps [of m str i] strlen_terminated [OF assms])
qed

text \<open>Plain characters fill the cells from the cursor on.\<close>

lemma writechars_plain:
  assumes "video_mem m = 0xB8000" and "0 \<le> terminal_row m" and "0 \<le> terminal_column m" and "terminal_column m < 80"
    and "terminal_row m + int (length cs) < 2 ^ 20" and "\<forall>c\<in>set cs. c \<noteq> 0x0A \<and> c \<noteq> 0x08"
  shows "\<exists>r c. writechars m cs = Inr (m\<lparr>mem := store_bytes (mem m) (cell_addr (cursor m)) (concat (map (cell_bytes 15) cs)),
      terminal_row := r, terminal_column := c\<rparr>) \<and> 0 \<le> r \<and> 0 \<le> c \<and> c < 80 \<and> 80 * r + c = cursor m + int (length cs)"
  using assms
proof (induction cs arbitrary: m)
  case Nil
  show ?case
    by (rule exI [of _ "terminal_row m"], rule exI [of _ "terminal_column m"]) (use Nil in \<open>simp add: cursor_def\<close>)
next
  case (Cons x cs)
  let ?r = "if 80 \<le> terminal_column m + 1 then terminal_row m + 1 else terminal_row m"
  let ?c = "if 80 \<le> terminal_column m + 1 then 0 else terminal_column m + 1"
  let ?m = "m\<lparr>mem := store_bytes (mem m) (cell_addr (cursor m)) (cell_bytes 15 x), terminal_row := ?r, terminal_column := ?c\<rparr>"
  have "terminal_ok m" using Cons.prems by (auto simp: terminal_ok_def)
  then have w: "terminal_writechar m x 15 = Inr ?m" using Cons.prems by (intro writechar_plain) simp_all
  have cur: "cursor ?m = cursor m + 1" using Cons.prems(4) by (auto simp: cursor_def)
  have a: "cell_addr (cursor m + 1) = cell_addr (cursor m) + 2" by (simp add: cell_addr_def algebra_simps)
  have "\<exists>r c. writechars ?m cs = Inr (?m\<lparr>mem := store_bytes (mem ?m) (cell_addr (cursor ?m)) (concat (map (cell_bytes 15) cs)),
      terminal_row := r, terminal_column := c\<rparr>) \<and> 0 \<le> r \<and> 0 \<le> c \<and> c < 80 \<and> 80 * r + c = cursor ?m + int (length cs)"
    by (rule Cons.IH) (use Cons.prems in auto)
  then obtain r c where
    "writechars ?m cs = Inr (?m\<lparr>mem := store_bytes (mem ?m) (cell_addr (cursor ?m)) (concat (map (cell_bytes 15) cs)),
      terminal_row := r, terminal_column := c\<rparr>)" "0 \<le> r" "0 \<le> c" "c < 80" "80 * r + c = cursor ?m + int (length cs)"
    by blast
  then show ?case unfolding cur a
    by (rule_tac x = r in exI, rule_tac x = c in exI) (simp add: w store_bytes_append algebra_simps)
qed

text \<open>Backspaces from column \<open>c \<le> 0\<close> of the second row walk on to the left.\<close>

lemma writechars_backspaces:
  assumes "video_mem m = 0xB8000" and "terminal_row m = 1" and "terminal_column m \<le> 0"
    and "- terminal_column m + int n < 2 ^ 20"
  shows "\<exists>mm. writechars m (replicate n 0x08) = Inr (m\<lparr>mem := mm, terminal_column := terminal_column m - int n\<rparr>) \<and>
    (0 < n \<longrightarrow> mm (cell_addr (cursor m - int n)) = 0x20)"
  using assms
proof (induction n arbitrary: m)
  case 0
  show ?case by (rule exI [of _ "mem m"]) simp
next
  case (Suc n)
  let ?m = "m\<lparr>mem := store_bytes (mem m) (cell_addr (cursor m - 1)) [0x20, 15], terminal_column := terminal_column m - 1\<rparr>"
  have w: "terminal_writechar m 0x08 15 = Inr ?m"
  proof -
    have "terminal_backspace m = Inr ?m"
      by (rule backspace_cell) (use Suc.prems in \<open>simp_all add: terminal_ok_def\<close>)
    then show ?thesis by (simp add: terminal_writechar.simps)
  qed
  have cur: "cursor ?m = cursor m - 1" by (simp add: cursor_def)
  from Suc.IH [of ?m] Suc.prems obtain mm where
    mm: "writechars ?m (replicate n 0x08) = Inr (?m\<lparr>mem := mm, terminal_column := terminal_column ?m - int n\<rparr>)"
      "0 < n \<longrightarrow> mm (cell_addr (cursor ?m - int n)) = 0x20" by auto
  show ?case
  proof (cases "n = 0")
    case True
    have "(store_bytes (mem m) (cell_addr (cursor m - 1)) [0x20, 15]) (cell_addr (cursor m - int (Suc n))) = 0x20"
      using True by simp
    with w True show ?thesis
      by (intro exI [of _ "store_bytes (mem m) (cell_addr (cursor m - 1)) [0x20, 15]"]) (simp add: fun_upd_def)
  next
    case False
    with mm w show ?thesis unfolding cur by (intro exI [of _ mm]) (simp add: algebra_simps)
  qed
qed

text \<open>The blanking loops.\<close>

lemma length_cells: "length (concat (replicate n [a, b])) = 2 * n"
  by (simp add: length_concat sum_list_replicate)

lemma blank_row_cells:
  assumes "video_mem m = 0xB8000" and "0 \<le> y" and "y \<le> 2 ^ 20" and "n \<le> 80"
  shows "blank_row m y n = Inr (m\<lparr>mem := store_bytes (mem m) (cell_addr (80 * y)) (concat (replicate n [0x20, 0]))\<rparr>)"
  using assms(4)
proof (induction n)
  case (Suc n)
  have l: "length (concat (replicate n [0x20 :: u8, 0])) = 2 * n" by (rule length_cells)
  have "terminal_putchar (m\<lparr>mem := mm\<rparr>) (int n) y 0x20 0 =
      Inr (m\<lparr>mem := store_bytes mm (cell_addr (80 * y + int n)) [0x20, 0]\<rparr>)" for mm
    using putchar_cell [of "m\<lparr>mem := mm\<rparr>" y "int n" "0x20" 0] assms Suc.prems by (simp add: cell_bytes_def)
  moreover have "cell_addr (80 * y + int n) = cell_addr (80 * y) + of_nat (2 * n)"
    by (simp add: cell_addr_def algebra_simps)
  moreover have "concat (replicate (Suc n) [0x20 :: u8, 0]) = concat (replicate n [0x20, 0]) @ [0x20, 0]"
    by (simp only: replicate_Suc replicate_append_same [symmetric] concat_append concat.simps append_Nil2)
  ultimately show ?case using Suc l by (simp add: store_bytes_append del: store_bytes.simps replicate_Suc)
qed simp

section \<open>Properties\<close>

text \<open>
  Printing a string of plain characters from a cursor inside a row fills exactly the cells from the cursor on,
  in order, in colour 15, wraps at the end of a row, and leaves the cursor behind the last one. A character from
  \<^verbatim>\<open>0x80\<close> on loses its colour.
\<close>

theorem print_refines:
  assumes str: "terminated str" and m: "video_mem m = 0xB8000" "0 \<le> terminal_row m" "0 \<le> terminal_column m" "terminal_column m < 80"
    and len: "terminal_row m + int (length (cstr str)) < 2 ^ 20" and plain: "\<forall>c\<in>set (cstr str). c \<noteq> 0x0A \<and> c \<noteq> 0x08"
  shows "\<exists>r c. print m str = Inr (m\<lparr>mem := store_bytes (mem m) (cell_addr (cursor m)) (concat (map (cell_bytes 15) (cstr str))),
      terminal_row := r, terminal_column := c\<rparr>) \<and> 0 \<le> r \<and> 0 \<le> c \<and> c < 80 \<and>
    80 * r + c = cursor m + int (length (cstr str))"
  using writechars_plain [OF m len plain] by (simp add: print_def print_loop_writechars [OF str])

text \<open>
  There is no scrolling: plain text that runs past the 2000 cells of the screen is written to the memory behind
  the video memory, from \<^verbatim>\<open>0xB8FA0\<close> on.
\<close>

theorem print_past_screen:
  assumes str: "terminated str" and m: "video_mem m = 0xB8000" "0 \<le> terminal_row m" "0 \<le> terminal_column m" "terminal_column m < 80"
    and len: "length (cstr str) < 2 ^ 16" and plain: "\<forall>c\<in>set (cstr str). c \<noteq> 0x0A \<and> c \<noteq> 0x08"
    and past: "cursor m \<le> 2000" "2000 < cursor m + int (length (cstr str))"
  shows "\<exists>m'. print m str = Inr m' \<and> mem m' 0xB8FA0 = cstr str ! nat (2000 - cursor m)"
proof -
  let ?bs = "concat (map (cell_bytes 15) (cstr str))" and ?k = "nat (2000 - cursor m)"
  have "0 \<le> cursor m" using m by (simp add: cursor_def)
  have k: "?k < length (cstr str)" using past by linarith
  have nth: "j < length cs \<Longrightarrow> concat (map (cell_bytes 15) cs) ! (2 * j) = cs ! j" for j and cs :: "u8 list"
  proof (induction cs arbitrary: j)
    case (Cons c cs)
    then show ?case by (cases j) (simp_all add: cell_bytes_def)
  qed simp
  have l: "length ?bs = 2 * length (cstr str)" by (simp add: length_concat comp_def sum_list_triv)
  have "0xB8FA0 - cell_addr (cursor m) = word_of_int (2 * (2000 - cursor m))" by (simp add: cell_addr_def algebra_simps)
  also have "\<dots> = of_nat (2 * ?k)" using past(1) by (simp add: of_nat_nat)
  finally have e: "0xB8FA0 - cell_addr (cursor m) = of_nat (2 * ?k)" .
  have "unat (0xB8FA0 - cell_addr (cursor m)) = 2 * ?k"
    unfolding e by (rule unat_of_nat_u32) (use \<open>0 \<le> cursor m\<close> in simp)
  then have "store_bytes (mem m) (cell_addr (cursor m)) ?bs 0xB8FA0 = cstr str ! ?k"
    using k len l nth [OF k] by (simp add: store_bytes_apply)
  moreover have "terminal_row m + int (length (cstr str)) < 2 ^ 20"
    using past(1) m len by (simp add: cursor_def)
  ultimately show ?thesis
    using writechars_plain [OF m _ plain] by (fastforce simp: print_def print_loop_writechars [OF str])
qed

text \<open>
  A backspace anywhere but at the top left corner blanks the cell before the cursor and moves the cursor there,
  but at the start of a row the column becomes \<open>- 1\<close>, outside the screen's range, while the row stays.
\<close>

theorem terminal_backspace_spec:
  assumes m: "video_mem m = 0xB8000" "\<bar>terminal_row m\<bar> < 2 ^ 20" "\<bar>terminal_column m\<bar> < 2 ^ 20"
    and col: "terminal_column m < 80" and home: "terminal_row m \<noteq> 0 \<or> terminal_column m \<noteq> 0"
  shows "terminal_backspace m =
    Inr (m\<lparr>mem := store_bytes (mem m) (cell_addr (cursor m - 1)) [0x20, 15], terminal_column := terminal_column m - 1\<rparr>)"
  by (rule backspace_cell) (use assms in \<open>simp_all add: terminal_ok_def\<close>)

text \<open>
  A new line at the top of the screen followed by 81 backspaces (what a user can type into a program that echoes)
  writes below the video memory, at \<^verbatim>\<open>0xB7FFE\<close>.
\<close>

theorem print_backspaces_underflow:
  assumes "video_mem m = 0xB8000" and "terminal_row m = 0" and "terminal_column m = 0"
  shows "\<exists>m'. print m ([0x0A] @ replicate 81 0x08 @ [0]) = Inr m' \<and> mem m' 0xB7FFE = 0x20 \<and> terminal_column m' = - 81"
proof -
  let ?m = "m\<lparr>terminal_row := 1, terminal_column := 0\<rparr>"
  have c: "cstr ([0x0A] @ replicate 81 0x08 @ [0]) = 0x0A # replicate 81 0x08"
    using cstr_append [of "0x0A # replicate 81 0x08" "[]"] by simp
  have t: "terminated ([0x0A] @ replicate 81 0x08 @ [0])" by (simp add: terminated_def)
  have "terminal_writechar m 0x0A 15 = Inr ?m" using assms by (simp add: terminal_writechar.simps)
  moreover obtain mm where "writechars ?m (replicate 81 0x08) = Inr (?m\<lparr>mem := mm, terminal_column := 0 - int 81\<rparr>)"
    "mm (cell_addr (cursor ?m - int 81)) = 0x20"
    using writechars_backspaces [of ?m 81] assms by auto
  moreover have "cell_addr (cursor ?m - int 81) = 0xB7FFE" by (simp add: cursor_def cell_addr_def)
  moreover have "print m ([0x0A] @ replicate 81 0x08 @ [0]) = writechars m (0x0A # replicate 81 0x08)"
    unfolding print_def print_loop_writechars [OF t] c by simp
  ultimately show ?thesis by simp
qed

text \<open>
  Initialising the terminal blanks its 2000 cells in colour 0, puts the cursor at the top left and changes no
  other byte of memory.
\<close>

theorem terminal_initialize_blank:
  "terminal_initialize m = Inr (m\<lparr>mem := store_bytes (mem m) 0xB8000 (concat (replicate 2000 [0x20, 0])),
     video_mem := 0xB8000, terminal_row := 0, terminal_column := 0\<rparr>)"
proof -
  have row: "blank_rows (m\<lparr>video_mem := 0xB8000, terminal_row := 0, terminal_column := 0\<rparr>) n =
      Inr (m\<lparr>mem := store_bytes (mem m) 0xB8000 (concat (replicate (n * 80) [0x20, 0])),
        video_mem := 0xB8000, terminal_row := 0, terminal_column := 0\<rparr>)" if "n \<le> 25" for n
    using that
  proof (induction n)
    case (Suc n)
    have l: "length (concat (replicate (n * 80) [0x20 :: u8, 0])) = 160 * n"
      using length_cells [of "n * 80" "0x20 :: u8" 0] by simp
    have "blank_row (m\<lparr>mem := mm, video_mem := 0xB8000, terminal_row := 0, terminal_column := 0\<rparr>) (int n) 80 =
        Inr (m\<lparr>mem := store_bytes mm (cell_addr (80 * int n)) (concat (replicate 80 [0x20, 0])),
          video_mem := 0xB8000, terminal_row := 0, terminal_column := 0\<rparr>)" for mm
      using Suc.prems by (subst blank_row_cells) simp_all
    moreover have "cell_addr (80 * int n) = 0xB8000 + of_nat (160 * n)" by (simp add: cell_addr_def)
    moreover have "concat (replicate (Suc n * 80) [0x20 :: u8, 0]) =
        concat (replicate (n * 80) [0x20, 0]) @ concat (replicate 80 [0x20, 0])"
      by (simp only: mult_Suc add.commute [of 80] replicate_add concat_append)
    ultimately show ?case using Suc l by (simp add: store_bytes_append vga del: replicate.simps)
  qed simp
  from row [of 25] show ?thesis by (simp add: terminal_initialize_def vga)
qed

text \<open>A terminal with the cursor at a given place.\<close>

lemma demo_terminal:
  "\<exists>m :: unit kernel_state. video_mem m = 0xB8000 \<and> terminal_row m = r \<and> terminal_column m = c \<and> mem m = (\<lambda>_. 0)"
  by (rule exI [of _ "undefined\<lparr>mem := \<lambda>_. 0, video_mem := 0xB8000, terminal_row := r, terminal_column := c\<rparr>"]) simp

theorem print_refines_witness:
  "\<exists>m m' :: unit kernel_state. terminal_row m = 0 \<and> terminal_column m = 79 \<and> print m [0x48, 0x69, 0] = Inr m' \<and>
     terminal_row m' = 1 \<and> terminal_column m' = 1 \<and> mem m' 0xB809E = 0x48 \<and> mem m' 0xB80A0 = 0x69"
proof -
  obtain m :: "unit kernel_state" where m: "video_mem m = 0xB8000" "terminal_row m = 0" "terminal_column m = 79"
    using demo_terminal [of 0 79] by blast
  have c: "cstr [0x48, 0x69, 0] = [0x48, 0x69]" by simp
  have cur: "cursor m = 79" by (simp add: cursor_def m)
  from print_refines [of "[0x48, 0x69, 0]" m, unfolded c cur] m obtain r k where
    p: "print m [0x48, 0x69, 0] = Inr (m\<lparr>mem := store_bytes (mem m) (cell_addr 79) (concat (map (cell_bytes 15) [0x48, 0x69])),
      terminal_row := r, terminal_column := k\<rparr>)" "0 \<le> r" "0 \<le> k" "k < 80" "80 * r + k = 79 + 2"
    by auto
  then have "r = 1" "k = 1" by presburger+
  with p(1) m show ?thesis
    by (intro exI [of _ m] exI [of _ "m\<lparr>mem := store_bytes (mem m) (cell_addr 79) (concat (map (cell_bytes 15) [0x48, 0x69])),
      terminal_row := r, terminal_column := k\<rparr>"]) (simp add: cell_addr_def cell_bytes_def)
qed

theorem print_past_screen_witness:
  "\<exists>m m' :: unit kernel_state. terminal_row m = 24 \<and> terminal_column m = 79 \<and> print m [0x48, 0x69, 0] = Inr m' \<and>
     mem m' 0xB8FA0 = 0x69"
proof -
  obtain m :: "unit kernel_state" where m: "video_mem m = 0xB8000" "terminal_row m = 24" "terminal_column m = 79"
    using demo_terminal [of 24 79] by blast
  have c: "cstr [0x48, 0x69, 0] = [0x48, 0x69]" by simp
  have cur: "cursor m = 1999" by (simp add: cursor_def m)
  from print_past_screen [of "[0x48, 0x69, 0]" m, unfolded c cur] m obtain m' where
    "print m [0x48, 0x69, 0] = Inr m'" "mem m' 0xB8FA0 = [0x48, 0x69] ! nat (2000 - 1999)" by auto
  then show ?thesis using m by (intro exI [of _ m] exI [of _ m']) simp
qed

theorem terminal_backspace_spec_witness:
  "\<exists>m m' :: unit kernel_state. terminal_row m = 1 \<and> terminal_column m = 0 \<and> terminal_backspace m = Inr m' \<and>
     terminal_row m' = 1 \<and> terminal_column m' = - 1 \<and> mem m' 0xB809E = 0x20"
proof -
  obtain m :: "unit kernel_state" where m: "video_mem m = 0xB8000" "terminal_row m = 1" "terminal_column m = 0"
    using demo_terminal [of 1 0] by blast
  have "terminal_backspace m = Inr (m\<lparr>mem := store_bytes (mem m) (cell_addr (cursor m - 1)) [0x20, 15],
      terminal_column := terminal_column m - 1\<rparr>)"
    using m by (intro terminal_backspace_spec) simp_all
  with m show ?thesis
    by (intro exI [of _ m] exI [of _ "m\<lparr>mem := store_bytes (mem m) (cell_addr (cursor m - 1)) [0x20, 15],
      terminal_column := terminal_column m - 1\<rparr>"]) (simp add: cell_addr_def cursor_def)
qed

theorem print_backspaces_underflow_witness:
  "\<exists>m m' :: unit kernel_state. mem m 0xB7FFE = 0 \<and> print m ([0x0A] @ replicate 81 0x08 @ [0]) = Inr m' \<and> mem m' 0xB7FFE = 0x20"
proof -
  obtain m :: "unit kernel_state" where m: "video_mem m = 0xB8000" "terminal_row m = 0" "terminal_column m = 0" "mem m = (\<lambda>_. 0)"
    using demo_terminal [of 0 0] by blast
  then obtain m' where "print m ([0x0A] @ replicate 81 0x08 @ [0]) = Inr m'" "mem m' 0xB7FFE = 0x20"
    using print_backspaces_underflow by blast
  moreover have "mem m 0xB7FFE = 0" by (simp add: m(4))
  ultimately show ?thesis by blast
qed

end
