(* ===== verification/TaskList.thy ===== *)
theory TaskList
  imports Terminal
begin

text \<open>
  Tasks (\<^verbatim>\<open>task/task.c\<close>, \<^verbatim>\<open>task/task.h\<close>) and the data of processes they refer to (\<^verbatim>\<open>task/process.h\<close>). Tasks and processes
  are heap objects that share pointers, so they live in stores from addresses to records; a pointer to an object that
  was freed is not in the store, and using it is the fault \<open>UseAfterFree\<close>. Memory that user code owns is read through the
  page tables of the current directory, as the processor does.
\<close>

section \<open>Data\<close>

record Registers =
  reg_edi :: u32
  reg_esi :: u32
  reg_ebp :: u32
  reg_ebx :: u32
  reg_edx :: u32
  reg_ecx :: u32
  reg_eax :: u32
  reg_ip :: u32
  reg_cs :: u32
  reg_flags :: u32
  reg_esp :: u32
  reg_ss :: u32

text \<open>\<^verbatim>\<open>struct InterruptFrame\<close> of \<^verbatim>\<open>idt/idt.h\<close>.\<close>

record InterruptFrame =
  frame_edi :: u32
  frame_esi :: u32
  frame_ebp :: u32
  frame_reserved :: u32
  frame_ebx :: u32
  frame_edx :: u32
  frame_ecx :: u32
  frame_eax :: u32
  frame_ip :: u32
  frame_cs :: u32
  frame_flags :: u32
  frame_esp :: u32
  frame_ss :: u32

record Task =
  task_process :: u32
  page_directory :: u32
  registers :: Registers
  task_next_ptr :: u32
  task_prev_ptr :: u32

record ProcessAllocation =
  alloc_ptr :: u32
  alloc_size :: u32

text \<open>The anonymous union of \<^verbatim>\<open>struct Process\<close>; \<open>ZeroImage\<close> is the cleared word.\<close>

datatype process_image = ZeroImage | BinaryImage u32 | ElfImage Elf_file

record KeyboardBuffer =
  kb_buffer :: "u8 list"
  kb_tail :: int
  kb_head :: int

record ProcessArguments =
  argc :: int
  argv :: u32

record Process =
  proc_id :: u16
  proc_filename :: "u8 list"
  proc_task :: u32
  allocations :: "ProcessAllocation list"
  filetype :: u8
  image :: process_image
  proc_stack :: u32
  proc_size :: u32
  keyboard :: KeyboardBuffer
  arguments :: ProcessArguments

definition PROCESS_FILETYPE_ELF :: u8 where "PROCESS_FILETYPE_ELF = 0"
definition PROCESS_FILETYPE_BINARY :: u8 where "PROCESS_FILETYPE_BINARY = 1"

record 'p task_state = "'p kernel_state" +
  tasks :: "u32 \<rightharpoonup> Task"
  procs :: "u32 \<rightharpoonup> Process"
  current_task :: u32
  task_tail :: u32
  task_head :: u32
  current_process :: u32
  processes :: "u32 list"

text \<open>Access through pointers.\<close>

definition deref :: "(u32 \<rightharpoonup> 'o) \<Rightarrow> u32 \<Rightarrow> fault + 'o" where
  "deref store p = (if p = 0 then Inl NullPointer
     else case store p of None \<Rightarrow> Inl UseAfterFree | Some x \<Rightarrow> Inr x)"

abbreviation set_task :: "('p, 'a) task_state_scheme \<Rightarrow> u32 \<Rightarrow> Task \<Rightarrow> ('p, 'a) task_state_scheme" where
  "set_task m p t \<equiv> m\<lparr>tasks := (tasks m)(p \<mapsto> t)\<rparr>"

abbreviation set_proc :: "('p, 'a) task_state_scheme \<Rightarrow> u32 \<Rightarrow> Process \<Rightarrow> ('p, 'a) task_state_scheme" where
  "set_proc m p x \<equiv> m\<lparr>procs := (procs m)(p \<mapsto> x)\<rparr>"

section \<open>Memory under the current directory\<close>

text \<open>The processor's walk of the two levels; bit 0 of an entry is the present bit.\<close>

definition vtranslate :: "'a paging_state_scheme \<Rightarrow> u32 \<Rightarrow> fault + u32" where
  "vtranslate m va =
     (if \<not> paging_enabled m then Inr va
      else
        (let pde = load32 (mem m) (cr3 m + 4 * (va div 0x400000))
         in if pde AND PAGING_IS_PRESENT = 0 then Inl PageFault
            else (let pte = load32 (mem m) ((pde AND 0xfffff000) + 4 * (va mod 0x400000 div 0x1000))
                  in if pte AND PAGING_IS_PRESENT = 0 then Inl PageFault
                     else Inr ((pte AND 0xfffff000) + va mod 0x1000))))"

definition vload :: "'a paging_state_scheme \<Rightarrow> u32 \<Rightarrow> fault + u8" where
  "vload m va = bindE (vtranslate m va) (\<lambda>pa. Inr (mem m pa))"

definition vstore :: "'a paging_state_scheme \<Rightarrow> u32 \<Rightarrow> u8 \<Rightarrow> fault + 'a paging_state_scheme" where
  "vstore m va v = bindE (vtranslate m va) (\<lambda>pa. Inr (m\<lparr>mem := (mem m)(pa := v)\<rparr>))"

text \<open>\<^verbatim>\<open>strncpy(dest, src, n + 1)\<close> from index \<open>i\<close> on, under the current directory; \<open>n\<close> bytes may still be copied.\<close>

primrec vstrncpy :: "'a paging_state_scheme \<Rightarrow> u32 \<Rightarrow> u32 \<Rightarrow> nat \<Rightarrow> fault + 'a paging_state_scheme" where
  "vstrncpy m dest src 0 = vstore m dest 0"
| "vstrncpy m dest src (Suc n) =
     bindE (vload m src) (\<lambda>c.
       if c = 0 then vstore m dest 0
       else bindE (vstore m dest c) (\<lambda>m1. vstrncpy m1 (dest + 1) (src + 1) n))"

section \<open>The task list\<close>

definition task_current :: "('p, 'a) task_state_scheme \<Rightarrow> u32" where
  "task_current m = current_task m"

definition task_get_next :: "('p, 'a) task_state_scheme \<Rightarrow> fault + u32" where
  "task_get_next m =
     bindE (deref (tasks m) (current_task m)) (\<lambda>t.
       Inr (if task_next_ptr t = 0 then task_head m else task_next_ptr t))"

definition task_list_remove :: "('p, 'a) task_state_scheme \<Rightarrow> u32 \<Rightarrow> fault + ('p, 'a) task_state_scheme" where
  "task_list_remove m task =
     bindE (deref (tasks m) task) (\<lambda>t.
     bindE (if task_prev_ptr t \<noteq> 0
            then bindE (deref (tasks m) (task_prev_ptr t)) (\<lambda>q.
                   Inr (set_task m (task_prev_ptr t) (q\<lparr>task_next_ptr := task_next_ptr t\<rparr>)))
            else Inr m) (\<lambda>m1.
     bindE (deref (tasks m1) task) (\<lambda>t.
       let m2 = (if task = task_head m1 then m1\<lparr>task_head := task_next_ptr t\<rparr> else m1);
           m3 = (if task = task_tail m2 then m2\<lparr>task_tail := task_prev_ptr t\<rparr> else m2)
       in if task = current_task m3
          then bindE (task_get_next m3) (\<lambda>n. Inr (m3\<lparr>current_task := n\<rparr>))
          else Inr m3)))"

definition task_free :: "('p, 'a) task_state_scheme \<Rightarrow> u32 \<Rightarrow> fault + (int \<times> ('p, 'a) task_state_scheme)" where
  "task_free m task =
     bindE (deref (tasks m) task) (\<lambda>t.
     bindE (paging_free m (page_directory t)) (\<lambda>m1.
     bindE (task_list_remove m1 task) (\<lambda>m2.
     bindE (kfree m2 task) (\<lambda>m3.
       Inr (0, m3\<lparr>tasks := (tasks m3)(task := None)\<rparr>)))))"

definition zero_registers :: Registers where
  "zero_registers = \<lparr>reg_edi = 0, reg_esi = 0, reg_ebp = 0, reg_ebx = 0, reg_edx = 0, reg_ecx = 0, reg_eax = 0,
     reg_ip = 0, reg_cs = 0, reg_flags = 0, reg_esp = 0, reg_ss = 0\<rparr>"

text \<open>The entry point \<^verbatim>\<open>elf_header(process->elf_file)->e_entry\<close>, read through the union.\<close>

definition process_entry :: "(u32 \<Rightarrow> u8) \<Rightarrow> Process \<Rightarrow> fault + u32" where
  "process_entry mm p =
     (case image p of ElfImage f \<Rightarrow> Inr (e_entry (Elf_header_at mm (elf_header f)))
      | ZeroImage \<Rightarrow> Inl NullPointer | BinaryImage _ \<Rightarrow> Inl WrongMember)"

definition task_init :: "('p, 'a) task_state_scheme \<Rightarrow> u32 \<Rightarrow> u32 \<Rightarrow> fault + (int \<times> ('p, 'a) task_state_scheme)" where
  "task_init m task process =
     bindE (paging_new m (ucast (PAGING_IS_PRESENT OR PAGING_ACCESS_FROM_ALL))) (\<lambda>(pd, m1).
       let t0 = \<lparr>task_process = 0, page_directory = pd, registers = zero_registers,
                 task_next_ptr = 0, task_prev_ptr = 0\<rparr>
       in if pd = 0 then Inr (- EIO, set_task m1 task t0)
          else
            bindE (deref (procs m1) process) (\<lambda>p.
            bindE (if filetype p = PROCESS_FILETYPE_ELF then process_entry (mem m1) p
                   else Inr BIMBLEOS_PROGRAM_VIRTUAL_ADDRESS) (\<lambda>ip.
              Inr (0, set_task m1 task (t0\<lparr>registers := zero_registers\<lparr>reg_ip := ip, reg_cs := USER_CODE_SEGMENT,
                        reg_esp := BIMBLEOS_PROGRAM_VIRTUAL_STACK_ADDRESS_START, reg_ss := USER_DATA_SEGMENT\<rparr>,
                        task_process := process\<rparr>)))))"

text \<open>The pointer to the task, or an error code as a pointer.\<close>

definition task_new :: "('p, 'a) task_state_scheme \<Rightarrow> u32 \<Rightarrow> fault + (u32 \<times> ('p, 'a) task_state_scheme)" where
  "task_new m process =
     bindE (kzalloc m 64) (\<lambda>(task, m1).
       if task = 0 then bindE (task_free m1 task) (\<lambda>(_, m2). Inr (word_of_int (- ENOMEM), m2))
       else
         bindE (task_init m1 task process) (\<lambda>(res, m2).
           if res \<noteq> BIMBLEOS_ALL_OK
           then if res < 0 then bindE (task_free m2 task) (\<lambda>(_, m3). Inr (word_of_int res, m3)) else Inr (task, m2)
           else if task_head m2 = 0
                then Inr (task, m2\<lparr>current_task := task, task_tail := task, task_head := task\<rparr>)
                else
                  bindE (deref (tasks m2) (task_tail m2)) (\<lambda>q.
                    let m3 = set_task m2 (task_tail m2) (q\<lparr>task_next_ptr := task\<rparr>)
                    in bindE (deref (tasks m3) task) (\<lambda>t.
                         Inr (task, (set_task m3 task (t\<lparr>task_prev_ptr := task_tail m3\<rparr>))\<lparr>task_tail := task\<rparr>)))))"

section \<open>Switching\<close>

definition task_switch :: "('p, 'a) task_state_scheme \<Rightarrow> u32 \<Rightarrow> fault + ('p, 'a) task_state_scheme" where
  "task_switch m task =
     bindE (deref (tasks m) task) (\<lambda>t. paging_switch (m\<lparr>current_task := task\<rparr>) (page_directory t))"

text \<open>\<^verbatim>\<open>user_registers\<close> loads the segment registers, which the model does not have.\<close>

definition task_page :: "('p, 'a) task_state_scheme \<Rightarrow> fault + ('p, 'a) task_state_scheme" where
  "task_page m = task_switch m (current_task m)"

definition task_page_task :: "('p, 'a) task_state_scheme \<Rightarrow> u32 \<Rightarrow> fault + ('p, 'a) task_state_scheme" where
  "task_page_task m task = bindE (deref (tasks m) task) (\<lambda>t. paging_switch m (page_directory t))"

text \<open>
  \<^verbatim>\<open>task_return\<close> leaves the kernel: the registers user code continues with, interrupts enabled, and the state.
\<close>

definition task_return :: "('p, 'a) task_state_scheme \<Rightarrow> u32 \<Rightarrow> fault + (Registers \<times> ('p, 'a) task_state_scheme)" where
  "task_return m task = bindE (deref (tasks m) task) (\<lambda>t. Inr (registers t, m))"

definition task_next :: "('p, 'a) task_state_scheme \<Rightarrow> fault + (Registers \<times> ('p, 'a) task_state_scheme)" where
  "task_next m =
     bindE (task_get_next m) (\<lambda>next_task.
       if next_task = 0 then Inl (Panic (c_line ''No more tasks!''))
       else bindE (task_switch m next_task) (\<lambda>m1. task_return m1 next_task))"

definition task_run_first_ever_task ::
  "('p, 'a) task_state_scheme \<Rightarrow> fault + (Registers \<times> ('p, 'a) task_state_scheme)" where
  "task_run_first_ever_task m =
     (if current_task m = 0 then Inl (Panic (c_line ''task_run_first_ever_task(): No current task exists!''))
      else bindE (task_switch m (task_head m)) (\<lambda>m1. task_return m1 (task_head m1)))"

section \<open>Saved state and user memory\<close>

definition frame_registers :: "InterruptFrame \<Rightarrow> Registers \<Rightarrow> Registers" where
  "frame_registers frame r = r\<lparr>reg_edi := frame_edi frame, reg_esi := frame_esi frame, reg_ebp := frame_ebp frame,
     reg_ebx := frame_ebx frame, reg_edx := frame_edx frame, reg_ecx := frame_ecx frame, reg_eax := frame_eax frame,
     reg_ip := frame_ip frame, reg_cs := frame_cs frame, reg_flags := frame_flags frame, reg_esp := frame_esp frame,
     reg_ss := frame_ss frame\<rparr>"

definition task_save_state ::
  "('p, 'a) task_state_scheme \<Rightarrow> u32 \<Rightarrow> InterruptFrame \<Rightarrow> fault + ('p, 'a) task_state_scheme" where
  "task_save_state m task frame =
     bindE (deref (tasks m) task) (\<lambda>t. Inr (set_task m task (t\<lparr>registers := frame_registers frame (registers t)\<rparr>)))"

definition task_current_save_state ::
  "('p, 'a) task_state_scheme \<Rightarrow> InterruptFrame \<Rightarrow> fault + ('p, 'a) task_state_scheme" where
  "task_current_save_state m frame =
     (if task_current m = 0 then Inl (Panic (c_line ''No current task to save'')) else task_save_state m (task_current m) frame)"

definition vload32 :: "'a paging_state_scheme \<Rightarrow> u32 \<Rightarrow> fault + u32" where
  "vload32 m va =
     bindE (vload m va) (\<lambda>b0. bindE (vload m (va + 1)) (\<lambda>b1. bindE (vload m (va + 2)) (\<lambda>b2. bindE (vload m (va + 3)) (\<lambda>b3.
       Inr (ucast b0 OR push_bit 8 (ucast b1) OR push_bit 16 (ucast b2) OR push_bit 24 (ucast b3))))))"

definition task_get_stack_item ::
  "('p, 'a) task_state_scheme \<Rightarrow> u32 \<Rightarrow> int \<Rightarrow> fault + (u32 \<times> ('p, 'a) task_state_scheme)" where
  "task_get_stack_item m task idx =
     bindE (deref (tasks m) task) (\<lambda>t.
     bindE (task_page_task m task) (\<lambda>m1.
     bindE (vload32 m1 (reg_esp (registers t) + word_of_int (4 * idx))) (\<lambda>result.
     bindE (kernel_page m1) (\<lambda>m2.
       Inr (result, m2)))))"

definition task_virtual_address_to_physical ::
  "('p, 'a) task_state_scheme \<Rightarrow> u32 \<Rightarrow> u32 \<Rightarrow> fault + u32" where
  "task_virtual_address_to_physical m task virtual_address =
     bindE (deref (tasks m) task) (\<lambda>t.
     bindE (wread m (page_directory t) 0) (\<lambda>dir.
       paging_get_physical_address m dir virtual_address))"

text \<open>\<open>phys\<close> is the kernel's buffer; its new content is the second result.\<close>

definition copy_string_from_task ::
  "('p, 'a) task_state_scheme \<Rightarrow> u32 \<Rightarrow> u32 \<Rightarrow> u8 list \<Rightarrow> int \<Rightarrow> fault + (int \<times> u8 list \<times> ('p, 'a) task_state_scheme)" where
  "copy_string_from_task m task virtual phys maxlen =
     (if int PAGING_PAGE_SIZE \<le> maxlen then Inr (- EINVARG, phys, m)
      else
        bindE (kzalloc m (word_of_int maxlen)) (\<lambda>(tmp, m1).
          if tmp = 0 then Inr (- ENOMEM, phys, m1)
          else
            bindE (deref (tasks m1) task) (\<lambda>t.
            bindE (wread m1 (page_directory t) 0) (\<lambda>task_directory.
            bindE (paging_get m1 task_directory tmp) (\<lambda>old_entry.
            bindE (paging_map m1 (page_directory t) tmp tmp
                     (PAGING_IS_WRITEABLE OR PAGING_IS_PRESENT OR PAGING_ACCESS_FROM_ALL)) (\<lambda>(_, m2).
            bindE (paging_switch m2 (page_directory t)) (\<lambda>m3.
            bindE (vstrncpy m3 tmp virtual (nat (maxlen - 1))) (\<lambda>m4.
            bindE (kernel_page m4) (\<lambda>m5.
            bindE (paging_set m5 task_directory tmp old_entry) (\<lambda>(res, m6).
              if res < 0 then bindE (kfree m6 tmp) (\<lambda>m7. Inr (- EIO, phys, m7))
              else
                bindE (strncpy phys (mem_bytes (mem m6) tmp (nat maxlen)) maxlen) (\<lambda>phys'.
                bindE (kfree m6 tmp) (\<lambda>m7. Inr (res, phys', m7)))))))))))))"

section \<open>The queue\<close>

text \<open>
  The list as the scheduler sees it, \<open>run_queue\<close>: the \<^verbatim>\<open>next\<close> pointers lead through the tasks \<open>ts\<close> in this order.
  The list as \<^verbatim>\<open>task_list_remove\<close> needs it, \<open>task_queue\<close>: the \<^verbatim>\<open>prev\<close> pointers lead back as well.
\<close>

definition first_of :: "u32 list \<Rightarrow> u32 \<Rightarrow> u32" where
  "first_of ts e = (case ts of [] \<Rightarrow> e | a # _ \<Rightarrow> a)"

definition last_of :: "u32 \<Rightarrow> u32 list \<Rightarrow> u32" where
  "last_of p ts = (if ts = [] then p else last ts)"

lemma first_of_simps [simp]:
  "first_of [] e = e" "first_of (a # ts) e = a" "first_of (ts @ us) e = first_of ts (first_of us e)"
  by (simp_all add: first_of_def split: list.split)

lemma last_of_simps [simp]:
  "last_of p [] = p" "last_of p (a # ts) = last_of a ts" "last_of p (ts @ us) = last_of (last_of p ts) us"
  by (simp_all add: last_of_def)

primrec next_links :: "(u32 \<rightharpoonup> Task) \<Rightarrow> u32 list \<Rightarrow> u32 \<Rightarrow> bool" where
  "next_links st [] e \<longleftrightarrow> True"
| "next_links st (a # ts) e \<longleftrightarrow> map_option task_next_ptr (st a) = Some (first_of ts e) \<and> next_links st ts e"

primrec prev_links :: "(u32 \<rightharpoonup> Task) \<Rightarrow> u32 \<Rightarrow> u32 list \<Rightarrow> bool" where
  "prev_links st p [] \<longleftrightarrow> True"
| "prev_links st p (a # ts) \<longleftrightarrow> map_option task_prev_ptr (st a) = Some p \<and> prev_links st a ts"

lemma links_append [simp]:
  "next_links st (ts @ us) e \<longleftrightarrow> next_links st ts (first_of us e) \<and> next_links st us e"
  "prev_links st p (ts @ us) \<longleftrightarrow> prev_links st p ts \<and> prev_links st (last_of p ts) us"
  by (induction ts arbitrary: p) auto

lemma links_other [simp]:
  "b \<notin> set ts \<Longrightarrow> next_links (st(b := x)) ts e = next_links st ts e"
  "b \<notin> set ts \<Longrightarrow> prev_links (st(b := x)) p ts = prev_links st p ts"
  by (induction ts arbitrary: p) auto

text \<open>A change of another field of a task.\<close>

lemma links_keep:
  "map_option task_next_ptr (st b) = Some (task_next_ptr t) \<Longrightarrow> next_links (st(b \<mapsto> t)) ts e = next_links st ts e"
  "map_option task_prev_ptr (st b) = Some (task_prev_ptr t) \<Longrightarrow> prev_links (st(b \<mapsto> t)) p ts = prev_links st p ts"
  by (induction ts arbitrary: p) auto

definition run_queue :: "('p, 'a) task_state_scheme \<Rightarrow> u32 list \<Rightarrow> bool" where
  "run_queue m ts \<longleftrightarrow> distinct ts \<and> 0 \<notin> set ts \<and> next_links (tasks m) ts 0 \<and>
     task_head m = first_of ts 0 \<and> task_tail m = last_of 0 ts \<and>
     (if ts = [] then current_task m = 0 else current_task m \<in> set ts)"

definition task_queue :: "('p, 'a) task_state_scheme \<Rightarrow> u32 list \<Rightarrow> bool" where
  "task_queue m ts \<longleftrightarrow> run_queue m ts \<and> prev_links (tasks m) 0 ts"

lemma run_queue_nth:
  assumes q: "run_queue m ts" and i: "i < length ts"
  shows "\<exists>t. deref (tasks m) (ts ! i) = Inr t \<and> tasks m (ts ! i) = Some t \<and>
    task_next_ptr t = (if Suc i < length ts then ts ! Suc i else 0)"
proof -
  have split: "ts = take i ts @ ts ! i # drop (Suc i) ts" using i by (rule id_take_nth_drop)
  then have "next_links (tasks m) (take i ts @ ts ! i # drop (Suc i) ts) 0"
    using q by (simp add: run_queue_def)
  then have node: "map_option task_next_ptr (tasks m (ts ! i)) = Some (first_of (drop (Suc i) ts) 0)" by simp
  have "ts ! i \<noteq> 0" using q nth_mem [OF i] unfolding run_queue_def by metis
  moreover have "first_of (drop (Suc i) ts) 0 = (if Suc i < length ts then ts ! Suc i else 0)"
    by (simp add: first_of_def Cons_nth_drop_Suc [symmetric] split: list.split)
  ultimately show ?thesis using node by (auto simp: deref_def)
qed

text \<open>The round robin: after the last task comes the first.\<close>

lemma task_get_next_nth:
  assumes q: "run_queue m ts" and i: "i < length ts" and cur: "current_task m = ts ! i"
  shows "task_get_next m = Inr (ts ! (Suc i mod length ts))"
proof -
  obtain t where t: "deref (tasks m) (ts ! i) = Inr t"
    "task_next_ptr t = (if Suc i < length ts then ts ! Suc i else 0)"
    using run_queue_nth [OF q i] by blast
  show ?thesis
  proof (cases "Suc i < length ts")
    case True
    then have "ts ! Suc i \<noteq> 0" using q nth_mem [OF True] unfolding run_queue_def by metis
    with True t cur show ?thesis by (simp add: task_get_next_def)
  next
    case False
    then have e: "Suc i = length ts" using i by simp
    moreover have "first_of ts 0 = ts ! 0" using i by (cases ts) auto
    ultimately show ?thesis using t cur q by (simp add: task_get_next_def run_queue_def)
  qed
qed

text \<open>Every task of the queue has a page directory.\<close>

definition task_dirs :: "(u32 \<rightharpoonup> Task) \<Rightarrow> u32 list \<Rightarrow> bool" where
  "task_dirs st ts \<longleftrightarrow> (\<forall>a\<in>set ts. \<forall>t. st a = Some t \<longrightarrow> page_directory t \<noteq> 0)"

definition switched :: "('p, 'a) task_state_scheme \<Rightarrow> u32 \<Rightarrow> u32 \<Rightarrow> ('p, 'a) task_state_scheme" where
  "switched m a dir = (paging_load_directory (m\<lparr>current_task := a\<rparr>) dir)\<lparr>current_directory := dir\<rparr>"

lemma switched_simps [simp]:
  "current_task (switched m a dir) = a" "cr3 (switched m a dir) = dir" "current_directory (switched m a dir) = dir"
  "tasks (switched m a dir) = tasks m" "procs (switched m a dir) = procs m" "mem (switched m a dir) = mem m"
  "kernel_heap (switched m a dir) = kernel_heap m" "processes (switched m a dir) = processes m"
  "current_process (switched m a dir) = current_process m" "task_head (switched m a dir) = task_head m"
  "task_tail (switched m a dir) = task_tail m" "kernelPageDirectory (switched m a dir) = kernelPageDirectory m"
  by (simp_all add: switched_def paging_load_directory_def)

lemma task_switch_ok:
  "deref (tasks m) a = Inr t \<Longrightarrow> page_directory t \<noteq> 0 \<Longrightarrow>
     task_switch m a = Inr (switched m a (load32 (mem m) (page_directory t)))"
  by (simp add: task_switch_def paging_switch_def wread_def switched_def)

lemma run_queue_switched:
  "run_queue m ts \<Longrightarrow> a \<in> set ts \<Longrightarrow> run_queue (switched m a dir) ts"
  by (auto simp: run_queue_def)

lemma task_next_nth:
  assumes q: "run_queue m ts" and i: "i < length ts" and cur: "current_task m = ts ! i"
    and dirs: "task_dirs (tasks m) ts"
  shows "\<exists>t. tasks m (ts ! (Suc i mod length ts)) = Some t \<and>
    task_next m = Inr (registers t, switched m (ts ! (Suc i mod length ts)) (load32 (mem m) (page_directory t))) \<and>
    run_queue (switched m (ts ! (Suc i mod length ts)) (load32 (mem m) (page_directory t))) ts"
proof -
  have j: "Suc i mod length ts < length ts" using i by (intro mod_less_divisor) linarith
  obtain t where t: "deref (tasks m) (ts ! (Suc i mod length ts)) = Inr t" "tasks m (ts ! (Suc i mod length ts)) = Some t"
    using run_queue_nth [OF q j] by blast
  then have "page_directory t \<noteq> 0" using dirs nth_mem [OF j] by (auto simp: task_dirs_def)
  note sw = task_switch_ok [OF t(1) this]
  have "ts ! (Suc i mod length ts) \<noteq> 0" using q nth_mem [OF j] unfolding run_queue_def by metis
  then have "task_next m = Inr (registers t, switched m (ts ! (Suc i mod length ts)) (load32 (mem m) (page_directory t)))"
    using t by (simp add: task_next_def task_get_next_nth [OF q i cur] sw task_return_def)
  with t(2) run_queue_switched [OF q nth_mem [OF j]] show ?thesis by blast
qed

section \<open>Leaving the queue\<close>

text \<open>
  What the removal of \<open>a\<close> from \<open>us @ a # vs\<close> does: the scheduler's list is right afterwards. The task behind \<open>a\<close> keeps \<open>a\<close>
  as its \<^verbatim>\<open>prev\<close>: only the removal of the last task keeps the list right both ways.
\<close>

lemma last_of_mem: "ts \<noteq> [] \<Longrightarrow> last_of p ts \<in> set ts"
  by (simp add: last_of_def)

lemma first_of_mem: "ts \<noteq> [] \<Longrightarrow> first_of ts e \<in> set ts"
  by (cases ts) auto

definition unlink_next :: "(u32 \<rightharpoonup> Task) \<Rightarrow> u32 list \<Rightarrow> u32 \<Rightarrow> (u32 \<rightharpoonup> Task)" where
  "unlink_next st us e = (if us = [] then st else
     st(last us := map_option (\<lambda>t. t\<lparr>task_next_ptr := e\<rparr>) (st (last us))))"

definition removed :: "('p, 'a) task_state_scheme \<Rightarrow> u32 list \<Rightarrow> u32 \<Rightarrow> u32 list \<Rightarrow> ('p, 'a) task_state_scheme" where
  "removed m us a vs = m\<lparr>tasks := unlink_next (tasks m) us (first_of vs 0), task_head := first_of us (first_of vs 0),
     task_tail := last_of (last_of 0 us) vs,
     current_task := (if current_task m = a then first_of vs (first_of us 0) else current_task m)\<rparr>"

lemma task_list_remove_eq:
  assumes q: "task_queue m (us @ a # vs)"
  shows "task_list_remove m a = Inr (removed m us a vs)"
proof -
  obtain t where t: "tasks m a = Some t" "task_next_ptr t = first_of vs 0" "task_prev_ptr t = last_of 0 us"
    using q by (auto simp: task_queue_def run_queue_def)
  have d: "distinct (us @ a # vs)" and nz: "0 \<notin> set (us @ vs)" "a \<noteq> 0"
    and ends: "task_head m = first_of us a" "task_tail m = last_of a vs"
    using q by (auto simp: task_queue_def run_queue_def)
  have da: "deref (tasks m) a = Inr t" using t nz by (simp add: deref_def)
  have tail: "a = last_of a vs \<longleftrightarrow> vs = []" "vs \<noteq> [] \<Longrightarrow> last_of p vs = last_of q vs" for p q
    using d last_of_mem [of vs a] by (auto simp: last_of_def)
  have next0: "first_of vs 0 = 0 \<longleftrightarrow> vs = []" using nz by (cases vs) auto
  have fst: "vs \<noteq> [] \<Longrightarrow> first_of vs e = first_of vs e'" for e e' by (cases vs) auto
  show ?thesis
  proof (cases us rule: rev_cases)
    case Nil
    show ?thesis
      using Nil da t nz ends tail next0 fst
      by (auto simp: task_list_remove_def removed_def unlink_next_def task_get_next_def Let_def)
  next
    case (snoc ws c)
    then have c: "c \<noteq> 0" "c \<noteq> a" "a \<noteq> first_of ws c" using nz d first_of_mem [of "ws @ [c]" a] by auto
    obtain s where s: "tasks m c = Some s" using q snoc by (auto simp: task_queue_def run_queue_def)
    then have dc: "deref (tasks m) c = Inr s" using c by (simp add: deref_def)
    show ?thesis
      using snoc da dc s t c nz ends tail next0 fst
      by (auto simp: task_list_remove_def removed_def unlink_next_def task_get_next_def Let_def deref_def)
  qed
qed

lemma unlink_next_links:
  assumes "next_links st us a" and "distinct us"
  shows "next_links (unlink_next st us e) us e"
proof (cases us rule: rev_cases)
  case (snoc ws c)
  with assms show ?thesis by (auto simp: unlink_next_def)
qed (simp add: unlink_next_def)

lemma unlink_next_other [simp]:
  "set us \<inter> set vs = {} \<Longrightarrow> next_links (unlink_next st us e) vs e' = next_links st vs e'"
  "prev_links (unlink_next st us e) p ts = prev_links st p ts"
proof -
  show "set us \<inter> set vs = {} \<Longrightarrow> next_links (unlink_next st us e) vs e' = next_links st vs e'"
    using last_in_set [of us] by (auto simp: unlink_next_def disjoint_iff)
  show "prev_links (unlink_next st us e) p ts = prev_links st p ts"
    by (induction ts arbitrary: p) (auto simp: unlink_next_def option.map_comp comp_def)
qed

lemma run_queue_removed:
  assumes q: "task_queue m (us @ a # vs)"
  shows "run_queue (removed m us a vs) (us @ vs)"
proof -
  have d: "distinct (us @ vs)" "distinct us" "set us \<inter> set vs = {}" and nz: "0 \<notin> set (us @ vs)"
    and links: "next_links (tasks m) us a" "next_links (tasks m) vs 0"
    and cur: "current_task m \<in> set (us @ a # vs)"
    using q by (auto simp: task_queue_def run_queue_def)
  have "first_of vs (first_of us 0) \<in> set (us @ vs)" if "us @ vs \<noteq> []"
    using that by (cases vs) (auto intro: first_of_mem)
  moreover have "first_of vs (first_of us 0) = 0" if "us @ vs = []" using that by simp
  ultimately show ?thesis
    using d nz unlink_next_links [OF links(1) d(2)] links(2) cur by (auto simp: run_queue_def removed_def)
qed

lemma task_queue_removed_last:
  "task_queue m (us @ [a]) \<Longrightarrow> task_queue (removed m us a []) us"
  using run_queue_removed [of m us a "[]"] by (auto simp: task_queue_def removed_def)

section \<open>The pages of a task\<close>

text \<open>
  A task owns 1027 pages: its own, and the root, the directory and the tables of its page directory. The tasks of the
  queue own different pages.
\<close>

definition task_footprint :: "('p, 'a) task_state_scheme \<Rightarrow> u32 \<Rightarrow> nat list \<Rightarrow> bool" where
  "task_footprint m a pages \<longleftrightarrow> (\<exists>s p d ts. pages = s # p # d # ts \<and> a = block_addr s \<and>
     map_option page_directory (tasks m a) = Some (block_addr p) \<and> length ts = 1024 \<and>
     load32 (mem m) (block_addr p) = block_addr d \<and>
     (\<forall>i<1024. table_of (mem m) (block_addr d) i = block_addr (ts ! i)))"

definition pages_own :: "live \<Rightarrow> nat list list \<Rightarrow> bool" where
  "pages_own A pgs \<longleftrightarrow> distinct (concat pgs) \<and> (\<forall>x\<in>set (concat pgs). A x = Some 1)"

definition tasks_own :: "('p, 'a) task_state_scheme \<Rightarrow> live \<Rightarrow> (u32 \<times> nat list) list \<Rightarrow> bool" where
  "tasks_own m A tps \<longleftrightarrow> machine_inv m A \<and> pages_own A (map snd tps) \<and>
     (\<forall>(a, pages)\<in>set tps. task_footprint m a pages)"

lemma load32_pages:
  assumes "s < kheap_blocks" and "i < 1024" and "\<And>b. pn b = 4096 + s \<Longrightarrow> mm b = mm' b"
  shows "load32 mm (block_addr s + of_nat (4 * i)) = load32 mm' (block_addr s + of_nat (4 * i))"
proof (rule load32_cong_page)
  show "aligned4 (block_addr s + of_nat (4 * i))" using assms(1) by (intro aligned4_block) simp
  fix b assume "pn b = pn (block_addr s + of_nat (4 * i))"
  also have "\<dots> = 4096 + s" using assms(1,2) by (subst pn_add_page) simp_all
  finally show "mm b = mm' b" by (rule assms(3))
qed

lemma task_footprint_cong:
  assumes f: "task_footprint m a pages"
    and t: "map_option page_directory (tasks m' a) = map_option page_directory (tasks m a)"
    and bound: "\<forall>x\<in>set pages. x < kheap_blocks"
    and same: "\<And>b x. x \<in> set pages \<Longrightarrow> pn b = 4096 + x \<Longrightarrow> mem m' b = mem m b"
  shows "task_footprint m' a pages"
proof -
  from f obtain s p d ts where g: "pages = s # p # d # ts" "a = block_addr s"
    "map_option page_directory (tasks m a) = Some (block_addr p)" "length ts = 1024"
    "load32 (mem m) (block_addr p) = block_addr d" "\<forall>i<1024. table_of (mem m) (block_addr d) i = block_addr (ts ! i)"
    unfolding task_footprint_def by blast
  have eq: "load32 (mem m') (block_addr x + of_nat (4 * i)) = load32 (mem m) (block_addr x + of_nat (4 * i))"
    if "x \<in> set pages" "i < 1024" for x i
    using that bound same by (intro load32_pages) auto
  have "load32 (mem m') (block_addr p) = block_addr d" using eq [of p 0] g by simp
  moreover have "\<forall>i<1024. table_of (mem m') (block_addr d) i = block_addr (ts ! i)"
    using eq [of d] g by (simp add: table_of_def)
  ultimately show ?thesis unfolding task_footprint_def using g t by auto
qed

lemma footprint_pd_owned:
  assumes own: "machine_inv m A" and f: "task_footprint m a (s # p # d # ts)"
    and d: "distinct (s # p # d # ts)" and live: "\<forall>x\<in>set (s # p # d # ts). A x = Some 1"
  shows "pd_owned m A p d ts"
  using assms by (auto simp: task_footprint_def pd_owned_def)


lemma queue_heap [simp]:
  "task_queue (m\<lparr>kernel_heap := h\<rparr>) ts = task_queue m ts" "run_queue (m\<lparr>kernel_heap := h\<rparr>) ts = run_queue m ts"
  "task_queue (m\<lparr>kernel_heap := h, mem := mm\<rparr>) ts = task_queue m ts" "tasks (m\<lparr>kernel_heap := h\<rparr>) = tasks m"
  by (simp_all add: task_queue_def run_queue_def)

lemma task_free_ok:
  assumes q: "task_queue m (us @ a # vs)" and inv: "machine_inv m A" and f: "task_footprint m a pages"
    and d: "distinct pages" and live: "\<forall>x\<in>set pages. A x = Some 1"
  shows "\<exists>h'. task_free m a = Inr (0, (removed m us a vs)\<lparr>kernel_heap := h',
      tasks := (unlink_next (tasks m) us (first_of vs 0))(a := None)\<rparr>) \<and>
    machine_inv (m\<lparr>kernel_heap := h'\<rparr>) (drop_pages A pages)"
proof -
  from f obtain s p d ts where g: "pages = s # p # d # ts" "a = block_addr s"
    "map_option page_directory (tasks m a) = Some (block_addr p)"
    unfolding task_footprint_def by blast
  then obtain t where t: "tasks m a = Some t" "page_directory t = block_addr p" by auto
  have "a \<noteq> 0" using q by (auto simp: task_queue_def run_queue_def)
  with t have da: "deref (tasks m) a = Inr t" by (simp add: deref_def)
  from footprint_pd_owned [OF inv] f d live have "pd_owned m A p d ts" unfolding g by blast
  from paging_free_ok [OF this] obtain h1 where h1: "paging_free m (block_addr p) = Inr (m\<lparr>kernel_heap := h1\<rparr>)"
    and inv1: "machine_inv (m\<lparr>kernel_heap := h1\<rparr>) (drop_pages A (p # d # ts))" by blast
  have r: "task_list_remove (m\<lparr>kernel_heap := h1\<rparr>) a = Inr (removed (m\<lparr>kernel_heap := h1\<rparr>) us a vs)"
    using q by (intro task_list_remove_eq) simp
  have k: "kernel_heap (removed (m\<lparr>kernel_heap := h1\<rparr>) us a vs) = h1" by (simp add: removed_def)
  have inv2: "machine_inv (removed (m\<lparr>kernel_heap := h1\<rparr>) us a vs) (drop_pages A (p # d # ts))"
    using inv1 machine_inv_kernel_heap [of "m\<lparr>kernel_heap := h1\<rparr>" "removed (m\<lparr>kernel_heap := h1\<rparr>) us a vs"] k by simp
  have "drop_pages A (p # d # ts) s = Some 1" using d live g by (auto simp: drop_pages_def)
  from kfree_live [OF inv2 this] obtain h2 where
    h2: "kfree (removed (m\<lparr>kernel_heap := h1\<rparr>) us a vs) a = Inr ((removed (m\<lparr>kernel_heap := h1\<rparr>) us a vs)\<lparr>kernel_heap := h2\<rparr>)"
    and inv3: "machine_inv ((removed (m\<lparr>kernel_heap := h1\<rparr>) us a vs)\<lparr>kernel_heap := h2\<rparr>) ((drop_pages A (p # d # ts))(s := None))"
    unfolding g(2) by blast
  have "(drop_pages A (p # d # ts))(s := None) = drop_pages A pages" by (auto simp: drop_pages_def g)
  then have "machine_inv (m\<lparr>kernel_heap := h2\<rparr>) (drop_pages A pages)"
    using inv3 machine_inv_kernel_heap [of "(removed (m\<lparr>kernel_heap := h1\<rparr>) us a vs)\<lparr>kernel_heap := h2\<rparr>" "m\<lparr>kernel_heap := h2\<rparr>"]
    by simp
  moreover have "task_free m a = Inr (0, (removed m us a vs)\<lparr>kernel_heap := h2,
      tasks := (unlink_next (tasks m) us (first_of vs 0))(a := None)\<rparr>)"
    by (simp add: task_free_def da t(2) h1 r h2) (simp add: removed_def)
  ultimately show ?thesis by blast
qed

section \<open>Entering the queue\<close>

text \<open>The registers a new task starts with; \<open>ip\<close> is the entry point.\<close>

definition start_registers :: "u32 \<Rightarrow> Registers" where
  "start_registers ip = zero_registers\<lparr>reg_ip := ip, reg_cs := USER_CODE_SEGMENT,
     reg_esp := BIMBLEOS_PROGRAM_VIRTUAL_STACK_ADDRESS_START, reg_ss := USER_DATA_SEGMENT\<rparr>"

definition start_ip :: "(u32 \<Rightarrow> u8) \<Rightarrow> Process \<Rightarrow> fault + u32" where
  "start_ip mm p = (if filetype p = PROCESS_FILETYPE_ELF then process_entry mm p
     else Inr BIMBLEOS_PROGRAM_VIRTUAL_ADDRESS)"

definition startable :: "Process \<Rightarrow> bool" where
  "startable p \<longleftrightarrow> (filetype p = PROCESS_FILETYPE_ELF \<longrightarrow> (\<exists>f. image p = ElfImage f))"

lemma start_ip_ok: "startable p \<Longrightarrow> \<exists>ip. start_ip mm p = Inr ip"
  by (auto simp: startable_def start_ip_def process_entry_def)

definition new_task :: "u32 \<Rightarrow> u32 \<Rightarrow> u32 \<Rightarrow> u32 \<Rightarrow> Task" where
  "new_task process pd ip prev = \<lparr>task_process = process, page_directory = pd, registers = start_registers ip,
     task_next_ptr = 0, task_prev_ptr = prev\<rparr>"

lemma task_init_ok:
  assumes inv: "machine_inv m A" and room: "card (kh.used A) + 1026 \<le> kheap_blocks"
    and p: "deref (procs m) process = Inr p" "startable p"
  shows "\<exists>pp d ts h' mm ip. task_init m task process =
      Inr (0, set_task (m\<lparr>kernel_heap := h', mem := mm\<rparr>) task (new_task process (block_addr pp) ip 0)) \<and>
    machine_inv (m\<lparr>kernel_heap := h', mem := mm\<rparr>) (add_pages A (pp # d # ts)) \<and>
    (\<forall>t\<in>set (pp # d # ts). A t = None \<and> t \<notin> kh.used A) \<and> linear_pd mm pp d ts 5 \<and>
    start_ip mm p = Inr ip \<and> (\<forall>b. (\<forall>t\<in>set (pp # d # ts). pn b \<noteq> 4096 + t) \<longrightarrow> mm b = mem m b)"
proof -
  have flags: "(ucast (PAGING_IS_PRESENT OR PAGING_ACCESS_FROM_ALL) :: u8) = 5"
    by (simp add: paging_consts)
  from paging_new_ok [OF inv room, of 5] obtain pp d ts h' mm where
    run: "paging_new m 5 = Inr (block_addr pp, m\<lparr>kernel_heap := h', mem := mm\<rparr>)"
    and res: "machine_inv (m\<lparr>kernel_heap := h', mem := mm\<rparr>) (add_pages A (pp # d # ts))"
      "\<forall>t\<in>set (pp # d # ts). A t = None \<and> t \<notin> kh.used A" "linear_pd mm pp d ts 5"
      "\<forall>b. (\<forall>t\<in>set (pp # d # ts). pn b \<noteq> 4096 + t) \<longrightarrow> mm b = mem m b" by blast
  have "block_addr pp \<noteq> 0" using res(3) by (simp add: linear_pd_def less_imp_le)
  moreover obtain ip where ip: "start_ip mm p = Inr ip" using start_ip_ok [OF p(2)] by blast
  ultimately have "task_init m task process =
      Inr (0, set_task (m\<lparr>kernel_heap := h', mem := mm\<rparr>) task (new_task process (block_addr pp) ip 0))"
    using run p(1) by (simp add: task_init_def flags start_ip_def [symmetric] new_task_def start_registers_def)
  with res ip show ?thesis by blast
qed

definition appended :: "('p, 'a) task_state_scheme \<Rightarrow> u32 list \<Rightarrow> u32 \<Rightarrow> Task \<Rightarrow> ('p, 'a) task_state_scheme" where
  "appended m ts a t = m\<lparr>tasks := (unlink_next (tasks m) ts a)(a \<mapsto> t\<lparr>task_prev_ptr := last_of 0 ts\<rparr>),
     task_head := first_of ts a, task_tail := a, current_task := (if ts = [] then a else current_task m)\<rparr>"

lemma task_queue_appended:
  assumes q: "task_queue m ts" and a: "a \<notin> set ts" "a \<noteq> 0" and t: "task_next_ptr t = 0"
  shows "task_queue (appended m ts a t) (ts @ [a])"
proof -
  have "next_links (tasks m) ts 0" "distinct ts" using q by (simp_all add: task_queue_def run_queue_def)
  then have "next_links (unlink_next (tasks m) ts a) ts a" by (rule unlink_next_links)
  then show ?thesis using q a t by (auto simp: task_queue_def run_queue_def appended_def)
qed

lemma task_new_eq:
  assumes q: "task_queue m ts" and inv: "machine_inv m A"
    and room: "card (kh.used A) + 1027 \<le> kheap_blocks"
    and ts: "\<And>a. a \<in> set ts \<Longrightarrow> \<exists>s\<in>kh.used A. a = block_addr s \<and> s < kheap_blocks"
    and p: "deref (procs m) process = Inr p" "startable p"
  shows "\<exists>s pp d tts h' mm ip. task_new m process = Inr (block_addr s,
      appended (m\<lparr>kernel_heap := h', mem := mm\<rparr>) ts (block_addr s) (new_task process (block_addr pp) ip 0)) \<and>
    machine_inv (m\<lparr>kernel_heap := h', mem := mm\<rparr>) (add_pages A (s # pp # d # tts)) \<and>
    (\<forall>t\<in>set (s # pp # d # tts). A t = None \<and> t \<notin> kh.used A) \<and> linear_pd mm pp d tts 5 \<and>
    distinct (s # pp # d # tts) \<and> block_addr s \<notin> set ts \<and> s < kheap_blocks \<and>
    start_ip mm p = Inr ip \<and> (\<forall>b. (\<forall>t\<in>set (s # pp # d # tts). pn b \<noteq> 4096 + t) \<longrightarrow> mm b = mem m b)"
proof -
  have "card (kh.used A) < kheap_blocks" using room by simp
  from kzalloc_page [OF inv _ _ this, of 64] obtain s h1 m1 where
    z: "kzalloc m 64 = Inr (block_addr s, m\<lparr>kernel_heap := h1, mem := m1\<rparr>)"
    and inv1: "machine_inv (m\<lparr>kernel_heap := h1, mem := m1\<rparr>) (A(s \<mapsto> 1))"
    and s: "s < kheap_blocks" "s \<notin> kh.used A" "A s = None"
    and used1: "kh.used (A(s \<mapsto> 1)) = insert s (kh.used A)"
    and frame1: "\<And>b. pn b \<noteq> pn (block_addr s) \<Longrightarrow> m1 b = mem m b" by auto
  let ?m1 = "m\<lparr>kernel_heap := h1, mem := m1\<rparr>"
  have room1: "card (kh.used (A(s \<mapsto> 1))) + 1026 \<le> kheap_blocks"
    using room s(2) card_insert_le_m1 [of "card (kh.used A) + 1" "kh.used A" s]
    unfolding used1 by (cases "finite (kh.used A)") simp_all
  have p1: "deref (procs ?m1) process = Inr p" using p(1) by simp
  from task_init_ok [OF inv1 room1 p1 p(2), of "block_addr s"] obtain pp d tts h2 m2 ip where
    init: "task_init ?m1 (block_addr s) process =
      Inr (0, set_task (m\<lparr>kernel_heap := h2, mem := m2\<rparr>) (block_addr s) (new_task process (block_addr pp) ip 0))"
    and inv2: "machine_inv (m\<lparr>kernel_heap := h2, mem := m2\<rparr>) (add_pages (A(s \<mapsto> 1)) (pp # d # tts))"
    and new: "\<forall>t\<in>set (pp # d # tts). (A(s \<mapsto> 1)) t = None \<and> t \<notin> kh.used (A(s \<mapsto> 1))"
    and lin: "linear_pd m2 pp d tts 5" and ip: "start_ip m2 p = Inr ip"
    and frame2: "\<forall>b. (\<forall>t\<in>set (pp # d # tts). pn b \<noteq> 4096 + t) \<longrightarrow> m2 b = m1 b"
    by (auto simp del: set_simps)
  let ?t = "new_task process (block_addr pp) ip 0"
  have fresh: "block_addr s \<notin> set ts"
    using ts s block_addr_inj [of s] by (metis less_imp_le)
  have nz: "block_addr s \<noteq> 0" using s(1) by (simp add: less_imp_le)
  have run: "task_new m process = Inr (block_addr s, appended (m\<lparr>kernel_heap := h2, mem := m2\<rparr>) ts (block_addr s) ?t)"
  proof (cases ts rule: rev_cases)
    case Nil
    then show ?thesis
      using q nz by (simp add: task_new_def z init BIMBLEOS_ALL_OK_def task_queue_def run_queue_def appended_def
          unlink_next_def new_task_def)
  next
    case (snoc us c)
    have "task_head m \<in> set ts" "0 \<notin> set ts"
      using q snoc first_of_mem [of ts 0] unfolding task_queue_def run_queue_def by simp_all
    then have "task_head m \<noteq> 0" by auto
    moreover obtain u where "tasks m c = Some u" "c \<noteq> 0" "c \<noteq> block_addr s" "task_tail m = c"
      using q fresh snoc by (auto simp: task_queue_def run_queue_def)
    ultimately show ?thesis
      using nz snoc q by (auto simp: task_new_def z init BIMBLEOS_ALL_OK_def deref_def appended_def unlink_next_def
          new_task_def Let_def task_queue_def run_queue_def)
  qed
  have new': "\<forall>t\<in>set (s # pp # d # tts). A t = None \<and> t \<notin> kh.used A" "s \<notin> set (pp # d # tts)"
    using new s unfolding used1 by (auto split: if_splits)
  have "add_pages (A(s \<mapsto> 1)) (pp # d # tts) = add_pages A (s # pp # d # tts)" by (auto simp: add_pages_def)
  moreover have "distinct (s # pp # d # tts)" using new'(2) lin by (simp add: linear_pd_def)
  moreover have "\<forall>b. (\<forall>t\<in>set (s # pp # d # tts). pn b \<noteq> 4096 + t) \<longrightarrow> m2 b = mem m b"
    using frame1 frame2 s(1) by (simp add: less_imp_le)
  ultimately show ?thesis using run inv2 new'(1) lin fresh s(1) ip by metis
qed

section \<open>The scheduler's invariant\<close>

definition scheduler_inv :: "('p, 'a) task_state_scheme \<Rightarrow> live \<Rightarrow> (u32 \<times> nat list) list \<Rightarrow> bool" where
  "scheduler_inv m A tps \<longleftrightarrow> task_queue m (map fst tps) \<and> tasks_own m A tps"

lemma live_used: "machine_inv m A \<Longrightarrow> A s = Some k \<Longrightarrow> s \<in> kh.used A \<and> s < kheap_blocks"
proof -
  assume "machine_inv m A" and "A s = Some k"
  moreover from this have "0 < k \<and> s + k \<le> kheap_blocks" by (rule machine_inv_bounds)
  ultimately have "covers A s k s" "s < kheap_blocks" by (simp_all add: covers_def)
  then show ?thesis by (auto simp: kh.used_def)
qed

lemma own_task_address:
  assumes "tasks_own m A tps" and "(a, pages) \<in> set tps"
  shows "\<exists>s\<in>kh.used A. a = block_addr s \<and> s < kheap_blocks \<and> s \<in> set pages"
proof -
  obtain s ps where "pages = s # ps" "a = block_addr s"
    using assms unfolding tasks_own_def task_footprint_def by fastforce
  moreover have "A s = Some 1" using assms \<open>pages = s # ps\<close> by (force simp: tasks_own_def pages_own_def)
  moreover have "s \<in> kh.used A \<and> s < kheap_blocks"
    using assms(1) calculation(3) by (intro live_used) (auto simp: tasks_own_def)
  ultimately show ?thesis by auto
qed

lemma pages_own_bound: "machine_inv m A \<Longrightarrow> pages_own A pgs \<Longrightarrow> pages \<in> set pgs \<Longrightarrow> x \<in> set pages \<Longrightarrow> x < kheap_blocks"
  using live_used [of m A x 1] by (auto simp: pages_own_def)

lemma unlink_next_dirs [simp]:
  "map_option page_directory (unlink_next st us e b) = map_option page_directory (st b)"
  by (auto simp: unlink_next_def option.map_comp comp_def)

lemma task_footprint_more:
  assumes "tasks_own m A tps" and "(b, pages) \<in> set tps"
    and "map_option page_directory (tasks m' b) = map_option page_directory (tasks m b)"
    and "\<And>c x. x \<in> set pages \<Longrightarrow> pn c = 4096 + x \<Longrightarrow> mem m' c = mem m c"
  shows "task_footprint m' b pages"
proof (rule task_footprint_cong)
  show "task_footprint m b pages" using assms(1,2) by (auto simp: tasks_own_def)
  show "\<forall>x\<in>set pages. x < kheap_blocks"
    using assms(1,2) pages_own_bound [of m A "map snd tps" pages] by (force simp: tasks_own_def)
qed (use assms(3,4) in auto)

text \<open>\<^verbatim>\<open>task_new\<close> puts a new task at the end; the rest of the queue keeps its pages.\<close>

lemma task_new_inv:
  assumes inv: "scheduler_inv m A tps" and room: "card (kh.used A) + 1027 \<le> kheap_blocks"
    and p: "deref (procs m) process = Inr p" "startable p"
  shows "\<exists>a pages m' pd ip d tts. task_new m process = Inr (a, m') \<and>
    m' = appended (m\<lparr>kernel_heap := kernel_heap m', mem := mem m'\<rparr>) (map fst tps) a (new_task process pd ip 0) \<and>
    scheduler_inv m' (add_pages A pages) (tps @ [(a, pages)]) \<and> (\<forall>x\<in>set pages. A x = None \<and> x \<notin> kh.used A) \<and>
    a \<notin> set (map fst tps) \<and> start_ip (mem m') p = Inr ip \<and>
    (\<exists>q. pd = block_addr q \<and> linear_pd (mem m') q d tts 5) \<and>
    (\<forall>b. (\<forall>x\<in>set pages. pn b \<noteq> 4096 + x) \<longrightarrow> mem m' b = mem m b)"
proof -
  let ?ts = "map fst tps"
  have q: "task_queue m ?ts" and own: "tasks_own m A tps" and mi: "machine_inv m A"
    using inv by (simp_all add: scheduler_inv_def tasks_own_def)
  have "\<exists>s\<in>kh.used A. a = block_addr s \<and> s < kheap_blocks" if "a \<in> set ?ts" for a
    using that own_task_address [OF own, of a] by fastforce
  from task_new_eq [OF q mi room this p] obtain s pp d tts h' mm ip where
    run: "task_new m process = Inr (block_addr s,
      appended (m\<lparr>kernel_heap := h', mem := mm\<rparr>) ?ts (block_addr s) (new_task process (block_addr pp) ip 0))"
    and mi': "machine_inv (m\<lparr>kernel_heap := h', mem := mm\<rparr>) (add_pages A (s # pp # d # tts))"
    and new: "\<forall>t\<in>set (s # pp # d # tts). A t = None \<and> t \<notin> kh.used A" and lin: "linear_pd mm pp d tts 5"
    and dist: "distinct (s # pp # d # tts)" and s: "block_addr s \<notin> set ?ts" "s < kheap_blocks"
    and ip: "start_ip mm p = Inr ip"
    and frame: "\<forall>b. (\<forall>t\<in>set (s # pp # d # tts). pn b \<noteq> 4096 + t) \<longrightarrow> mm b = mem m b" by metis
  define pages where "pages = s # pp # d # tts"
  define m' where "m' = appended (m\<lparr>kernel_heap := h', mem := mm\<rparr>) ?ts (block_addr s) (new_task process (block_addr pp) ip 0)"
  have fields: "mem m' = mm" "kernel_heap m' = h'" by (simp_all add: m'_def appended_def)
  have eq: "m' = appended (m\<lparr>kernel_heap := kernel_heap m', mem := mem m'\<rparr>) ?ts (block_addr s)
      (new_task process (block_addr pp) ip 0)" unfolding fields unfolding m'_def ..
  have q0: "task_queue (m\<lparr>kernel_heap := h', mem := mm\<rparr>) ?ts" using q by simp
  have nz: "block_addr s \<noteq> 0" using s(2) by (simp add: less_imp_le)
  have q': "task_queue m' (map fst (tps @ [(block_addr s, pages)]))"
    using task_queue_appended [OF q0 s(1) nz, of "new_task process (block_addr pp) ip 0"]
    by (simp add: m'_def) (simp add: new_task_def)
  have mi2: "machine_inv m' (add_pages A pages)"
    using mi' machine_inv_kernel_heap [of m' "m\<lparr>kernel_heap := h', mem := mm\<rparr>"] fields by (simp add: pages_def)
  have live: "\<forall>x\<in>set (concat (map snd tps)). A x = Some 1" "distinct (concat (map snd tps))"
    using own by (simp_all add: tasks_own_def pages_own_def)
  then have po: "pages_own (add_pages A pages) (map snd (tps @ [(block_addr s, pages)]))"
    using new dist by (fastforce simp: pages_own_def add_pages_def pages_def [symmetric])
  have old: "task_footprint m' b pgs" if b: "(b, pgs) \<in> set tps" for b pgs
  proof (rule task_footprint_more [OF own b])
    have "b \<noteq> block_addr s" using b s(1) by force
    then show "map_option page_directory (tasks m' b) = map_option page_directory (tasks m b)"
      by (simp add: m'_def appended_def)
    fix c x assume x: "x \<in> set pgs" "pn c = 4096 + x"
    have "x \<notin> set pages" using live(1) new b x(1) by (fastforce simp: pages_def [symmetric])
    then have "\<forall>t\<in>set pages. pn c \<noteq> 4096 + t" using x(2) by auto
    with frame show "mem m' c = mem m c" by (simp add: fields pages_def)
  qed
  have "task_footprint m' (block_addr s) pages"
    unfolding task_footprint_def
    using lin linear_table_of [OF lin] dist
    by (auto simp: pages_def fields linear_pd_def m'_def appended_def new_task_def)
  with old po mi2 q' have "scheduler_inv m' (add_pages A pages) (tps @ [(block_addr s, pages)])"
    by (auto simp: scheduler_inv_def tasks_own_def)
  note inv' = this
  have run': "task_new m process = Inr (block_addr s, m')" using run by (simp only: m'_def)
  have rest: "\<forall>x\<in>set pages. A x = None \<and> x \<notin> kh.used A" "start_ip (mem m') p = Inr ip" "linear_pd (mem m') pp d tts 5"
    "\<forall>b. (\<forall>x\<in>set pages. pn b \<noteq> 4096 + x) \<longrightarrow> mem m' b = mem m b"
    using new ip lin frame unfolding pages_def fields by blast+
  show ?thesis
    by (intro exI conjI, rule run', rule eq, rule inv', rule rest(1), rule s(1), rule rest(2), rule refl, rule rest(3),
      rule rest(4))
qed

text \<open>
  \<^verbatim>\<open>task_free\<close> of any task of the queue: the scheduler's list loses it, its pages return to the heap, the other
  tasks keep theirs.
\<close>

lemma tasks_own_drop:
  assumes own: "tasks_own m A (xs @ (a, pages) # ys)" and inv: "machine_inv m' (drop_pages A pages)"
    and dirs: "\<And>b. b \<in> set (map fst (xs @ ys)) \<Longrightarrow>
      map_option page_directory (tasks m' b) = map_option page_directory (tasks m b)"
    and same: "mem m' = mem m"
  shows "tasks_own m' (drop_pages A pages) (xs @ ys)"
proof -
  have "pages_own (drop_pages A pages) (map snd (xs @ ys))"
    using own by (fastforce simp: tasks_own_def pages_own_def drop_pages_def)
  moreover have "task_footprint m' b pgs" if b: "(b, pgs) \<in> set (xs @ ys)" for b pgs
  proof (rule task_footprint_more [OF own])
    show "(b, pgs) \<in> set (xs @ (a, pages) # ys)" using b by auto
    show "map_option page_directory (tasks m' b) = map_option page_directory (tasks m b)"
      using b by (intro dirs) force
  qed (simp add: same)
  ultimately show ?thesis using inv by (auto simp: tasks_own_def)
qed

lemma task_free_inv:
  assumes inv: "scheduler_inv m A (xs @ (a, pages) # ys)"
  shows "\<exists>m'. task_free m a = Inr (0, m') \<and> run_queue m' (map fst (xs @ ys)) \<and>
    tasks_own m' (drop_pages A pages) (xs @ ys) \<and> prev_links (tasks m') 0 (map fst xs) \<and>
    prev_links (tasks m') a (map fst ys) \<and> tasks m' a = None \<and> mem m' = mem m \<and>
    m' = (removed m (map fst xs) a (map fst ys))\<lparr>kernel_heap := kernel_heap m', tasks := tasks m'\<rparr>"
proof -
  let ?us = "map fst xs" and ?vs = "map fst ys"
  have q: "task_queue m (?us @ a # ?vs)" and own: "tasks_own m A (xs @ (a, pages) # ys)" and mi: "machine_inv m A"
    using inv by (simp_all add: scheduler_inv_def tasks_own_def)
  have f: "task_footprint m a pages" "distinct pages" "\<forall>x\<in>set pages. A x = Some 1"
    using own by (auto simp: tasks_own_def pages_own_def)
  have na: "a \<notin> set ?us" "a \<notin> set ?vs" "distinct (?us @ ?vs)"
    using q by (auto simp: task_queue_def run_queue_def)
  from task_free_ok [OF q mi f] obtain h' where
    run: "task_free m a = Inr (0, (removed m ?us a ?vs)\<lparr>kernel_heap := h',
      tasks := (unlink_next (tasks m) ?us (first_of ?vs 0))(a := None)\<rparr>)"
    and mi': "machine_inv (m\<lparr>kernel_heap := h'\<rparr>) (drop_pages A pages)" by blast
  define m' where "m' = (removed m ?us a ?vs)\<lparr>kernel_heap := h',
      tasks := (unlink_next (tasks m) ?us (first_of ?vs 0))(a := None)\<rparr>"
  have fields: "kernel_heap m' = h'" "mem m' = mem m" "tasks m' = (unlink_next (tasks m) ?us (first_of ?vs 0))(a := None)"
    by (simp_all add: m'_def removed_def)
  have eq: "m' = (removed m ?us a ?vs)\<lparr>kernel_heap := kernel_heap m', tasks := tasks m'\<rparr>"
    unfolding fields unfolding m'_def ..
  have "run_queue (removed m ?us a ?vs) (?us @ ?vs)" using run_queue_removed [OF q] .
  then have rq: "run_queue m' (map fst (xs @ ys))"
    using na by (simp add: run_queue_def m'_def) (auto simp: removed_def)
  have links: "prev_links (tasks m') 0 ?us" "prev_links (tasks m') a ?vs"
    using q na by (simp_all add: fields task_queue_def)
  have "machine_inv m' (drop_pages A pages)"
    using mi' machine_inv_kernel_heap [of m' "m\<lparr>kernel_heap := h'\<rparr>"] fields by simp
  then have "tasks_own m' (drop_pages A pages) (xs @ ys)"
    using na by (intro tasks_own_drop [OF own]) (auto simp: fields)
  then show ?thesis
    using run rq links eq fields unfolding m'_def [symmetric] by auto
qed

section \<open>Properties\<close>

text \<open>A machine with no task, and one process in memory.\<close>

definition demo_process :: Process where
  "demo_process = \<lparr>proc_id = 0, proc_filename = [], proc_task = 0, allocations = [],
     filetype = PROCESS_FILETYPE_BINARY, image = BinaryImage 0x2000000, proc_stack = 0, proc_size = 0,
     keyboard = \<lparr>kb_buffer = replicate 1024 0, kb_tail = 0, kb_head = 0\<rparr>, arguments = \<lparr>argc = 0, argv = 0\<rparr>\<rparr>"

lemma demo_scheduler:
  "\<exists>m :: 'p task_state. scheduler_inv m Map.empty [] \<and> deref (procs m) 0x5000 = Inr demo_process"
proof -
  obtain m0 :: "'p task_state" where m0: "machine_inv m0 Map.empty"
    using kheap_init_ok [of "replicate kheap_blocks 0"] by fastforce
  let ?m = "m0\<lparr>tasks := Map.empty, procs := [0x5000 \<mapsto> demo_process], current_task := 0, task_tail := 0, task_head := 0\<rparr>"
  have "machine_inv ?m Map.empty" using m0 machine_inv_kernel_heap [of ?m m0] by simp
  then have "scheduler_inv ?m Map.empty []"
    by (simp add: scheduler_inv_def task_queue_def run_queue_def tasks_own_def pages_own_def)
  moreover have "deref (procs ?m) 0x5000 = Inr demo_process" by (simp add: deref_def)
  ultimately show ?thesis by blast
qed

lemma demo_startable: "startable demo_process"
  by (simp add: startable_def demo_process_def PROCESS_FILETYPE_ELF_def PROCESS_FILETYPE_BINARY_def)

lemma used_empty [simp]: "kh.used Map.empty = {}"
  by (simp add: kh.used_def covers_def)

text \<open>
  C14: With 1027 free pages, \<^verbatim>\<open>task_new\<close> appends a task to the queue of the scheduler and gives it 1027 pages nobody
  owned: the task refers to its process, starts at the entry point with the user segments and the user stack, and its page
  directory is the identity, present and readable but not writable by the user. The other tasks stay where they are.
\<close>

theorem task_new_appends:
  assumes inv: "scheduler_inv m A tps" and room: "card (kh.used A) + 1027 \<le> kheap_blocks"
    and p: "deref (procs m) process = Inr p" "startable p"
  shows "\<exists>a pages m' t ip dir. task_new m process = Inr (a, m') \<and>
    scheduler_inv m' (add_pages A pages) (tps @ [(a, pages)]) \<and> (\<forall>x\<in>set pages. x \<notin> kh.used A) \<and>
    tasks m' a = Some t \<and> task_process t = process \<and> registers t = start_registers ip \<and> start_ip (mem m') p = Inr ip \<and>
    pd_root (mem m') (page_directory t) dir \<and> (\<forall>va. pd_entry (mem m') dir va = (va AND 0xfffff000) OR 5) \<and>
    current_task m' = (if tps = [] then a else current_task m)"
proof -
  from task_new_inv [OF inv room p] obtain a pages m' pd ip d tts q where
    run: "task_new m process = Inr (a, m')"
    and eq: "m' = appended (m\<lparr>kernel_heap := kernel_heap m', mem := mem m'\<rparr>) (map fst tps) a (new_task process pd ip 0)"
    and res: "scheduler_inv m' (add_pages A pages) (tps @ [(a, pages)])" "\<forall>x\<in>set pages. A x = None \<and> x \<notin> kh.used A"
      "start_ip (mem m') p = Inr ip"
    and pd: "pd = block_addr q" "linear_pd (mem m') q d tts 5" by metis
  have t: "tasks m' a = Some ((new_task process pd ip 0)\<lparr>task_prev_ptr := last_of 0 (map fst tps)\<rparr>)"
    by (subst eq) (simp add: appended_def)
  have cur: "current_task m' = (if tps = [] then a else current_task m)"
    by (subst eq) (simp add: appended_def)
  from pd have "pd_root (mem m') pd (block_addr d)" "\<forall>va. pd_entry (mem m') (block_addr d) va = (va AND 0xfffff000) OR 5"
    by (simp_all add: linear_pd_root linear_pd_entry)
  then show ?thesis
    using run res t cur
    by (intro exI conjI) (assumption | simp add: new_task_def)+
qed

theorem task_new_appends_witness:
  "\<exists>(m :: nat task_state) a m'. task_new m 0x5000 = Inr (a, m') \<and> current_task m' = a \<and> task_queue m' [a]"
proof -
  obtain m :: "nat task_state" where m: "scheduler_inv m Map.empty []" "deref (procs m) 0x5000 = Inr demo_process"
    using demo_scheduler by blast
  have "card (kh.used Map.empty) + 1027 \<le> kheap_blocks" by (simp add: kheap_blocks_def)
  from task_new_appends [OF m(1) this m(2) demo_startable] obtain a pages m' where
    "task_new m 0x5000 = Inr (a, m')" "scheduler_inv m' (add_pages Map.empty pages) [(a, pages)]" "current_task m' = a"
    by auto
  then show ?thesis unfolding scheduler_inv_def by auto
qed

text \<open>
  Creating a task and freeing it at once gives the kernel heap and the queue back as they were: \<^verbatim>\<open>task_free\<close> returns all
  1027 pages and takes the task out of the list.
\<close>

theorem task_new_free_roundtrip:
  assumes inv: "scheduler_inv m A tps" and room: "card (kh.used A) + 1027 \<le> kheap_blocks"
    and p: "deref (procs m) process = Inr p" "startable p"
  shows "\<exists>a m1 m2. task_new m process = Inr (a, m1) \<and> task_free m1 a = Inr (0, m2) \<and>
    kernel_heap m2 = kernel_heap m \<and> scheduler_inv m2 A tps \<and> current_task m2 = current_task m"
proof -
  from task_new_inv [OF inv room p] obtain a pages m1 t where
    run: "task_new m process = Inr (a, m1)"
    and eq: "m1 = appended (m\<lparr>kernel_heap := kernel_heap m1, mem := mem m1\<rparr>) (map fst tps) a t"
    and res: "scheduler_inv m1 (add_pages A pages) (tps @ [(a, pages)])" "\<forall>x\<in>set pages. A x = None"
    and a: "a \<notin> set (map fst tps)" by metis
  from task_free_inv [of m1 "add_pages A pages" tps a pages "[]"] res(1) obtain m2 where
    free: "task_free m1 a = Inr (0, m2)" "run_queue m2 (map fst tps)" "tasks_own m2 A tps"
      "prev_links (tasks m2) 0 (map fst tps)"
    and eq2: "m2 = (removed m1 (map fst tps) a [])\<lparr>kernel_heap := kernel_heap m2, tasks := tasks m2\<rparr>"
    using drop_add_pages [OF res(2)] by auto
  have "scheduler_inv m2 A tps" using free by (simp add: scheduler_inv_def task_queue_def)
  moreover have "kernel_heap m2 = kernel_heap m"
    using machine_inv_functional [of m2 A m] inv calculation by (simp add: scheduler_inv_def tasks_own_def)
  moreover have "current_task m1 = (if tps = [] then a else current_task m)" by (subst eq) (simp add: appended_def)
  then have "current_task m2 = current_task m"
    using a inv by (subst eq2) (auto simp: removed_def scheduler_inv_def task_queue_def run_queue_def)
  ultimately show ?thesis using run free(1) by blast
qed

theorem task_new_free_roundtrip_witness:
  "\<exists>(m :: nat task_state) a m1 m2. task_new m 0x5000 = Inr (a, m1) \<and> task_free m1 a = Inr (0, m2) \<and>
     kernel_heap m2 = kernel_heap m \<and> current_task m2 = 0"
proof -
  obtain m :: "nat task_state" where m: "scheduler_inv m Map.empty []" "deref (procs m) 0x5000 = Inr demo_process"
    using demo_scheduler by blast
  have "card (kh.used Map.empty) + 1027 \<le> kheap_blocks" by (simp add: kheap_blocks_def)
  moreover have "current_task m = 0" using m(1) by (simp add: scheduler_inv_def task_queue_def run_queue_def)
  ultimately show ?thesis using task_new_free_roundtrip [OF m(1) _ m(2) demo_startable] by metis
qed

text \<open>
  C37: Freeing two neighbouring tasks in the order of the queue goes wrong: \<^verbatim>\<open>task_list_remove\<close> leaves the \<^verbatim>\<open>prev\<close> pointer of
  the task behind the removed one as it is, so freeing that task next writes through a pointer to freed memory.
\<close>

theorem task_free_in_order_dangles:
  assumes inv: "scheduler_inv m A (xs @ (a, pa) # (b, pb) # ys)"
  shows "\<exists>m1. task_free m a = Inr (0, m1) \<and> run_queue m1 (map fst (xs @ (b, pb) # ys)) \<and>
    task_free m1 b = Inl UseAfterFree"
proof -
  from task_free_inv [OF inv] obtain m1 where
    run: "task_free m a = Inr (0, m1)" "run_queue m1 (map fst (xs @ (b, pb) # ys))"
    and own: "tasks_own m1 (drop_pages A pa) (xs @ (b, pb) # ys)"
    and links: "prev_links (tasks m1) a (b # map fst ys)" "tasks m1 a = None" by auto
  have b: "b \<noteq> 0" "a \<noteq> 0" using inv by (auto simp: scheduler_inv_def task_queue_def run_queue_def)
  have f: "task_footprint m1 b pb" "distinct pb" "\<forall>x\<in>set pb. drop_pages A pa x = Some 1"
    and mi: "machine_inv m1 (drop_pages A pa)"
    using own by (auto simp: tasks_own_def pages_own_def)
  from f(1) obtain s p d ts where g: "pb = s # p # d # ts" "map_option page_directory (tasks m1 b) = Some (block_addr p)"
    unfolding task_footprint_def by blast
  then obtain t where t: "tasks m1 b = Some t" "page_directory t = block_addr p" "task_prev_ptr t = a"
    using links(1) by auto
  from footprint_pd_owned [OF mi] f have "pd_owned m1 (drop_pages A pa) p d ts" unfolding g by blast
  from paging_free_ok [OF this] obtain h where "paging_free m1 (block_addr p) = Inr (m1\<lparr>kernel_heap := h\<rparr>)" by blast
  then have "task_free m1 b = Inl UseAfterFree"
    using t b links(2) by (simp add: task_free_def task_list_remove_def deref_def)
  with run show ?thesis by blast
qed

theorem task_free_in_order_dangles_witness:
  "\<exists>(m :: nat task_state) a b m1. task_queue m [a, b] \<and> task_free m a = Inr (0, m1) \<and> task_free m1 b = Inl UseAfterFree"
proof -
  obtain m :: "nat task_state" where m: "scheduler_inv m Map.empty []" "deref (procs m) 0x5000 = Inr demo_process"
    using demo_scheduler by blast
  have r: "card (kh.used Map.empty) + 1027 \<le> kheap_blocks" by (simp add: kheap_blocks_def)
  from task_new_inv [OF m(1) r m(2) demo_startable] obtain a pa t and m1 :: "nat task_state" where
    m1: "scheduler_inv m1 (add_pages Map.empty pa) [(a, pa)]"
      "m1 = appended (m\<lparr>kernel_heap := kernel_heap m1, mem := mem m1\<rparr>) [] a t" by auto
  have "procs m1 = procs m" by (subst m1(2)) (simp add: appended_def)
  then have p: "deref (procs m1) 0x5000 = Inr demo_process" using m(2) by simp
  have "length pa = 1027" using m1(1) by (auto simp: scheduler_inv_def tasks_own_def task_footprint_def)
  then have "card (kh.used (add_pages Map.empty pa)) + 1027 \<le> kheap_blocks"
    by (intro room_add_pages) (simp_all add: kheap_blocks_def)
  from task_new_inv [OF m1(1) this p demo_startable] obtain b pb and m2 :: "nat task_state" where
    "scheduler_inv m2 (add_pages (add_pages Map.empty pa) pb) ([(a, pa)] @ [(b, pb)])" by blast
  then obtain A where m2: "scheduler_inv m2 A [(a, pa), (b, pb)]" by auto
  then have "task_queue m2 [a, b]" by (simp add: scheduler_inv_def)
  with task_free_in_order_dangles [of m2 A "[]" a pa b pb "[]"] m2 show ?thesis by auto
qed

end
