(* ===== verification/Processes.thy ===== *)
theory Processes
  imports TaskList
begin

text \<open>
  Processes (\<^verbatim>\<open>task/process.c\<close>): the table of the twelve processes, loading a program from a file into a process
  with a task and a stack, the memory a process allocates for itself, and the end of a process. Pointers to processes
  are addresses; an out parameter is the value before and the value after.
\<close>

section \<open>The process table\<close>

definition zero_process :: Process where
  "zero_process = \<lparr>proc_id = 0, proc_filename = replicate BIMBLEOS_MAX_PATH 0, proc_task = 0,
     allocations = replicate BIMBLEOS_MAX_PROGRAM_ALLOCATIONS \<lparr>alloc_ptr = 0, alloc_size = 0\<rparr>, filetype = 0,
     image = ZeroImage, proc_stack = 0, proc_size = 0,
     keyboard = \<lparr>kb_buffer = replicate BIMBLEOS_KEYBOARD_BUFFER_SIZE 0, kb_tail = 0, kb_head = 0\<rparr>,
     arguments = \<lparr>argc = 0, argv = 0\<rparr>\<rparr>"

definition process_init :: "('p, 'a) task_state_scheme \<Rightarrow> u32 \<Rightarrow> ('p, 'a) task_state_scheme" where
  "process_init m process = set_proc m process zero_process"

definition process_current :: "('p, 'a) task_state_scheme \<Rightarrow> u32" where
  "process_current m = current_process m"

definition process_get :: "('p, 'a) task_state_scheme \<Rightarrow> int \<Rightarrow> fault + u32" where
  "process_get m process_id =
     (if process_id < 0 \<or> int BIMBLEOS_MAX_PROCESSES \<le> process_id then Inr 0 else areadi (processes m) process_id)"

definition process_switch :: "('p, 'a) task_state_scheme \<Rightarrow> u32 \<Rightarrow> ('p, 'a) task_state_scheme" where
  "process_switch m process = m\<lparr>current_process := process\<rparr>"

text \<open>The first slot from \<open>i\<close> on that satisfies \<open>P\<close>.\<close>

primrec first_slot :: "('x \<Rightarrow> bool) \<Rightarrow> 'x list \<Rightarrow> nat \<Rightarrow> nat option" where
  "first_slot P [] i = None"
| "first_slot P (x # xs) i = (if P x then Some i else first_slot P xs (Suc i))"

definition process_get_free_slot :: "('p, 'a) task_state_scheme \<Rightarrow> int" where
  "process_get_free_slot m = (case first_slot (\<lambda>p. p = 0) (processes m) 0 of Some i \<Rightarrow> int i | None \<Rightarrow> - EISTKN)"

section \<open>Loading\<close>

text \<open>
  \<^verbatim>\<open>program_data_ptr\<close> is declared behind the first two jumps to \<^verbatim>\<open>out\<close>: there it is read uninitialised when \<open>res\<close> is
  negative. \<open>load_binary_out\<close> is the code from \<^verbatim>\<open>out\<close> on; \<open>None\<close> is the uninitialised pointer.
\<close>

definition load_binary_out ::
  "(string \<Rightarrow> (('p, 'a) task_state_scheme, 'p) Filesystem) \<Rightarrow> ('p, 'a) task_state_scheme \<Rightarrow> int \<Rightarrow> u32 option \<Rightarrow> int \<Rightarrow>
     fault + (int \<times> ('p, 'a) task_state_scheme)" where
  "load_binary_out fs m res ptr fd =
     bindE (if res < 0
            then (case ptr of None \<Rightarrow> Inl Uninitialised | Some p \<Rightarrow> if p \<noteq> 0 then kfree m p else Inr m)
            else Inr m) (\<lambda>m1.
     bindE (fclose fs m1 fd) (\<lambda>(_, m2). Inr (res, m2)))"

definition process_load_binary ::
  "(string \<Rightarrow> (('p, 'a) task_state_scheme, 'p) Filesystem) \<Rightarrow> ('p, 'a) task_state_scheme \<Rightarrow> u8 list \<Rightarrow> u32 \<Rightarrow>
     fault + (int \<times> ('p, 'a) task_state_scheme)" where
  "process_load_binary fs m fname process =
     bindE (fopen fs m fname [0x72, 0]) (\<lambda>(fd, m1).
       if fd = 0 then load_binary_out fs m1 (- EIO) None fd
       else bindE (fstat fs m1 fd \<lparr>stat_flags = 0, stat_filesize = 0\<rparr>) (\<lambda>(res, stat).
         if res \<noteq> BIMBLEOS_ALL_OK then load_binary_out fs m1 res None fd
         else bindE (kzalloc m1 (stat_filesize stat)) (\<lambda>(ptr, m2).
           if ptr = 0 then load_binary_out fs m2 (- ENOMEM) (Some ptr) fd
           else bindE (fread fs m2 (stat_filesize stat) 1 fd) (\<lambda>(count, bytes, m3).
             bindE (put_bytes m3 ptr bytes) (\<lambda>m4.
               if count \<noteq> 1 then load_binary_out fs m4 (- EIO) (Some ptr) fd
               else bindE (deref (procs m4) process) (\<lambda>p.
                 load_binary_out fs
                   (set_proc m4 process (p\<lparr>image := BinaryImage ptr, proc_size := stat_filesize stat\<rparr>)) 0 (Some ptr) fd))))))"

definition process_load_elf ::
  "(string \<Rightarrow> (('p, 'a) task_state_scheme, 'p) Filesystem) \<Rightarrow> ('p, 'a) task_state_scheme \<Rightarrow> u8 list \<Rightarrow> u32 \<Rightarrow>
     fault + (int \<times> ('p, 'a) task_state_scheme)" where
  "process_load_elf fs m fname process =
     bindE (elf_load fs m fname) (\<lambda>(res, elf_file, m1).
       if res < 0 then Inr (res, m1)
       else bindE (deref (procs m1) process) (\<lambda>p.
         Inr (res, set_proc m1 process (p\<lparr>filetype := PROCESS_FILETYPE_ELF,
           image := (case elf_file of None \<Rightarrow> ZeroImage | Some f \<Rightarrow> ElfImage f)\<rparr>))))"

definition process_load_data ::
  "(string \<Rightarrow> (('p, 'a) task_state_scheme, 'p) Filesystem) \<Rightarrow> ('p, 'a) task_state_scheme \<Rightarrow> u8 list \<Rightarrow> u32 \<Rightarrow>
     fault + (int \<times> ('p, 'a) task_state_scheme)" where
  "process_load_data fs m fname process =
     bindE (process_load_elf fs m fname process) (\<lambda>(res, m1).
       if res = - EINFORMAT then process_load_binary fs m1 fname process else Inr (res, m1))"

section \<open>Mapping\<close>

text \<open>The two members of the union: the pointer is the same word, but only an ELF image is an \<^verbatim>\<open>Elf_file\<close>.\<close>

definition image_ptr :: "process_image \<Rightarrow> u32" where
  "image_ptr im = (case im of ZeroImage \<Rightarrow> 0 | BinaryImage p \<Rightarrow> p | ElfImage f \<Rightarrow> elf_addr f)"

definition image_elf :: "process_image \<Rightarrow> fault + Elf_file" where
  "image_elf im = (case im of ZeroImage \<Rightarrow> Inl NullPointer | BinaryImage p \<Rightarrow> Inl WrongMember | ElfImage f \<Rightarrow> Inr f)"

definition task_directory_of :: "('p, 'a) task_state_scheme \<Rightarrow> u32 \<Rightarrow> fault + u32" where
  "task_directory_of m task = bindE (deref (tasks m) task) (\<lambda>t. Inr (page_directory t))"

abbreviation USER_PAGES :: u32 where
  "USER_PAGES \<equiv> PAGING_IS_PRESENT OR PAGING_ACCESS_FROM_ALL OR PAGING_IS_WRITEABLE"

definition process_map_binary :: "('p, 'a) task_state_scheme \<Rightarrow> u32 \<Rightarrow> fault + (int \<times> ('p, 'a) task_state_scheme)" where
  "process_map_binary m process =
     bindE (deref (procs m) process) (\<lambda>p.
     bindE (task_directory_of m (proc_task p)) (\<lambda>pd.
     bindE (paging_map_to m pd BIMBLEOS_PROGRAM_VIRTUAL_ADDRESS (image_ptr (image p))
              (paging_align_address (image_ptr (image p) + proc_size p)) USER_PAGES) (\<lambda>(_, m1).
       Inr (0, m1))))"

lemma less_u16: "i < uint (x :: u16) \<Longrightarrow> i < 65536"
  using uint_lt2p [of x] by simp

function map_elf_loop ::
  "('p, 'a) task_state_scheme \<Rightarrow> Process \<Rightarrow> Elf_file \<Rightarrow> int \<Rightarrow> int \<Rightarrow> fault + (int \<times> ('p, 'a) task_state_scheme)" where
  "map_elf_loop m p f i res =
     (if i < uint (e_phnum (Elf_header_at (mem m) (elf_header f))) then
        (let phdr = Elf32_phdr_at (mem m) (elf_program_header (mem m) (elf_header f) i);
             phys = elf_phdr_phys_address f phdr;
             flags = PAGING_IS_PRESENT OR PAGING_ACCESS_FROM_ALL OR
                       (if p_flags phdr AND PF_W \<noteq> 0 then PAGING_IS_WRITEABLE else 0)
         in bindE (task_directory_of m (proc_task p)) (\<lambda>pd.
            bindE (paging_map_to m pd (paging_align_to_lower_page (p_vaddr phdr)) (paging_align_to_lower_page phys)
                     (paging_align_address (phys + p_memsz phdr)) flags) (\<lambda>(res, m1).
              if res < 0 then Inr (res, m1) else map_elf_loop m1 p f (i + 1) res)))
      else Inr (res, m))"
  by pat_completeness auto
termination
  by (relation "measure (\<lambda>(m, p, f, i, res). nat (65536 - i))") (auto dest: less_u16)

declare map_elf_loop.simps [simp del]

definition process_map_elf :: "('p, 'a) task_state_scheme \<Rightarrow> u32 \<Rightarrow> fault + (int \<times> ('p, 'a) task_state_scheme)" where
  "process_map_elf m process =
     bindE (deref (procs m) process) (\<lambda>p. bindE (image_elf (image p)) (\<lambda>f. map_elf_loop m p f 0 0))"

definition process_map_memory :: "('p, 'a) task_state_scheme \<Rightarrow> u32 \<Rightarrow> fault + (int \<times> ('p, 'a) task_state_scheme)" where
  "process_map_memory m process =
     bindE (deref (procs m) process) (\<lambda>p.
     bindE (if filetype p = PROCESS_FILETYPE_ELF then process_map_elf m process
            else if filetype p = PROCESS_FILETYPE_BINARY then process_map_binary m process
            else Inl (Panic (c_line ''process_map_memory: Invalid filetype''))) (\<lambda>(res, m1).
       if res < 0 then Inr (res, m1)
       else
         bindE (task_directory_of m1 (proc_task p)) (\<lambda>pd.
         bindE (paging_map_to m1 pd BIMBLEOS_PROGRAM_VIRTUAL_STACK_ADDRESS_END (proc_stack p)
                  (paging_align_address (proc_stack p + BIMBLEOS_USER_PROGRAM_STACK_SIZE)) USER_PAGES) (\<lambda>(_, m2).
           Inr (res, m2)))))"

section \<open>A process in a slot\<close>

text \<open>The label \<^verbatim>\<open>out\<close> of \<^verbatim>\<open>process_load_for_slot\<close>; \<open>None\<close> is the uninitialised \<^verbatim>\<open>_process\<close>.\<close>

definition load_for_slot_out ::
  "('p, 'a) task_state_scheme \<Rightarrow> int \<Rightarrow> u32 option \<Rightarrow> u32 \<Rightarrow> fault + (int \<times> u32 \<times> ('p, 'a) task_state_scheme)" where
  "load_for_slot_out m res process out =
     (if res < 0
      then (case process of None \<Rightarrow> Inl Uninitialised
            | Some pp \<Rightarrow>
                if pp = 0 then Inr (res, out, m)
                else bindE (deref (procs m) pp) (\<lambda>p.
                       if proc_task p = 0 then Inr (res, out, m)
                       else bindE (task_free m (proc_task p)) (\<lambda>(_, m1). Inr (res, out, m1))))
      else Inr (res, out, m))"

definition process_load_for_slot ::
  "(string \<Rightarrow> (('p, 'a) task_state_scheme, 'p) Filesystem) \<Rightarrow> ('p, 'a) task_state_scheme \<Rightarrow> u8 list \<Rightarrow> u32 \<Rightarrow> int \<Rightarrow>
     fault + (int \<times> u32 \<times> ('p, 'a) task_state_scheme)" where
  "process_load_for_slot fs m fname process process_slot =
     bindE (process_get m process_slot) (\<lambda>taken.
       if taken \<noteq> 0 then load_for_slot_out m (- EISTKN) None process
       else bindE (kzalloc m 9364) (\<lambda>(pp, m1).
         if pp = 0 then load_for_slot_out m1 (- ENOMEM) (Some 0) process
         else bindE (process_load_data fs (process_init m1 pp) fname pp) (\<lambda>(res, m2).
           if res < 0 then load_for_slot_out m2 res (Some pp) process
           else bindE (kzalloc m2 BIMBLEOS_USER_PROGRAM_STACK_SIZE) (\<lambda>(stack, m3).
             if stack = 0 then load_for_slot_out m3 (- ENOMEM) (Some pp) process
             else
               bindE (deref (procs m3) pp) (\<lambda>p.
               bindE (strncpy (proc_filename p) fname (int BIMBLEOS_MAX_PATH)) (\<lambda>name.
               bindE (task_new (set_proc m3 pp (p\<lparr>proc_filename := name, proc_stack := stack,
                        proc_id := word_of_int process_slot\<rparr>)) pp) (\<lambda>(task, m4).
                 if task = 0 then Inr (0, process, m4)
                 else
                   bindE (deref (procs m4) pp) (\<lambda>p.
                   bindE (process_map_memory (set_proc m4 pp (p\<lparr>proc_task := task\<rparr>)) pp) (\<lambda>(res, m5).
                     if res < 0 then load_for_slot_out m5 res (Some pp) process
                     else bindE (awritei (processes m5) process_slot pp) (\<lambda>table.
                       Inr (res, pp, m5\<lparr>processes := table\<rparr>)))))))))))"

definition process_load ::
  "(string \<Rightarrow> (('p, 'a) task_state_scheme, 'p) Filesystem) \<Rightarrow> ('p, 'a) task_state_scheme \<Rightarrow> u8 list \<Rightarrow> u32 \<Rightarrow>
     fault + (int \<times> u32 \<times> ('p, 'a) task_state_scheme)" where
  "process_load fs m fname process =
     (let process_slot = process_get_free_slot m
      in if process_slot < 0 then Inr (- EISTKN, process, m)
         else process_load_for_slot fs m fname process process_slot)"

definition process_load_switch ::
  "(string \<Rightarrow> (('p, 'a) task_state_scheme, 'p) Filesystem) \<Rightarrow> ('p, 'a) task_state_scheme \<Rightarrow> u8 list \<Rightarrow> u32 \<Rightarrow>
     fault + (int \<times> u32 \<times> ('p, 'a) task_state_scheme)" where
  "process_load_switch fs m fname process =
     bindE (process_load fs m fname process) (\<lambda>(res, process, m1).
       Inr (res, process, if res = 0 then process_switch m1 process else m1))"

section \<open>Memory of a process\<close>

definition process_find_free_allocation_index :: "Process \<Rightarrow> int" where
  "process_find_free_allocation_index p =
     (case first_slot (\<lambda>a. alloc_ptr a = 0) (allocations p) 0 of Some i \<Rightarrow> int i | None \<Rightarrow> - ENOMEM)"

definition process_malloc ::
  "('p, 'a) task_state_scheme \<Rightarrow> u32 \<Rightarrow> u32 \<Rightarrow> fault + (u32 \<times> ('p, 'a) task_state_scheme)" where
  "process_malloc m process sz =
     bindE (kzalloc m sz) (\<lambda>(ptr, m1).
       if ptr = 0 then Inr (0, m1)
       else bindE (deref (procs m1) process) (\<lambda>p.
         let i = process_find_free_allocation_index p
         in if i < 0 then bindE (kfree m1 ptr) (\<lambda>m2. Inr (0, m2))
            else
              bindE (task_directory_of m1 (proc_task p)) (\<lambda>pd.
              bindE (paging_map_to m1 pd ptr ptr (paging_align_address (ptr + sz)) USER_PAGES) (\<lambda>(res, m2).
                if res < 0 then bindE (kfree m2 ptr) (\<lambda>m3. Inr (0, m3))
                else bindE (awritei (allocations p) i \<lparr>alloc_ptr = ptr, alloc_size = sz\<rparr>) (\<lambda>as.
                  Inr (ptr, set_proc m2 process (p\<lparr>allocations := as\<rparr>)))))))"

definition process_allocation_unjoin :: "Process \<Rightarrow> u32 \<Rightarrow> Process" where
  "process_allocation_unjoin p ptr =
     p\<lparr>allocations := map (\<lambda>a. if alloc_ptr a = ptr then \<lparr>alloc_ptr = 0, alloc_size = 0\<rparr> else a) (allocations p)\<rparr>"

definition process_get_allocation_by_addr :: "Process \<Rightarrow> u32 \<Rightarrow> ProcessAllocation option" where
  "process_get_allocation_by_addr p addr =
     map_option (\<lambda>i. allocations p ! i) (first_slot (\<lambda>a. alloc_ptr a = addr) (allocations p) 0)"

definition process_free ::
  "('p, 'a) task_state_scheme \<Rightarrow> u32 \<Rightarrow> u32 \<Rightarrow> fault + ('p, 'a) task_state_scheme" where
  "process_free m process ptr =
     bindE (deref (procs m) process) (\<lambda>p.
       case process_get_allocation_by_addr p ptr of None \<Rightarrow> Inr m
       | Some allocation \<Rightarrow>
           bindE (task_directory_of m (proc_task p)) (\<lambda>pd.
           bindE (paging_map_to m pd (alloc_ptr allocation) (alloc_ptr allocation)
                    (paging_align_address (alloc_ptr allocation + alloc_size allocation)) 0) (\<lambda>(res, m1).
             if res < 0 then Inr m1
             else kfree (set_proc m1 process (process_allocation_unjoin p ptr)) ptr)))"

text \<open>The loop for \<open>i < n\<close>.\<close>

primrec terminate_allocations_loop ::
  "('p, 'a) task_state_scheme \<Rightarrow> u32 \<Rightarrow> nat \<Rightarrow> fault + ('p, 'a) task_state_scheme" where
  "terminate_allocations_loop m process 0 = Inr m"
| "terminate_allocations_loop m process (Suc i) =
     bindE (terminate_allocations_loop m process i) (\<lambda>m1.
     bindE (deref (procs m1) process) (\<lambda>p.
     bindE (aread (allocations p) i) (\<lambda>a. process_free m1 process (alloc_ptr a))))"

definition process_terminate_allocations ::
  "('p, 'a) task_state_scheme \<Rightarrow> u32 \<Rightarrow> fault + (int \<times> ('p, 'a) task_state_scheme)" where
  "process_terminate_allocations m process =
     bindE (terminate_allocations_loop m process BIMBLEOS_MAX_PROGRAM_ALLOCATIONS) (\<lambda>m1. Inr (0, m1))"

section \<open>The end of a process\<close>

definition process_free_binary_data ::
  "('p, 'a) task_state_scheme \<Rightarrow> u32 \<Rightarrow> fault + (int \<times> ('p, 'a) task_state_scheme)" where
  "process_free_binary_data m process =
     bindE (deref (procs m) process) (\<lambda>p. bindE (kfree m (image_ptr (image p))) (\<lambda>m1. Inr (0, m1)))"

definition process_free_elf_data ::
  "('p, 'a) task_state_scheme \<Rightarrow> u32 \<Rightarrow> fault + (int \<times> ('p, 'a) task_state_scheme)" where
  "process_free_elf_data m process =
     bindE (deref (procs m) process) (\<lambda>p.
     bindE (case image p of ZeroImage \<Rightarrow> Inr None | BinaryImage _ \<Rightarrow> Inl WrongMember | ElfImage f \<Rightarrow> Inr (Some f)) (\<lambda>file.
     bindE (elf_close m file) (\<lambda>m1. Inr (0, m1))))"

definition process_free_program_data ::
  "('p, 'a) task_state_scheme \<Rightarrow> u32 \<Rightarrow> fault + (int \<times> ('p, 'a) task_state_scheme)" where
  "process_free_program_data m process =
     bindE (deref (procs m) process) (\<lambda>p.
       if filetype p = PROCESS_FILETYPE_BINARY then process_free_binary_data m process
       else if filetype p = PROCESS_FILETYPE_ELF then process_free_elf_data m process
       else Inr (- EINVARG, m))"

definition process_switch_to_any :: "('p, 'a) task_state_scheme \<Rightarrow> fault + ('p, 'a) task_state_scheme" where
  "process_switch_to_any m =
     (case first_slot (\<lambda>p. p \<noteq> 0) (processes m) 0 of
        Some i \<Rightarrow> Inr (process_switch m (processes m ! i))
      | None \<Rightarrow> Inl (Panic (c_line ''No processes to switch too'')))"

definition process_unlink :: "('p, 'a) task_state_scheme \<Rightarrow> u32 \<Rightarrow> fault + ('p, 'a) task_state_scheme" where
  "process_unlink m process =
     bindE (deref (procs m) process) (\<lambda>p.
     bindE (awrite (processes m) (unat (proc_id p)) 0) (\<lambda>table.
       let m1 = m\<lparr>processes := table\<rparr>
       in if current_process m1 = process then process_switch_to_any m1 else Inr m1))"

definition process_terminate ::
  "('p, 'a) task_state_scheme \<Rightarrow> u32 \<Rightarrow> fault + (int \<times> ('p, 'a) task_state_scheme)" where
  "process_terminate m process =
     bindE (process_terminate_allocations m process) (\<lambda>(res, m1).
       if res < 0 then Inr (res, m1)
       else bindE (process_free_program_data m1 process) (\<lambda>(res, m2).
         if res < 0 then Inr (res, m2)
         else
           bindE (deref (procs m2) process) (\<lambda>p.
           bindE (kfree m2 (proc_stack p)) (\<lambda>m3.
           bindE (task_free m3 (proc_task p)) (\<lambda>(_, m4).
           bindE (process_unlink m4 process) (\<lambda>m5. Inr (res, m5)))))))"

section \<open>What memory operations leave alone\<close>

text \<open>Allocation and the writes of page table entries change the heap and the memory only.\<close>

named_theorems mem_only \<open>an operation changes the kernel heap and the memory only\<close>

declare kzalloc_more [mem_only] kfree_more [mem_only]

lemma wwrite_more [mem_only]: "wwrite m base i v = Inr m' \<Longrightarrow> machine.more m' = machine.more m"
  by (auto simp: wwrite_def split: if_splits)

lemma paging_set_more [mem_only]: "paging_set m d v x = Inr (r, m') \<Longrightarrow> machine.more m' = machine.more m"
  by (auto simp: paging_set_def Let_def split: if_splits prod.splits dest!: mem_only)

lemma paging_map_more [mem_only]: "paging_map m d v ph fl = Inr (r, m') \<Longrightarrow> machine.more m' = machine.more m"
  by (auto simp: paging_map_def split: if_splits dest!: mem_only)

lemma paging_map_range_more [mem_only]:
  "paging_map_range m d v ph n fl res = Inr (r, m') \<Longrightarrow> machine.more m' = machine.more m"
proof (induction m d v ph n fl res rule: paging_map_range.induct)
  case (1 m d v ph n fl res)
  show ?case
  proof (cases "0 < n")
    case True
    obtain r1 m1 where run: "paging_map m d v ph fl = Inr (r1, m1)"
      using "1.prems" True by (subst (asm) paging_map_range.simps) auto
    then have "machine.more m1 = machine.more m" by (rule paging_map_more)
    moreover have "machine.more m' = machine.more m1"
    proof (cases "r1 < 0")
      case True
      then show ?thesis using "1.prems" \<open>0 < n\<close> run by (subst (asm) paging_map_range.simps) auto
    next
      case False
      then have "paging_map_range m1 d (v + of_nat PAGING_PAGE_SIZE) (ph + of_nat PAGING_PAGE_SIZE) (n - 1) fl r1 = Inr (r, m')"
        using "1.prems" \<open>0 < n\<close> run by (subst (asm) paging_map_range.simps) auto
      then show ?thesis using "1.IH" [OF True run refl False] by blast
    qed
    ultimately show ?thesis by simp
  next
    case False
    then show ?thesis using "1.prems" by (subst (asm) paging_map_range.simps) auto
  qed
qed

lemma paging_map_to_more [mem_only]:
  "paging_map_to m d v ph e fl = Inr (r, m') \<Longrightarrow> machine.more m' = machine.more m"
  by (auto simp: paging_map_to_def Let_def split: if_splits dest!: mem_only)

lemma more_tables:
  "machine.more m' = machine.more m \<Longrightarrow> procs m' = procs m \<and> tasks m' = tasks m \<and> processes m' = processes m \<and>
     current_process m' = current_process m \<and> current_task m' = current_task m \<and> task_head m' = task_head m \<and>
     task_tail m' = task_tail m"
  by (cases m; cases m') simp

lemmas mem_tables = mem_only [THEN more_tables]

lemma first_slot_Some:
  "first_slot P xs i = Some j \<Longrightarrow> i \<le> j \<and> j < i + length xs \<and> P (xs ! (j - i)) \<and> (\<forall>k<j - i. \<not> P (xs ! k))"
proof (induction xs arbitrary: i)
  case (Cons x xs)
  show ?case
  proof (cases "P x")
    case False
    then have "first_slot P xs (Suc i) = Some j" using Cons.prems by simp
    from Cons.IH [OF this] have "Suc i \<le> j" "j < Suc i + length xs" "P (xs ! (j - Suc i))"
      "\<forall>k<j - Suc i. \<not> P (xs ! k)" by auto
    with False show ?thesis by (auto simp: nth_Cons' Suc_diff_Suc)
  qed (use Cons.prems in simp)
qed simp

lemma first_slot_None: "first_slot P xs i = None \<longleftrightarrow> (\<forall>x\<in>set xs. \<not> P x)"
  by (induction xs arbitrary: i) auto

lemmas first_slot_0 = first_slot_Some [of _ _ 0, simplified]

text \<open>The free entries of the table of allocations; a successful \<^verbatim>\<open>process_malloc\<close> takes one.\<close>

definition free_entries :: "('p, 'a) task_state_scheme \<Rightarrow> u32 \<Rightarrow> nat" where
  "free_entries m process = (case procs m process of None \<Rightarrow> 0
     | Some p \<Rightarrow> length (filter (\<lambda>a. alloc_ptr a = 0) (allocations p)))"

lemma filter_update_less:
  "i < length xs \<Longrightarrow> P (xs ! i) \<Longrightarrow> \<not> P x \<Longrightarrow> length (filter P (xs[i := x])) < length (filter P xs)"
proof (induction xs arbitrary: i)
  case (Cons y ys)
  then show ?case by (cases i) auto
qed simp

lemma process_malloc_some:
  assumes "process_malloc m process sz = Inr (ptr, m')" and "ptr \<noteq> 0"
  shows "\<exists>p i. procs m process = Some p \<and> i < length (allocations p) \<and> alloc_ptr (allocations p ! i) = 0 \<and>
    procs m' = (procs m)(process \<mapsto> p\<lparr>allocations := (allocations p)[i := \<lparr>alloc_ptr = ptr, alloc_size = sz\<rparr>]\<rparr>)"
proof -
  obtain m1 p where z: "kzalloc m sz = Inr (ptr, m1)" and p: "procs m1 process = Some p" "process \<noteq> 0"
    and i: "\<not> process_find_free_allocation_index p < 0"
    using assms by (auto simp: process_malloc_def deref_def Let_def split: if_splits option.splits)
  then obtain j where j: "first_slot (\<lambda>a. alloc_ptr a = 0) (allocations p) 0 = Some j"
    "process_find_free_allocation_index p = int j"
    by (auto simp: process_find_free_allocation_index_def ENOMEM_def split: option.splits)
  have p': "procs m process = Some p" "procs m1 = procs m" using p(1) mem_tables(1) [OF z] by auto
  have dp: "deref (procs m1) process = Inr p" using p by (simp add: deref_def)
  obtain pd res m2 where map: "paging_map_to m1 pd ptr ptr (paging_align_address (ptr + sz)) USER_PAGES = Inr (res, m2)"
    and m': "m' = set_proc m2 process (p\<lparr>allocations := (allocations p)[j := \<lparr>alloc_ptr = ptr, alloc_size = sz\<rparr>]\<rparr>)"
    using assms by (auto simp: process_malloc_def z dp j awrite_eq_Inr Let_def split: if_splits)
  have "procs m2 = procs m1" using more_tables [OF paging_map_to_more [OF map]] by simp
  then show ?thesis using first_slot_0 [OF j(1)] p' m' by auto
qed

lemma process_malloc_entries:
  assumes "process_malloc m process sz = Inr (ptr, m')" and "ptr \<noteq> 0"
  shows "free_entries m' process < free_entries m process"
proof -
  obtain p i where "procs m process = Some p" "i < length (allocations p)" "alloc_ptr (allocations p ! i) = 0"
    "procs m' = (procs m)(process \<mapsto> p\<lparr>allocations := (allocations p)[i := \<lparr>alloc_ptr = ptr, alloc_size = sz\<rparr>]\<rparr>)"
    using process_malloc_some [OF assms] by blast
  then show ?thesis using assms(2) by (auto simp: free_entries_def intro!: filter_update_less)
qed

lemma free_entries_mem [simp]: "free_entries (m\<lparr>mem := mm\<rparr>) process = free_entries m process"
  by (simp add: free_entries_def)

section \<open>Arguments\<close>

definition process_get_arguments :: "Process \<Rightarrow> int \<times> u32" where
  "process_get_arguments p = (argc (arguments p), argv (arguments p))"

text \<open>
  A \<^verbatim>\<open>struct CommandArgument\<close> is 512 characters and the pointer to the next one. The walk from \<open>current\<close> with \<open>i\<close>
  arguments counted; a list of more than 2^32 arguments meets one a second time and has no end.
\<close>

definition next_argument :: "(u32 \<Rightarrow> u8) \<Rightarrow> u32 \<Rightarrow> u32" where
  "next_argument mm a = load32 mm (a + 512)"

primrec count_arguments :: "(u32 \<Rightarrow> u8) \<Rightarrow> u32 \<Rightarrow> int \<Rightarrow> nat \<Rightarrow> fault + int" where
  "count_arguments mm current i 0 = (if current = 0 then Inr i else Inl Hang)"
| "count_arguments mm current i (Suc fuel) =
     (if current = 0 then Inr i else count_arguments mm (next_argument mm current) (c_int (i + 1)) fuel)"

definition process_count_command_arguments :: "('p, 'a) task_state_scheme \<Rightarrow> u32 \<Rightarrow> fault + int" where
  "process_count_command_arguments m root_argument = count_arguments (mem m) root_argument 0 (2 ^ 32)"

function inject_loop ::
  "('p, 'a) task_state_scheme \<Rightarrow> u32 \<Rightarrow> u32 \<Rightarrow> u32 \<Rightarrow> int \<Rightarrow> fault + (int \<times> ('p, 'a) task_state_scheme)" where
  "inject_loop m process current vec i =
     (if current = 0 then Inr (0, m)
      else bindE (process_malloc m process 512) (\<lambda>(argument_str, m1).
        if argument_str = 0 then Inr (- ENOMEM, m1)
        else bindE (strncpy (mem_bytes (mem m1) argument_str 512) (mem_bytes (mem m1) current 512) 512) (\<lambda>bs.
          let mm = store32 (store_bytes (mem m1) argument_str bs) (vec + word_of_int (4 * i)) argument_str
          in inject_loop (m1\<lparr>mem := mm\<rparr>) process (next_argument mm current) vec (i + 1))))"
  by pat_completeness auto
termination
  by (relation "measure (\<lambda>(m, process, current, vec, i). free_entries m process)")
    (auto dest: process_malloc_entries)

declare inject_loop.simps [simp del]

definition process_inject_arguments ::
  "('p, 'a) task_state_scheme \<Rightarrow> u32 \<Rightarrow> u32 \<Rightarrow> fault + (int \<times> ('p, 'a) task_state_scheme)" where
  "process_inject_arguments m process root_argument =
     bindE (process_count_command_arguments m root_argument) (\<lambda>n.
       if n = 0 then Inr (- EIO, m)
       else bindE (process_malloc m process (word_of_int (4 * n))) (\<lambda>(vec, m1).
         if vec = 0 then Inr (- ENOMEM, m1)
         else bindE (inject_loop m1 process root_argument vec 0) (\<lambda>(res, m2).
           if res < 0 then Inr (res, m2)
           else bindE (deref (procs m2) process) (\<lambda>p.
             Inr (res, set_proc m2 process (p\<lparr>arguments := \<lparr>argc = n, argv = vec\<rparr>\<rparr>))))))"

end
