(* ===== verification/ProcessMem.thy ===== *)
theory ProcessMem
  imports Processes
begin

text \<open>
  The memory a process allocates: the invariant that ties the table of allocations of a process to the kernel heap and
  to the page directory of its task, and what \<^verbatim>\<open>process_malloc\<close>, \<^verbatim>\<open>process_free\<close> and
  \<^verbatim>\<open>process_terminate_allocations\<close> do to it.
\<close>

section \<open>Allocations of several pages\<close>

definition room_for :: "live \<Rightarrow> nat \<Rightarrow> bool" where
  "room_for A k \<longleftrightarrow> (\<exists>s. s + k \<le> kheap_blocks \<and> (\<forall>i s' k'. s \<le> i \<and> i < s + k \<longrightarrow> \<not> covers A s' k' i))"

lemma kzalloc_in_room:
  assumes inv: "machine_inv m A" and sz: "0 < unat sz" "unat sz \<le> 2 ^ 32 - 4096"
    and room: "room_for A (blocks_for (unat sz))"
  shows "\<exists>r h' mm. kzalloc m sz = Inr (block_addr r, m\<lparr>kernel_heap := h', mem := mm\<rparr>) \<and>
    machine_inv (m\<lparr>kernel_heap := h', mem := mm\<rparr>) (A(r \<mapsto> blocks_for (unat sz))) \<and>
    r + blocks_for (unat sz) \<le> kheap_blocks \<and>
    (\<forall>i s' k'. r \<le> i \<and> i < r + blocks_for (unat sz) \<longrightarrow> \<not> covers A s' k' i) \<and>
    (\<forall>b. \<not> (4096 + r \<le> pn b \<and> pn b < 4096 + r + blocks_for (unat sz)) \<longrightarrow> mm b = mem m b)"
proof -
  let ?k = "blocks_for (unat sz)"
  obtain s where s: "s + ?k \<le> kheap_blocks" "\<And>i s' k'. s \<le> i \<Longrightarrow> i < s + ?k \<Longrightarrow> \<not> covers A s' k' i"
    using room by (auto simp: room_for_def)
  from kmalloc_room [OF inv sz s] obtain r h' where r: "r \<le> s" "kmalloc m sz = Inr (block_addr r, m\<lparr>kernel_heap := h'\<rparr>)"
    "machine_inv (m\<lparr>kernel_heap := h'\<rparr>) (A(r \<mapsto> ?k))" "\<forall>i s' k'. r \<le> i \<and> i < r + ?k \<longrightarrow> \<not> covers A s' k' i" by blast
  have le: "r + ?k \<le> kheap_blocks" using r(1) s(1) by simp
  let ?mm = "memset_mem (mem m) (block_addr r) 0 (unat sz)"
  have "kzalloc m sz = Inr (block_addr r, m\<lparr>kernel_heap := h', mem := ?mm\<rparr>)"
    using r(2) le by (simp add: kzalloc_def)
  moreover have "\<forall>b. \<not> (4096 + r \<le> pn b \<and> pn b < 4096 + r + ?k) \<longrightarrow> ?mm b = mem m b"
    using memset_run [OF le le_blocks_for] sz(2) by simp
  moreover have "machine_inv (m\<lparr>kernel_heap := h', mem := ?mm\<rparr>) (A(r \<mapsto> ?k))"
    using r(3) machine_inv_kernel_heap [of "m\<lparr>kernel_heap := h', mem := ?mm\<rparr>" "m\<lparr>kernel_heap := h'\<rparr>"] by simp
  ultimately show ?thesis using r(4) le by blast
qed

lemma align_block_end:
  assumes "s + blocks_for (unat sz) \<le> kheap_blocks"
  shows "paging_align_address (block_addr s + sz) = block_addr (s + blocks_for (unat sz))"
proof -
  let ?k = "blocks_for (unat sz)"
  have u: "unat (block_addr s + sz) = 16777216 + s * 4096 + unat sz"
    using unat_block_add [OF assms le_blocks_for] by simp
  moreover have "16777216 + s * 4096 + unat sz \<le> 2 ^ 32 - 4096"
    using assms le_blocks_for [of "unat sz"] unfolding kheap_blocks_def by simp
  ultimately have "unat (paging_align_address (block_addr s + sz)) = (16777216 + s * 4096 + unat sz + 4095) div 4096 * 4096"
    using paging_align_address_bounds [of "block_addr s + sz"] by simp
  also have "16777216 + s * 4096 + unat sz + 4095 = (unat sz + 4095) + (4096 + s) * 4096" by simp
  also have "((unat sz + 4095) + (4096 + s) * 4096) div 4096 = (unat sz + 4095) div 4096 + (4096 + s)" by simp
  also have "((unat sz + 4095) div 4096 + (4096 + s)) * 4096 = 16777216 + (s + ?k) * 4096"
    unfolding blocks_for_def [symmetric] by (simp add: algebra_simps)
  also have "\<dots> = unat (block_addr (s + ?k))" using unat_block_addr [OF assms] by simp
  finally show ?thesis by (simp only: word_unat_eq_iff)
qed

section \<open>The pages of a directory\<close>

definition dir_pages :: "(u32 \<Rightarrow> u8) \<Rightarrow> u32 \<Rightarrow> u32 \<Rightarrow> u32 set" where
  "dir_pages mm pd dir = {pd, dir} \<union> table_of mm dir ` {..<1024}"

definition dir_inv :: "(u32 \<Rightarrow> u8) \<Rightarrow> live \<Rightarrow> u32 \<Rightarrow> u32 \<Rightarrow> bool" where
  "dir_inv mm A pd dir \<longleftrightarrow> pd_root mm pd dir \<and>
     (\<forall>a\<in>dir_pages mm pd dir. \<exists>s. a = block_addr s \<and> A s = Some 1 \<and> s < kheap_blocks)"

text \<open>Memory outside the directory's pages does not matter to it.\<close>

lemma dir_inv_mem:
  assumes d: "dir_inv mm A pd dir"
    and same: "\<And>b s. block_addr s \<in> dir_pages mm pd dir \<Longrightarrow> s < kheap_blocks \<Longrightarrow> A s = Some 1 \<Longrightarrow> pn b = 4096 + s \<Longrightarrow> mm' b = mm b"
    and keep: "\<And>s. block_addr s \<in> dir_pages mm pd dir \<Longrightarrow> s < kheap_blocks \<Longrightarrow> A s = Some 1 \<Longrightarrow> A' s = Some 1"
  shows "dir_inv mm' A' pd dir \<and> dir_pages mm' pd dir = dir_pages mm pd dir \<and>
    (\<forall>va. pd_entry mm' dir va = pd_entry mm dir va)"
proof -
  have page: "\<exists>s. a = block_addr s \<and> A s = Some 1 \<and> s < kheap_blocks" if "a \<in> dir_pages mm pd dir" for a
    using d that by (simp add: dir_inv_def)
  have word: "load32 mm' (a + of_nat (4 * i)) = load32 mm (a + of_nat (4 * i))"
    if a: "a \<in> dir_pages mm pd dir" and i: "i < 1024" for a i
  proof -
    obtain s where s: "a = block_addr s" "A s = Some 1" "s < kheap_blocks" using page [OF a] by blast
    show ?thesis unfolding s(1)
      by (rule load32_pages [OF s(3) i]) (rule same [OF a [unfolded s(1)] s(3,2)])
  qed
  have pd: "load32 mm' pd = load32 mm pd" using word [of pd 0] by (simp add: dir_pages_def)
  have tab: "table_of mm' dir i = table_of mm dir i" if "i < 1024" for i
    using word [of dir i] that by (simp add: table_of_def dir_pages_def)
  have pages: "dir_pages mm' pd dir = dir_pages mm pd dir" using tab by (simp add: dir_pages_def)
  have "inj_on (table_of mm' dir) {..<1024} = inj_on (table_of mm dir) {..<1024}"
    by (intro inj_on_cong) (simp add: tab)
  then have root: "pd_root mm' pd dir" using d tab pd by (simp add: dir_inv_def pd_root_def pd_ok_def)
  have "pd_entry mm' dir va = pd_entry mm dir va" for va
  proof -
    have "table_of mm dir (pn va div 1024) \<in> dir_pages mm pd dir" using pn_div_bound by (simp add: dir_pages_def)
    from word [OF this, of "pn va mod 1024"] show ?thesis
      using tab [OF pn_div_bound] by (simp add: pd_entry_def pte_addr_def)
  qed
  moreover have "dir_inv mm' A' pd dir"
    using root page keep unfolding dir_inv_def pages by metis
  ultimately show ?thesis using pages by blast
qed

lemma dir_word_kept:
  assumes d: "dir_inv mm A pd dir" and i: "i < 1024" and a: "a \<in> dir_pages mm pd dir"
    and same: "\<And>b s. s < kheap_blocks \<Longrightarrow> A s = Some 1 \<Longrightarrow> pn b = 4096 + s \<Longrightarrow> mm' b = mm b"
  shows "load32 mm' (a + of_nat (4 * i)) = load32 mm (a + of_nat (4 * i))"
proof -
  obtain s where s: "a = block_addr s" "A s = Some 1" "s < kheap_blocks" using d a by (auto simp: dir_inv_def)
  show ?thesis unfolding s(1) by (rule load32_pages [OF s(3) i]) (rule same [OF s(3,2)])
qed

text \<open>Writing entries keeps it.\<close>

lemma dir_inv_tables:
  assumes d: "dir_inv mm A pd dir" and root: "pd_root mm' pd dir" and t: "tables_only dir mm mm'"
  shows "dir_inv mm' A pd dir" and "dir_pages mm' pd dir = dir_pages mm pd dir"
proof -
  show "dir_pages mm' pd dir = dir_pages mm pd dir" using t by (simp add: dir_pages_def tables_only_def)
  then show "dir_inv mm' A pd dir" using d root by (simp add: dir_inv_def)
qed

text \<open>Mapping a run of heap blocks to itself.\<close>

definition in_blocks :: "nat \<Rightarrow> nat \<Rightarrow> u32 \<Rightarrow> bool" where
  "in_blocks s k va \<longleftrightarrow> 4096 + s \<le> pn va \<and> pn va < 4096 + s + k"

lemma unat_add_lt: "unat (a :: u32) + unat b < 2 ^ 32 \<Longrightarrow> unat (a + b) = unat a + unat b"
  by (simp add: unat_word_ariths)

lemma pn_diff_block:
  assumes "s + k \<le> kheap_blocks" and al: "paging_is_aligned va"
  shows "pn (va - block_addr s) < k \<longleftrightarrow> in_blocks s k va"
proof -
  have s: "s \<le> kheap_blocks" using assms(1) by simp
  have va: "unat va = pn va * 4096" using al unat_aligned by (simp add: aligned_iff_off)
  have b: "unat (block_addr s) = (4096 + s) * 4096" using unat_block_addr [OF s] by simp
  show ?thesis
  proof (cases "block_addr s \<le> va")
    case True
    then have le: "4096 + s \<le> pn va" using b va by (simp add: word_le_nat_alt)
    have "unat (va - block_addr s) = (pn va - (4096 + s)) * 4096"
      using True by (simp only: unat_sub va b diff_mult_distrib)
    then have "pn (va - block_addr s) = pn va - (4096 + s)" by (simp add: pn_def [of "va - block_addr s"])
    with le show ?thesis by (auto simp: in_blocks_def)
  next
    case False
    then have lt: "va < block_addr s" by simp
    then have "pn va < 4096 + s" using b va by (simp add: word_less_nat_alt)
    moreover have "\<not> pn (va - block_addr s) < k"
    proof -
      have "\<not> unat (block_addr s) + unat (va - block_addr s) < 2 ^ 32"
      proof
        assume "unat (block_addr s) + unat (va - block_addr s) < 2 ^ 32"
        from unat_add_lt [OF this] show False using lt by (simp add: word_less_nat_alt)
      qed
      then have "kheap_blocks * 4096 \<le> unat (va - block_addr s)"
        using b s by (simp add: kheap_blocks_def)
      then have "kheap_blocks \<le> pn (va - block_addr s)" by (simp add: pn_def less_eq_div_iff_mult_less_eq)
      then show ?thesis using assms(1) by simp
    qed
    ultimately show ?thesis by (simp add: in_blocks_def)
  qed
qed

lemma map_blocks_ok:
  assumes d: "dir_inv (mem m) A pd dir" and b: "s + blocks_for (unat sz) \<le> kheap_blocks"
  shows "\<exists>mm. paging_map_to m pd (block_addr s) (block_addr s) (paging_align_address (block_addr s + sz)) flags =
      Inr (0, m\<lparr>mem := mm\<rparr>) \<and> dir_inv mm A pd dir \<and> dir_pages mm pd dir = dir_pages (mem m) pd dir \<and>
      tables_only dir (mem m) mm \<and>
      (\<forall>va. pd_entry mm dir va = (if in_blocks s (blocks_for (unat sz)) va then (va AND 0xfffff000) OR flags
         else pd_entry (mem m) dir va))"
proof -
  let ?k = "blocks_for (unat sz)"
  have s: "s \<le> kheap_blocks" using b by simp
  have al: "paging_is_aligned (block_addr s)" "paging_is_aligned (block_addr (s + ?k))"
    using s b by (simp_all add: aligned_iff_off)
  have le: "block_addr s \<le> block_addr (s + ?k)" using s b by (simp add: word_le_nat_alt unat_block_addr)
  have "unat (block_addr (s + ?k) - block_addr s) = ?k * 4096"
    using s b le by (simp add: unat_sub unat_block_addr)
  then have n: "pn (block_addr (s + ?k) - block_addr s) = ?k" by (simp add: pn_def)
  have root: "pd_root (mem m) pd dir" using d by (simp add: dir_inv_def)
  from paging_map_to_ok [OF root al(1,1,2) le, of flags] obtain mm where
    run: "paging_map_to m pd (block_addr s) (block_addr s) (block_addr (s + ?k)) flags = Inr (0, m\<lparr>mem := mm\<rparr>)"
    and root': "pd_root mm pd dir" and t: "tables_only dir (mem m) mm"
    and e: "\<And>va. paging_is_aligned va \<Longrightarrow>
      pd_entry mm dir va = map_pages (pd_entry (mem m) dir) (block_addr s) (block_addr s) ?k flags va"
    unfolding n by blast
  have "pd_entry mm dir va = (if in_blocks s ?k va then (va AND 0xfffff000) OR flags else pd_entry (mem m) dir va)" for va
    using e [OF lower_page_aligned, of va] pn_diff_block [OF b lower_page_aligned, of va]
    by (simp add: map_pages_def pd_entry_mask in_blocks_def)
  then show ?thesis
    using run dir_inv_tables [OF d root' t] t unfolding align_block_end [OF b] by blast
qed

section \<open>The invariant\<close>

text \<open>
  Every used entry of the table is a live allocation of the heap of its size, apart from the pages of the directory;
  different entries are different allocations; a free entry has size zero.
\<close>

definition alloc_ok :: "live \<Rightarrow> u32 set \<Rightarrow> ProcessAllocation \<Rightarrow> bool" where
  "alloc_ok A D a \<longleftrightarrow> (if alloc_ptr a = 0 then alloc_size a = 0
     else \<exists>s. alloc_ptr a = block_addr s \<and> alloc_ptr a \<notin> D \<and> s < kheap_blocks \<and> A s = Some (blocks_for (unat (alloc_size a))))"

definition allocs_own :: "live \<Rightarrow> u32 set \<Rightarrow> ProcessAllocation list \<Rightarrow> bool" where
  "allocs_own A D as \<longleftrightarrow> length as = BIMBLEOS_MAX_PROGRAM_ALLOCATIONS \<and> (\<forall>a\<in>set as. alloc_ok A D a) \<and>
     (\<forall>i<length as. \<forall>j<length as. i \<noteq> j \<longrightarrow> alloc_ptr (as ! i) \<noteq> 0 \<longrightarrow> alloc_ptr (as ! i) \<noteq> alloc_ptr (as ! j))"

definition process_inv :: "('p, 'a) task_state_scheme \<Rightarrow> live \<Rightarrow> u32 \<Rightarrow> Process \<Rightarrow> Task \<Rightarrow> u32 \<Rightarrow> bool" where
  "process_inv m A process p t dir \<longleftrightarrow> machine_inv m A \<and> deref (procs m) process = Inr p \<and>
     deref (tasks m) (proc_task p) = Inr t \<and> dir_inv (mem m) A (page_directory t) dir \<and>
     allocs_own A (dir_pages (mem m) (page_directory t) dir) (allocations p)"

definition no_allocation :: ProcessAllocation where
  "no_allocation = \<lparr>alloc_ptr = 0, alloc_size = 0\<rparr>"

lemma allocs_own_length: "allocs_own A D as \<Longrightarrow> length as = 1024"
  by (simp add: allocs_own_def BIMBLEOS_MAX_PROGRAM_ALLOCATIONS_def)

lemma allocs_own_nth:
  assumes "allocs_own A D as" and "i < 1024" and "alloc_ptr (as ! i) \<noteq> 0"
  shows "\<exists>s. alloc_ptr (as ! i) = block_addr s \<and> alloc_ptr (as ! i) \<notin> D \<and> s < kheap_blocks \<and>
    A s = Some (blocks_for (unat (alloc_size (as ! i))))"
proof -
  have "as ! i \<in> set as" using assms(2) allocs_own_length [OF assms(1)] by simp
  then have "alloc_ok A D (as ! i)" using assms(1) by (simp add: allocs_own_def)
  then show ?thesis using assms(3) by (simp add: alloc_ok_def)
qed

lemma allocs_own_distinct:
  "allocs_own A D as \<Longrightarrow> i < 1024 \<Longrightarrow> j < 1024 \<Longrightarrow> alloc_ptr (as ! i) \<noteq> 0 \<Longrightarrow> i \<noteq> j \<Longrightarrow>
     alloc_ptr (as ! i) \<noteq> alloc_ptr (as ! j)"
  unfolding allocs_own_def BIMBLEOS_MAX_PROGRAM_ALLOCATIONS_def by metis

lemma alloc_ok_other: "alloc_ok A D a \<Longrightarrow> alloc_ptr a \<noteq> block_addr r \<Longrightarrow> alloc_ok (A(r := x)) D a"
  by (auto simp: alloc_ok_def split: if_splits)

lemma alloc_ok_fresh:
  assumes "alloc_ok A D a" and "A r = None" and "r < kheap_blocks"
  shows "alloc_ptr a \<noteq> block_addr r"
proof
  assume e: "alloc_ptr a = block_addr r"
  then have "alloc_ptr a \<noteq> 0" using assms(3) by (simp add: less_imp_le)
  then obtain s where "alloc_ptr a = block_addr s" "s < kheap_blocks" "A s \<noteq> None"
    using assms(1) by (auto simp: alloc_ok_def)
  moreover from this have "r = s" using e assms(3) block_addr_inj [of r s] by (simp add: less_imp_le)
  ultimately show False using assms(2) by simp
qed

text \<open>A new entry, and an entry that goes.\<close>

lemma allocs_own_add:
  assumes own: "allocs_own A D as" and i: "i < 1024" and r: "A r = None" "r < kheap_blocks" "block_addr r \<notin> D"
  shows "allocs_own (A(r \<mapsto> blocks_for (unat sz))) D (as[i := \<lparr>alloc_ptr = block_addr r, alloc_size = sz\<rparr>])"
proof -
  let ?a = "\<lparr>alloc_ptr = block_addr r, alloc_size = sz\<rparr>"
  have len: "length as = 1024" using allocs_own_length [OF own] .
  have ok: "\<forall>a\<in>set as. alloc_ok A D a" using own by (simp add: allocs_own_def)
  have fresh: "alloc_ptr a \<noteq> block_addr r" if "a \<in> set as" for a
    using alloc_ok_fresh [of A D a r] r(1,2) ok that by blast
  have "alloc_ok (A(r \<mapsto> blocks_for (unat sz))) D ?a" using r by (auto simp: alloc_ok_def less_imp_le)
  moreover have "alloc_ok (A(r \<mapsto> blocks_for (unat sz))) D a" if "a \<in> set as" for a
    using alloc_ok_other ok fresh that by blast
  ultimately have "\<forall>a\<in>set (as[i := ?a]). alloc_ok (A(r \<mapsto> blocks_for (unat sz))) D a"
    using set_update_subset_insert [of as i ?a] by blast
  moreover have "alloc_ptr (as[i := ?a] ! j) \<noteq> alloc_ptr (as[i := ?a] ! k)"
    if jk: "j < 1024" "k < 1024" "j \<noteq> k" "alloc_ptr (as[i := ?a] ! j) \<noteq> 0" for j k
  proof -
    have "alloc_ptr (as ! j) \<noteq> block_addr r" "block_addr r \<noteq> alloc_ptr (as ! k)"
      using fresh [of "as ! j"] fresh [of "as ! k"] jk len by auto
    then show ?thesis
      using jk allocs_own_distinct [OF own jk(1,2)] len i by (cases "j = i"; cases "k = i") simp_all
  qed
  ultimately show ?thesis
    using len unfolding allocs_own_def BIMBLEOS_MAX_PROGRAM_ALLOCATIONS_def by simp
qed

lemma allocs_own_drop:
  assumes own: "allocs_own A D as" and i: "i < 1024" and s: "alloc_ptr (as ! i) = block_addr s" "s < kheap_blocks"
  shows "allocs_own (A(s := None)) D (as[i := no_allocation])"
proof -
  have len: "length as = 1024" using allocs_own_length [OF own] .
  have ok: "\<forall>a\<in>set as. alloc_ok A D a" using own by (simp add: allocs_own_def)
  have nz: "alloc_ptr (as ! i) \<noteq> 0" using s by (simp add: less_imp_le)
  have "alloc_ok (A(s := None)) D (as[i := no_allocation] ! j)" if j: "j < 1024" for j
  proof (cases "j = i")
    case True
    then show ?thesis using j len by (simp add: no_allocation_def alloc_ok_def)
  next
    case False
    have "alloc_ptr (as ! j) \<noteq> block_addr s" using allocs_own_distinct [OF own i j nz] s False by metis
    then show ?thesis using ok j len False by (auto intro: alloc_ok_other)
  qed
  then have "\<forall>a\<in>set (as[i := no_allocation]). alloc_ok (A(s := None)) D a"
    using len by (auto simp: in_set_conv_nth)
  moreover have "alloc_ptr (as[i := no_allocation] ! j) \<noteq> alloc_ptr (as[i := no_allocation] ! k)"
    if jk: "j < 1024" "k < 1024" "j \<noteq> k" "alloc_ptr (as[i := no_allocation] ! j) \<noteq> 0" for j k
    using jk allocs_own_distinct [OF own jk(1,2)] len i
    by (cases "j = i"; cases "k = i") (simp_all add: no_allocation_def)
  ultimately show ?thesis
    using len unfolding allocs_own_def BIMBLEOS_MAX_PROGRAM_ALLOCATIONS_def by simp
qed

lemma unjoin_nth:
  assumes own: "allocs_own A D (allocations p)" and i: "i < 1024" and ptr: "alloc_ptr (allocations p ! i) = ptr" "ptr \<noteq> 0"
  shows "process_allocation_unjoin p ptr = p\<lparr>allocations := (allocations p)[i := no_allocation]\<rparr>"
proof -
  have "map (\<lambda>a. if alloc_ptr a = ptr then no_allocation else a) (allocations p) = (allocations p)[i := no_allocation]"
  proof (rule nth_equalityI)
    fix j assume "j < length (map (\<lambda>a. if alloc_ptr a = ptr then no_allocation else a) (allocations p))"
    then have j: "j < 1024" "j < length (allocations p)" using allocs_own_length [OF own] by simp_all
    have "alloc_ptr (allocations p ! j) = ptr \<longleftrightarrow> j = i"
      using allocs_own_distinct [OF own i j(1)] ptr by metis
    then show "map (\<lambda>a. if alloc_ptr a = ptr then no_allocation else a) (allocations p) ! j =
        (allocations p)[i := no_allocation] ! j"
      using j by (cases "j = i") simp_all
  qed simp
  then show ?thesis by (simp only: process_allocation_unjoin_def no_allocation_def [symmetric])
qed

lemma unjoin_0: "allocs_own A D (allocations p) \<Longrightarrow> process_allocation_unjoin p 0 = p"
proof -
  assume own: "allocs_own A D (allocations p)"
  have "(if alloc_ptr a = 0 then \<lparr>alloc_ptr = 0, alloc_size = 0\<rparr> else a) = a" if "a \<in> set (allocations p)" for a
    using own that by (cases a) (auto simp: allocs_own_def alloc_ok_def)
  then have "map (\<lambda>a. if alloc_ptr a = 0 then \<lparr>alloc_ptr = 0, alloc_size = 0\<rparr> else a) (allocations p) = allocations p"
    by (intro map_idI)
  then show ?thesis by (simp add: process_allocation_unjoin_def)
qed

section \<open>Allocation\<close>

lemma free_index_ok:
  assumes "\<exists>a\<in>set (allocations p). alloc_ptr a = 0"
  shows "\<exists>i. process_find_free_allocation_index p = int i \<and> i < length (allocations p) \<and> alloc_ptr (allocations p ! i) = 0"
proof -
  obtain i where i: "first_slot (\<lambda>a. alloc_ptr a = 0) (allocations p) 0 = Some i"
    using assms first_slot_None [of "\<lambda>a. alloc_ptr a = 0" "allocations p" 0] by (cases "first_slot (\<lambda>a. alloc_ptr a = 0) (allocations p) 0") auto
  then show ?thesis using first_slot_0 [OF i] by (simp add: process_find_free_allocation_index_def)
qed

lemma user_pages: "(USER_PAGES :: u32) = 7"
  by (simp add: paging_consts)

text \<open>New blocks are not pages of the directory.\<close>

lemma fresh_blocks_not_dir:
  assumes d: "dir_inv mm A pd dir" and fresh: "\<forall>i s' k'. r \<le> i \<and> i < r + k \<longrightarrow> \<not> covers A s' k' i"
    and s: "block_addr s \<in> dir_pages mm pd dir" "s < kheap_blocks"
  shows "\<not> (r \<le> s \<and> s < r + k)"
proof
  assume r: "r \<le> s \<and> s < r + k"
  obtain t where t: "block_addr s = block_addr t" "A t = Some 1" "t < kheap_blocks"
    using d s(1) unfolding dir_inv_def by blast
  then have "s = t" using s(2) block_addr_inj [of s t] by (simp add: less_imp_le)
  then have "covers A s 1 s" using t(2) by (simp add: covers_def)
  with fresh r show False by blast
qed

lemma process_malloc_ok:
  assumes inv: "process_inv m A process p t dir" and sz: "0 < unat sz" "unat sz \<le> 2 ^ 32 - 4096"
    and room: "room_for A (blocks_for (unat sz))" and free: "\<exists>a\<in>set (allocations p). alloc_ptr a = 0"
  shows "\<exists>r h' mm i. i < 1024 \<and> alloc_ptr (allocations p ! i) = 0 \<and> r < kheap_blocks \<and> A r = None \<and>
    process_malloc m process sz = Inr (block_addr r, set_proc (m\<lparr>kernel_heap := h', mem := mm\<rparr>) process
      (p\<lparr>allocations := (allocations p)[i := \<lparr>alloc_ptr = block_addr r, alloc_size = sz\<rparr>]\<rparr>)) \<and>
    process_inv (set_proc (m\<lparr>kernel_heap := h', mem := mm\<rparr>) process
      (p\<lparr>allocations := (allocations p)[i := \<lparr>alloc_ptr = block_addr r, alloc_size = sz\<rparr>]\<rparr>))
      (A(r \<mapsto> blocks_for (unat sz))) process
      (p\<lparr>allocations := (allocations p)[i := \<lparr>alloc_ptr = block_addr r, alloc_size = sz\<rparr>]\<rparr>) t dir \<and>
    (\<forall>j s' k'. r \<le> j \<and> j < r + blocks_for (unat sz) \<longrightarrow> \<not> covers A s' k' j) \<and>
    (\<forall>va. pd_entry mm dir va = (if in_blocks r (blocks_for (unat sz)) va then (va AND 0xfffff000) OR 7
       else pd_entry (mem m) dir va)) \<and> dir_pages mm (page_directory t) dir = dir_pages (mem m) (page_directory t) dir \<and>
    (\<forall>b. \<not> in_blocks r (blocks_for (unat sz)) b \<longrightarrow> (\<forall>i<1024. pn b \<noteq> pn (table_of (mem m) dir i)) \<longrightarrow> mm b = mem m b)"
proof -
  let ?k = "blocks_for (unat sz)" and ?pd = "page_directory t"
  have mi: "machine_inv m A" and dp: "deref (procs m) process = Inr p" and dt: "deref (tasks m) (proc_task p) = Inr t"
    and d: "dir_inv (mem m) A ?pd dir" and own: "allocs_own A (dir_pages (mem m) ?pd dir) (allocations p)"
    using inv by (simp_all add: process_inv_def)
  from kzalloc_in_room [OF mi sz room] obtain r h1 m1 where
    z: "kzalloc m sz = Inr (block_addr r, m\<lparr>kernel_heap := h1, mem := m1\<rparr>)"
    and mi1: "machine_inv (m\<lparr>kernel_heap := h1, mem := m1\<rparr>) (A(r \<mapsto> ?k))" and r: "r + ?k \<le> kheap_blocks"
    and fresh: "\<forall>i s' k'. r \<le> i \<and> i < r + ?k \<longrightarrow> \<not> covers A s' k' i"
    and frame: "\<forall>b. \<not> (4096 + r \<le> pn b \<and> pn b < 4096 + r + ?k) \<longrightarrow> m1 b = mem m b" by blast
  let ?m1 = "m\<lparr>kernel_heap := h1, mem := m1\<rparr>"
  have k: "0 < ?k" using blocks_for_pos [OF sz(1)] .
  then have rl: "r < kheap_blocks" using r by simp
  have Ar: "A r = None"
    using mi fresh k kh.fresh_not_live [of "kernel_heap m" A ?k r] by (simp add: machine_inv_def)
  have nd: "\<not> (r \<le> s \<and> s < r + ?k)" if "block_addr s \<in> dir_pages (mem m) ?pd dir" "s < kheap_blocks" for s
    using fresh_blocks_not_dir [OF d fresh that] .
  have d1: "dir_inv m1 (A(r \<mapsto> ?k)) ?pd dir" "dir_pages m1 ?pd dir = dir_pages (mem m) ?pd dir"
    "\<And>va. pd_entry m1 dir va = pd_entry (mem m) dir va"
    using dir_inv_mem [OF d, of m1 "A(r \<mapsto> ?k)"] frame nd Ar by force+
  have d1': "dir_inv (mem ?m1) (A(r \<mapsto> ?k)) ?pd dir" using d1(1) by simp
  from map_blocks_ok [OF d1' r, of 7] obtain mm where
    map: "paging_map_to ?m1 ?pd (block_addr r) (block_addr r) (paging_align_address (block_addr r + sz)) 7 =
      Inr (0, ?m1\<lparr>mem := mm\<rparr>)"
    and d2: "dir_inv mm (A(r \<mapsto> ?k)) ?pd dir" "dir_pages mm ?pd dir = dir_pages (mem m) ?pd dir"
    and t2: "tables_only dir m1 mm"
    and e: "\<forall>va. pd_entry mm dir va = (if in_blocks r ?k va then (va AND 0xfffff000) OR 7 else pd_entry (mem m) dir va)"
    using d1(2,3) by auto
  obtain i where i: "process_find_free_allocation_index p = int i" "i < length (allocations p)" "alloc_ptr (allocations p ! i) = 0"
    using free_index_ok [OF free] by blast
  have i': "i < 1024" using i(2) allocs_own_length [OF own] by simp
  define p' where "p' = p\<lparr>allocations := (allocations p)[i := \<lparr>alloc_ptr = block_addr r, alloc_size = sz\<rparr>]\<rparr>"
  define m' where "m' = set_proc (m\<lparr>kernel_heap := h1, mem := mm\<rparr>) process p'"
  have bz: "block_addr r \<noteq> 0" using rl by (simp add: less_imp_le)
  have "task_directory_of ?m1 (proc_task p) = Inr ?pd" using dt by (simp add: task_directory_of_def)
  then have "process_malloc m process sz = Inr (block_addr r, m')"
    using map dp bz i unfolding user_pages
    by (simp add: process_malloc_def z user_pages m'_def p'_def)
  moreover have "process_inv m' (A(r \<mapsto> ?k)) process p' t dir"
  proof -
    have "block_addr r \<notin> dir_pages (mem m) ?pd dir" using nd [OF _ rl] k by auto
    then have "allocs_own (A(r \<mapsto> ?k)) (dir_pages (mem m) ?pd dir) (allocations p')"
      using allocs_own_add [OF own i' Ar rl] by (simp add: p'_def)
    moreover have "machine_inv m' (A(r \<mapsto> ?k))" using mi1 machine_inv_kernel_heap [of m' ?m1] by (simp add: m'_def)
    moreover have "process \<noteq> 0" using dp by (auto simp: deref_def)
    then have "deref (procs m') process = Inr p'" by (simp add: m'_def deref_def)
    moreover have "deref (tasks m') (proc_task p') = Inr t" using dt by (simp add: m'_def p'_def)
    moreover have "dir_inv (mem m') (A(r \<mapsto> ?k)) ?pd dir" "dir_pages (mem m') ?pd dir = dir_pages (mem m) ?pd dir"
      using d2 by (simp_all add: m'_def)
    ultimately show ?thesis by (simp add: process_inv_def)
  qed
  moreover have "mm b = mem m b" if b: "\<not> in_blocks r ?k b" "\<forall>i<1024. pn b \<noteq> pn (table_of (mem m) dir i)" for b
  proof -
    have live: "m1 c = mem m c" if "A x = Some 1" "pn c = 4096 + x" for c x
    proof -
      have "covers A x 1 x" using that(1) by (simp add: covers_def)
      then have "\<not> (r \<le> x \<and> x < r + ?k)" using fresh by blast
      then have "\<not> (4096 + r \<le> pn c \<and> pn c < 4096 + r + ?k)" unfolding that(2) by linarith
      then show ?thesis using frame by blast
    qed
    have "load32 m1 (dir + of_nat (4 * i)) = load32 (mem m) (dir + of_nat (4 * i))" if "i < 1024" for i
      by (rule dir_word_kept [OF d that]) (use live in \<open>auto simp: dir_pages_def\<close>)
    then have "table_of m1 dir i = table_of (mem m) dir i" if "i < 1024" for i using that by (simp add: table_of_def)
    then have "mm b = m1 b" using t2 b(2) by (simp add: tables_only_def)
    then show ?thesis using frame b(1) by (simp add: in_blocks_def)
  qed
  ultimately show ?thesis
    using i' i(3) rl Ar fresh e d2(2) unfolding m'_def p'_def by blast
qed

section \<open>Release\<close>

lemma get_allocation_ok:
  assumes own: "allocs_own A D (allocations p)" and i: "i < 1024" "alloc_ptr (allocations p ! i) = ptr" "ptr \<noteq> 0"
  shows "process_get_allocation_by_addr p ptr = Some (allocations p ! i)"
proof -
  have len: "length (allocations p) = 1024" using allocs_own_length [OF own] .
  then obtain j where j: "first_slot (\<lambda>a. alloc_ptr a = ptr) (allocations p) 0 = Some j"
    using i first_slot_None [of "\<lambda>a. alloc_ptr a = ptr" "allocations p" 0]
    by (cases "first_slot (\<lambda>a. alloc_ptr a = ptr) (allocations p) 0") (auto dest: nth_mem)
  then have "j < 1024" "alloc_ptr (allocations p ! j) = ptr" using first_slot_0 [OF j] len by simp_all
  then have "j = i" using allocs_own_distinct [OF own i(1), of j] i by metis
  with j show ?thesis by (simp add: process_get_allocation_by_addr_def)
qed

text \<open>Freeing a pointer of the table.\<close>

lemma process_free_ok:
  assumes inv: "process_inv m A process p t dir" and i: "i < 1024" "alloc_ptr (allocations p ! i) \<noteq> 0"
  shows "\<exists>s h' mm. alloc_ptr (allocations p ! i) = block_addr s \<and> s < kheap_blocks \<and>
    A s = Some (blocks_for (unat (alloc_size (allocations p ! i)))) \<and>
    process_free m process (block_addr s) = Inr (set_proc (m\<lparr>kernel_heap := h', mem := mm\<rparr>) process
      (p\<lparr>allocations := (allocations p)[i := no_allocation]\<rparr>)) \<and>
    process_inv (set_proc (m\<lparr>kernel_heap := h', mem := mm\<rparr>) process (p\<lparr>allocations := (allocations p)[i := no_allocation]\<rparr>))
      (A(s := None)) process (p\<lparr>allocations := (allocations p)[i := no_allocation]\<rparr>) t dir \<and>
    (\<forall>va. pd_entry mm dir va = (if in_blocks s (blocks_for (unat (alloc_size (allocations p ! i)))) va
       then va AND 0xfffff000 else pd_entry (mem m) dir va)) \<and> tables_only dir (mem m) mm"
proof -
  let ?pd = "page_directory t" and ?sz = "alloc_size (allocations p ! i)"
  let ?k = "blocks_for (unat ?sz)"
  have mi: "machine_inv m A" and dp: "deref (procs m) process = Inr p" and dt: "deref (tasks m) (proc_task p) = Inr t"
    and d: "dir_inv (mem m) A ?pd dir" and own: "allocs_own A (dir_pages (mem m) ?pd dir) (allocations p)"
    using inv by (simp_all add: process_inv_def)
  from allocs_own_nth [OF own i] obtain s where s: "alloc_ptr (allocations p ! i) = block_addr s" "s < kheap_blocks"
    "A s = Some ?k" and nd: "block_addr s \<notin> dir_pages (mem m) ?pd dir" by auto
  have b: "s + ?k \<le> kheap_blocks" using machine_inv_bounds [OF mi s(3)] by simp
  from map_blocks_ok [OF d b, of 0] obtain mm where
    map: "paging_map_to m ?pd (block_addr s) (block_addr s) (paging_align_address (block_addr s + ?sz)) 0 =
      Inr (0, m\<lparr>mem := mm\<rparr>)"
    and d2: "dir_inv mm A ?pd dir" "dir_pages mm ?pd dir = dir_pages (mem m) ?pd dir"
    and e: "\<forall>va. pd_entry mm dir va = (if in_blocks s ?k va then va AND 0xfffff000 else pd_entry (mem m) dir va)"
    and frame: "tables_only dir (mem m) mm"
    by auto
  define p' where "p' = p\<lparr>allocations := (allocations p)[i := no_allocation]\<rparr>"
  let ?m1 = "set_proc (m\<lparr>mem := mm\<rparr>) process p'"
  have mi1: "machine_inv ?m1 A" using mi machine_inv_kernel_heap [of ?m1 m] by simp
  from kfree_live [OF mi1 s(3)] obtain h' where
    f: "kfree ?m1 (block_addr s) = Inr (?m1\<lparr>kernel_heap := h'\<rparr>)" and mi2: "machine_inv (?m1\<lparr>kernel_heap := h'\<rparr>) (A(s := None))"
    by blast
  define m' where "m' = set_proc (m\<lparr>kernel_heap := h', mem := mm\<rparr>) process p'"
  have m': "?m1\<lparr>kernel_heap := h'\<rparr> = m'" by (simp add: m'_def)
  have "process_allocation_unjoin p (block_addr s) = p'"
    using unjoin_nth [OF own i(1) s(1)] s(2) by (simp add: p'_def less_imp_le)
  moreover have "process_get_allocation_by_addr p (block_addr s) = Some (allocations p ! i)"
    using get_allocation_ok [OF own i(1) s(1)] s(2) by (simp add: less_imp_le)
  moreover have "task_directory_of m (proc_task p) = Inr ?pd" using dt by (simp add: task_directory_of_def)
  ultimately have "process_free m process (block_addr s) = Inr m'"
    using map dp f s(1) by (simp add: process_free_def m'_def)
  moreover have "process_inv m' (A(s := None)) process p' t dir"
  proof -
    have keep: "(A(s := None)) x = Some 1" if "block_addr x \<in> dir_pages mm ?pd dir" "A x = Some 1" for x
      using that nd d2(2) by auto
    have "dir_inv (mem m') (A(s := None)) ?pd dir" "dir_pages (mem m') ?pd dir = dir_pages (mem m) ?pd dir"
      using dir_inv_mem [OF d2(1), of "mem m'" "A(s := None)"] keep d2(2) by (auto simp: m'_def)
    moreover have "allocs_own (A(s := None)) (dir_pages (mem m) ?pd dir) (allocations p')"
      using allocs_own_drop [OF own i(1) s(1,2)] by (simp add: p'_def)
    moreover have "process \<noteq> 0" using dp by (auto simp: deref_def)
    then have "deref (procs m') process = Inr p'" by (simp add: m'_def deref_def)
    moreover have "deref (tasks m') (proc_task p') = Inr t" using dt by (simp add: m'_def p'_def)
    ultimately show ?thesis using mi2 m' by (simp add: process_inv_def)
  qed
  ultimately show ?thesis
    using s e frame unfolding m'_def p'_def by blast
qed

text \<open>Freeing null: the first free entry is found, no page is mapped, and \<^verbatim>\<open>kfree\<close> of null does nothing.\<close>

lemma process_free_null:
  assumes inv: "process_inv m A process p t dir"
  shows "process_free m process 0 = Inr m"
proof -
  have mi: "machine_inv m A" and dp: "deref (procs m) process = Inr p" and dt: "deref (tasks m) (proc_task p) = Inr t"
    and own: "allocs_own A (dir_pages (mem m) (page_directory t) dir) (allocations p)"
    using inv by (simp_all add: process_inv_def)
  have pm: "procs m process = Some p" using dp by (auto simp: deref_def split: if_splits option.splits)
  show ?thesis
  proof (cases "process_get_allocation_by_addr p 0")
    case None
    then show ?thesis using dp by (simp add: process_free_def)
  next
    case (Some a)
    then obtain j where j: "first_slot (\<lambda>a. alloc_ptr a = 0) (allocations p) 0 = Some j" "a = allocations p ! j"
      by (auto simp: process_get_allocation_by_addr_def)
    have "a \<in> set (allocations p)" "alloc_ptr a = 0" using first_slot_0 [OF j(1)] j(2) by simp_all
    then have a: "alloc_ptr a = 0" "alloc_size a = 0" using own by (auto simp: allocs_own_def alloc_ok_def)
    have al: "paging_align_address 0 = 0" by (simp add: paging_align_address_def)
    have "paging_map_to m (page_directory t) 0 0 0 0 = Inr (0, m)"
      by (simp add: paging_map_to_def paging_map_range.simps)
    moreover have "task_directory_of m (proc_task p) = Inr (page_directory t)" using dt by (simp add: task_directory_of_def)
    moreover have "set_proc m process (process_allocation_unjoin p 0) = m"
      using unjoin_0 [OF own] pm by (simp add: fun_upd_idem)
    ultimately show ?thesis using dp Some a al kfree_null [OF mi] by (simp add: process_free_def)
  qed
qed

section \<open>The end of all allocations\<close>

text \<open>The heap without the allocations of a table.\<close>

definition drop_allocs :: "live \<Rightarrow> ProcessAllocation list \<Rightarrow> live" where
  "drop_allocs A as = (\<lambda>s. if block_addr s \<in> alloc_ptr ` set as \<and> s < kheap_blocks then None else A s)"

lemma drop_allocs_Nil [simp]: "drop_allocs A [] = A"
  by (simp add: drop_allocs_def)

lemma drop_allocs_snoc_zero: "alloc_ptr a = 0 \<Longrightarrow> drop_allocs A (as @ [a]) = drop_allocs A as"
  by (rule ext) (auto simp: drop_allocs_def less_imp_le)

lemma drop_allocs_snoc:
  assumes "alloc_ptr a = block_addr s" and "s < kheap_blocks"
  shows "drop_allocs A (as @ [a]) = (drop_allocs A as)(s := None)"
proof
  fix x
  have "block_addr x = block_addr s \<longleftrightarrow> x = s" if "x < kheap_blocks"
    using block_addr_inj [of x s] that assms(2) by (auto simp: less_imp_le)
  then show "drop_allocs A (as @ [a]) x = ((drop_allocs A as)(s := None)) x"
    using assms by (auto simp: drop_allocs_def)
qed

text \<open>After \<open>n\<close> rounds the first \<open>n\<close> entries are free.\<close>

definition cleared :: "Process \<Rightarrow> nat \<Rightarrow> Process" where
  "cleared p n = p\<lparr>allocations := replicate n no_allocation @ drop n (allocations p)\<rparr>"

lemma cleared_0 [simp]: "cleared p 0 = p"
  by (simp add: cleared_def)

lemma cleared_nth: "n < length (allocations p) \<Longrightarrow> allocations (cleared p n) ! n = allocations p ! n"
  by (simp add: cleared_def nth_append)

lemma cleared_Suc:
  "n < length (allocations p) \<Longrightarrow>
     (cleared p n)\<lparr>allocations := (allocations (cleared p n))[n := no_allocation]\<rparr> = cleared p (Suc n)"
  by (simp add: cleared_def list_update_append Cons_nth_drop_Suc [symmetric] replicate_app_Cons_same)

lemma terminate_loop_ok:
  assumes inv: "process_inv m A process p t dir" and n: "n \<le> 1024"
  shows "\<exists>h' mm. terminate_allocations_loop m process n =
      Inr (set_proc (m\<lparr>kernel_heap := h', mem := mm\<rparr>) process (cleared p n)) \<and>
    process_inv (set_proc (m\<lparr>kernel_heap := h', mem := mm\<rparr>) process (cleared p n))
      (drop_allocs A (take n (allocations p))) process (cleared p n) t dir \<and> tables_only dir (mem m) mm"
  using n
proof (induction n)
  case 0
  have "procs m process = Some p" using inv by (auto simp: process_inv_def deref_def split: if_splits option.splits)
  then have e: "set_proc (m\<lparr>kernel_heap := kernel_heap m, mem := mem m\<rparr>) process p = m" by (simp add: fun_upd_idem)
  show ?case using inv
    by (intro exI [of _ "kernel_heap m"] exI [of _ "mem m"])
      (simp only: e cleared_0 take_0 drop_allocs_Nil terminate_allocations_loop.simps simp_thms tables_only_refl)
next
  case (Suc n)
  have "n \<le> 1024" using Suc.prems by simp
  from Suc.IH [OF this] obtain h1 mm1 where run: "terminate_allocations_loop m process n =
      Inr (set_proc (m\<lparr>kernel_heap := h1, mem := mm1\<rparr>) process (cleared p n))"
    and inv1: "process_inv (set_proc (m\<lparr>kernel_heap := h1, mem := mm1\<rparr>) process (cleared p n))
      (drop_allocs A (take n (allocations p))) process (cleared p n) t dir"
    and frame: "tables_only dir (mem m) mm1" by blast
  let ?m1 = "set_proc (m\<lparr>kernel_heap := h1, mem := mm1\<rparr>) process (cleared p n)"
  have "length (allocations p) = 1024" using inv by (auto simp: process_inv_def dest: allocs_own_length)
  then have len: "n < length (allocations p)" "n < 1024" using Suc.prems by simp_all
  then have len': "n < length (allocations (cleared p n))" by (simp add: cleared_def)
  have d1: "deref (procs ?m1) process = Inr (cleared p n)" using inv1 by (simp add: process_inv_def)
  have take: "take (Suc n) (allocations p) = take n (allocations p) @ [allocations p ! n]"
    using len(1) by (simp add: take_Suc_conv_app_nth)
  have step: "terminate_allocations_loop m process (Suc n) = process_free ?m1 process (alloc_ptr (allocations p ! n))"
    using run d1 len' cleared_nth [OF len(1)] by simp
  show ?case
  proof (cases "alloc_ptr (allocations p ! n) = 0")
    case True
    have "alloc_size (allocations p ! n) = 0"
      using inv True nth_mem [OF len(1)] by (auto simp: process_inv_def allocs_own_def alloc_ok_def)
    then have "allocations p ! n = no_allocation" using True by (cases "allocations p ! n") (simp add: no_allocation_def)
    then have same: "cleared p (Suc n) = cleared p n"
      using cleared_Suc [OF len(1)] cleared_nth [OF len(1)] by (metis list_update_id Process.surjective Process.update_convs(4))
    have "terminate_allocations_loop m process (Suc n) = Inr ?m1"
      using process_free_null [OF inv1] unfolding step True .
    then show ?thesis
      using inv1 frame unfolding same take drop_allocs_snoc_zero [OF True] by blast
  next
    case False
    then have "alloc_ptr (allocations (cleared p n) ! n) \<noteq> 0" using cleared_nth [OF len(1)] by simp
    from process_free_ok [OF inv1 len(2) this] obtain s h2 mm2 where s: "alloc_ptr (allocations p ! n) = block_addr s"
      "s < kheap_blocks"
      and f: "process_free ?m1 process (block_addr s) =
        Inr (set_proc (?m1\<lparr>kernel_heap := h2, mem := mm2\<rparr>) process (cleared p (Suc n)))"
      and inv2: "process_inv (set_proc (?m1\<lparr>kernel_heap := h2, mem := mm2\<rparr>) process (cleared p (Suc n)))
        ((drop_allocs A (take n (allocations p)))(s := None)) process (cleared p (Suc n)) t dir"
      and frame2: "tables_only dir (mem ?m1) mm2"
      unfolding cleared_Suc [OF len(1)] cleared_nth [OF len(1)] by blast
    have "set_proc (?m1\<lparr>kernel_heap := h2, mem := mm2\<rparr>) process (cleared p (Suc n)) =
        set_proc (m\<lparr>kernel_heap := h2, mem := mm2\<rparr>) process (cleared p (Suc n))" by simp
    moreover have "tables_only dir (mem m) mm2" using tables_only_trans [OF frame] frame2 by simp
    ultimately show ?thesis
      using step f inv2 s drop_allocs_snoc [OF s] unfolding take by metis
  qed
qed

section \<open>A process on a fresh machine\<close>

lemma footprint_dir_inv:
  assumes f: "task_footprint m a (s # p # d # ts)" and dist: "distinct (s # p # d # ts)"
    and live: "\<forall>x\<in>set (s # p # d # ts). A x = Some 1 \<and> x < kheap_blocks"
  shows "dir_inv (mem m) A (block_addr p) (block_addr d)"
proof -
  have len: "length ts = 1024" and pd: "load32 (mem m) (block_addr p) = block_addr d"
    and tab: "\<And>i. i < 1024 \<Longrightarrow> table_of (mem m) (block_addr d) i = block_addr (ts ! i)"
    using f by (auto simp: task_footprint_def)
  have b: "\<And>i. i < 1024 \<Longrightarrow> ts ! i < kheap_blocks \<and> ts ! i \<noteq> p \<and> ts ! i \<noteq> d \<and> A (ts ! i) = Some 1"
    using live dist len by (auto dest: nth_mem)
  have ne: "block_addr x \<noteq> block_addr y" if "x \<noteq> y" "x < kheap_blocks" "y < kheap_blocks" for x y
    using that block_addr_inj [of x y] by auto
  have inj: "inj_on (table_of (mem m) (block_addr d)) {..<1024}"
  proof (rule inj_onI)
    fix i j assume ij: "i \<in> {..<1024 :: nat}" "j \<in> {..<1024}"
      and eq: "table_of (mem m) (block_addr d) i = table_of (mem m) (block_addr d) j"
    then have "ts ! i = ts ! j" using ne [of "ts ! i" "ts ! j"] b tab by auto
    then show "i = j" using dist len ij nth_eq_iff_index_eq [of ts i j] by simp
  qed
  have "pd_root (mem m) (block_addr p) (block_addr d)"
    using inj tab b live pd ne unfolding pd_root_def pd_ok_def by (auto simp: less_imp_le)
  moreover have "\<exists>x. a = block_addr x \<and> A x = Some 1 \<and> x < kheap_blocks"
    if page: "a \<in> dir_pages (mem m) (block_addr p) (block_addr d)" for a
  proof -
    consider "a = block_addr p" | "a = block_addr d" | i where "i < 1024" "a = block_addr (ts ! i)"
      using page tab by (auto simp: dir_pages_def)
    then show ?thesis using live b by cases auto
  qed
  ultimately show ?thesis by (simp add: dir_inv_def)
qed

definition demo_proc :: "u32 \<Rightarrow> Process" where
  "demo_proc task = demo_process\<lparr>proc_task := task, allocations := replicate 1024 no_allocation\<rparr>"

text \<open>A machine whose only task belongs to a process without allocations; only the 1027 pages of the task are in use.\<close>

lemma demo_process_inv:
  "\<exists>(m :: 'p task_state) A a t dir pages. process_inv m A 0x5000 (demo_proc a) t dir \<and> length pages = 1027 \<and>
     (\<forall>x. A x = (if x \<in> set pages then Some 1 else None)) \<and> current_task m = a"
proof -
  obtain m0 :: "'p task_state" where m0: "scheduler_inv m0 Map.empty []" "deref (procs m0) 0x5000 = Inr demo_process"
    using demo_scheduler by blast
  have r: "card (kh.used Map.empty) + 1027 \<le> kheap_blocks" by (simp add: kheap_blocks_def)
  from task_new_inv [OF m0(1) r m0(2) demo_startable] obtain a pages t and m1 :: "'p task_state" where
    m1: "scheduler_inv m1 (add_pages Map.empty pages) [(a, pages)]"
      "m1 = appended (m0\<lparr>kernel_heap := kernel_heap m1, mem := mem m1\<rparr>) [] a t" by auto
  let ?A = "add_pages Map.empty pages"
  have own: "machine_inv m1 ?A" "task_footprint m1 a pages" "distinct pages" "\<forall>x\<in>set pages. ?A x = Some 1"
    using m1(1) by (auto simp: scheduler_inv_def tasks_own_def pages_own_def)
  obtain s p d ts where g: "pages = s # p # d # ts" "length pages = 1027" "a = block_addr s"
    "map_option page_directory (tasks m1 a) = Some (block_addr p)"
    using own(2) by (auto simp: task_footprint_def)
  then obtain t' where t': "tasks m1 a = Some t'" "page_directory t' = block_addr p" by auto
  have live: "\<forall>x\<in>set pages. ?A x = Some 1 \<and> x < kheap_blocks" using own(4) live_used [OF own(1)] by blast
  have d: "dir_inv (mem m1) ?A (block_addr p) (block_addr d)"
    using footprint_dir_inv [of m1 a s p d ts ?A] own(2,3) live unfolding g(1) by blast
  let ?m = "set_proc m1 0x5000 (demo_proc a)"
  have "machine_inv ?m ?A" using own(1) machine_inv_kernel_heap [of ?m m1] by simp
  moreover have "a \<noteq> 0" using g(3) live g(1) by (simp add: less_imp_le)
  moreover have "allocs_own ?A D (allocations (demo_proc a))" for D
    by (simp add: allocs_own_def alloc_ok_def demo_proc_def no_allocation_def BIMBLEOS_MAX_PROGRAM_ALLOCATIONS_def)
  ultimately have "process_inv ?m ?A 0x5000 (demo_proc a) t' (block_addr d)"
    using t' d by (simp add: process_inv_def deref_def demo_proc_def)
  moreover have "current_task m1 = a" by (subst m1(2)) (simp add: appended_def)
  ultimately show ?thesis
    using g(2) by (intro exI [of _ ?m] exI [of _ ?A] exI [of _ a] exI [of _ t'] exI [of _ "block_addr d"] exI [of _ pages])
      (simp add: add_pages_def)
qed

section \<open>Properties\<close>

lemma demo_one_block:
  assumes "length pages = 1027" and "\<forall>x. A x = (if x \<in> set pages then Some 1 else None)"
  shows "room_for A 1"
proof -
  have "card (set pages) \<le> 1027" using card_length [of pages] assms(1) by simp
  then have "\<not> {..<kheap_blocks} \<subseteq> set pages"
    using card_mono [of "set pages" "{..<kheap_blocks}"] by (auto simp: kheap_blocks_def)
  then obtain s where "s < kheap_blocks" "s \<notin> set pages" by auto
  then show ?thesis
    using assms(2) unfolding room_for_def
    by (intro exI [of _ s]) (auto simp: covers_def Suc_le_eq less_Suc_eq split: if_splits)
qed

text \<open>
  When the heap has room and the table a free entry, \<^verbatim>\<open>process_malloc\<close> returns the first block of a run nobody used,
  records it in a free entry, and changes the page table of the process in exactly this run: its pages become present,
  writable and accessible to the user, every other page keeps its entry. The invariant of the process holds again.
\<close>

theorem process_malloc_refines:
  assumes inv: "process_inv m A process p t dir" and sz: "0 < unat sz" "unat sz \<le> 2 ^ 32 - 4096"
    and room: "room_for A (blocks_for (unat sz))" and free: "\<exists>a\<in>set (allocations p). alloc_ptr a = 0"
  shows "\<exists>r i m' p'. process_malloc m process sz = Inr (block_addr r, m') \<and>
    p' = p\<lparr>allocations := (allocations p)[i := \<lparr>alloc_ptr = block_addr r, alloc_size = sz\<rparr>]\<rparr> \<and>
    alloc_ptr (allocations p ! i) = 0 \<and> (\<forall>j\<in>{r..<r + blocks_for (unat sz)}. j \<notin> kh.used A) \<and>
    process_inv m' (A(r \<mapsto> blocks_for (unat sz))) process p' t dir \<and>
    (\<forall>va. pd_entry (mem m') dir va =
       (if in_blocks r (blocks_for (unat sz)) va then (va AND 0xfffff000) OR 7 else pd_entry (mem m) dir va))"
proof -
  from process_malloc_ok [OF assms] obtain r h' mm i where res:
    "alloc_ptr (allocations p ! i) = 0"
    "process_malloc m process sz = Inr (block_addr r, set_proc (m\<lparr>kernel_heap := h', mem := mm\<rparr>) process
      (p\<lparr>allocations := (allocations p)[i := \<lparr>alloc_ptr = block_addr r, alloc_size = sz\<rparr>]\<rparr>))"
    "process_inv (set_proc (m\<lparr>kernel_heap := h', mem := mm\<rparr>) process
      (p\<lparr>allocations := (allocations p)[i := \<lparr>alloc_ptr = block_addr r, alloc_size = sz\<rparr>]\<rparr>))
      (A(r \<mapsto> blocks_for (unat sz))) process
      (p\<lparr>allocations := (allocations p)[i := \<lparr>alloc_ptr = block_addr r, alloc_size = sz\<rparr>]\<rparr>) t dir"
    "\<forall>j s' k'. r \<le> j \<and> j < r + blocks_for (unat sz) \<longrightarrow> \<not> covers A s' k' j"
    "\<forall>va. pd_entry mm dir va = (if in_blocks r (blocks_for (unat sz)) va then (va AND 0xfffff000) OR 7
       else pd_entry (mem m) dir va)" by blast
  moreover from this have "\<forall>j\<in>{r..<r + blocks_for (unat sz)}. j \<notin> kh.used A" by (auto simp: kh.used_def)
  moreover define p' where "p' = p\<lparr>allocations := (allocations p)[i := \<lparr>alloc_ptr = block_addr r, alloc_size = sz\<rparr>]\<rparr>"
  moreover define m' where "m' = set_proc (m\<lparr>kernel_heap := h', mem := mm\<rparr>) process p'"
  moreover have "mem m' = mm" by (simp add: m'_def)
  ultimately show ?thesis by metis
qed

theorem process_malloc_refines_witness:
  "\<exists>(m :: nat task_state) r m'. process_malloc m 0x5000 100 = Inr (block_addr r, m') \<and>
     (\<exists>dir. pd_entry (mem m') dir (block_addr r) = (block_addr r AND 0xfffff000) OR 7)"
proof -
  obtain m :: "nat task_state" and A a t dir pages where
    inv: "process_inv m A 0x5000 (demo_proc a) t dir" and A: "length pages = 1027" "\<forall>x. A x = (if x \<in> set pages then Some 1 else None)"
    using demo_process_inv by blast
  have one: "blocks_for (unat (100 :: u32)) = 1" by (simp add: blocks_for_def)
  have room: "room_for A (blocks_for (unat (100 :: u32)))" unfolding one by (rule demo_one_block [OF A])
  have free: "\<exists>a\<in>set (allocations (demo_proc a)). alloc_ptr a = 0" by (simp add: demo_proc_def no_allocation_def)
  from process_malloc_refines [OF inv _ _ room free] obtain r i m' p' where
    r: "process_malloc m 0x5000 100 = Inr (block_addr r, m')" "process_inv m' (A(r \<mapsto> 1)) 0x5000 p' t dir"
      "\<forall>va. pd_entry (mem m') dir va = (if in_blocks r 1 va then (va AND 0xfffff000) OR 7 else pd_entry (mem m) dir va)"
    unfolding one by auto
  have "r < kheap_blocks" using r(2) machine_inv_bounds [of m' "A(r \<mapsto> 1)" r 1] by (simp add: process_inv_def)
  then have "in_blocks r 1 (block_addr r)" by (simp add: in_blocks_def less_imp_le)
  then have "pd_entry (mem m') dir (block_addr r) = (block_addr r AND 0xfffff000) OR 7" using r(3) by simp
  with r(1) show ?thesis by blast
qed

text \<open>
  C28: What \<^verbatim>\<open>process_malloc\<close> returned, \<^verbatim>\<open>process_free\<close> gives back: the kernel heap and the process are as before, and the user
  can no longer reach the pages.
\<close>

theorem process_malloc_free_roundtrip:
  assumes inv: "process_inv m A process p t dir" and sz: "0 < unat sz" "unat sz \<le> 2 ^ 32 - 4096"
    and room: "room_for A (blocks_for (unat sz))" and free: "\<exists>a\<in>set (allocations p). alloc_ptr a = 0"
  shows "\<exists>r m1 m2. process_malloc m process sz = Inr (block_addr r, m1) \<and>
    process_free m1 process (block_addr r) = Inr m2 \<and> kernel_heap m2 = kernel_heap m \<and> process_inv m2 A process p t dir \<and>
    (\<forall>va. pd_entry (mem m2) dir va =
       (if in_blocks r (blocks_for (unat sz)) va then va AND 0xfffff000 else pd_entry (mem m) dir va))"
proof -
  let ?k = "blocks_for (unat sz)"
  from process_malloc_ok [OF assms] obtain r h1 mm1 i where
    i: "i < 1024" "alloc_ptr (allocations p ! i) = 0" and r: "r < kheap_blocks" "A r = None"
    and run: "process_malloc m process sz = Inr (block_addr r, set_proc (m\<lparr>kernel_heap := h1, mem := mm1\<rparr>) process
      (p\<lparr>allocations := (allocations p)[i := \<lparr>alloc_ptr = block_addr r, alloc_size = sz\<rparr>]\<rparr>))"
    and inv1: "process_inv (set_proc (m\<lparr>kernel_heap := h1, mem := mm1\<rparr>) process
      (p\<lparr>allocations := (allocations p)[i := \<lparr>alloc_ptr = block_addr r, alloc_size = sz\<rparr>]\<rparr>)) (A(r \<mapsto> ?k)) process
      (p\<lparr>allocations := (allocations p)[i := \<lparr>alloc_ptr = block_addr r, alloc_size = sz\<rparr>]\<rparr>) t dir"
    and e1: "\<forall>va. pd_entry mm1 dir va = (if in_blocks r ?k va then (va AND 0xfffff000) OR 7 else pd_entry (mem m) dir va)"
    by blast
  define p1 where "p1 = p\<lparr>allocations := (allocations p)[i := \<lparr>alloc_ptr = block_addr r, alloc_size = sz\<rparr>]\<rparr>"
  define m1 where "m1 = set_proc (m\<lparr>kernel_heap := h1, mem := mm1\<rparr>) process p1"
  have own: "allocs_own A (dir_pages (mem m) (page_directory t) dir) (allocations p)" using inv by (simp add: process_inv_def)
  have len: "length (allocations p) = 1024" using allocs_own_length [OF own] .
  have entry: "allocations p1 ! i = \<lparr>alloc_ptr = block_addr r, alloc_size = sz\<rparr>" using i len by (simp add: p1_def)
  have inv1': "process_inv m1 (A(r \<mapsto> ?k)) process p1 t dir" using inv1 by (simp only: m1_def p1_def)
  have "alloc_ptr (allocations p1 ! i) \<noteq> 0" using entry r(1) by (simp add: less_imp_le)
  from process_free_ok [OF inv1' i(1) this] obtain s h2 mm2 where
    s: "block_addr r = block_addr s" "s < kheap_blocks"
    and f: "process_free m1 process (block_addr s) = Inr (set_proc (m1\<lparr>kernel_heap := h2, mem := mm2\<rparr>) process
      (p1\<lparr>allocations := (allocations p1)[i := no_allocation]\<rparr>))"
    and inv2: "process_inv (set_proc (m1\<lparr>kernel_heap := h2, mem := mm2\<rparr>) process (p1\<lparr>allocations := (allocations p1)[i := no_allocation]\<rparr>))
      ((A(r \<mapsto> ?k))(s := None)) process (p1\<lparr>allocations := (allocations p1)[i := no_allocation]\<rparr>) t dir"
    and e2: "\<forall>va. pd_entry mm2 dir va = (if in_blocks s ?k va then va AND 0xfffff000 else pd_entry (mem m1) dir va)"
    unfolding entry by (simp only: ProcessAllocation.select_convs) blast
  have sr: "s = r" using s r(1) block_addr_inj [of r s] by (simp add: less_imp_le)
  have A: "(A(r \<mapsto> ?k))(s := None) = A" using r(2) sr by auto
  have "alloc_size (allocations p ! i) = 0"
    using own i len nth_mem [of i "allocations p"] by (auto simp: allocs_own_def alloc_ok_def)
  then have "allocations p ! i = no_allocation" using i(2) by (cases "allocations p ! i") (simp add: no_allocation_def)
  then have "(allocations p)[i := no_allocation] = allocations p" by (metis list_update_id)
  then have p2: "p1\<lparr>allocations := (allocations p1)[i := no_allocation]\<rparr> = p" by (simp add: p1_def)
  define m2 where "m2 = set_proc (m1\<lparr>kernel_heap := h2, mem := mm2\<rparr>) process p"
  have inv2': "process_inv m2 A process p t dir" using inv2 unfolding A p2 m2_def .
  then have "kernel_heap m2 = kernel_heap m"
    using machine_inv_functional [of m2 A m] inv by (simp add: process_inv_def)
  moreover have "process_malloc m process sz = Inr (block_addr r, m1)" using run by (simp only: m1_def p1_def)
  moreover have "process_free m1 process (block_addr r) = Inr m2" using f unfolding p2 sr m2_def .
  moreover have "\<forall>va. pd_entry (mem m2) dir va = (if in_blocks r ?k va then va AND 0xfffff000 else pd_entry (mem m) dir va)"
    using e1 e2 by (simp add: m2_def m1_def sr)
  ultimately show ?thesis using inv2' by blast
qed

theorem process_malloc_free_roundtrip_witness:
  "\<exists>(m :: nat task_state) r m1 m2. process_malloc m 0x5000 4096 = Inr (block_addr r, m1) \<and>
     process_free m1 0x5000 (block_addr r) = Inr m2 \<and> kernel_heap m2 = kernel_heap m"
proof -
  obtain m :: "nat task_state" and A a t dir pages where
    inv: "process_inv m A 0x5000 (demo_proc a) t dir" and A: "length pages = 1027" "\<forall>x. A x = (if x \<in> set pages then Some 1 else None)"
    using demo_process_inv by blast
  have one: "blocks_for (unat (4096 :: u32)) = 1" by (simp add: blocks_for_def)
  have room: "room_for A (blocks_for (unat (4096 :: u32)))" unfolding one by (rule demo_one_block [OF A])
  have free: "\<exists>a\<in>set (allocations (demo_proc a)). alloc_ptr a = 0" by (simp add: demo_proc_def no_allocation_def)
  show ?thesis using process_malloc_free_roundtrip [OF inv _ _ room free] by auto
qed

text \<open>
  Ending a process frees each of its allocations exactly once, without a fault, and nothing else: afterwards every
  entry of its table is free and the heap has lost exactly these runs of blocks.
\<close>

theorem process_terminate_allocations_frees_all:
  assumes inv: "process_inv m A process p t dir"
  shows "\<exists>m'. process_terminate_allocations m process = Inr (0, m') \<and>
    process_inv m' (drop_allocs A (allocations p)) process (p\<lparr>allocations := replicate 1024 no_allocation\<rparr>) t dir"
proof -
  have len: "length (allocations p) = 1024" using inv by (auto simp: process_inv_def dest: allocs_own_length)
  then have "cleared p 1024 = p\<lparr>allocations := replicate 1024 no_allocation\<rparr>" by (simp add: cleared_def)
  then show ?thesis
    using terminate_loop_ok [OF inv order_refl] len
    by (auto simp: process_terminate_allocations_def BIMBLEOS_MAX_PROGRAM_ALLOCATIONS_def)
qed

theorem process_terminate_allocations_frees_all_witness:
  "\<exists>(m :: nat task_state) A a t dir m'. process_terminate_allocations m 0x5000 = Inr (0, m') \<and>
     process_inv m' A 0x5000 (demo_proc a) t dir"
proof -
  obtain m :: "nat task_state" and A a t dir pages where "process_inv m A 0x5000 (demo_proc a) t dir"
    using demo_process_inv by blast
  moreover have "(demo_proc a)\<lparr>allocations := replicate 1024 no_allocation\<rparr> = demo_proc a" by (simp add: demo_proc_def)
  ultimately show ?thesis using process_terminate_allocations_frees_all [of m A "0x5000" "demo_proc a" t dir] by metis
qed

end
