(* ===== verification/ProgramMap.thy ===== *)
theory ProgramMap
  imports ProcessMem
begin

text \<open>
  The address space of a program (\<^verbatim>\<open>process_map_memory\<close> of \<^verbatim>\<open>task/process.c\<close>): the segments of the file and the stack, first as
  a change of the page table, then as what the processor reads under the directory of the task.
\<close>

section \<open>The processor's walk\<close>

lemma walk_indexes:
  "4 * (va div 0x400000) = of_nat (4 * (pn va div 1024))" "4 * (va mod 0x400000 div 0x1000) = of_nat (4 * (pn va mod 1024))"
proof -
  have "unat (va div 0x400000) = pn va div 1024"
    by (simp add: unat_div_distrib pn_def div_mult2_eq [symmetric])
  then have "va div 0x400000 = of_nat (pn va div 1024)" by (metis of_nat_unat ucast_id)
  then show "4 * (va div 0x400000) = of_nat (4 * (pn va div 1024))" by simp
  have "unat (va mod 0x400000 div 0x1000) = unat va mod 4194304 div 4096"
    by (simp add: unat_div_distrib unat_mod_distrib)
  also have "\<dots> = pn va mod 1024"
    using mod_mult2_eq [of "unat va" 4096 1024] by (simp add: pn_def)
  finally have "va mod 0x400000 div 0x1000 = of_nat (pn va mod 1024)" by (metis of_nat_unat ucast_id)
  then show "4 * (va mod 0x400000 div 0x1000) = of_nat (4 * (pn va mod 1024))" by simp
qed

lemma word_off: "(va :: u32) mod 0x1000 = of_nat (off va)"
  by (simp add: word_unat_eq_iff unat_mod_distrib off_def take_bit_nat_eq_self)

text \<open>Every table of the directory is present.\<close>

definition dir_present :: "(u32 \<Rightarrow> u8) \<Rightarrow> u32 \<Rightarrow> bool" where
  "dir_present mm dir \<longleftrightarrow> (\<forall>i<1024. load32 mm (dir + of_nat (4 * i)) AND PAGING_IS_PRESENT \<noteq> 0)"

lemma vtranslate_entry:
  assumes on: "paging_enabled m" "cr3 m = dir" and dir: "dir_present (mem m) dir"
    and pte: "pd_entry (mem m) dir va AND PAGING_IS_PRESENT \<noteq> 0"
  shows "vtranslate m va = Inr ((pd_entry (mem m) dir va AND 0xfffff000) + of_nat (off va))"
proof -
  have "load32 (mem m) (dir + of_nat (4 * (pn va div 1024))) AND PAGING_IS_PRESENT \<noteq> 0"
    using dir pn_div_bound by (simp add: dir_present_def)
  moreover have "load32 (mem m) ((load32 (mem m) (dir + of_nat (4 * (pn va div 1024))) AND 0xfffff000) +
      of_nat (4 * (pn va mod 1024))) = pd_entry (mem m) dir va"
    by (simp add: pd_entry_def pte_addr_def table_of_def)
  ultimately show ?thesis
    using on(1) pte unfolding vtranslate_def Let_def walk_indexes on(2) word_off by (simp only: if_False if_True not_True_eq_False)
qed

text \<open>Changes of the tables do not matter to the directory.\<close>

lemma dir_page_kept:
  assumes ok: "pd_ok mm dir" and t: "tables_only dir mm mm'" and i: "i < 1024"
  shows "load32 mm' (dir + of_nat (4 * i)) = load32 mm (dir + of_nat (4 * i))"
proof (rule load32_cong_page)
  show "aligned4 (dir + of_nat (4 * i))" using ok by (rule aligned4_dir)
  fix b assume "pn b = pn (dir + of_nat (4 * i))"
  also have "\<dots> = pn dir" using ok i by (intro pn_add_page) (simp_all add: pd_ok_def)
  finally have "pn b = pn dir" .
  moreover have "pn dir \<noteq> pn (table_of mm dir j)" if "j < 1024" for j
  proof
    assume "pn dir = pn (table_of mm dir j)"
    moreover have "off dir = off (table_of mm dir j)" using ok by (simp add: pd_ok_def)
    ultimately have "table_of mm dir j = dir" using addr_eq_iff by metis
    with ok that show False by (simp add: pd_ok_def)
  qed
  ultimately show "mm' b = mm b" using t by (simp add: tables_only_def)
qed

lemma dir_present_kept: "pd_ok mm dir \<Longrightarrow> tables_only dir mm mm' \<Longrightarrow> dir_present mm dir \<Longrightarrow> dir_present mm' dir"
  by (simp add: dir_present_def dir_page_kept del: of_nat_mult)

text \<open>Every table of the directory may be used by a program, for reading and for writing; the entries of the tables decide.\<close>

definition dir_open :: "(u32 \<Rightarrow> u8) \<Rightarrow> u32 \<Rightarrow> bool" where
  "dir_open mm dir \<longleftrightarrow> (\<forall>i<1024. load32 mm (dir + of_nat (4 * i)) AND 7 = 7)"

lemma present_of_open: "(w :: u32) AND 7 = 7 \<Longrightarrow> w AND PAGING_IS_PRESENT \<noteq> 0"
proof
  assume w: "w AND 7 = 7" and z: "w AND PAGING_IS_PRESENT = 0"
  have "w AND 1 = (w AND 7) AND 1" by (simp add: and.assoc)
  then show False using w z by (simp add: PAGING_IS_PRESENT_def)
qed

lemma dir_open_present: "dir_open mm dir \<Longrightarrow> dir_present mm dir"
  using present_of_open by (auto simp: dir_open_def dir_present_def)

lemma dir_open_kept: "pd_ok mm dir \<Longrightarrow> tables_only dir mm mm' \<Longrightarrow> dir_open mm dir \<Longrightarrow> dir_open mm' dir"
  by (simp add: dir_open_def dir_page_kept del: of_nat_mult)

section \<open>The file in memory\<close>

text \<open>The program headers of a file of \<open>n\<close> bytes at \<open>h\<close> lie in the file; the loader does not check it.\<close>

definition headers_inside :: "(u32 \<Rightarrow> u8) \<Rightarrow> u32 \<Rightarrow> nat \<Rightarrow> bool" where
  "headers_inside mm h n \<longleftrightarrow> 52 \<le> n \<and> e_phoff (Elf_header_at mm h) \<noteq> 0 \<and>
     unat (e_phoff (Elf_header_at mm h)) + 32 * unat (e_phnum (Elf_header_at mm h)) \<le> n"

definition same_bytes :: "u32 \<Rightarrow> nat \<Rightarrow> (u32 \<Rightarrow> u8) \<Rightarrow> (u32 \<Rightarrow> u8) \<Rightarrow> bool" where
  "same_bytes h n mm mm' \<longleftrightarrow> (\<forall>j<n. mm' (h + of_nat j) = mm (h + of_nat j))"

lemma load32_same:
  assumes "same_bytes h n mm mm'" and "j + 3 < n"
  shows "load32 mm' (h + of_nat j) = load32 mm (h + of_nat j)"
proof -
  have "mm' (h + of_nat (j + k)) = mm (h + of_nat (j + k))" if "k < 4" for k
    using assms that by (simp add: same_bytes_def del: of_nat_add)
  from this [of 0] this [of 1] this [of 2] this [of 3] show ?thesis by (simp add: load32_def add.assoc add.commute add.left_commute)
qed

lemma load16_same:
  assumes "same_bytes h n mm mm'" and "j + 1 < n"
  shows "load16 mm' (h + of_nat j) = load16 mm (h + of_nat j)"
proof -
  have "mm' (h + of_nat (j + k)) = mm (h + of_nat (j + k))" if "k < 2" for k
    using assms that by (simp add: same_bytes_def del: of_nat_add)
  from this [of 0] this [of 1] show ?thesis by (simp add: load16_def add.assoc add.commute add.left_commute)
qed

lemma header_same:
  assumes "same_bytes h n mm mm'" and "52 \<le> n"
  shows "Elf_header_at mm' h = Elf_header_at mm h"
proof -
  have "mem_bytes mm' h 16 = mem_bytes mm h 16"
    using assms by (intro nth_equalityI) (simp_all add: same_bytes_def)
  then show ?thesis
    using load32_same [OF assms(1), of 20] load32_same [OF assms(1), of 24] load32_same [OF assms(1), of 28]
      load32_same [OF assms(1), of 32] load32_same [OF assms(1), of 36] load16_same [OF assms(1), of 16]
      load16_same [OF assms(1), of 18] load16_same [OF assms(1), of 40] load16_same [OF assms(1), of 42]
      load16_same [OF assms(1), of 44] load16_same [OF assms(1), of 46] load16_same [OF assms(1), of 48]
      load16_same [OF assms(1), of 50] assms(2)
    by (simp add: Elf_header_at_def)
qed

lemma phdrs_same:
  assumes s: "same_bytes h n mm mm'" and inside: "headers_inside mm h n"
  shows "phdrs_at mm' h = phdrs_at mm h"
proof -
  have n: "52 \<le> n" using inside by (simp add: headers_inside_def)
  note hd = header_same [OF s n]
  let ?ph = "e_phoff (Elf_header_at mm h)"
  have "Elf32_phdr_at mm' (elf_program_header mm' h (int i)) = Elf32_phdr_at mm (elf_program_header mm h (int i))"
    if i: "i < unat (e_phnum (Elf_header_at mm h))" for i
  proof -
    let ?o = "unat ?ph + 32 * i"
    have "32 * i + 32 \<le> 32 * unat (e_phnum (Elf_header_at mm h))" using i by linarith
    then have o: "?o + 32 \<le> n" using inside by (simp add: headers_inside_def)
    have a: "elf_program_header mm' h (int i) = h + of_nat ?o" "elf_program_header mm h (int i) = h + of_nat ?o"
      using inside by (simp_all add: elf_program_header_def elf_pheader_def hd headers_inside_def)
    have w: "load32 mm' (h + of_nat (?o + k)) = load32 mm (h + of_nat (?o + k))" if "k + 4 \<le> 32" for k
      using o that by (intro load32_same [OF s]) simp
    show ?thesis unfolding a Elf32_phdr_at_def
      using w [of 0] w [of 4] w [of 8] w [of 12] w [of 16] w [of 20] w [of 24] w [of 28]
      by (simp add: add.assoc)
  qed
  then show ?thesis by (simp add: phdrs_at_def hd)
qed

text \<open>The file does not share a page with the tables.\<close>

definition image_apart :: "(u32 \<Rightarrow> u8) \<Rightarrow> u32 \<Rightarrow> u32 \<Rightarrow> nat \<Rightarrow> bool" where
  "image_apart mm dir h n \<longleftrightarrow> (\<forall>i<1024. \<forall>j<n. pn (h + of_nat j) \<noteq> pn (table_of mm dir i))"

lemma image_apart_same: "image_apart mm dir h n \<Longrightarrow> tables_only dir mm mm' \<Longrightarrow> same_bytes h n mm mm'"
  by (simp add: image_apart_def tables_only_def same_bytes_def)

lemma image_apart_kept: "tables_only dir mm mm' \<Longrightarrow> image_apart mm' dir h n = image_apart mm dir h n"
  by (simp add: image_apart_def tables_only_def)

section \<open>The segments\<close>

text \<open>The pages a segment is mapped to, and the change of the page table.\<close>

definition seg_start :: "Elf32_phdr \<Rightarrow> u32" where
  "seg_start ph = paging_align_to_lower_page (p_vaddr ph)"

definition seg_phys :: "Elf_file \<Rightarrow> Elf32_phdr \<Rightarrow> u32" where
  "seg_phys f ph = paging_align_to_lower_page (elf_phdr_phys_address f ph)"

definition seg_end :: "Elf_file \<Rightarrow> Elf32_phdr \<Rightarrow> u32" where
  "seg_end f ph = paging_align_address (elf_phdr_phys_address f ph + p_memsz ph)"

definition seg_flags :: "Elf32_phdr \<Rightarrow> u32" where
  "seg_flags ph = PAGING_IS_PRESENT OR PAGING_ACCESS_FROM_ALL OR (if p_flags ph AND PF_W \<noteq> 0 then PAGING_IS_WRITEABLE else 0)"

definition seg_pages :: "Elf_file \<Rightarrow> Elf32_phdr \<Rightarrow> nat" where
  "seg_pages f ph = pn (seg_end f ph - seg_phys f ph)"

definition map_segment :: "Elf_file \<Rightarrow> Elf32_phdr \<Rightarrow> (u32 \<Rightarrow> u32) \<Rightarrow> (u32 \<Rightarrow> u32)" where
  "map_segment f ph e = map_pages e (seg_start ph) (seg_phys f ph) (seg_pages f ph) (seg_flags ph)"

text \<open>A segment that does not wrap round the end of memory.\<close>

definition seg_ok :: "Elf_file \<Rightarrow> Elf32_phdr \<Rightarrow> bool" where
  "seg_ok f ph \<longleftrightarrow> seg_phys f ph \<le> seg_end f ph"

lemma lower_page_is_aligned [simp]: "paging_is_aligned (paging_align_to_lower_page a)"
  by (simp add: lower_page)

lemma align_address_is_aligned [simp]: "paging_is_aligned (paging_align_address a)"
  using paging_align_address_bounds [of a] by simp

lemma map_segment_cong: "e va = e' va \<Longrightarrow> map_segment f ph e va = map_segment f ph e' va"
  by (simp add: map_segment_def map_pages_def)

lemma fold_map_segment_cong: "e va = e' va \<Longrightarrow> fold (map_segment f) ps e va = fold (map_segment f) ps e' va"
proof (induction ps arbitrary: e e')
  case (Cons ph ps)
  have "map_segment f ph e va = map_segment f ph e' va" using Cons.prems by (rule map_segment_cong)
  from Cons.IH [of "map_segment f ph e" "map_segment f ph e'", OF this] show ?case by simp
qed simp

lemma length_phdrs: "int i < uint (e_phnum (Elf_header_at mm h)) \<longleftrightarrow> i < length (phdrs_at mm h)"
proof -
  have "uint (e_phnum (Elf_header_at mm h)) = int (length (phdrs_at mm h))" by (simp add: phdrs_at_def)
  then show ?thesis by linarith
qed

lemma map_elf_loop_ok:
  assumes root: "pd_root (mem m) (page_directory t) dir" and t: "deref (tasks m) (proc_task p) = Inr t"
    and inside: "headers_inside (mem m) (elf_header f) n" and apart: "image_apart (mem m) dir (elf_header f) n"
    and segs: "\<forall>ph\<in>set (phdrs_at (mem m) (elf_header f)). seg_ok f ph" and i: "i \<le> length (phdrs_at (mem m) (elf_header f))"
  shows "\<exists>mm. map_elf_loop m p f (int i) 0 = Inr (0, m\<lparr>mem := mm\<rparr>) \<and> pd_root mm (page_directory t) dir \<and>
    tables_only dir (mem m) mm \<and>
    (\<forall>va. paging_is_aligned va \<longrightarrow>
       pd_entry mm dir va = fold (map_segment f) (drop i (phdrs_at (mem m) (elf_header f))) (pd_entry (mem m) dir) va)"
  using assms
proof (induction "length (phdrs_at (mem m) (elf_header f)) - i" arbitrary: m i)
  case 0
  then have "\<not> int i < uint (e_phnum (Elf_header_at (mem m) (elf_header f)))" unfolding length_phdrs by simp
  then have "map_elf_loop m p f (int i) 0 = Inr (0, m\<lparr>mem := mem m\<rparr>)" by (subst map_elf_loop.simps) simp
  then show ?case using 0 by (intro exI [of _ "mem m"]) (simp add: tables_only_refl)
next
  case (Suc k)
  let ?h = "elf_header f" and ?pd = "page_directory t"
  let ?ps = "phdrs_at (mem m) ?h"
  have less: "i < length ?ps" using Suc.hyps(2) by simp
  then have num: "int i < uint (e_phnum (Elf_header_at (mem m) ?h))" unfolding length_phdrs .
  let ?ph = "?ps ! i"
  have ph: "?ph = Elf32_phdr_at (mem m) (elf_program_header (mem m) ?h (int i))" using less by (simp add: phdrs_at_def)
  have "seg_ok f ?ph" using Suc.prems(5) less by simp
  then have le: "seg_phys f ?ph \<le> seg_end f ?ph" by (simp add: seg_ok_def)
  have al: "paging_is_aligned (seg_start ?ph)" "paging_is_aligned (seg_phys f ?ph)" "paging_is_aligned (seg_end f ?ph)"
    by (simp_all add: seg_start_def seg_phys_def seg_end_def)
  from paging_map_to_ok [OF Suc.prems(1) al le, of "seg_flags ?ph"] obtain m1 where
    m1: "paging_map_to m ?pd (seg_start ?ph) (seg_phys f ?ph) (seg_end f ?ph) (seg_flags ?ph) = Inr (0, m\<lparr>mem := m1\<rparr>)"
      "pd_root m1 ?pd dir" "tables_only dir (mem m) m1"
      "\<forall>va. paging_is_aligned va \<longrightarrow> pd_entry m1 dir va = map_segment f ?ph (pd_entry (mem m) dir) va"
    unfolding map_segment_def seg_pages_def by blast
  let ?m = "m\<lparr>mem := m1\<rparr>"
  have same: "same_bytes ?h n (mem m) m1" using image_apart_same [OF Suc.prems(4) m1(3)] .
  have ps: "phdrs_at (mem ?m) ?h = ?ps" using phdrs_same [OF same Suc.prems(3)] by simp
  have hd: "Elf_header_at m1 ?h = Elf_header_at (mem m) ?h"
    using header_same [OF same] Suc.prems(3) by (simp add: headers_inside_def)
  have "task_directory_of m (proc_task p) = Inr ?pd" using Suc.prems(2) by (simp add: task_directory_of_def)
  then have step: "map_elf_loop m p f (int i) 0 = map_elf_loop ?m p f (int (Suc i)) 0"
    using num m1(1) unfolding ph
    by (subst map_elf_loop.simps) (simp add: Let_def seg_start_def seg_phys_def seg_end_def seg_flags_def add.commute)
  have k: "k = length (phdrs_at (mem ?m) ?h) - Suc i" using Suc.hyps(2) unfolding ps by simp
  have pre: "pd_root (mem ?m) ?pd dir" "deref (tasks ?m) (proc_task p) = Inr t" "headers_inside (mem ?m) ?h n"
    "image_apart (mem ?m) dir ?h n" "\<forall>ph\<in>set (phdrs_at (mem ?m) ?h). seg_ok f ph" "Suc i \<le> length (phdrs_at (mem ?m) ?h)"
    using m1(2) Suc.prems(2-5) less image_apart_kept [OF m1(3)] unfolding ps by (simp_all add: headers_inside_def hd)
  from Suc.hyps(1) [OF k pre, unfolded ps] obtain m2 where
    m2: "map_elf_loop ?m p f (int (Suc i)) 0 = Inr (0, ?m\<lparr>mem := m2\<rparr>)" "pd_root m2 ?pd dir" "tables_only dir m1 m2"
      "\<forall>va. paging_is_aligned va \<longrightarrow> pd_entry m2 dir va = fold (map_segment f) (drop (Suc i) ?ps) (pd_entry m1 dir) va"
    by auto
  have "fold (map_segment f) (drop (Suc i) ?ps) (pd_entry m1 dir) va = fold (map_segment f) (drop i ?ps) (pd_entry (mem m) dir) va"
    if al: "paging_is_aligned va" for va
  proof -
    have "drop i ?ps = ?ph # drop (Suc i) ?ps" using less by (rule Cons_nth_drop_Suc [symmetric])
    moreover have "pd_entry m1 dir va = map_segment f ?ph (pd_entry (mem m) dir) va" using m1(4) al by blast
    ultimately show ?thesis using fold_map_segment_cong [of "pd_entry m1 dir" va] by simp
  qed
  then show ?case
    using m2 tables_only_trans [OF m1(3) m2(3)] unfolding step by (intro exI [of _ m2]) simp
qed

section \<open>The address space\<close>

text \<open>The page table entries of a program: the segments in their order, then the stack of four blocks.\<close>

definition address_space :: "Elf_file \<Rightarrow> Elf32_phdr list \<Rightarrow> nat \<Rightarrow> (u32 \<Rightarrow> u32) \<Rightarrow> (u32 \<Rightarrow> u32)" where
  "address_space f ps s e = map_pages (fold (map_segment f) ps e) 0x3FB000 (block_addr s) 4 7"

lemma address_space_cong: "e va = e' va \<Longrightarrow> address_space f ps s e va = address_space f ps s e' va"
  using fold_map_segment_cong [of e va e' f ps] by (simp add: address_space_def map_pages_def)

text \<open>A process with the image of a file of \<open>n\<close> bytes, a task with its directory, and a stack.\<close>

definition loaded_process ::
  "('p, 'a) task_state_scheme \<Rightarrow> u32 \<Rightarrow> Process \<Rightarrow> Elf_file \<Rightarrow> Task \<Rightarrow> u32 \<Rightarrow> nat \<Rightarrow> nat \<Rightarrow> bool" where
  "loaded_process m process p f t dir n s \<longleftrightarrow> deref (procs m) process = Inr p \<and> filetype p = PROCESS_FILETYPE_ELF \<and>
     image p = ElfImage f \<and> deref (tasks m) (proc_task p) = Inr t \<and> pd_root (mem m) (page_directory t) dir \<and>
     dir_open (mem m) dir \<and> headers_inside (mem m) (elf_mem f) n \<and> image_apart (mem m) dir (elf_mem f) n \<and>
     off (elf_mem f) = 0 \<and> proc_stack p = block_addr s \<and> s + 4 \<le> kheap_blocks"

lemma stack_end: "s + 4 \<le> kheap_blocks \<Longrightarrow>
    paging_align_address (block_addr s + BIMBLEOS_USER_PROGRAM_STACK_SIZE) = block_addr (s + 4)"
  using align_block_end [of s 16384] by (simp add: blocks_for_def config)

lemma process_map_memory_ok:
  assumes lp: "loaded_process m process p f t dir n s"
    and segs: "\<forall>ph\<in>set (phdrs_at (mem m) (elf_mem f)). seg_ok f ph"
  shows "\<exists>mm. process_map_memory m process = Inr (0, m\<lparr>mem := mm\<rparr>) \<and> pd_root mm (page_directory t) dir \<and>
    tables_only dir (mem m) mm \<and> dir_open mm dir \<and>
    (\<forall>va. pd_entry mm dir va = address_space f (phdrs_at (mem m) (elf_mem f)) s (pd_entry (mem m) dir) (va AND 0xfffff000))"
proof -
  let ?ps = "phdrs_at (mem m) (elf_mem f)" and ?pd = "page_directory t"
  have h: "elf_header f = elf_mem f" by (simp add: elf_header_def)
  have lp': "deref (procs m) process = Inr p" "filetype p = PROCESS_FILETYPE_ELF" "image p = ElfImage f"
    "deref (tasks m) (proc_task p) = Inr t" "pd_root (mem m) ?pd dir" "dir_open (mem m) dir"
    "headers_inside (mem m) (elf_header f) n" "image_apart (mem m) dir (elf_header f) n"
    "proc_stack p = block_addr s" "s + 4 \<le> kheap_blocks"
    using lp unfolding loaded_process_def h by blast+
  from map_elf_loop_ok [OF lp'(5,4,7,8), of 0] segs obtain m1 where
    m1: "map_elf_loop m p f 0 0 = Inr (0, m\<lparr>mem := m1\<rparr>)" "pd_root m1 ?pd dir" "tables_only dir (mem m) m1"
      "\<forall>va. paging_is_aligned va \<longrightarrow> pd_entry m1 dir va = fold (map_segment f) ?ps (pd_entry (mem m) dir) va"
    unfolding h by auto
  have s: "s \<le> kheap_blocks" using lp'(10) by simp
  have al: "paging_is_aligned (0x3FB000 :: u32)" "paging_is_aligned (block_addr s)" "paging_is_aligned (block_addr (s + 4))"
    using lp'(10) s by (simp_all add: aligned_iff_off) (simp add: off_def)
  have le: "block_addr s \<le> block_addr (s + 4)" using lp'(10) by (simp add: word_le_nat_alt unat_block_addr)
  have "unat (block_addr (s + 4) - block_addr s) = 4 * 4096" using lp'(10) le by (simp add: unat_sub unat_block_addr)
  then have n4: "pn (block_addr (s + 4) - block_addr s) = 4" by (simp add: pn_def)
  have root1: "pd_root (mem (m\<lparr>mem := m1\<rparr>)) ?pd dir" using m1(2) by simp
  from paging_map_to_ok [OF root1 al le, of 7, unfolded n4] obtain m2 where
    m2: "paging_map_to (m\<lparr>mem := m1\<rparr>) ?pd 0x3FB000 (block_addr s) (block_addr (s + 4)) 7 = Inr (0, m\<lparr>mem := m2\<rparr>)"
      "pd_root m2 ?pd dir" "tables_only dir m1 m2"
      "\<forall>va. paging_is_aligned va \<longrightarrow> pd_entry m2 dir va = map_pages (pd_entry m1 dir) 0x3FB000 (block_addr s) 4 7 va"
    by auto
  have run: "process_map_memory m process = Inr (0, m\<lparr>mem := m2\<rparr>)"
    using lp'(1-4) m1(1) m2(1) stack_end [OF lp'(10)]
    by (simp add: process_map_memory_def process_map_elf_def image_elf_def task_directory_of_def user_pages lp'(9))
      (simp add: config)
  have t: "tables_only dir (mem m) m2" using tables_only_trans [OF m1(3) m2(3)] .
  have ok: "pd_ok (mem m) dir" using lp'(5) by (simp add: pd_root_def)
  have "pd_entry m2 dir va = address_space f ?ps s (pd_entry (mem m) dir) (va AND 0xfffff000)" for va
  proof -
    have al: "paging_is_aligned (va AND 0xfffff000)" by simp
    have "pd_entry m2 dir (va AND 0xfffff000) = map_pages (pd_entry m1 dir) 0x3FB000 (block_addr s) 4 7 (va AND 0xfffff000)"
      using m2(4) al by blast
    moreover have "pd_entry m1 dir (va AND 0xfffff000) = fold (map_segment f) ?ps (pd_entry (mem m) dir) (va AND 0xfffff000)"
      using m1(4) al by blast
    ultimately show ?thesis unfolding address_space_def pd_entry_mask [of m2] by (simp add: map_pages_def)
  qed
  then show ?thesis using run m2(2) t dir_open_kept [OF ok t lp'(6)] by (intro exI [of _ m2]) blast
qed

text \<open>A segment inside memory whose place in the file agrees with its address modulo the size of a page.\<close>

definition seg_fits :: "Elf_file \<Rightarrow> Elf32_phdr \<Rightarrow> bool" where
  "seg_fits f ph \<longleftrightarrow> unat (elf_mem f) + unat (p_offset ph) + unat (p_memsz ph) \<le> 2 ^ 32 - 4096 \<and>
     unat (p_vaddr ph) + unat (p_memsz ph) \<le> 2 ^ 32 \<and> off (p_offset ph) = off (p_vaddr ph)"

definition in_segment :: "Elf_file \<Rightarrow> Elf32_phdr \<Rightarrow> u32 \<Rightarrow> bool" where
  "in_segment f ph va \<longleftrightarrow> pn ((va AND 0xfffff000) - seg_start ph) < seg_pages f ph"

definition in_stack :: "u32 \<Rightarrow> bool" where
  "in_stack va \<longleftrightarrow> pn ((va AND 0xfffff000) - 0x3FB000) < 4"

lemma off_phys:
  assumes "off (elf_mem f) = 0" shows "off (elf_phdr_phys_address f ph) = off (p_offset ph)"
proof -
  have "elf_phdr_phys_address f ph = (elf_mem f + (p_offset ph AND 0xfffff000)) + of_nat (off (p_offset ph))"
    using page_split [of "p_offset ph"] by (simp add: elf_phdr_phys_address_def elf_memory_def add.assoc)
  moreover have "off (elf_mem f + (p_offset ph AND 0xfffff000)) = 0"
    using assms aligned_add [of "elf_mem f" "p_offset ph AND 0xfffff000"] by (simp add: aligned_iff_off)
  ultimately show ?thesis by (simp add: off_add_page off_def [of "p_offset ph"])
qed

lemma fits_seg:
  assumes fits: "seg_fits f ph" and al: "off (elf_mem f) = 0"
  shows "seg_ok f ph" and "seg_pages f ph = (off (p_vaddr ph) + unat (p_memsz ph) + 4095) div 4096"
proof -
  let ?P = "elf_phdr_phys_address f ph" and ?M = "unat (p_memsz ph)" and ?o = "off (p_vaddr ph)"
  let ?p = "unat (elf_mem f) + unat (p_offset ph)"
  have P: "unat ?P = ?p" using fits unat_add_lt [of "elf_mem f" "p_offset ph"]
    by (simp add: seg_fits_def elf_phdr_phys_address_def elf_memory_def)
  have o: "?p mod 4096 = ?o" using off_phys [OF al, of ph] fits P by (simp add: seg_fits_def off_def)
  have PM: "unat (?P + p_memsz ph) = ?p + ?M" using fits P unat_add_lt [of ?P "p_memsz ph"] by (simp add: seg_fits_def)
  then have e: "unat (seg_end f ph) = (?p + ?M + 4095) div 4096 * 4096"
    using fits paging_align_address_bounds [of "?P + p_memsz ph"] by (simp add: seg_end_def seg_fits_def)
  have s: "unat (seg_phys f ph) = ?p div 4096 * 4096" by (simp add: seg_phys_def lower_page mask_page pn_def P)
  have "?p div 4096 \<le> (?p + ?M + 4095) div 4096" by (intro div_le_mono) simp
  then show ok: "seg_ok f ph" unfolding seg_ok_def word_le_nat_alt e s by simp
  have "unat (seg_end f ph - seg_phys f ph) = ((?p + ?M + 4095) div 4096 - ?p div 4096) * 4096"
    using ok unfolding seg_ok_def by (simp only: unat_sub e s diff_mult_distrib)
  then have "seg_pages f ph = (?p + ?M + 4095) div 4096 - ?p div 4096" by (simp add: seg_pages_def pn_def)
  moreover have "?p + ?M + 4095 = (?o + ?M + 4095) + ?p div 4096 * 4096" using o div_mult_mod_eq [of ?p 4096] by linarith
  then have "(?p + ?M + 4095) div 4096 = (?o + ?M + 4095) div 4096 + ?p div 4096" by simp
  ultimately show "seg_pages f ph = (?o + ?M + 4095) div 4096" by simp
qed

lemma fits_pages:
  assumes fits: "seg_fits f ph" and al: "off (elf_mem f) = 0" and i: "i < unat (p_memsz ph)"
  shows "seg_ok f ph" and "in_segment f ph (p_vaddr ph + of_nat i)"
proof -
  let ?M = "unat (p_memsz ph)" and ?V = "p_vaddr ph" and ?o = "off (p_vaddr ph)"
  show "seg_ok f ph" by (rule fits_seg(1) [OF fits al])
  note n = fits_seg(2) [OF fits al]
  have V: "unat (?V + of_nat i) = unat ?V + i"
    using fits i unat_add_lt [of ?V "of_nat i"] by (simp add: seg_fits_def)
  let ?d = "((?V + of_nat i) AND 0xfffff000) - seg_start ph"
  have "seg_start ph \<le> (?V + of_nat i) AND 0xfffff000"
    by (simp add: word_le_nat_alt seg_start_def lower_page mask_page pn_def V div_le_mono)
  then have "unat ?d = (unat ?V + i) div 4096 * 4096 - unat ?V div 4096 * 4096"
    by (simp only: unat_sub mask_page pn_def V) (simp add: seg_start_def lower_page mask_page pn_def)
  then have "pn ?d = (unat ?V + i) div 4096 - unat ?V div 4096" by (simp add: pn_def [of ?d] diff_mult_distrib [symmetric])
  also have "\<dots> = (?o + i) div 4096"
  proof -
    have "unat ?V + i = (?o + i) + unat ?V div 4096 * 4096" unfolding off_def using div_mult_mod_eq [of "unat ?V" 4096] by linarith
    then show ?thesis by simp
  qed
  also have "(?o + i) div 4096 < (?o + i + 4096) div 4096" by simp
  also have "\<dots> \<le> (?o + ?M + 4095) div 4096" using i by (intro div_le_mono) simp
  finally show "in_segment f ph (?V + of_nat i)" unfolding in_segment_def n .
qed

text \<open>The addresses on the pages of a segment.\<close>

definition seg_covers :: "Elf32_phdr \<Rightarrow> u32 \<Rightarrow> bool" where
  "seg_covers ph va \<longleftrightarrow> pn (p_vaddr ph) \<le> pn va \<and> pn va * 4096 < unat (p_vaddr ph) + unat (p_memsz ph)"

lemma in_segment_covers:
  assumes fits: "seg_fits f ph" and al: "off (elf_mem f) = 0" and i: "in_segment f ph va"
  shows "seg_covers ph va"
proof -
  let ?M = "unat (p_memsz ph)" and ?V = "p_vaddr ph" and ?o = "off (p_vaddr ph)"
  have V: "unat ?V = pn ?V * 4096 + ?o" by (simp add: pn_def off_def)
  have top: "unat ?V + ?M \<le> 2 ^ 32" using fits by (simp add: seg_fits_def)
  let ?a = "va AND 0xfffff000" and ?b = "seg_start ph"
  have u: "unat ?a = pn va * 4096" "unat ?b = pn ?V * 4096" by (simp_all add: seg_start_def lower_page mask_page)
  have n: "pn (?a - ?b) < (?o + ?M + 4095) div 4096" using i by (simp add: in_segment_def fits_seg(2) [OF fits al])
  show ?thesis
  proof (cases "pn ?V \<le> pn va")
    case True
    then have "?b \<le> ?a" by (simp add: word_le_nat_alt u)
    then have "unat (?a - ?b) = (pn va - pn ?V) * 4096" by (simp add: unat_sub u diff_mult_distrib)
    then have "pn va - pn ?V < (?o + ?M + 4095) div 4096" using n by (simp add: pn_def [of "?a - ?b"])
    then have "(pn va - pn ?V) * 4096 < ?o + ?M" by linarith
    then show ?thesis using True V by (simp add: seg_covers_def)
  next
    case False
    then have "\<not> ?b \<le> ?a" by (simp add: word_le_nat_alt u)
    then have "unat (?a - ?b) = 2 ^ 32 - (pn ?V * 4096 - pn va * 4096)"
      using False by (simp add: unat_sub_if_size word_size u word_le_nat_alt)
    also have "\<dots> = (2 ^ 20 - (pn ?V - pn va)) * 4096" by (simp add: diff_mult_distrib)
    finally have "pn (?a - ?b) = 2 ^ 20 - (pn ?V - pn va)" by (simp add: pn_def [of "?a - ?b"])
    then have "2 ^ 20 - (pn ?V - pn va) < (?o + ?M + 4095) div 4096" using n by simp
    then have "(2 ^ 20 - (pn ?V - pn va)) * 4096 < ?o + ?M" by linarith
    then show ?thesis using V top False by simp
  qed
qed

text \<open>The last segment that covers an address decides.\<close>

lemma fold_not_in: "\<forall>q\<in>set vs. \<not> in_segment f q va \<Longrightarrow> fold (map_segment f) vs e (va AND 0xfffff000) = e (va AND 0xfffff000)"
proof (induction vs arbitrary: e)
  case (Cons q vs)
  then have "map_segment f q e (va AND 0xfffff000) = e (va AND 0xfffff000)"
    by (simp add: map_segment_def map_pages_def in_segment_def)
  then show ?case using Cons by simp
qed simp

lemma fold_in_segment:
  assumes "in_segment f ph va" and "\<forall>q\<in>set vs. \<not> in_segment f q va"
  shows "fold (map_segment f) (us @ ph # vs) e (va AND 0xfffff000) =
    (seg_phys f ph + ((va AND 0xfffff000) - seg_start ph)) OR seg_flags ph"
  using fold_not_in [OF assms(2)] assms(1) by (simp add: map_segment_def map_pages_def in_segment_def)

lemma seg_flags_low: "unat (seg_flags ph) < 4096" "seg_flags ph AND PAGING_IS_PRESENT \<noteq> 0"
  by (simp_all add: seg_flags_def paging_consts)

text \<open>An entry that maps a page with flags, seen by the processor.\<close>

lemma vtranslate_mapped:
  assumes on: "paging_enabled m" "cr3 m = dir" and dir: "dir_present (mem m) dir"
    and pte: "pd_entry (mem m) dir va = (phys + ((va AND 0xfffff000) - virt)) OR flags"
    and al: "off phys = 0" "off virt = 0" and fl: "unat flags < 4096" "flags AND PAGING_IS_PRESENT \<noteq> 0"
  shows "vtranslate m va = Inr (phys + (va - virt))"
proof -
  have "off (phys + ((va AND 0xfffff000) - virt)) = 0"
    using al by (simp add: aligned_iff_off [symmetric] aligned_add aligned_diff)
  then have m: "pd_entry (mem m) dir va AND 0xfffff000 = phys + ((va AND 0xfffff000) - virt)"
    unfolding pte using fl(1) by (rule mask_or_low)
  have "pd_entry (mem m) dir va AND PAGING_IS_PRESENT \<noteq> 0"
    unfolding pte using fl(2) by (simp add: bit.conj_disj_distrib2 or_eq_0_iff)
  from vtranslate_entry [OF on dir this] have "vtranslate m va = Inr (phys + ((va AND 0xfffff000) - virt) + of_nat (off va))"
    unfolding m .
  also have "phys + ((va AND 0xfffff000) - virt) + of_nat (off va) = phys + (va - virt)"
    using page_split [of va] by (simp add: algebra_simps)
  finally show ?thesis .
qed

lemma stack_pages:
  assumes "j < 16384" shows "in_stack (0x3FB000 + of_nat j)"
proof -
  have u: "unat (0x3FB000 + of_nat j :: u32) = 4173824 + j"
    using unat_add_lt [of "0x3FB000" "of_nat j"] assms by simp
  have "unat ((0x3FB000 + of_nat j :: u32) AND 0xfffff000) = (4173824 + j) div 4096 * 4096"
    by (simp only: mask_page pn_def u)
  moreover from this have "0x3FB000 \<le> (0x3FB000 + of_nat j :: u32) AND 0xfffff000" by (simp add: word_le_nat_alt)
  ultimately have "unat (((0x3FB000 + of_nat j :: u32) AND 0xfffff000) - 0x3FB000) = (4173824 + j) div 4096 * 4096 - 4173824"
    by (simp add: unat_sub)
  also have "4173824 + j = j + 1019 * 4096" by simp
  also have "(j + 1019 * 4096) div 4096 * 4096 - 4173824 = j div 4096 * 4096" by (simp only: div_mult_self1) simp
  finally show ?thesis using assms by (simp add: in_stack_def pn_def)
qed

lemma program_mapped:
  assumes lp: "loaded_process m process p f t dir n s" and on: "paging_enabled m"
    and segs: "\<forall>ph\<in>set (phdrs_at (mem m) (elf_mem f)). seg_ok f ph"
  shows "\<exists>mm. process_map_memory m process = Inr (0, m\<lparr>mem := mm\<rparr>) \<and> pd_root mm (page_directory t) dir \<and>
    tables_only dir (mem m) mm \<and> dir_open mm dir \<and>
    (\<forall>va. pd_entry mm dir va = address_space f (phdrs_at (mem m) (elf_mem f)) s (pd_entry (mem m) dir) (va AND 0xfffff000)) \<and>
    (\<forall>us ph vs i. phdrs_at (mem m) (elf_mem f) = us @ ph # vs \<longrightarrow> seg_fits f ph \<longrightarrow> i < unat (p_memsz ph) \<longrightarrow>
       (\<forall>q\<in>set vs. \<not> in_segment f q (p_vaddr ph + of_nat i)) \<longrightarrow> \<not> in_stack (p_vaddr ph + of_nat i) \<longrightarrow>
       vtranslate (switched (m\<lparr>mem := mm\<rparr>) a dir) (p_vaddr ph + of_nat i) = Inr (elf_mem f + p_offset ph + of_nat i)) \<and>
    (\<forall>j<16384. vtranslate (switched (m\<lparr>mem := mm\<rparr>) a dir) (0x3FB000 + of_nat j) = Inr (block_addr s + of_nat j))"
proof -
  let ?ps = "phdrs_at (mem m) (elf_mem f)"
  from process_map_memory_ok [OF lp segs] obtain mm where
    mm: "process_map_memory m process = Inr (0, m\<lparr>mem := mm\<rparr>)" "pd_root mm (page_directory t) dir"
      "tables_only dir (mem m) mm" "dir_open mm dir"
    and e: "\<And>va. pd_entry mm dir va = address_space f ?ps s (pd_entry (mem m) dir) (va AND 0xfffff000)" by blast
  let ?m = "switched (m\<lparr>mem := mm\<rparr>) a dir"
  have m': "paging_enabled ?m" "cr3 ?m = dir" "dir_present (mem ?m) dir"
    using on dir_open_present [OF mm(4)] by (simp_all add: switched_def paging_load_directory_def)
  have em: "off (elf_mem f) = 0" and s: "s \<le> kheap_blocks" using lp by (simp_all add: loaded_process_def)
  have seg: "vtranslate ?m (p_vaddr ph + of_nat i) = Inr (elf_mem f + p_offset ph + of_nat i)"
    if ps: "?ps = us @ ph # vs" and fits: "seg_fits f ph" and i: "i < unat (p_memsz ph)"
      and alone: "\<forall>q\<in>set vs. \<not> in_segment f q (p_vaddr ph + of_nat i)" "\<not> in_stack (p_vaddr ph + of_nat i)" for us ph vs i
  proof -
    let ?va = "p_vaddr ph + of_nat i"
    have "pd_entry (mem ?m) dir ?va = fold (map_segment f) ?ps (pd_entry (mem m) dir) (?va AND 0xfffff000)"
      using alone(2) e [of ?va] by (simp add: address_space_def map_pages_def in_stack_def)
    then have pte: "pd_entry (mem ?m) dir ?va = (seg_phys f ph + ((?va AND 0xfffff000) - seg_start ph)) OR seg_flags ph"
      using fold_in_segment [OF fits_pages(2) [OF fits em i] alone(1)] unfolding ps by simp
    have "off (seg_phys f ph) = 0" "off (seg_start ph) = 0" by (simp_all add: seg_phys_def seg_start_def lower_page)
    then have "vtranslate ?m ?va = Inr (seg_phys f ph + (?va - seg_start ph))"
      using vtranslate_mapped [OF m' pte] seg_flags_low by blast
    also have "seg_phys f ph + (?va - seg_start ph) = elf_phdr_phys_address f ph + of_nat i"
    proof -
      have "off (elf_phdr_phys_address f ph) = off (p_vaddr ph)" using off_phys [OF em, of ph] fits by (simp add: seg_fits_def)
      then have "seg_phys f ph = elf_phdr_phys_address f ph - of_nat (off (p_vaddr ph))"
        using page_split [of "elf_phdr_phys_address f ph"] unfolding seg_phys_def lower_page by (metis add_diff_cancel_right')
      moreover have "seg_start ph = p_vaddr ph - of_nat (off (p_vaddr ph))"
        using page_split [of "p_vaddr ph"] unfolding seg_start_def lower_page by (metis add_diff_cancel_right')
      ultimately show ?thesis by simp
    qed
    finally show ?thesis by (simp add: elf_phdr_phys_address_def elf_memory_def)
  qed
  have stk: "vtranslate ?m (0x3FB000 + of_nat j) = Inr (block_addr s + of_nat j)" if "j < 16384" for j
  proof -
    let ?va = "0x3FB000 + of_nat j :: u32"
    have pte: "pd_entry (mem ?m) dir ?va = (block_addr s + ((?va AND 0xfffff000) - 0x3FB000)) OR 7"
      using stack_pages [OF that] e [of ?va] by (simp add: address_space_def map_pages_def in_stack_def)
    have al: "off (block_addr s) = 0" "off (0x3FB000 :: u32) = 0" using s by simp_all (simp add: off_def)
    have fl: "unat (7 :: u32) < 4096" "(7 :: u32) AND PAGING_IS_PRESENT \<noteq> 0" by (simp_all add: paging_consts)
    from vtranslate_mapped [OF m' pte al fl] show ?thesis by simp
  qed
  show ?thesis using mm e seg stk by (intro exI [of _ mm]) blast
qed

section \<open>A program of one segment\<close>

text \<open>
  A file of 4112 bytes at address 0: one writable segment of 16 bytes at offset 0x1000, two pages long in memory, for the
  address 0x400000; its byte 5 is 42.
\<close>

definition demo_program :: "u32 \<Rightarrow> u8" where
  "demo_program a = (if a = 28 then 52 else if a = 44 then 1 else if a = 52 then 1 else if a = 57 then 0x10
     else if a = 62 then 0x40 else if a = 68 then 0x10 else if a = 73 then 0x20 else if a = 76 then 6
     else if a = 0x1005 then 42 else 0)"

definition demo_phdr :: Elf32_phdr where
  "demo_phdr = \<lparr>p_type = 1, p_offset = 0x1000, p_vaddr = 0x400000, p_paddr = 0, p_filesz = 0x10, p_memsz = 0x2000,
     p_flags = 6, p_align = 0\<rparr>"

lemma demo_program_headers: "phdrs_at demo_program 0 = [demo_phdr]"
  by code_simp

lemma demo_program_inside: "headers_inside demo_program 0 4112"
  by code_simp

lemma demo_program_fits:
  "elf_mem f = 0 \<Longrightarrow> seg_fits f demo_phdr" "elf_mem f = 0 \<Longrightarrow> seg_ok f demo_phdr" "\<not> in_stack (0x400000 + of_nat 5)"
proof -
  show "\<not> in_stack (0x400000 + of_nat 5)" by (simp add: in_stack_def pn_def)
  assume z: "elf_mem f = 0"
  then show fits: "seg_fits f demo_phdr" by (simp add: seg_fits_def demo_phdr_def off_def)
  have "off (elf_mem f) = 0" by (simp add: z off_def)
  from fits_pages(1) [OF fits this, of 0] show "seg_ok f demo_phdr" by (simp add: demo_phdr_def)
qed

definition demo_image :: Elf_file where
  "demo_image = \<lparr>elf_addr = 0x6000, elf_filename = [], in_memory_size = 4112, elf_mem = 0,
     virtual_base_address = 0x400000, virtual_end_address = 0x402000, physical_base_address = 0x1000,
     physical_end_address = 0x3000\<rparr>"

lemma linear_dir_present:
  assumes lin: "linear_pd mm p d ts flags" and fl: "ucast flags AND PAGING_IS_PRESENT \<noteq> 0"
  shows "dir_present mm (block_addr d)"
proof -
  have "load32 mm (block_addr d + of_nat (4 * i)) = block_addr (ts ! i) OR (ucast flags OR PAGING_IS_WRITEABLE)" if "i < 1024" for i
    using lin that by (simp add: linear_pd_def linear_tables_def)
  then show ?thesis using fl unfolding dir_present_def by (auto simp: bit.conj_disj_distrib2 or_eq_0_iff)
qed

lemma linear_dir_open:
  assumes lin: "linear_pd mm p d ts 5"
  shows "dir_open mm (block_addr d)"
  unfolding dir_open_def
proof (intro allI impI)
  fix i :: nat assume i: "i < 1024"
  then have "load32 mm (block_addr d + of_nat (4 * i)) = block_addr (ts ! i) OR 7"
    using lin by (simp add: linear_pd_def linear_tables_def PAGING_IS_WRITEABLE_def)
  moreover have "(w OR 7) AND 7 = 7" for w :: u32 by (rule bit_word_eqI) (auto simp: bit_simps)
  ultimately show "load32 mm (block_addr d + of_nat (4 * i)) AND 7 = 7" by simp
qed

lemma demo_loaded_process:
  "\<exists>(m :: 'p task_state) p t dir. loaded_process m 0x5000 p demo_image t dir 4112 0 \<and> paging_enabled m \<and> mem m 0x1005 = 42 \<and>
     phdrs_at (mem m) 0 = [demo_phdr]"
proof -
  obtain m0 :: "'p task_state" where m0: "scheduler_inv m0 Map.empty []" "deref (procs m0) 0x5000 = Inr demo_process"
    using demo_scheduler by blast
  let ?m0 = "m0\<lparr>mem := demo_program, paging_enabled := True\<rparr>"
  have "machine_inv ?m0 Map.empty" using m0(1) machine_inv_kernel_heap [of ?m0 m0] by (simp add: scheduler_inv_def tasks_own_def)
  then have inv: "scheduler_inv ?m0 Map.empty []"
    using m0(1) by (simp add: scheduler_inv_def tasks_own_def task_queue_def run_queue_def pages_own_def)
  have r: "card (kh.used Map.empty) + 1027 \<le> kheap_blocks" by (simp add: kheap_blocks_def)
  have p0: "deref (procs ?m0) 0x5000 = Inr demo_process" using m0(2) by simp
  from task_new_inv [OF inv r p0 demo_startable] obtain a pages ip d tts q and m1 :: "'p task_state" where
    m1: "m1 = appended (?m0\<lparr>kernel_heap := kernel_heap m1, mem := mem m1\<rparr>) [] a (new_task 0x5000 (block_addr q) ip 0)"
      "scheduler_inv m1 (add_pages Map.empty pages) [(a, pages)]" "linear_pd (mem m1) q d tts 5"
      "\<forall>b. (\<forall>x\<in>set pages. pn b \<noteq> 4096 + x) \<longrightarrow> mem m1 b = demo_program b"
    by auto
  let ?p = "demo_process\<lparr>filetype := PROCESS_FILETYPE_ELF, image := ElfImage demo_image, proc_task := a, proc_stack := block_addr 0\<rparr>"
  let ?t = "new_task 0x5000 (block_addr q) ip 0" and ?m = "set_proc m1 0x5000 ?p"
  have "a \<noteq> 0" using m1(2) by (auto simp: scheduler_inv_def task_queue_def run_queue_def)
  moreover have "tasks m1 a = Some ?t" by (subst m1(1)) (simp add: appended_def new_task_def)
  ultimately have t: "deref (tasks ?m) a = Inr ?t" by (simp add: deref_def)
  have low: "mem m1 b = demo_program b" if "pn b < 4096" for b using m1(4) that by auto
  have "pn (of_nat j) < 4096" if "j < 4112" for j :: nat using that by (simp add: pn_def)
  then have same: "same_bytes 0 4112 demo_program (mem m1)" using low by (simp add: same_bytes_def)
  have root: "pd_root (mem m1) (block_addr q) (block_addr d)" by (rule linear_pd_root [OF m1(3)])
  have tab: "4096 \<le> pn (table_of (mem m1) (block_addr d) i)" if "i < 1024" for i
    using m1(3) that linear_table_of [OF m1(3) that] by (simp add: linear_pd_def less_imp_le)
  have "image_apart (mem m1) (block_addr d) 0 4112"
    using tab \<open>\<And>j. j < 4112 \<Longrightarrow> pn (of_nat j) < 4096\<close> by (fastforce simp: image_apart_def)
  moreover have "headers_inside (mem m1) 0 4112"
    using demo_program_inside header_same [OF same] by (simp add: headers_inside_def)
  moreover have "dir_open (mem m1) (block_addr d)" by (rule linear_dir_open [OF m1(3)])
  ultimately have "loaded_process ?m 0x5000 ?p demo_image ?t (block_addr d) 4112 0"
    using t root by (simp add: loaded_process_def deref_def demo_image_def new_task_def kheap_blocks_def off_def)
  moreover have "paging_enabled ?m" by (subst m1(1)) (simp add: appended_def)
  moreover have "mem ?m 0x1005 = 42" using low [of "0x1005"] by (simp add: pn_def demo_program_def)
  moreover have "phdrs_at (mem ?m) 0 = [demo_phdr]"
    using phdrs_same [OF same demo_program_inside] by (simp add: demo_program_headers)
  ultimately show ?thesis by blast
qed

section \<open>Properties\<close>

text \<open>
  C11: what a program sees of itself. When the image of a file is in memory and the task has its directory,
  \<^verbatim>\<open>process_map_memory\<close> succeeds, and under the directory of the task the processor reads at \<open>p_vaddr + i\<close> the byte at
  \<open>p_offset + i\<close> of the file, for every segment whose place in the file agrees with its address and every address that no
  later segment and not the stack covers; the 16 KB below 0x3FF000 are the block of the stack. Addresses behind
  the end of the file, up to \<open>p_memsz\<close>, lead to whatever memory follows the file.
\<close>

theorem program_in_place:
  assumes lp: "loaded_process m process p f t dir n s" and on: "paging_enabled m"
    and segs: "\<forall>ph\<in>set (phdrs_at (mem m) (elf_mem f)). seg_ok f ph"
    and ps: "phdrs_at (mem m) (elf_mem f) = us @ ph # vs" and fits: "seg_fits f ph" and i: "i < unat (p_memsz ph)"
    and alone: "\<forall>q\<in>set vs. \<not> in_segment f q (p_vaddr ph + of_nat i)" "\<not> in_stack (p_vaddr ph + of_nat i)"
  shows "\<exists>m'. process_map_memory m process = Inr (0, m') \<and>
    vtranslate (switched m' a dir) (p_vaddr ph + of_nat i) = Inr (elf_mem f + p_offset ph + of_nat i) \<and>
    (unat (p_offset ph) + i < n \<longrightarrow>
       vload (switched m' a dir) (p_vaddr ph + of_nat i) = Inr (mem m (elf_mem f + p_offset ph + of_nat i))) \<and>
    (\<forall>j<16384. vtranslate (switched m' a dir) (0x3FB000 + of_nat j) = Inr (block_addr s + of_nat j))"
proof -
  from program_mapped [OF lp on segs, where a = a] ps fits i alone obtain mm where
    mm: "process_map_memory m process = Inr (0, m\<lparr>mem := mm\<rparr>)" "tables_only dir (mem m) mm"
      "vtranslate (switched (m\<lparr>mem := mm\<rparr>) a dir) (p_vaddr ph + of_nat i) = Inr (elf_mem f + p_offset ph + of_nat i)"
      "\<forall>j<16384. vtranslate (switched (m\<lparr>mem := mm\<rparr>) a dir) (0x3FB000 + of_nat j) = Inr (block_addr s + of_nat j)" by blast
  have "same_bytes (elf_mem f) n (mem m) mm" using lp mm(2) image_apart_same by (auto simp: loaded_process_def)
  then have "mm (elf_mem f + of_nat (unat (p_offset ph) + i)) = mem m (elf_mem f + of_nat (unat (p_offset ph) + i))"
    if "unat (p_offset ph) + i < n" using that unfolding same_bytes_def by blast
  then have "mm (elf_mem f + p_offset ph + of_nat i) = mem m (elf_mem f + p_offset ph + of_nat i)"
    if "unat (p_offset ph) + i < n" using that by (simp add: add.assoc)
  then show ?thesis using mm by (intro exI [of _ "m\<lparr>mem := mm\<rparr>"]) (simp add: vload_def)
qed

theorem program_in_place_witness:
  "\<exists>(m :: nat task_state) dir m'. process_map_memory m 0x5000 = Inr (0, m') \<and> vload (switched m' 0x7000 dir) 0x400005 = Inr 42"
proof -
  obtain m :: "nat task_state" and p t dir where m: "loaded_process m 0x5000 p demo_image t dir 4112 0" "paging_enabled m"
    "mem m 0x1005 = 42" "phdrs_at (mem m) 0 = [demo_phdr]" using demo_loaded_process by blast
  have z: "elf_mem demo_image = 0" by (simp add: demo_image_def)
  have ps: "phdrs_at (mem m) (elf_mem demo_image) = [] @ demo_phdr # []" using m(4) z by simp
  have segs: "\<forall>ph\<in>set (phdrs_at (mem m) (elf_mem demo_image)). seg_ok demo_image ph"
    using demo_program_fits(2) [OF z] unfolding ps by simp
  have i: "5 < unat (p_memsz demo_phdr)" by (simp add: demo_phdr_def)
  have v: "p_vaddr demo_phdr = 0x400000" "p_offset demo_phdr = 0x1000" by (simp_all add: demo_phdr_def)
  from program_in_place [OF m(1,2) segs ps demo_program_fits(1) [OF z] i, where a = "0x7000"] demo_program_fits(3) show ?thesis
    using m(3) unfolding v z by auto
qed

end
