(* ===== verification/ProcessLoad.thy ===== *)
theory ProcessLoad
  imports ProgramMap
begin

text \<open>
  \<^verbatim>\<open>process_load_for_slot\<close> of \<^verbatim>\<open>task/process.c\<close> from the loaded file on: the stack, the task, the address space and the slot,
  put together. What is allocated on the way leaves the live blocks, and so the tasks there are, alone.
\<close>

section \<open>What allocations leave of the scheduler\<close>

lemma scheduler_inv_frame:
  assumes inv: "scheduler_inv m A tps" and mi: "machine_inv m' A'"
    and same: "tasks m' = tasks m" "task_head m' = task_head m" "task_tail m' = task_tail m" "current_task m' = current_task m"
    and live: "\<And>x. A x = Some 1 \<Longrightarrow> A' x = Some 1"
    and mem: "\<And>b x. A x = Some 1 \<Longrightarrow> pn b = 4096 + x \<Longrightarrow> mem m' b = mem m b"
  shows "scheduler_inv m' A' tps"
proof -
  have own: "tasks_own m A tps" using inv by (simp add: scheduler_inv_def)
  then have pages: "\<forall>x\<in>set (concat (map snd tps)). A x = Some 1" by (simp add: tasks_own_def pages_own_def)
  have "task_footprint m' b pgs" if b: "(b, pgs) \<in> set tps" for b pgs
  proof (rule task_footprint_more [OF own b])
    fix c x assume "x \<in> set pgs" "pn c = 4096 + x"
    moreover from this have "A x = Some 1" using pages b by force
    ultimately show "mem m' c = mem m c" by (intro mem)
  qed (simp add: same)
  moreover have "pages_own A' (map snd tps)" using own live by (simp add: tasks_own_def pages_own_def)
  moreover have "task_queue m' ts = task_queue m ts" for ts unfolding task_queue_def run_queue_def same ..
  then have "task_queue m' (map fst tps)" using inv by (simp add: scheduler_inv_def)
  ultimately show ?thesis using mi by (auto simp: scheduler_inv_def tasks_own_def)
qed

lemma fresh_run_apart:
  assumes fresh: "\<forall>i s' k'. r \<le> i \<and> i < r + k \<longrightarrow> \<not> covers A s' k' i" and live: "A q = Some l" and j: "j < l"
  shows "\<not> (r \<le> q + j \<and> q + j < r + k)"
proof
  assume "r \<le> q + j \<and> q + j < r + k"
  then have "\<not> covers A q l (q + j)" using fresh by blast
  then show False using live j by (simp add: covers_def)
qed

text \<open>The page of a byte of a run of blocks.\<close>

lemma pn_block_byte:
  assumes "q + k \<le> kheap_blocks" and "j < k * 4096"
  shows "pn (block_addr q + of_nat j) = 4096 + (q + j div 4096)"
proof -
  have "unat (of_nat j :: u32) = j" using assms by (simp add: kheap_blocks_def)
  then have "unat (block_addr q + of_nat j) = 16777216 + q * 4096 + j"
    using assms unat_block_addr [of q] unat_add_lt [of "block_addr q" "of_nat j"] by (simp add: kheap_blocks_def)
  then show ?thesis by (simp add: pn_def)
qed

text \<open>What the making of a process leaves alone of the rest of the kernel.\<close>

definition same_kernel :: "('p, 'a) task_state_scheme \<Rightarrow> ('p, 'a) task_state_scheme \<Rightarrow> bool" where
  "same_kernel m m' \<longleftrightarrow> kernelPageDirectory m' = kernelPageDirectory m \<and> task_state.more m' = task_state.more m"

lemma same_kernel_procs [simp]:
  "same_kernel (m\<lparr>procs := ps\<rparr>) m' = same_kernel m m'" "same_kernel m (m'\<lparr>procs := ps\<rparr>) = same_kernel m m'"
  by (simp_all add: same_kernel_def)

section \<open>The stack and the task\<close>

text \<open>The file of a process in memory: \<open>n\<close> bytes in a run of \<open>k\<close> blocks.\<close>

definition image_loaded ::
  "('p, 'a) task_state_scheme \<Rightarrow> live \<Rightarrow> u32 \<Rightarrow> Process \<Rightarrow> Elf_file \<Rightarrow> nat \<Rightarrow> bool" where
  "image_loaded m A pp p f n \<longleftrightarrow> deref (procs m) pp = Inr p \<and> filetype p = PROCESS_FILETYPE_ELF \<and> image p = ElfImage f \<and>
     length (proc_filename p) = 108 \<and> (\<exists>q k. elf_mem f = block_addr q \<and> A q = Some k \<and> n \<le> k * 4096) \<and>
     headers_inside (mem m) (elf_mem f) n \<and> (\<forall>ph\<in>set (phdrs_at (mem m) (elf_mem f)). seg_ok f ph)"

text \<open>The bytes of a loaded image lie in blocks that are in use, and no page of the new task is one of them.\<close>

lemma image_byte:
  assumes mi: "machine_inv m A" and q: "A q = Some k" "n \<le> k * 4096" and j: "j < n"
  shows "pn (block_addr q + of_nat j) = 4096 + (q + j div 4096)" and "j div 4096 < k" and "q + j div 4096 \<in> kh.used A"
proof -
  have qk: "q + k \<le> kheap_blocks" using machine_inv_bounds [OF mi q(1)] by simp
  show b: "pn (block_addr q + of_nat j) = 4096 + (q + j div 4096)" and k: "j div 4096 < k"
    using pn_block_byte [OF qk] j q(2) by (simp_all add: less_mult_imp_div_less)
  have "covers A q k (q + j div 4096)" using k q(1) by (simp add: covers_def)
  then show "q + j div 4096 \<in> kh.used A" unfolding kh.used_def by blast
qed

lemma new_task_image_apart:
  assumes inv: "scheduler_inv m (add_pages A pages) (tps @ [(a, pages)])" and t: "tasks m a = Some t"
    and d: "load32 (mem m) (page_directory t) = d" and apart: "\<forall>j<n. \<forall>x\<in>set pages. pn (b + of_nat j) \<noteq> 4096 + x"
  shows "image_apart (mem m) d b n"
  unfolding image_apart_def
proof (intro allI impI)
  fix i j :: nat assume i: "i < 1024" and j: "j < n"
  have "task_footprint m a pages" using inv by (auto simp: scheduler_inv_def tasks_own_def)
  then obtain s p' d' ts where g: "pages = s # p' # d' # ts" "length ts = 1024"
    "map_option page_directory (tasks m a) = Some (block_addr p')" "load32 (mem m) (block_addr p') = block_addr d'"
    "\<forall>i<1024. table_of (mem m) (block_addr d') i = block_addr (ts ! i)" unfolding task_footprint_def by blast
  have x: "ts ! i \<in> set pages" using i g(1,2) by simp
  then have "ts ! i < kheap_blocks"
    using inv live_used [of m "add_pages A pages" "ts ! i" 1] by (simp add: scheduler_inv_def tasks_own_def add_pages_def)
  moreover have "table_of (mem m) d i = block_addr (ts ! i)" using g(3-5) t d i by simp
  ultimately have "pn (table_of (mem m) d i) = 4096 + ts ! i" by (simp add: less_imp_le)
  then show "pn (b + of_nat j) \<noteq> pn (table_of (mem m) d i)" using apart j x by simp
qed

lemma stack_task_ok:
  assumes inv: "scheduler_inv m A tps" and room: "room_for A 4" "card (kh.used A) + 1031 \<le> kheap_blocks"
    and img: "image_loaded m A pp p f n"
  shows "\<exists>r h mm. kzalloc m BIMBLEOS_USER_PROGRAM_STACK_SIZE = Inr (block_addr r, m\<lparr>kernel_heap := h, mem := mm\<rparr>) \<and>
    r + 4 \<le> kheap_blocks \<and> A r = None \<and>
    (\<forall>p1. filetype p1 = filetype p \<longrightarrow> image p1 = image p \<longrightarrow> proc_stack p1 = block_addr r \<longrightarrow>
      (\<exists>a pages m4 t d. task_new (set_proc (m\<lparr>kernel_heap := h, mem := mm\<rparr>) pp p1) pp = Inr (a, m4) \<and> a \<noteq> 0 \<and>
        procs m4 = (procs m)(pp \<mapsto> p1) \<and> processes m4 = processes m \<and> paging_enabled m4 = paging_enabled m \<and>
        scheduler_inv m4 (add_pages (A(r \<mapsto> 4)) pages) (tps @ [(a, pages)]) \<and>
        tasks m4 a = Some t \<and> task_process t = pp \<and>
        registers t = start_registers (e_entry (Elf_header_at (mem m) (elf_mem f))) \<and>
        same_bytes (elf_mem f) n (mem m) (mem m4) \<and>
        (\<forall>x\<in>set pages. x \<notin> kh.used (A(r \<mapsto> 4))) \<and> (\<forall>va. pd_entry (mem m4) d va = (va AND 0xfffff000) OR 5) \<and>
        loaded_process (set_proc m4 pp (p1\<lparr>proc_task := a\<rparr>)) pp (p1\<lparr>proc_task := a\<rparr>) f t d n r \<and> same_kernel m m4))"
proof -
  have mi: "machine_inv m A" using inv by (simp add: scheduler_inv_def tasks_own_def)
  have b4: "blocks_for (unat (BIMBLEOS_USER_PROGRAM_STACK_SIZE :: u32)) = 4" "0 < unat (BIMBLEOS_USER_PROGRAM_STACK_SIZE :: u32)"
    "unat (BIMBLEOS_USER_PROGRAM_STACK_SIZE :: u32) \<le> 2 ^ 32 - 4096" by (simp_all add: blocks_for_def config)
  from kzalloc_in_room [OF mi b4(2,3)] room(1) obtain r h mm where
    z: "kzalloc m BIMBLEOS_USER_PROGRAM_STACK_SIZE = Inr (block_addr r, m\<lparr>kernel_heap := h, mem := mm\<rparr>)"
    and mi3: "machine_inv (m\<lparr>kernel_heap := h, mem := mm\<rparr>) (A(r \<mapsto> 4))" and r: "r + 4 \<le> kheap_blocks"
    and fresh: "\<forall>i s' k'. r \<le> i \<and> i < r + 4 \<longrightarrow> \<not> covers A s' k' i"
    and frame: "\<forall>b. \<not> (4096 + r \<le> pn b \<and> pn b < 4096 + r + 4) \<longrightarrow> mm b = mem m b"
    unfolding b4(1) by blast
  let ?m3 = "m\<lparr>kernel_heap := h, mem := mm\<rparr>" and ?A3 = "A(r \<mapsto> 4)"
  have Ar: "A r = None" using mi fresh kh.fresh_not_live [of "kernel_heap m" A 4 r] by (simp add: machine_inv_def)
  have used3: "kh.used ?A3 = kh.used A \<union> {r..<r + 4}" using kh.used_upd [of A r 4] Ar by simp
  have "card (kh.used ?A3) \<le> card (kh.used A) + 4" unfolding used3 using card_Un_le [of "kh.used A" "{r..<r + 4}"] by simp
  then have room3: "card (kh.used ?A3) + 1027 \<le> kheap_blocks" using room(2) by simp
  obtain q k where q: "elf_mem f = block_addr q" "A q = Some k" "n \<le> k * 4096" using img by (auto simp: image_loaded_def)
  note byte = image_byte [OF mi q(2,3)] and used_q = image_byte(3) [OF mi q(2,3)]
  have apart3: "\<not> (r \<le> q + j div 4096 \<and> q + j div 4096 < r + 4)" if "j < n" for j
    using fresh_run_apart [OF fresh q(2)] byte(2) [OF that] by blast
  have inside: "headers_inside (mem m) (elf_mem f) n" using img by (simp add: image_loaded_def)
  have step: "\<exists>a pages m4 t d. task_new (set_proc ?m3 pp p1) pp = Inr (a, m4) \<and> a \<noteq> 0 \<and>
        procs m4 = (procs m)(pp \<mapsto> p1) \<and> processes m4 = processes m \<and> paging_enabled m4 = paging_enabled m \<and>
        scheduler_inv m4 (add_pages ?A3 pages) (tps @ [(a, pages)]) \<and>
        tasks m4 a = Some t \<and> task_process t = pp \<and>
        registers t = start_registers (e_entry (Elf_header_at (mem m) (elf_mem f))) \<and>
        same_bytes (elf_mem f) n (mem m) (mem m4) \<and>
        (\<forall>x\<in>set pages. x \<notin> kh.used ?A3) \<and> (\<forall>va. pd_entry (mem m4) d va = (va AND 0xfffff000) OR 5) \<and>
        loaded_process (set_proc m4 pp (p1\<lparr>proc_task := a\<rparr>)) pp (p1\<lparr>proc_task := a\<rparr>) f t d n r \<and> same_kernel m m4"
    if p1: "filetype p1 = filetype p" "image p1 = image p" "proc_stack p1 = block_addr r" for p1
  proof -
    let ?m = "set_proc ?m3 pp p1"
    have pp: "pp \<noteq> 0" using img by (auto simp: image_loaded_def deref_def)
    have "machine_inv ?m ?A3" using mi3 machine_inv_kernel_heap [of ?m ?m3] by simp
    moreover have "mem ?m b = mem m b" if x: "A x = Some 1" "pn b = 4096 + x" for b x
    proof -
      have "\<not> (r \<le> x \<and> x < r + 4)" using fresh_run_apart [OF fresh x(1), of 0] by simp
      then have "\<not> (4096 + r \<le> pn b \<and> pn b < 4096 + r + 4)" unfolding x(2) by linarith
      then have "mm b = mem m b" using frame by blast
      then show ?thesis by simp
    qed
    ultimately have inv3: "scheduler_inv ?m ?A3 tps" using Ar by (intro scheduler_inv_frame [OF inv]) auto
    have d1: "deref (procs ?m) pp = Inr p1" using pp by (simp add: deref_def)
    have st: "startable p1" using img p1 by (simp add: startable_def image_loaded_def)
    from task_new_inv [OF inv3 room3 d1 st] obtain a pages m4 ip d tts pq where
      run: "task_new ?m pp = Inr (a, m4)"
      and eq: "m4 = appended (?m\<lparr>kernel_heap := kernel_heap m4, mem := mem m4\<rparr>) (map fst tps) a (new_task pp (block_addr pq) ip 0)"
      and inv4: "scheduler_inv m4 (add_pages ?A3 pages) (tps @ [(a, pages)])"
      and new: "\<forall>x\<in>set pages. x \<notin> kh.used ?A3" and ip: "start_ip (mem m4) p1 = Inr ip"
      and lin: "linear_pd (mem m4) pq d tts 5"
      and frame4: "\<forall>b. (\<forall>x\<in>set pages. pn b \<noteq> 4096 + x) \<longrightarrow> mem m4 b = mm b"
      by auto
    have fields: "procs m4 = (procs m)(pp \<mapsto> p1)" "processes m4 = processes m" "paging_enabled m4 = paging_enabled m" "same_kernel m m4"
      by (subst eq, simp add: appended_def same_kernel_def)+
    let ?t = "(new_task pp (block_addr pq) ip 0)\<lparr>task_prev_ptr := last_of 0 (map fst tps)\<rparr>"
    have t: "tasks m4 a = Some ?t" by (subst eq) (simp add: appended_def)
    have a: "a \<noteq> 0" using inv4 by (auto simp: scheduler_inv_def task_queue_def run_queue_def)
    have not_page: "\<forall>x\<in>set pages. pn (block_addr q + of_nat j) \<noteq> 4096 + x" if "j < n" for j
      using byte(1) [OF that] used_q [OF that] new used3 by auto
    have same: "same_bytes (elf_mem f) n (mem m) (mem m4)"
      unfolding same_bytes_def q(1)
    proof (intro allI impI)
      fix j assume j: "j < n"
      let ?b = "block_addr q + of_nat j"
      have "\<not> (4096 + r \<le> pn ?b \<and> pn ?b < 4096 + r + 4)" using byte(1) [OF j] apart3 [OF j] by linarith
      then have "mm ?b = mem m ?b" using frame by blast
      moreover have "mem m4 ?b = mm ?b" using frame4 not_page [OF j] by blast
      ultimately show "mem m4 ?b = mem m ?b" by simp
    qed
    have n: "52 \<le> n" using inside by (simp add: headers_inside_def)
    note hd = header_same [OF same n]
    have ip': "ip = e_entry (Elf_header_at (mem m) (elf_mem f))"
      using ip p1 img by (simp add: start_ip_def process_entry_def image_loaded_def elf_header_def hd)
    have "load32 (mem m4) (page_directory ?t) = block_addr d" using linear_pd_root [OF lin] by (simp add: pd_root_def new_task_def)
    then have "image_apart (mem m4) (block_addr d) (elf_mem f) n"
      by (rule new_task_image_apart [OF inv4 t]) (use not_page q(1) in simp)
    moreover have "headers_inside (mem m4) (elf_mem f) n" using inside by (simp add: headers_inside_def hd)
    moreover have "pd_root (mem m4) (block_addr pq) (block_addr d)" by (rule linear_pd_root [OF lin])
    moreover have "dir_open (mem m4) (block_addr d)" by (rule linear_dir_open [OF lin])
    moreover have "off (elf_mem f) = 0" using q(1) machine_inv_bounds [OF mi q(2)] by simp
    ultimately have "loaded_process (set_proc m4 pp (p1\<lparr>proc_task := a\<rparr>)) pp (p1\<lparr>proc_task := a\<rparr>) f ?t (block_addr d) n r"
      using pp a t p1 img r by (simp add: loaded_process_def deref_def image_loaded_def new_task_def)
    moreover have "registers ?t = start_registers (e_entry (Elf_header_at (mem m) (elf_mem f)))" "task_process ?t = pp"
      by (simp_all add: new_task_def ip')
    moreover have "\<forall>va. pd_entry (mem m4) (block_addr d) va = (va AND 0xfffff000) OR 5" using linear_pd_entry [OF lin] by simp
    ultimately show ?thesis using run a fields inv4 t same new by blast
  qed
  show ?thesis using z r Ar step by blast
qed

text \<open>Writing the tables of the last task keeps the invariant of the scheduler.\<close>

lemma scheduler_inv_tables:
  assumes inv: "scheduler_inv m A (tps @ [(a, pages)])" and t: "deref (tasks m) a = Inr t"
    and root: "pd_root (mem m) (page_directory t) dir" and tab: "tables_only dir (mem m) mm"
  shows "scheduler_inv (m\<lparr>mem := mm\<rparr>) A (tps @ [(a, pages)])"
proof -
  let ?m = "m\<lparr>mem := mm\<rparr>"
  have own: "tasks_own m A (tps @ [(a, pages)])" and mi: "machine_inv m A"
    using inv by (simp_all add: scheduler_inv_def tasks_own_def)
  have po: "distinct (concat (map snd (tps @ [(a, pages)])))" "\<forall>x\<in>set (concat (map snd (tps @ [(a, pages)]))). A x = Some 1"
    using own by (simp_all add: tasks_own_def pages_own_def)
  have foot: "task_footprint m a pages" using own by (auto simp: tasks_own_def)
  then obtain s p d ts where g: "pages = s # p # d # ts" "a = block_addr s" "length ts = 1024"
    "map_option page_directory (tasks m a) = Some (block_addr p)" "load32 (mem m) (block_addr p) = block_addr d"
    "\<forall>i<1024. table_of (mem m) (block_addr d) i = block_addr (ts ! i)" unfolding task_footprint_def by blast
  have "page_directory t = block_addr p" using g(4) t by (auto simp: deref_def split: if_splits option.splits)
  then have dir: "dir = block_addr d" using root g(5) by (simp add: pd_root_def)
  have bound: "x < kheap_blocks" if "x \<in> set pages" for x using po(2) that live_used [OF mi, of x 1] by auto
  have tpn: "pn (table_of (mem m) dir i) = 4096 + ts ! i \<and> ts ! i \<in> set ts" if "i < 1024" for i
    using g(1,3,6) that bound [of "ts ! i"] unfolding dir by (simp add: less_imp_le)
  have other: "mm c = mem m c" if "pn c = 4096 + x" "x \<notin> set ts" for c x
  proof -
    have "\<forall>i<1024. pn c \<noteq> pn (table_of (mem m) dir i)" using tpn that by auto
    then show ?thesis using tab by (simp add: tables_only_def)
  qed
  have "task_footprint ?m b pgs" if b: "(b, pgs) \<in> set tps" for b pgs
  proof (rule task_footprint_more [OF own])
    show "(b, pgs) \<in> set (tps @ [(a, pages)])" using b by simp
    fix c x assume x: "x \<in> set pgs" "pn c = 4096 + x"
    have "set (concat (map snd tps)) \<inter> set pages = {}" using po(1) by simp
    moreover have "x \<in> set (concat (map snd tps))" using x(1) b by force
    ultimately have "x \<notin> set ts" using g(1) by auto
    with x(2) show "mem ?m c = mem m c" using other by simp
  qed simp
  moreover have "task_footprint ?m a pages"
  proof -
    have p: "p \<notin> set ts" "p < kheap_blocks" using po(1) g(1) bound by auto
    have "load32 mm (block_addr p + of_nat (4 * 0)) = load32 (mem m) (block_addr p + of_nat (4 * 0))"
      by (rule load32_pages [OF p(2)]) (simp_all add: other p(1))
    moreover have "\<forall>i<1024. table_of mm (block_addr d) i = block_addr (ts ! i)"
      using tab g(6) unfolding tables_only_def dir by simp
    ultimately show ?thesis unfolding task_footprint_def using g by auto
  qed
  moreover have "machine_inv ?m A" using mi by (simp add: machine_inv_def)
  moreover have "task_queue ?m ts = task_queue m ts" for ts by (simp add: task_queue_def run_queue_def)
  ultimately show ?thesis using inv own by (auto simp: scheduler_inv_def tasks_own_def)
qed

section \<open>The slot\<close>

lemma vtranslate_processes [simp]: "vtranslate (switched (m\<lparr>processes := t\<rparr>) a d) va = vtranslate (switched m a d) va"
  by (simp add: vtranslate_def switched_def paging_load_directory_def Let_def)

text \<open>
  What a process in a slot is: the scheduler has its task at the end of the queue, about to start at the entry point of the
  file; switching to the task gives the address space of the file and of the stack.
\<close>

definition started ::
  "('p, 'a) task_state_scheme \<Rightarrow> u32 \<Rightarrow> int \<Rightarrow> Elf_file \<Rightarrow> nat \<Rightarrow> nat \<Rightarrow> u32 \<Rightarrow> u32 \<Rightarrow> bool" where
  "started m pp slot f n r a d \<longleftrightarrow> a \<noteq> 0 \<and>
     (\<exists>t. tasks m a = Some t \<and> task_process t = pp \<and> registers t = start_registers (e_entry (Elf_header_at (mem m) (elf_mem f))) \<and>
        pd_root (mem m) (page_directory t) d) \<and>
     (\<exists>p. procs m pp = Some p \<and> proc_task p = a \<and> proc_id p = word_of_int slot \<and> image p = ElfImage f) \<and>
     task_switch m a = Inr (switched m a d) \<and> paging_enabled m \<and> dir_open (mem m) d \<and>
     (\<forall>va. pd_entry (mem m) d va = address_space f (phdrs_at (mem m) (elf_mem f)) r (\<lambda>a. a OR 5) (va AND 0xfffff000)) \<and>
     (\<forall>us ph vs i. phdrs_at (mem m) (elf_mem f) = us @ ph # vs \<longrightarrow> seg_fits f ph \<longrightarrow> i < unat (p_memsz ph) \<longrightarrow>
        (\<forall>q\<in>set vs. \<not> in_segment f q (p_vaddr ph + of_nat i)) \<longrightarrow> \<not> in_stack (p_vaddr ph + of_nat i) \<longrightarrow>
        vtranslate (switched m a d) (p_vaddr ph + of_nat i) = Inr (elf_mem f + p_offset ph + of_nat i)) \<and>
     (\<forall>j<16384. vtranslate (switched m a d) (0x3FB000 + of_nat j) = Inr (block_addr r + of_nat j))"

lemma process_load_for_slot_ok:
  fixes m :: "('p, 'a) task_state_scheme"
  assumes slot: "0 \<le> s" "s < 12" "length (processes m) = 12" "processes m ! nat s = 0"
    and z: "kzalloc m 9364 = Inr (pp, m1)" "pp \<noteq> 0"
    and data: "process_load_data fs (process_init m1 pp) fname pp = Inr (0, m2)" "processes m2 = processes m"
    and inv: "scheduler_inv m2 A tps" and on: "paging_enabled m2"
    and room: "room_for A 4" "card (kh.used A) + 1031 \<le> kheap_blocks"
    and img: "image_loaded m2 A pp p f n" and name: "terminated fname"
  shows "\<exists>r a pages d m'. process_load_for_slot fs m fname process s = Inr (0, pp, m') \<and>
    processes m' = (processes m)[nat s := pp] \<and> scheduler_inv m' (add_pages (A(r \<mapsto> 4)) pages) (tps @ [(a, pages)]) \<and>
    same_bytes (elf_mem f) n (mem m2) (mem m') \<and> started m' pp s f n r a d \<and>
    A r = None \<and> (\<forall>x\<in>set pages. x \<notin> kh.used (A(r \<mapsto> 4))) \<and> (\<exists>p'. procs m' pp = Some p' \<and> allocations p' = allocations p) \<and>
    same_kernel m2 m'"
proof -
  from stack_task_ok [OF inv room img] obtain r h mm where
    k: "kzalloc m2 BIMBLEOS_USER_PROGRAM_STACK_SIZE = Inr (block_addr r, m2\<lparr>kernel_heap := h, mem := mm\<rparr>)" and r: "r + 4 \<le> kheap_blocks" "A r = None"
    and new: "\<And>p1. filetype p1 = filetype p \<Longrightarrow> image p1 = image p \<Longrightarrow> proc_stack p1 = block_addr r \<Longrightarrow>
      \<exists>a pages m4 t d. task_new (set_proc (m2\<lparr>kernel_heap := h, mem := mm\<rparr>) pp p1) pp = Inr (a, m4) \<and> a \<noteq> 0 \<and>
        procs m4 = (procs m2)(pp \<mapsto> p1) \<and> processes m4 = processes m2 \<and> paging_enabled m4 = paging_enabled m2 \<and>
        scheduler_inv m4 (add_pages (A(r \<mapsto> 4)) pages) (tps @ [(a, pages)]) \<and>
        tasks m4 a = Some t \<and> task_process t = pp \<and>
        registers t = start_registers (e_entry (Elf_header_at (mem m2) (elf_mem f))) \<and>
        same_bytes (elf_mem f) n (mem m2) (mem m4) \<and>
        (\<forall>x\<in>set pages. x \<notin> kh.used (A(r \<mapsto> 4))) \<and> (\<forall>va. pd_entry (mem m4) d va = (va AND 0xfffff000) OR 5) \<and>
        loaded_process (set_proc m4 pp (p1\<lparr>proc_task := a\<rparr>)) pp (p1\<lparr>proc_task := a\<rparr>) f t d n r \<and> same_kernel m2 m4"
    by (elim exE conjE) (rule that, assumption+, blast)
  have p: "deref (procs m2) pp = Inr p" "length (proc_filename p) = 108" using img by (simp_all add: image_loaded_def)
  obtain nm where nm: "strncpy (proc_filename p) fname (int BIMBLEOS_MAX_PATH) = Inr nm"
    using strncpy_loop_ok [OF name, of 107 "proc_filename p"] p(2) by (auto simp: strncpy_def config)
  let ?p1 = "p\<lparr>proc_filename := nm, proc_stack := block_addr r, proc_id := word_of_int s\<rparr>"
  have p1: "filetype ?p1 = filetype p" "image ?p1 = image p" "proc_stack ?p1 = block_addr r" by simp_all
  from new [OF p1] obtain a pages m4 t d where
    t: "task_new (set_proc (m2\<lparr>kernel_heap := h, mem := mm\<rparr>) pp ?p1) pp = Inr (a, m4)" "a \<noteq> 0"
      "procs m4 = (procs m2)(pp \<mapsto> ?p1)" "processes m4 = processes m2" "paging_enabled m4 = paging_enabled m2"
      "scheduler_inv m4 (add_pages (A(r \<mapsto> 4)) pages) (tps @ [(a, pages)])" "tasks m4 a = Some t" "task_process t = pp"
      "registers t = start_registers (e_entry (Elf_header_at (mem m2) (elf_mem f)))"
      "same_bytes (elf_mem f) n (mem m2) (mem m4)"
      "\<forall>x\<in>set pages. x \<notin> kh.used (A(r \<mapsto> 4))" "\<forall>va. pd_entry (mem m4) d va = (va AND 0xfffff000) OR 5"
      "loaded_process (set_proc m4 pp (?p1\<lparr>proc_task := a\<rparr>)) pp (?p1\<lparr>proc_task := a\<rparr>) f t d n r" "same_kernel m2 m4"
    by (elim exE conjE) (rule that, assumption+)
  let ?p2 = "?p1\<lparr>proc_task := a\<rparr>" and ?m = "set_proc m4 pp (?p1\<lparr>proc_task := a\<rparr>)"
  have inside: "headers_inside (mem m2) (elf_mem f) n" using img by (simp add: image_loaded_def)
  have n: "52 \<le> n" using inside by (simp add: headers_inside_def)
  have segs: "\<forall>ph\<in>set (phdrs_at (mem ?m) (elf_mem f)). seg_ok f ph"
    using img phdrs_same [OF t(10) inside] by (simp add: image_loaded_def)
  have on4: "paging_enabled ?m" using on t(5) by simp
  from program_mapped [OF t(13) on4 segs, where a = a] obtain m5 where
    map: "process_map_memory ?m pp = Inr (0, ?m\<lparr>mem := m5\<rparr>)" "pd_root m5 (page_directory t) d" "tables_only d (mem ?m) m5"
      "dir_open m5 d"
      "\<forall>va. pd_entry m5 d va = address_space f (phdrs_at (mem ?m) (elf_mem f)) r (pd_entry (mem ?m) d) (va AND 0xfffff000)"
    and see: "\<forall>us ph vs i. phdrs_at (mem ?m) (elf_mem f) = us @ ph # vs \<longrightarrow> seg_fits f ph \<longrightarrow> i < unat (p_memsz ph) \<longrightarrow>
       (\<forall>q\<in>set vs. \<not> in_segment f q (p_vaddr ph + of_nat i)) \<longrightarrow> \<not> in_stack (p_vaddr ph + of_nat i) \<longrightarrow>
       vtranslate (switched (?m\<lparr>mem := m5\<rparr>) a d) (p_vaddr ph + of_nat i) = Inr (elf_mem f + p_offset ph + of_nat i)"
    "\<forall>j<16384. vtranslate (switched (?m\<lparr>mem := m5\<rparr>) a d) (0x3FB000 + of_nat j) = Inr (block_addr r + of_nat j)" by blast
  let ?m5 = "?m\<lparr>mem := m5\<rparr>"
  let ?m' = "?m5\<lparr>processes := (processes m)[nat s := pp]\<rparr>"
  have get: "process_get m s = Inr 0" using slot by (simp add: process_get_def areadi_def aread_def config)
  have "block_addr r \<noteq> 0" using r(1) by (intro block_addr_nonzero) simp
  moreover have "deref (procs m4) pp = Inr ?p1" using t(3) z(2) by (simp add: deref_def)
  moreover have "awritei (processes ?m5) s pp = Inr ((processes m)[nat s := pp])"
    using slot t(4) data(2) by (simp add: awritei_def awrite_def)
  ultimately have run: "process_load_for_slot fs m fname process s = Inr (0, pp, ?m')"
    using z data(1) k p(1) nm t(1,2) map(1) get by (simp add: process_load_for_slot_def)
  have lp: "deref (tasks ?m) a = Inr t" "pd_root (mem m4) (page_directory t) d" "image_apart (mem m4) d (elf_mem f) n"
    using t(13) by (simp_all add: loaded_process_def)
  have "same_bytes (elf_mem f) n (mem m4) m5" using image_apart_same [OF lp(3)] map(3) by simp
  then have same: "same_bytes (elf_mem f) n (mem m2) m5" using t(10) by (simp add: same_bytes_def)
  note hd = header_same [OF same n] and ps = phdrs_same [OF same inside] and ps4 = phdrs_same [OF t(10) inside]
  let ?A = "add_pages (A(r \<mapsto> 4)) pages"
  have i5: "scheduler_inv (m4\<lparr>mem := m5\<rparr>) ?A (tps @ [(a, pages)])"
    using lp(1) map(3) by (intro scheduler_inv_tables [OF t(6) _ lp(2)]) simp_all
  then have "machine_inv ?m' ?A"
    using machine_inv_kernel_heap [of ?m' "m4\<lparr>mem := m5\<rparr>"] by (simp add: scheduler_inv_def tasks_own_def)
  then have inv': "scheduler_inv ?m' ?A (tps @ [(a, pages)])" by (rule scheduler_inv_frame [OF i5]) simp_all
  have "page_directory t \<noteq> 0" using lp(2) by (simp add: pd_root_def)
  moreover have "load32 m5 (page_directory t) = d" using map(2) by (simp add: pd_root_def)
  ultimately have sw: "task_switch ?m' a = Inr (switched ?m' a d)" using task_switch_ok [of ?m' a t] lp(1) by simp
  have "pd_entry m5 d va = address_space f (phdrs_at (mem m2) (elf_mem f)) r (\<lambda>a. a OR 5) (va AND 0xfffff000)" for va
    using map(5) ps4 t(12) by (simp add: address_space_cong [of "pd_entry (mem m4) d" "va AND 0xfffff000" "\<lambda>a. a OR 5"])
  then have "started ?m' pp s f n r a d"
    unfolding started_def using t(2,7-9) sw see img map(2,4) on4 by (simp add: hd ps ps4 image_loaded_def)
  moreover have "procs ?m' pp = Some ?p2" "allocations ?p2 = allocations p" by simp_all
  moreover have "same_kernel m2 ?m'" using t(14) by (simp add: same_kernel_def)
  ultimately show ?thesis using run inv' same t(11) r(2) by (intro exI [of _ r] exI [of _ a] exI [of _ pages] exI [of _ d] exI [of _ ?m']) simp
qed

end
