(* ===== verification/ProgramStart.thy ===== *)
theory ProgramStart
  imports ProcessLoad
begin

text \<open>
  From a file on the disk to a process: \<^verbatim>\<open>process_load_for_slot\<close> of \<^verbatim>\<open>task/process.c\<close> on a file of the root directory, through
  the path parser, the file layer, the FAT16 driver, the ELF loader, the kernel heap, the task list and the page tables.
\<close>

section \<open>The bytes of a program\<close>

definition byte_mem :: "u8 list \<Rightarrow> u32 \<Rightarrow> u8" where
  "byte_mem bs a = (if unat a < length bs then bs ! unat a else 0)"

text \<open>
  A file that the loader accepts, whose program headers lie in the file and whose segments do not wrap round and agree with
  their addresses modulo the size of a page.
\<close>

definition program_file :: "u8 list \<Rightarrow> bool" where
  "program_file bs \<longleftrightarrow> elf_validate_loaded (byte_mem bs) 0 = Inr 0 \<and> headers_inside (byte_mem bs) 0 (length bs) \<and>
     (\<forall>ph\<in>set (phdrs_at (byte_mem bs) 0). unat (p_offset ph) + unat (p_memsz ph) \<le> 2 ^ 31 \<and>
        unat (p_vaddr ph) + unat (p_memsz ph) \<le> 2 ^ 32 \<and> off (p_offset ph) = off (p_vaddr ph))"

text \<open>The headers are read relative to the start of the file.\<close>

lemma headers_at_base:
  "Elf_header_at mm h = Elf_header_at (\<lambda>a. mm (h + a)) 0"
  "e_phoff (Elf_header_at mm h) \<noteq> 0 \<Longrightarrow> phdrs_at mm h = phdrs_at (\<lambda>a. mm (h + a)) 0"
proof -
  have l: "load32 mm (h + k) = load32 (\<lambda>a. mm (h + a)) k" "load16 mm (h + k) = load16 (\<lambda>a. mm (h + a)) k" for k
    by (simp_all add: load32_def load16_def add.assoc)
  have l0: "load32 mm h = load32 (\<lambda>a. mm (h + a)) 0" using l(1) [of 0] by simp
  have b: "mem_bytes mm h 16 = mem_bytes (\<lambda>a. mm (h + a)) 0 16" by (intro nth_equalityI) simp_all
  show hd: "Elf_header_at mm h = Elf_header_at (\<lambda>a. mm (h + a)) 0" unfolding Elf_header_at_def l b by simp
  assume nz: "e_phoff (Elf_header_at mm h) \<noteq> 0"
  have "elf_program_header mm h i = h + elf_program_header (\<lambda>a. mm (h + a)) 0 i" for i
    using nz unfolding elf_program_header_def elf_pheader_def hd by simp
  moreover have "Elf32_phdr_at mm (h + x) = Elf32_phdr_at (\<lambda>a. mm (h + a)) x" for x
    unfolding Elf32_phdr_at_def by (simp add: add.assoc l)
  ultimately show "phdrs_at mm h = phdrs_at (\<lambda>a. mm (h + a)) 0" unfolding phdrs_at_def hd by simp
qed

lemma file_in_mem:
  assumes bs: "mem_bytes mm h (length bs) = bs" and len: "length bs < 2 ^ 32" and prog: "program_file bs"
  shows "Elf_header_at mm h = Elf_header_at (byte_mem bs) 0" "phdrs_at mm h = phdrs_at (byte_mem bs) 0"
    "headers_inside mm h (length bs)" "elf_validate_loaded mm h = Inr 0" "j < length bs \<Longrightarrow> mm (h + of_nat j) = bs ! j"
proof -
  have byte: "mm (h + of_nat j) = bs ! j" if "j < length bs" for j using bs nth_mem_bytes [OF that, of mm h] by simp
  then show "j < length bs \<Longrightarrow> mm (h + of_nat j) = bs ! j" .
  have inside: "headers_inside (byte_mem bs) 0 (length bs)" using prog by (simp add: program_file_def)
  have same: "same_bytes 0 (length bs) (byte_mem bs) (\<lambda>a. mm (h + a))"
    using byte len by (simp add: same_bytes_def byte_mem_def unat_of_nat_u32)
  have n: "52 \<le> length bs" using inside by (simp add: headers_inside_def)
  show hd: "Elf_header_at mm h = Elf_header_at (byte_mem bs) 0" using headers_at_base(1) header_same [OF same n] by metis
  show inside': "headers_inside mm h (length bs)" using inside by (simp add: headers_inside_def hd)
  then have "phdrs_at mm h = phdrs_at (\<lambda>a. mm (h + a)) 0" by (intro headers_at_base(2)) (simp add: headers_inside_def)
  then show "phdrs_at mm h = phdrs_at (byte_mem bs) 0" using phdrs_same [OF same inside] by simp
  have b: "mm (h + k) = byte_mem bs k" if "unat k < 52" for k :: u32
    using byte [of "unat k"] that n by (simp add: byte_mem_def)
  have "load32 mm (h + 28) = load32 (byte_mem bs) 28" using hd by (simp add: Elf_header_at_def)
  then show "elf_validate_loaded mm h = Inr 0"
    using prog b [of 0] b [of 1] b [of 2] b [of 3] b [of 4] b [of 5]
    by (simp add: program_file_def elf_validate_loaded_spec)
qed

section \<open>The file on the disk\<close>

text \<open>
  The driver finds the bytes \<open>bs\<close> for the file \<open>k\<close> of the root directory, in the clusters \<open>cs\<close> its lookups lead to. They are the
  file's own where the lookups are right (\<open>file_on_disk_path\<close>), in particular for every file of one cluster.
\<close>

definition file_on_disk :: "disk_img \<Rightarrow> 'a fat_state_scheme \<Rightarrow> nat \<Rightarrow> int list \<Rightarrow> u8 list \<Rightarrow> bool" where
  "file_on_disk img m k cs bs \<longleftrightarrow> driver_chain img (header (fat_private m)) cs \<and> cs \<noteq> [] \<and>
     (\<forall>c\<in>set cs. cluster_ok (fat_private m) c) \<and> length cs * cluster_bytes (fat_private m) < 2 ^ 31 \<and>
     sint (fat16_get_first_cluster (root_entry m k)) = hd cs \<and> length bs = unat (filesize (root_entry m k)) \<and> 0 < length bs \<and>
     length bs \<le> length cs * cluster_bytes (fat_private m) \<and>
     bs = take (length bs) (concat (map (cluster_data img (fat_private m)) cs))"

lemma file_on_disk_path:
  assumes chain: "fat_path img (header (fat_private m)) (sint (fat16_get_first_cluster (root_entry m k))) cs" "cs \<noteq> []"
    and found: "\<forall>j. Suc j < length cs \<longrightarrow> lookup_right img (header (fat_private m)) (cs ! j)"
    and ok: "\<forall>c\<in>set cs. cluster_ok (fat_private m) c" "length cs * cluster_bytes (fat_private m) < 2 ^ 31"
    and bs: "bs = take (unat (filesize (root_entry m k))) (concat (map (cluster_data img (fat_private m)) cs))"
      "0 < unat (filesize (root_entry m k))" "unat (filesize (root_entry m k)) \<le> length cs * cluster_bytes (fat_private m)"
  shows "file_on_disk img m k cs bs"
proof -
  have "length (concat (map (cluster_data img (fat_private m)) ds)) = length ds * cluster_bytes (fat_private m)" for ds
    by (induction ds) (simp_all add: cluster_data_def)
  then have "length bs = unat (filesize (root_entry m k))" using bs by simp
  moreover have "driver_chain img (header (fat_private m)) cs" using fat_path_driver [OF chain(1) found] by simp
  ultimately show ?thesis using chain ok bs fat_path_hd [OF chain] by (simp add: file_on_disk_def)
qed

lemma more_tasks:
  fixes m m' :: "('p, 'a) task_state_scheme"
  assumes "vfs_state.more m' = vfs_state.more m"
  shows "tasks m' = tasks m" "procs m' = procs m" "processes m' = processes m" "task_head m' = task_head m"
    "task_tail m' = task_tail m" "current_task m' = current_task m" "same_kernel m m'"
  unfolding same_kernel_def using assms by (cases m; cases m'; simp)+

lemma room_among:
  assumes sub: "kh.used A \<subseteq> {..<t} \<union> Y" "finite Y" "card Y \<le> c" and room: "t + Suc c * n \<le> kheap_blocks"
  shows "room_for A n"
proof -
  from run_among [OF sub(2,3)] obtain j where j: "j \<le> c" "\<forall>i. t + j * n \<le> i \<and> i < t + Suc j * n \<longrightarrow> i \<notin> Y" by blast
  have "Suc j * n \<le> Suc c * n" using j(1) by (intro mult_right_mono) simp_all
  then have "t + j * n + n \<le> kheap_blocks" using room unfolding mult_Suc by linarith
  moreover have "\<not> covers A s' k' i" if i: "t + j * n \<le> i" "i < t + j * n + n" for i s' k'
  proof
    assume "covers A s' k' i"
    then have "i \<in> kh.used A" by (auto simp: kh.used_def)
    moreover have "i \<notin> Y" using i j(2) by simp
    ultimately show False using sub(1) i(1) by auto
  qed
  ultimately show ?thesis unfolding room_for_def by blast
qed

text \<open>The state of the process after \<^verbatim>\<open>process_load_data\<close>.\<close>

abbreviation loaded_elf :: "Elf_file \<Rightarrow> Process" where
  "loaded_elf f \<equiv> zero_process\<lparr>filetype := PROCESS_FILETYPE_ELF, image := ElfImage f\<rparr>"

lemma process_load_data_ok:
  fixes m :: "(FAT_FileDescriptor, 'a) task_state_scheme"
  assumes op: "openable m A path k slot" "slot < 511" and disk: "file_on_disk img m k cs bs" and prog: "program_file bs"
    and top: "kh.used A \<subseteq> {..<t}" "t + 9 * blocks_for (length bs) \<le> kheap_blocks" and pp: "pp \<noteq> 0"
  shows "\<exists>f A' Y m2. process_load_data (fat16_fs img) (process_init m pp) path pp = Inr (0, m2) \<and>
    processes m2 = processes m \<and> paging_enabled m2 = paging_enabled m \<and> tasks m2 = tasks m \<and> task_head m2 = task_head m \<and>
    task_tail m2 = task_tail m \<and> current_task m2 = current_task m \<and> same_kernel m m2 \<and>
    machine_inv m2 A' \<and> mem_kept A m m2 \<and> A \<subseteq>\<^sub>m A' \<and> image_loaded m2 A' pp (loaded_elf f) f (length bs) \<and>
    mem_bytes (mem m2) (elf_mem f) (length bs) = bs \<and>
    (\<exists>q. elf_mem f = block_addr q \<and> A q = None \<and> A' q = Some (blocks_for (length bs))) \<and>
    kh.used A' \<subseteq> {..<t} \<union> Y \<and> finite Y \<and> card Y \<le> 4 + blocks_for (length bs)"
proof -
  let ?m = "process_init m pp" and ?k = "blocks_for (length bs)"
  have op': "openable ?m A path k slot" using op(1) by (simp add: openable_def process_init_def machine_inv_def fat_ready_def)
  have fp: "fat_private ?m = fat_private m" "root_entry ?m k = root_entry m k" by (simp_all add: process_init_def root_entry_def)
  have f: "driver_chain img (header (fat_private m)) cs" "cs \<noteq> []" "\<forall>c\<in>set cs. cluster_ok (fat_private m) c"
    "length cs * cluster_bytes (fat_private m) < 2 ^ 31" "sint (fat16_get_first_cluster (root_entry m k)) = hd cs"
    "unat (filesize (root_entry m k)) = length bs" "0 < length bs" "length bs \<le> length cs * cluster_bytes (fat_private m)"
    "take (length bs) (concat (map (cluster_data img (fat_private m)) cs)) = bs"
    using disk unfolding file_on_disk_def by metis+
  from elf_load_ok [OF op' op(2), of img cs t, unfolded fp f(6), OF f(1-3,7,8,4,5) top] obtain e q ts r elf m4 where
    l: "elf_load (fat16_fs img) ?m path = Inr (r, if r < 0 then None else Some elf, m4)"
      "elf_process_loaded (mem m4) ((fresh_elf (block_addr e))\<lparr>elf_mem := block_addr q\<rparr>) = Inr (r, elf)"
      "mem_bytes (mem m4) (block_addr q) (length bs) = bs" "length ts = 3" "A e = None" "add_pages (A(e \<mapsto> 1)) ts q = None"
      "machine_inv m4 ((add_pages (A(e \<mapsto> 1)) ts)(q \<mapsto> ?k))" "\<forall>t\<in>set ts. (A(e \<mapsto> 1)) t = None" "mem_kept A ?m m4"
      "paging_enabled m4 = paging_enabled ?m"
    unfolding f(9) by blast
  let ?A = "(add_pages (A(e \<mapsto> 1)) ts)(q \<mapsto> ?k)"
  have len: "length bs < 2 ^ 32" using f(4,8) by simp
  note fm = file_in_mem [OF l(3) len prog]
  have "elf_mem (fold (\<lambda>p f. snd (elf_process_phdr_pt_load f p)) ps g) = elf_mem g" for ps g
    by (induction ps arbitrary: g) (simp_all add: elf_process_phdr_pt_load_def Let_def)
  then have r: "r = 0" "elf_mem elf = block_addr q"
    using l(2) fm(4) by (auto simp: elf_process_loaded_def elf_header_def process_pheaders_fold)
  note mt = more_tasks [OF elf_load_more [OF l(1)]]
  let ?m2 = "set_proc m4 pp (loaded_elf elf)"
  have d: "deref (procs m4) pp = Inr zero_process" using mt(2) pp by (simp add: process_init_def deref_def)
  have "process_load_elf (fat16_fs img) ?m path pp = Inr (0, ?m2)" using l(1) r(1) d by (simp add: process_load_elf_def)
  then have run: "process_load_data (fat16_fs img) ?m path pp = Inr (0, ?m2)" by (simp add: process_load_data_def config)
  have fit: "seg_fits elf ph" if "ph \<in> set (phdrs_at (byte_mem bs) 0)" for ph
  proof -
    have "q + ?k \<le> kheap_blocks" using machine_inv_bounds [OF l(7), of q ?k] by simp
    then have "unat (elf_mem elf) \<le> 2 ^ 30" unfolding r(2) by (simp add: unat_block_addr kheap_blocks_def)
    then show ?thesis using that prog by (auto simp: seg_fits_def program_file_def)
  qed
  have q: "q \<le> kheap_blocks" using machine_inv_bounds [OF l(7), of q ?k] by simp
  then have al: "off (elf_mem elf) = 0" unfolding r(2) by simp
  have "image_loaded ?m2 ?A pp (loaded_elf elf) elf (length bs)"
    unfolding image_loaded_def using pp fm(2,3) fits_seg(1) [OF fit al] r(2) le_blocks_for [of "length bs"]
    by (auto simp: deref_def zero_process_def config)
  moreover have "machine_inv ?m2 ?A" using l(7) by (simp add: machine_inv_def)
  moreover have "mem_kept A m ?m2" using l(9) by (simp add: mem_kept_def process_init_def)
  moreover have "A \<subseteq>\<^sub>m ?A" using l(5,6,8) by (fastforce simp: map_le_def add_pages_def split: if_splits)
  moreover have "A q = None" using l(6) by (simp add: add_pages_def split: if_splits)
  then have "\<exists>q. elf_mem elf = block_addr q \<and> A q = None \<and> ?A q = Some ?k" using r(2) by (intro exI [of _ q]) simp
  moreover have "kh.used ?A \<subseteq> {..<t} \<union> ({e} \<union> set ts \<union> {q..<q + ?k})"
    unfolding kh.used_upd [of "add_pages (A(e \<mapsto> 1)) ts" q, OF l(6)] used_add_pages [OF l(8)] kh.used_upd [of A e, OF l(5)]
    using top(1) by auto
  moreover have "card ({e} \<union> set ts \<union> {q..<q + ?k}) \<le> 4 + ?k"
  proof -
    have "card ({e} \<union> set ts) \<le> 4" using card_Un_le [of "{e}" "set ts"] card_length [of ts] l(4) by simp
    then show ?thesis using card_Un_le [of "{e} \<union> set ts" "{q..<q + ?k}"] by simp
  qed
  ultimately show ?thesis
    using run mt l(3,10) r(2) by (intro exI [of _ elf] exI [of _ ?A] exI [of _ "{e} \<union> set ts \<union> {q..<q + ?k}"] exI [of _ ?m2])
      (simp add: process_init_def)
qed

section \<open>From the disk to a process\<close>

lemma used_top: "kh.used (A(r \<mapsto> k)) \<subseteq> kh.used A \<union> {r..<r + k}"
  by (auto simp: kh.used_def covers_def split: if_splits)

lemma program_slot_ok:
  fixes m :: "(FAT_FileDescriptor, 'a) task_state_scheme"
  assumes op: "openable m A path k slot" "slot < 511" and disk: "file_on_disk img m k cs bs" and prog: "program_file bs"
    and inv: "scheduler_inv m A tps" and on: "paging_enabled m"
    and s: "0 \<le> s" "s < 12" "length (processes m) = 12" "processes m ! nat s = 0"
    and top: "kh.used A \<subseteq> {..<t}" "t + 9 * blocks_for (length bs) + 1038 \<le> kheap_blocks"
  shows "\<exists>pp f r a pages A' d m'. process_load_for_slot (fat16_fs img) m path process s = Inr (0, pp, m') \<and>
    processes m' = (processes m)[nat s := pp] \<and> scheduler_inv m' A' (tps @ [(a, pages)]) \<and>
    mem_bytes (mem m') (elf_mem f) (length bs) = bs \<and> off (elf_mem f) = 0 \<and> unat (elf_mem f) \<le> 2 ^ 30 \<and>
    started m' pp s f (length bs) r a d \<and> pp \<noteq> 0 \<and>
    (\<exists>q. elf_mem f = block_addr q \<and> A' q = Some (blocks_for (length bs)) \<and> A' r = Some 4 \<and>
       q \<notin> set (concat (map snd tps)) \<union> set pages) \<and>
    (\<exists>p. procs m' pp = Some p \<and> allocations p = allocations zero_process) \<and> same_kernel m m'"
proof -
  let ?k = "blocks_for (length bs)"
  have mi: "machine_inv m A" using op(1) by (simp add: openable_def)
  have b3: "blocks_for (unat (9364 :: u32)) = 3" by (simp add: blocks_for_def)
  have "t + 3 \<le> kheap_blocks" "\<forall>i. t \<le> i \<and> i < t + 3 \<longrightarrow> i \<notin> kh.used A" using top by auto
  from kzalloc_run [OF mi, of 9364 t, unfolded b3, OF _ _ this] obtain pr m1 where
    z: "kzalloc m 9364 = Inr (block_addr pr, m1)" "heap_only m m1" "machine_inv m1 (A(pr \<mapsto> 3))" "A pr = None"
      "block_addr pr \<noteq> 0" "pr \<le> t" "mem_kept A m m1" by auto
  let ?A1 = "A(pr \<mapsto> 3)" and ?pp = "block_addr pr"
  have top1: "kh.used ?A1 \<subseteq> {..<t + 3}" using used_top [of A pr 3] top(1) z(6) by fastforce
  then have "card (kh.used ?A1) \<le> t + 3" using card_mono [OF _ top1] by simp
  then have op1: "openable m1 ?A1 path k slot" using top(2) by (intro openable_heap_only [OF op(1) z(2,3)]) simp
  note h1 = heap_only_fat [OF z(2)]
  have disk1: "file_on_disk img m1 k cs bs" using disk unfolding file_on_disk_def root_entry_def h1(2) .
  have "vfs_state.more m1 = vfs_state.more m" using z(2) by (cases m; cases m1) (auto simp: heap_only_def)
  note mt1 = more_tasks [OF this]
  have "t + 3 + 9 * ?k \<le> kheap_blocks" using top(2) by simp
  from process_load_data_ok [OF op1 op(2) disk1 prog top1 this z(5)] obtain f A' Y m2 where
    l: "process_load_data (fat16_fs img) (process_init m1 ?pp) path ?pp = Inr (0, m2)" "processes m2 = processes m1"
      "paging_enabled m2 = paging_enabled m1" "tasks m2 = tasks m1" "task_head m2 = task_head m1" "task_tail m2 = task_tail m1"
      "current_task m2 = current_task m1" "machine_inv m2 A'" "mem_kept ?A1 m1 m2" "?A1 \<subseteq>\<^sub>m A'"
      "image_loaded m2 A' ?pp (loaded_elf f) f (length bs)" "mem_bytes (mem m2) (elf_mem f) (length bs) = bs"
      "kh.used A' \<subseteq> {..<t + 3} \<union> Y" "finite Y" "card Y \<le> 4 + ?k"
    and im: "\<exists>q. elf_mem f = block_addr q \<and> ?A1 q = None \<and> A' q = Some ?k" and sk: "same_kernel m1 m2" by blast
  have sub: "A \<subseteq>\<^sub>m ?A1" using z(4) by (auto simp: map_le_def)
  have kept: "mem_kept A m m2" by (rule mem_kept_trans [OF z(7) l(9) sub])
  have "scheduler_inv m2 A' tps"
  proof (rule scheduler_inv_frame [OF inv l(8)])
    show "A' x = Some 1" if "A x = Some 1" for x
      using map_le_trans [OF sub l(10)] that by (force simp: map_le_def dom_def)
    show "mem m2 b = mem m b" if x: "A x = Some 1" "pn b = 4096 + x" for b x
      using kept live_used [OF mi x(1)] x(2) by (auto simp: mem_kept_def)
  qed (simp_all add: l(4-7) mt1)
  moreover have "room_for A' 4" using top(2) by (intro room_among [OF l(13-15)]) simp
  moreover have "card (kh.used A') + 1031 \<le> kheap_blocks"
  proof -
    have "card (kh.used A') \<le> card ({..<t + 3} \<union> Y)" using l(13,14) by (intro card_mono) auto
    also have "\<dots> \<le> t + 3 + card Y" using card_Un_le [of "{..<t + 3}" Y] by simp
    finally show ?thesis using l(15) top(2) by linarith
  qed
  ultimately obtain r a pages d m' where
    e: "process_load_for_slot (fat16_fs img) m path process s = Inr (0, ?pp, m')" "processes m' = (processes m)[nat s := ?pp]"
      "scheduler_inv m' (add_pages (A'(r \<mapsto> 4)) pages) (tps @ [(a, pages)])"
      "same_bytes (elf_mem f) (length bs) (mem m2) (mem m')" "started m' ?pp s f (length bs) r a d"
    and own: "A' r = None" "\<forall>x\<in>set pages. x \<notin> kh.used (A'(r \<mapsto> 4))"
    and fresh: "\<exists>p. procs m' ?pp = Some p \<and> allocations p = allocations zero_process" "same_kernel m2 m'"
    using process_load_for_slot_ok [OF s z(1,5) l(1) _ _ _ _ _ l(11), of tps process] op(1) on l(2,3) mt1 h1(4)
    by (auto simp: openable_def)
  obtain q where q: "elf_mem f = block_addr q" "A' q = Some ?k" "?A1 q = None" using im by blast
  have "covers (A'(r \<mapsto> 4)) q ?k q" "covers (A'(r \<mapsto> 4)) r 4 r"
    using own(1) q(2) machine_inv_bounds [OF l(8) q(2)] by (auto simp: covers_def)
  then have "q \<notin> set pages" "r \<notin> set pages" using own(2) by (auto simp: kh.used_def)
  moreover have "A x = Some 1" if "x \<in> set (concat (map snd tps))" for x
    using inv that by (auto simp: scheduler_inv_def tasks_own_def pages_own_def)
  then have "q \<notin> set (concat (map snd tps))" using q(3) by (fastforce split: if_splits)
  ultimately have mine: "\<exists>q. elf_mem f = block_addr q \<and> add_pages (A'(r \<mapsto> 4)) pages q = Some ?k \<and>
      add_pages (A'(r \<mapsto> 4)) pages r = Some 4 \<and> q \<notin> set (concat (map snd tps)) \<union> set pages"
    using q(1,2) own(1) by (intro exI [of _ q]) (auto simp: add_pages_def)
  have "q + ?k \<le> kheap_blocks" using machine_inv_bounds [OF l(8) q(2)] by simp
  then have "off (elf_mem f) = 0" "unat (elf_mem f) \<le> 2 ^ 30" unfolding q(1) by (simp_all add: unat_block_addr kheap_blocks_def)
  moreover have "mem_bytes (mem m') (elf_mem f) (length bs) = mem_bytes (mem m2) (elf_mem f) (length bs)"
    using e(4) by (intro nth_equalityI) (simp_all add: same_bytes_def)
  moreover have "same_kernel m m'" using mt1(7) sk fresh(2) by (simp add: same_kernel_def)
  ultimately show ?thesis using e l(12) z(5) mine fresh
    by - (rule exI [of _ ?pp], rule exI [of _ f], rule exI [of _ r], rule exI [of _ a], rule exI [of _ pages],
      rule exI [of _ "add_pages (A'(r \<mapsto> 4)) pages"], rule exI [of _ d], rule exI [of _ m'], simp)
qed

text \<open>The segments as the file has them, when it lies in the heap.\<close>

lemma program_fits:
  assumes "program_file bs" and "unat (elf_mem f) \<le> 2 ^ 30" and "ph \<in> set (phdrs_at (byte_mem bs) 0)"
  shows "seg_fits f ph"
  using assms by (auto simp: program_file_def seg_fits_def)

text \<open>The bytes of the file where the program has its segments.\<close>

definition program_visible :: "('p, 'a) task_state_scheme \<Rightarrow> u8 list \<Rightarrow> bool" where
  "program_visible m bs \<longleftrightarrow> (\<forall>us ph vs i. phdrs_at (byte_mem bs) 0 = us @ ph # vs \<longrightarrow> i < unat (p_memsz ph) \<longrightarrow>
     unat (p_offset ph) + i < length bs \<longrightarrow> (\<forall>q\<in>set vs. \<not> seg_covers q (p_vaddr ph + of_nat i)) \<longrightarrow>
     \<not> in_stack (p_vaddr ph + of_nat i) \<longrightarrow> vload m (p_vaddr ph + of_nat i) = Inr (bs ! (unat (p_offset ph) + i)))"

lemma started_visible:
  assumes st: "started m' pp s f (length bs) r a d" and mem: "mem_bytes (mem m') (elf_mem f) (length bs) = bs"
    and f: "off (elf_mem f) = 0" "unat (elf_mem f) \<le> 2 ^ 30" and len: "length bs < 2 ^ 32" and prog: "program_file bs"
  shows "program_visible (switched m' a d) bs"
  unfolding program_visible_def
proof (intro allI impI)
  fix us ph vs i
  assume ps: "phdrs_at (byte_mem bs) 0 = us @ ph # vs" and i: "i < unat (p_memsz ph)" "unat (p_offset ph) + i < length bs"
    and alone: "\<forall>q\<in>set vs. \<not> seg_covers q (p_vaddr ph + of_nat i)" "\<not> in_stack (p_vaddr ph + of_nat i)"
  note fm = file_in_mem [OF mem len prog] and st = st [unfolded started_def file_in_mem(1,2) [OF mem len prog]]
  have fits: "seg_fits f q" if "q \<in> set (us @ ph # vs)" for q using program_fits [OF prog f(2)] that unfolding ps .
  have "\<forall>q\<in>set vs. \<not> in_segment f q (p_vaddr ph + of_nat i)" using alone(1) in_segment_covers [OF fits f(1)] by auto
  then have "vtranslate (switched m' a d) (p_vaddr ph + of_nat i) = Inr (elf_mem f + p_offset ph + of_nat i)"
    using st ps fits i(1) alone(2) by simp
  moreover have "mem m' (elf_mem f + p_offset ph + of_nat i) = bs ! (unat (p_offset ph) + i)"
    using fm(5) [OF i(2)] by (simp add: add.assoc)
  ultimately show "vload (switched m' a d) (p_vaddr ph + of_nat i) = Inr (bs ! (unat (p_offset ph) + i))" by (simp add: vload_def)
qed

section \<open>A disk with a program\<close>

text \<open>
  A file of 86 bytes: the header, one program header that maps the whole file to 0x400000, and a jump to itself as the program.
\<close>

definition demo_exe :: "u8 list" where
  "demo_exe = [0x7f, 0x45, 0x4c, 0x46, 1, 1, 1] @ replicate 9 0 @ [2, 0, 3, 0, 1, 0, 0, 0, 0x54, 0, 0x40, 0, 52, 0, 0, 0] @
     replicate 8 0 @ [52, 0, 32, 0, 1, 0, 0, 0, 0, 0, 0, 0] @
     [1, 0, 0, 0, 0, 0, 0, 0, 0, 0, 0x40, 0, 0, 0, 0x40, 0, 86, 0, 0, 0, 86, 0, 0, 0, 5, 0, 0, 0, 0, 16, 0, 0] @ [0xEB, 0xFE]"

definition exe_phdr :: Elf32_phdr where
  "exe_phdr = \<lparr>p_type = 1, p_offset = 0, p_vaddr = 0x400000, p_paddr = 0x400000, p_filesz = 86, p_memsz = 86, p_flags = 5,
     p_align = 0x1000\<rparr>"

lemma demo_exe_headers: "length demo_exe = 86" "phdrs_at (byte_mem demo_exe) 0 = [exe_phdr]"
  "e_entry (Elf_header_at (byte_mem demo_exe) 0) = 0x400054"
  by code_simp+

lemma demo_exe_program: "program_file demo_exe"
proof -
  have "elf_validate_loaded (byte_mem demo_exe) 0 = Inr 0" by code_simp
  moreover have "headers_inside (byte_mem demo_exe) 0 86" by code_simp
  ultimately show ?thesis
    unfolding program_file_def demo_exe_headers by (simp add: exe_phdr_def off_def)
qed

definition exe_root :: "u8 list" where
  "exe_root = [72, 69, 76, 76, 79, 32, 32, 32, 84, 88, 84, 0x20] @ replicate 14 0 @ [2, 0, 86, 0, 0, 0]"

definition exe_img :: disk_img where
  "exe_img lba i = (if lba = 0 then (if i < length demo_boot then demo_boot ! i else 0)
     else if lba = 2 then (if i < 32 then exe_root ! i else 0)
     else if lba = 3 then (if i < 86 then demo_exe ! i else 0) else 0)"

definition exe_private :: FAT_Private where
  "exe_private = demo_private\<lparr>root_directory := (root_directory demo_private)\<lparr>item := map (entry_at exe_img 1024) [0..<16]\<rparr>\<rparr>"

lemma exe_entry: "entry_at exe_img 1024 0 = FAT_DirectoryItem_of exe_root"
  by code_simp

lemma exe_items: "item (root_directory exe_private) ! 0 = FAT_DirectoryItem_of exe_root"
  "dir_total (root_directory exe_private) = 1" "length (item (root_directory exe_private)) = 16"
  "\<forall>it\<in>set (item (root_directory exe_private)). item_wf it"
  by (auto simp: exe_private_def demo_items nth_map exe_entry [symmetric] entry_at_def intro!: item_wf_of)

lemma exe_unique: "unique_file (root_directory exe_private) demo_name 0"
proof -
  have "name_matches (FAT_DirectoryItem_of exe_root) demo_name" by code_simp
  moreover have "attribute (FAT_DirectoryItem_of exe_root) AND FAT_FILE_SUBDIRECTORY = 0" by code_simp
  moreover have "terminated demo_name" by (simp add: terminated_def demo_name_def)
  ultimately show ?thesis using exe_items by (simp add: unique_file_def)
qed

lemma exe_cluster: "cluster_bytes exe_private = 512" "cluster_pos exe_private 2 = 1536" "cluster_ok exe_private 2"
  using demo_cluster by (simp_all add: exe_private_def cluster_bytes_def cluster_pos_def cluster_ok_def)

lemma exe_on_disk:
  assumes "fat_private m = exe_private" shows "file_on_disk exe_img m 0 [2] demo_exe"
proof -
  have "bytes_at exe_img 1536 86 = demo_exe" by code_simp
  then have "take 86 (cluster_data exe_img exe_private 2) = demo_exe"
    unfolding cluster_data_def exe_cluster by (simp add: bytes_at_take)
  moreover have "unat (filesize (FAT_DirectoryItem_of exe_root)) = 86" "sint (fat16_get_first_cluster (FAT_DirectoryItem_of exe_root)) = 2"
    by code_simp+
  ultimately show ?thesis
    using exe_cluster by (simp add: file_on_disk_def assms root_entry_def exe_items(1) demo_exe_headers(1) driver_chain_def)
qed

lemma exe_machine:
  "\<exists>m :: FAT_FileDescriptor task_state. openable m Map.empty demo_file_path 0 0 \<and> scheduler_inv m Map.empty [] \<and>
     fat_private m = exe_private \<and> paging_enabled m \<and> processes m = replicate 12 0"
proof -
  obtain m0 :: "FAT_FileDescriptor task_state" where m0: "scheduler_inv m0 Map.empty []" using demo_scheduler by blast
  let ?m = "m0\<lparr>disk := (disk m0)\<lparr>fs_private := 1, sector_size := 512, filesystem := Some fat16_init\<rparr>, fat_private := exe_private,
    file_descriptors := None # replicate 511 None, paging_enabled := True, processes := replicate 12 0\<rparr>"
  have c: "cstr demo_name = [104, 101, 108, 108, 111, 46, 116, 120, 116]" by (simp add: demo_name_def cstr_def)
  have parts: "path_parts (drop 3 (cstr demo_file_path)) = [cstr demo_name]"
    unfolding c by (simp add: demo_file_path_def path_parts.simps slash_def)
  have mi: "machine_inv ?m Map.empty" using m0 machine_inv_kernel_heap [of ?m m0] by (simp add: scheduler_inv_def tasks_own_def)
  then have "scheduler_inv ?m Map.empty []" by (rule scheduler_inv_frame [OF m0]) simp_all
  moreover have "fat_ready ?m" by (simp add: fat_ready_def exe_private_def demo_private_def stream_ok_def)
  moreover have "terminated demo_file_path" "valid_path (cstr demo_file_path)" "demo_file_path ! 0 = 0x30"
    by (simp_all add: demo_file_path_def valid_path_def is_digit_def slash_def config terminated_def)
  ultimately show ?thesis using mi exe_unique demo_room [of 7] parts
    by (intro exI [of _ ?m]) (auto simp: openable_def)
qed

section \<open>Properties\<close>

text \<open>
  C1: a file becomes a process. When the path names a file of the root directory whose bytes are an ELF program, the slot is
  free and the kernel heap has room, \<^verbatim>\<open>process_load_for_slot\<close> succeeds: the slot has the new process, the
  scheduler's queue is the old one with the new task behind it, the task starts at the entry point of the file, and after
  switching to the task the processor reads at \<open>p_vaddr + i\<close> the byte at \<open>p_offset + i\<close> of the file
  on the disk, for every segment and every address that no later segment and not the stack covers. The bytes of the file are those
  the driver finds (\<open>file_on_disk\<close>), which are the file's own in its first cluster and as long as the lookups are right.
\<close>

theorem process_load_for_slot_runs:
  fixes m :: "(FAT_FileDescriptor, 'a) task_state_scheme"
  assumes op: "openable m A path k slot" "slot < 511" and disk: "file_on_disk img m k cs bs" and prog: "program_file bs"
    and inv: "scheduler_inv m A tps" and on: "paging_enabled m"
    and s: "0 \<le> s" "s < 12" "length (processes m) = 12" "processes m ! nat s = 0"
    and top: "kh.used A \<subseteq> {..<t}" "t + 9 * blocks_for (length bs) + 1038 \<le> kheap_blocks"
  shows "\<exists>pp a pages A' m' m''. process_load_for_slot (fat16_fs img) m path process s = Inr (0, pp, m') \<and>
    processes m' = (processes m)[nat s := pp] \<and> scheduler_inv m' A' (tps @ [(a, pages)]) \<and>
    (\<exists>tk. tasks m' a = Some tk \<and> task_process tk = pp \<and>
       registers tk = start_registers (e_entry (Elf_header_at (byte_mem bs) 0))) \<and>
    (\<exists>p. procs m' pp = Some p \<and> proc_task p = a \<and> proc_id p = word_of_int s) \<and>
    task_switch m' a = Inr m'' \<and>
    (\<forall>us ph vs i. phdrs_at (byte_mem bs) 0 = us @ ph # vs \<longrightarrow> i < unat (p_memsz ph) \<longrightarrow> unat (p_offset ph) + i < length bs \<longrightarrow>
       (\<forall>q\<in>set vs. \<not> seg_covers q (p_vaddr ph + of_nat i)) \<longrightarrow> \<not> in_stack (p_vaddr ph + of_nat i) \<longrightarrow>
       vload m'' (p_vaddr ph + of_nat i) = Inr (bs ! (unat (p_offset ph) + i))) \<and>
    (\<exists>stack. \<forall>j<16384. vtranslate m'' (0x3FB000 + of_nat j) = Inr (stack + of_nat j))"
proof -
  from program_slot_ok [OF op disk prog inv on s top, of process] obtain pp f r a pages A' d m' where
    e: "process_load_for_slot (fat16_fs img) m path process s = Inr (0, pp, m')" "processes m' = (processes m)[nat s := pp]"
      "scheduler_inv m' A' (tps @ [(a, pages)])" "mem_bytes (mem m') (elf_mem f) (length bs) = bs" "off (elf_mem f) = 0"
      "unat (elf_mem f) \<le> 2 ^ 30" "started m' pp s f (length bs) r a d" by blast
  have "length bs \<le> length cs * cluster_bytes (fat_private m)" "length cs * cluster_bytes (fat_private m) < 2 ^ 31"
    using disk unfolding file_on_disk_def by blast+
  then have len: "length bs < 2 ^ 32" by simp
  note st = e(7) [unfolded started_def file_in_mem(1,2) [OF e(4) len prog]]
  note see = started_visible [OF e(7,4-6) len prog, unfolded program_visible_def]
  have "task_switch m' a = Inr (switched m' a d)" "\<forall>j<16384. vtranslate (switched m' a d) (0x3FB000 + of_nat j) = Inr (block_addr r + of_nat j)"
    "\<exists>tk. tasks m' a = Some tk \<and> task_process tk = pp \<and> registers tk = start_registers (e_entry (Elf_header_at (byte_mem bs) 0))"
    "\<exists>p. procs m' pp = Some p \<and> proc_task p = a \<and> proc_id p = word_of_int s" using st by blast+
  with e(1-3) see show ?thesis by blast
qed

theorem process_load_for_slot_runs_witness:
  "\<exists>(m :: FAT_FileDescriptor task_state) pp a m' m''.
     process_load_for_slot (fat16_fs exe_img) m demo_file_path 0 0 = Inr (0, pp, m') \<and> processes m' ! 0 = pp \<and>
     task_switch m' a = Inr m'' \<and> vload m'' 0x400054 = Inr 0xEB"
proof -
  obtain m :: "FAT_FileDescriptor task_state" where m: "openable m Map.empty demo_file_path 0 0" "scheduler_inv m Map.empty []"
    "fat_private m = exe_private" "paging_enabled m" "processes m = replicate 12 0" using exe_machine by blast
  have t: "kh.used Map.empty \<subseteq> {..<0}" "0 + 9 * blocks_for (length demo_exe) + 1038 \<le> kheap_blocks"
    by (simp_all add: demo_exe_headers(1) blocks_for_def kheap_blocks_def)
  have s: "0 \<le> (0 :: int)" "(0 :: int) < 12" "length (processes m) = 12" "processes m ! nat 0 = 0" using m(5) by simp_all
  from process_load_for_slot_runs [OF m(1) _ exe_on_disk [OF m(3)] demo_exe_program m(2,4) s t, of 0] obtain pp a m' m'' where
    r: "process_load_for_slot (fat16_fs exe_img) m demo_file_path 0 0 = Inr (0, pp, m')" "processes m' = (processes m)[nat 0 := pp]"
      "task_switch m' a = Inr m''"
    and see: "\<forall>us ph vs i. phdrs_at (byte_mem demo_exe) 0 = us @ ph # vs \<longrightarrow> i < unat (p_memsz ph) \<longrightarrow>
       unat (p_offset ph) + i < length demo_exe \<longrightarrow> (\<forall>q\<in>set vs. \<not> seg_covers q (p_vaddr ph + of_nat i)) \<longrightarrow>
       \<not> in_stack (p_vaddr ph + of_nat i) \<longrightarrow> vload m'' (p_vaddr ph + of_nat i) = Inr (demo_exe ! (unat (p_offset ph) + i))" by auto
  have "\<not> in_stack (p_vaddr exe_phdr + of_nat 84)" by (simp add: in_stack_def pn_def exe_phdr_def)
  then have "vload m'' (p_vaddr exe_phdr + of_nat 84) = Inr (demo_exe ! (unat (p_offset exe_phdr) + 84))"
    using see [rule_format, of "[]" exe_phdr "[]" 84] by (simp add: demo_exe_headers exe_phdr_def)
  moreover have "p_vaddr exe_phdr + of_nat 84 = 0x400054" "demo_exe ! (unat (p_offset exe_phdr) + 84) = 0xEB" by code_simp+
  moreover have "processes m' ! 0 = pp" using r(2) m(5) by simp
  ultimately show ?thesis using r(1,3) by metis
qed

end
