(* ===== verification/Isolation.thy ===== *)
theory Isolation
  imports ProgramStart
begin

text \<open>
  What a program can do to the rest of the machine. The processor checks a store of user code against the entries that
  \<^verbatim>\<open>paging_new_4gb\<close>, \<^verbatim>\<open>process_map_elf\<close> and \<^verbatim>\<open>process_map_memory\<close> have written: both levels have to be present, writeable and
  accessible for all. The property says that a program the kernel has loaded can write to its image and to its stack and
  to nothing else, whatever it does: not to the kernel, not to the tables, not to the memory of another program.
\<close>

section \<open>Stores of user code\<close>

text \<open>A store in user mode under the current directory. The bits 0 to 2 of an entry are present, writeable and user.\<close>

definition user_store :: "'a paging_state_scheme \<Rightarrow> u32 \<Rightarrow> u8 \<Rightarrow> fault + 'a paging_state_scheme" where
  "user_store m va v =
     (if \<not> paging_enabled m then Inr (m\<lparr>mem := (mem m)(va := v)\<rparr>)
      else
        (let pde = load32 (mem m) (cr3 m + 4 * (va div 0x400000));
             pte = load32 (mem m) ((pde AND 0xfffff000) + 4 * (va mod 0x400000 div 0x1000))
         in if pde AND 7 \<noteq> 7 \<or> pte AND 7 \<noteq> 7 then Inl PageFault
            else Inr (m\<lparr>mem := (mem m)((pte AND 0xfffff000) + va mod 0x1000 := v)\<rparr>)))"

text \<open>A run of user code: its stores, up to the first one that faults.\<close>

primrec user_run :: "'a paging_state_scheme \<Rightarrow> (u32 \<times> u8) list \<Rightarrow> 'a paging_state_scheme" where
  "user_run m [] = m"
| "user_run m (w # ws) = (case user_store m (fst w) (snd w) of Inl _ \<Rightarrow> m | Inr m' \<Rightarrow> user_run m' ws)"

lemma user_store_walk:
  assumes on: "paging_enabled m" "cr3 m = dir"
  shows "user_store m va v =
    (if load32 (mem m) (dir + of_nat (4 * (pn va div 1024))) AND 7 \<noteq> 7 \<or> pd_entry (mem m) dir va AND 7 \<noteq> 7 then Inl PageFault
     else Inr (m\<lparr>mem := (mem m)((pd_entry (mem m) dir va AND 0xfffff000) + of_nat (off va) := v)\<rparr>))"
  using on(1) unfolding user_store_def Let_def walk_indexes on(2) word_off pd_entry_def pte_addr_def table_of_def
  by (simp only: if_False not_True_eq_False)

text \<open>The pages a program may write to.\<close>

definition writes_within :: "(u32 \<Rightarrow> u8) \<Rightarrow> u32 \<Rightarrow> nat set \<Rightarrow> bool" where
  "writes_within mm dir P \<longleftrightarrow> (\<forall>va. pd_entry mm dir va AND 7 = 7 \<longrightarrow> pn (pd_entry mm dir va) \<in> P)"

text \<open>No page of the directory is one of them.\<close>

definition tables_apart :: "(u32 \<Rightarrow> u8) \<Rightarrow> u32 \<Rightarrow> nat set \<Rightarrow> bool" where
  "tables_apart mm dir P \<longleftrightarrow> pn dir \<notin> P \<and> (\<forall>i<1024. pn (table_of mm dir i) \<notin> P)"

lemma tables_unchanged:
  assumes ok: "pd_ok mm dir" and apart: "tables_apart mm dir P" and same: "\<And>b. pn b \<notin> P \<Longrightarrow> mm' b = mm b"
  shows "table_of mm' dir i = table_of mm dir i \<or> 1024 \<le> i" and "pd_entry mm' dir va = pd_entry mm dir va"
    and "pd_ok mm' dir" and "tables_apart mm' dir P"
proof -
  have word: "load32 mm' (dir + of_nat (4 * i)) = load32 mm (dir + of_nat (4 * i))" if "i < 1024" for i
  proof (rule load32_cong_page [OF aligned4_dir [OF ok]])
    fix b assume "pn b = pn (dir + of_nat (4 * i))"
    also have "\<dots> = pn dir" using ok that by (intro pn_add_page) (simp_all add: pd_ok_def)
    finally show "mm' b = mm b" using apart by (intro same) (simp add: tables_apart_def)
  qed
  then have tab: "table_of mm' dir i = table_of mm dir i" if "i < 1024" for i using that by (simp add: table_of_def)
  then show "table_of mm' dir i = table_of mm dir i \<or> 1024 \<le> i" by (metis not_less)
  have "inj_on (table_of mm' dir) {..<1024} = inj_on (table_of mm dir) {..<1024}" by (intro inj_on_cong) (simp add: tab)
  then show "pd_ok mm' dir" using ok tab by (simp add: pd_ok_def)
  show "tables_apart mm' dir P" using apart tab by (simp add: tables_apart_def)
  have "pte_addr mm' dir va = pte_addr mm dir va" using tab [OF pn_div_bound] by (simp add: pte_addr_def)
  moreover have "load32 mm' (pte_addr mm dir va) = load32 mm (pte_addr mm dir va)"
  proof (rule load32_cong_page [OF aligned4_pte_addr])
    fix b assume "pn b = pn (pte_addr mm dir va)"
    then show "mm' b = mm b" using apart pn_div_bound [of va] by (intro same) (simp add: tables_apart_def pn_pte_addr)
  qed
  ultimately show "pd_entry mm' dir va = pd_entry mm dir va" by (simp add: pd_entry_def)
qed

lemma user_store_within:
  assumes on: "paging_enabled m" "cr3 m = dir" and within: "writes_within (mem m) dir P" and st: "user_store m va v = Inr m'"
  shows "\<exists>pa. pn pa \<in> P \<and> m' = m\<lparr>mem := (mem m)(pa := v)\<rparr>"
proof -
  let ?pa = "(pd_entry (mem m) dir va AND 0xfffff000) + of_nat (off va)"
  have pte: "pd_entry (mem m) dir va AND 7 = 7" and m': "m' = m\<lparr>mem := (mem m)(?pa := v)\<rparr>"
    using st unfolding user_store_walk [OF on] by (simp_all split: if_splits)
  have "off va < 4096" by (simp add: off_def)
  then have "pn ?pa = pn (pd_entry (mem m) dir va)" using pn_add_page [OF off_mask] by simp
  then show ?thesis using within pte m' by (intro exI [of _ ?pa]) (simp add: writes_within_def)
qed

lemma user_run_within:
  "paging_enabled m \<Longrightarrow> cr3 m = dir \<Longrightarrow> pd_ok (mem m) dir \<Longrightarrow> writes_within (mem m) dir P \<Longrightarrow> tables_apart (mem m) dir P \<Longrightarrow>
     \<exists>mm. user_run m ws = m\<lparr>mem := mm\<rparr> \<and> (\<forall>b. pn b \<notin> P \<longrightarrow> mm b = mem m b)"
proof (induction ws arbitrary: m)
  case Nil
  show ?case by (intro exI [of _ "mem m"]) simp
next
  case (Cons w ws)
  show ?case
  proof (cases "user_store m (fst w) (snd w)")
    case (Inl e)
    then show ?thesis by (intro exI [of _ "mem m"]) simp
  next
    case (Inr m')
    obtain pa where pa: "pn pa \<in> P" "m' = m\<lparr>mem := (mem m)(pa := snd w)\<rparr>"
      using user_store_within [OF Cons.prems(1,2,4) Inr] by blast
    have same: "mem m' b = mem m b" if "pn b \<notin> P" for b using pa that by auto
    note kept = tables_unchanged [OF Cons.prems(3,5) same]
    have "writes_within (mem m') dir P" using Cons.prems(4) kept(2) by (simp add: writes_within_def)
    moreover have "paging_enabled m'" "cr3 m' = dir" using pa(2) Cons.prems(1,2) by simp_all
    ultimately obtain mm where "user_run m' ws = m'\<lparr>mem := mm\<rparr>" "\<forall>b. pn b \<notin> P \<longrightarrow> mm b = mem m' b"
      using Cons.IH [of m'] kept(3,4) by blast
    then show ?thesis using Inr pa(2) same by (intro exI [of _ mm]) simp
  qed
qed

section \<open>The pages of a program\<close>

text \<open>The frames a segment is mapped to, and those that a program may write to when its stack is the run of blocks \<open>r\<close>.\<close>

definition seg_frames :: "Elf_file \<Rightarrow> Elf32_phdr \<Rightarrow> nat set" where
  "seg_frames f ph = {pn (seg_phys f ph)..<pn (seg_phys f ph) + seg_pages f ph}"

definition writeable_frames :: "Elf_file \<Rightarrow> Elf32_phdr list \<Rightarrow> nat \<Rightarrow> nat set" where
  "writeable_frames f ps r = {4096 + r..<4096 + r + 4} \<union> (\<Union>ph\<in>{ph \<in> set ps. p_flags ph AND PF_W \<noteq> 0}. seg_frames f ph)"

lemma write_bit: "(w :: u32) AND 7 = 7 \<Longrightarrow> bit w 1"
proof -
  assume w: "w AND 7 = 7"
  have "bit (w AND 7) 1" unfolding w by simp
  then show "bit w 1" by (simp add: bit_simps)
qed

lemma aligned_bit: "off t = 0 \<Longrightarrow> \<not> bit (t :: u32) 1"
proof
  assume "off t = 0" "bit t 1"
  then have "bit (t AND 0xfffff000) 1" by (simp add: mask_aligned)
  then show False by (simp add: bit_simps)
qed

lemma pn_add_aligned:
  assumes "off a = 0" "off b = 0" "pn a + pn b < 1048576"
  shows "pn (a + b) = pn a + pn b"
proof -
  have "unat a = pn a * 4096" "unat b = pn b * 4096" using assms(1,2) by (simp_all add: unat_aligned)
  moreover from this have "unat (a + b) = unat a + unat b" using assms(3) by (intro unat_add_lt) simp
  ultimately have "unat (a + b) = (pn a + pn b) * 4096" by (simp only: add_mult_distrib)
  then show ?thesis by (simp only: pn_def [of "a + b"]) simp
qed

lemma seg_bound: "seg_ok f ph \<Longrightarrow> pn (seg_phys f ph) + seg_pages f ph < 1048576"
proof -
  assume ok: "seg_ok f ph"
  let ?p = "seg_phys f ph" and ?e = "seg_end f ph"
  have al: "off ?p = 0" "off ?e = 0" by (simp_all add: seg_phys_def seg_end_def aligned_iff_off [symmetric])
  then have "off (?e - ?p) = 0" by (simp add: aligned_iff_off [symmetric] aligned_diff)
  from unat_aligned [OF this] have "unat (?e - ?p) = seg_pages f ph * 4096" by (simp only: seg_pages_def)
  moreover have "unat (?e - ?p) = unat ?e - unat ?p" "unat ?p \<le> unat ?e"
    using ok by (simp_all add: seg_ok_def unat_sub word_le_nat_alt)
  ultimately have "pn ?p + seg_pages f ph = pn ?e" using unat_aligned [OF al(1)] unat_aligned [OF al(2)] by linarith
  then show ?thesis using pn_bound [of ?e] by simp
qed

lemma segments_within:
  assumes "\<forall>ph\<in>set ps. seg_ok f ph" and x: "off x = 0" and w: "bit (fold (map_segment f) ps (\<lambda>a. a OR 5) x) 1"
  shows "\<exists>ph\<in>set ps. p_flags ph AND PF_W \<noteq> 0 \<and> pn (fold (map_segment f) ps (\<lambda>a. a OR 5) x) \<in> seg_frames f ph"
  using assms(1) w
proof (induction ps rule: rev_induct)
  case Nil
  then show ?case using aligned_bit [OF x] by (simp add: bit_simps)
next
  case (snoc ph ps)
  let ?e = "fold (map_segment f) ps (\<lambda>a. a OR 5)"
  have e: "fold (map_segment f) (ps @ [ph]) (\<lambda>a. a OR 5) x = map_segment f ph ?e x" by simp
  show ?case
  proof (cases "pn (x - seg_start ph) < seg_pages f ph")
    case True
    let ?t = "seg_phys f ph + (x - seg_start ph)"
    have al: "off (seg_phys f ph) = 0" "off (x - seg_start ph) = 0"
      using x by (simp_all add: seg_phys_def seg_start_def aligned_iff_off [symmetric] aligned_diff)
    have t: "off ?t = 0" using al by (simp add: aligned_iff_off [symmetric] aligned_add)
    have v: "map_segment f ph ?e x = ?t OR seg_flags ph" using True by (simp add: map_segment_def map_pages_def)
    have "bit (seg_flags ph) 1" using snoc.prems(2) aligned_bit [OF t] unfolding e v by (simp add: bit_simps)
    then have "p_flags ph AND PF_W \<noteq> 0" by (auto simp: seg_flags_def paging_consts bit_simps split: if_splits)
    moreover have "pn (?t OR seg_flags ph) = pn (seg_phys f ph) + pn (x - seg_start ph)"
      using pn_or_low [OF t seg_flags_low(1)] pn_add_aligned [OF al] seg_bound [of f ph] snoc.prems(1) True by simp
    ultimately show ?thesis using True unfolding e v by (intro bexI [of _ ph]) (simp_all add: seg_frames_def)
  next
    case False
    then have "map_segment f ph ?e x = ?e x" by (simp add: map_segment_def map_pages_def)
    then show ?thesis using snoc.IH snoc.prems unfolding e by auto
  qed
qed

lemma address_space_within:
  assumes ok: "\<forall>ph\<in>set ps. seg_ok f ph" and x: "off x = 0" and s: "s + 4 \<le> kheap_blocks"
    and w: "address_space f ps s (\<lambda>a. a OR 5) x AND 7 = 7"
  shows "pn (address_space f ps s (\<lambda>a. a OR 5) x) \<in> writeable_frames f ps s"
proof (cases "pn (x - 0x3FB000) < 4")
  case True
  have "paging_is_aligned (0x3FB000 :: u32)" by (simp add: aligned_iff_off off_def)
  then have al: "off (block_addr s) = 0" "off (x - 0x3FB000) = 0"
    using s x aligned_diff [of x "0x3FB000"] by (simp_all add: aligned_iff_off)
  have t: "off (block_addr s + (x - 0x3FB000)) = 0" using al by (simp add: aligned_iff_off [symmetric] aligned_add)
  have "address_space f ps s (\<lambda>a. a OR 5) x = (block_addr s + (x - 0x3FB000)) OR 7"
    using True by (simp add: address_space_def map_pages_def)
  moreover have "pn ((block_addr s + (x - 0x3FB000)) OR 7) = pn (block_addr s) + pn (x - 0x3FB000)"
    using pn_or_low [OF t, of 7] pn_add_aligned [OF al] s True by (simp add: kheap_blocks_def)
  ultimately show ?thesis using s True by (simp add: writeable_frames_def)
next
  case False
  then have v: "address_space f ps s (\<lambda>a. a OR 5) x = fold (map_segment f) ps (\<lambda>a. a OR 5) x"
    by (simp add: address_space_def map_pages_def)
  from segments_within [OF ok x write_bit [OF w [unfolded v]]] show ?thesis unfolding v by (auto simp: writeable_frames_def)
qed

text \<open>A segment inside the blocks of the image.\<close>

lemma frames_in_image:
  assumes fits: "seg_fits f ph" and q: "elf_mem f = block_addr q" "q + k \<le> kheap_blocks"
    and inside: "unat (p_offset ph) + unat (p_memsz ph) \<le> 4096 * k"
  shows "seg_frames f ph \<subseteq> {4096 + q..<4096 + q + k}"
proof -
  let ?o = "unat (p_offset ph)" and ?M = "unat (p_memsz ph)"
  have al: "off (elf_mem f) = 0" and u: "unat (elf_mem f) = (4096 + q) * 4096" using q by (simp_all add: unat_block_addr)
  have "unat (elf_phdr_phys_address f ph) = (4096 + q) * 4096 + ?o"
    using fits unat_add_lt [of "elf_mem f" "p_offset ph"] u by (simp add: seg_fits_def elf_phdr_phys_address_def elf_memory_def)
  then have p: "pn (seg_phys f ph) = 4096 + q + ?o div 4096"
    unfolding seg_phys_def lower_page pn_mask by (simp only: pn_def) simp
  have o: "off (p_vaddr ph) = ?o mod 4096" using fits by (simp add: seg_fits_def off_def)
  have "seg_pages f ph = (?o mod 4096 + ?M + 4095) div 4096" using fits_seg(2) [OF fits al] unfolding o .
  then have "?o div 4096 + seg_pages f ph = (?o div 4096 * 4096 + (?o mod 4096 + ?M + 4095)) div 4096"
    by (simp only: div_mult_self3)
  also have "?o div 4096 * 4096 + (?o mod 4096 + ?M + 4095) = ?o + ?M + 4095" using div_mult_mod_eq [of ?o 4096] by linarith
  also have "(?o + ?M + 4095) div 4096 \<le> (4096 * k + 4095) div 4096" using inside by (intro div_le_mono) simp
  also have "\<dots> = k" by simp
  finally show ?thesis unfolding seg_frames_def p by auto
qed

section \<open>The pages of the tasks\<close>

lemma live_runs_apart:
  assumes mi: "machine_inv m A" and live: "A x = Some j" "A q = Some k" and ne: "x \<noteq> q"
  shows "\<not> (q \<le> x \<and> x < q + k)"
proof
  assume "q \<le> x \<and> x < q + k"
  then have "covers A q k x" using live(2) by (simp add: covers_def)
  moreover have "covers A x j x" using live(1) machine_inv_bounds [OF mi live(1)] by (simp add: covers_def)
  ultimately show False using mi kh.live_disjoint ne unfolding machine_inv_def by blast
qed

lemma scheduler_inv_pages:
  assumes inv: "scheduler_inv m A tps"
    and same: "\<And>b x. x \<in> set (concat (map snd tps)) \<Longrightarrow> pn b = 4096 + x \<Longrightarrow> mm b = mem m b"
  shows "scheduler_inv (m\<lparr>mem := mm\<rparr>) A tps"
proof -
  have own: "tasks_own m A tps" using inv by (simp add: scheduler_inv_def)
  have "task_footprint (m\<lparr>mem := mm\<rparr>) b pgs" if b: "(b, pgs) \<in> set tps" for b pgs
  proof (rule task_footprint_more [OF own b])
    fix c x assume "x \<in> set pgs" "pn c = 4096 + x"
    moreover from this have "x \<in> set (concat (map snd tps))" using b by force
    ultimately show "mem (m\<lparr>mem := mm\<rparr>) c = mem m c" using same by simp
  qed simp
  moreover have "machine_inv (m\<lparr>mem := mm\<rparr>) A" using own by (simp add: tasks_own_def machine_inv_def)
  moreover have "task_queue (m\<lparr>mem := mm\<rparr>) ts = task_queue m ts" for ts by (simp add: task_queue_def run_queue_def)
  ultimately show ?thesis using inv own by (auto simp: scheduler_inv_def tasks_own_def)
qed

lemma scheduler_inv_switch:
  assumes inv: "scheduler_inv m A tps" and a: "a \<in> set (map fst tps)"
  shows "scheduler_inv (switched m a d) A tps"
proof -
  have "run_queue (switched m a d) (map fst tps)"
    using inv by (intro run_queue_switched a) (simp add: scheduler_inv_def task_queue_def)
  moreover have "task_footprint (switched m a d) b pgs = task_footprint m b pgs" for b pgs by (simp add: task_footprint_def)
  moreover have "tps \<noteq> []" using a by auto
  ultimately show ?thesis using inv a by (simp add: scheduler_inv_def task_queue_def tasks_own_def machine_inv_def)
qed

text \<open>The pages of the directory of a task are among the pages of the task.\<close>

lemma directory_of_task:
  assumes inv: "scheduler_inv m A tps" and a: "(a, pages) \<in> set tps" and t: "tasks m a = Some t"
    and root: "pd_root (mem m) (page_directory t) d"
  shows "\<exists>x\<in>set pages. pn d = 4096 + x" and "i < 1024 \<Longrightarrow> \<exists>x\<in>set pages. pn (table_of (mem m) d i) = 4096 + x"
proof -
  have own: "tasks_own m A tps" using inv by (simp add: scheduler_inv_def)
  then have "task_footprint m a pages" using a by (auto simp: tasks_own_def)
  then obtain s p d' ts where g: "pages = s # p # d' # ts" "length ts = 1024"
    "map_option page_directory (tasks m a) = Some (block_addr p)" "load32 (mem m) (block_addr p) = block_addr d'"
    "\<forall>i<1024. table_of (mem m) (block_addr d') i = block_addr (ts ! i)" unfolding task_footprint_def by blast
  have d: "d = block_addr d'" using g(3,4) t root by (simp add: pd_root_def)
  have b: "x < kheap_blocks" if "x \<in> set pages" for x
  proof (rule pages_own_bound)
    show "machine_inv m A" "pages_own A (map snd tps)" using own by (simp_all add: tasks_own_def)
    show "pages \<in> set (map snd tps)" using a by force
  qed (rule that)
  show "\<exists>x\<in>set pages. pn d = 4096 + x" using b [of d'] unfolding d g(1) by (intro bexI [of _ d']) simp_all
  assume i: "i < 1024"
  have x: "ts ! i \<in> set pages" using i g(1,2) by simp
  then show "\<exists>x\<in>set pages. pn (table_of (mem m) d i) = 4096 + x"
    using g(5) i b [OF x] unfolding d by (intro bexI [OF _ x]) simp
qed

text \<open>A run of user code that can write to \<open>P\<close> only, where no task has a page.\<close>

lemma confined_run:
  assumes inv: "scheduler_inv m A tps" and a: "(a, pages) \<in> set tps" "tasks m a = Some t"
    and root: "pd_root (mem m) (page_directory t) d" and on: "paging_enabled m" "cr3 m = d"
    and within: "writes_within (mem m) d P" and apart: "\<And>x. x \<in> set (concat (map snd tps)) \<Longrightarrow> 4096 + x \<notin> P"
  shows "\<exists>mm. user_run m ws = m\<lparr>mem := mm\<rparr> \<and> scheduler_inv (m\<lparr>mem := mm\<rparr>) A tps \<and> (\<forall>b. pn b \<notin> P \<longrightarrow> mm b = mem m b)"
proof -
  have "x \<in> set (concat (map snd tps))" if "x \<in> set pages" for x using a(1) that by force
  then have "tables_apart (mem m) d P"
    using directory_of_task [OF inv a root] apart unfolding tables_apart_def by metis
  then obtain mm where mm: "user_run m ws = m\<lparr>mem := mm\<rparr>" "\<forall>b. pn b \<notin> P \<longrightarrow> mm b = mem m b"
    using user_run_within [OF on _ within, of ws] root by (auto simp: pd_root_def)
  have "scheduler_inv (m\<lparr>mem := mm\<rparr>) A tps" by (rule scheduler_inv_pages [OF inv]) (use mm(2) apart in auto)
  then show ?thesis using mm by blast
qed

section \<open>Properties\<close>

text \<open>Every segment a program may write to ends in the last block of the file, its bss included.\<close>

definition segments_in_image :: "u8 list \<Rightarrow> bool" where
  "segments_in_image bs \<longleftrightarrow> (\<forall>ph\<in>set (phdrs_at (byte_mem bs) 0). p_flags ph AND PF_W \<noteq> 0 \<longrightarrow>
     unat (p_offset ph) + unat (p_memsz ph) \<le> 4096 * blocks_for (length bs))"

text \<open>What the tables of a started program let it write to.\<close>

lemma started_within:
  assumes st: "started m pp s f (length bs) r a d" and mem: "mem_bytes (mem m) (elf_mem f) (length bs) = bs"
    and len: "length bs < 2 ^ 32" and prog: "program_file bs" "segments_in_image bs"
    and q: "elf_mem f = block_addr q" "q + blocks_for (length bs) \<le> kheap_blocks" and r: "r + 4 \<le> kheap_blocks"
  shows "writes_within (mem m) d ({4096 + q..<4096 + q + blocks_for (length bs)} \<union> {4096 + r..<4096 + r + 4})"
proof -
  let ?ps = "phdrs_at (byte_mem bs) 0"
  have ps: "phdrs_at (mem m) (elf_mem f) = ?ps" by (rule file_in_mem(2) [OF mem len prog(1)])
  have f: "off (elf_mem f) = 0" "unat (elf_mem f) \<le> 2 ^ 30" using q by (simp_all add: unat_block_addr kheap_blocks_def)
  have fits: "seg_fits f ph" if "ph \<in> set ?ps" for ph using program_fits [OF prog(1) f(2) that] .
  then have ok: "\<forall>ph\<in>set ?ps. seg_ok f ph" using fits_seg(1) f(1) by blast
  have "seg_frames f ph \<subseteq> {4096 + q..<4096 + q + blocks_for (length bs)}" if "ph \<in> set ?ps" "p_flags ph AND PF_W \<noteq> 0" for ph
    using prog(2) that by (intro frames_in_image [OF fits q]) (simp_all add: segments_in_image_def)
  then have sub: "writeable_frames f ?ps r \<subseteq> {4096 + q..<4096 + q + blocks_for (length bs)} \<union> {4096 + r..<4096 + r + 4}"
    by (auto simp: writeable_frames_def)
  have "pd_entry (mem m) d va = address_space f ?ps r (\<lambda>a. a OR 5) (va AND 0xfffff000)" for va
    using st by (simp add: started_def ps)
  then have "writes_within (mem m) d (writeable_frames f ?ps r)"
    using address_space_within [OF ok off_mask r] by (simp add: writes_within_def)
  then show ?thesis using sub unfolding writes_within_def by blast
qed

text \<open>The stack can be written to.\<close>

lemma stack_store:
  assumes st: "started m pp s f n r a d" and j: "j < 16384"
  shows "user_store (switched m a d) (0x3FB000 + of_nat j) v = Inr ((switched m a d)\<lparr>mem := (mem m)(block_addr r + of_nat j := v)\<rparr>)"
proof -
  let ?m = "switched m a d" and ?va = "0x3FB000 + of_nat j :: u32"
  have on': "paging_enabled ?m" "cr3 ?m = d" using st by (simp_all add: started_def switched_def paging_load_directory_def)
  have pde: "load32 (mem ?m) (d + of_nat (4 * (pn ?va div 1024))) AND 7 = 7"
    using st pn_div_bound [of ?va] by (simp add: started_def dir_open_def)
  have "(w OR 7) AND 7 = 7" for w :: u32 by (rule bit_word_eqI) (auto simp: bit_simps)
  moreover have "pd_entry (mem ?m) d ?va = (block_addr r + ((?va AND 0xfffff000) - 0x3FB000)) OR 7"
    using st stack_pages [OF j] by (simp add: started_def address_space_def map_pages_def in_stack_def)
  ultimately have pte: "pd_entry (mem ?m) d ?va AND 7 = 7" by simp
  have "vtranslate ?m ?va = Inr (block_addr r + of_nat j)" using st j by (simp add: started_def)
  moreover have "dir_present (mem ?m) d" using st by (simp add: started_def dir_open_present)
  ultimately have "(pd_entry (mem ?m) d ?va AND 0xfffff000) + of_nat (off ?va) = block_addr r + of_nat j"
    using vtranslate_entry [OF on' _ present_of_open [OF pte]] by simp
  then show ?thesis unfolding user_store_walk [OF on'] using pde pte by simp
qed

text \<open>The frames of the image and of the stack.\<close>

definition program_frames :: "nat \<Rightarrow> nat \<Rightarrow> nat \<Rightarrow> nat set" where
  "program_frames q k r = {4096 + q..<4096 + q + k} \<union> {4096 + r..<4096 + r + 4}"

lemma in_program_frames: "pn b \<in> program_frames q k r \<longleftrightarrow> in_blocks q k b \<or> in_blocks r 4 b"
  by (auto simp: program_frames_def in_blocks_def)

lemma loaded_confined:
  fixes m :: "(FAT_FileDescriptor, 'a) task_state_scheme"
  assumes op: "openable m A path k slot" "slot < 511" and disk: "file_on_disk img m k cs bs" and prog: "program_file bs" "segments_in_image bs"
    and inv: "scheduler_inv m A tps" and on: "paging_enabled m"
    and s: "0 \<le> s" "s < 12" "length (processes m) = 12" "processes m ! nat s = 0"
    and top: "kh.used A \<subseteq> {..<t}" "t + 9 * blocks_for (length bs) + 1038 \<le> kheap_blocks"
  shows "\<exists>pp f r a pages A' d m' q. process_load_for_slot (fat16_fs img) m path process s = Inr (0, pp, m') \<and> pp \<noteq> 0 \<and>
    scheduler_inv m' A' (tps @ [(a, pages)]) \<and> started m' pp s f (length bs) r a d \<and>
    mem_bytes (mem m') (block_addr q) (length bs) = bs \<and> A' q = Some (blocks_for (length bs)) \<and> A' r = Some 4 \<and>
    writes_within (mem m') d (program_frames q (blocks_for (length bs)) r) \<and>
    (\<forall>x\<in>set (concat (map snd (tps @ [(a, pages)]))). x \<notin> {q, r} \<and> 4096 + x \<notin> program_frames q (blocks_for (length bs)) r) \<and>
    (\<exists>p. procs m' pp = Some p \<and> allocations p = allocations zero_process) \<and> same_kernel m m'"
proof -
  let ?k = "blocks_for (length bs)"
  from program_slot_ok [OF op disk prog(1) inv on s top, of process] obtain pp f r a pages A' d m' q where
    e: "process_load_for_slot (fat16_fs img) m path process s = Inr (0, pp, m')" "scheduler_inv m' A' (tps @ [(a, pages)])"
      "mem_bytes (mem m') (elf_mem f) (length bs) = bs" "started m' pp s f (length bs) r a d" "pp \<noteq> 0"
      "\<exists>p. procs m' pp = Some p \<and> allocations p = allocations zero_process" "same_kernel m m'"
    and q: "elf_mem f = block_addr q" "A' q = Some ?k" "A' r = Some 4" "q \<notin> set (concat (map snd tps)) \<union> set pages" by blast
  have "length bs \<le> length cs * cluster_bytes (fat_private m)" "length cs * cluster_bytes (fat_private m) < 2 ^ 31"
    using disk unfolding file_on_disk_def by blast+
  then have len: "length bs < 2 ^ 32" by simp
  have mi: "machine_inv m' A'" using e(2) by (simp add: scheduler_inv_def tasks_own_def)
  have w: "writes_within (mem m') d (program_frames q ?k r)" unfolding program_frames_def
    using started_within [OF e(4,3) len prog q(1)] machine_inv_bounds [OF mi q(2)] machine_inv_bounds [OF mi q(3)] by simp
  have apart: "x \<notin> {q, r} \<and> 4096 + x \<notin> program_frames q ?k r" if x: "x \<in> set (concat (map snd (tps @ [(a, pages)])))" for x
  proof -
    have one: "A' x = Some 1" using e(2) x by (auto simp: scheduler_inv_def tasks_own_def pages_own_def)
    have ne: "x \<noteq> q" "x \<noteq> r" using x one q(3,4) by auto
    then show ?thesis
      using live_runs_apart [OF mi one q(2)] live_runs_apart [OF mi one q(3)] by (auto simp: program_frames_def)
  qed
  have "mem_bytes (mem m') (block_addr q) (length bs) = bs" using e(3) q(1) by simp
  with e(1,2,4-7) q(2,3) w apart show ?thesis by blast
qed

text \<open>
  C6: a program cannot leave its own memory. After \<^verbatim>\<open>process_load_for_slot\<close> has made a process of a file of the root directory
  and the kernel has switched to its task, every run of user code, whatever it stores and wherever, changes no byte outside
  two live allocations of the kernel heap, the image of the file and the stack: the kernel, its heap table, the page tables,
  the other programs and the file's own task stay as they are, and the scheduler's invariant holds when the kernel is entered
  again. Both allocations are the program's alone, and the stack can be written to everywhere. The segments that can be written
  to have to end, with their bss, in the last block of the file, as the loader does not extend the image for them.
\<close>

theorem program_confined:
  fixes m :: "(FAT_FileDescriptor, 'a) task_state_scheme"
  assumes op: "openable m A path k slot" "slot < 511" and disk: "file_on_disk img m k cs bs" and prog: "program_file bs" "segments_in_image bs"
    and inv: "scheduler_inv m A tps" and on: "paging_enabled m"
    and s: "0 \<le> s" "s < 12" "length (processes m) = 12" "processes m ! nat s = 0"
    and top: "kh.used A \<subseteq> {..<t}" "t + 9 * blocks_for (length bs) + 1038 \<le> kheap_blocks"
  shows "\<exists>pp a pages A' q r m' m''. process_load_for_slot (fat16_fs img) m path process s = Inr (0, pp, m') \<and>
    task_switch m' a = Inr m'' \<and> A' q = Some (blocks_for (length bs)) \<and> A' r = Some 4 \<and> mem_bytes (mem m'') (block_addr q) (length bs) = bs \<and>
    {q, r} \<inter> set (concat (map snd (tps @ [(a, pages)]))) = {} \<and>
    (\<forall>j<16384. \<forall>v. user_store m'' (0x3FB000 + of_nat j) v = Inr (m''\<lparr>mem := (mem m'')(block_addr r + of_nat j := v)\<rparr>)) \<and>
    (\<forall>ws. \<exists>mm. user_run m'' ws = m''\<lparr>mem := mm\<rparr> \<and> scheduler_inv (m''\<lparr>mem := mm\<rparr>) A' (tps @ [(a, pages)]) \<and>
       (\<forall>b. \<not> in_blocks q (blocks_for (length bs)) b \<longrightarrow> \<not> in_blocks r 4 b \<longrightarrow> mm b = mem m'' b))"
proof -
  let ?k = "blocks_for (length bs)"
  from loaded_confined [OF assms, of process] obtain pp f r a pages A' d m' q where
    e: "process_load_for_slot (fat16_fs img) m path process s = Inr (0, pp, m')" "scheduler_inv m' A' (tps @ [(a, pages)])"
      "started m' pp s f (length bs) r a d" "mem_bytes (mem m') (block_addr q) (length bs) = bs" "A' q = Some ?k" "A' r = Some 4"
      "writes_within (mem m') d (program_frames q ?k r)"
    and apart: "\<forall>x\<in>set (concat (map snd (tps @ [(a, pages)]))). x \<notin> {q, r} \<and> 4096 + x \<notin> program_frames q ?k r"
    by (elim exE conjE) (rule that, assumption+)
  let ?m = "switched m' a d" and ?tps = "tps @ [(a, pages)]"
  have on': "paging_enabled ?m" "cr3 ?m = d" using e(3) by (simp_all add: started_def switched_def paging_load_directory_def)
  obtain tk where tk: "tasks m' a = Some tk" "pd_root (mem m') (page_directory tk) d" using e(3) unfolding started_def by blast
  have inv': "scheduler_inv ?m A' ?tps" by (rule scheduler_inv_switch [OF e(2)]) simp
  have "\<exists>mm. user_run ?m ws = ?m\<lparr>mem := mm\<rparr> \<and> scheduler_inv (?m\<lparr>mem := mm\<rparr>) A' ?tps \<and>
      (\<forall>b. pn b \<notin> program_frames q ?k r \<longrightarrow> mm b = mem ?m b)" for ws
  proof (rule confined_run [OF inv' _ _ _ on'])
    show "(a, pages) \<in> set ?tps" "tasks ?m a = Some tk" "pd_root (mem ?m) (page_directory tk) d" using tk by simp_all
    show "writes_within (mem ?m) d (program_frames q ?k r)" using e(7) by simp
    show "4096 + x \<notin> program_frames q ?k r" if "x \<in> set (concat (map snd ?tps))" for x using apart that by blast
  qed
  then have "\<forall>ws. \<exists>mm. user_run ?m ws = ?m\<lparr>mem := mm\<rparr> \<and> scheduler_inv (?m\<lparr>mem := mm\<rparr>) A' ?tps \<and>
      (\<forall>b. \<not> in_blocks q ?k b \<longrightarrow> \<not> in_blocks r 4 b \<longrightarrow> mm b = mem ?m b)"
    unfolding in_program_frames by blast
  moreover have "task_switch m' a = Inr ?m" using e(3) unfolding started_def by blast
  moreover have "\<forall>j<16384. \<forall>v. user_store ?m (0x3FB000 + of_nat j) v = Inr (?m\<lparr>mem := (mem ?m)(block_addr r + of_nat j := v)\<rparr>)"
    using stack_store [OF e(3)] by simp
  moreover have "{q, r} \<inter> set (concat (map snd ?tps)) = {}" "mem_bytes (mem ?m) (block_addr q) (length bs) = bs"
    using apart e(4) by auto
  ultimately show ?thesis using e(1,5,6) by blast
qed

text \<open>The program of the demonstration disk writes to its stack and cannot write to the page at 0x1000.\<close>

theorem program_confined_witness:
  "\<exists>(m :: FAT_FileDescriptor task_state) pp a m' m''.
     process_load_for_slot (fat16_fs exe_img) m demo_file_path 0 0 = Inr (0, pp, m') \<and> task_switch m' a = Inr m'' \<and>
     (\<exists>m3. user_store m'' 0x3FB000 7 = Inr m3) \<and> mem (user_run m'' [(0x3FB000, 7), (0x1000, 1)]) 0x1000 = mem m'' 0x1000"
proof -
  obtain m :: "FAT_FileDescriptor task_state" where m: "openable m Map.empty demo_file_path 0 0" "scheduler_inv m Map.empty []"
    "fat_private m = exe_private" "paging_enabled m" "processes m = replicate 12 0" using exe_machine by blast
  have t: "kh.used Map.empty \<subseteq> {..<0}" "0 + 9 * blocks_for (length demo_exe) + 1038 \<le> kheap_blocks"
    by (simp_all add: demo_exe_headers(1) blocks_for_def kheap_blocks_def)
  have s: "0 \<le> (0 :: int)" "(0 :: int) < 12" "length (processes m) = 12" "processes m ! nat 0 = 0" using m(5) by simp_all
  have seg: "segments_in_image demo_exe" by (simp add: segments_in_image_def demo_exe_headers exe_phdr_def blocks_for_def)
  have sl: "(0 :: nat) < 511" by simp
  from program_confined [OF m(1) sl exe_on_disk [OF m(3)] demo_exe_program seg m(2,4) s t, of 0] obtain pp a pages A' q r m' m'' where
    r: "process_load_for_slot (fat16_fs exe_img) m demo_file_path 0 0 = Inr (0, pp, m')" "task_switch m' a = Inr m''"
      "\<forall>j<16384. \<forall>v. user_store m'' (0x3FB000 + of_nat j) v = Inr (m''\<lparr>mem := (mem m'')(block_addr r + of_nat j := v)\<rparr>)"
      "\<forall>ws. \<exists>mm. user_run m'' ws = m''\<lparr>mem := mm\<rparr> \<and> scheduler_inv (m''\<lparr>mem := mm\<rparr>) A' ([] @ [(a, pages)]) \<and>
         (\<forall>b. \<not> in_blocks q (blocks_for (length demo_exe)) b \<longrightarrow> \<not> in_blocks r 4 b \<longrightarrow> mm b = mem m'' b)"
    by (elim exE conjE) (rule that, assumption+)
  have "\<exists>m3. user_store m'' 0x3FB000 7 = Inr m3" using r(3) [rule_format, of 0 7] by auto
  moreover have "\<not> in_blocks s k 0x1000" for s k by (simp add: in_blocks_def pn_def)
  then have "mem (user_run m'' ws) 0x1000 = mem m'' 0x1000" for ws using r(4) [rule_format, of ws] by auto
  ultimately show ?thesis using r(1,2) by blast
qed

end
