(* ===== verification/HeapBound.thy ===== *)
theory HeapBound
  imports Isolation
begin

text \<open>
  How far the allocations of the kernel reach: first fit keeps the live blocks below a bound that grows by the blocks that
  \<^verbatim>\<open>paging_new\<close> and \<^verbatim>\<open>task_new\<close> take.
\<close>

section \<open>How far allocations reach\<close>

definition heap_below :: "'a machine_scheme \<Rightarrow> nat \<Rightarrow> bool" where
  "heap_below m n \<longleftrightarrow> (\<exists>A. machine_inv m A \<and> kh.used A \<subseteq> {..<n})"

lemma heap_below_used:
  assumes b: "heap_below m n" and inv: "machine_inv m A" shows "kh.used A \<subseteq> {..<n}"
proof
  fix i assume i: "i \<in> kh.used A"
  obtain B where B: "machine_inv m B" "kh.used B \<subseteq> {..<n}" using b by (auto simp: heap_below_def)
  let ?es = "entries (table (kernel_heap m))"
  have rA: "heap_rep ?es A" and rB: "heap_rep ?es B" using inv B(1) by (simp_all add: machine_inv_def heap_inv_def)
  obtain s k where c: "covers A s k i" using i by (auto simp: kh.used_def)
  have l: "i < length ?es" using heap_rep_bounds [OF rA, of s k] c by (auto simp: covers_def)
  then have "?es ! i = block_tag s k i" using rA c by (simp add: heap_rep_def)
  then have "?es ! i \<noteq> 0" using block_tag_taken [of s k i] by (auto simp: heap_get_entry_type_def)
  then have "i \<in> kh.used B" using rB l by (auto simp: heap_rep_def kh.used_def)
  then show "i \<in> {..<n}" using B(2) by blast
qed

lemma heap_below_same: "heap_below m n \<Longrightarrow> kernel_heap m' = kernel_heap m \<Longrightarrow> heap_below m' n"
  by (auto simp: heap_below_def machine_inv_def)

lemma heap_below_kzalloc:
  assumes "heap_below m n" and "n < kheap_blocks" and "0 < unat sz" "unat sz \<le> 4096" and run: "kzalloc m sz = Inr (p, m')"
  shows "heap_below m' (Suc n)" "p \<noteq> 0"
proof -
  obtain A where A: "machine_inv m A" "kh.used A \<subseteq> {..<n}" using assms(1) by (auto simp: heap_below_def)
  have b: "blocks_for (unat sz) = 1" using assms(3,4) by (intro blocks_for_eq) simp_all
  have "unat sz \<le> 2 ^ 32 - 4096" "n + 1 \<le> kheap_blocks" "\<forall>i. n \<le> i \<and> i < n + 1 \<longrightarrow> i \<notin> kh.used A" using assms(2,4) A(2) by auto
  from kzalloc_run [OF A(1) assms(3), unfolded b, OF this] obtain r m1 where
    r: "kzalloc m sz = Inr (block_addr r, m1)" "machine_inv m1 (A(r \<mapsto> 1))" "block_addr r \<noteq> 0" "r \<le> n" by blast
  have "kh.used (A(r \<mapsto> 1)) \<subseteq> {..<Suc n}" using used_top [of A r 1] A(2) r(4) by fastforce
  then show "heap_below m' (Suc n)" "p \<noteq> 0" using r run by (auto simp: heap_below_def)
qed

lemma wwrite_heap: "wwrite m b i v = Inr m' \<Longrightarrow> kernel_heap m' = kernel_heap m"
  by (auto simp: wwrite_def split: if_splits)

lemma paging_new_entries_heap: "paging_new_entries m e o' fl n = Inr m' \<Longrightarrow> kernel_heap m' = kernel_heap m"
  by (induction n arbitrary: m') (auto dest: wwrite_heap)

lemma heap_below_tables:
  "paging_new_tables m dir fl k = Inr (o', m') \<Longrightarrow> heap_below m n \<Longrightarrow> n + k \<le> kheap_blocks \<Longrightarrow> heap_below m' (n + k)"
proof (induction k arbitrary: o' m')
  case (Suc k)
  have u: "0 < unat (of_nat (4 * PAGING_TOTAL_ENTRIES_PER_TABLE) :: u32)" "unat (of_nat (4 * PAGING_TOTAL_ENTRIES_PER_TABLE) :: u32) \<le> 4096"
    by (simp_all add: PAGING_TOTAL_ENTRIES_PER_TABLE_def)
  obtain o1 m1 e m2 m3 where
    r: "paging_new_tables m dir fl k = Inr (o1, m1)" "kzalloc m1 (of_nat (4 * PAGING_TOTAL_ENTRIES_PER_TABLE)) = Inr (e, m2)"
      "paging_new_entries m2 e o1 fl PAGING_TOTAL_ENTRIES_PER_TABLE = Inr m3"
      "wwrite m3 dir k (e OR ucast fl OR PAGING_IS_WRITEABLE) = Inr m'"
    using Suc.prems(1) by fastforce
  have "heap_below m1 (n + k)" using Suc.IH [OF r(1) Suc.prems(2)] Suc.prems(3) by simp
  then have "heap_below m2 (Suc (n + k))" using heap_below_kzalloc(1) [OF _ _ u r(2)] Suc.prems(3) by simp
  then show ?case
    using heap_below_same [of m2 "Suc (n + k)" m'] paging_new_entries_heap [OF r(3)] wwrite_heap [OF r(4)] by simp
qed simp

lemma heap_below_paging_new:
  assumes run: "paging_new m fl = Inr (pd, m')" and b: "heap_below m n" "n + 1026 \<le> kheap_blocks"
  shows "heap_below m' (n + 1026)" "pd \<noteq> 0"
proof -
  have u: "0 < unat (of_nat (4 * PAGING_TOTAL_ENTRIES_PER_TABLE) :: u32)" "unat (of_nat (4 * PAGING_TOTAL_ENTRIES_PER_TABLE) :: u32) \<le> 4096"
    "0 < unat (4 :: u32)" "unat (4 :: u32) \<le> 4096" by (simp_all add: PAGING_TOTAL_ENTRIES_PER_TABLE_def)
  obtain d m1 o' m2 m3 where
    r: "kzalloc m (of_nat (4 * PAGING_TOTAL_ENTRIES_PER_TABLE)) = Inr (d, m1)" "paging_new_tables m1 d fl PAGING_TOTAL_ENTRIES_PER_TABLE = Inr (o', m2)"
      "kzalloc m2 4 = Inr (pd, m3)" "wwrite m3 pd 0 d = Inr m'"
    using run by (fastforce simp: paging_new_def)
  have "heap_below m1 (Suc n)" using heap_below_kzalloc(1) [OF b(1) _ u(1,2) r(1)] b(2) by simp
  from heap_below_tables [OF r(2) this] have "heap_below m2 (Suc n + 1024)"
    using b(2) by (simp add: PAGING_TOTAL_ENTRIES_PER_TABLE_def)
  from heap_below_kzalloc [OF this _ u(3,4) r(3)] have "heap_below m3 (Suc (Suc n + 1024))" "pd \<noteq> 0" using b(2) by simp_all
  moreover have "Suc (Suc n + 1024) = n + 1026" by simp
  ultimately show "heap_below m' (n + 1026)" "pd \<noteq> 0"
    using heap_below_same [of m3 "n + 1026" m'] wwrite_heap [OF r(4)] by (simp_all add: add.commute)
qed

lemma heap_below_task_new:
  assumes run: "task_new m process = Inr (a, m')" and b: "heap_below m n" "n + 1027 \<le> kheap_blocks"
  shows "heap_below m' (n + 1027)"
proof -
  have u: "0 < unat (64 :: u32)" "unat (64 :: u32) \<le> 4096" by simp_all
  obtain task m1 where k: "kzalloc m 64 = Inr (task, m1)" using run by (auto simp: task_new_def)
  have b1: "heap_below m1 (Suc n)" "task \<noteq> 0" using heap_below_kzalloc [OF b(1) _ u k] b(2) by simp_all
  obtain res m2 where i: "task_init m1 task process = Inr (res, m2)" using run k b1(2) by (auto simp: task_new_def)
  obtain pd m3 where pg: "paging_new m1 (ucast (PAGING_IS_PRESENT OR PAGING_ACCESS_FROM_ALL)) = Inr (pd, m3)"
    using i by (auto simp: task_init_def)
  have b3: "heap_below m3 (Suc n + 1026)" "pd \<noteq> 0" using heap_below_paging_new [OF pg b1(1)] b(2) by simp_all
  have m2: "kernel_heap m2 = kernel_heap m3" "res = 0" using i pg b3(2) by (auto simp: task_init_def Let_def)
  have "kernel_heap m' = kernel_heap m2"
    using run k i b1(2) m2(2) by (auto simp: task_new_def BIMBLEOS_ALL_OK_def Let_def split: if_splits)
  moreover have "Suc n + 1026 = n + 1027" by simp
  ultimately show ?thesis using heap_below_same [of m3 "n + 1027" m'] b3(1) m2(1) by (simp add: add.commute)
qed

end
