(* ===== verification/ProcessEnd.thy ===== *)
theory ProcessEnd
  imports ProcessMem
begin

text \<open>
  The end of a process (\<^verbatim>\<open>process_terminate\<close>): which blocks of the kernel heap it gives back, and what is left of the
  scheduler's queue and of the process table. Then the command line arguments and programs that are not ELF files.
\<close>

section \<open>Termination of a process\<close>

text \<open>
  A process with its task in the queue: \<open>bs\<close> are the blocks of the ELF image, of its \<^verbatim>\<open>Elf_file\<close> and of the stack. None of
  them, of the allocations and of the pages of tasks is another.
\<close>

definition loaded_process ::
  "('p, 'a) task_state_scheme \<Rightarrow> live \<Rightarrow> u32 \<Rightarrow> Process \<Rightarrow> Task \<Rightarrow> u32 \<Rightarrow> (u32 \<times> nat list) list \<Rightarrow> nat list \<Rightarrow> bool" where
  "loaded_process m A process p t dir tps bs \<longleftrightarrow> process_inv m A process p t dir \<and> scheduler_inv m A tps \<and>
     filetype p = PROCESS_FILETYPE_ELF \<and>
     (\<exists>f. image p = ElfImage f \<and> map block_addr bs = [elf_mem f, elf_addr f, proc_stack p]) \<and> distinct bs \<and>
     (\<forall>b\<in>set bs. A b \<noteq> None \<and> b \<notin> set (concat (map snd tps)) \<and> block_addr b \<notin> alloc_ptr ` set (allocations p)) \<and>
     (\<forall>b\<in>set (concat (map snd tps)). block_addr b \<notin> alloc_ptr ` set (allocations p)) \<and>
     unat (proc_id p) < length (processes m) \<and> processes m ! unat (proc_id p) = process"

lemma kfree_other:
  assumes "machine_inv m A" and "A s \<noteq> None"
  shows "\<exists>h'. kfree m (block_addr s) = Inr (m\<lparr>kernel_heap := h'\<rparr>) \<and> machine_inv (m\<lparr>kernel_heap := h'\<rparr>) (A(s := None))"
  using kfree_live [OF assms(1)] assms(2) by blast

lemma free_program_data_ok:
  assumes inv: "machine_inv m A" and p: "deref (procs m) process = Inr p" "filetype p = PROCESS_FILETYPE_ELF"
    "image p = ElfImage f" "elf_mem f = block_addr b1" "elf_addr f = block_addr b2"
    and live: "A b1 \<noteq> None" "A b2 \<noteq> None" "b1 \<noteq> b2"
  shows "\<exists>h'. process_free_program_data m process = Inr (0, m\<lparr>kernel_heap := h'\<rparr>) \<and>
    machine_inv (m\<lparr>kernel_heap := h'\<rparr>) (A(b1 := None, b2 := None))"
proof -
  from kfree_other [OF inv live(1)] obtain h1 where h1: "kfree m (block_addr b1) = Inr (m\<lparr>kernel_heap := h1\<rparr>)"
    "machine_inv (m\<lparr>kernel_heap := h1\<rparr>) (A(b1 := None))" by blast
  have "(A(b1 := None)) b2 \<noteq> None" using live by simp
  from kfree_other [OF h1(2) this] obtain h2 where
    "kfree (m\<lparr>kernel_heap := h1\<rparr>) (block_addr b2) = Inr (m\<lparr>kernel_heap := h1\<rparr>\<lparr>kernel_heap := h2\<rparr>)"
    "machine_inv (m\<lparr>kernel_heap := h1\<rparr>\<lparr>kernel_heap := h2\<rparr>) (A(b1 := None, b2 := None))" by blast
  then show ?thesis
    using h1(1) p by (intro exI [of _ h2]) (simp add: process_free_program_data_def process_free_elf_data_def
        elf_close_def PROCESS_FILETYPE_ELF_def PROCESS_FILETYPE_BINARY_def)
qed

text \<open>
  The footprints of the tasks survive the changes of the page tables of one of them.
\<close>

lemma footprint_tables_only:
  assumes own: "tasks_own m A tps" and a: "(a, pages) \<in> set tps" and t: "tasks m a = Some t"
    and root: "pd_root (mem m) (page_directory t) dir"
    and frame: "tables_only dir (mem m) mm" and root': "pd_root mm (page_directory t) dir"
    and st: "tasks m' = tasks m" "mem m' = mm"
    and b: "(b, pgs) \<in> set tps" "b = a \<Longrightarrow> pgs = pages"
      "b \<noteq> a \<Longrightarrow> set pgs \<inter> set pages = {}"
  shows "task_footprint m' b pgs"
proof -
  from own a obtain s p d ts where g: "pages = s # p # d # ts" "a = block_addr s"
    "map_option page_directory (tasks m a) = Some (block_addr p)" "length ts = 1024"
    "load32 (mem m) (block_addr p) = block_addr d" "\<forall>i<1024. table_of (mem m) (block_addr d) i = block_addr (ts ! i)"
    unfolding tasks_own_def task_footprint_def by fastforce
  have dir: "dir = block_addr d" "page_directory t = block_addr p" using root g(3,5) t by (simp_all add: pd_root_def)
  have live: "\<forall>x\<in>set pages. x < kheap_blocks"
    using own a pages_own_bound [of m A "map snd tps" pages] by (force simp: tasks_own_def)
  show ?thesis
  proof (cases "b = a")
    case True
    have "load32 mm (block_addr p) = block_addr d" using root' dir by (simp add: pd_root_def)
    moreover have "\<forall>i<1024. table_of mm (block_addr d) i = block_addr (ts ! i)"
      using frame g(6) by (simp add: tables_only_def dir)
    ultimately show ?thesis using True b(2) g st unfolding task_footprint_def by auto
  next
    case False
    show ?thesis
    proof (rule task_footprint_more [OF own b(1)])
      fix c x assume x: "x \<in> set pgs" "pn c = 4096 + x"
      have "pn c \<noteq> pn (table_of (mem m) dir i)" if "i < 1024" for i
      proof -
        have "ts ! i \<in> set pages" using that g(1,4) by simp
        then have "ts ! i \<noteq> x" "ts ! i \<le> kheap_blocks" using b(3) [OF False] x(1) live by auto
        then show ?thesis using g(6) that x(2) by (simp add: dir)
      qed
      then show "mem m' c = mem m c" using frame by (simp add: tables_only_def st)
    qed (simp add: st)
  qed
qed

text \<open>What is freed: the allocations, the blocks \<open>bs\<close> and the pages of the task.\<close>

definition released :: "live \<Rightarrow> ProcessAllocation list \<Rightarrow> nat list \<Rightarrow> live" where
  "released A as bs = drop_pages (drop_allocs A as) bs"

lemma terminate_memory_ok:
  assumes l: "loaded_process m A process p t dir (xs @ (proc_task p, pages) # ys) bs"
  shows "\<exists>m1 m2 m3. process_terminate_allocations m process = Inr (0, m1) \<and>
    process_free_program_data m1 process = Inr (0, m2) \<and> deref (procs m2) process = Inr (cleared p 1024) \<and>
    kfree m2 (proc_stack p) = Inr m3 \<and>
    scheduler_inv m3 (released A (allocations p) bs) (xs @ (proc_task p, pages) # ys) \<and>
    procs m3 = (procs m)(process \<mapsto> cleared p 1024) \<and> processes m3 = processes m \<and>
    current_process m3 = current_process m"
proof -
  let ?tps = "xs @ (proc_task p, pages) # ys" and ?a = "proc_task p"
  let ?A1 = "drop_allocs A (allocations p)"
  have inv: "process_inv m A process p t dir" and sched: "scheduler_inv m A ?tps" and ft: "filetype p = PROCESS_FILETYPE_ELF"
    using l by (simp_all add: loaded_process_def)
  obtain f b1 b2 b3 where img: "image p = ElfImage f" and bs: "bs = [b1, b2, b3]"
    "block_addr b1 = elf_mem f" "block_addr b2 = elf_addr f" "block_addr b3 = proc_stack p"
    using l by (auto simp: loaded_process_def Cons_eq_map_conv)
  have bd: "b1 \<noteq> b2" "b1 \<noteq> b3" "b2 \<noteq> b3" "\<And>b. b \<in> set bs \<Longrightarrow> ?A1 b \<noteq> None \<and> b \<notin> set (concat (map snd ?tps))"
    using l bs(1) unfolding loaded_process_def drop_allocs_def by auto
  have len: "length (allocations p) = 1024" using inv by (auto simp: process_inv_def dest: allocs_own_length)
  from terminate_loop_ok [OF inv order_refl] len obtain h1 mm where
    run1: "terminate_allocations_loop m process 1024 =
      Inr (set_proc (m\<lparr>kernel_heap := h1, mem := mm\<rparr>) process (cleared p 1024))"
    and inv1: "process_inv (set_proc (m\<lparr>kernel_heap := h1, mem := mm\<rparr>) process (cleared p 1024)) ?A1 process (cleared p 1024) t dir"
    and frame: "tables_only dir (mem m) mm" by auto
  define m1 where "m1 = set_proc (m\<lparr>kernel_heap := h1, mem := mm\<rparr>) process (cleared p 1024)"
  have inv1': "process_inv m1 ?A1 process (cleared p 1024) t dir" using inv1 by (simp only: m1_def)
  have mi1: "machine_inv m1 ?A1" and dp1: "deref (procs m1) process = Inr (cleared p 1024)"
    and d1: "dir_inv mm ?A1 (page_directory t) dir"
    using inv1' by (simp_all add: process_inv_def) (simp add: m1_def)
  have p1: "filetype (cleared p 1024) = PROCESS_FILETYPE_ELF" "image (cleared p 1024) = ElfImage f"
    using ft img by (simp_all add: cleared_def)
  from free_program_data_ok [OF mi1 dp1 p1 bs(2) [symmetric] bs(3) [symmetric]] bd bs(1) obtain h2 where
    run2: "process_free_program_data m1 process = Inr (0, m1\<lparr>kernel_heap := h2\<rparr>)"
    and mi2: "machine_inv (m1\<lparr>kernel_heap := h2\<rparr>) (?A1(b1 := None, b2 := None))" by auto
  have "(?A1(b1 := None, b2 := None)) b3 \<noteq> None" using bd bs(1) by simp
  from kfree_other [OF mi2 this] obtain h3 where
    "kfree (m1\<lparr>kernel_heap := h2\<rparr>) (block_addr b3) = Inr (m1\<lparr>kernel_heap := h2\<rparr>\<lparr>kernel_heap := h3\<rparr>)"
    "machine_inv (m1\<lparr>kernel_heap := h2\<rparr>\<lparr>kernel_heap := h3\<rparr>) (?A1(b1 := None, b2 := None, b3 := None))" by blast
  then have run3: "kfree (m1\<lparr>kernel_heap := h2\<rparr>) (proc_stack p) = Inr (m1\<lparr>kernel_heap := h3\<rparr>)"
    and mi3: "machine_inv (m1\<lparr>kernel_heap := h3\<rparr>) (?A1(b1 := None, b2 := None, b3 := None))"
    unfolding bs(4) by simp_all
  let ?m3 = "m1\<lparr>kernel_heap := h3\<rparr>"
  have A3: "?A1(b1 := None, b2 := None, b3 := None) = released A (allocations p) bs"
    by (auto simp: released_def drop_pages_def bs(1))
  have keep: "released A (allocations p) bs x = A x" if "x \<in> set (concat (map snd ?tps))" for x
    using l that unfolding released_def drop_pages_def drop_allocs_def loaded_process_def by auto
  have own: "tasks_own m A ?tps" and q: "task_queue m (map fst ?tps)" using sched by (simp_all add: scheduler_inv_def)
  have t: "tasks m ?a = Some t" using inv by (auto simp: process_inv_def deref_def split: if_splits option.splits)
  have roots: "pd_root (mem m) (page_directory t) dir" "pd_root mm (page_directory t) dir"
    using inv d1 by (simp_all add: process_inv_def dir_inv_def)
  have po: "pages_own A (map snd ?tps)" using own by (simp add: tasks_own_def)
  have "task_footprint ?m3 b pgs" if b: "(b, pgs) \<in> set ?tps" for b pgs
  proof (rule footprint_tables_only [OF own _ t roots(1) frame roots(2) _ _ b])
    show "(?a, pages) \<in> set ?tps" by simp
    show "tasks ?m3 = tasks m" "mem ?m3 = mm" by (simp_all add: m1_def)
    have "distinct (map fst ?tps)" using q by (simp add: task_queue_def run_queue_def)
    then show "pgs = pages" if "b = ?a" using b that by (metis \<open>(?a, pages) \<in> set ?tps\<close> eq_key_imp_eq_value)
    show "set pgs \<inter> set pages = {}" if "b \<noteq> ?a"
      using b that po by (fastforce simp: pages_own_def)
  qed
  moreover have "pages_own (released A (allocations p) bs) (map snd ?tps)" using po keep by (simp add: pages_own_def)
  moreover have "task_queue ?m3 (map fst ?tps)" using q by (simp add: m1_def task_queue_def run_queue_def)
  ultimately have "scheduler_inv ?m3 (released A (allocations p) bs) ?tps"
    using mi3 unfolding A3 by (auto simp: scheduler_inv_def tasks_own_def)
  moreover have "process_terminate_allocations m process = Inr (0, m1)"
    using run1 by (simp add: process_terminate_allocations_def BIMBLEOS_MAX_PROGRAM_ALLOCATIONS_def m1_def)
  ultimately show ?thesis
    using run2 run3 dp1 by (intro exI [of _ m1] exI [of _ "m1\<lparr>kernel_heap := h2\<rparr>"] exI [of _ ?m3]) (simp add: m1_def)
qed

text \<open>All of \<^verbatim>\<open>process_terminate\<close> up to the process table.\<close>

lemma process_terminate_unlink:
  assumes l: "loaded_process m A process p t dir (xs @ (proc_task p, pages) # ys) bs"
  shows "\<exists>m4. process_terminate m process = bindE (process_unlink m4 process) (\<lambda>m5. Inr (0, m5)) \<and>
    run_queue m4 (map fst (xs @ ys)) \<and>
    tasks_own m4 (drop_pages (released A (allocations p) bs) pages) (xs @ ys) \<and>
    deref (procs m4) process = Inr (cleared p 1024) \<and> processes m4 = processes m \<and> current_process m4 = current_process m"
proof -
  from terminate_memory_ok [OF l] obtain m1 m2 m3 where
    run: "process_terminate_allocations m process = Inr (0, m1)" "process_free_program_data m1 process = Inr (0, m2)"
      "deref (procs m2) process = Inr (cleared p 1024)" "kfree m2 (proc_stack p) = Inr m3"
    and sched: "scheduler_inv m3 (released A (allocations p) bs) (xs @ (proc_task p, pages) # ys)"
    and st: "procs m3 = (procs m)(process \<mapsto> cleared p 1024)" "processes m3 = processes m"
      "current_process m3 = current_process m" by blast
  have c: "proc_stack (cleared p 1024) = proc_stack p" "proc_task (cleared p 1024) = proc_task p"
    by (simp_all add: cleared_def)
  from task_free_inv [OF sched] obtain m4 where
    f: "task_free m3 (proc_task p) = Inr (0, m4)" "run_queue m4 (map fst (xs @ ys))"
      "tasks_own m4 (drop_pages (released A (allocations p) bs) pages) (xs @ ys)"
    and eq: "m4 = (removed m3 (map fst xs) (proc_task p) (map fst ys))\<lparr>kernel_heap := kernel_heap m4, tasks := tasks m4\<rparr>"
    by blast
  have "procs m4 = procs m3" "processes m4 = processes m3" "current_process m4 = current_process m3"
    by (subst eq, simp add: removed_def)+
  moreover have "process \<noteq> 0" using l by (auto simp: loaded_process_def process_inv_def deref_def)
  ultimately have "deref (procs m4) process = Inr (cleared p 1024)" "processes m4 = processes m"
    "current_process m4 = current_process m" using st by (simp_all add: deref_def)
  moreover have "process_terminate m process = bindE (process_unlink m4 process) (\<lambda>m5. Inr (0, m5))"
    by (simp add: process_terminate_def run f c)
  ultimately show ?thesis using f(2,3) by blast
qed

lemma terminate_slot:
  assumes "loaded_process m A process p t dir tps bs"
  shows "unat (proc_id p) < length (processes m)" and "proc_id (cleared p 1024) = proc_id p"
  using assms by (simp_all add: loaded_process_def cleared_def)

lemma switch_to_any_ok:
  assumes "\<exists>q\<in>set (processes m). q \<noteq> 0"
  shows "\<exists>q\<in>set (processes m). q \<noteq> 0 \<and> process_switch_to_any m = Inr (m\<lparr>current_process := q\<rparr>)"
proof -
  obtain i where i: "first_slot (\<lambda>p. p \<noteq> 0) (processes m) 0 = Some i"
    using assms first_slot_None [of "\<lambda>p. p \<noteq> 0" "processes m" 0] by (cases "first_slot (\<lambda>p. p \<noteq> 0) (processes m) 0") auto
  with first_slot_0 [OF i] show ?thesis
    by (intro bexI [of _ "processes m ! i"]) (simp_all add: process_switch_to_any_def process_switch_def)
qed

lemma switch_to_any_none:
  "\<forall>q\<in>set (processes m). q = 0 \<Longrightarrow> process_switch_to_any m = Inl (Panic (c_line ''No processes to switch too''))"
  using first_slot_None [of "\<lambda>p. p \<noteq> 0" "processes m" 0] by (simp add: process_switch_to_any_def)

section \<open>A process to end\<close>

definition demo_elf_proc :: "u32 \<Rightarrow> u32 \<Rightarrow> u32 \<Rightarrow> u32 \<Rightarrow> Process" where
  "demo_elf_proc task b1 b2 b3 = (demo_proc task)\<lparr>filetype := PROCESS_FILETYPE_ELF, proc_stack := b3,
     image := ElfImage \<lparr>elf_addr = b2, elf_filename = [], in_memory_size = 0, elf_mem = b1, virtual_base_address = 0,
       virtual_end_address = 0, physical_base_address = 0, physical_end_address = 0\<rparr>\<rparr>"

lemma demo_blocks:
  "\<exists>(m :: 'p task_state) b1 b2 b3. scheduler_inv m (Map.empty(b1 \<mapsto> 1, b2 \<mapsto> 1, b3 \<mapsto> 1)) [] \<and>
     deref (procs m) 0x5000 = Inr demo_process \<and> distinct [b1, b2, b3]"
proof -
  obtain m0 :: "'p task_state" where m0: "scheduler_inv m0 Map.empty []" "deref (procs m0) 0x5000 = Inr demo_process"
    using demo_scheduler by blast
  have u: "card (kh.used Map.empty) < kheap_blocks" by (simp add: kheap_blocks_def)
  have mi0: "machine_inv m0 Map.empty" using m0(1) by (simp add: scheduler_inv_def tasks_own_def)
  from kzalloc_page [OF mi0 _ _ u, of 1] obtain b1 h1 mm1 where
    s1: "machine_inv (m0\<lparr>kernel_heap := h1, mem := mm1\<rparr>) (Map.empty(b1 \<mapsto> 1))" "kh.used (Map.empty(b1 \<mapsto> 1)) = {b1}" by auto
  have u1: "card (kh.used (Map.empty(b1 \<mapsto> 1))) < kheap_blocks" unfolding s1(2) by (simp add: kheap_blocks_def)
  from kzalloc_page [OF s1(1) _ _ u1, of 1] obtain b2 h2 mm2 where
    s2: "machine_inv (m0\<lparr>kernel_heap := h2, mem := mm2\<rparr>) (Map.empty(b1 \<mapsto> 1, b2 \<mapsto> 1))"
      "kh.used (Map.empty(b1 \<mapsto> 1, b2 \<mapsto> 1)) = {b2, b1}" "b2 \<noteq> b1" unfolding s1(2) by auto
  have u2: "card (kh.used (Map.empty(b1 \<mapsto> 1, b2 \<mapsto> 1))) < kheap_blocks"
    unfolding s2(2) using s2(3) by (simp add: kheap_blocks_def)
  from kzalloc_page [OF s2(1) _ _ u2, of 1] obtain b3 h3 mm3 where
    s3: "machine_inv (m0\<lparr>kernel_heap := h3, mem := mm3\<rparr>) (Map.empty(b1 \<mapsto> 1, b2 \<mapsto> 1, b3 \<mapsto> 1))"
      "b3 \<noteq> b1" "b3 \<noteq> b2" unfolding s2(2) by auto
  have "scheduler_inv (m0\<lparr>kernel_heap := h3, mem := mm3\<rparr>) (Map.empty(b1 \<mapsto> 1, b2 \<mapsto> 1, b3 \<mapsto> 1)) []"
    using m0(1) s3(1) by (simp add: scheduler_inv_def tasks_own_def pages_own_def)
  then show ?thesis
    using m0(2) s2(3) s3(2,3)
    by (intro exI [of _ "m0\<lparr>kernel_heap := h3, mem := mm3\<rparr>"] exI [of _ b1] exI [of _ b2] exI [of _ b3]) simp
qed

lemma demo_loaded:
  "\<exists>(m :: 'p task_state) A p t dir pages bs. loaded_process m A 0x5000 p t dir ([] @ (proc_task p, pages) # []) bs \<and>
     proc_id p = 0 \<and> processes m = others \<and> current_process m = cur \<and> allocations p = replicate 1024 no_allocation"
  if others: "others \<noteq> []" "hd others = 0x5000"
proof -
  obtain m0 :: "'p task_state" and b1 b2 b3 where
    m0: "scheduler_inv m0 (Map.empty(b1 \<mapsto> 1, b2 \<mapsto> 1, b3 \<mapsto> 1)) []" "deref (procs m0) 0x5000 = Inr demo_process"
      "distinct [b1, b2, b3]" using demo_blocks by blast
  let ?B = "Map.empty(b1 \<mapsto> 1, b2 \<mapsto> 1, b3 \<mapsto> 1) :: live"
  have mi0: "machine_inv m0 ?B" using m0(1) by (simp add: scheduler_inv_def tasks_own_def)
  have "kh.used ?B = {b1, b2, b3}"
    by (auto simp: kh.used_def covers_def split: if_splits)
  then have r: "card (kh.used ?B) + 1027 \<le> kheap_blocks" using m0(3) by (simp add: kheap_blocks_def)
  from task_new_inv [OF m0(1) r m0(2) demo_startable] obtain a pages t and m1 :: "'p task_state" where
    m1: "scheduler_inv m1 (add_pages ?B pages) [(a, pages)]" "\<forall>x\<in>set pages. ?B x = None"
      "m1 = appended (m0\<lparr>kernel_heap := kernel_heap m1, mem := mem m1\<rparr>) [] a t" by auto
  let ?A = "add_pages ?B pages"
  have own: "machine_inv m1 ?A" "task_footprint m1 a pages" "distinct pages" "\<forall>x\<in>set pages. ?A x = Some 1"
    using m1(1) by (auto simp: scheduler_inv_def tasks_own_def pages_own_def)
  obtain s q d ts where g: "pages = s # q # d # ts" "length pages = 1027" "a = block_addr s"
    "map_option page_directory (tasks m1 a) = Some (block_addr q)"
    using own(2) by (auto simp: task_footprint_def)
  then obtain t' where t': "tasks m1 a = Some t'" "page_directory t' = block_addr q" by auto
  have live: "\<forall>x\<in>set pages. ?A x = Some 1 \<and> x < kheap_blocks" using own(4) live_used [OF own(1)] by blast
  have d: "dir_inv (mem m1) ?A (block_addr q) (block_addr d)"
    using footprint_dir_inv [of m1 a s q d ts ?A] own(2,3) live unfolding g(1) by blast
  have bl: "b \<notin> set pages \<and> ?A b = Some 1 \<and> b < kheap_blocks" if b: "b \<in> {b1, b2, b3}" for b
  proof -
    have A0: "?B b = Some 1" using b by auto
    then have nin: "b \<notin> set pages" using m1(2) by force
    then have "?A b = ?B b" by (simp only: add_pages_def if_False)
    then show ?thesis using A0 nin live_used [OF mi0 A0] by metis
  qed
  let ?p = "demo_elf_proc a (block_addr b1) (block_addr b2) (block_addr b3)"
  define m where "m = (set_proc m1 0x5000 ?p)\<lparr>processes := others, current_process := cur\<rparr>"
  have "machine_inv m ?A" using own(1) machine_inv_kernel_heap [of m m1] by (simp add: m_def)
  moreover have "a \<noteq> 0" using g(3) live g(1) by (simp add: less_imp_le)
  moreover have "allocs_own ?A D (allocations ?p)" for D
    by (simp add: allocs_own_def alloc_ok_def demo_elf_proc_def demo_proc_def no_allocation_def BIMBLEOS_MAX_PROGRAM_ALLOCATIONS_def)
  ultimately have inv: "process_inv m ?A 0x5000 ?p t' (block_addr d)"
    using t' d by (simp add: process_inv_def deref_def demo_elf_proc_def demo_proc_def m_def)
  have sched: "scheduler_inv m ?A [(a, pages)]"
    using m1(1) by (simp add: m_def scheduler_inv_def task_queue_def run_queue_def tasks_own_def task_footprint_def
        machine_inv_def)
  have fields: "allocations ?p = replicate 1024 no_allocation" "filetype ?p = PROCESS_FILETYPE_ELF" "proc_id ?p = 0"
    "proc_stack ?p = block_addr b3" "proc_task ?p = a" "\<exists>f. image ?p = ElfImage f \<and> block_addr b1 = elf_mem f \<and> block_addr b2 = elf_addr f"
    by (simp_all add: demo_elf_proc_def demo_proc_def demo_process_def)
  have nz: "block_addr b \<notin> alloc_ptr ` set (allocations ?p)" if "b < kheap_blocks" for b
    using that unfolding fields(1) by (auto simp: no_allocation_def less_imp_le)
  have slot: "unat (proc_id ?p) < length (processes m)" "processes m ! unat (proc_id ?p) = 0x5000"
    using others by (simp_all add: fields m_def hd_conv_nth)
  have img: "\<exists>f. image ?p = ElfImage f \<and> map block_addr [b1, b2, b3] = [elf_mem f, elf_addr f, proc_stack ?p]"
    using fields(6) by (simp add: fields(4))
  have pages: "set (concat (map snd [(a, pages)])) = set pages" by simp
  have "\<forall>b\<in>set [b1, b2, b3]. ?A b \<noteq> None \<and> b \<notin> set pages \<and> block_addr b \<notin> alloc_ptr ` set (allocations ?p)"
  proof
    fix b assume "b \<in> set [b1, b2, b3]"
    then have "b \<in> {b1, b2, b3}" by simp
    from bl [OF this] nz [of b] show "?A b \<noteq> None \<and> b \<notin> set pages \<and> block_addr b \<notin> alloc_ptr ` set (allocations ?p)"
      by (metis option.distinct(1))
  qed
  moreover have "\<forall>b\<in>set pages. block_addr b \<notin> alloc_ptr ` set (allocations ?p)" using live nz by blast
  ultimately have "loaded_process m ?A 0x5000 ?p t' (block_addr d) [(a, pages)] [b1, b2, b3]"
    unfolding loaded_process_def pages using inv sched m0(3) fields(2) img slot by blast
  then show ?thesis
    by (intro exI [of _ m] exI [of _ ?A] exI [of _ ?p] exI [of _ t'] exI [of _ "block_addr d"] exI [of _ pages]
        exI [of _ "[b1, b2, b3]"]) (simp add: demo_elf_proc_def demo_proc_def demo_process_def m_def)
qed

section \<open>Counting arguments\<close>

text \<open>The \<open>n\<close>-th argument from \<open>a\<close> on.\<close>

abbreviation argument :: "(u32 \<Rightarrow> u8) \<Rightarrow> nat \<Rightarrow> u32 \<Rightarrow> u32" where
  "argument mm n \<equiv> (next_argument mm) ^^ n"

lemma c_int_Suc: "c_int (c_int x + 1) = c_int (x + 1)"
  using signed_take_bit_add [of 31 x 1] unfolding c_int_def by simp

lemma argument_Suc: "argument mm (Suc n) a = argument mm n (next_argument mm a)"
  by (simp add: funpow_swap1)

lemma count_arguments_eq:
  "count_arguments mm a (c_int j) fuel =
     (if \<exists>n\<le>fuel. argument mm n a = 0 then Inr (c_int (j + int (LEAST n. argument mm n a = 0))) else Inl Hang)"
proof (induction fuel arbitrary: a j)
  case 0
  then show ?case by (auto intro: Least_equality)
next
  case (Suc fuel)
  show ?case
  proof (cases "a = 0")
    case True
    then have "(LEAST n. argument mm n a = 0) = 0" by (intro Least_equality) simp_all
    with True show ?thesis by (auto intro!: exI [of _ 0])
  next
    case False
    have ex: "(\<exists>n\<le>Suc fuel. argument mm n a = 0) \<longleftrightarrow> (\<exists>n\<le>fuel. argument mm n (next_argument mm a) = 0)"
    proof
      assume "\<exists>n\<le>Suc fuel. argument mm n a = 0"
      then obtain n where n: "n \<le> Suc fuel" "argument mm n a = 0" by blast
      with False obtain k where "n = Suc k" by (cases n) auto
      with n have "k \<le> fuel" "argument mm k (next_argument mm a) = 0" using argument_Suc [of k mm a] by simp_all
      then show "\<exists>n\<le>fuel. argument mm n (next_argument mm a) = 0" by blast
    next
      assume "\<exists>n\<le>fuel. argument mm n (next_argument mm a) = 0"
      then show "\<exists>n\<le>Suc fuel. argument mm n a = 0" using argument_Suc by (metis Suc_le_mono)
    qed
    have step: "count_arguments mm a (c_int j) (Suc fuel) = count_arguments mm (next_argument mm a) (c_int (j + 1)) fuel"
      using False by (simp add: c_int_Suc)
    have least: "(LEAST n. argument mm n a = 0) = Suc (LEAST n. argument mm n (next_argument mm a) = 0)"
      if "argument mm k a = 0" for k
      using Least_Suc [of "\<lambda>n. argument mm n a = 0", OF that] False unfolding argument_Suc by simp
    show ?thesis
    proof (cases "\<exists>n\<le>Suc fuel. argument mm n a = 0")
      case True
      then obtain k where k: "argument mm k a = 0" by blast
      have "\<exists>n\<le>fuel. argument mm n (next_argument mm a) = 0" using True ex by blast
      then show ?thesis using True unfolding step Suc.IH least [OF k] by (simp add: algebra_simps)
    next
      case nex: False
      then have "\<not> (\<exists>n\<le>fuel. argument mm n (next_argument mm a) = 0)" using ex by blast
      then show ?thesis using nex unfolding step Suc.IH by simp
    qed
  qed
qed

text \<open>A list that ends at all ends within 2^32 arguments: before its end no argument comes twice.\<close>

lemma argument_end:
  assumes "argument mm k a = 0" shows "\<exists>n\<le>2 ^ 32. argument mm n a = 0"
proof -
  define N where "N = (LEAST n. argument mm n a = 0)"
  have N: "argument mm N a = 0" unfolding N_def by (rule LeastI) (rule assms)
  have min: "argument mm j a \<noteq> 0" if "j < N" for j using not_less_Least that unfolding N_def by blast
  have "inj_on (\<lambda>j. argument mm j a) {..N}"
  proof (rule linorder_inj_onI)
    fix i j assume ij: "i < j" "i \<in> {..N}" "j \<in> {..N}"
    show "argument mm i a \<noteq> argument mm j a"
    proof
      assume e: "argument mm i a = argument mm j a"
      have "argument mm (N - j + i) a = argument mm (N - j + j) a" unfolding funpow_add comp_def e ..
      also have "N - j + j = N" using ij(3) by simp
      finally have "argument mm (N - j + i) a = 0" using N by simp
      moreover have "N - j + i < N" using ij by simp
      ultimately show False using min by blast
    qed
  qed auto
  then have "card {..N} \<le> card (UNIV :: u32 set)" by (rule card_inj_on_le) simp_all
  then have "N \<le> 2 ^ 32" by (simp add: card_word)
  with N show ?thesis by blast
qed

section \<open>Properties\<close>

text \<open>
  C15: Ending a process takes it out of the table, its task out of the queue of the scheduler, and gives back to the kernel
  heap its allocations, its program image, its stack and the 1027 pages of its task; every other block stays in use. Among
  those that stay are the blocks of \<^verbatim>\<open>struct Process\<close> itself, which nothing refers to any more.
\<close>

theorem process_terminate_releases:
  assumes l: "loaded_process m A process p t dir (xs @ (proc_task p, pages) # ys) bs"
    and other: "q \<in> set ((processes m)[unat (proc_id p) := 0])" "q \<noteq> 0"
    and A': "A' = drop_pages (drop_pages (drop_allocs A (allocations p)) bs) pages"
  shows "\<exists>m'. process_terminate m process = Inr (0, m') \<and> processes m' = (processes m)[unat (proc_id p) := 0] \<and>
    run_queue m' (map fst (xs @ ys)) \<and> tasks_own m' A' (xs @ ys) \<and>
    (if current_process m = process then current_process m' \<in> set (processes m') \<and> current_process m' \<noteq> 0
     else current_process m' = current_process m) \<and>
    (\<forall>z k. process = block_addr z \<and> A z = Some k \<and> z \<notin> set bs \<union> set pages \<and> process \<notin> alloc_ptr ` set (allocations p) \<longrightarrow>
       A' z = Some k)"
proof -
  from process_terminate_unlink [OF l] obtain m4 where
    run: "process_terminate m process = bindE (process_unlink m4 process) (\<lambda>m5. Inr (0, m5))"
    and st: "run_queue m4 (map fst (xs @ ys))" "tasks_own m4 A' (xs @ ys)"
      "deref (procs m4) process = Inr (cleared p 1024)" "processes m4 = processes m" "current_process m4 = current_process m"
    unfolding A' released_def by blast
  define m5 where "m5 = m4\<lparr>processes := (processes m)[unat (proc_id p) := 0]\<rparr>"
  have un: "process_unlink m4 process = (if current_process m = process then process_switch_to_any m5 else Inr m5)"
    using st terminate_slot [OF l] by (simp add: process_unlink_def m5_def Let_def)
  have "\<exists>q\<in>set (processes m5). q \<noteq> 0" using other by (auto simp: m5_def)
  from switch_to_any_ok [OF this] obtain q' where q': "q' \<in> set (processes m5)" "q' \<noteq> 0"
    "process_switch_to_any m5 = Inr (m5\<lparr>current_process := q'\<rparr>)" by blast
  define m6 where "m6 = (if current_process m = process then m5\<lparr>current_process := q'\<rparr> else m5)"
  have "process_unlink m4 process = Inr m6" using un q'(3) by (simp add: m6_def)
  then have "process_terminate m process = Inr (0, m6)" using run by simp
  moreover have "processes m6 = (processes m)[unat (proc_id p) := 0]" "run_queue m6 (map fst (xs @ ys))"
    "tasks_own m6 A' (xs @ ys)"
    using st(1,2) by (auto simp: m6_def m5_def run_queue_def tasks_own_def task_footprint_def machine_inv_def)
  moreover have "if current_process m = process then current_process m6 \<in> set (processes m6) \<and> current_process m6 \<noteq> 0
     else current_process m6 = current_process m"
    using q' st(5) by (simp add: m6_def m5_def)
  moreover have "\<forall>z k. process = block_addr z \<and> A z = Some k \<and> z \<notin> set bs \<union> set pages \<and>
      process \<notin> alloc_ptr ` set (allocations p) \<longrightarrow> A' z = Some k"
    by (simp add: A' drop_pages_def drop_allocs_def)
  ultimately show ?thesis by blast
qed

theorem process_terminate_releases_witness:
  "\<exists>(m :: nat task_state) m'. process_terminate m 0x5000 = Inr (0, m') \<and> current_process m = 0x5000 \<and>
     current_process m' = 0x6000 \<and> processes m' = [0, 0x6000, 0]"
proof -
  have o: "[0x5000, 0x6000, 0] \<noteq> []" "hd [0x5000, 0x6000, 0 :: u32] = 0x5000" by simp_all
  obtain m :: "nat task_state" and A p t dir pages bs where
    l: "loaded_process m A 0x5000 p t dir ([] @ (proc_task p, pages) # []) bs" and st: "proc_id p = 0"
      "processes m = [0x5000, 0x6000, 0]" "current_process m = 0x5000"
    using demo_loaded [OF o, where cur = "0x5000"] by blast
  have q: "0x6000 \<in> set ((processes m)[unat (proc_id p) := 0])" "(0x6000 :: u32) \<noteq> 0" using st by simp_all
  from process_terminate_releases [OF l q refl] obtain m' where
    "process_terminate m 0x5000 = Inr (0, m')" "processes m' = (processes m)[unat (proc_id p) := 0]"
    "current_process m' \<in> set (processes m')" "current_process m' \<noteq> 0" using st(3) by auto
  moreover from this have "processes m' = [0, 0x6000, 0]" "current_process m' = 0x6000" using st by auto
  ultimately show ?thesis using st(3) by blast
qed

text \<open>
  Ending the last process stops the kernel: when no other process is left to switch to, \<^verbatim>\<open>process_terminate\<close> frees
  everything and then panics.
\<close>

theorem process_terminate_last_panics:
  assumes l: "loaded_process m A process p t dir (xs @ (proc_task p, pages) # ys) bs"
    and last: "current_process m = process" "set ((processes m)[unat (proc_id p) := 0]) \<subseteq> {0}"
  shows "process_terminate m process = Inl (Panic (c_line ''No processes to switch too''))"
proof -
  from process_terminate_unlink [OF l] obtain m4 where
    run: "process_terminate m process = bindE (process_unlink m4 process) (\<lambda>m5. Inr (0, m5))"
    and st: "deref (procs m4) process = Inr (cleared p 1024)" "processes m4 = processes m" "current_process m4 = current_process m"
    by blast
  have "process_switch_to_any (m4\<lparr>processes := (processes m)[unat (proc_id p) := 0]\<rparr>) = Inl (Panic (c_line ''No processes to switch too''))"
    using last(2) by (intro switch_to_any_none) auto
  then have "process_unlink m4 process = Inl (Panic (c_line ''No processes to switch too''))"
    using st terminate_slot [OF l] last(1) by (simp add: process_unlink_def Let_def)
  then show ?thesis using run by simp
qed

theorem process_terminate_last_panics_witness:
  "\<exists>m :: nat task_state. processes m = [0x5000, 0, 0] \<and>
     process_terminate m 0x5000 = Inl (Panic (c_line ''No processes to switch too''))"
proof -
  have o: "[0x5000, 0, 0] \<noteq> []" "hd [0x5000, 0, 0 :: u32] = 0x5000" by simp_all
  obtain m :: "nat task_state" and A p t dir pages bs where
    l: "loaded_process m A 0x5000 p t dir ([] @ (proc_task p, pages) # []) bs" and st: "proc_id p = 0"
      "processes m = [0x5000, 0, 0]" "current_process m = 0x5000"
    using demo_loaded [OF o, where cur = "0x5000"] by blast
  have "set ((processes m)[unat (proc_id p) := 0]) \<subseteq> {0}" using st by simp
  from process_terminate_last_panics [OF l st(3) this] st(2) show ?thesis by blast
qed

text \<open>
  C38: Counting the command line arguments returns exactly when the list of arguments ends, and then their number (as a
  32-bit \<^verbatim>\<open>int\<close>); on a list that leads back into itself, which a user program can hand over, the kernel loops for ever.
\<close>

theorem count_arguments_returns_iff_list_ends:
  "process_count_command_arguments m root =
     (if \<exists>n. argument (mem m) n root = 0 then Inr (c_int (int (LEAST n. argument (mem m) n root = 0))) else Inl Hang)"
proof -
  have "(\<exists>n\<le>2 ^ 32. argument (mem m) n root = 0) \<longleftrightarrow> (\<exists>n. argument (mem m) n root = 0)"
    using argument_end by blast
  then show ?thesis
    using count_arguments_eq [of "mem m" root 0 "2 ^ 32"] by (simp add: process_count_command_arguments_def)
qed

text \<open>
  A program that is not an ELF file cannot run: \<^verbatim>\<open>process_load_binary\<close> stores its image but leaves \<^verbatim>\<open>filetype\<close> at the
  zero \<^verbatim>\<open>process_init\<close> wrote, which says ELF. Creating its task, mapping its memory and freeing it then all take the raw
  program for an \<^verbatim>\<open>Elf_file\<close>.
\<close>

theorem binary_program_taken_for_elf:
  assumes inv: "machine_inv m A" and room: "card (kh.used A) + 1027 \<le> kheap_blocks"
    and p: "deref (procs m) process = Inr p" "filetype p = filetype zero_process" "image p = BinaryImage ptr"
  shows "task_new m process = Inl WrongMember \<and> process_map_memory m process = Inl WrongMember \<and>
    process_free_program_data m process = Inl WrongMember"
proof -
  have ft: "filetype p = PROCESS_FILETYPE_ELF" using p(2) by (simp add: zero_process_def PROCESS_FILETYPE_ELF_def)
  have "card (kh.used A) < kheap_blocks" using room by simp
  from kzalloc_page [OF inv _ _ this, of 64] obtain s h1 m1 where
    z: "kzalloc m 64 = Inr (block_addr s, m\<lparr>kernel_heap := h1, mem := m1\<rparr>)"
    and inv1: "machine_inv (m\<lparr>kernel_heap := h1, mem := m1\<rparr>) (A(s \<mapsto> 1))" and s: "s < kheap_blocks" "s \<notin> kh.used A"
    and u: "kh.used (A(s \<mapsto> 1)) = insert s (kh.used A)" by auto
  have "card (insert s (kh.used A)) \<le> Suc (card (kh.used A))" by (simp add: card_insert_le_m1)
  then have "card (kh.used (A(s \<mapsto> 1))) + 1026 \<le> kheap_blocks" using room unfolding u by simp
  from paging_new_ok [OF inv1 this, of 5] obtain pd d ts h2 m2 where
    pg: "paging_new (m\<lparr>kernel_heap := h1, mem := m1\<rparr>) 5 = Inr (block_addr pd, m\<lparr>kernel_heap := h2, mem := m2\<rparr>)"
    and lin: "linear_pd m2 pd d ts 5" by auto
  have "block_addr pd \<noteq> 0" using lin by (simp add: linear_pd_def less_imp_le)
  moreover have "(ucast (PAGING_IS_PRESENT OR PAGING_ACCESS_FROM_ALL) :: u8) = 5" by (simp add: paging_consts)
  ultimately have "task_new m process = Inl WrongMember"
    using z pg p ft s(1) by (simp add: task_new_def task_init_def process_entry_def less_imp_le)
  moreover have "process_map_memory m process = Inl WrongMember"
    using p ft by (simp add: process_map_memory_def process_map_elf_def image_elf_def)
  moreover have "process_free_program_data m process = Inl WrongMember"
    using p ft by (simp add: process_free_program_data_def process_free_elf_data_def PROCESS_FILETYPE_ELF_def
        PROCESS_FILETYPE_BINARY_def)
  ultimately show ?thesis by blast
qed

theorem binary_program_taken_for_elf_witness:
  "\<exists>m :: nat task_state. deref (procs m) 0x5000 = Inr (zero_process\<lparr>image := BinaryImage 0x2000000, proc_size := 64\<rparr>) \<and>
     task_new m 0x5000 = Inl WrongMember"
proof -
  obtain m0 :: "nat task_state" where m0: "scheduler_inv m0 Map.empty []" using demo_scheduler by blast
  let ?p = "zero_process\<lparr>image := BinaryImage 0x2000000, proc_size := 64\<rparr>"
  let ?m = "set_proc m0 0x5000 ?p"
  have "machine_inv ?m Map.empty"
    using m0 machine_inv_kernel_heap [of ?m m0] by (simp add: scheduler_inv_def tasks_own_def)
  moreover have "card (kh.used Map.empty) + 1027 \<le> kheap_blocks" by (simp add: kheap_blocks_def)
  moreover have d: "deref (procs ?m) 0x5000 = Inr ?p" by (simp add: deref_def)
  moreover have "filetype ?p = filetype zero_process" "image ?p = BinaryImage 0x2000000" by simp_all
  ultimately have "task_new ?m 0x5000 = Inl WrongMember" using binary_program_taken_for_elf by blast
  with d show ?thesis by blast
qed

end
