(* ===== verification/Gdt.thy ===== *)
theory Gdt
  imports ProcessEnd
begin

text \<open>
  The global descriptor table and the task state segment (\<^verbatim>\<open>gdt/gdt.c\<close>, \<^verbatim>\<open>gdt/gdt.h\<close>, \<^verbatim>\<open>task/tss.h\<close>). An entry is
  encoded into its eight bytes; \<open>gdt_decode\<close> reads them back as the processor does.
\<close>

section \<open>Data\<close>

text \<open>The unencoded descriptor. The encoded one, \<^verbatim>\<open>struct Gdt\<close>, is packed: it is used as its eight bytes.\<close>

record GdtStructured =
  gdt_base :: u32
  gdt_limit :: u32
  gdt_type :: u8

record Tss =
  tss_link :: u32
  tss_esp0 :: u32
  tss_ss0 :: u32
  tss_esp1 :: u32
  tss_esp2 :: u32
  tss_ss2 :: u32
  tss_sr3 :: u32
  tss_eip :: u32
  tss_eflags :: u32
  tss_eax :: u32
  tss_ecx :: u32
  tss_edx :: u32
  tss_ebx :: u32
  tss_esp :: u32
  tss_ebp :: u32
  tss_esi :: u32
  tss_edi :: u32
  tss_es :: u32
  tss_cs :: u32
  tss_ss :: u32
  tss_ds :: u32
  tss_fs :: u32
  tss_gs :: u32
  tss_ldtr :: u32
  tss_iopb :: u32

definition zero_tss :: Tss where
  "zero_tss = \<lparr>tss_link = 0, tss_esp0 = 0, tss_ss0 = 0, tss_esp1 = 0, tss_esp2 = 0, tss_ss2 = 0, tss_sr3 = 0, tss_eip = 0,
     tss_eflags = 0, tss_eax = 0, tss_ecx = 0, tss_edx = 0, tss_ebx = 0, tss_esp = 0, tss_ebp = 0, tss_esi = 0, tss_edi = 0,
     tss_es = 0, tss_cs = 0, tss_ss = 0, tss_ds = 0, tss_fs = 0, tss_gs = 0, tss_ldtr = 0, tss_iopb = 0\<rparr>"

definition TSS_SIZE :: u32 where "TSS_SIZE = 100"

text \<open>The table in \<^verbatim>\<open>kernel.c\<close>; \<open>tss_address\<close> is the address of the static \<^verbatim>\<open>tss\<close>.\<close>

definition gdt_structured :: "u32 \<Rightarrow> GdtStructured list" where
  "gdt_structured tss_address =
     [\<lparr>gdt_base = 0, gdt_limit = 0, gdt_type = 0\<rparr>,
      \<lparr>gdt_base = 0, gdt_limit = 0xFFFFFFFF, gdt_type = 0x9A\<rparr>,
      \<lparr>gdt_base = 0, gdt_limit = 0xFFFFFFFF, gdt_type = 0x92\<rparr>,
      \<lparr>gdt_base = 0, gdt_limit = 0xFFFFFFFF, gdt_type = 0xFA\<rparr>,
      \<lparr>gdt_base = 0, gdt_limit = 0xFFFFFFFF, gdt_type = 0xF2\<rparr>,
      \<lparr>gdt_base = tss_address, gdt_limit = TSS_SIZE, gdt_type = 0x89\<rparr>]"

section \<open>Encoding\<close>

definition encodeGdtEntry :: "u8 list \<Rightarrow> GdtStructured \<Rightarrow> fault + u8 list" where
  "encodeGdtEntry target source =
     (if 65536 < gdt_limit source \<and> gdt_limit source AND 0xFFF \<noteq> 0xFFF
      then Inl (Panic (c_line ''encodeGdtEntry: Invalid argument''))
      else
        bindE (awrite target 6 0x40) (\<lambda>t.
        bindE (if 65536 < gdt_limit source
               then bindE (awrite t 6 0xC0) (\<lambda>t. Inr (source\<lparr>gdt_limit := drop_bit 12 (gdt_limit source)\<rparr>, t))
               else Inr (source, t)) (\<lambda>(source, t).
        bindE (awrite t 0 (ucast (gdt_limit source AND 0xFF))) (\<lambda>t.
        bindE (awrite t 1 (ucast (drop_bit 8 (gdt_limit source) AND 0xFF))) (\<lambda>t.
        bindE (aread t 6) (\<lambda>high_flags.
        bindE (awrite t 6 (high_flags OR ucast (drop_bit 16 (gdt_limit source) AND 0x0F))) (\<lambda>t.
        bindE (awrite t 2 (ucast (gdt_base source AND 0xFF))) (\<lambda>t.
        bindE (awrite t 3 (ucast (drop_bit 8 (gdt_base source) AND 0xFF))) (\<lambda>t.
        bindE (awrite t 4 (ucast (drop_bit 16 (gdt_base source) AND 0xFF))) (\<lambda>t.
        bindE (awrite t 7 (ucast (drop_bit 24 (gdt_base source) AND 0xFF))) (\<lambda>t.
          awrite t 5 (gdt_type source))))))))))))"

text \<open>The loop for \<open>i < n\<close>.\<close>

primrec gdt_loop :: "u8 list list \<Rightarrow> GdtStructured list \<Rightarrow> nat \<Rightarrow> fault + u8 list list" where
  "gdt_loop gdt structured 0 = Inr gdt"
| "gdt_loop gdt structured (Suc i) =
     bindE (gdt_loop gdt structured i) (\<lambda>g.
     bindE (aread structured i) (\<lambda>s.
     bindE (aread g i) (\<lambda>target.
     bindE (encodeGdtEntry target s) (\<lambda>t. awrite g i t))))"

definition gdt_structured_to_gdt :: "u8 list list \<Rightarrow> GdtStructured list \<Rightarrow> int \<Rightarrow> fault + u8 list list" where
  "gdt_structured_to_gdt gdt structured_gdt total_entires = gdt_loop gdt structured_gdt (nat total_entires)"

section \<open>Decoding\<close>

text \<open>The processor's reading of a descriptor: with the granularity bit the limit counts pages.\<close>

definition join4 :: "u8 \<Rightarrow> u8 \<Rightarrow> u8 \<Rightarrow> u8 \<Rightarrow> u32" where
  "join4 a b c d = ucast a OR push_bit 8 (ucast b) OR push_bit 16 (ucast c) OR push_bit 24 (ucast d)"

definition gdt_decode :: "u8 list \<Rightarrow> GdtStructured" where
  "gdt_decode t =
     (let raw = join4 (t ! 0) (t ! 1) (t ! 6 AND 0x0F) 0
      in \<lparr>gdt_base = join4 (t ! 2) (t ! 3) (t ! 4) (t ! 7),
          gdt_limit = (if t ! 6 AND 0x80 \<noteq> 0 then push_bit 12 raw OR 0xFFF else raw),
          gdt_type = t ! 5\<rparr>)"

text \<open>The bytes \<open>encodeGdtEntry\<close> writes.\<close>

definition gdt_bytes :: "u32 \<Rightarrow> u32 \<Rightarrow> u8 \<Rightarrow> u8 \<Rightarrow> u8 list" where
  "gdt_bytes base limit type fl =
     [ucast (limit AND 0xFF), ucast (drop_bit 8 limit AND 0xFF), ucast (base AND 0xFF),
      ucast (drop_bit 8 base AND 0xFF), ucast (drop_bit 16 base AND 0xFF), type,
      fl OR ucast (drop_bit 16 limit AND 0x0F), ucast (drop_bit 24 base AND 0xFF)]"

lemma encode_bytes:
  assumes "length target = 8" and "gdt_limit s \<le> 65536 \<or> gdt_limit s AND 0xFFF = 0xFFF"
  shows "encodeGdtEntry target s = Inr (if 65536 < gdt_limit s
     then gdt_bytes (gdt_base s) (drop_bit 12 (gdt_limit s)) (gdt_type s) 0xC0
     else gdt_bytes (gdt_base s) (gdt_limit s) (gdt_type s) 0x40)"
proof -
  obtain b0 b1 b2 b3 b4 b5 b6 b7 where "target = [b0, b1, b2, b3, b4, b5, b6, b7]"
    using assms(1) by (auto simp: length_Suc_conv eval_nat_numeral)
  then show ?thesis using assms(2) by (auto simp: encodeGdtEntry_def gdt_bytes_def not_le)
qed

lemma byte_masks: "(0xFF :: u32) = mask 8" "(0x0F :: u32) = mask 4" "(0xFFF :: u32) = mask 12" "(0x0F :: u8) = mask 4"
  by (simp_all add: mask_eq_exp_minus_1)

lemma join4_bytes:
  "join4 (ucast (x AND 0xFF)) (ucast (drop_bit 8 x AND 0xFF)) (ucast (drop_bit 16 x AND 0xFF)) (ucast (drop_bit 24 x AND 0xFF)) = x"
proof (rule bit_word_eqI)
  fix n assume n: "n < LENGTH(32)"
  have "n < 8 \<or> 8 \<le> n \<and> n < 16 \<or> 16 \<le> n \<and> n < 24 \<or> 24 \<le> n \<and> n < 32" using n by auto
  then show "bit (join4 (ucast (x AND 0xFF)) (ucast (drop_bit 8 x AND 0xFF)) (ucast (drop_bit 16 x AND 0xFF))
      (ucast (drop_bit 24 x AND 0xFF))) n \<longleftrightarrow> bit x n"
    unfolding join4_def byte_masks by (elim disjE conjE) (simp_all add: bit_simps less_diff_conv2)
qed

lemma join4_20_bits:
  assumes "take_bit 20 x = x"
  shows "join4 (ucast (x AND 0xFF)) (ucast (drop_bit 8 x AND 0xFF)) (ucast (drop_bit 16 x AND 0x0F)) 0 = x"
proof (rule bit_word_eqI)
  fix n assume "n < LENGTH(32)"
  then have "n < 8 \<or> 8 \<le> n \<and> n < 16 \<or> 16 \<le> n \<and> n < 20 \<or> 20 \<le> n \<and> n < 32" by auto
  moreover have "20 \<le> n \<Longrightarrow> \<not> bit x n" using assms bit_take_bit_iff [of 20 x n] by simp
  ultimately show "bit (join4 (ucast (x AND 0xFF)) (ucast (drop_bit 8 x AND 0xFF)) (ucast (drop_bit 16 x AND 0x0F)) 0) n \<longleftrightarrow> bit x n"
    unfolding join4_def byte_masks by (elim disjE conjE) (simp_all add: bit_simps less_diff_conv2)
qed

lemma high_flags:
  "(fl OR ucast (y AND 0x0F :: u32)) AND (0x0F :: u8) = (fl AND 0x0F) OR ucast (y AND 0x0F)"
  "(fl OR ucast (y AND 0x0F :: u32)) AND (0x80 :: u8) = fl AND 0x80"
proof -
  show "(fl OR ucast (y AND 0x0F :: u32)) AND (0x0F :: u8) = (fl AND 0x0F) OR ucast (y AND 0x0F)"
    unfolding byte_masks by (rule bit_word_eqI) (auto simp: bit_simps)
  have "ucast (y AND 0x0F) = (ucast y :: u8) AND 0x0F"
    unfolding byte_masks by (rule bit_word_eqI) (auto simp: bit_simps)
  moreover have "((ucast y :: u8) AND 0x0F) AND 0x80 = ucast y AND (0x0F AND 0x80)" by (rule and.assoc)
  ultimately have "ucast (y AND 0x0F) AND (0x80 :: u8) = 0" by simp
  then show "(fl OR ucast (y AND 0x0F :: u32)) AND (0x80 :: u8) = fl AND 0x80"
    by (simp add: bit.conj_disj_distrib2)
qed

lemma gdt_decode_bytes:
  assumes "take_bit 20 l = l" and "fl AND 0x0F = 0"
  shows "gdt_decode (gdt_bytes base l type fl) =
    \<lparr>gdt_base = base, gdt_limit = (if fl AND 0x80 \<noteq> 0 then push_bit 12 l OR 0xFFF else l), gdt_type = type\<rparr>"
  using assms by (simp add: gdt_decode_def gdt_bytes_def high_flags join4_bytes join4_20_bits Let_def)

text \<open>The encoding of one descriptor, and that of the table.\<close>

definition encodable :: "GdtStructured \<Rightarrow> bool" where
  "encodable s \<longleftrightarrow> gdt_limit s \<le> 65536 \<or> gdt_limit s AND 0xFFF = 0xFFF"

definition gdt_encoded :: "GdtStructured \<Rightarrow> u8 list" where
  "gdt_encoded s = (if 65536 < gdt_limit s then gdt_bytes (gdt_base s) (drop_bit 12 (gdt_limit s)) (gdt_type s) 0xC0
     else gdt_bytes (gdt_base s) (gdt_limit s) (gdt_type s) 0x40)"

lemma encode_encoded: "length target = 8 \<Longrightarrow> encodable s \<Longrightarrow> encodeGdtEntry target s = Inr (gdt_encoded s)"
  unfolding gdt_encoded_def encodable_def by (rule encode_bytes)

lemma length_encoded [simp]: "length (gdt_encoded s) = 8"
  by (simp add: gdt_encoded_def gdt_bytes_def)

lemma decode_encoded:
  assumes "encodable (s :: GdtStructured)"
  shows "gdt_decode (gdt_encoded s) = s"
proof (cases "65536 < gdt_limit s")
  case True
  have low: "gdt_limit s AND 0xFFF = 0xFFF" using assms True by (auto simp: encodable_def)
  have "take_bit 20 (drop_bit 12 (gdt_limit s)) = drop_bit 12 (gdt_limit s)"
    by (rule bit_word_eqI) (auto simp: bit_simps dest: bit_imp_le_length)
  moreover have "push_bit 12 (drop_bit 12 (gdt_limit s)) OR 0xFFF = gdt_limit s"
  proof (rule bit_word_eqI)
    fix n assume "n < LENGTH(32)"
    moreover have "n < 12 \<Longrightarrow> bit (gdt_limit s) n"
      using arg_cong [OF low, of "\<lambda>w. bit w n"] unfolding byte_masks by (simp add: bit_simps)
    ultimately show "bit (push_bit 12 (drop_bit 12 (gdt_limit s)) OR 0xFFF) n \<longleftrightarrow> bit (gdt_limit s) n"
      unfolding byte_masks by (auto simp: bit_simps)
  qed
  ultimately show ?thesis using True by (cases s) (simp add: gdt_encoded_def gdt_decode_bytes)
next
  case False
  then have "unat (gdt_limit s) < 2 ^ 20" by (simp add: word_less_nat_alt)
  then have "take_bit 20 (gdt_limit s) = gdt_limit s"
    by (simp add: word_unat_eq_iff unsigned_take_bit_eq take_bit_nat_eq_self)
  then show ?thesis using False by (cases s) (simp add: gdt_encoded_def gdt_decode_bytes)
qed

lemma gdt_loop_ok:
  "n \<le> length ss \<Longrightarrow> length g = length ss \<Longrightarrow> \<forall>t\<in>set g. length t = 8 \<Longrightarrow> \<forall>s\<in>set ss. encodable s \<Longrightarrow>
     gdt_loop g ss n = Inr (map gdt_encoded (take n ss) @ drop n g)"
proof (induction n)
  case (Suc n)
  then have "drop n g = g ! n # drop (Suc n) g" and "length (g ! n) = 8" and "encodable (ss ! n)"
    by (simp_all add: Cons_nth_drop_Suc)
  with Suc show ?case by (simp add: nth_append encode_encoded list_update_append take_Suc_conv_app_nth)
qed simp

section \<open>Properties\<close>

text \<open>
  C39: \<^verbatim>\<open>encodeGdtEntry\<close> loses nothing: what the processor decodes is the base, the limit and the type that were given,
  whether the limit fits in bytes or is stored in pages; a limit above 64 KiB that is not a whole number of pages is refused.
\<close>

theorem gdt_encode_decode:
  assumes "length target = 8"
  shows "if gdt_limit s \<le> 65536 \<or> gdt_limit s AND 0xFFF = 0xFFF
    then \<exists>t. encodeGdtEntry target s = Inr t \<and> length t = 8 \<and> gdt_decode t = s
    else encodeGdtEntry target s = Inl (Panic (c_line ''encodeGdtEntry: Invalid argument''))"
proof (cases "encodable s")
  case True
  then show ?thesis by (simp add: encode_encoded [OF assms] decode_encoded) (simp add: encodable_def)
next
  case False
  then have "65536 < gdt_limit s \<and> gdt_limit s AND 0xFFF \<noteq> 0xFFF" by (simp add: encodable_def not_le)
  then show ?thesis using False by (simp add: encodeGdtEntry_def encodable_def)
qed

theorem gdt_encode_decode_witness:
  "\<exists>t. encodeGdtEntry (replicate 8 0) \<lparr>gdt_base = 0x1234, gdt_limit = 0xFFFFFFFF, gdt_type = 0x9A\<rparr> = Inr t \<and> length t = 8 \<and>
     gdt_decode t = \<lparr>gdt_base = 0x1234, gdt_limit = 0xFFFFFFFF, gdt_type = 0x9A\<rparr>"
  using gdt_encode_decode [of "replicate 8 0" "\<lparr>gdt_base = 0x1234, gdt_limit = 0xFFFFFFFF, gdt_type = 0x9A\<rparr>"]
  by simp

end
