(* ===== verification/Idt.thy ===== *)
theory Idt
  imports Gdt
begin

text \<open>
  The interrupt descriptor table and the tables of handlers (\<^verbatim>\<open>idt/idt.c\<close>, \<^verbatim>\<open>idt/idt.h\<close>), and the state of the
  components above the processes. A pointer to a handler is a constructor naming it; the addresses of the assembly
  routines are parameters. What the handlers do is in the theories \<open>Isr80h\<close> and \<open>Interrupts\<close>.
\<close>

section \<open>Data\<close>

record idt_desc =
  offset_1 :: u16
  selector :: u16
  idt_zero :: u8
  type_attr :: u8
  offset_2 :: u16

record idtr_desc =
  idtr_limit :: u16
  idtr_base :: u32

text \<open>The functions that are stored as \<^verbatim>\<open>INTERRUPT_CALLBACK_FUNCTION\<close>, and those stored as \<^verbatim>\<open>ISR80H_COMMAND\<close>.\<close>

datatype interrupt_callback = ExceptionCallback | ClockCallback | KeyboardCallback

datatype isr80h_command =
  Command0_sum | Command1_print | Command2_getkey | Command3_putchar | Command4_malloc | Command5_free
  | Command6_process_load_start | Command7_invoke_system_command | Command8_get_program_arguments | Command9_exit

text \<open>The two keyboards' states; \<^verbatim>\<open>init\<close> is the one function there is, or null.\<close>

datatype keyboard_init_fn = ClassicKeyboardInit

record Keyboard =
  keyboard_init_ptr :: "keyboard_init_fn option"
  capslock_state :: int
  keyboard_next :: u32

record 'p os_state = "'p task_state" +
  gdt_real :: "u8 list list"
  tss :: Tss
  idt_descriptors :: "idt_desc list"
  idtr_descriptor :: idtr_desc
  interrupt_callbacks :: "interrupt_callback option list"
  isr80h_commands :: "isr80h_command option list"
  keyboards :: "u32 \<rightharpoonup> Keyboard"
  keyboard_list_head :: u32
  keyboard_list_last :: u32

section \<open>Setting gates and callbacks\<close>

definition idt_set :: "'p os_state \<Rightarrow> int \<Rightarrow> u32 \<Rightarrow> fault + 'p os_state" where
  "idt_set m interrupt_no address =
     bindE (areadi (idt_descriptors m) interrupt_no) (\<lambda>desc.
     bindE (awritei (idt_descriptors m) interrupt_no
              (desc\<lparr>offset_1 := ucast (address AND 0x0000FFFF), selector := KERNAL_CODE_SELECTOR, idt_zero := 0,
                type_attr := 0xEE, offset_2 := ucast (drop_bit 16 address)\<rparr>)) (\<lambda>table.
       Inr (m\<lparr>idt_descriptors := table\<rparr>)))"

definition idt_register_interrupt_callback :: "'p os_state \<Rightarrow> int \<Rightarrow> interrupt_callback \<Rightarrow> fault + (int \<times> 'p os_state)" where
  "idt_register_interrupt_callback m interrupt callback =
     (if interrupt < 0 \<or> int BIMBLEOS_TOTAL_INTERRUPTS \<le> interrupt then Inr (- EINVARG, m)
      else bindE (awritei (interrupt_callbacks m) interrupt (Some callback)) (\<lambda>table.
             Inr (0, m\<lparr>interrupt_callbacks := table\<rparr>)))"

section \<open>Initialisation\<close>

definition zero_desc :: idt_desc where
  "zero_desc = \<lparr>offset_1 = 0, selector = 0, idt_zero = 0, type_attr = 0, offset_2 = 0\<rparr>"

text \<open>The loop for \<open>i < n\<close> over the stubs, and the one that registers the exceptions.\<close>

primrec idt_set_loop :: "'p os_state \<Rightarrow> (nat \<Rightarrow> u32) \<Rightarrow> nat \<Rightarrow> fault + 'p os_state" where
  "idt_set_loop m interrupt_pointer_table 0 = Inr m"
| "idt_set_loop m interrupt_pointer_table (Suc i) =
     bindE (idt_set_loop m interrupt_pointer_table i) (\<lambda>m1. idt_set m1 (int i) (interrupt_pointer_table i))"

primrec register_exceptions :: "'p os_state \<Rightarrow> nat \<Rightarrow> fault + 'p os_state" where
  "register_exceptions m 0 = Inr m"
| "register_exceptions m (Suc i) =
     bindE (register_exceptions m i) (\<lambda>m1.
     bindE (idt_register_interrupt_callback m1 (int i) ExceptionCallback) (\<lambda>(_, m2). Inr m2))"

text \<open>
  The parameters are addresses: of the table itself, of the stubs, of \<^verbatim>\<open>divide_by_zero\<close> and of \<^verbatim>\<open>isr80h_wrapper\<close>. \<^verbatim>\<open>idt_load\<close>
  hands the pointer to the processor.
\<close>

definition idt_init :: "'p os_state \<Rightarrow> u32 \<Rightarrow> (nat \<Rightarrow> u32) \<Rightarrow> u32 \<Rightarrow> u32 \<Rightarrow> fault + 'p os_state" where
  "idt_init m table_address interrupt_pointer_table divide_by_zero_address isr80h_wrapper_address =
     (let m1 = m\<lparr>idt_descriptors := replicate BIMBLEOS_TOTAL_INTERRUPTS zero_desc,
                 idtr_descriptor := \<lparr>idtr_limit = of_nat (8 * BIMBLEOS_TOTAL_INTERRUPTS - 1), idtr_base = table_address\<rparr>\<rparr>
      in bindE (idt_set_loop m1 interrupt_pointer_table BIMBLEOS_TOTAL_INTERRUPTS) (\<lambda>m2.
         bindE (idt_set m2 0 divide_by_zero_address) (\<lambda>m3.
         bindE (idt_set m3 0x80 isr80h_wrapper_address) (\<lambda>m4.
         bindE (register_exceptions m4 0x20) (\<lambda>m5.
         bindE (idt_register_interrupt_callback m5 0x20 ClockCallback) (\<lambda>(_, m6). Inr m6))))))"

definition isr80h_register_command :: "'p os_state \<Rightarrow> int \<Rightarrow> isr80h_command \<Rightarrow> fault + 'p os_state" where
  "isr80h_register_command m command_id command =
     (if command_id < 0 \<or> int BIMBLEOS_MAX_ISR80H_COMMANDS \<le> command_id then Inl (Panic (c_line ''The command is out of bounds''))
      else bindE (areadi (isr80h_commands m) command_id) (\<lambda>old.
        if old \<noteq> None then Inl (Panic (c_line ''Your attempting to overwrite an existing command''))
        else bindE (awritei (isr80h_commands m) command_id (Some command)) (\<lambda>table.
          Inr (m\<lparr>isr80h_commands := table\<rparr>))))"

section \<open>What the table holds\<close>

text \<open>The address in a gate, as the processor puts it together.\<close>

definition gate_address :: "idt_desc \<Rightarrow> u32" where
  "gate_address d = ucast (offset_1 d) OR push_bit 16 (ucast (offset_2 d))"

definition gate :: "u32 \<Rightarrow> idt_desc" where
  "gate address = \<lparr>offset_1 = ucast (address AND 0x0000FFFF), selector = KERNAL_CODE_SELECTOR, idt_zero = 0,
     type_attr = 0xEE, offset_2 = ucast (drop_bit 16 address)\<rparr>"

lemma gate_address_gate [simp]: "gate_address (gate a) = a"
proof (rule bit_word_eqI)
  fix n assume n: "n < LENGTH(32)"
  have m: "(0xFFFF :: u32) = mask 16" by (simp add: mask_eq_exp_minus_1)
  consider "n < 16" | "16 \<le> n" by linarith
  then show "bit (gate_address (gate a)) n \<longleftrightarrow> bit a n"
    using n by cases (auto simp: gate_address_def gate_def m bit_simps)
qed

lemma idt_set_ok:
  "i < length (idt_descriptors m) \<Longrightarrow>
     idt_set m (int i) a = Inr (m\<lparr>idt_descriptors := (idt_descriptors m)[i := gate a]\<rparr>)"
proof -
  assume i: "i < length (idt_descriptors m)"
  obtain d where d: "idt_descriptors m ! i = d" by blast
  show ?thesis using i d by (cases d) (simp add: idt_set_def gate_def)
qed

lemma idt_set_loop_ok:
  "n \<le> length (idt_descriptors m) \<Longrightarrow> idt_set_loop m tbl n =
     Inr (m\<lparr>idt_descriptors := map (\<lambda>i. gate (tbl i)) [0..<n] @ drop n (idt_descriptors m)\<rparr>)"
proof (induction n)
  case (Suc n)
  then show ?case
    by (simp add: idt_set_ok list_update_append Cons_nth_drop_Suc [symmetric] del: of_nat_Suc)
qed simp

lemma register_callback_ok:
  "i < 256 \<Longrightarrow> length (interrupt_callbacks m) = 256 \<Longrightarrow>
     idt_register_interrupt_callback m (int i) cb = Inr (0, m\<lparr>interrupt_callbacks := (interrupt_callbacks m)[i := Some cb]\<rparr>)"
  by (simp add: idt_register_interrupt_callback_def config)

lemma register_exceptions_ok:
  "n \<le> 256 \<Longrightarrow> length (interrupt_callbacks m) = 256 \<Longrightarrow> register_exceptions m n =
     Inr (m\<lparr>interrupt_callbacks := replicate n (Some ExceptionCallback) @ drop n (interrupt_callbacks m)\<rparr>)"
proof (induction n)
  case (Suc n)
  then show ?case
    by (simp add: register_callback_ok list_update_append Cons_nth_drop_Suc [symmetric] replicate_app_Cons_same
        del: of_nat_Suc)
qed simp

text \<open>The whole of \<^verbatim>\<open>idt_init\<close>.\<close>

definition gates :: "(nat \<Rightarrow> u32) \<Rightarrow> u32 \<Rightarrow> u32 \<Rightarrow> idt_desc list" where
  "gates tbl div_zero wrapper = map gate ((map tbl [0..<256])[0 := div_zero, 0x80 := wrapper])"

definition callbacks_after :: "interrupt_callback option list \<Rightarrow> interrupt_callback option list" where
  "callbacks_after cbs = replicate 32 (Some ExceptionCallback) @ Some ClockCallback # drop 33 cbs"

lemma idt_init_eq:
  assumes "length (interrupt_callbacks m) = 256"
  shows "idt_init m base tbl div_zero wrapper = Inr (m\<lparr>idt_descriptors := gates tbl div_zero wrapper,
    idtr_descriptor := \<lparr>idtr_limit = 2047, idtr_base = base\<rparr>, interrupt_callbacks := callbacks_after (interrupt_callbacks m)\<rparr>)"
proof -
  let ?m1 = "m\<lparr>idt_descriptors := replicate 256 zero_desc, idtr_descriptor := \<lparr>idtr_limit = 2047, idtr_base = base\<rparr>\<rparr>"
  let ?g0 = "map (\<lambda>i. gate (tbl i)) [0..<256]"
  let ?gs = "?g0[0 := gate div_zero, 0x80 := gate wrapper]"
  let ?cb = "replicate 32 (Some ExceptionCallback) @ drop 32 (interrupt_callbacks m)"
  have d: "drop 32 (interrupt_callbacks m) = interrupt_callbacks m ! 32 # drop 33 (interrupt_callbacks m)"
    using Cons_nth_drop_Suc [of 32 "interrupt_callbacks m"] assms by simp
  have gs: "?gs = gates tbl div_zero wrapper" by (simp add: gates_def map_update comp_def)
  have "idt_set_loop ?m1 tbl 256 = Inr (?m1\<lparr>idt_descriptors := ?g0\<rparr>)"
    by (subst idt_set_loop_ok) simp_all
  moreover have "idt_set (?m1\<lparr>idt_descriptors := ?g0\<rparr>) 0 div_zero = Inr (?m1\<lparr>idt_descriptors := ?g0[0 := gate div_zero]\<rparr>)"
    using idt_set_ok [of 0 "?m1\<lparr>idt_descriptors := ?g0\<rparr>" div_zero] by simp
  moreover have "idt_set (?m1\<lparr>idt_descriptors := ?g0[0 := gate div_zero]\<rparr>) 0x80 wrapper = Inr (?m1\<lparr>idt_descriptors := ?gs\<rparr>)"
    using idt_set_ok [of "0x80" "?m1\<lparr>idt_descriptors := ?g0[0 := gate div_zero]\<rparr>" wrapper] by simp
  moreover have "register_exceptions (?m1\<lparr>idt_descriptors := ?gs\<rparr>) 32 =
      Inr (?m1\<lparr>idt_descriptors := ?gs, interrupt_callbacks := ?cb\<rparr>)"
    using assms by (subst register_exceptions_ok) simp_all
  moreover have "idt_register_interrupt_callback (?m1\<lparr>idt_descriptors := ?gs, interrupt_callbacks := ?cb\<rparr>) 0x20 ClockCallback =
      Inr (0, ?m1\<lparr>idt_descriptors := ?gs, interrupt_callbacks := callbacks_after (interrupt_callbacks m)\<rparr>)"
  proof -
    define m2 where "m2 = ?m1\<lparr>idt_descriptors := ?gs, interrupt_callbacks := ?cb\<rparr>"
    have "length (interrupt_callbacks m2) = 256" by (simp add: m2_def assms)
    from register_callback_ok [OF _ this, of 32 ClockCallback]
    have "idt_register_interrupt_callback m2 0x20 ClockCallback =
        Inr (0, m2\<lparr>interrupt_callbacks := (interrupt_callbacks m2)[32 := Some ClockCallback]\<rparr>)" by simp
    also have "m2\<lparr>interrupt_callbacks := (interrupt_callbacks m2)[32 := Some ClockCallback]\<rparr> =
        ?m1\<lparr>idt_descriptors := ?gs, interrupt_callbacks := callbacks_after (interrupt_callbacks m)\<rparr>"
      by (simp add: m2_def callbacks_after_def d list_update_append)
    finally show ?thesis unfolding m2_def .
  qed
  ultimately show ?thesis by (simp add: idt_init_def config Let_def gs [symmetric])
qed

section \<open>Properties\<close>

text \<open>
  After \<^verbatim>\<open>idt_init\<close> every gate leads the processor to its stub, gate 0 to \<^verbatim>\<open>divide_by_zero\<close> and gate 0x80 to the system
  call wrapper, all of them in the kernel's code segment and open to user code; the exceptions 0 to 31 and the clock have
  their callbacks, and nothing else in the state changes.
\<close>

theorem idt_init_gates:
  assumes "length (interrupt_callbacks m) = 256"
  shows "\<exists>m'. idt_init m base tbl div_zero wrapper = Inr m' \<and>
    map gate_address (idt_descriptors m') = (map tbl [0..<256])[0 := div_zero, 0x80 := wrapper] \<and>
    set (map selector (idt_descriptors m')) = {KERNAL_CODE_SELECTOR} \<and> set (map type_attr (idt_descriptors m')) = {0xEE} \<and>
    interrupt_callbacks m' = replicate 32 (Some ExceptionCallback) @ Some ClockCallback # drop 33 (interrupt_callbacks m) \<and>
    idtr_base (idtr_descriptor m') = base \<and> idtr_limit (idtr_descriptor m') = 2047 \<and>
    task_state.truncate m' = task_state.truncate m"
proof -
  let ?gs = "gates tbl div_zero wrapper"
  have addr: "map gate_address ?gs = (map tbl [0..<256])[0 := div_zero, 0x80 := wrapper]"
    by (simp add: gates_def comp_def)
  have "set ?gs \<subseteq> range gate" unfolding gates_def by (simp only: set_map) blast
  then have "\<forall>g\<in>set ?gs. selector g = KERNAL_CODE_SELECTOR \<and> type_attr g = 0xEE" by (auto simp: gate_def)
  moreover have "length ?gs = 256" by (simp add: gates_def)
  then have "?gs ! 0 \<in> set ?gs" by (intro nth_mem) simp
  ultimately have attrs: "set (map selector ?gs) = {KERNAL_CODE_SELECTOR}" "set (map type_attr ?gs) = {0xEE}" by force+
  show ?thesis
    by (intro exI conjI, rule idt_init_eq [OF assms])
      (simp_all add: addr attrs [simplified] callbacks_after_def task_state.truncate_def)
qed

theorem idt_init_gates_witness:
  "\<exists>m m' :: nat os_state. idt_init m 0x7000 (\<lambda>i. of_nat (0x100000 + 16 * i)) 0x110000 0x120000 = Inr m' \<and>
     gate_address (idt_descriptors m' ! 0x21) = 0x100210"
proof -
  fix m0 :: "nat os_state"
  let ?m = "m0\<lparr>interrupt_callbacks := replicate 256 None\<rparr>" and ?tbl = "\<lambda>i. of_nat (0x100000 + 16 * i) :: u32"
  have "length (interrupt_callbacks ?m) = 256" by simp
  from idt_init_gates [OF this, of "0x7000" ?tbl "0x110000" "0x120000"] obtain m' where
    run: "idt_init ?m 0x7000 ?tbl 0x110000 0x120000 = Inr m'" and
    gates: "map gate_address (idt_descriptors m') = (map ?tbl [0..<256])[0 := 0x110000, 0x80 := 0x120000]" by blast
  have "length (idt_descriptors m') = 256" using arg_cong [OF gates, of length] by simp
  then have "gate_address (idt_descriptors m' ! 0x21) = 0x100210"
    using arg_cong [OF gates, of "\<lambda>xs. xs ! 0x21"] by simp
  with run show ?thesis by blast
qed


end
