(* ===== verification/KeyboardDrv.thy ===== *)
theory KeyboardDrv
  imports Idt
begin

text \<open>
  The virtual keyboard and the PS/2 keyboard (\<^verbatim>\<open>keyboard/keyboard.c\<close>, \<^verbatim>\<open>keyboard/classic.c\<close>). Every process has a ring
  of 1024 characters; the interrupt handler turns a scan code into a character of the current process. The promise of
  the ring is the locale \<open>byte_queue\<close>, interpreted on it for as long as it is not full.
\<close>

section \<open>The ring of a process\<close>

text \<open>\<^verbatim>\<open>sizeof\<close> is unsigned, so a negative index is converted before the remainder is taken.\<close>

definition ring_index :: "int \<Rightarrow> u8 list \<Rightarrow> nat" where
  "ring_index i buf = unat (word_of_int i :: u32) mod length buf"

definition keyboard_get_tail_index :: "KeyboardBuffer \<Rightarrow> nat" where
  "keyboard_get_tail_index kb = ring_index (kb_tail kb) (kb_buffer kb)"

definition ring_backspace :: "KeyboardBuffer \<Rightarrow> fault + KeyboardBuffer" where
  "ring_backspace kb =
     (let kb1 = kb\<lparr>kb_tail := c_int (kb_tail kb - 1)\<rparr>
      in bindE (awrite (kb_buffer kb1) (keyboard_get_tail_index kb1) 0) (\<lambda>buf. Inr (kb1\<lparr>kb_buffer := buf\<rparr>)))"

definition ring_push :: "KeyboardBuffer \<Rightarrow> u8 \<Rightarrow> fault + KeyboardBuffer" where
  "ring_push kb c =
     bindE (awrite (kb_buffer kb) (keyboard_get_tail_index kb) c) (\<lambda>buf.
       Inr (kb\<lparr>kb_buffer := buf, kb_tail := c_int (kb_tail kb + 1)\<rparr>))"

definition ring_pop :: "KeyboardBuffer \<Rightarrow> fault + (u8 \<times> KeyboardBuffer)" where
  "ring_pop kb =
     (let real_index = ring_index (kb_head kb) (kb_buffer kb)
      in bindE (aread (kb_buffer kb) real_index) (\<lambda>c.
           if c = 0 then Inr (0, kb)
           else bindE (awrite (kb_buffer kb) real_index 0) (\<lambda>buf.
             Inr (c, kb\<lparr>kb_buffer := buf, kb_head := c_int (kb_head kb + 1)\<rparr>))))"

definition keyboard_backspace :: "'p os_state \<Rightarrow> u32 \<Rightarrow> fault + 'p os_state" where
  "keyboard_backspace m process =
     bindE (deref (procs m) process) (\<lambda>p.
     bindE (ring_backspace (keyboard p)) (\<lambda>kb. Inr (set_proc m process (p\<lparr>keyboard := kb\<rparr>))))"

definition keyboard_push :: "'p os_state \<Rightarrow> u8 \<Rightarrow> fault + 'p os_state" where
  "keyboard_push m c =
     (let process = process_current m
      in if process = 0 then Inr m
         else if c = 0 then Inr m
         else bindE (deref (procs m) process) (\<lambda>p.
              bindE (ring_push (keyboard p) c) (\<lambda>kb. Inr (set_proc m process (p\<lparr>keyboard := kb\<rparr>)))))"

definition keyboard_pop :: "'p os_state \<Rightarrow> fault + (u8 \<times> 'p os_state)" where
  "keyboard_pop m =
     (if task_current m = 0 then Inr (0, m)
      else bindE (deref (tasks m) (task_current m)) (\<lambda>t.
           bindE (deref (procs m) (task_process t)) (\<lambda>p.
           bindE (ring_pop (keyboard p)) (\<lambda>(c, kb). Inr (c, set_proc m (task_process t) (p\<lparr>keyboard := kb\<rparr>))))))"

section \<open>Keyboards\<close>

definition KEYBOARD_CAPS_LOCK_ON :: int where "KEYBOARD_CAPS_LOCK_ON = 1"
definition KEYBOARD_CAPS_LOCK_OFF :: int where "KEYBOARD_CAPS_LOCK_OFF = 0"
definition ISR_KEYBOARD_INTERRUPT :: int where "ISR_KEYBOARD_INTERRUPT = 0x21"
definition CLASSIC_KEYBOARD_KEY_RELEASED :: u8 where "CLASSIC_KEYBOARD_KEY_RELEASED = 0x80"
definition CLASSIC_KEYBOARD_CAPSLOCK :: u8 where "CLASSIC_KEYBOARD_CAPSLOCK = 0x3A"

lemmas keyboard_consts = KEYBOARD_CAPS_LOCK_ON_def KEYBOARD_CAPS_LOCK_OFF_def ISR_KEYBOARD_INTERRUPT_def
  CLASSIC_KEYBOARD_KEY_RELEASED_def CLASSIC_KEYBOARD_CAPSLOCK_def

abbreviation set_keyboard :: "'p os_state \<Rightarrow> u32 \<Rightarrow> Keyboard \<Rightarrow> 'p os_state" where
  "set_keyboard m k x \<equiv> m\<lparr>keyboards := (keyboards m)(k \<mapsto> x)\<rparr>"

definition keyboard_set_capslock :: "'p os_state \<Rightarrow> u32 \<Rightarrow> int \<Rightarrow> fault + 'p os_state" where
  "keyboard_set_capslock m kbd state =
     bindE (deref (keyboards m) kbd) (\<lambda>k. Inr (set_keyboard m kbd (k\<lparr>capslock_state := state\<rparr>)))"

definition keyboard_get_capslock :: "'p os_state \<Rightarrow> u32 \<Rightarrow> fault + int" where
  "keyboard_get_capslock m kbd = bindE (deref (keyboards m) kbd) (\<lambda>k. Inr (capslock_state k))"

text \<open>\<open>classic\<close> is the address of the static \<^verbatim>\<open>classic_keyboard\<close>. The write to the controller's port is not modelled.\<close>

definition classic_keyboard_init :: "'p os_state \<Rightarrow> u32 \<Rightarrow> fault + (int \<times> 'p os_state)" where
  "classic_keyboard_init m classic =
     bindE (idt_register_interrupt_callback m ISR_KEYBOARD_INTERRUPT KeyboardCallback) (\<lambda>(_, m1).
     bindE (keyboard_set_capslock m1 classic KEYBOARD_CAPS_LOCK_OFF) (\<lambda>m2. Inr (0, m2)))"

definition keyboard_insert :: "'p os_state \<Rightarrow> u32 \<Rightarrow> u32 \<Rightarrow> fault + (int \<times> 'p os_state)" where
  "keyboard_insert m classic kbd =
     bindE (deref (keyboards m) kbd) (\<lambda>k.
       case keyboard_init_ptr k of None \<Rightarrow> Inr (- EINVARG, m)
       | Some f \<Rightarrow>
           bindE (if keyboard_list_last m \<noteq> 0
                  then bindE (deref (keyboards m) (keyboard_list_last m)) (\<lambda>l.
                         Inr ((set_keyboard m (keyboard_list_last m) (l\<lparr>keyboard_next := kbd\<rparr>))\<lparr>keyboard_list_last := kbd\<rparr>))
                  else Inr (m\<lparr>keyboard_list_head := kbd, keyboard_list_last := kbd\<rparr>)) (\<lambda>m1.
             case f of ClassicKeyboardInit \<Rightarrow> classic_keyboard_init m1 classic))"

definition keyboard_init :: "'p os_state \<Rightarrow> u32 \<Rightarrow> fault + 'p os_state" where
  "keyboard_init m classic = bindE (keyboard_insert m classic classic) (\<lambda>(_, m1). Inr m1)"

section \<open>The PS/2 keyboard\<close>

definition keyboard_scan_set_one :: "u8 list" where
  "keyboard_scan_set_one = [
     0x00, 0x1B, 0x31, 0x32, 0x33, 0x34, 0x35, 0x36, 0x37, 0x38, 0x39, 0x30, 0x2D, 0x3D,
     0x08, 0x09, 0x51, 0x57, 0x45, 0x52, 0x54, 0x59, 0x55, 0x49, 0x4F, 0x50, 0x5B, 0x5D,
     0x0D, 0x00, 0x41, 0x53, 0x44, 0x46, 0x47, 0x48, 0x4A, 0x4B, 0x4C, 0x3B, 0x27, 0x60,
     0x00, 0x5C, 0x5A, 0x58, 0x43, 0x56, 0x42, 0x4E, 0x4D, 0x2C, 0x2E, 0x2F, 0x00, 0x2A,
     0x00, 0x20, 0x00, 0x00, 0x00, 0x00, 0x00, 0x00, 0x00, 0x00, 0x00, 0x00, 0x00, 0x37,
     0x38, 0x39, 0x2D, 0x34, 0x35, 0x36, 0x2B, 0x31, 0x32, 0x33, 0x30, 0x2E]"

definition classic_keyboard_scancode_to_char :: "'p os_state \<Rightarrow> u32 \<Rightarrow> u8 \<Rightarrow> fault + u8" where
  "classic_keyboard_scancode_to_char m classic scancode =
     (if length keyboard_scan_set_one < unat scancode then Inr 0
      else bindE (aread keyboard_scan_set_one (unat scancode)) (\<lambda>c.
           bindE (keyboard_get_capslock m classic) (\<lambda>state.
             if state = KEYBOARD_CAPS_LOCK_OFF \<and> 0x41 \<le> c \<and> c \<le> 0x5A then Inr (c + 32) else Inr c)))"

text \<open>\<open>scancode\<close> is the byte the first read of the port gives; the second read is ignored.\<close>

definition classic_keyboard_handle_interrupt :: "'p os_state \<Rightarrow> u32 \<Rightarrow> u8 \<Rightarrow> fault + 'p os_state" where
  "classic_keyboard_handle_interrupt m classic scancode =
     bindE (kernel_page m) (\<lambda>m1.
       if scancode AND CLASSIC_KEYBOARD_KEY_RELEASED \<noteq> 0 then Inr m1
       else
         bindE (if scancode = CLASSIC_KEYBOARD_CAPSLOCK
                then bindE (keyboard_get_capslock m1 classic) (\<lambda>old_state.
                       keyboard_set_capslock m1 classic
                         (if old_state = KEYBOARD_CAPS_LOCK_ON then KEYBOARD_CAPS_LOCK_OFF else KEYBOARD_CAPS_LOCK_ON))
                else Inr m1) (\<lambda>m2.
         bindE (classic_keyboard_scancode_to_char m2 classic scancode) (\<lambda>c.
         bindE (if c \<noteq> 0 then keyboard_push m2 c else Inr m2) (\<lambda>m3.
           task_page m3))))"

lemma scan_set_length: "length keyboard_scan_set_one = 82"
  by (simp add: keyboard_scan_set_one_def)

section \<open>A queue of bytes\<close>

text \<open>
  What the rest relies on: \<open>rep s q\<close> says that the bytes \<open>q\<close>, none of them 0, wait in \<open>s\<close>, the oldest first. Up to the
  capacity a byte goes in at the end; the oldest comes out, 0 when there is none.
\<close>

locale byte_queue =
  fixes rep :: "'s \<Rightarrow> u8 list \<Rightarrow> bool" and capacity :: nat
    and push :: "'s \<Rightarrow> u8 \<Rightarrow> fault + 's" and pop :: "'s \<Rightarrow> fault + (u8 \<times> 's)"
  assumes push_room: "rep s q \<Longrightarrow> length q < capacity \<Longrightarrow> c \<noteq> 0 \<Longrightarrow> \<exists>s'. push s c = Inr s' \<and> rep s' (q @ [c])"
    and pop_empty: "rep s [] \<Longrightarrow> pop s = Inr (0, s)"
    and pop_oldest: "rep s (c # q) \<Longrightarrow> \<exists>s'. pop s = Inr (c, s') \<and> rep s' q"
begin

primrec push_all :: "'s \<Rightarrow> u8 list \<Rightarrow> fault + 's" where
  "push_all s [] = Inr s"
| "push_all s (c # cs) = bindE (push s c) (\<lambda>s1. push_all s1 cs)"

primrec pop_n :: "'s \<Rightarrow> nat \<Rightarrow> fault + (u8 list \<times> 's)" where
  "pop_n s 0 = Inr ([], s)"
| "pop_n s (Suc n) = bindE (pop s) (\<lambda>(c, s1). bindE (pop_n s1 n) (\<lambda>(cs, s2). Inr (c # cs, s2)))"

lemma push_all_ok:
  "rep s q \<Longrightarrow> length q + length cs \<le> capacity \<Longrightarrow> 0 \<notin> set cs \<Longrightarrow> \<exists>s'. push_all s cs = Inr s' \<and> rep s' (q @ cs)"
proof (induction cs arbitrary: s q)
  case (Cons c cs)
  then obtain s1 where s1: "push s c = Inr s1" "rep s1 (q @ [c])" using push_room [of s q c] by auto
  with Cons show ?case using Cons.IH [of s1 "q @ [c]"] by simp
qed simp

lemma pop_n_ok: "rep s (q @ r) \<Longrightarrow> \<exists>s'. pop_n s (length q) = Inr (q, s') \<and> rep s' r"
proof (induction q arbitrary: s)
  case (Cons c q)
  then obtain s1 where "pop s = Inr (c, s1)" "rep s1 (q @ r)" using pop_oldest [of s c "q @ r"] by auto
  with Cons.IH [of s1] show ?case by auto
qed simp

text \<open>First in, first out.\<close>

lemma fifo:
  assumes "rep s []" and "length cs \<le> capacity" and "0 \<notin> set cs"
  shows "\<exists>s1 s2. push_all s cs = Inr s1 \<and> pop_n s1 (length cs) = Inr (cs, s2) \<and> pop s2 = Inr (0, s2)"
proof -
  obtain s1 where s1: "push_all s cs = Inr s1" "rep s1 cs" using push_all_ok [of s "[]" cs] assms by auto
  then obtain s2 where "pop_n s1 (length cs) = Inr (cs, s2)" "rep s2 []" using pop_n_ok [of s1 cs "[]"] by auto
  with s1(1) pop_empty show ?thesis by blast
qed

end

text \<open>
  The ring: \<open>ring_at kb h t q\<close> when the head and the tail are \<open>h\<close> and \<open>t\<close>, and from the head's slot on the ring holds \<open>q\<close>
  and then zeros.
\<close>

definition ring_at :: "KeyboardBuffer \<Rightarrow> int \<Rightarrow> int \<Rightarrow> u8 list \<Rightarrow> bool" where
  "ring_at kb h t q \<longleftrightarrow> length (kb_buffer kb) = 1024 \<and> kb_head kb = c_int h \<and> kb_tail kb = c_int t \<and> length q \<le> 1024 \<and>
     0 \<notin> set q \<and> (\<forall>i<1024. kb_buffer kb ! nat ((h + int i) mod 1024) = (if i < length q then q ! i else 0))"

definition ring_rep :: "KeyboardBuffer \<Rightarrow> u8 list \<Rightarrow> bool" where
  "ring_rep kb q \<longleftrightarrow> (\<exists>h. ring_at kb h (h + int (length q)) q)"

lemma c_int_mod: "c_int x mod 1024 = x mod 1024"
proof -
  have "take_bit 10 (signed_take_bit 31 x) = take_bit 10 x" by (simp add: take_bit_signed_take_bit)
  then show ?thesis by (simp add: c_int_def take_bit_eq_mod)
qed

lemma ring_index_eq: "length buf = 1024 \<Longrightarrow> ring_index (c_int x) buf = nat (x mod 1024)"
proof -
  assume l: "length buf = 1024"
  have "int (unat (word_of_int (c_int x) :: u32)) = c_int x mod 2 ^ 32"
    by (simp add: uint_word_of_int take_bit_eq_mod)
  then have "int (unat (word_of_int (c_int x) :: u32) mod 1024) = c_int x mod 2 ^ 32 mod 1024" by (simp add: zmod_int)
  also have "\<dots> = c_int x mod 1024" by (rule mod_mod_cancel) simp
  also have "\<dots> = x mod 1024" by (rule c_int_mod)
  finally show ?thesis using l by (simp add: ring_index_def)
qed

lemma slot_eq_iff:
  assumes "i < 1024" and "j < 1024"
  shows "nat ((h + int i) mod 1024) = nat ((h + int j) mod 1024) \<longleftrightarrow> i = j"
proof
  assume "nat ((h + int i) mod 1024) = nat ((h + int j) mod 1024)"
  then have "(h + int i) mod 1024 = (h + int j) mod 1024" by (simp add: eq_nat_nat_iff)
  then have "1024 dvd (h + int i) - (h + int j)" by (simp only: mod_eq_dvd_iff)
  then have "int i mod 1024 = int j mod 1024" by (simp add: mod_eq_dvd_iff)
  then show "i = j" using assms by simp
qed simp

lemma slot_less: "nat ((h :: int) mod 1024) < 1024"
  by simp

text \<open>Writing the slot of the tail, and clearing the one of the head.\<close>

lemma ring_push_ok:
  assumes r: "ring_at kb h (h + int (length q)) q" and q: "length q < 1024" and c: "c \<noteq> 0"
  shows "\<exists>kb'. ring_push kb c = Inr kb' \<and> ring_at kb' h (h + int (length (q @ [c]))) (q @ [c])"
proof -
  let ?j = "nat ((h + int (length q)) mod 1024)"
  have l: "length (kb_buffer kb) = 1024" using r by (simp add: ring_at_def)
  have j: "keyboard_get_tail_index kb = ?j"
    using r ring_index_eq [OF l] by (simp add: keyboard_get_tail_index_def ring_at_def)
  let ?kb = "kb\<lparr>kb_buffer := (kb_buffer kb)[?j := c], kb_tail := c_int (kb_tail kb + 1)\<rparr>"
  have "ring_push kb c = Inr ?kb" using l by (simp add: ring_push_def j slot_less)
  moreover have "ring_at ?kb h (h + int (length (q @ [c]))) (q @ [c])"
  proof -
    have "(kb_buffer kb)[?j := c] ! nat ((h + int i) mod 1024) = (if i < length (q @ [c]) then (q @ [c]) ! i else 0)"
      if i: "i < 1024" for i
      using r i l slot_eq_iff [OF q i, of h] slot_less [of "h + int i"]
      by (auto simp: ring_at_def nth_list_update nth_append less_Suc_eq)
    moreover have "c_int (kb_tail kb + 1) = c_int (h + int (length (q @ [c])))"
    proof -
      have e: "h + int (length (q @ [c])) = h + int (length q) + 1" by simp
      have t: "kb_tail kb = c_int (h + int (length q))" using r unfolding ring_at_def by blast
      show ?thesis unfolding t e by (rule c_int_Suc)
    qed
    ultimately show ?thesis using r q c l by (simp add: ring_at_def)
  qed
  ultimately show ?thesis by blast
qed

lemma ring_pop_ok:
  assumes r: "ring_at kb h t (c # q)"
  shows "\<exists>kb'. ring_pop kb = Inr (c, kb') \<and> ring_at kb' (h + 1) t q"
proof -
  let ?j = "nat (h mod 1024)"
  have l: "length (kb_buffer kb) = 1024" and c: "c \<noteq> 0" using r by (auto simp: ring_at_def)
  have head: "kb_head kb = c_int h" using r by (simp add: ring_at_def)
  have slots: "\<And>i. i < 1024 \<Longrightarrow> kb_buffer kb ! nat ((h + int i) mod 1024) = (if i < Suc (length q) then (c # q) ! i else 0)"
    using r by (simp add: ring_at_def)
  have first: "kb_buffer kb ! ?j = c" using slots [of 0] by simp
  let ?kb = "kb\<lparr>kb_buffer := (kb_buffer kb)[?j := 0], kb_head := c_int (kb_head kb + 1)\<rparr>"
  have "ring_pop kb = Inr (c, ?kb)"
    using l c first by (simp add: ring_pop_def head ring_index_eq [OF l] slot_less)
  moreover have "ring_at ?kb (h + 1) t q"
  proof -
    have "(kb_buffer kb)[?j := 0] ! nat ((h + 1 + int i) mod 1024) = (if i < length q then q ! i else 0)"
      if i: "i < 1024" for i
    proof (cases "i = 1023")
      case True
      have "length q \<le> 1023" using r by (simp add: ring_at_def)
      moreover have "(h + 1 + int i) mod 1024 = h mod 1024" using True by (simp add: mod_eq_dvd_iff)
      ultimately show ?thesis using True l by simp
    next
      case False
      then have i': "Suc i < 1024" using i by simp
      have e: "h + 1 + int i = h + int (Suc i)" by simp
      have "nat ((h + int (Suc i)) mod 1024) \<noteq> ?j" using slot_eq_iff [OF i', of 0 h] by simp
      then show ?thesis using slots [OF i'] unfolding e by simp
    qed
    then show ?thesis using r l by (simp add: ring_at_def c_int_Suc)
  qed
  ultimately show ?thesis by blast
qed

lemma ring_pop_empty: "ring_at kb h t [] \<Longrightarrow> ring_pop kb = Inr (0, kb)"
proof -
  assume r: "ring_at kb h t []"
  then have l: "length (kb_buffer kb) = 1024" and head: "kb_head kb = c_int h"
    and "\<And>i. i < 1024 \<Longrightarrow> kb_buffer kb ! nat ((h + int i) mod 1024) = 0" by (simp_all add: ring_at_def)
  from this(3) [of 0] have "kb_buffer kb ! nat (h mod 1024) = 0" by simp
  then show ?thesis using l by (simp add: ring_pop_def head ring_index_eq [OF l] slot_less)
qed

interpretation ring: byte_queue ring_rep 1024 ring_push ring_pop
proof
  fix kb q and c :: u8
  assume "ring_rep kb q" "length q < 1024" "c \<noteq> 0"
  then show "\<exists>kb'. ring_push kb c = Inr kb' \<and> ring_rep kb' (q @ [c])"
    using ring_push_ok [of kb _ q c] unfolding ring_rep_def by blast
next
  fix kb assume "ring_rep kb []"
  then show "ring_pop kb = Inr (0, kb)" using ring_pop_empty unfolding ring_rep_def by blast
next
  fix kb q and c :: u8
  assume "ring_rep kb (c # q)"
  then obtain h where "ring_at kb h (h + 1 + int (length q)) (c # q)" by (auto simp: ring_rep_def algebra_simps)
  from ring_pop_ok [OF this] show "\<exists>kb'. ring_pop kb = Inr (c, kb') \<and> ring_rep kb' q" unfolding ring_rep_def by blast
qed

text \<open>A push into a full ring overwrites the oldest character, and the tail runs ahead.\<close>

lemma ring_push_full:
  assumes r: "ring_at kb h (h + 1024) (d # q)" and q: "length q = 1023" and c: "c \<noteq> 0"
  shows "\<exists>kb'. ring_push kb c = Inr kb' \<and> ring_at kb' h (h + 1025) (c # q)"
proof -
  let ?j = "nat (h mod 1024)"
  have l: "length (kb_buffer kb) = 1024" using r by (simp add: ring_at_def)
  have j: "keyboard_get_tail_index kb = ?j"
    using r ring_index_eq [OF l, of "h + 1024"] by (simp add: keyboard_get_tail_index_def ring_at_def)
  let ?kb = "kb\<lparr>kb_buffer := (kb_buffer kb)[?j := c], kb_tail := c_int (kb_tail kb + 1)\<rparr>"
  have "ring_push kb c = Inr ?kb" using l by (simp add: ring_push_def j slot_less)
  moreover have "ring_at ?kb h (h + 1025) (c # q)"
  proof -
    have "(kb_buffer kb)[?j := c] ! nat ((h + int i) mod 1024) = (if i < length (c # q) then (c # q) ! i else 0)"
      if i: "i < 1024" for i
    proof (cases i)
      case 0
      then show ?thesis using l by simp
    next
      case (Suc k)
      then have "nat ((h + int i) mod 1024) \<noteq> ?j" using slot_eq_iff [OF i, of 0 h] by simp
      moreover have "kb_buffer kb ! nat ((h + int i) mod 1024) = (if i < length (d # q) then (d # q) ! i else 0)"
        using r i unfolding ring_at_def by blast
      ultimately show ?thesis using Suc by simp
    qed
    moreover have "c_int (kb_tail kb + 1) = c_int (h + 1025)"
    proof -
      have e: "h + 1025 = h + 1024 + 1" by simp
      have t: "kb_tail kb = c_int (h + 1024)" using r unfolding ring_at_def by blast
      show ?thesis unfolding t e by (rule c_int_Suc)
    qed
    ultimately show ?thesis using r l c q by (simp add: ring_at_def)
  qed
  ultimately show ?thesis by blast
qed

text \<open>A ring that is empty with the tail one slot ahead of the head does not deliver what is pushed next.\<close>

lemma ring_stuck:
  assumes r: "ring_at kb h (h + 1) []" and c: "c \<noteq> 0"
  shows "\<exists>kb'. ring_push kb c = Inr kb' \<and> ring_pop kb' = Inr (0, kb')"
proof -
  let ?j = "nat ((h + 1) mod 1024)"
  have l: "length (kb_buffer kb) = 1024" and head: "kb_head kb = c_int h"
    and z: "\<And>i. i < 1024 \<Longrightarrow> kb_buffer kb ! nat ((h + int i) mod 1024) = 0" using r by (simp_all add: ring_at_def)
  have j: "keyboard_get_tail_index kb = ?j"
    using r ring_index_eq [OF l, of "h + 1"] by (simp add: keyboard_get_tail_index_def ring_at_def)
  let ?kb = "kb\<lparr>kb_buffer := (kb_buffer kb)[?j := c], kb_tail := c_int (kb_tail kb + 1)\<rparr>"
  have "ring_push kb c = Inr ?kb" using l by (simp add: ring_push_def j slot_less)
  moreover have "?j \<noteq> nat (h mod 1024)" using slot_eq_iff [of 1 0 h] by simp
  then have "(kb_buffer kb)[?j := c] ! nat (h mod 1024) = 0" using z [of 0] by simp
  then have "ring_pop ?kb = Inr (0, ?kb)" using l by (simp add: ring_pop_def head ring_index_eq slot_less)
  ultimately show ?thesis by blast
qed

section \<open>Properties\<close>

definition empty_ring :: KeyboardBuffer where
  "empty_ring = \<lparr>kb_buffer = replicate 1024 0, kb_tail = 0, kb_head = 0\<rparr>"

lemma empty_ring_at: "ring_at empty_ring 0 0 []"
  by (simp add: ring_at_def empty_ring_def c_int_def)

lemma ring_fill:
  assumes "length cs = 1024" and "0 \<notin> set cs"
  shows "\<exists>kb. ring.push_all empty_ring cs = Inr kb \<and> ring_at kb 0 1024 cs"
proof -
  have "\<exists>kb'. ring.push_all kb cs = Inr kb' \<and> ring_at kb' h (h + int (length q) + int (length cs)) (q @ cs)"
    if "ring_at kb h (h + int (length q)) q" "length q + length cs \<le> 1024" "0 \<notin> set cs" for kb h q cs
    using that
  proof (induction cs arbitrary: kb q)
    case (Cons c cs)
    then obtain kb1 where k: "ring_push kb c = Inr kb1" "ring_at kb1 h (h + int (length (q @ [c]))) (q @ [c])"
      using ring_push_ok [of kb h q c] by auto
    from Cons.IH [OF this(2)] Cons.prems obtain kb2 where
      "ring.push_all kb1 cs = Inr kb2" "ring_at kb2 h (h + int (length (q @ [c])) + int (length cs)) ((q @ [c]) @ cs)" by auto
    moreover have "h + int (length (q @ [c])) + int (length cs) = h + int (length q) + int (length (c # cs))" by simp
    moreover have "(q @ [c]) @ cs = q @ c # cs" by simp
    ultimately have "ring_at kb2 h (h + int (length q) + int (length (c # cs))) (q @ c # cs)" by metis
    moreover have "ring.push_all kb (c # cs) = Inr kb2" using k(1) \<open>ring.push_all kb1 cs = Inr kb2\<close> by simp
    ultimately show ?case by blast
  qed simp
  from this [of empty_ring 0 "[]" cs] empty_ring_at assms show ?thesis by simp
qed

lemma ring_drain: "ring_at kb h t q \<Longrightarrow> \<exists>kb'. ring.pop_n kb (length q) = Inr (q, kb') \<and> ring_at kb' (h + int (length q)) t []"
proof (induction q arbitrary: kb h)
  case (Cons c q)
  then obtain kb1 where k: "ring_pop kb = Inr (c, kb1)" "ring_at kb1 (h + 1) t q" using ring_pop_ok by blast
  from Cons.IH [OF this(2)] obtain kb2 where
    "ring.pop_n kb1 (length q) = Inr (q, kb2)" "ring_at kb2 (h + 1 + int (length q)) t []" by blast
  then show ?case using k(1) by (simp add: algebra_simps)
qed simp

text \<open>
  Up to 1024 characters that were typed and not yet read come out in the order they were typed, however often the
  indices have run round the ring before; then the ring is empty again.
\<close>

theorem keyboard_ring_fifo:
  assumes "ring_rep kb []" and "length cs \<le> 1024" and "0 \<notin> set cs"
  shows "\<exists>kb1 kb2. ring.push_all kb cs = Inr kb1 \<and> ring.pop_n kb1 (length cs) = Inr (cs, kb2) \<and> ring_pop kb2 = Inr (0, kb2)"
  using assms by (rule ring.fifo)

theorem keyboard_ring_fifo_witness:
  "\<exists>kb1 kb2. ring.push_all empty_ring [0x68, 0x69] = Inr kb1 \<and> ring.pop_n kb1 2 = Inr ([0x68, 0x69], kb2) \<and>
     ring_pop kb2 = Inr (0, kb2)"
proof -
  have "ring_rep empty_ring []" using empty_ring_at unfolding ring_rep_def by force
  moreover have "length [0x68, 0x69 :: u8] = 2" "0 \<notin> set [0x68, 0x69 :: u8]" by simp_all
  ultimately show ?thesis using keyboard_ring_fifo [of empty_ring "[0x68, 0x69]"] by (simp only:) simp
qed

text \<open>
  One character too many breaks the ring for good: with 1024 characters waiting, the next one takes the place of the
  oldest, which is lost, and comes out first; and after everything has been read, what is typed next is not delivered.
\<close>

theorem keyboard_ring_overflow:
  assumes "length (d # cs) = 1024" and "0 \<notin> set (d # cs)" and "c \<noteq> 0" and "e \<noteq> 0"
  shows "\<exists>kb1 kb2 kb3 kb4. ring.push_all empty_ring (d # cs) = Inr kb1 \<and> ring_push kb1 c = Inr kb2 \<and>
    ring.pop_n kb2 1024 = Inr (c # cs, kb3) \<and> ring_push kb3 e = Inr kb4 \<and> ring_pop kb4 = Inr (0, kb4)"
proof -
  obtain kb1 where k1: "ring.push_all empty_ring (d # cs) = Inr kb1" "ring_at kb1 0 1024 (d # cs)"
    using ring_fill [OF assms(1,2)] by blast
  then obtain kb2 where k2: "ring_push kb1 c = Inr kb2" "ring_at kb2 0 1025 (c # cs)"
    using ring_push_full [of kb1 0 d cs c] assms by auto
  have len: "length (c # cs) = 1024" and "(0 :: int) + int (length (c # cs)) = 1024" and "(1025 :: int) = 1024 + 1"
    using assms(1) by simp_all
  then obtain kb3 where k3: "ring.pop_n kb2 1024 = Inr (c # cs, kb3)" "ring_at kb3 1024 (1024 + 1) []"
    using ring_drain [OF k2(2)] unfolding len by metis
  from ring_stuck [OF k3(2) assms(4)] obtain kb4 where "ring_push kb3 e = Inr kb4" "ring_pop kb4 = Inr (0, kb4)" by blast
  with k1(1) k2(1) k3(1) show ?thesis by blast
qed

theorem keyboard_ring_overflow_witness:
  "\<exists>kb1 kb2 kb3. ring.push_all empty_ring (0x61 # replicate 1023 0x62) = Inr kb1 \<and> ring_push kb1 0x63 = Inr kb2 \<and>
     ring.pop_n kb2 1024 = Inr (0x63 # replicate 1023 0x62, kb3)"
  using keyboard_ring_overflow [of "0x61" "replicate 1023 0x62" "0x63" "0x64"] by fastforce

text \<open>
  The translation of scan codes is total up to 81 and answers 0 above 82; letters are lower case unless caps lock is
  on. The code 82, the zero key of the keypad, is read one past the end of the table.
\<close>

theorem scancode_translation:
  assumes "deref (keyboards m) classic = Inr k"
  shows "classic_keyboard_scancode_to_char m classic scancode =
    (if unat scancode < 82 then
       (let c = keyboard_scan_set_one ! unat scancode
        in Inr (if capslock_state k = 0 \<and> 0x41 \<le> c \<and> c \<le> 0x5A then c + 32 else c))
     else if scancode = 82 then Inl OutOfBounds else Inr 0)"
proof -
  have "unat scancode = 82 \<longleftrightarrow> scancode = 82"
    by (simp add: word_unat_eq_iff)
  then show ?thesis
    using assms by (auto simp: classic_keyboard_scancode_to_char_def scan_set_length keyboard_get_capslock_def
        KEYBOARD_CAPS_LOCK_OFF_def Let_def)
qed

theorem scancode_translation_witness:
  "\<exists>m :: nat os_state. classic_keyboard_scancode_to_char m 0x3000 0x1E = Inr 0x61 \<and>
     classic_keyboard_scancode_to_char m 0x3000 0x52 = Inl OutOfBounds"
proof -
  obtain m :: "nat os_state" where
    "deref (keyboards m) 0x3000 = Inr \<lparr>keyboard_init_ptr = Some ClassicKeyboardInit, capslock_state = 0, keyboard_next = 0\<rparr>"
  proof
    fix m0 :: "nat os_state"
    show "deref (keyboards (m0\<lparr>keyboards := [0x3000 \<mapsto> \<lparr>keyboard_init_ptr = Some ClassicKeyboardInit, capslock_state = 0,
      keyboard_next = 0\<rparr>]\<rparr>)) 0x3000 = Inr \<lparr>keyboard_init_ptr = Some ClassicKeyboardInit, capslock_state = 0, keyboard_next = 0\<rparr>"
      by (simp add: deref_def)
  qed
  from scancode_translation [OF this, of "0x1E"] scancode_translation [OF this, of "0x52"] show ?thesis
    by (intro exI [of _ m]) (simp add: keyboard_scan_set_one_def)
qed

end
