(* ===== verification/Isr80h.thy ===== *)
theory Isr80h
  imports KeyboardDrv
begin

text \<open>
  The system calls (\<^verbatim>\<open>isr80h/*.c\<close>) and their dispatch (\<^verbatim>\<open>isr80h_handle_command\<close>, \<^verbatim>\<open>isr80h_handler\<close> of \<^verbatim>\<open>idt/idt.c\<close>).
  None of the commands reads its frame. \<open>fs\<close> is the table of filesystems; \<open>stk\<close> gives what a buffer on the kernel's
  stack holds before it is written.
\<close>

section \<open>Leaving a handler\<close>

text \<open>
  A handler comes back with its result, or it leaves the kernel through \<^verbatim>\<open>task_return\<close> and never comes back: then the
  registers user code continues with are the outcome.
\<close>

datatype ('r, 'm) kernel_exit = Back 'r 'm | ToUser Registers 'm

section \<open>The commands\<close>

definition isr80h_command0_sum :: "'p os_state \<Rightarrow> fault + (u32 \<times> 'p os_state)" where
  "isr80h_command0_sum m =
     bindE (task_get_stack_item m (task_current m) 0) (\<lambda>(v1, m1).
     bindE (task_get_stack_item m1 (task_current m1) 1) (\<lambda>(v2, m2).
       Inr (v1 + v2, m2)))"

text \<open>The outcome of the copy is not looked at: the buffer is printed whatever it holds.\<close>

definition isr80h_command1_print :: "(nat \<Rightarrow> u8) \<Rightarrow> 'p os_state \<Rightarrow> fault + (u32 \<times> 'p os_state)" where
  "isr80h_command1_print stk m =
     bindE (task_get_stack_item m (task_current m) 0) (\<lambda>(user_space_msg_buffer, m1).
     bindE (copy_string_from_task m1 (task_current m1) user_space_msg_buffer (map stk [0..<1024]) 1024) (\<lambda>(_, buf, m2).
     bindE (print m2 buf) (\<lambda>m3.
       Inr (0, m3))))"

definition isr80h_command2_getkey :: "'p os_state \<Rightarrow> fault + (u32 \<times> 'p os_state)" where
  "isr80h_command2_getkey m = bindE (keyboard_pop m) (\<lambda>(c, m1). Inr (scast c, m1))"

definition isr80h_command3_putchar :: "'p os_state \<Rightarrow> fault + (u32 \<times> 'p os_state)" where
  "isr80h_command3_putchar m =
     bindE (task_get_stack_item m (task_current m) 0) (\<lambda>(c, m1).
     bindE (terminal_writechar m1 (ucast c) 15) (\<lambda>m2.
       Inr (0, m2)))"

text \<open>\<^verbatim>\<open>task_current()->process\<close>.\<close>

definition current_task_process :: "'p os_state \<Rightarrow> fault + u32" where
  "current_task_process m = bindE (deref (tasks m) (task_current m)) (\<lambda>t. Inr (task_process t))"

definition isr80h_command4_malloc :: "'p os_state \<Rightarrow> fault + (u32 \<times> 'p os_state)" where
  "isr80h_command4_malloc m =
     bindE (task_get_stack_item m (task_current m) 0) (\<lambda>(sz, m1).
     bindE (current_task_process m1) (\<lambda>process.
       process_malloc m1 process sz))"

definition isr80h_command5_free :: "'p os_state \<Rightarrow> fault + (u32 \<times> 'p os_state)" where
  "isr80h_command5_free m =
     bindE (task_get_stack_item m (task_current m) 0) (\<lambda>(ptr_to_free, m1).
     bindE (current_task_process m1) (\<lambda>process.
     bindE (process_free m1 process ptr_to_free) (\<lambda>m2.
       Inr (0, m2))))"

text \<open>\<^verbatim>\<open>task_switch(process->task); task_return(&process->task->registers);\<close>\<close>

definition run_process :: "'p os_state \<Rightarrow> u32 \<Rightarrow> fault + (u32, 'p os_state) kernel_exit" where
  "run_process m process =
     bindE (deref (procs m) process) (\<lambda>p.
     bindE (task_switch m (proc_task p)) (\<lambda>m1.
     bindE (task_return m1 (proc_task p)) (\<lambda>(r, m2).
       Inr (ToUser r m2))))"

text \<open>The arrays \<^verbatim>\<open>filename\<close> and \<^verbatim>\<open>path\<close> are on the stack; \<^verbatim>\<open>path\<close> is as long as \<^verbatim>\<open>filename\<close>, which goes behind \<^verbatim>\<open>0:/\<close>.\<close>

definition isr80h_command6_process_load_start ::
  "(string \<Rightarrow> ('p os_state, 'p) Filesystem) \<Rightarrow> (nat \<Rightarrow> u8) \<Rightarrow> 'p os_state \<Rightarrow> fault + (u32, 'p os_state) kernel_exit" where
  "isr80h_command6_process_load_start fs stk m =
     bindE (task_get_stack_item m (task_current m) 0) (\<lambda>(filename_user_ptr, m1).
     bindE (copy_string_from_task m1 (task_current m1) filename_user_ptr (map stk [0..<BIMBLEOS_MAX_PATH])
              (int BIMBLEOS_MAX_PATH)) (\<lambda>(res, fname, m2).
       if res < 0 then Inr (Back 0 m2)
       else
         bindE (strcpy (map (\<lambda>i. stk (BIMBLEOS_MAX_PATH + i)) [0..<BIMBLEOS_MAX_PATH]) [0x30, 0x3A, 0x2F, 0]) (\<lambda>path.
         bindE (strcpy (drop 3 path) fname) (\<lambda>rest.
         bindE (process_load_switch fs m2 (take 3 path @ rest) 0) (\<lambda>(res, process, m3).
           if res < 0 then Inr (Back 0 m3) else run_process m3 process)))))"

text \<open>
  The arguments are read at the physical address the process's pointer leads to. \<^verbatim>\<open>ERROR\<close> turns the negative code into a
  pointer.
\<close>

definition isr80h_command7_invoke_system_command ::
  "(string \<Rightarrow> ('p os_state, 'p) Filesystem) \<Rightarrow> (nat \<Rightarrow> u8) \<Rightarrow> 'p os_state \<Rightarrow> fault + (u32, 'p os_state) kernel_exit" where
  "isr80h_command7_invoke_system_command fs stk m =
     bindE (task_get_stack_item m (task_current m) 0) (\<lambda>(user_ptr, m1).
     bindE (task_virtual_address_to_physical m1 (task_current m1) user_ptr) (\<lambda>arguments.
     bindE (if arguments = 0 then Inr True
            else bindE (strlen (mem_bytes (mem m1) arguments 512)) (\<lambda>n. Inr (n = 0))) (\<lambda>invalid.
       if invalid then Inr (Back (word_of_int (- EINVARG)) m1)
       else
         bindE (strcpy (map stk [0..<BIMBLEOS_MAX_PATH]) [0x30, 0x3A, 0x2F, 0]) (\<lambda>path.
         bindE (strncpy (drop 3 path) (mem_bytes (mem m1) arguments 512) (int BIMBLEOS_MAX_PATH)) (\<lambda>rest.
         bindE (process_load_switch fs m1 (take 3 path @ rest) 0) (\<lambda>(res, process, m2).
           if res < 0 then Inr (Back (word_of_int res) m2)
           else bindE (process_inject_arguments m2 process arguments) (\<lambda>(res, m3).
             if res < 0 then Inr (Back (word_of_int res) m3) else run_process m3 process)))))))"

text \<open>\<^verbatim>\<open>argc\<close> and \<^verbatim>\<open>argv\<close> are written at the physical address behind the process's pointer.\<close>

definition isr80h_command8_get_program_arguments :: "'p os_state \<Rightarrow> fault + (u32 \<times> 'p os_state)" where
  "isr80h_command8_get_program_arguments m =
     bindE (current_task_process m) (\<lambda>process.
     bindE (task_get_stack_item m (task_current m) 0) (\<lambda>(user_ptr, m1).
     bindE (task_virtual_address_to_physical m1 (task_current m1) user_ptr) (\<lambda>a.
     bindE (deref (procs m1) process) (\<lambda>p.
       if a = 0 then Inl NullPointer
       else (let (c, v) = process_get_arguments p
             in Inr (0, m1\<lparr>mem := store32 (store32 (mem m1) a (word_of_int c)) (a + 4) v\<rparr>))))))"

text \<open>\<^verbatim>\<open>task_next\<close> with its result as an outcome: it does not come back.\<close>

definition leave_to_next :: "'p os_state \<Rightarrow> fault + ('r, 'p os_state) kernel_exit" where
  "leave_to_next m = bindE (task_next m) (\<lambda>(r, m1). Inr (ToUser r m1))"

definition isr80h_command9_exit :: "'p os_state \<Rightarrow> fault + (u32, 'p os_state) kernel_exit" where
  "isr80h_command9_exit m =
     bindE (current_task_process m) (\<lambda>process.
     bindE (process_terminate m process) (\<lambda>(_, m1).
       leave_to_next m1))"

section \<open>Registration and dispatch\<close>

text \<open>The enumeration \<^verbatim>\<open>SystemCommands\<close>, from 0.\<close>

definition system_commands :: "isr80h_command list" where
  "system_commands = [Command0_sum, Command1_print, Command2_getkey, Command3_putchar, Command4_malloc, Command5_free,
     Command6_process_load_start, Command7_invoke_system_command, Command8_get_program_arguments, Command9_exit]"

primrec register_commands :: "'p os_state \<Rightarrow> int \<Rightarrow> isr80h_command list \<Rightarrow> fault + 'p os_state" where
  "register_commands m i [] = Inr m"
| "register_commands m i (c # cs) = bindE (isr80h_register_command m i c) (\<lambda>m1. register_commands m1 (i + 1) cs)"

definition isr80h_register_commands :: "'p os_state \<Rightarrow> fault + 'p os_state" where
  "isr80h_register_commands m = register_commands m 0 system_commands"

definition comes_back :: "fault + ('r \<times> 'm) \<Rightarrow> fault + ('r, 'm) kernel_exit" where
  "comes_back r = bindE r (\<lambda>(x, m). Inr (Back x m))"

text \<open>The call through the pointer.\<close>

definition run_command ::
  "(string \<Rightarrow> ('p os_state, 'p) Filesystem) \<Rightarrow> (nat \<Rightarrow> u8) \<Rightarrow> 'p os_state \<Rightarrow> isr80h_command \<Rightarrow>
     fault + (u32, 'p os_state) kernel_exit" where
  "run_command fs stk m command = (case command of
       Command0_sum \<Rightarrow> comes_back (isr80h_command0_sum m)
     | Command1_print \<Rightarrow> comes_back (isr80h_command1_print stk m)
     | Command2_getkey \<Rightarrow> comes_back (isr80h_command2_getkey m)
     | Command3_putchar \<Rightarrow> comes_back (isr80h_command3_putchar m)
     | Command4_malloc \<Rightarrow> comes_back (isr80h_command4_malloc m)
     | Command5_free \<Rightarrow> comes_back (isr80h_command5_free m)
     | Command6_process_load_start \<Rightarrow> isr80h_command6_process_load_start fs stk m
     | Command7_invoke_system_command \<Rightarrow> isr80h_command7_invoke_system_command fs stk m
     | Command8_get_program_arguments \<Rightarrow> comes_back (isr80h_command8_get_program_arguments m)
     | Command9_exit \<Rightarrow> isr80h_command9_exit m)"

definition isr80h_handle_command ::
  "(string \<Rightarrow> ('p os_state, 'p) Filesystem) \<Rightarrow> (nat \<Rightarrow> u8) \<Rightarrow> 'p os_state \<Rightarrow> int \<Rightarrow>
     fault + (u32, 'p os_state) kernel_exit" where
  "isr80h_handle_command fs stk m command =
     (if command < 0 \<or> int BIMBLEOS_MAX_ISR80H_COMMANDS \<le> command then Inr (Back 0 m)
      else bindE (areadi (isr80h_commands m) command) (\<lambda>command_func.
        case command_func of None \<Rightarrow> Inr (Back 0 m) | Some f \<Rightarrow> run_command fs stk m f))"

definition isr80h_handler ::
  "(string \<Rightarrow> ('p os_state, 'p) Filesystem) \<Rightarrow> (nat \<Rightarrow> u8) \<Rightarrow> 'p os_state \<Rightarrow> int \<Rightarrow> InterruptFrame \<Rightarrow>
     fault + (u32, 'p os_state) kernel_exit" where
  "isr80h_handler fs stk m command frame =
     bindE (kernel_page m) (\<lambda>m1.
     bindE (task_current_save_state m1 frame) (\<lambda>m2.
     bindE (isr80h_handle_command fs stk m2 command) (\<lambda>res.
       case res of Back r m3 \<Rightarrow> bindE (task_page m3) (\<lambda>m4. Inr (Back r m4)) | ToUser r m3 \<Rightarrow> Inr (ToUser r m3))))"

section \<open>Entering and leaving the kernel\<close>

definition kernel_view :: "('p, 'a) kernel_state_scheme \<Rightarrow> ('p, 'a) kernel_state_scheme" where
  "kernel_view m = (let d = load32 (mem m) (kernelPageDirectory m) in m\<lparr>cr3 := d, current_directory := d\<rparr>)"

lemma kernel_page_view: "kernelPageDirectory m \<noteq> 0 \<Longrightarrow> kernel_page m = Inr (kernel_view m)"
  by (simp add: kernel_page_def paging_switch_def wread_def kernel_view_def paging_load_directory_def Let_def)

lemma kernel_view_simps [simp]:
  "mem (kernel_view m) = mem m" "kernel_heap (kernel_view m) = kernel_heap m"
  "kernelPageDirectory (kernel_view m) = kernelPageDirectory m" "paging_enabled (kernel_view m) = paging_enabled m"
  "cr3 (kernel_view m) = load32 (mem m) (kernelPageDirectory m)" "kernel_view (kernel_view m) = kernel_view m"
  by (simp_all add: kernel_view_def Let_def)

lemma kernel_view_tables [simp]:
  "tasks (kernel_view m) = tasks m" "procs (kernel_view m) = procs m" "current_task (kernel_view m) = current_task m"
  "current_process (kernel_view m) = current_process m" "task_head (kernel_view m) = task_head m"
  "task_tail (kernel_view m) = task_tail m" "processes (kernel_view m) = processes m"
  by (simp_all add: kernel_view_def Let_def)

lemma kernel_view_os [simp]:
  "interrupt_callbacks (kernel_view m) = interrupt_callbacks m" "isr80h_commands (kernel_view m) = isr80h_commands m"
  "keyboards (kernel_view m) = keyboards m"
  by (simp_all add: kernel_view_def Let_def)

lemma switched_os [simp]:
  "interrupt_callbacks (switched m a dir) = interrupt_callbacks m" "isr80h_commands (switched m a dir) = isr80h_commands m"
  "keyboards (switched m a dir) = keyboards m"
  by (simp_all add: switched_def paging_load_directory_def)

text \<open>The words of the user's stack, read through the directory of the task.\<close>

definition stack_word :: "'a paging_state_scheme \<Rightarrow> u32 \<Rightarrow> u32 \<Rightarrow> int \<Rightarrow> fault + u32" where
  "stack_word m dir esp idx = vload32 (m\<lparr>cr3 := dir\<rparr>) (esp + word_of_int (4 * idx))"

lemma vload32_cong:
  "mem m = mem m' \<Longrightarrow> paging_enabled m = paging_enabled m' \<Longrightarrow> cr3 m = cr3 m' \<Longrightarrow> vload32 m a = vload32 m' a"
proof -
  assume eqs: "mem m = mem m'" "paging_enabled m = paging_enabled m'" "cr3 m = cr3 m'"
  then have "vtranslate m va = vtranslate m' va" for va by (simp add: vtranslate_def Let_def)
  with eqs have "vload m va = vload m' va" for va by (simp add: vload_def)
  then show ?thesis by (simp add: vload32_def)
qed

lemma stack_item_ok:
  assumes t: "deref (tasks m) a = Inr t" "page_directory t \<noteq> 0" and k: "kernelPageDirectory m \<noteq> 0"
    and v: "stack_word m (load32 (mem m) (page_directory t)) (reg_esp (registers t)) idx = Inr v"
  shows "task_get_stack_item m a idx = Inr (v, kernel_view m)"
proof -
  let ?d = "load32 (mem m) (page_directory t)"
  have "vload32 (m\<lparr>cr3 := ?d, current_directory := ?d\<rparr>) (reg_esp (registers t) + word_of_int (4 * idx)) = Inr v"
    using v vload32_cong [of "m\<lparr>cr3 := ?d, current_directory := ?d\<rparr>" "m\<lparr>cr3 := ?d\<rparr>"] by (simp add: stack_word_def)
  moreover have "kernel_page (m\<lparr>cr3 := ?d, current_directory := ?d\<rparr>) = Inr (kernel_view m)"
    using k by (simp add: kernel_page_view) (simp add: kernel_view_def Let_def)
  ultimately show ?thesis
    using t by (simp add: task_get_stack_item_def task_page_task_def paging_switch_def wread_def paging_load_directory_def)
qed

text \<open>The frame in the task, and the way back.\<close>

definition saved :: "'p os_state \<Rightarrow> u32 \<Rightarrow> Task \<Rightarrow> InterruptFrame \<Rightarrow> 'p os_state" where
  "saved m a t frame = set_task m a (t\<lparr>registers := frame_registers frame (registers t)\<rparr>)"

lemma save_state_ok: "deref (tasks m) (current_task m) = Inr t \<Longrightarrow>
    task_current_save_state m frame = Inr (saved m (current_task m) t frame)"
  by (simp add: task_current_save_state_def task_current_def task_save_state_def saved_def deref_def split: if_splits)

lemma saved_simps [simp]:
  "mem (saved m a t frame) = mem m" "current_task (saved m a t frame) = current_task m" "procs (saved m a t frame) = procs m"
  "tasks (saved m a t frame) = (tasks m)(a \<mapsto> t\<lparr>registers := frame_registers frame (registers t)\<rparr>)"
  "kernelPageDirectory (saved m a t frame) = kernelPageDirectory m" "task_head (saved m a t frame) = task_head m"
  "task_tail (saved m a t frame) = task_tail m" "isr80h_commands (saved m a t frame) = isr80h_commands m"
  "interrupt_callbacks (saved m a t frame) = interrupt_callbacks m" "paging_enabled (saved m a t frame) = paging_enabled m"
  "keyboards (saved m a t frame) = keyboards m" "current_process (saved m a t frame) = current_process m"
  "cr3 (saved m a t frame) = cr3 m"
  by (simp_all add: saved_def)

lemma reg_esp_frame [simp]: "reg_esp (frame_registers frame r) = frame_esp frame"
  by (simp add: frame_registers_def)

lemma task_page_ok:
  "deref (tasks m) (current_task m) = Inr t \<Longrightarrow> page_directory t \<noteq> 0 \<Longrightarrow>
     task_page m = Inr (switched m (current_task m) (load32 (mem m) (page_directory t)))"
  by (simp add: task_page_def task_switch_ok)

lemma deref_Inr: "deref st a = Inr x \<longleftrightarrow> a \<noteq> 0 \<and> st a = Some x"
  by (auto simp: deref_def split: option.splits)

text \<open>A system call that comes back to the task that made it.\<close>

lemma handler_back:
  assumes t: "deref (tasks m) (current_task m) = Inr t" "page_directory t \<noteq> 0" and k: "kernelPageDirectory m \<noteq> 0"
    and run: "isr80h_handle_command fs stk (saved (kernel_view m) (current_task m) t frame) command = Inr (Back r s')"
    and s': "tasks s' = tasks (saved (kernel_view m) (current_task m) t frame)" "current_task s' = current_task m"
  shows "isr80h_handler fs stk m command frame = Inr (Back r
    (switched s' (current_task m) (load32 (mem s') (page_directory t))))"
proof -
  have save: "task_current_save_state (kernel_view m) frame = Inr (saved (kernel_view m) (current_task m) t frame)"
    using save_state_ok [of "kernel_view m" t frame] t by simp
  have "deref (tasks s') (current_task s') = Inr (t\<lparr>registers := frame_registers frame (registers t)\<rparr>)"
    using t s' by (simp add: deref_Inr)
  from task_page_ok [OF this] t(2) s'
  have "task_page s' = Inr (switched s' (current_task m) (load32 (mem s') (page_directory t)))" by simp
  then show ?thesis by (simp add: isr80h_handler_def kernel_page_view [OF k] save run)
qed

lemmas handler_pure = handler_back [OF _ _ _ _ refl, simplified]

section \<open>Properties\<close>

lemma register_commands_ok:
  "length (isr80h_commands m) = 1024 \<Longrightarrow> i + length cs \<le> 1024 \<Longrightarrow> \<forall>j<length cs. isr80h_commands m ! (i + j) = None \<Longrightarrow>
     register_commands m (int i) cs = Inr (m\<lparr>isr80h_commands := take i (isr80h_commands m) @ map Some cs @
       drop (i + length cs) (isr80h_commands m)\<rparr>)"
proof (induction cs arbitrary: m i)
  case (Cons c cs)
  let ?m1 = "m\<lparr>isr80h_commands := (isr80h_commands m)[i := Some c]\<rparr>"
  have "isr80h_commands m ! i = None" using Cons.prems(3) by force
  then have "isr80h_register_command m (int i) c = Inr ?m1"
    using Cons.prems(1,2) by (simp add: isr80h_register_command_def config)
  moreover have "\<forall>j<length cs. isr80h_commands ?m1 ! (Suc i + j) = None"
    using Cons.prems(3) by (auto simp: nth_list_update)
  then have "register_commands ?m1 (int (Suc i)) cs = Inr (?m1\<lparr>isr80h_commands := take (Suc i) (isr80h_commands ?m1) @
      map Some cs @ drop (Suc i + length cs) (isr80h_commands ?m1)\<rparr>)"
    using Cons.prems(1,2) by (intro Cons.IH) simp_all
  moreover have "take (Suc i) ((isr80h_commands m)[i := Some c]) = take i (isr80h_commands m) @ [Some c]"
    using Cons.prems(1,2) by (simp add: take_Suc_conv_app_nth nth_list_update)
  moreover have "drop (Suc i + length cs) ((isr80h_commands m)[i := Some c]) = drop (i + length (c # cs)) (isr80h_commands m)"
    by simp
  ultimately show ?case by (simp add: add.commute)
qed simp

text \<open>
  \<^verbatim>\<open>isr80h_register_commands\<close> puts the ten commands into the table in the order of \<^verbatim>\<open>SystemCommands\<close> and nothing else;
  registering once more is a panic.
\<close>

theorem system_commands_registered:
  assumes "isr80h_commands m = replicate 1024 None"
  shows "\<exists>m'. isr80h_register_commands m = Inr m' \<and>
    m' = m\<lparr>isr80h_commands := map Some system_commands @ replicate 1014 None\<rparr> \<and>
    isr80h_register_commands m' = Inl (Panic (c_line ''Your attempting to overwrite an existing command''))"
proof -
  let ?m' = "m\<lparr>isr80h_commands := map Some system_commands @ replicate 1014 None\<rparr>"
  have "length system_commands = 10" by (simp add: system_commands_def)
  then have "isr80h_register_commands m = Inr ?m'"
    using register_commands_ok [of m 0 system_commands] assms by (simp add: isr80h_register_commands_def)
  moreover have "isr80h_register_commands ?m' = Inl (Panic (c_line ''Your attempting to overwrite an existing command''))"
    by (simp add: isr80h_register_commands_def isr80h_register_command_def system_commands_def config areadi_def)
  ultimately show ?thesis by blast
qed

theorem system_commands_registered_witness:
  "\<exists>m m' :: nat os_state. isr80h_register_commands m = Inr m' \<and> isr80h_commands m' ! 4 = Some Command4_malloc"
proof -
  fix m0 :: "nat os_state"
  have "isr80h_commands (m0\<lparr>isr80h_commands := replicate 1024 None\<rparr>) = replicate 1024 None" by simp
  from system_commands_registered [OF this] obtain m' where
    "isr80h_register_commands (m0\<lparr>isr80h_commands := replicate 1024 None\<rparr>) = Inr m'"
    "isr80h_commands m' = map Some system_commands @ replicate 1014 None" by auto
  then show ?thesis by (intro exI [of _ "m0\<lparr>isr80h_commands := replicate 1024 None\<rparr>"] exI [of _ m'])
    (simp add: system_commands_def)
qed

text \<open>
  A kernel with one task. Memory is the byte 1 everywhere: every word of it is \<open>0x01010101\<close>, as a page table entry a
  present one, so that the current directory maps everything to the page \<open>0x01010000\<close>.
\<close>

definition demo_task :: Task where
  "demo_task = \<lparr>task_process = 0x5000, page_directory = 0x2000, registers = zero_registers, task_next_ptr = 0,
     task_prev_ptr = 0\<rparr>"

definition demo_os :: "nat os_state \<Rightarrow> nat os_state" where
  "demo_os m = m\<lparr>mem := \<lambda>_. 1, paging_enabled := True, kernelPageDirectory := 0x3000, tasks := [0x1000 \<mapsto> demo_task],
     current_task := 0x1000, task_head := 0x1000, task_tail := 0x1000,
     isr80h_commands := map Some system_commands @ replicate 1014 None,
     interrupt_callbacks := replicate 32 (Some ExceptionCallback) @ Some ClockCallback # replicate 223 None\<rparr>"

definition demo_frame :: InterruptFrame where
  "demo_frame = \<lparr>frame_edi = 1, frame_esi = 2, frame_ebp = 3, frame_reserved = 0, frame_ebx = 4, frame_edx = 5, frame_ecx = 6,
     frame_eax = 7, frame_ip = 0x400010, frame_cs = USER_CODE_SEGMENT, frame_flags = 0x202, frame_esp = 0x3FE000,
     frame_ss = USER_DATA_SEGMENT\<rparr>"

lemma demo_os_simps [simp]:
  "deref (tasks (demo_os m)) 0x1000 = Inr demo_task" "current_task (demo_os m) = 0x1000"
  "kernelPageDirectory (demo_os m) = 0x3000" "page_directory demo_task = 0x2000"
  "areadi (isr80h_commands (demo_os m)) 0 = Inr (Some Command0_sum)"
  by (simp_all add: demo_os_def demo_task_def deref_def areadi_def system_commands_def)

lemma demo_word: "stack_word (demo_os m) d a i = Inr 0x01010101"
proof -
  have "vload ((demo_os m)\<lparr>cr3 := d\<rparr>) va = Inr 1" for va
    by (simp add: vload_def vtranslate_def demo_os_def load32_def Let_def PAGING_IS_PRESENT_def)
  then show ?thesis by (simp add: stack_word_def vload32_def)
qed

text \<open>
  A system call with a number that is not in the table returns 0 and changes nothing a program could see: the frame
  is saved in the current task, and the page directory of the task is loaded again.
\<close>

theorem unknown_system_call:
  assumes t: "deref (tasks m) (current_task m) = Inr t" "page_directory t \<noteq> 0" "kernelPageDirectory m \<noteq> 0"
    and c: "command < 0 \<or> 1024 \<le> command \<or> areadi (isr80h_commands m) command = Inr None"
  shows "\<exists>m'. isr80h_handler fs stk m command frame = Inr (Back 0 m') \<and> mem m' = mem m \<and> procs m' = procs m \<and>
    current_task m' = current_task m \<and> cr3 m' = load32 (mem m) (page_directory t) \<and>
    tasks m' = (tasks m)(current_task m \<mapsto> t\<lparr>registers := frame_registers frame (registers t)\<rparr>)"
proof -
  have "isr80h_handle_command fs stk (saved (kernel_view m) (current_task m) t frame) command =
      Inr (Back 0 (saved (kernel_view m) (current_task m) t frame))"
    using c by (auto simp: isr80h_handle_command_def config)
  from handler_pure [OF t(1,2,3) this] show ?thesis by simp
qed

theorem unknown_system_call_witness:
  "\<exists>(m :: nat os_state) m'. isr80h_handler (\<lambda>_. undefined) (\<lambda>_. 0) m 4711 demo_frame = Inr (Back 0 m')"
proof -
  obtain m0 :: "nat os_state" where True by blast
  show ?thesis
    using unknown_system_call [of "demo_os m0" demo_task 4711 "\<lambda>_. undefined" "\<lambda>_. 0" demo_frame] by auto
qed

text \<open>
  The system call 0 returns the sum, modulo 2^32, of the two words on top of the stack of the program that called, read
  through the page directory of its task; memory is untouched and the task resumes with its registers saved.
\<close>

theorem system_call_sum:
  assumes t: "deref (tasks m) (current_task m) = Inr t" "page_directory t \<noteq> 0" "kernelPageDirectory m \<noteq> 0"
    and c: "areadi (isr80h_commands m) 0 = Inr (Some Command0_sum)"
    and v1: "stack_word m (load32 (mem m) (page_directory t)) (frame_esp frame) 0 = Inr v1"
    and v2: "stack_word m (load32 (mem m) (page_directory t)) (frame_esp frame) 1 = Inr v2"
  shows "\<exists>m'. isr80h_handler fs stk m 0 frame = Inr (Back (v1 + v2) m') \<and> mem m' = mem m \<and>
    current_task m' = current_task m \<and> cr3 m' = load32 (mem m) (page_directory t) \<and>
    tasks m' = (tasks m)(current_task m \<mapsto> t\<lparr>registers := frame_registers frame (registers t)\<rparr>)"
proof -
  let ?s = "saved (kernel_view m) (current_task m) t frame" and ?t = "t\<lparr>registers := frame_registers frame (registers t)\<rparr>"
  have st: "deref (tasks ?s) (current_task m) = Inr ?t" "page_directory ?t \<noteq> 0" "kernelPageDirectory ?s \<noteq> 0"
    using t by (simp_all add: deref_Inr)
  have same: "kernel_view ?s = ?s" by (simp add: saved_def kernel_view_def Let_def)
  have words: "stack_word ?s d esp i = stack_word m d esp i" for d esp i
    unfolding stack_word_def by (rule vload32_cong) simp_all
  have "task_get_stack_item ?s (current_task m) 0 = Inr (v1, ?s)" "task_get_stack_item ?s (current_task m) 1 = Inr (v2, ?s)"
    using stack_item_ok [OF st] v1 v2 by (simp_all add: words same)
  then have "isr80h_handle_command fs stk ?s 0 = Inr (Back (v1 + v2) ?s)"
    using c by (simp add: isr80h_handle_command_def config run_command_def comes_back_def isr80h_command0_sum_def task_current_def)
  from handler_pure [OF t(1,2,3) this] show ?thesis by simp
qed

theorem system_call_sum_witness:
  "\<exists>(m :: nat os_state) m'. isr80h_handler (\<lambda>_. undefined) (\<lambda>_. 0) m 0 demo_frame = Inr (Back 0x02020202 m')"
proof -
  obtain m0 :: "nat os_state" where True by blast
  show ?thesis
    using system_call_sum [of "demo_os m0" demo_task demo_frame "0x01010101" "0x01010101" "\<lambda>_. undefined" "\<lambda>_. 0"]
    by (auto simp: demo_word)
qed

end
