(* ===== verification/UserCopy.thy ===== *)
theory UserCopy
  imports Isr80h HeapBound
begin

text \<open>
  \<^verbatim>\<open>copy_string_from_task\<close> of \<^verbatim>\<open>task/task.c\<close>: the kernel takes a string from the memory of a program through a page that it
  maps into the directory of the program for the time of the copy.
\<close>

section \<open>The copy under the directory of the task\<close>

text \<open>Changes of the page \<open>P\<close> do not matter to the translation.\<close>

definition stable :: "'a paging_state_scheme \<Rightarrow> nat \<Rightarrow> bool" where
  "stable m P \<longleftrightarrow> (\<forall>mm. (\<forall>b. pn b \<noteq> P \<longrightarrow> mm b = mem m b) \<longrightarrow> (\<forall>va. vtranslate (m\<lparr>mem := mm\<rparr>) va = vtranslate m va))"

lemma stable_store: "stable m P \<Longrightarrow> pn a = P \<Longrightarrow> vtranslate (m\<lparr>mem := (mem m)(a := v)\<rparr>) va = vtranslate m va"
  by (auto simp: stable_def)

lemma stable_update:
  assumes s: "stable m P" and a: "pn a = P" shows "stable (m\<lparr>mem := (mem m)(a := v)\<rparr>) P"
  unfolding stable_def
proof (intro allI impI)
  fix mm va assume "\<forall>b. pn b \<noteq> P \<longrightarrow> mm b = mem (m\<lparr>mem := (mem m)(a := v)\<rparr>) b"
  then have "\<forall>b. pn b \<noteq> P \<longrightarrow> mm b = mem m b" using a by auto
  then have "vtranslate (m\<lparr>mem := mm\<rparr>) va = vtranslate m va" using s by (auto simp: stable_def)
  then show "vtranslate (m\<lparr>mem := (mem m)(a := v), mem := mm\<rparr>) va = vtranslate (m\<lparr>mem := (mem m)(a := v)\<rparr>) va"
    using stable_store [OF s a] by simp
qed

text \<open>The bytes of a string in user memory, the terminator included, as far as \<open>n\<close> bytes are read.\<close>

definition readable :: "'a paging_state_scheme \<Rightarrow> nat \<Rightarrow> u32 \<Rightarrow> u8 list \<Rightarrow> nat \<Rightarrow> bool" where
  "readable m P src s n \<longleftrightarrow> (\<forall>j<n. j \<le> length s \<longrightarrow>
     (\<exists>pa. vtranslate m (src + of_nat j) = Inr pa \<and> pn pa \<noteq> P \<and> mem m pa = (s @ [0]) ! j))"

lemma vstrncpy_ok:
  fixes m :: "'a paging_state_scheme"
  assumes "stable m P" and "0 \<notin> set s" and "readable m P src s n"
    and "\<And>j. j \<le> n \<Longrightarrow> vtranslate m (dest + of_nat j) = Inr (dest + of_nat j) \<and> pn (dest + of_nat j) = P"
  shows "vstrncpy m dest src n = Inr (m\<lparr>mem := store_bytes (mem m) dest (take n s @ [0])\<rparr>)"
  using assms
proof (induction n arbitrary: m s src dest)
  case 0
  show ?case using 0(4) [of 0] by (auto simp: vstore_def fun_upd_def)
next
  case (Suc n)
  note d = Suc.prems(4) [of 0, simplified]
  obtain pa where pa: "vtranslate m src = Inr pa" "mem m pa = (s @ [0]) ! 0"
    using Suc.prems(3) unfolding readable_def by fastforce
  show ?case
  proof (cases s)
    case Nil
    then show ?thesis using pa d by (auto simp: vload_def vstore_def fun_upd_def)
  next
    case (Cons c s1)
    let ?m1 = "m\<lparr>mem := (mem m)(dest := c)\<rparr>"
    have c: "c \<noteq> 0" "0 \<notin> set s1" using Suc.prems(2) Cons by auto
    have st: "stable ?m1 P" using stable_update [OF Suc.prems(1)] d by blast
    have tr: "vtranslate ?m1 va = vtranslate m va" for va using stable_store [OF Suc.prems(1)] d by blast
    have "readable ?m1 P (src + 1) s1 n"
      unfolding readable_def
    proof (intro allI impI)
      fix j assume j: "j < n" "j \<le> length s1"
      then have "Suc j < Suc n" "Suc j \<le> length s" using Cons by simp_all
      then obtain pa where "vtranslate m (src + of_nat (Suc j)) = Inr pa" "pn pa \<noteq> P" "mem m pa = (s @ [0]) ! Suc j"
        using Suc.prems(3) unfolding readable_def by blast
      then show "\<exists>pa. vtranslate ?m1 (src + 1 + of_nat j) = Inr pa \<and> pn pa \<noteq> P \<and> mem ?m1 pa = (s1 @ [0]) ! j"
        using d Cons unfolding tr by (intro exI [of _ pa]) (auto simp: add.assoc)
    qed
    moreover have "vtranslate ?m1 (dest + 1 + of_nat j) = Inr (dest + 1 + of_nat j) \<and> pn (dest + 1 + of_nat j) = P" if "j \<le> n" for j
      using Suc.prems(4) [of "Suc j"] that unfolding tr by (simp add: add.assoc)
    ultimately have "vstrncpy ?m1 (dest + 1) (src + 1) n = Inr (?m1\<lparr>mem := store_bytes (mem ?m1) (dest + 1) (take n s1 @ [0])\<rparr>)"
      by (intro Suc.IH st c(2)) auto
    then show ?thesis using pa d Cons c(1) by (auto simp: vload_def vstore_def fun_upd_def)
  qed
qed

section \<open>The temporary page\<close>

text \<open>A word written and written back.\<close>

lemma bytes_of_load32:
  "ucast (load32 m a) = m a" "ucast (drop_bit 8 (load32 m a)) = m (a + 1)"
  "ucast (drop_bit 16 (load32 m a)) = m (a + 2)" "ucast (drop_bit 24 (load32 m a)) = m (a + 3)"
proof -
  have z: "\<not> bit (v :: u8) (8 + n)" for v n by (rule notI) (drule bit_imp_le_length, simp)
  have z2: "\<not> bit (v :: u8) (16 + n)" "\<not> bit (v :: u8) (24 + n)" for v n
    by (rule notI, drule bit_imp_le_length, simp)+
  show "ucast (load32 m a) = m a" "ucast (drop_bit 8 (load32 m a)) = m (a + 1)"
    "ucast (drop_bit 16 (load32 m a)) = m (a + 2)" "ucast (drop_bit 24 (load32 m a)) = m (a + 3)"
    by (rule bit_word_eqI; simp add: load32_def bit_simps z z2)+
qed

lemma store32_back: "store32 mm a (load32 m a) b = (if b \<in> {a, a + 1, a + 2, a + 3} then m b else mm b)"
  by (auto simp: store32_def bytes_of_load32)

lemma store32_else: "b \<notin> {a, a + 1, a + 2, a + 3} \<Longrightarrow> store32 mm a v b = mm b"
  by (auto simp: store32_def)

text \<open>The walk in terms of the directory.\<close>

lemma vtranslate_walk:
  assumes "paging_enabled m" and "cr3 m = dir"
  shows "vtranslate m va =
    (if load32 (mem m) (dir + of_nat (4 * (pn va div 1024))) AND PAGING_IS_PRESENT = 0 then Inl PageFault
     else if pd_entry (mem m) dir va AND PAGING_IS_PRESENT = 0 then Inl PageFault
     else Inr ((pd_entry (mem m) dir va AND 0xfffff000) + of_nat (off va)))"
proof -
  have "load32 (mem m) ((load32 (mem m) (dir + of_nat (4 * (pn va div 1024))) AND 0xfffff000) +
      of_nat (4 * (pn va mod 1024))) = pd_entry (mem m) dir va"
    by (simp add: pd_entry_def pte_addr_def table_of_def)
  then show ?thesis
    using assms(1) unfolding vtranslate_def Let_def walk_indexes assms(2) word_off by (simp only: if_False if_True not_True_eq_False)
qed

section \<open>The directory while the page is mapped\<close>

text \<open>Nothing of the directory lies in a page that is not live.\<close>

lemma dir_fresh_page:
  assumes d: "dir_inv mm A pd dir" and r: "A r = None" and same: "\<forall>b. pn b \<noteq> 4096 + r \<longrightarrow> mm' b = mm b"
  shows "dir_inv mm' A pd dir" "dir_pages mm' pd dir = dir_pages mm pd dir" "pd_entry mm' dir va = pd_entry mm dir va"
    "i < 1024 \<Longrightarrow> load32 mm' (dir + of_nat (4 * i)) = load32 mm (dir + of_nat (4 * i))"
    "pte_addr mm' dir va = pte_addr mm dir va"
proof -
  have live: "mm' b = mm b" if "A s = Some 1" "pn b = 4096 + s" for b s using that r same by (metis add_left_cancel option.distinct(1))
  have "dir_inv mm' A pd dir \<and> dir_pages mm' pd dir = dir_pages mm pd dir \<and> (\<forall>va. pd_entry mm' dir va = pd_entry mm dir va)"
    by (rule dir_inv_mem [OF d]) (use live in auto)
  then show "dir_inv mm' A pd dir" "dir_pages mm' pd dir = dir_pages mm pd dir" "pd_entry mm' dir va = pd_entry mm dir va" by blast+
  have w: "load32 mm' (dir + of_nat (4 * i)) = load32 mm (dir + of_nat (4 * i))" if "i < 1024" for i
    by (rule dir_word_kept [OF d that]) (use live in \<open>auto simp: dir_pages_def\<close>)
  then show "i < 1024 \<Longrightarrow> load32 mm' (dir + of_nat (4 * i)) = load32 mm (dir + of_nat (4 * i))" .
  show "pte_addr mm' dir va = pte_addr mm dir va" using w [OF pn_div_bound] by (simp add: pte_addr_def table_of_def)
qed

lemma stable_dir:
  assumes d: "dir_inv (mem m) A (pd :: u32) dir" and r: "A r = None" and on: "paging_enabled m" "cr3 m = dir"
  shows "stable m (4096 + r)"
  unfolding stable_def
proof (intro allI impI)
  fix mm va assume same: "\<forall>b. pn b \<noteq> 4096 + r \<longrightarrow> mm b = mem m b"
  have "paging_enabled (m\<lparr>mem := mm\<rparr>)" "cr3 (m\<lparr>mem := mm\<rparr>) = dir" using on by simp_all
  from vtranslate_walk [OF this, of va] show "vtranslate (m\<lparr>mem := mm\<rparr>) va = vtranslate m va"
    unfolding vtranslate_walk [OF on, of va]
    by (simp add: dir_fresh_page(3) [OF d r same] dir_fresh_page(4) [OF d r same pn_div_bound] del: of_nat_mult)
qed

text \<open>The walk over the new entry, and over the others.\<close>

lemma vtranslate_new_entry:
  assumes ok: "pd_ok (mem m) dir" and pr: "dir_present (mem m) dir" and on: "paging_enabled m" "cr3 m = dir"
    and fl: "unat flags < 4096" "flags AND PAGING_IS_PRESENT \<noteq> 0" and r: "off p = 0"
    and m': "m' = m\<lparr>mem := store32 (mem m) (pte_addr (mem m) dir p) (p OR flags)\<rparr>"
  shows "j < 4096 \<Longrightarrow> vtranslate m' (p + of_nat j) = Inr (p + of_nat j)"
    "pn va \<noteq> pn p \<Longrightarrow> vtranslate m' va = vtranslate m va"
proof -
  have on': "paging_enabled m'" "cr3 m' = dir" using on m' by simp_all
  have t: "tables_only dir (mem m) (mem m')" unfolding m' using tables_only_store_pte [OF ok] by simp
  have pr': "dir_present (mem m') dir" by (rule dir_present_kept [OF ok t pr])
  have e: "pd_entry (mem m') dir va = (if pn va = pn p then p OR flags else pd_entry (mem m) dir va)" for va
    unfolding m' using pd_entry_store_pte [OF ok] by simp
  show "vtranslate m' (p + of_nat j) = Inr (p + of_nat j)" if "j < 4096"
  proof -
    have "pd_entry (mem m') dir (p + of_nat j) = p OR flags" unfolding e using pn_add_page [OF r that] by simp
    moreover have "(p OR flags) AND PAGING_IS_PRESENT \<noteq> 0" using fl(2) by (simp add: bit.conj_disj_distrib2 or_eq_0_iff)
    moreover have "off (p + of_nat j) = j" using off_add_page [OF r that] .
    ultimately show ?thesis using vtranslate_entry [OF on' pr', of "p + of_nat j"] mask_or_low [OF r fl(1)] by simp
  qed
  show "vtranslate m' va = vtranslate m va" if "pn va \<noteq> pn p"
    using that pr pr' pn_div_bound [of va] unfolding vtranslate_walk [OF on'] vtranslate_walk [OF on] e dir_present_def by simp
qed

text \<open>An address that is not in a free block of the heap.\<close>

definition not_free :: "live \<Rightarrow> u32 \<Rightarrow> bool" where
  "not_free A a \<longleftrightarrow> (\<forall>x<kheap_blocks. pn a = 4096 + x \<longrightarrow> x \<in> kh.used A)"

lemma not_free_fresh: "not_free A b \<Longrightarrow> r \<notin> kh.used A \<Longrightarrow> r < kheap_blocks \<Longrightarrow> pn b \<noteq> 4096 + r"
  by (auto simp: not_free_def)

text \<open>
  The string \<open>s\<close> at \<open>va\<close> under the directory \<open>dir\<close>, as far as \<open>n\<close> bytes are read: neither its addresses nor the memory they
  are mapped to lie in a free block, and that memory is not a page of the directory itself.
\<close>

definition user_string :: "'a paging_state_scheme \<Rightarrow> live \<Rightarrow> u32 \<Rightarrow> u32 \<Rightarrow> u32 \<Rightarrow> u8 list \<Rightarrow> nat \<Rightarrow> bool" where
  "user_string m A pd dir va s n \<longleftrightarrow> 0 \<notin> set s \<and> (\<forall>j<n. j \<le> length s \<longrightarrow> not_free A (va + of_nat j) \<and>
     (\<exists>pa. vtranslate (m\<lparr>cr3 := dir\<rparr>) (va + of_nat j) = Inr pa \<and> not_free A pa \<and>
       (\<forall>a\<in>dir_pages (mem m) pd dir. pn pa \<noteq> pn a) \<and> mem m pa = (s @ [0]) ! j))"

lemma vtranslate_cong:
  "mem m = mem m' \<Longrightarrow> paging_enabled m = paging_enabled m' \<Longrightarrow> cr3 m = cr3 m' \<Longrightarrow> vtranslate m va = vtranslate m' va"
  by (simp add: vtranslate_def Let_def)

text \<open>The copy into the fresh page \<open>r\<close>, which is mapped for it, under the directory of the task.\<close>

lemma copy_to_fresh_page:
  fixes m m1 :: "'a paging_state_scheme"
  assumes d: "dir_inv (mem m) A pd dir" and pr: "dir_present (mem m) dir" and on: "paging_enabled m"
    and us: "user_string m A pd dir va s n" and n: "n < 4096"
    and r: "r < kheap_blocks" "r \<notin> kh.used A" "A r = None"
    and m1: "paging_enabled m1" "\<forall>b. pn b \<noteq> 4096 + r \<longrightarrow> mem m1 b = mem m b" "cr3 m1 = dir"
    and m3: "m3 = m1\<lparr>mem := store32 (mem m1) (pte_addr (mem m1) dir (block_addr r)) (block_addr r OR 7)\<rparr>"
  shows "vstrncpy m3 (block_addr r) va n = Inr (m3\<lparr>mem := store_bytes (mem m3) (block_addr r) (take n s @ [0])\<rparr>)"
proof (rule vstrncpy_ok)
  note f = dir_fresh_page [OF d r(3) m1(2)]
  have p: "off (block_addr r) = 0" "pn (block_addr r) = 4096 + r" using r(1) by simp_all
  have ok: "pd_ok (mem m1) dir" using f(1) by (simp add: dir_inv_def pd_root_def)
  have pr1: "dir_present (mem m1) dir" using pr f(4) by (simp add: dir_present_def del: of_nat_mult)
  have t: "tables_only dir (mem m1) (mem m3)" unfolding m3 using tables_only_store_pte [OF ok] by simp
  have "pd_root (mem m1) pd dir" using f(1) by (simp add: dir_inv_def)
  then have root: "pd_root (mem m3) pd dir" unfolding m3 using pd_root_store_pte by simp
  have fl: "unat (7 :: u32) < 4096" "(7 :: u32) AND PAGING_IS_PRESENT \<noteq> 0" by (simp_all add: PAGING_IS_PRESENT_def)
  note new = vtranslate_new_entry [OF ok pr1 m1(1,3) fl p(1) m3]
  show "stable m3 (4096 + r)"
    by (rule stable_dir [OF dir_inv_tables(1) [OF f(1) root t] r(3)]) (use m1 m3 in simp_all)
  show "0 \<notin> set s" using us by (simp add: user_string_def)
  show "vtranslate m3 (block_addr r + of_nat j) = Inr (block_addr r + of_nat j) \<and> pn (block_addr r + of_nat j) = 4096 + r" if "j \<le> n" for j
    using new(1) [of j] pn_add_page [OF p(1), of j] p(2) that n by simp
  show "readable m3 (4096 + r) va s n"
    unfolding readable_def
  proof (intro allI impI)
    fix j assume "j < n" "j \<le> length s"
    then obtain pa where pa: "not_free A (va + of_nat j)" "vtranslate (m\<lparr>cr3 := dir\<rparr>) (va + of_nat j) = Inr pa" "not_free A pa"
      "\<forall>a\<in>dir_pages (mem m) pd dir. pn pa \<noteq> pn a" "mem m pa = (s @ [0]) ! j"
      using us by (auto simp: user_string_def)
    have ne: "pn (va + of_nat j) \<noteq> 4096 + r" "pn pa \<noteq> 4096 + r" using pa(1,3) not_free_fresh r(1,2) by blast+
    have "vtranslate m3 (va + of_nat j) = vtranslate m1 (va + of_nat j)" using new(2) ne(1) p(2) by simp
    also have "\<dots> = vtranslate (m\<lparr>cr3 := dir, mem := mem m1\<rparr>) (va + of_nat j)" using m1 on by (intro vtranslate_cong) simp_all
    also have "\<dots> = vtranslate (m\<lparr>cr3 := dir\<rparr>) (va + of_nat j)"
    proof -
      have "stable (m\<lparr>cr3 := dir\<rparr>) (4096 + r)" using stable_dir [of "m\<lparr>cr3 := dir\<rparr>" A pd dir r] d on r(3) by simp
      then show ?thesis using m1(2) by (simp add: stable_def)
    qed
    finally have "vtranslate m3 (va + of_nat j) = Inr pa" using pa(2) by simp
    moreover have "table_of (mem m1) dir i \<in> dir_pages (mem m1) pd dir" if "i < 1024" for i
      using that by (simp add: dir_pages_def)
    then have "\<forall>i<1024. pn pa \<noteq> pn (table_of (mem m1) dir i)" using pa(4) unfolding f(2) by blast
    then have "mem m3 pa = mem m1 pa" using t by (simp add: tables_only_def)
    ultimately show "\<exists>pa. vtranslate m3 (va + of_nat j) = Inr pa \<and> pn pa \<noteq> 4096 + r \<and> mem m3 pa = (s @ [0]) ! j"
      using ne(2) pa(5) m1(2) by (intro exI [of _ pa]) simp
  qed
qed

lemma word_page: "aligned4 a \<Longrightarrow> b \<in> {a, a + 1, a + 2, a + 3} \<Longrightarrow> pn b = pn a"
  using pn_word [of a 0] pn_word [of a 1] pn_word [of a 2] pn_word [of a 3] by auto

lemma copied_elsewhere:
  assumes "off p = 0" and "length bs \<le> 4096" and "pn b \<noteq> pn p" shows "store_bytes m p bs b = m b"
proof -
  have "pn b = pn p" if "unat (b - p) < length bs" using pn_add_page [OF assms(1), of "unat (b - p)"] that assms(2) by simp
  then show ?thesis using assms(2,3) by (auto simp: store_bytes_apply)
qed

lemma mem_bytes_stored:
  assumes "length bs \<le> n" and "n \<le> 2 ^ 32" shows "\<exists>r. mem_bytes (store_bytes m a bs) a n = bs @ r"
proof -
  have "take (length bs) (mem_bytes (store_bytes m a bs) a n) = bs"
    using assms by (intro nth_equalityI) (simp_all add: store_bytes_apply)
  then show ?thesis by (metis append_take_drop_id)
qed

text \<open>
  With at least one free block, a string of the program arrives in the kernel's buffer, cut off after \<open>maxlen - 1\<close> bytes and
  terminated; the block and the mapping are given back, page tables included, and the kernel's directory is loaded.
\<close>

lemma copy_string_ok:
  assumes inv: "machine_inv m A" and t: "deref (tasks m) a = Inr t" and d: "dir_inv (mem m) A (page_directory t) dir"
    and pr: "dir_present (mem m) dir" and on: "paging_enabled m"
    and kp: "kernelPageDirectory m = block_addr kp" "A kp = Some 1" "kp < kheap_blocks" "block_addr kp \<notin> dir_pages (mem m) (page_directory t) dir"
    and room: "card (kh.used A) < kheap_blocks" and len: "0 < maxlen" "maxlen < 4096" "nat maxlen \<le> length phys"
    and us: "user_string m A (page_directory t) dir va s (nat (maxlen - 1))"
  shows "\<exists>h mm. copy_string_from_task m a va phys maxlen =
      Inr (0, take (nat (maxlen - 1)) s @ 0 # drop (Suc (min (nat (maxlen - 1)) (length s))) phys,
        kernel_view (m\<lparr>kernel_heap := h, mem := mm\<rparr>)) \<and>
    machine_inv (m\<lparr>kernel_heap := h, mem := mm\<rparr>) A \<and> (\<forall>b. not_free A b \<longrightarrow> mm b = mem m b)"
proof -
  let ?n = "nat (maxlen - 1)" and ?pd = "page_directory t"
  have sz: "0 < unat (word_of_int maxlen :: u32)" "unat (word_of_int maxlen :: u32) \<le> 4096" using len by simp_all
  obtain r h' mm1 where k: "kzalloc m (word_of_int maxlen) = Inr (block_addr r, m\<lparr>kernel_heap := h', mem := mm1\<rparr>)"
    "machine_inv (m\<lparr>kernel_heap := h', mem := mm1\<rparr>) (A(r \<mapsto> 1))" and r: "r < kheap_blocks" "r \<notin> kh.used A" "A r = None"
    and keep: "\<forall>b. pn b \<noteq> pn (block_addr r) \<longrightarrow> mm1 b = mem m b"
    using kzalloc_page [OF inv sz room] by blast
  have p: "off (block_addr r) = 0" "pn (block_addr r) = 4096 + r" using r(1) by simp_all
  define m1 where "m1 = m\<lparr>kernel_heap := h', mem := mm1\<rparr>"
  have same1: "\<forall>b. pn b \<noteq> 4096 + r \<longrightarrow> mm1 b = mem m b" using keep p(2) by simp
  note f = dir_fresh_page [OF d r(3) same1]
  have root: "pd_root mm1 ?pd dir" and ok: "pd_ok mm1 dir" using f(1) by (simp_all add: dir_inv_def pd_root_def)
  have al: "paging_is_aligned (block_addr r)" using p(1) by (simp add: aligned_iff_off)
  let ?w = "pte_addr mm1 dir (block_addr r)"
  define old where "old = load32 mm1 ?w"
  define mm3 where "mm3 = store32 mm1 ?w (block_addr r OR 7)"
  define m3 where "m3 = m\<lparr>kernel_heap := h', mem := mm3, cr3 := dir, current_directory := dir\<rparr>"
  define mm4 where "mm4 = store_bytes mm3 (block_addr r) (take ?n s @ [0])"
  have pd: "?pd \<noteq> 0" "load32 mm3 ?pd = dir" "load32 mm1 ?pd = dir" "pd_root mm3 ?pd dir"
    using root pd_root_store_pte [OF root] by (simp_all add: pd_root_def mm3_def)
  have get: "paging_get m1 dir (block_addr r) = Inr old"
    using paging_get_ok [of m1 dir "block_addr r"] ok al by (simp add: m1_def old_def pd_entry_def)
  have map: "paging_map m1 ?pd (block_addr r) (block_addr r) (PAGING_IS_WRITEABLE OR PAGING_IS_PRESENT OR PAGING_ACCESS_FROM_ALL) =
      Inr (0, m1\<lparr>mem := mm3\<rparr>)"
    using paging_map_ok [of m1 ?pd dir "block_addr r" "block_addr r" 7] root al
    by (simp add: m1_def mm3_def paging_consts)
  have sw: "paging_switch (m1\<lparr>mem := mm3\<rparr>) ?pd = Inr m3"
    using pd by (simp add: paging_switch_def wread_def m1_def m3_def paging_load_directory_def)
  have cp: "vstrncpy m3 (block_addr r) va ?n = Inr (m3\<lparr>mem := mm4\<rparr>)"
    using copy_to_fresh_page [OF d pr on us _ r, of "m3\<lparr>mem := mm1\<rparr>" m3] same1 on len(2)
    by (simp add: m3_def mm3_def mm4_def)
  define m4 where "m4 = m3\<lparr>mem := mm4\<rparr>"
  define mm6 where "mm6 = store32 mm4 ?w old"
  have bs: "length (take ?n s @ [0]) \<le> nat maxlen" using len(1) by simp
  have same4: "\<forall>b. pn b \<noteq> 4096 + r \<longrightarrow> mm4 b = mm3 b"
    using copied_elsewhere [OF p(1)] p(2) bs len(2) by (simp add: mm4_def)
  have d3: "dir_inv mm3 A ?pd dir" and dp3: "dir_pages mm3 ?pd dir = dir_pages (mem m) ?pd dir"
    using dir_inv_tables [OF f(1) pd(4)] tables_only_store_pte [OF ok] f(2) by (simp_all add: mm3_def)
  note f4 = dir_fresh_page [OF d3 r(3) same4]
  have w4: "pte_addr mm4 dir (block_addr r) = ?w" using f4(5) pte_addr_store_pte [OF ok] by (simp add: mm3_def)
  have "table_of mm1 dir (pn (block_addr r) div 1024) \<in> dir_pages mm1 ?pd dir"
    using pn_div_bound by (simp add: dir_pages_def)
  then have "table_of mm1 dir (pn (block_addr r) div 1024) \<in> dir_pages (mem m) ?pd dir" unfolding f(2) .
  then obtain q where q: "pn ?w = 4096 + q" "A q = Some 1" "q \<noteq> kp"
    using d kp(4) unfolding pn_pte_addr dir_inv_def by fastforce
  then have wr: "pn ?w \<noteq> 4096 + r" using r(3) by auto
  have word: "b \<in> {?w, ?w + 1, ?w + 2, ?w + 3} \<Longrightarrow> pn b = pn ?w" for b
    using store32_page [OF aligned4_pte_addr, of b mm1 dir "block_addr r"] word_page [OF aligned4_pte_addr] by blast
  have mm6: "mm6 b = mem m b" if "pn b \<noteq> 4096 + r" for b
    using that same4 same1 by (simp add: mm6_def old_def store32_back mm3_def store32_else)
  have "mm6 b = mm4 b" if "pn b = 4096 + r" for b
    unfolding mm6_def by (rule store32_page [OF aligned4_pte_addr]) (use wr that in simp)
  then have "mem_bytes mm6 (block_addr r) (nat maxlen) = mem_bytes mm4 (block_addr r) (nat maxlen)"
    using pn_add_page [OF p(1)] p(2) len(2) by (intro nth_equalityI) simp_all
  moreover have "nat maxlen \<le> 2 ^ 32" using len(2) by (simp add: nat_le_iff)
  ultimately obtain rest where src: "mem_bytes mm6 (block_addr r) (nat maxlen) = take ?n s @ 0 # rest"
    using mem_bytes_stored [OF bs, of mm3 "block_addr r"] unfolding mm4_def by auto
  have z: "0 \<notin> set (take ?n s)" using us by (auto simp: user_string_def dest: in_set_takeD)
  have sc: "strncpy phys (mem_bytes mm6 (block_addr r) (nat maxlen)) maxlen =
      Inr (take ?n s @ 0 # drop (Suc (min ?n (length s))) phys)"
    using strncpy_loop_ok [of "take ?n s @ 0 # rest" ?n phys] cstr_append [OF z, of rest] len(3) bs
    unfolding src strncpy_def by (simp add: terminated_def min_def split: if_splits)
  have kw: "load32 mm (block_addr kp) = load32 (mem m) (block_addr kp)" if "\<forall>b. pn b = 4096 + kp \<longrightarrow> mm b = mem m b" for mm
    using load32_pages [OF kp(3), of 0 mm "mem m"] that by simp
  have rk: "r \<noteq> kp" using r(3) kp(2) by auto
  have k6: "load32 mm6 (block_addr kp) = load32 (mem m) (block_addr kp)" using mm6 rk by (intro kw) simp
  have k4: "load32 mm4 (block_addr kp) = load32 (mem m) (block_addr kp)"
    using same4 same1 rk q(1,3) store32_page [OF aligned4_pte_addr] by (intro kw) (simp add: mm3_def)
  define m6 where "m6 = (kernel_view m4)\<lparr>mem := mm6\<rparr>"
  have view: "kernel_page m4 = Inr (kernel_view m4)"
    using kp(1,3) by (intro kernel_page_view) (simp add: m4_def m3_def)
  have set: "paging_set (kernel_view m4) dir (block_addr r) old = Inr (0, m6)"
    using paging_set_ok [of "kernel_view m4" dir "block_addr r" old] f4(1) al w4
    by (simp add: m4_def m6_def mm6_def dir_inv_def pd_root_def)
  have "machine_inv m6 (A(r \<mapsto> 1))" using k(2) by (simp add: machine_inv_def m6_def m4_def m3_def)
  from kfree_back [OF this r(3)] obtain h where
    fr: "kfree m6 (block_addr r) = Inr (m6\<lparr>kernel_heap := h\<rparr>)" "machine_inv (m6\<lparr>kernel_heap := h\<rparr>) A" by blast
  have fin: "m6\<lparr>kernel_heap := h\<rparr> = kernel_view (m\<lparr>kernel_heap := h, mem := mm6\<rparr>)"
    using k6 k4 kp(1) by (simp add: m6_def m4_def m3_def kernel_view_def Let_def)
  have m6: "mem m6 = mm6" by (simp add: m6_def)
  have rd: "wread m1 ?pd 0 = Inr dir" using pd by (simp add: wread_def m1_def)
  have "deref (tasks m1) a = Inr t" using t by (simp add: m1_def)
  then have "copy_string_from_task m a va phys maxlen = Inr (0, take ?n s @ 0 # drop (Suc (min ?n (length s))) phys, m6\<lparr>kernel_heap := h\<rparr>)"
    using k(1) r(1) rd get map sw cp view set sc fr(1) len(2)
    by (simp add: copy_string_from_task_def m1_def [symmetric] m4_def [symmetric] m6 PAGING_PAGE_SIZE_def)
  moreover have "\<forall>b. not_free A b \<longrightarrow> mm6 b = mem m b" using mm6 not_free_fresh r(1,2) by blast
  moreover have "machine_inv (m\<lparr>kernel_heap := h, mem := mm6\<rparr>) A" using fr(2) by (simp add: machine_inv_def m6_def)
  ultimately show ?thesis unfolding fin by blast
qed

section \<open>The system call that prints\<close>

text \<open>A task under its directory, with a kernel directory of its own, ready for a copy of a user string.\<close>

definition user_task :: "('p, 'a) task_state_scheme \<Rightarrow> live \<Rightarrow> Task \<Rightarrow> u32 \<Rightarrow> bool" where
  "user_task m A t dir \<longleftrightarrow> machine_inv m A \<and> deref (tasks m) (current_task m) = Inr t \<and> dir_inv (mem m) A (page_directory t) dir \<and>
     dir_present (mem m) dir \<and> paging_enabled m \<and> card (kh.used A) < kheap_blocks \<and>
     (\<exists>kp<kheap_blocks. kernelPageDirectory m = block_addr kp \<and> A kp = Some 1 \<and>
        block_addr kp \<notin> dir_pages (mem m) (page_directory t) dir)"

lemma user_task_copy:
  assumes ut: "user_task m A t dir" and len: "0 < maxlen" "maxlen < 4096" "nat maxlen \<le> length phys"
    and us: "user_string m A (page_directory t) dir va s (nat (maxlen - 1))"
  shows "\<exists>h mm. copy_string_from_task m (current_task m) va phys maxlen =
      Inr (0, take (nat (maxlen - 1)) s @ 0 # drop (Suc (min (nat (maxlen - 1)) (length s))) phys,
        kernel_view (m\<lparr>kernel_heap := h, mem := mm\<rparr>)) \<and>
    machine_inv (m\<lparr>kernel_heap := h, mem := mm\<rparr>) A \<and> (\<forall>b. not_free A b \<longrightarrow> mm b = mem m b)"
proof -
  obtain kp where kp: "kernelPageDirectory m = block_addr kp" "A kp = Some 1" "kp < kheap_blocks"
    "block_addr kp \<notin> dir_pages (mem m) (page_directory t) dir" using ut unfolding user_task_def by blast
  show ?thesis
    by (rule copy_string_ok [OF _ _ _ _ _ kp _ len us]) (use ut in \<open>simp_all add: user_task_def\<close>)
qed

lemma user_task_saved:
  assumes "user_task m A t dir"
  shows "user_task (saved (kernel_view m) (current_task m) t frame) A (t\<lparr>registers := frame_registers frame (registers t)\<rparr>) dir"
    "kernelPageDirectory m \<noteq> 0" "page_directory t \<noteq> 0" "load32 (mem m) (page_directory t) = dir"
    "deref (tasks m) (current_task m) = Inr t"
proof -
  show "user_task (saved (kernel_view m) (current_task m) t frame) A (t\<lparr>registers := frame_registers frame (registers t)\<rparr>) dir"
    using assms by (auto simp: user_task_def machine_inv_def saved_def deref_Inr)
  show "kernelPageDirectory m \<noteq> 0" "page_directory t \<noteq> 0" "load32 (mem m) (page_directory t) = dir"
    "deref (tasks m) (current_task m) = Inr t"
    using assms by (auto simp: user_task_def dir_inv_def pd_root_def)
qed

lemma user_string_saved:
  "user_string m A pd dir va s n \<Longrightarrow> user_string (saved (kernel_view m) a t frame) A pd dir va s n"
proof -
  have "vtranslate ((saved (kernel_view m) a t frame)\<lparr>cr3 := dir\<rparr>) x = vtranslate (m\<lparr>cr3 := dir\<rparr>) x" for x
    by (intro vtranslate_cong) simp_all
  then show "user_string m A pd dir va s n \<Longrightarrow> ?thesis" by (simp add: user_string_def)
qed

lemma screen_page:
  assumes c: "0 \<le> c" "c + int n \<le> 2000" and b: "unat (b - cell_addr c) < 2 * n"
  shows "pn b = 184"
proof -
  define d where "d = unat (b - cell_addr c)"
  have "b = cell_addr c + of_nat d" by (simp add: d_def)
  also have "\<dots> = of_nat (0xB8000 + 2 * nat c + d)" using c(1) by (simp add: cell_addr_def of_nat_nat)
  finally have e: "b = of_nat (0xB8000 + 2 * nat c + d)" .
  have "unat b = 0xB8000 + 2 * nat c + d" unfolding e by (rule unat_of_nat_u32) (use c b d_def in simp)
  then show ?thesis using c b by (simp add: pn_def d_def)
qed

lemma length_cell_row: "length (concat (map (cell_bytes k) cs)) = 2 * length cs"
  by (induction cs) simp_all

lemma screen_only:
  assumes "0 \<le> c" "c + int (length cs) \<le> 2000" and "pn b \<noteq> 184"
  shows "store_bytes mm (cell_addr c) (concat (map (cell_bytes k) cs)) b = mm b"
proof -
  have "\<not> unat (b - cell_addr c) < 2 * length cs" using screen_page [OF assms(1,2)] assms(3) by blast
  then show ?thesis using assms(1,2) by (subst store_bytes_apply) (simp_all add: length_cell_row)
qed

text \<open>The screen, in terms of the cells.\<close>

definition on_screen :: "('p, 'a) kernel_state_scheme \<Rightarrow> u8 list \<Rightarrow> bool" where
  "on_screen m cs \<longleftrightarrow> video_mem m = 0xB8000 \<and> 0 \<le> terminal_row m \<and> 0 \<le> terminal_column m \<and> terminal_column m < 80 \<and>
     cursor m + int (length cs) \<le> 2000 \<and> (\<forall>c\<in>set cs. c \<noteq> 0x0A \<and> c \<noteq> 0x08)"

lemma print_on_screen:
  fixes m :: "('p, 'a) kernel_state_scheme"
  assumes "on_screen m (cstr str)" and "terminated str"
  shows "\<exists>r c. print m str = Inr (m\<lparr>mem := store_bytes (mem m) (cell_addr (cursor m)) (concat (map (cell_bytes 15) (cstr str))),
      terminal_row := r, terminal_column := c\<rparr>) \<and> 80 * r + c = cursor m + int (length (cstr str))"
proof -
  have "terminal_row m + int (length (cstr str)) < 2 ^ 20" using assms(1) by (simp add: on_screen_def cursor_def)
  then show ?thesis
    using writechars_plain [of m "cstr str"] assms by (auto simp: on_screen_def print_def print_loop_writechars)
qed

text \<open>What keeps the pages of the directory keeps the task ready.\<close>

lemma user_task_frame:
  assumes ut: "user_task m A t dir" and m': "machine_inv m' A" "deref (tasks m') (current_task m') = Inr t'"
    "page_directory t' = page_directory t" "paging_enabled m'" "kernelPageDirectory m' = kernelPageDirectory m"
    and mem: "\<And>b x. A x = Some 1 \<Longrightarrow> pn b = 4096 + x \<Longrightarrow> mem m' b = mem m b"
  shows "user_task m' A t' dir"
proof -
  have d: "dir_inv (mem m) A (page_directory t) dir" using ut by (simp add: user_task_def)
  have "dir_inv (mem m') A (page_directory t) dir \<and> dir_pages (mem m') (page_directory t) dir = dir_pages (mem m) (page_directory t) dir \<and>
      (\<forall>va. pd_entry (mem m') dir va = pd_entry (mem m) dir va)" by (rule dir_inv_mem [OF d]) (use mem in auto)
  moreover have "load32 (mem m') (dir + of_nat (4 * i)) = load32 (mem m) (dir + of_nat (4 * i))" if "i < 1024" for i
    by (rule dir_word_kept [OF d that]) (use mem in \<open>auto simp: dir_pages_def\<close>)
  ultimately show ?thesis using ut m' by (auto simp: user_task_def dir_present_def simp del: of_nat_mult)
qed

text \<open>The argument of a system call, and the string it points to, once the kernel has saved the task.\<close>

lemma saved_stack_item:
  assumes ut: "user_task m A t dir" and arg: "stack_word m dir (frame_esp frame) 0 = Inr va"
  shows "task_get_stack_item (saved (kernel_view m) (current_task m) t frame) (current_task m) 0 =
    Inr (va, saved (kernel_view m) (current_task m) t frame)"
proof -
  let ?s = "saved (kernel_view m) (current_task m) t frame"
  have same: "kernel_view ?s = ?s" by (simp add: saved_def kernel_view_def Let_def)
  have "stack_word ?s dir (frame_esp frame) 0 = Inr va"
    using arg vload32_cong [of "?s\<lparr>cr3 := dir\<rparr>" "m\<lparr>cr3 := dir\<rparr>"] by (simp add: stack_word_def)
  then show ?thesis
    using stack_item_ok [of ?s "current_task m" _ 0 va] user_task_saved(2-5) [OF ut] by (simp add: same deref_Inr)
qed

lemma saved_copy:
  assumes ut: "user_task m A t dir" and us: "user_string m A (page_directory t) dir va s (n - 1)" and n: "1 \<le> n" "n < 4096"
    and l: "length phys = n"
  shows "\<exists>h mm m2. m2 = kernel_view ((saved (kernel_view m) (current_task m) t frame)\<lparr>kernel_heap := h, mem := mm\<rparr>) \<and>
    machine_inv m2 A \<and> (\<forall>b. not_free A b \<longrightarrow> mm b = mem m b) \<and>
    copy_string_from_task (saved (kernel_view m) (current_task m) t frame) (current_task m) va phys (int n) =
      Inr (0, take (n - 1) s @ 0 # drop (Suc (min (n - 1) (length s))) phys, m2)"
proof -
  let ?s = "saved (kernel_view m) (current_task m) t frame"
  have "user_string ?s A (page_directory (t\<lparr>registers := frame_registers frame (registers t)\<rparr>)) dir va s (nat (int n - 1))"
    using user_string_saved [OF us] n(1) by (simp add: nat_diff_distrib')
  from user_task_copy [OF user_task_saved(1) [OF ut] _ _ _ this, of phys] n l
  obtain h mm where "copy_string_from_task ?s (current_task ?s) va phys (int n) =
      Inr (0, take (n - 1) s @ 0 # drop (Suc (min (n - 1) (length s))) phys, kernel_view (?s\<lparr>kernel_heap := h, mem := mm\<rparr>))"
    "machine_inv (?s\<lparr>kernel_heap := h, mem := mm\<rparr>) A" "\<forall>b. not_free A b \<longrightarrow> mm b = mem m b"
    by (auto simp: nat_diff_distrib')
  then show ?thesis by (intro exI conjI) (assumption | rule refl | simp add: machine_inv_def)+
qed

text \<open>The command itself, before the handler goes back to the directory of the task.\<close>

lemma print_command_runs:
  assumes ut: "user_task m A t dir" and c: "areadi (isr80h_commands m) 1 = Inr (Some Command1_print)"
    and arg: "stack_word m dir (frame_esp frame) 0 = Inr va" and us: "user_string m A (page_directory t) dir va s 1023"
    and scr: "on_screen m (take 1023 s)"
  shows "\<exists>h mm r k m3. m3 = (kernel_view ((saved (kernel_view m) (current_task m) t frame)\<lparr>kernel_heap := h, mem := mm\<rparr>))\<lparr>
      mem := store_bytes mm (cell_addr (cursor m)) (concat (map (cell_bytes 15) (take 1023 s))), terminal_row := r, terminal_column := k\<rparr> \<and>
    80 * r + k = cursor m + int (length (take 1023 s)) \<and> machine_inv m3 A \<and> (\<forall>b. not_free A b \<longrightarrow> mm b = mem m b) \<and>
    isr80h_handle_command fs stk (saved (kernel_view m) (current_task m) t frame) 1 = Inr (Back 0 m3)"
proof -
  let ?s = "saved (kernel_view m) (current_task m) t frame" and ?txt = "take 1023 s" and ?phys = "map stk [0..<1024]"
  have us': "user_string m A (page_directory t) dir va s (1024 - 1)" using us by simp
  from saved_copy [OF ut us', of ?phys frame] obtain h mm m2 where
    m2: "m2 = kernel_view (?s\<lparr>kernel_heap := h, mem := mm\<rparr>)" and inv: "machine_inv m2 A" and keep: "\<forall>b. not_free A b \<longrightarrow> mm b = mem m b"
    and cp: "copy_string_from_task ?s (current_task m) va ?phys 1024 = Inr (0, ?txt @ 0 # drop (Suc (min 1023 (length s))) ?phys, m2)"
    by auto
  have "0 \<notin> set ?txt" using us by (auto simp: user_string_def dest: in_set_takeD)
  then have buf: "cstr (?txt @ 0 # rest) = ?txt" "terminated (?txt @ 0 # rest)" for rest
    by (simp_all add: cstr_append terminated_def)
  have same: "mem m2 = mm" "cursor m2 = cursor m" by (simp_all add: m2 cursor_def) (simp_all add: kernel_view_def saved_def Let_def)
  have "on_screen m2 ?txt" using scr by (simp add: on_screen_def m2 cursor_def) (simp add: kernel_view_def saved_def Let_def)
  from print_on_screen [OF _ buf(2), unfolded buf(1) same, OF this] obtain r k where
    pr: "print m2 (?txt @ 0 # drop (Suc (min 1023 (length s))) ?phys) =
      Inr (m2\<lparr>mem := store_bytes mm (cell_addr (cursor m)) (concat (map (cell_bytes 15) ?txt)), terminal_row := r, terminal_column := k\<rparr>)"
    and rk: "80 * r + k = cursor m + int (length ?txt)" unfolding same by blast
  have "isr80h_handle_command fs stk ?s 1 = Inr (Back 0 (m2\<lparr>mem := store_bytes mm (cell_addr (cursor m))
      (concat (map (cell_bytes 15) ?txt)), terminal_row := r, terminal_column := k\<rparr>))"
    using c saved_stack_item [OF ut arg] cp pr by (simp add: isr80h_handle_command_def config run_command_def comes_back_def
        isr80h_command1_print_def task_current_def)
  with inv keep rk show ?thesis unfolding m2 by (intro exI conjI) (assumption | rule refl | simp add: machine_inv_def)+
qed

text \<open>
  C9: The system call 1 puts the string of the program on the screen: the bytes at the pointer on top of the user's stack, read
  through the program's own directory and cut off after 1023, fill the cells from the cursor on in colour 15, the cursor goes
  behind them, and no other byte outside the free blocks changes. The program goes on under its own directory with its registers
  saved, and it is ready for the next such call.
\<close>

theorem system_call_print:
  assumes ut: "user_task m A t dir" and c: "areadi (isr80h_commands m) 1 = Inr (Some Command1_print)"
    and arg: "stack_word m dir (frame_esp frame) 0 = Inr va" and us: "user_string m A (page_directory t) dir va s 1023"
    and scr: "on_screen m (take 1023 s)"
  shows "\<exists>m'. isr80h_handler fs stk m 1 frame = Inr (Back 0 m') \<and> cr3 m' = dir \<and> current_task m' = current_task m \<and>
    user_task m' A (t\<lparr>registers := frame_registers frame (registers t)\<rparr>) dir \<and> isr80h_commands m' = isr80h_commands m \<and>
    tasks m' = (tasks m)(current_task m \<mapsto> t\<lparr>registers := frame_registers frame (registers t)\<rparr>) \<and>
    cursor m' = cursor m + int (length (take 1023 s)) \<and>
    (\<forall>b. not_free A b \<longrightarrow> mem m' b =
       store_bytes (mem m) (cell_addr (cursor m)) (concat (map (cell_bytes 15) (take 1023 s))) b)"
proof -
  let ?t = "t\<lparr>registers := frame_registers frame (registers t)\<rparr>" and ?txt = "take 1023 s"
  obtain h mm r k m3 where m3: "m3 = (kernel_view ((saved (kernel_view m) (current_task m) t frame)\<lparr>kernel_heap := h, mem := mm\<rparr>))\<lparr>
      mem := store_bytes mm (cell_addr (cursor m)) (concat (map (cell_bytes 15) ?txt)), terminal_row := r, terminal_column := k\<rparr>"
    and rk: "80 * r + k = cursor m + int (length ?txt)" and inv: "machine_inv m3 A" and keep: "\<forall>b. not_free A b \<longrightarrow> mm b = mem m b"
    and cmd: "isr80h_handle_command fs stk (saved (kernel_view m) (current_task m) t frame) 1 = Inr (Back 0 m3)"
    using print_command_runs [OF assms, of fs stk] by (elim exE conjE) (rule that)
  let ?m = "switched m3 (current_task m) dir"
  have cur: "0 \<le> cursor m" "cursor m + int (length ?txt) \<le> 2000" using scr by (simp_all add: on_screen_def cursor_def)
  have kept: "mem m3 b = mem m b" if "pn b \<noteq> 184" "not_free A b" for b
    using screen_only [OF cur that(1)] keep that(2) by (simp add: m3)
  then have live: "mem m3 b = mem m b" if "A y = Some 1" "pn b = 4096 + y" for b y
    using live_used [of m A y 1] ut that by (simp add: user_task_def not_free_def)
  obtain x where x: "page_directory t = block_addr x" "A x = Some 1" "x < kheap_blocks"
    using ut by (auto simp: user_task_def dir_inv_def dir_pages_def)
  then have "load32 (mem m3) (page_directory t) = load32 (mem m) (page_directory t)"
    using load32_pages [OF x(3), of 0 "mem m3" "mem m"] live by simp
  then have run: "isr80h_handler fs stk m 1 frame = Inr (Back 0 ?m)"
    using handler_back [OF _ _ _ cmd] user_task_saved(2-5) [OF ut] by (simp add: m3)
  have "mem m3 b = store_bytes (mem m) (cell_addr (cursor m)) (concat (map (cell_bytes 15) ?txt)) b" if "not_free A b" for b
    using keep that cur(2) by (simp add: m3 store_bytes_apply length_cell_row)
  moreover have "paging_enabled ?m" using ut
    by (simp add: switched_def paging_load_directory_def m3) (simp add: user_task_def)
  then have "user_task ?m A ?t dir"
    by (intro user_task_frame [OF ut]) (use ut inv live in \<open>simp_all add: user_task_def machine_inv_def deref_Inr m3\<close>)
  moreover have "cursor ?m = 80 * r + k" by (simp add: cursor_def switched_def paging_load_directory_def m3)
  ultimately show ?thesis unfolding run using rk by (intro exI [of _ ?m]) (simp add: m3)
qed

section \<open>A task to copy from\<close>

text \<open>An idle kernel, to which a page directory of the kernel and one task, whose directory maps everything to itself, are added.\<close>

lemma demo_user_task:
  fixes m0 :: "('p, 'a) task_state_scheme"
  assumes inv: "scheduler_inv m0 Map.empty []" and on: "paging_enabled m0"
  shows "\<exists>h mm kpd ts ps a A t dir pages m. m = m0\<lparr>kernel_heap := h, mem := mm, kernelPageDirectory := kpd, tasks := ts, procs := ps,
      current_task := a, task_head := a, task_tail := a\<rparr> \<and> user_task m A t dir \<and> scheduler_inv m A [(a, pages)] \<and>
    (\<forall>va. vtranslate (m\<lparr>cr3 := dir\<rparr>) va = Inr va) \<and> (\<forall>b. pn b < 4096 \<longrightarrow> mem m b = mem m0 b) \<and>
    (\<forall>x\<in>dir_pages (mem m) (page_directory t) dir. 4096 \<le> pn x) \<and> kh.used A \<subseteq> {..<1028} \<and>
    (\<forall>va. pd_entry (mem m) dir va = (va AND 0xfffff000) OR 5) \<and> dir_open (mem m) dir \<and> task_process t = 0x5000"
proof -
  have mi0: "machine_inv m0 Map.empty" using inv by (simp add: scheduler_inv_def tasks_own_def)
  have b1: "blocks_for (unat (4096 :: u32)) = 1" by (simp add: blocks_for_def)
  from kzalloc_run [OF mi0, of 4096 0, unfolded b1] obtain r mz where
    z: "heap_only m0 mz" "machine_inv mz [r \<mapsto> 1]" "r \<le> 0" "\<forall>b. \<not> (4096 + r \<le> pn b \<and> pn b < 4096 + r + 1) \<longrightarrow> mem mz b = mem m0 b"
    by (auto simp: kheap_blocks_def)
  obtain h' mm' where mz: "mz = m0\<lparr>kernel_heap := h', mem := mm'\<rparr>" using z(1) by (auto simp: heap_only_def)
  have r: "r < kheap_blocks" "kh.used [r \<mapsto> 1] = {r}" using z(3) by (auto simp: kheap_blocks_def kh.used_def covers_def)
  let ?m1 = "m0\<lparr>kernel_heap := h', mem := mm', kernelPageDirectory := block_addr r, procs := [0x5000 \<mapsto> demo_process]\<rparr>"
  have mi1: "machine_inv ?m1 [r \<mapsto> 1]" using z(2) machine_inv_kernel_heap [of ?m1 mz] mz by simp
  have "heap_below ?m1 1" using mi1 r(2) z(3) by (auto simp: heap_below_def)
  note hb = heap_below_task_new [OF _ this]
  have i1: "scheduler_inv ?m1 [r \<mapsto> 1] []" by (rule scheduler_inv_frame [OF inv mi1]) simp_all
  have room: "card (kh.used [r \<mapsto> 1]) + 1027 \<le> kheap_blocks" unfolding r(2) by (simp add: kheap_blocks_def)
  have p: "deref (procs ?m1) 0x5000 = Inr demo_process" by (simp add: deref_def)
  note new = task_new_inv [OF i1 room p demo_startable, unfolded list.map(1)]
  obtain a pages m pd ip d tts q where
    m: "m = appended (?m1\<lparr>kernel_heap := kernel_heap m, mem := mem m\<rparr>) [] a (new_task 0x5000 pd ip 0)"
    "scheduler_inv m (add_pages [r \<mapsto> 1] pages) ([] @ [(a, pages)])"
      "\<forall>x\<in>set pages. ([r \<mapsto> 1] :: live) x = None \<and> x \<notin> kh.used [r \<mapsto> 1]"
    and frame: "\<forall>b. (\<forall>x\<in>set pages. pn b \<noteq> 4096 + x) \<longrightarrow> mem m b = mem ?m1 b"
    and q: "pd = block_addr q" "linear_pd (mem m) q d tts 5" and run: "task_new ?m1 0x5000 = Inr (a, m)"
    using new by (elim exE conjE) (rule that, assumption+)

  let ?A = "add_pages [r \<mapsto> 1] pages" and ?t = "new_task 0x5000 pd ip 0"
  let ?ts = "(unlink_next (tasks m0) [] a)(a \<mapsto> ?t\<lparr>task_prev_ptr := last_of 0 []\<rparr>)"
  have m': "m = m0\<lparr>kernel_heap := kernel_heap m, mem := mem m, kernelPageDirectory := block_addr r, tasks := ?ts,
      procs := [0x5000 \<mapsto> demo_process], current_task := a, task_head := a, task_tail := a\<rparr>"
    by (rule trans [OF m(1)]) (simp add: appended_def)
  have t: "deref (tasks m) (current_task m) = Inr ?t" "current_task m = a"
  proof -
    have "a \<noteq> 0" using m(2) by (auto simp: scheduler_inv_def task_queue_def run_queue_def)
    moreover have "tasks m a = Some ?t" by (subst m(1)) (simp add: appended_def new_task_def)
    moreover show "current_task m = a" by (subst m(1)) (simp add: appended_def)
    ultimately show "deref (tasks m) (current_task m) = Inr ?t" by (simp add: deref_def)
  qed
  have own: "tasks_own m ?A [(a, pages)]" and mi: "machine_inv m ?A" using m(2) by (simp_all add: scheduler_inv_def tasks_own_def)
  then have live: "\<forall>x\<in>set pages. ?A x = Some 1" "distinct pages" "task_footprint m a pages"
    by (simp_all add: tasks_own_def pages_own_def)
  then obtain s p d' us where f: "pages = s # p # d' # us" "length us = 1024" "load32 (mem m) (block_addr p) = block_addr d'"
    "map_option page_directory (tasks m a) = Some (block_addr p)" "\<forall>i<1024. table_of (mem m) (block_addr d') i = block_addr (us ! i)"
    unfolding task_footprint_def by blast
  have bnd: "x < kheap_blocks" if "x \<in> set pages" for x using live(1) live_used [OF mi] that by blast
  have pq: "block_addr p = block_addr q" using f(4) t by (auto simp: deref_Inr new_task_def q(1))
  have dd: "block_addr d' = block_addr d" using f(3) linear_pd_root [OF q(2)] unfolding pq by (simp add: pd_root_def)
  have dir: "dir_inv (mem m) ?A (block_addr q) (block_addr d)"
    using footprint_dir_inv [of m a s p d' us ?A] live bnd unfolding f(1) pq dd by simp
  have root: "load32 (mem m) (block_addr q) = block_addr d" using linear_pd_root [OF q(2)] by (simp add: pd_root_def)
  have pages: "\<exists>y. x = block_addr y \<and> y \<in> set pages \<and> y < kheap_blocks" if "x \<in> dir_pages (mem m) (block_addr q) (block_addr d)" for x
  proof -
    have "x \<in> {block_addr p, block_addr d'} \<union> (\<lambda>i. block_addr (us ! i)) ` {..<1024}"
      using that f(5) unfolding dir_pages_def pq [symmetric] dd [symmetric] by auto
    then show ?thesis using f(1,2) bnd by auto
  qed
  have "block_addr r \<notin> dir_pages (mem m) (block_addr q) (block_addr d)"
    using pages block_addr_inj r(1) m(3) by fastforce
  moreover have "?A r = Some 1" using m(3) by (auto simp: add_pages_def)
  moreover have pr: "dir_present (mem m) (block_addr d)" by (rule linear_dir_present [OF q(2)]) (simp add: PAGING_IS_PRESENT_def)
  moreover have pe: "paging_enabled m" "kernelPageDirectory m = block_addr r" by (subst m(1), simp add: appended_def on)+
  moreover have "card (kh.used ?A) + 1 \<le> kheap_blocks"
    using f(1,2) m(3) r(2) by (intro room_add_pages) (simp_all add: kheap_blocks_def)
  ultimately have ut: "user_task m ?A ?t (block_addr d)"
    using mi t dir r(1) q(1) by (auto simp: user_task_def new_task_def Suc_le_eq)
  have "vtranslate (m\<lparr>cr3 := block_addr d\<rparr>) va = Inr va" for va
  proof -
    have "pd_entry (mem m) (block_addr d) va = (va AND 0xfffff000) OR 5" using linear_pd_entry [OF q(2)] by simp
    then show ?thesis
      using vtranslate_mapped [of "m\<lparr>cr3 := block_addr d\<rparr>" "block_addr d" va 0 0 5] pr pe(1) by (simp add: PAGING_IS_PRESENT_def off_def)
  qed
  moreover have "mem m b = mem m0 b" if "pn b < 4096" for b using frame that z(4) by (auto simp: mz)
  moreover have "kh.used ?A \<subseteq> {..<1028}" using heap_below_used [OF hb [OF run] mi] by (simp add: kheap_blocks_def)
  moreover have "4096 \<le> pn x" if "x \<in> dir_pages (mem m) (page_directory ?t) (block_addr d)" for x
    using pages that q(1) by (fastforce simp: new_task_def)
  moreover have "\<forall>va. pd_entry (mem m) (block_addr d) va = (va AND 0xfffff000) OR 5" using linear_pd_entry [OF q(2)] by simp
  moreover have "dir_open (mem m) (block_addr d)" by (rule linear_dir_open [OF q(2)])
  moreover have "task_process ?t = 0x5000" by (simp add: new_task_def)
  ultimately show ?thesis using ut m' m(2) by (intro exI conjI) (assumption | simp)+
qed

definition copy_mem :: "u32 \<Rightarrow> u8" where
  "copy_mem a = (if a = 0x8000 then 0x48 else if a = 0x8001 then 0x69 else if a = 0x9001 then 0x80 else 0)"

definition copy_frame :: InterruptFrame where
  "copy_frame = demo_frame\<lparr>frame_esp := 0x9000\<rparr>"

lemma demo_os_scheduler: "\<exists>m :: 'p os_state. scheduler_inv m Map.empty []"
proof -
  obtain m0 :: "'p os_state" where m0: "machine_inv m0 Map.empty"
    using kheap_init_ok [of "replicate kheap_blocks 0"] by fastforce
  let ?m = "m0\<lparr>tasks := Map.empty, current_task := 0, task_tail := 0, task_head := 0\<rparr>"
  have "machine_inv ?m Map.empty" using m0 machine_inv_kernel_heap [of ?m m0] by simp
  then show ?thesis
    by (intro exI [of _ ?m]) (simp add: scheduler_inv_def task_queue_def run_queue_def tasks_own_def pages_own_def)
qed

text \<open>Reading what lies below the heap, where the directory maps everything to itself.\<close>

lemma identity_word:
  assumes "\<forall>va. vtranslate (m\<lparr>cr3 := dir\<rparr>) va = Inr va" and "\<forall>b. pn b < 4096 \<longrightarrow> mem m b = mm b"
    and "pn esp < 4096" "pn (esp + 1) < 4096" "pn (esp + 2) < 4096" "pn (esp + 3) < 4096"
  shows "stack_word m dir esp 0 = Inr (load32 mm esp)"
  using assms by (simp add: stack_word_def vload32_def vload_def load32_def)

lemma identity_string:
  assumes "\<forall>va. vtranslate (m\<lparr>cr3 := dir\<rparr>) va = Inr va" and "\<forall>b. pn b < 4096 \<longrightarrow> mem m b = mm b"
    and d: "\<forall>x\<in>dir_pages (mem m) pd dir. 4096 \<le> pn x" and s: "0 \<notin> set s"
    and low: "\<forall>j\<le>length s. pn (va + of_nat j) < 4096 \<and> mm (va + of_nat j) = (s @ [0]) ! j"
  shows "user_string m A pd dir va s n"
proof -
  have "not_free A (va + of_nat j)" if "j \<le> length s" for j using low that by (auto simp: not_free_def)
  moreover have "\<forall>x\<in>dir_pages (mem m) pd dir. pn (va + of_nat j) \<noteq> pn x" if "j \<le> length s" for j
    using low d that by (metis not_le)
  ultimately show ?thesis using assms by (simp add: user_string_def)
qed

theorem system_call_print_witness:
  "\<exists>(m :: nat os_state) m'. isr80h_handler (\<lambda>_. undefined) (\<lambda>_. 0) m 1 copy_frame = Inr (Back 0 m') \<and>
     cursor m = 0 \<and> cursor m' = 2 \<and> mem m' 0xB8000 = 0x48 \<and> mem m' 0xB8002 = 0x69"
proof -
  obtain m0 :: "nat os_state" where m0: "scheduler_inv m0 Map.empty []" using demo_os_scheduler by blast
  let ?m0 = "m0\<lparr>mem := copy_mem, paging_enabled := True, isr80h_commands := map Some system_commands @ replicate 1014 None,
      video_mem := 0xB8000, terminal_row := 0, terminal_column := 0\<rparr>"
  have "machine_inv ?m0 Map.empty" using m0 machine_inv_kernel_heap [of ?m0 m0] by (simp add: scheduler_inv_def tasks_own_def)
  then have "scheduler_inv ?m0 Map.empty []" by (rule scheduler_inv_frame [OF m0]) simp_all
  from demo_user_task [OF this] obtain h mm kpd ts ps a A t dir pages and m :: "nat os_state" where
    m: "m = ?m0\<lparr>kernel_heap := h, mem := mm, kernelPageDirectory := kpd, tasks := ts, procs := ps, current_task := a,
      task_head := a, task_tail := a\<rparr>" and ut: "user_task m A t dir" and id: "\<forall>va. vtranslate (m\<lparr>cr3 := dir\<rparr>) va = Inr va"
    and low: "\<forall>b. pn b < 4096 \<longrightarrow> mem m b = mem ?m0 b" and d: "\<forall>x\<in>dir_pages (mem m) (page_directory t) dir. 4096 \<le> pn x"
    by auto
  have low: "\<forall>b. pn b < 4096 \<longrightarrow> mem m b = copy_mem b" using low by simp
  have arg: "stack_word m dir (frame_esp copy_frame) 0 = Inr 0x8000"
    using identity_word [OF id low, of "0x9000"] by (simp add: copy_frame_def pn_def load32_def copy_mem_def)
  have us: "user_string m A (page_directory t) dir 0x8000 [0x48, 0x69] 1023"
    by (rule identity_string [OF id low d]) (auto simp: copy_mem_def pn_def le_Suc_eq)
  have c: "areadi (isr80h_commands m) 1 = Inr (Some Command1_print)" by (simp add: m areadi_def system_commands_def)
  have "cursor m = 0" by (simp add: m cursor_def)
  moreover have "on_screen m (take 1023 [0x48, 0x69])" by (simp add: m on_screen_def cursor_def)
  from system_call_print [OF ut c arg us this, of "\<lambda>_. undefined" "\<lambda>_. 0"] obtain m' where
    "isr80h_handler (\<lambda>_. undefined) (\<lambda>_. 0) m 1 copy_frame = Inr (Back 0 m')" "cursor m' = cursor m + 2"
    "\<forall>b. not_free A b \<longrightarrow> mem m' b = store_bytes (mem m) (cell_addr (cursor m)) (concat (map (cell_bytes 15) [0x48, 0x69])) b"
    by auto
  moreover have "not_free A 0xB8000" "not_free A 0xB8002" by (simp_all add: not_free_def pn_def)
  ultimately show ?thesis by (intro exI [of _ m] exI [of _ m']) (simp add: cell_addr_def cell_bytes_def)
qed

end
