(* ===== verification/ProgramCall.thy ===== *)
theory ProgramCall
  imports UserCopy
begin

text \<open>
  The system call by which a program starts another (\<^verbatim>\<open>isr80h/process.c\<close>): the copy of the name, the path on the kernel's stack,
  the file, the process and the switch to its task, put together.
\<close>

section \<open>The state behind the copy\<close>

lemma scheduler_inv_registers:
  assumes inv: "scheduler_inv m A tps" and t: "tasks m a = Some t"
  shows "scheduler_inv (m\<lparr>tasks := (tasks m)(a \<mapsto> t\<lparr>registers := r\<rparr>)\<rparr>) A tps"
proof -
  have "task_footprint (m\<lparr>tasks := (tasks m)(a \<mapsto> t\<lparr>registers := r\<rparr>)\<rparr>) b pgs = task_footprint m b pgs" for b pgs
    using t by (simp add: task_footprint_def)
  moreover have "task_queue (m\<lparr>tasks := (tasks m)(a \<mapsto> t\<lparr>registers := r\<rparr>)\<rparr>) ts = task_queue m ts" for ts
    using t by (simp add: task_queue_def run_queue_def links_keep)
  ultimately show ?thesis using inv by (simp add: scheduler_inv_def tasks_own_def machine_inv_def)
qed

lemma scheduler_inv_copied:
  assumes ut: "user_task m A t dir" and inv: "scheduler_inv m A tps" and keep: "\<forall>b. not_free A b \<longrightarrow> mm b = mem m b"
    and m2: "m2 = kernel_view ((saved (kernel_view m) (current_task m) t frame)\<lparr>kernel_heap := h, mem := mm\<rparr>)"
    and mi: "machine_inv m2 A"
  shows "scheduler_inv m2 A tps"
proof -
  let ?s = "m\<lparr>tasks := (tasks m)(current_task m \<mapsto> t\<lparr>registers := frame_registers frame (registers t)\<rparr>)\<rparr>"
  have "tasks m (current_task m) = Some t" using ut by (simp add: user_task_def deref_Inr)
  from scheduler_inv_registers [OF inv this] have s: "scheduler_inv ?s A tps" .
  have fields: "tasks m2 = tasks ?s" "task_head m2 = task_head ?s" "task_tail m2 = task_tail ?s" "current_task m2 = current_task ?s"
    by (simp_all add: m2)
  have "mem m2 b = mem ?s b" if x: "A x = Some 1" "pn b = 4096 + x" for b x
    using keep live_used [of m A x 1] ut x by (simp add: m2 user_task_def not_free_def)
  with scheduler_inv_frame [OF s mi fields] show ?thesis by blast
qed

lemma openable_copied:
  assumes op: "openable m A path k slot" and mi: "machine_inv m2 A"
    and m2: "m2 = kernel_view ((saved (kernel_view m) (current_task m) t frame)\<lparr>kernel_heap := h, mem := mm\<rparr>)"
    and p: "terminated path'" "cstr path' = cstr path" "path' ! 0 = path ! 0"
  shows "openable m2 A path' k slot"
proof -
  have "disk m2 = disk m" "fat_private m2 = fat_private m" "file_descriptors m2 = file_descriptors m"
    by (simp_all add: m2 kernel_view_def saved_def Let_def)
  with op mi p show ?thesis by (simp add: openable_def fat_ready_def)
qed

text \<open>The path on the stack.\<close>

lemma stack_prefix: "length stack = 108 \<Longrightarrow> strcpy stack [0x30, 0x3A, 0x2F, 0] = Inr ([0x30, 0x3A, 0x2F] @ 0 # drop 4 stack)"
proof -
  have c: "cstr [0x30, 0x3A, 0x2F, 0] = [0x30, 0x3A, 0x2F]" by simp
  have n: "Suc (Suc (Suc (Suc 0))) = 4" by simp
  assume "length stack = 108"
  then show ?thesis using strcpy_ok [of "[0x30, 0x3A, 0x2F, 0]" stack, unfolded c] by (simp add: terminated_def n)
qed

lemma start_path:
  assumes s: "0 \<notin> set s" "length s < 105" and l: "length stack = 108"
  shows "\<exists>path rest junk. strcpy stack [0x30, 0x3A, 0x2F, 0] = Inr path \<and> strcpy (drop 3 path) (s @ 0 # r) = Inr rest \<and>
    take 3 path @ rest = [0x30, 0x3A, 0x2F] @ s @ 0 # junk"
proof -
  note stack_prefix [OF l]
  moreover have "strcpy (0 # drop 4 stack) (s @ 0 # r) = Inr (s @ 0 # drop (Suc (length s)) (0 # drop 4 stack))"
    using strcpy_ok [of "s @ 0 # r" "0 # drop 4 stack"] cstr_append [OF s(1), of r] s(2) l by (simp add: terminated_def)
  ultimately show ?thesis by (intro exI conjI) (assumption | simp)+
qed

lemma start_path_overruns:
  assumes s: "0 \<notin> set s" "105 \<le> length s" and l: "length stack = 108"
  shows "\<exists>path. strcpy stack [0x30, 0x3A, 0x2F, 0] = Inr path \<and> strcpy (drop 3 path) (s @ 0 # r) = Inl OutOfBounds"
proof -
  note stack_prefix [OF l]
  moreover have "strcpy (0 # drop 4 stack) (s @ 0 # r) = Inl OutOfBounds"
    using cstr_append [OF s(1), of r] s(2) l by (intro strcpy_overrun) (simp_all add: terminated_def)
  ultimately show ?thesis by simp
qed

text \<open>What the handler does up to the copy of the name.\<close>

lemma start_call_copy:
  assumes ut: "user_task m A t dir" and c: "areadi (isr80h_commands m) 6 = Inr (Some Command6_process_load_start)"
    and arg: "stack_word m dir (frame_esp frame) 0 = Inr va" and us: "user_string m A (page_directory t) dir va s 107"
  shows "\<exists>h mm r m2. m2 = kernel_view ((saved (kernel_view m) (current_task m) t frame)\<lparr>kernel_heap := h, mem := mm\<rparr>) \<and>
    machine_inv m2 A \<and> (\<forall>b. not_free A b \<longrightarrow> mm b = mem m b) \<and>
    isr80h_handle_command fs stk (saved (kernel_view m) (current_task m) t frame) 6 =
      bindE (strcpy (map (\<lambda>i. stk (108 + i)) [0..<108]) [0x30, 0x3A, 0x2F, 0]) (\<lambda>path.
      bindE (strcpy (drop 3 path) (take 107 s @ 0 # r)) (\<lambda>rest.
      bindE (process_load_switch fs m2 (take 3 path @ rest) 0) (\<lambda>(res, process, m3).
        if res < 0 then Inr (Back 0 m3) else run_process m3 process)))"
proof -
  let ?s = "saved (kernel_view m) (current_task m) t frame"
  have us': "user_string m A (page_directory t) dir va s (108 - 1)" using us by simp
  from saved_copy [OF ut us', of "map stk [0..<108]" frame] obtain h mm m2 where
    "m2 = kernel_view (?s\<lparr>kernel_heap := h, mem := mm\<rparr>)" "machine_inv m2 A" "\<forall>b. not_free A b \<longrightarrow> mm b = mem m b"
    "copy_string_from_task ?s (current_task m) va (map stk [0..<108]) 108 =
      Inr (0, take 107 s @ 0 # drop (Suc (min 107 (length s))) (map stk [0..<108]), m2)" by auto
  then show ?thesis
    using c saved_stack_item [OF ut arg]
    by (intro exI conjI) (assumption | rule refl | simp add: isr80h_handle_command_def config run_command_def task_current_def
        isr80h_command6_process_load_start_def)+
qed

section \<open>The new process\<close>

lemma task_switch_process [simp]:
  "task_switch (m\<lparr>current_process := pp\<rparr>) a = bindE (task_switch m a) (\<lambda>s. Inr (s\<lparr>current_process := pp\<rparr>))"
  by (cases "deref (tasks m) a") (simp_all add: task_switch_def paging_switch_def wread_def paging_load_directory_def Let_def)

lemma vtranslate_process [simp]: "vtranslate (m\<lparr>current_process := pp\<rparr>) va = vtranslate m va"
  by (simp add: vtranslate_def Let_def)

lemma scheduler_inv_switched:
  assumes inv: "scheduler_inv m A tps" and a: "a \<in> set (map fst tps)"
  shows "scheduler_inv ((switched m a d)\<lparr>current_process := pp\<rparr>) A tps"
proof -
  note s = scheduler_inv_switch [OF inv a, of d]
  then have "machine_inv ((switched m a d)\<lparr>current_process := pp\<rparr>) A" by (simp add: scheduler_inv_def tasks_own_def machine_inv_def)
  then show ?thesis by (rule scheduler_inv_frame [OF s]) simp_all
qed

lemma first_free_slot:
  assumes "0 \<in> set xs"
  shows "\<exists>i<length xs. first_slot (\<lambda>p. p = 0) xs 0 = Some i \<and> xs ! i = (0 :: u32)"
proof -
  obtain i where "first_slot (\<lambda>p. p = 0) xs 0 = Some i" using assms first_slot_None [of "\<lambda>p. p = (0 :: u32)" xs 0] by fastforce
  with first_slot_0 [OF this] show ?thesis by auto
qed

text \<open>
  What the command finds behind the copy of the name: the state of before but for the free blocks, and the path in it.
\<close>

lemma start_call_path:
  fixes m :: "FAT_FileDescriptor os_state"
  assumes ut: "user_task m A t dir" and c: "areadi (isr80h_commands m) 6 = Inr (Some Command6_process_load_start)"
    and arg: "stack_word m dir (frame_esp frame) 0 = Inr va" and us: "user_string m A (page_directory t) dir va s 107"
    and name: "length s < 105" and op: "openable m A ([0x30, 0x3A, 0x2F] @ s @ [0]) k slot"
    and disk: "file_on_disk img m k cs bs" and inv: "scheduler_inv m A tps"
  shows "\<exists>m2 path. openable m2 A path k slot \<and> file_on_disk img m2 k cs bs \<and> scheduler_inv m2 A tps \<and> paging_enabled m2 \<and>
    processes m2 = processes m \<and> isr80h_handle_command fs stk (saved (kernel_view m) (current_task m) t frame) 6 =
      bindE (process_load_switch fs m2 path 0) (\<lambda>(res, process, m3). if res < 0 then Inr (Back 0 m3) else run_process m3 process)"
proof -
  let ?s = "saved (kernel_view m) (current_task m) t frame"
  have z: "0 \<notin> set s" "0 \<notin> set ([0x30, 0x3A, 0x2F] @ s)" using us by (simp_all add: user_string_def)
  obtain h mm r m2 where m2: "m2 = kernel_view (?s\<lparr>kernel_heap := h, mem := mm\<rparr>)" and mi: "machine_inv m2 A"
    and keep: "\<forall>b. not_free A b \<longrightarrow> mm b = mem m b" and run: "isr80h_handle_command fs stk ?s 6 =
      bindE (strcpy (map (\<lambda>i. stk (108 + i)) [0..<108]) [0x30, 0x3A, 0x2F, 0]) (\<lambda>path.
      bindE (strcpy (drop 3 path) (take 107 s @ 0 # r)) (\<lambda>rest.
      bindE (process_load_switch fs m2 (take 3 path @ rest) 0) (\<lambda>(res, process, m3).
        if res < 0 then Inr (Back 0 m3) else run_process m3 process)))"
    using start_call_copy [OF ut c arg us, of fs stk] by (elim exE conjE) (rule that)
  have s: "take 107 s = s" "length (map (\<lambda>i. stk (108 + i)) [0..<108]) = 108" using name by simp_all
  from start_path [OF z(1) name s(2)] obtain path rest junk where
    path: "strcpy (map (\<lambda>i. stk (108 + i)) [0..<108]) [0x30, 0x3A, 0x2F, 0] = Inr path"
      "strcpy (drop 3 path) (s @ 0 # r) = Inr rest" "take 3 path @ rest = [0x30, 0x3A, 0x2F] @ s @ 0 # junk" by blast
  let ?path = "[0x30, 0x3A, 0x2F] @ s @ 0 # junk"
  have "cstr ?path = cstr ([0x30, 0x3A, 0x2F] @ s @ [0])"
    using cstr_append [OF z(2), of junk] cstr_append [OF z(2), of "[]"] by simp
  then have op2: "openable m2 A ?path k slot" by (intro openable_copied [OF op mi m2]) (simp_all add: terminated_def)
  have same: "processes m2 = processes m" "fat_private m2 = fat_private m" "paging_enabled m2 = paging_enabled m"
    by (simp_all add: m2 kernel_view_def saved_def Let_def)
  have "file_on_disk img m2 k cs bs" using disk unfolding file_on_disk_def root_entry_def same .
  moreover have "scheduler_inv m2 A tps" by (rule scheduler_inv_copied [OF ut inv keep m2 mi])
  moreover have "paging_enabled m2" using ut same by (simp add: user_task_def)
  moreover have "isr80h_handle_command fs stk ?s 6 =
      bindE (process_load_switch fs m2 ?path 0) (\<lambda>(res, process, m3). if res < 0 then Inr (Back 0 m3) else run_process m3 process)"
    unfolding run [unfolded s(1)] path(1) bindE_Inr path(2,3) ..
  ultimately show ?thesis using op2 same(1) by blast
qed

section \<open>Properties\<close>

text \<open>
  C3: The system call 6 starts a program from the disk: when the string at the pointer on top of the user's stack names an ELF file
  of the root directory, a slot is free and the heap has room, the kernel does not come back to the caller but continues in user
  mode at the entry point of the file, under the directory of a new task at the end of the queue that belongs to the new
  current process in the slot; the program finds the bytes of the file, as the driver finds them on the disk (\<open>file_on_disk\<close>), at
  its addresses, and its stack.
\<close>

theorem system_call_start:
  fixes m :: "FAT_FileDescriptor os_state"
  assumes ut: "user_task m A t dir" and c: "areadi (isr80h_commands m) 6 = Inr (Some Command6_process_load_start)"
    and arg: "stack_word m dir (frame_esp frame) 0 = Inr va" and us: "user_string m A (page_directory t) dir va s 107"
    and name: "length s < 105" and op: "openable m A ([0x30, 0x3A, 0x2F] @ s @ [0]) k slot" "slot < 511"
    and disk: "file_on_disk img m k cs bs" and prog: "program_file bs" and inv: "scheduler_inv m A tps"
    and sl: "length (processes m) = 12" "0 \<in> set (processes m)"
    and top: "kh.used A \<subseteq> {..<tp}" "tp + 9 * blocks_for (length bs) + 1038 \<le> kheap_blocks"
  shows "\<exists>i a pages A' p m' stack. isr80h_handler (fat16_fs img) stk m 6 frame =
      Inr (ToUser (start_registers (e_entry (Elf_header_at (byte_mem bs) 0))) m') \<and>
    processes m ! i = 0 \<and> processes m' = (processes m)[i := current_process m'] \<and> current_task m' = a \<and>
    scheduler_inv m' A' (tps @ [(a, pages)]) \<and> procs m' (current_process m') = Some p \<and> proc_task p = a \<and>
    program_visible m' bs \<and> (\<forall>j<16384. vtranslate m' (0x3FB000 + of_nat j) = Inr (stack + of_nat j))"
proof -
  let ?s = "saved (kernel_view m) (current_task m) t frame"
  obtain m2 path where m2: "openable m2 A path k slot" "file_on_disk img m2 k cs bs" "scheduler_inv m2 A tps" "paging_enabled m2"
      "processes m2 = processes m" and run: "isr80h_handle_command (fat16_fs img) stk ?s 6 =
      bindE (process_load_switch (fat16_fs img) m2 path 0) (\<lambda>(res, process, m3).
        if res < 0 then Inr (Back 0 m3) else run_process m3 process)"
    using start_call_path [OF ut c arg us name op(1) disk inv, of "fat16_fs img" stk] by (elim exE conjE) (rule that)
  obtain i where i: "i < 12" "process_get_free_slot m2 = int i" "processes m ! i = 0"
    using first_free_slot [OF sl(2)] sl(1) m2(5) by (auto simp: process_get_free_slot_def)
  have slot: "0 \<le> int i" "int i < 12" "length (processes m2) = 12" "processes m2 ! nat (int i) = 0" using i sl m2(5) by simp_all
  from program_slot_ok [OF m2(1) op(2) m2(2) prog m2(3,4) slot top, of 0] obtain pp f r a pages A' d m' where
    e: "process_load_for_slot (fat16_fs img) m2 path 0 (int i) = Inr (0, pp, m')" "processes m' = (processes m2)[nat (int i) := pp]"
      "scheduler_inv m' A' (tps @ [(a, pages)])" "mem_bytes (mem m') (elf_mem f) (length bs) = bs" "off (elf_mem f) = 0"
      "unat (elf_mem f) \<le> 2 ^ 30" "started m' pp (int i) f (length bs) r a d" "pp \<noteq> 0" by blast
  have "length bs \<le> length cs * cluster_bytes (fat_private m)" "length cs * cluster_bytes (fat_private m) < 2 ^ 31"
    using disk unfolding file_on_disk_def by blast+
  then have len: "length bs < 2 ^ 32" by simp
  note st = e(7) [unfolded started_def file_in_mem(1,2) [OF e(4) len prog]]
  obtain tk p where tk: "tasks m' a = Some tk" "registers tk = start_registers (e_entry (Elf_header_at (byte_mem bs) 0))"
    and p: "procs m' pp = Some p" "proc_task p = a" using st by blast
  let ?m = "(switched m' a d)\<lparr>current_process := pp\<rparr>"
  have "process_load_switch (fat16_fs img) m2 path 0 = Inr (0, pp, m'\<lparr>current_process := pp\<rparr>)"
    using e(1) i(2) by (simp add: process_load_switch_def process_load_def process_switch_def)
  moreover have "run_process (m'\<lparr>current_process := pp\<rparr>) pp = Inr (ToUser (registers tk) ?m)"
    using st tk(1) p e(8) by (simp add: run_process_def task_return_def deref_def)
  ultimately have "isr80h_handle_command (fat16_fs img) stk ?s 6 = Inr (ToUser (registers tk) ?m)" unfolding run by simp
  then have "isr80h_handler (fat16_fs img) stk m 6 frame = Inr (ToUser (registers tk) ?m)"
    using user_task_saved(2-5) [OF ut] save_state_ok [of "kernel_view m" t frame]
    by (simp add: isr80h_handler_def kernel_page_view)
  moreover have "program_visible ?m bs"
    using started_visible [OF e(7,4,5,6) len prog] by (simp add: program_visible_def vload_def)
  moreover have "scheduler_inv ?m A' (tps @ [(a, pages)])" by (rule scheduler_inv_switched [OF e(3)]) simp
  moreover have "\<forall>j<16384. vtranslate ?m (0x3FB000 + of_nat j) = Inr (block_addr r + of_nat j)" using st by simp
  ultimately show ?thesis using i(3) e(2) m2(5) p unfolding tk(2)
    by (intro exI [of _ i] exI [of _ a] exI [of _ pages] exI [of _ A'] exI [of _ p] exI [of _ ?m] exI [of _ "block_addr r"]) simp
qed

text \<open>
  C32: The name is not checked: a name of 105 characters or more is copied past the end of the array \<^verbatim>\<open>path\<close> on the kernel's stack,
  whatever the file system holds.
\<close>

theorem system_call_start_overruns:
  assumes ut: "user_task m A t dir" and c: "areadi (isr80h_commands m) 6 = Inr (Some Command6_process_load_start)"
    and arg: "stack_word m dir (frame_esp frame) 0 = Inr va" and us: "user_string m A (page_directory t) dir va s 107"
    and name: "105 \<le> length s"
  shows "isr80h_handler fs stk m 6 frame = Inl OutOfBounds"
proof -
  have "0 \<notin> set (take 107 s)" using us by (auto simp: user_string_def dest: in_set_takeD)
  moreover have "105 \<le> length (take 107 s)" using name by simp
  moreover have "length (map (\<lambda>i. stk (108 + i)) [0..<108]) = 108" by simp
  ultimately have over: "\<exists>path. strcpy (map (\<lambda>i. stk (108 + i)) [0..<108]) [0x30, 0x3A, 0x2F, 0] = Inr path \<and>
      strcpy (drop 3 path) (take 107 s @ 0 # r) = Inl OutOfBounds" for r by (rule start_path_overruns)
  obtain r m2 where run: "isr80h_handle_command fs stk (saved (kernel_view m) (current_task m) t frame) 6 =
      bindE (strcpy (map (\<lambda>i. stk (108 + i)) [0..<108]) [0x30, 0x3A, 0x2F, 0]) (\<lambda>path.
      bindE (strcpy (drop 3 path) (take 107 s @ 0 # r)) (\<lambda>rest.
      bindE (process_load_switch fs m2 (take 3 path @ rest) 0) (\<lambda>(res, process, m3).
        if res < 0 then Inr (Back 0 m3) else run_process m3 process)))"
    using start_call_copy [OF ut c arg us, of fs stk] by (elim exE conjE) (rule that)
  obtain path where path: "strcpy (map (\<lambda>i. stk (108 + i)) [0..<108]) [0x30, 0x3A, 0x2F, 0] = Inr path"
    "strcpy (drop 3 path) (take 107 s @ 0 # r) = Inl OutOfBounds" using over [of r] by blast
  have "isr80h_handle_command fs stk (saved (kernel_view m) (current_task m) t frame) 6 = Inl OutOfBounds"
    unfolding run path(1) bindE_Inr path(2) by simp
  then show ?thesis
    using user_task_saved(2-5) [OF ut] save_state_ok [of "kernel_view m" t frame]
    by (simp add: isr80h_handler_def kernel_page_view)
qed

section \<open>A program that names a file\<close>

definition name_mem :: "u8 list \<Rightarrow> u32 \<Rightarrow> u8" where
  "name_mem s a = (if 0x8000 \<le> unat a \<and> unat a < 0x8000 + length s then s ! (unat a - 0x8000)
     else if a = 0x9001 then 0x80 else 0)"

lemma name_mem_string:
  assumes "length s < 2048" and j: "j \<le> length s"
  shows "pn (0x8000 + of_nat j) < 4096 \<and> name_mem s (0x8000 + of_nat j) = (s @ [0]) ! j"
proof -
  have e: "(0x8000 + of_nat j :: u32) = of_nat (0x8000 + j)" by simp
  have u: "unat (0x8000 + of_nat j :: u32) = 0x8000 + j" unfolding e by (rule unat_of_nat_u32) (use assms in simp)
  then have "(0x8000 + of_nat j :: u32) \<noteq> 0x9001" using assms by auto
  then show ?thesis using u assms by (auto simp: name_mem_def pn_def nth_append)
qed

lemma demo_start_call:
  assumes s: "0 \<notin> set s" "length s < 2048"
  shows "\<exists>(m :: FAT_FileDescriptor os_state) A t dir a pages. user_task m A t dir \<and>
    areadi (isr80h_commands m) 6 = Inr (Some Command6_process_load_start) \<and>
    stack_word m dir (frame_esp copy_frame) 0 = Inr 0x8000 \<and> user_string m A (page_directory t) dir 0x8000 s 107 \<and>
    scheduler_inv m A [(a, pages)] \<and> fat_private m = exe_private \<and> processes m = replicate 12 0 \<and>
    openable m A demo_file_path 0 0 \<and> kh.used A \<subseteq> {..<1028} \<and> isr80h_commands m = map Some system_commands @ replicate 1014 None"
proof -
  obtain m0 :: "FAT_FileDescriptor os_state" where m0: "scheduler_inv m0 Map.empty []" using demo_os_scheduler by blast
  let ?m0 = "m0\<lparr>mem := name_mem s, paging_enabled := True, isr80h_commands := map Some system_commands @ replicate 1014 None,
      disk := (disk m0)\<lparr>fs_private := 1, sector_size := 512, filesystem := Some fat16_init\<rparr>, fat_private := exe_private,
      file_descriptors := None # replicate 511 None, processes := replicate 12 0\<rparr>"
  have "machine_inv ?m0 Map.empty" using m0 machine_inv_kernel_heap [of ?m0 m0] by (simp add: scheduler_inv_def tasks_own_def)
  then have "scheduler_inv ?m0 Map.empty []" by (rule scheduler_inv_frame [OF m0]) simp_all
  from demo_user_task [OF this] obtain h mm kpd ts ps a A t dir pages and m :: "FAT_FileDescriptor os_state" where
    m: "m = ?m0\<lparr>kernel_heap := h, mem := mm, kernelPageDirectory := kpd, tasks := ts, procs := ps, current_task := a,
      task_head := a, task_tail := a\<rparr>" and ut: "user_task m A t dir" and inv: "scheduler_inv m A [(a, pages)]"
    and id: "\<forall>va. vtranslate (m\<lparr>cr3 := dir\<rparr>) va = Inr va" and low: "\<forall>b. pn b < 4096 \<longrightarrow> mem m b = mem ?m0 b"
    and d: "\<forall>x\<in>dir_pages (mem m) (page_directory t) dir. 4096 \<le> pn x" and used: "kh.used A \<subseteq> {..<1028}" by auto
  have low: "\<forall>b. pn b < 4096 \<longrightarrow> mem m b = name_mem s b" using low by simp
  have "load32 (name_mem s) 0x9000 = 0x8000" using s(2) by (simp add: load32_def name_mem_def)
  then have arg: "stack_word m dir (frame_esp copy_frame) 0 = Inr 0x8000"
    using identity_word [OF id low, of "0x9000"] by (simp add: copy_frame_def pn_def)
  have us: "user_string m A (page_directory t) dir 0x8000 s 107"
    by (rule identity_string [OF id low d s(1)]) (use name_mem_string [OF s(2)] in blast)
  have "card (kh.used A) \<le> 1028" using card_mono [OF _ used] by simp
  then have room: "card (kh.used A) + 7 \<le> kheap_blocks" by (simp add: kheap_blocks_def)
  have c: "cstr demo_name = [104, 101, 108, 108, 111, 46, 116, 120, 116]" by (simp add: demo_name_def cstr_def)
  have parts: "path_parts (drop 3 (cstr demo_file_path)) = [cstr demo_name]"
    unfolding c by (simp add: demo_file_path_def path_parts.simps slash_def)
  have "fat_ready m" by (simp add: m fat_ready_def exe_private_def demo_private_def stream_ok_def)
  moreover have "terminated demo_file_path" "valid_path (cstr demo_file_path)" "demo_file_path ! 0 = 0x30"
    by (simp_all add: demo_file_path_def valid_path_def is_digit_def slash_def config terminated_def)
  moreover have "fat_private m = exe_private" "processes m = replicate 12 0" "filesystem (disk m) = Some fat16_init"
    "first_free (file_descriptors m) = Some 0" "areadi (isr80h_commands m) 6 = Inr (Some Command6_process_load_start)"
    by (simp_all add: m areadi_def system_commands_def)
  moreover have "machine_inv m A" using ut by (simp add: user_task_def)
  ultimately have "openable m A demo_file_path 0 0" "fat_private m = exe_private" "processes m = replicate 12 0"
    "areadi (isr80h_commands m) 6 = Inr (Some Command6_process_load_start)"
    using exe_unique parts room by (auto simp: openable_def)
  moreover have "isr80h_commands m = map Some system_commands @ replicate 1014 None" by (simp add: m)
  ultimately show ?thesis using ut arg us inv used by blast
qed

theorem system_call_start_witness:
  "\<exists>(m :: FAT_FileDescriptor os_state) r m'. isr80h_handler (fat16_fs exe_img) (\<lambda>_. 0x41) m 6 copy_frame = Inr (ToUser r m') \<and>
     reg_ip r = 0x400054 \<and> vload m' 0x400054 = Inr 0xEB"
proof -
  let ?s = "[104, 101, 108, 108, 111, 46, 116, 120, 116] :: u8 list"
  have s: "0 \<notin> set ?s" "length ?s < 2048" "length ?s < 105" by simp_all
  obtain A t dir a pages and m :: "FAT_FileDescriptor os_state" where
    m: "user_task m A t dir" "areadi (isr80h_commands m) 6 = Inr (Some Command6_process_load_start)"
      "stack_word m dir (frame_esp copy_frame) 0 = Inr 0x8000" "user_string m A (page_directory t) dir 0x8000 ?s 107"
      "scheduler_inv m A [(a, pages)]" "fat_private m = exe_private" "processes m = replicate 12 0"
      "openable m A demo_file_path 0 0" "kh.used A \<subseteq> {..<1028}" using demo_start_call [OF s(1,2)] by blast
  have op: "openable m A ([0x30, 0x3A, 0x2F] @ ?s @ [0]) 0 0" using m(8) by (simp add: demo_file_path_def)
  have sl: "length (processes m) = 12" "0 \<in> set (processes m)" using m(7) by simp_all
  have tp: "1028 + 9 * blocks_for (length demo_exe) + 1038 \<le> kheap_blocks"
    by (simp add: demo_exe_headers(1) blocks_for_def kheap_blocks_def)
  from system_call_start [OF m(1-4) s(3) op _ exe_on_disk [OF m(6)] demo_exe_program m(5) sl m(9) tp, of "\<lambda>_. 0x41"] obtain m' where
    r: "isr80h_handler (fat16_fs exe_img) (\<lambda>_. 0x41) m 6 copy_frame =
      Inr (ToUser (start_registers (e_entry (Elf_header_at (byte_mem demo_exe) 0))) m')" and vis: "program_visible m' demo_exe" by auto
  have "\<not> in_stack (p_vaddr exe_phdr + of_nat 84)" by (simp add: in_stack_def pn_def exe_phdr_def)
  then have "vload m' (p_vaddr exe_phdr + of_nat 84) = Inr (demo_exe ! (unat (p_offset exe_phdr) + 84))"
    using vis [unfolded program_visible_def, rule_format, of "[]" exe_phdr "[]" 84] by (simp add: demo_exe_headers exe_phdr_def)
  moreover have "p_vaddr exe_phdr + of_nat 84 = 0x400054" "demo_exe ! (unat (p_offset exe_phdr) + 84) = 0xEB"
    "reg_ip (start_registers (e_entry (Elf_header_at (byte_mem demo_exe) 0))) = 0x400054" by code_simp+
  ultimately show ?thesis using r by metis
qed

theorem system_call_start_overruns_witness:
  "\<exists>m :: FAT_FileDescriptor os_state. isr80h_handler (fat16_fs exe_img) (\<lambda>_. 0x41) m 6 copy_frame = Inl OutOfBounds"
proof -
  let ?s = "replicate 105 0x61 :: u8 list"
  have "0 \<notin> set ?s" "length ?s < 2048" "105 \<le> length ?s" by simp_all
  then show ?thesis using demo_start_call [of ?s] system_call_start_overruns [of _ _ _ _ copy_frame "0x8000" ?s] by meson
qed

end
