(* ===== verification/ProgramLife.thy ===== *)
theory ProgramLife
  imports Isolation ProgramCall
begin

text \<open>
  The life of a program between its start and its end: stores of user code and the system calls that give it memory and take
  it back (\<^verbatim>\<open>isr80h/heap.c\<close>), in any order. The invariant says what the program can write to, its image, its stack and the
  blocks it has been given, and the properties say that nothing else in the machine is changed by it.
\<close>

section \<open>The frames of the allocations\<close>

definition alloc_frames :: "ProcessAllocation \<Rightarrow> nat set" where
  "alloc_frames a = {pn (alloc_ptr a)..<pn (alloc_ptr a) + blocks_for (unat (alloc_size a))}"

definition own_frames :: "ProcessAllocation list \<Rightarrow> nat set" where
  "own_frames as = (\<Union>a\<in>set as. alloc_frames a)"

lemma alloc_frames_free: "alloc_size a = 0 \<Longrightarrow> alloc_frames a = {}"
  by (simp add: alloc_frames_def blocks_for_def)

lemma alloc_frames_block: "s \<le> kheap_blocks \<Longrightarrow> alloc_ptr a = block_addr s \<Longrightarrow> blocks_for (unat (alloc_size a)) = k \<Longrightarrow>
    pn va \<in> alloc_frames a \<longleftrightarrow> in_blocks s k va"
  by (simp add: alloc_frames_def in_blocks_def)

lemma own_frames_add:
  assumes "i < length as" and "alloc_size (as ! i) = 0"
  shows "own_frames (as[i := a]) = own_frames as \<union> alloc_frames a"
proof -
  have "alloc_frames (as ! i) = {}" by (rule alloc_frames_free [OF assms(2)])
  moreover have "set (as[i := a]) = insert a (set (as[i := a]))" using assms(1) by (simp add: insert_absorb set_update_memI)
  moreover have "b \<in> set (as[i := a]) \<or> b = as ! i" if "b \<in> set as" for b
    using that assms(1) by (metis in_set_conv_nth length_list_update nth_list_update_neq)
  moreover have "b \<in> set as \<or> b = a" if "b \<in> set (as[i := a])" for b using that set_update_subset_insert [of as i a] by blast
  ultimately show ?thesis unfolding own_frames_def by blast
qed

lemma own_frames_drop:
  assumes "i < length as"
  shows "own_frames (as[i := no_allocation]) \<subseteq> own_frames as" and "own_frames as \<subseteq> own_frames (as[i := no_allocation]) \<union> alloc_frames (as ! i)"
proof -
  have e: "alloc_frames no_allocation = {}" by (rule alloc_frames_free) (simp add: no_allocation_def)
  have "b \<in> set as \<or> b = no_allocation" if "b \<in> set (as[i := no_allocation])" for b
    using that set_update_subset_insert [of as i no_allocation] by blast
  then show "own_frames (as[i := no_allocation]) \<subseteq> own_frames as" using e unfolding own_frames_def by blast
  have "b \<in> set (as[i := no_allocation]) \<or> b = as ! i" if "b \<in> set as" for b
    using that assms by (metis in_set_conv_nth length_list_update nth_list_update_neq)
  then show "own_frames as \<subseteq> own_frames (as[i := no_allocation]) \<union> alloc_frames (as ! i)" unfolding own_frames_def by blast
qed

section \<open>The invariant of a running program\<close>

text \<open>
  What a program can write to lies in \<open>P\<close>, its image and its stack, or is a page of one of its allocations, mapped to
  itself; \<open>F\<close> are pages of others: of the kernel, of other programs, of the task structures, but neither free ones nor those of
  the program's directory, which the kernel changes for it.
\<close>

definition reaches :: "(u32 \<Rightarrow> u8) \<Rightarrow> u32 \<Rightarrow> nat set \<Rightarrow> ProcessAllocation list \<Rightarrow> bool" where
  "reaches mm dir P as \<longleftrightarrow> (\<forall>va. pd_entry mm dir va AND 7 = 7 \<longrightarrow>
     pn (pd_entry mm dir va) \<in> P \<or> pn (pd_entry mm dir va) = pn va \<and> pn va \<in> own_frames as)"

definition foreign :: "live \<Rightarrow> u32 set \<Rightarrow> nat set \<Rightarrow> ProcessAllocation list \<Rightarrow> nat set \<Rightarrow> bool" where
  "foreign A D P as F \<longleftrightarrow> (\<forall>n\<in>F. n \<notin> P \<and> n \<notin> own_frames as \<and> n \<notin> pn ` D \<and>
     (\<forall>x<kheap_blocks. n = 4096 + x \<longrightarrow> x \<in> kh.used A))"

definition program_life ::
  "('p, 'a) task_state_scheme \<Rightarrow> live \<Rightarrow> u32 \<Rightarrow> Process \<Rightarrow> Task \<Rightarrow> u32 \<Rightarrow> nat set \<Rightarrow> nat set \<Rightarrow> bool" where
  "program_life m A pp p t dir P F \<longleftrightarrow> process_inv m A pp p t dir \<and> current_task m = proc_task p \<and> task_process t = pp \<and>
     paging_enabled m \<and> cr3 m = dir \<and> dir_open (mem m) dir \<and> reaches (mem m) dir P (allocations p) \<and>
     (\<forall>a\<in>dir_pages (mem m) (page_directory t) dir. pn a \<notin> P) \<and>
     foreign A (dir_pages (mem m) (page_directory t) dir) P (allocations p) F"

lemma own_frames_apart:
  assumes inv: "process_inv m A pp p t dir" and a: "a \<in> dir_pages (mem m) (page_directory t) dir"
  shows "pn a \<notin> own_frames (allocations p)"
proof
  let ?D = "dir_pages (mem m) (page_directory t) dir"
  have mi: "machine_inv m A" and d: "dir_inv (mem m) A (page_directory t) dir" and own: "allocs_own A ?D (allocations p)"
    using inv by (simp_all add: process_inv_def)
  obtain x where x: "a = block_addr x" "A x = Some 1" "x < kheap_blocks" using d a by (auto simp: dir_inv_def)
  assume "pn a \<in> own_frames (allocations p)"
  then obtain b where b: "b \<in> set (allocations p)" "4096 + x \<in> alloc_frames b" using x by (auto simp: own_frames_def less_imp_le)
  then have "alloc_size b \<noteq> 0" using alloc_frames_free by blast
  moreover have "alloc_ok A ?D b" using own b(1) by (simp add: allocs_own_def)
  ultimately obtain s where s: "alloc_ptr b = block_addr s" "alloc_ptr b \<notin> ?D" "s < kheap_blocks" "A s = Some (blocks_for (unat (alloc_size b)))"
    by (auto simp: alloc_ok_def split: if_splits)
  then have "x \<noteq> s" using a x(1) by auto
  then show False using live_runs_apart [OF mi x(2) s(4)] b(2) s(1,3) by (simp add: alloc_frames_def less_imp_le)
qed

lemma life_confined:
  assumes "program_life m A pp p t dir P F"
  shows "writes_within (mem m) dir (P \<union> own_frames (allocations p))"
    and "a \<in> dir_pages (mem m) (page_directory t) dir \<Longrightarrow> pn a \<notin> P \<union> own_frames (allocations p)"
    and "tables_apart (mem m) dir (P \<union> own_frames (allocations p))"
proof -
  show "writes_within (mem m) dir (P \<union> own_frames (allocations p))"
    using assms by (auto simp: program_life_def reaches_def writes_within_def)
  have apart: "pn a \<notin> P \<union> own_frames (allocations p)" if "a \<in> dir_pages (mem m) (page_directory t) dir" for a
  proof -
    have "process_inv m A pp p t dir" "pn a \<notin> P" using assms that by (simp_all add: program_life_def)
    then show ?thesis using own_frames_apart [OF _ that] by blast
  qed
  then show "a \<in> dir_pages (mem m) (page_directory t) dir \<Longrightarrow> pn a \<notin> P \<union> own_frames (allocations p)" .
  show "tables_apart (mem m) dir (P \<union> own_frames (allocations p))"
    unfolding tables_apart_def using apart by (auto simp: dir_pages_def)
qed

text \<open>What keeps the page of the directory keeps its entries.\<close>

lemma dir_open_page:
  assumes ok: "pd_ok mm dir" and same: "\<And>b. pn b = pn dir \<Longrightarrow> mm' b = mm b" and op: "dir_open mm dir"
  shows "dir_open mm' dir"
proof -
  have "load32 mm' (dir + of_nat (4 * i)) = load32 mm (dir + of_nat (4 * i))" if "i < 1024" for i
  proof (rule load32_cong_page [OF aligned4_dir [OF ok]])
    fix b assume "pn b = pn (dir + of_nat (4 * i))"
    also have "\<dots> = pn dir" using ok that by (intro pn_add_page) (simp_all add: pd_ok_def)
    finally show "mm' b = mm b" by (rule same)
  qed
  then show ?thesis using op by (simp add: dir_open_def del: of_nat_mult)
qed

text \<open>The invariant looks at memory in the pages of the directory only.\<close>

lemma life_mem:
  assumes life: "program_life m A pp p t dir P F"
    and same: "\<And>b. pn b \<in> pn ` dir_pages (mem m) (page_directory t) dir \<Longrightarrow> mm b = mem m b"
  shows "program_life (m\<lparr>mem := mm\<rparr>) A pp p t dir P F" and "pd_entry mm dir va = pd_entry (mem m) dir va"
    and "dir_pages mm (page_directory t) dir = dir_pages (mem m) (page_directory t) dir"
proof -
  let ?D = "dir_pages (mem m) (page_directory t) dir"
  have inv: "process_inv m A pp p t dir" using life by (simp add: program_life_def)
  then have d: "dir_inv (mem m) A (page_directory t) dir" by (simp add: process_inv_def)
  then have ok: "pd_ok (mem m) dir" by (simp add: dir_inv_def pd_root_def)
  have dsame: "mm b = mem m b" if "block_addr s \<in> ?D" "s < kheap_blocks" "pn b = 4096 + s" for b s
    using that by (intro same) (force simp: less_imp_le)
  from dir_inv_mem [OF d, of mm A] dsame have d':
    "dir_inv mm A (page_directory t) dir" "dir_pages mm (page_directory t) dir = ?D"
    "\<And>va. pd_entry mm dir va = pd_entry (mem m) dir va" by auto
  then show "pd_entry mm dir va = pd_entry (mem m) dir va" "dir_pages mm (page_directory t) dir = ?D" by blast+
  have "dir_open mm dir"
  proof (rule dir_open_page [OF ok])
    show "mm b = mem m b" if "pn b = pn dir" for b using that by (intro same) (simp add: dir_pages_def)
  qed (use life in \<open>simp add: program_life_def\<close>)
  moreover have "process_inv (m\<lparr>mem := mm\<rparr>) A pp p t dir"
    using inv d'(1,2) machine_inv_kernel_heap [of "m\<lparr>mem := mm\<rparr>" m] by (simp add: process_inv_def)
  ultimately show "program_life (m\<lparr>mem := mm\<rparr>) A pp p t dir P F"
    using life d'(2,3) unfolding program_life_def reaches_def by simp
qed

text \<open>A store of the program.\<close>

lemma life_store:
  assumes life: "program_life m A pp p t dir P F" and st: "user_store m va v = Inr m'"
  shows "program_life m' A pp p t dir P F" and "pn b \<in> F \<Longrightarrow> mem m' b = mem m b"
    and "\<exists>mm. m' = m\<lparr>mem := mm\<rparr>"
proof -
  let ?Q = "P \<union> own_frames (allocations p)"
  note c = life_confined [OF life]
  have on: "paging_enabled m" "cr3 m = dir" using life by (simp_all add: program_life_def)
  obtain pa where pa: "pn pa \<in> ?Q" "m' = m\<lparr>mem := (mem m)(pa := v)\<rparr>" using user_store_within [OF on c(1) st] by blast
  then show "\<exists>mm. m' = m\<lparr>mem := mm\<rparr>" by blast
  show "program_life m' A pp p t dir P F" unfolding pa(2) by (rule life_mem(1) [OF life]) (use c(2) pa(1) in auto)
  have "pn pa \<notin> F" using life pa(1) by (auto simp: program_life_def foreign_def)
  then show "pn b \<in> F \<Longrightarrow> mem m' b = mem m b" using pa(2) by auto
qed

section \<open>The system calls\<close>

text \<open>A kernel whose table has the two calls.\<close>

definition heap_calls :: "'p os_state \<Rightarrow> bool" where
  "heap_calls m \<longleftrightarrow> kernelPageDirectory m \<noteq> 0 \<and> areadi (isr80h_commands m) 4 = Inr (Some Command4_malloc) \<and>
     areadi (isr80h_commands m) 5 = Inr (Some Command5_free)"

lemma heap_calls_mem [simp]: "heap_calls (m\<lparr>mem := mm\<rparr>) = heap_calls m"
  by (simp add: heap_calls_def)

lemma life_entry:
  assumes life: "program_life m A pp p t dir P F" and ready: "heap_calls m"
    and arg: "stack_word m dir (frame_esp frame) 0 = Inr w"
    and s: "s = saved (kernel_view m) (current_task m) t frame" and t': "t' = t\<lparr>registers := frame_registers frame (registers t)\<rparr>"
  shows "process_inv s A pp p t' dir" "task_get_stack_item s (task_current s) 0 = Inr (w, s)" "current_task_process s = Inr pp"
    "deref (tasks m) (current_task m) = Inr t" "page_directory t \<noteq> 0" "load32 (mem m) (page_directory t) = dir"
proof -
  have inv: "process_inv m A pp p t dir" and cur: "current_task m = proc_task p" "task_process t = pp" "cr3 m = dir"
    using life by (simp_all add: program_life_def)
  show d: "deref (tasks m) (current_task m) = Inr t" and pd: "page_directory t \<noteq> 0" "load32 (mem m) (page_directory t) = dir"
    using inv cur(1) by (auto simp: process_inv_def dir_inv_def pd_root_def)
  have mem: "mem s = mem m" "paging_enabled s = paging_enabled m" by (simp_all add: s)
  show "process_inv s A pp p t' dir"
    using inv d cur(1) machine_inv_kernel_heap [of s m] by (simp add: s t' process_inv_def deref_Inr) (simp add: saved_def machine_inv_def)
  have dt: "deref (tasks s) (current_task m) = Inr t'" using d by (simp add: s t' deref_Inr)
  have "stack_word s dir (frame_esp frame) 0 = Inr w"
    using arg vload32_cong [of "s\<lparr>cr3 := dir\<rparr>" "m\<lparr>cr3 := dir\<rparr>"] mem by (simp add: stack_word_def)
  then have "task_get_stack_item s (current_task m) 0 = Inr (w, kernel_view s)"
    using stack_item_ok [of s "current_task m" t' 0 w] dt pd ready by (simp add: t' mem) (simp add: s heap_calls_def)
  moreover have "kernel_view s = s" by (simp add: s saved_def kernel_view_def Let_def)
  ultimately show "task_get_stack_item s (task_current s) 0 = Inr (w, s)" by (simp add: task_current_def s)
  show "current_task_process s = Inr pp" using dt cur(2) by (simp add: current_task_process_def task_current_def s t')
qed

lemma life_back:
  assumes life: "program_life m A pp p t dir P F" and ready: "heap_calls m"
    and s: "s = saved (kernel_view m) (current_task m) t frame" and t': "t' = t\<lparr>registers := frame_registers frame (registers t)\<rparr>"
    and s': "s' = set_proc (s\<lparr>kernel_heap := h, mem := mm\<rparr>) pp p'"
    and run: "isr80h_handle_command fs stk s command = Inr (Back r s')"
    and inv': "process_inv s' A' pp p' t' dir" and p': "proc_task p' = proc_task p"
    and dp: "dir_pages mm (page_directory t) dir = dir_pages (mem m) (page_directory t) dir" and op: "dir_open mm dir"
    and reach: "reaches mm dir P (allocations p')" and others: "foreign A' (dir_pages (mem m) (page_directory t) dir) P (allocations p') F"
  shows "isr80h_handler fs stk m command frame = Inr (Back r (switched s' (current_task m) dir))"
    and "program_life (switched s' (current_task m) dir) A' pp p' t' dir P F"
    and "heap_calls (switched s' (current_task m) dir)" and "mem (switched s' (current_task m) dir) = mm"
proof -
  have inv: "process_inv m A pp p t dir" and cur: "current_task m = proc_task p" "task_process t = pp" "paging_enabled m"
    using life by (simp_all add: program_life_def)
  have t: "deref (tasks m) (current_task m) = Inr t" "page_directory t \<noteq> 0"
    using inv cur(1) by (auto simp: process_inv_def dir_inv_def pd_root_def)
  have mem: "mem s' = mm" "tasks s' = tasks s" "current_task s' = current_task m" by (simp_all add: s' s)
  have "load32 mm (page_directory t) = dir" using inv' mem(1) by (simp add: process_inv_def dir_inv_def pd_root_def t')
  then show "isr80h_handler fs stk m command frame = Inr (Back r (switched s' (current_task m) dir))"
    using handler_back [OF t _ run [unfolded s]] ready mem by (simp add: s heap_calls_def)
  have "process_inv (switched s' (current_task m) dir) A' pp p' t' dir"
    using inv' machine_inv_kernel_heap [of "switched s' (current_task m) dir" s'] by (simp add: process_inv_def)
  then show "program_life (switched s' (current_task m) dir) A' pp p' t' dir P F"
    unfolding program_life_def using life cur p' dp op reach others
    by (simp add: mem t' program_life_def) (simp add: s' s switched_def paging_load_directory_def)
  show "heap_calls (switched s' (current_task m) dir)" using ready by (simp add: heap_calls_def s' s)
  show "mem (switched s' (current_task m) dir) = mm" by (simp add: mem(1))
qed

text \<open>\<^verbatim>\<open>malloc\<close>.\<close>

lemma dir_open_new:
  assumes d: "dir_inv (mem m) A pd dir" and op: "dir_open (mem m) dir" and fresh: "\<forall>j\<in>{r..<r + k}. j \<notin> kh.used A"
    and keep: "\<forall>b. \<not> in_blocks r k b \<longrightarrow> (\<forall>i<1024. pn b \<noteq> pn (table_of (mem m) dir i)) \<longrightarrow> mm b = mem m b"
  shows "dir_open mm dir"
proof (rule dir_open_page)
  show ok: "pd_ok (mem m) dir" using d by (simp add: dir_inv_def pd_root_def)
  fix b assume b: "pn b = pn dir"
  obtain x where x: "dir = block_addr x" "A x = Some 1" "x < kheap_blocks" using d by (auto simp: dir_inv_def dir_pages_def)
  then have "covers A x 1 x" by (simp add: covers_def)
  then have "x \<in> kh.used A" by (auto simp: kh.used_def)
  then have "\<not> in_blocks r k b" using fresh b x(1,3) by (auto simp: in_blocks_def less_imp_le)
  moreover have "pn b \<noteq> pn (table_of (mem m) dir i)" if "i < 1024" for i
    using ok that b addr_eq_iff [of "table_of (mem m) dir i" dir] by (simp add: pd_ok_def)
  ultimately show "mm b = mem m b" using keep by blast
qed (rule op)

text \<open>What a new run of blocks, mapped writeable to itself, adds to the reach of the program, and what unmapping it takes.\<close>

lemma reaches_grant:
  assumes old: "reaches mm dir P as" and own: "own_frames as' = own_frames as \<union> alloc_frames a"
    and fa: "\<And>va. pn va \<in> alloc_frames a \<longleftrightarrow> B va"
    and e: "\<forall>va. pd_entry mm' dir va = (if B va then (va AND 0xfffff000) OR 7 else pd_entry mm dir va)"
  shows "reaches mm' dir P as'"
  unfolding reaches_def
proof (intro allI impI)
  fix va assume w: "pd_entry mm' dir va AND 7 = 7"
  show "pn (pd_entry mm' dir va) \<in> P \<or> pn (pd_entry mm' dir va) = pn va \<and> pn va \<in> own_frames as'"
  proof (cases "B va")
    case True
    then have "pn (pd_entry mm' dir va) = pn va" using e pn_or_low [of "va AND 0xfffff000" 7] by simp
    then show ?thesis using fa True own by simp
  next
    case False
    then show ?thesis using e w old own by (auto simp: reaches_def)
  qed
qed

lemma reaches_revoke:
  assumes old: "reaches mm dir P as" and own: "own_frames as \<subseteq> own_frames as' \<union> alloc_frames a"
    and fa: "\<And>va. pn va \<in> alloc_frames a \<longleftrightarrow> B va"
    and e: "\<forall>va. pd_entry mm' dir va = (if B va then va AND 0xfffff000 else pd_entry mm dir va)"
  shows "reaches mm' dir P as'"
  unfolding reaches_def
proof (intro allI impI)
  fix va assume w: "pd_entry mm' dir va AND 7 = 7"
  have "\<not> B va"
  proof
    assume "B va"
    then have "pd_entry mm' dir va = va AND 0xfffff000" using e by simp
    then show False using write_bit [OF w] aligned_bit [OF off_mask [of va]] by simp
  qed
  then show "pn (pd_entry mm' dir va) \<in> P \<or> pn (pd_entry mm' dir va) = pn va \<and> pn va \<in> own_frames as'"
    using e w old own fa [of va] by (auto simp: reaches_def)
qed

text \<open>The pages of the other owners stay theirs: a new run was free, and a run that is given back was the program's.\<close>

lemma foreign_grant:
  assumes old: "foreign A D P as F" and own: "own_frames as' = own_frames as \<union> alloc_frames a"
    and a: "alloc_frames a = {4096 + r..<4096 + r + k}" "r + k \<le> kheap_blocks"
    and fresh: "\<forall>j\<in>{r..<r + k}. j \<notin> kh.used A" and Ar: "A r = None"
  shows "foreign (A(r \<mapsto> k)) D P as' F"
  unfolding foreign_def
proof (intro ballI)
  fix n assume n: "n \<in> F"
  have o: "n \<notin> P" "n \<notin> own_frames as" "n \<notin> pn ` D" "\<And>x. x < kheap_blocks \<Longrightarrow> n = 4096 + x \<Longrightarrow> x \<in> kh.used A"
    using old n by (auto simp: foreign_def)
  have u: "kh.used A \<subseteq> kh.used (A(r \<mapsto> k))" by (rule used_mono) (use Ar in \<open>auto simp: map_le_def\<close>)
  have "n \<notin> alloc_frames a"
  proof
    assume "n \<in> alloc_frames a"
    then have x: "n - 4096 \<in> {r..<r + k}" "n = 4096 + (n - 4096)" using a(1) by auto
    then have "n - 4096 < kheap_blocks" using a(2) by simp
    then have "n - 4096 \<in> kh.used A" using o(4) x(2) by blast
    then show False using fresh x(1) by blast
  qed
  then show "n \<notin> P \<and> n \<notin> own_frames as' \<and> n \<notin> pn ` D \<and> (\<forall>x<kheap_blocks. n = 4096 + x \<longrightarrow> x \<in> kh.used (A(r \<mapsto> k)))"
    using o u own by auto
qed

lemma foreign_revoke:
  assumes old: "foreign A D P as F" and own: "own_frames as' \<subseteq> own_frames as"
    and a: "{4096 + s..<4096 + s + k} \<subseteq> own_frames as" and live: "A s = Some k"
  shows "foreign (A(s := None)) D P as' F"
  unfolding foreign_def
proof (intro ballI)
  fix n assume n: "n \<in> F"
  have o: "n \<notin> P" "n \<notin> own_frames as" "n \<notin> pn ` D" "\<And>x. x < kheap_blocks \<Longrightarrow> n = 4096 + x \<Longrightarrow> x \<in> kh.used A"
    using old n by (auto simp: foreign_def)
  have "x \<in> kh.used (A(s := None))" if x: "x < kheap_blocks" "n = 4096 + x" for x
  proof -
    obtain b l where c: "covers A b l x" using o(4) [OF x] by (auto simp: kh.used_def)
    have "n \<notin> {4096 + s..<4096 + s + k}" using o(2) a by blast
    then have "\<not> (s \<le> x \<and> x < s + k)" using x(2) by simp
    then have "b \<noteq> s" using c live by (auto simp: covers_def)
    then have "covers (A(s := None)) b l x" using c by (simp add: covers_def)
    then show ?thesis by (auto simp: kh.used_def)
  qed
  then show "n \<notin> P \<and> n \<notin> own_frames as' \<and> n \<notin> pn ` D \<and> (\<forall>x<kheap_blocks. n = 4096 + x \<longrightarrow> x \<in> kh.used (A(s := None)))"
    using o own by auto
qed

lemma malloc_call:
  assumes life: "program_life m A pp p t dir P F" and ready: "heap_calls m"
    and arg: "stack_word m dir (frame_esp frame) 0 = Inr sz" and sz: "0 < unat sz" "unat sz \<le> 2 ^ 32 - 4096"
    and room: "room_for A (blocks_for (unat sz))" and free: "\<exists>a\<in>set (allocations p). alloc_ptr a = 0"
  shows "\<exists>r p' m'. isr80h_handler fs stk m 4 frame = Inr (Back (block_addr r) m') \<and> r < kheap_blocks \<and>
    program_life m' (A(r \<mapsto> blocks_for (unat sz))) pp p' (t\<lparr>registers := frame_registers frame (registers t)\<rparr>) dir P F \<and>
    heap_calls m' \<and> (\<forall>b. pn b \<in> F \<longrightarrow> mem m' b = mem m b) \<and> (\<forall>j\<in>{r..<r + blocks_for (unat sz)}. j \<notin> kh.used A) \<and>
    (\<forall>va. pd_entry (mem m') dir va =
       (if in_blocks r (blocks_for (unat sz)) va then (va AND 0xfffff000) OR 7 else pd_entry (mem m) dir va)) \<and>
    (\<exists>i<1024. alloc_ptr (allocations p' ! i) = block_addr r)"
proof -
  let ?k = "blocks_for (unat sz)" and ?D = "dir_pages (mem m) (page_directory t) dir"
  define s where "s = saved (kernel_view m) (current_task m) t frame"
  define t' where "t' = t\<lparr>registers := frame_registers frame (registers t)\<rparr>"
  note en = life_entry [OF life ready arg s_def t'_def]
  have s: "mem s = mem m" "isr80h_commands s = isr80h_commands m" and pd: "page_directory t' = page_directory t" by (simp_all add: s_def t'_def)
  from process_malloc_ok [OF en(1) sz room free] obtain r h mm i where
    i: "i < 1024" "alloc_ptr (allocations p ! i) = 0" and r: "r < kheap_blocks" "A r = None"
    and run: "process_malloc s pp sz = Inr (block_addr r, set_proc (s\<lparr>kernel_heap := h, mem := mm\<rparr>) pp
      (p\<lparr>allocations := (allocations p)[i := \<lparr>alloc_ptr = block_addr r, alloc_size = sz\<rparr>]\<rparr>))"
    and inv': "process_inv (set_proc (s\<lparr>kernel_heap := h, mem := mm\<rparr>) pp
      (p\<lparr>allocations := (allocations p)[i := \<lparr>alloc_ptr = block_addr r, alloc_size = sz\<rparr>]\<rparr>)) (A(r \<mapsto> ?k)) pp
      (p\<lparr>allocations := (allocations p)[i := \<lparr>alloc_ptr = block_addr r, alloc_size = sz\<rparr>]\<rparr>) t' dir"
    and fresh: "\<forall>j s' k'. r \<le> j \<and> j < r + ?k \<longrightarrow> \<not> covers A s' k' j"
    and e: "\<forall>va. pd_entry mm dir va = (if in_blocks r ?k va then (va AND 0xfffff000) OR 7 else pd_entry (mem m) dir va)"
    and dp: "dir_pages mm (page_directory t) dir = ?D"
    and keep: "\<forall>b. \<not> in_blocks r ?k b \<longrightarrow> (\<forall>i<1024. pn b \<noteq> pn (table_of (mem m) dir i)) \<longrightarrow> mm b = mem m b"
    unfolding s pd by blast
  let ?a = "\<lparr>alloc_ptr = block_addr r, alloc_size = sz\<rparr>"
  let ?p' = "p\<lparr>allocations := (allocations p)[i := ?a]\<rparr>" and ?as = "(allocations p)[i := ?a]"
  have d: "dir_inv (mem m) A (page_directory t) dir" and own: "allocs_own A ?D (allocations p)"
    using en(1) by (simp_all add: process_inv_def s pd)
  have len: "i < length (allocations p)" using i(1) allocs_own_length [OF own] by simp
  have "alloc_ok A ?D (allocations p ! i)" using own len by (simp add: allocs_own_def)
  then have z: "alloc_size (allocations p ! i) = 0" using i(2) by (simp add: alloc_ok_def)
  note of = own_frames_add [OF len z, of ?a]
  have fa: "pn va \<in> alloc_frames ?a \<longleftrightarrow> in_blocks r ?k va" for va using r(1) by (intro alloc_frames_block) simp_all
  have fr: "\<forall>j\<in>{r..<r + ?k}. j \<notin> kh.used A" using fresh by (auto simp: kh.used_def)
  have op: "dir_open mm dir"
    by (rule dir_open_new [OF d _ fr keep]) (use life in \<open>simp add: program_life_def\<close>)
  have "reaches mm dir P ?as"
    by (rule reaches_grant [OF _ of fa e]) (use life in \<open>simp add: program_life_def\<close>)
  moreover have "foreign (A(r \<mapsto> ?k)) ?D P (allocations ?p') F"
  proof (rule foreign_grant [OF _ _ _ _ fr r(2)])
    show "foreign A ?D P (allocations p) F" using life by (simp add: program_life_def)
    show "own_frames (allocations ?p') = own_frames (allocations p) \<union> alloc_frames ?a" using of by simp
    show "alloc_frames ?a = {4096 + r..<4096 + r + ?k}" using r(1) by (simp add: alloc_frames_def less_imp_le)
    have "machine_inv (set_proc (s\<lparr>kernel_heap := h, mem := mm\<rparr>) pp ?p') (A(r \<mapsto> ?k))" using inv' by (simp only: process_inv_def)
    from machine_inv_bounds [OF this, of r ?k] show "r + ?k \<le> kheap_blocks" by simp
  qed
  moreover have "isr80h_handle_command fs stk s 4 = Inr (Back (block_addr r) (set_proc (s\<lparr>kernel_heap := h, mem := mm\<rparr>) pp ?p'))"
    using ready en(2,3) run by (simp add: isr80h_handle_command_def config run_command_def comes_back_def
        isr80h_command4_malloc_def heap_calls_def s(2))
  ultimately have b: "isr80h_handler fs stk m 4 frame = Inr (Back (block_addr r)
        (switched (set_proc (s\<lparr>kernel_heap := h, mem := mm\<rparr>) pp ?p') (current_task m) dir))"
      "program_life (switched (set_proc (s\<lparr>kernel_heap := h, mem := mm\<rparr>) pp ?p') (current_task m) dir) (A(r \<mapsto> ?k)) pp ?p' t' dir P F"
      "heap_calls (switched (set_proc (s\<lparr>kernel_heap := h, mem := mm\<rparr>) pp ?p') (current_task m) dir)"
      "mem (switched (set_proc (s\<lparr>kernel_heap := h, mem := mm\<rparr>) pp ?p') (current_task m) dir) = mm"
    using life_back [OF life ready s_def t'_def refl _ inv' _ dp op] by simp_all
  have "mm b = mem m b" if n: "pn b \<in> F" for b
  proof -
    have "foreign (A(r \<mapsto> ?k)) ?D P ?as F" using b(2) dp b(4) by (simp add: program_life_def pd)
    then have "pn b \<notin> alloc_frames ?a" "pn b \<notin> pn ` ?D" using n of by (auto simp: foreign_def)
    then show ?thesis using keep fa by (auto simp: dir_pages_def)
  qed
  moreover note fr
  moreover have "\<exists>i<1024. alloc_ptr (allocations ?p' ! i) = block_addr r" using i(1) len by (intro exI [of _ i]) simp
  ultimately show ?thesis using b r(1) e unfolding t'_def
    by (intro exI [of _ r] exI [of _ ?p'] exI [of _ "switched (set_proc (s\<lparr>kernel_heap := h, mem := mm\<rparr>) pp ?p') (current_task m) dir"]) simp
qed

text \<open>\<^verbatim>\<open>free\<close> of a pointer of the table; of any other pointer, null included, it does nothing.\<close>

lemma free_call:
  assumes life: "program_life m A pp p t dir P F" and ready: "heap_calls m"
    and arg: "stack_word m dir (frame_esp frame) 0 = Inr (block_addr s)"
    and i: "i < 1024" "alloc_ptr (allocations p ! i) = block_addr s" "s < kheap_blocks"
  shows "\<exists>p' m'. isr80h_handler fs stk m 5 frame = Inr (Back 0 m') \<and>
    program_life m' (A(s := None)) pp p' (t\<lparr>registers := frame_registers frame (registers t)\<rparr>) dir P F \<and>
    heap_calls m' \<and> (\<forall>b. pn b \<in> F \<longrightarrow> mem m' b = mem m b) \<and> A s = Some (blocks_for (unat (alloc_size (allocations p ! i)))) \<and>
    (\<forall>va. in_blocks s (blocks_for (unat (alloc_size (allocations p ! i)))) va \<longrightarrow> pd_entry (mem m') dir va = va AND 0xfffff000)"
proof -
  let ?k = "blocks_for (unat (alloc_size (allocations p ! i)))" and ?D = "dir_pages (mem m) (page_directory t) dir"
  define s0 where "s0 = saved (kernel_view m) (current_task m) t frame"
  define t' where "t' = t\<lparr>registers := frame_registers frame (registers t)\<rparr>"
  note en = life_entry [OF life ready arg s0_def t'_def]
  have s: "mem s0 = mem m" "isr80h_commands s0 = isr80h_commands m" and pd: "page_directory t' = page_directory t"
    by (simp_all add: s0_def t'_def)
  have nz: "alloc_ptr (allocations p ! i) \<noteq> 0" using i(2,3) by (simp add: less_imp_le)
  from process_free_ok [OF en(1) i(1) nz] i(2,3) block_addr_inj [of _ s] obtain h mm where
    live: "A s = Some ?k"
    and run: "process_free s0 pp (block_addr s) = Inr (set_proc (s0\<lparr>kernel_heap := h, mem := mm\<rparr>) pp
      (p\<lparr>allocations := (allocations p)[i := no_allocation]\<rparr>))"
    and inv': "process_inv (set_proc (s0\<lparr>kernel_heap := h, mem := mm\<rparr>) pp (p\<lparr>allocations := (allocations p)[i := no_allocation]\<rparr>))
      (A(s := None)) pp (p\<lparr>allocations := (allocations p)[i := no_allocation]\<rparr>) t' dir"
    and e: "\<forall>va. pd_entry mm dir va = (if in_blocks s ?k va then va AND 0xfffff000 else pd_entry (mem m) dir va)"
    and tab: "tables_only dir (mem m) mm"
    unfolding s by (metis less_imp_le)
  let ?p' = "p\<lparr>allocations := (allocations p)[i := no_allocation]\<rparr>" and ?as = "(allocations p)[i := no_allocation]"
  have d: "dir_inv (mem m) A (page_directory t) dir" and own: "allocs_own A ?D (allocations p)"
    using en(1) by (simp_all add: process_inv_def s pd)
  have len: "i < length (allocations p)" using i(1) allocs_own_length [OF own] by simp
  note of = own_frames_drop [OF len]
  have fa: "pn va \<in> alloc_frames (allocations p ! i) \<longleftrightarrow> in_blocks s ?k va" for va
    using i(2,3) by (intro alloc_frames_block) simp_all
  have ok: "pd_ok (mem m) dir" using d by (simp add: dir_inv_def pd_root_def)
  have op: "dir_open mm dir" using dir_open_kept [OF ok tab] life by (simp add: program_life_def)
  have dp: "dir_pages mm (page_directory t) dir = ?D" using tab by (simp add: dir_pages_def tables_only_def)
  have "reaches mm dir P ?as"
    by (rule reaches_revoke [OF _ of(2) fa e]) (use life in \<open>simp add: program_life_def\<close>)
  moreover have "foreign (A(s := None)) ?D P (allocations ?p') F"
  proof (rule foreign_revoke [of A ?D P "allocations p" F "allocations ?p'" s ?k])
    show "A s = Some ?k" by (rule live)
    show "foreign A ?D P (allocations p) F" using life by (simp add: program_life_def)
    show "own_frames (allocations ?p') \<subseteq> own_frames (allocations p)" using of(1) by simp
    have "{4096 + s..<4096 + s + ?k} = alloc_frames (allocations p ! i)" using i(2,3) by (simp add: alloc_frames_def less_imp_le)
    then show "{4096 + s..<4096 + s + ?k} \<subseteq> own_frames (allocations p)" using nth_mem [OF len] unfolding own_frames_def by blast
  qed
  moreover have "isr80h_handle_command fs stk s0 5 = Inr (Back 0 (set_proc (s0\<lparr>kernel_heap := h, mem := mm\<rparr>) pp ?p'))"
    using ready en(2,3) run by (simp add: isr80h_handle_command_def config run_command_def comes_back_def
        isr80h_command5_free_def heap_calls_def s(2))
  ultimately have b: "isr80h_handler fs stk m 5 frame = Inr (Back 0
        (switched (set_proc (s0\<lparr>kernel_heap := h, mem := mm\<rparr>) pp ?p') (current_task m) dir))"
      "program_life (switched (set_proc (s0\<lparr>kernel_heap := h, mem := mm\<rparr>) pp ?p') (current_task m) dir) (A(s := None)) pp ?p' t' dir P F"
      "heap_calls (switched (set_proc (s0\<lparr>kernel_heap := h, mem := mm\<rparr>) pp ?p') (current_task m) dir)"
      "mem (switched (set_proc (s0\<lparr>kernel_heap := h, mem := mm\<rparr>) pp ?p') (current_task m) dir) = mm"
    using life_back [OF life ready s0_def t'_def refl _ inv' _ dp op] by simp_all
  have "mm b = mem m b" if n: "pn b \<in> F" for b
  proof -
    have "pn b \<notin> pn ` ?D" using life n by (auto simp: program_life_def foreign_def)
    then show ?thesis using tab by (auto simp: dir_pages_def tables_only_def)
  qed
  then show ?thesis using b live e unfolding t'_def
    by (intro exI [of _ ?p'] exI [of _ "switched (set_proc (s0\<lparr>kernel_heap := h, mem := mm\<rparr>) pp ?p') (current_task m) dir"]) simp
qed

lemma free_call_else:
  assumes life: "program_life m A pp p t dir P F" and ready: "heap_calls m"
    and arg: "stack_word m dir (frame_esp frame) 0 = Inr ptr" and ptr: "ptr = 0 \<or> (\<forall>a\<in>set (allocations p). alloc_ptr a \<noteq> ptr)"
  shows "\<exists>m'. isr80h_handler fs stk m 5 frame = Inr (Back 0 m') \<and>
    program_life m' A pp p (t\<lparr>registers := frame_registers frame (registers t)\<rparr>) dir P F \<and> heap_calls m' \<and> mem m' = mem m"
proof -
  define s where "s = saved (kernel_view m) (current_task m) t frame"
  define t' where "t' = t\<lparr>registers := frame_registers frame (registers t)\<rparr>"
  note en = life_entry [OF life ready arg s_def t'_def]
  have dp: "deref (procs s) pp = Inr p" using en(1) by (simp add: process_inv_def)
  have free: "process_free s pp ptr = Inr s"
  proof (cases "ptr = 0")
    case False
    then have "\<forall>a\<in>set (allocations p). alloc_ptr a \<noteq> ptr" using ptr by blast
    then have "process_get_allocation_by_addr p ptr = None"
      using first_slot_None [of "\<lambda>a. alloc_ptr a = ptr" "allocations p" 0] by (simp add: process_get_allocation_by_addr_def)
    then show ?thesis using dp by (simp add: process_free_def)
  qed (simp add: process_free_null [OF en(1)])
  have same: "set_proc (s\<lparr>kernel_heap := kernel_heap s, mem := mem m\<rparr>) pp p = s"
    using dp by (simp add: deref_Inr fun_upd_idem s_def)
  have sc: "isr80h_commands s = isr80h_commands m" by (simp add: s_def)
  have "isr80h_handle_command fs stk s 5 = Inr (Back 0 s)"
    using ready en(2,3) free by (simp add: isr80h_handle_command_def config run_command_def comes_back_def
        isr80h_command5_free_def heap_calls_def sc)
  from life_back [OF life ready s_def t'_def same [symmetric] this en(1)] life show ?thesis
    unfolding t'_def [symmetric] by (intro exI [of _ "switched s (current_task m) dir"]) (simp add: program_life_def)
qed

section \<open>A call that is no step\<close>

text \<open>
  The system call that hands a program its arguments writes them, eight bytes, wherever the pointer of the program leads, without
  looking whether the program may write there: after it the invariant of the program is true as before, but a page of another
  owner has changed. The program could not have stored there itself, as its directory maps the page read-only.
\<close>

lemma arguments_call_escapes:
  assumes life: "program_life m A pp p t dir P F" and ready: "heap_calls m"
    and c: "areadi (isr80h_commands m) 8 = Inr (Some Command8_get_program_arguments)"
    and arg: "stack_word m dir (frame_esp frame) 0 = Inr va" and foreign: "pn va \<in> F" and va: "off va \<le> 0xFF8" "va \<noteq> 0"
    and id: "pd_entry (mem m) dir va AND 0xfffff000 = va AND 0xfffff000"
  shows "user_store m va v = Inl PageFault" and "\<exists>m'. isr80h_handler fs stk m 8 frame = Inr (Back 0 m') \<and>
    program_life m' A pp p (t\<lparr>registers := frame_registers frame (registers t)\<rparr>) dir P F \<and> heap_calls m' \<and>
    mem m' = store32 (store32 (mem m) va (word_of_int (fst (process_get_arguments p)))) (va + 4) (snd (process_get_arguments p))"
proof -
  define s where "s = saved (kernel_view m) (current_task m) t frame"
  define t' where "t' = t\<lparr>registers := frame_registers frame (registers t)\<rparr>"
  let ?mm = "store32 (store32 (mem m) va (word_of_int (fst (process_get_arguments p)))) (va + 4) (snd (process_get_arguments p))"
  note en = life_entry [OF life ready arg s_def t'_def]
  have on: "paging_enabled m" "cr3 m = dir" using life by (simp_all add: program_life_def)
  show "user_store m va v = Inl PageFault"
  proof -
    have "pd_entry (mem m) dir va AND 7 \<noteq> 7"
    proof
      assume "pd_entry (mem m) dir va AND 7 = 7"
      moreover have "pn (pd_entry (mem m) dir va) = pn va" using id by (metis pn_mask)
      ultimately have "pn va \<in> P \<or> pn va \<in> own_frames (allocations p)"
        using life by (metis program_life_def reaches_def)
      then show False using life foreign by (auto simp: program_life_def foreign_def)
    qed
    then show ?thesis unfolding user_store_walk [OF on] by simp
  qed
  have phys: "(pd_entry (mem m) dir va AND 0xfffff000) + of_nat (off va) = va" unfolding id by (rule page_split [symmetric])
  have d: "dir_inv (mem m) A (page_directory t) dir" using life by (auto simp: program_life_def process_inv_def deref_Inr)
  then have ok: "pd_ok (mem m) dir" by (simp add: dir_inv_def pd_root_def)
  have near: "pn (va + of_nat k) = pn va" if "k < 8" for k
  proof -
    have "pn ((va AND 0xfffff000) + of_nat (off va + k)) = pn va"
      using pn_add_page [of "va AND 0xfffff000" "off va + k"] va(1) that by simp
    moreover have "(va AND 0xfffff000) + of_nat (off va + k) = va + of_nat k"
      unfolding of_nat_add add.assoc [symmetric] page_split [of va, symmetric] ..
    ultimately show ?thesis by (simp only:)
  qed
  have "?mm b = mem m b" if "pn b \<noteq> pn va" for b
  proof -
    have "b \<noteq> va + of_nat k" if "k < 8" for k using near [OF that] \<open>pn b \<noteq> pn va\<close> by metis
    from this [of 0] this [of 1] this [of 2] this [of 3] this [of 4] this [of 5] this [of 6] this [of 7]
    show ?thesis by (simp add: store32_else add.assoc)
  qed
  moreover have "pn va \<notin> pn ` dir_pages (mem m) (page_directory t) dir" using foreign life by (auto simp: program_life_def foreign_def)
  ultimately have same: "?mm b = mem m b" if "pn b \<in> pn ` dir_pages (mem m) (page_directory t) dir" for b using that by metis
  note life' = life_mem [OF life same]
  let ?s = "set_proc (s\<lparr>kernel_heap := kernel_heap s, mem := ?mm\<rparr>) pp p"
  have s: "mem s = mem m" "isr80h_commands s = isr80h_commands m" "page_directory t' = page_directory t" "deref (tasks s) (current_task s) = Inr t'"
    using en(4) by (simp_all add: s_def t'_def deref_Inr)
  have ps: "procs s pp = Some p" "pp \<noteq> 0" using en(1) by (simp_all add: process_inv_def deref_Inr)
  have inv: "process_inv ?s A pp p t' dir"
    using en(1) life'(1) ps by (simp add: process_inv_def program_life_def s(3) machine_inv_def deref_Inr)
  have "deref (procs s) pp = Inr p" using ps by (simp add: deref_Inr)
  moreover have "task_virtual_address_to_physical s (task_current s) va = Inr va"
    using s en(4-6) phys paging_get_physical_address_ok [of s dir va] ok
    by (simp add: task_virtual_address_to_physical_def task_current_def wread_def)
  ultimately have "isr80h_handle_command fs stk s 8 = Inr (Back 0 ?s)"
    using c en(2,3) va(2) ps by (simp add: isr80h_handle_command_def config run_command_def comes_back_def
        isr80h_command8_get_program_arguments_def s(1,2) fun_upd_idem case_prod_beta)
  from life_back [OF life ready s_def t'_def refl this inv refl life'(3)] life' show "\<exists>m'. isr80h_handler fs stk m 8 frame = Inr (Back 0 m') \<and>
    program_life m' A pp p (t\<lparr>registers := frame_registers frame (registers t)\<rparr>) dir P F \<and> heap_calls m' \<and> mem m' = ?mm"
    unfolding t'_def [symmetric] by (intro exI [of _ "switched ?s (current_task m) dir"]) (auto simp: program_life_def)
qed

section \<open>The steps of a program\<close>

text \<open>
  A step of the machine while the program runs: a store that does not fault, a call of \<^verbatim>\<open>malloc\<close> while the heap has room and the
  program has fewer than 1024 allocations, and a call of \<^verbatim>\<open>free\<close> with any pointer. The second component is the heap's live
  allocations.
\<close>

inductive program_step ::
  "(string \<Rightarrow> ('p os_state, 'p) Filesystem) \<Rightarrow> (nat \<Rightarrow> u8) \<Rightarrow> 'p os_state \<times> live \<Rightarrow> 'p os_state \<times> live \<Rightarrow> bool" for fs stk where
  step_store: "user_store m va v = Inr m' \<Longrightarrow> program_step fs stk (m, A) (m', A)"
| step_malloc: "stack_word m (cr3 m) (frame_esp frame) 0 = Inr sz \<Longrightarrow> 0 < unat sz \<Longrightarrow> unat sz \<le> 2 ^ 32 - 4096 \<Longrightarrow>
    room_for A (blocks_for (unat sz)) \<Longrightarrow> tasks m (current_task m) = Some t \<Longrightarrow> procs m (task_process t) = Some p \<Longrightarrow>
    \<exists>a\<in>set (allocations p). alloc_ptr a = 0 \<Longrightarrow> isr80h_handler fs stk m 4 frame = Inr (Back (block_addr r) m') \<Longrightarrow>
    r < kheap_blocks \<Longrightarrow> program_step fs stk (m, A) (m', A(r \<mapsto> blocks_for (unat sz)))"
| step_free: "stack_word m (cr3 m) (frame_esp frame) 0 = Inr (block_addr s) \<Longrightarrow> s < kheap_blocks \<Longrightarrow>
    tasks m (current_task m) = Some t \<Longrightarrow> procs m (task_process t) = Some p \<Longrightarrow> a \<in> set (allocations p) \<Longrightarrow>
    alloc_ptr a = block_addr s \<Longrightarrow> isr80h_handler fs stk m 5 frame = Inr (Back 0 m') \<Longrightarrow>
    program_step fs stk (m, A) (m', A(s := None))"
| step_free_other: "stack_word m (cr3 m) (frame_esp frame) 0 = Inr ptr \<Longrightarrow>
    tasks m (current_task m) = Some t \<Longrightarrow> procs m (task_process t) = Some p \<Longrightarrow>
    ptr = 0 \<or> (\<forall>a\<in>set (allocations p). alloc_ptr a \<noteq> ptr) \<Longrightarrow> isr80h_handler fs stk m 5 frame = Inr (Back 0 m') \<Longrightarrow>
    program_step fs stk (m, A) (m', A)"

lemma life_process:
  assumes "program_life m A pp p t dir P F" and "tasks m (current_task m) = Some t'" and "procs m (task_process t') = Some p'"
  shows "t' = t" and "p' = p"
  using assms by (auto simp: program_life_def process_inv_def deref_Inr)

lemma life_step:
  assumes life: "program_life m A pp p t dir P F" and ready: "heap_calls m" and st: "program_step fs stk (m, A) (m', A')"
  shows "\<exists>p' t'. program_life m' A' pp p' t' dir P F \<and> heap_calls m' \<and> (\<forall>b. pn b \<in> F \<longrightarrow> mem m' b = mem m b)"
proof -
  have cr: "cr3 m = dir" using life by (simp add: program_life_def)
  from st show ?thesis
  proof cases
    case (step_store va v)
    then show ?thesis using life_store [OF life] ready by (metis heap_calls_mem)
  next
    case (step_malloc frame sz tk q r)
    have "q = p" by (rule life_process(2) [OF life step_malloc(6,7)])
    with step_malloc malloc_call [OF life ready, of frame sz fs stk] cr obtain r' p' m2 where
      m2: "isr80h_handler fs stk m 4 frame = Inr (Back (block_addr r') m2)" "r' < kheap_blocks"
        "program_life m2 (A(r' \<mapsto> blocks_for (unat sz))) pp p' (t\<lparr>registers := frame_registers frame (registers t)\<rparr>) dir P F"
        "heap_calls m2" "\<forall>b. pn b \<in> F \<longrightarrow> mem m2 b = mem m b" by blast
    have "m2 = m'" "block_addr r' = block_addr r" using m2(1) step_malloc(9) by simp_all
    moreover from this(2) have "r' = r" using block_addr_inj [of r' r] m2(2) step_malloc(10) by (simp add: less_imp_le)
    ultimately show ?thesis using m2(3-5) step_malloc(1) by blast
  next
    case (step_free frame s tk q a)
    have q: "q = p" by (rule life_process(2) [OF life step_free(4,5)])
    have "length (allocations p) = 1024" using life allocs_own_length by (auto simp: program_life_def process_inv_def)
    then obtain i where i: "i < 1024" "alloc_ptr (allocations p ! i) = block_addr s"
      using step_free(6,7) unfolding q in_set_conv_nth by metis
    from free_call [OF life ready step_free(2) [unfolded cr] i step_free(3), of fs stk] step_free(1,8) show ?thesis by auto
  next
    case (step_free_other frame ptr tk q)
    have q: "q = p" by (rule life_process(2) [OF life step_free_other(3,4)])
    from free_call_else [OF life ready step_free_other(2) [unfolded cr] step_free_other(5) [unfolded q], of fs stk]
      step_free_other(1,6) show ?thesis by auto
  qed
qed

lemma life_steps:
  "(program_step fs stk)\<^sup>*\<^sup>* (m, A) (m', A') \<Longrightarrow> program_life m A pp p t dir P F \<Longrightarrow> heap_calls m \<Longrightarrow>
     \<exists>p' t'. program_life m' A' pp p' t' dir P F \<and> heap_calls m' \<and> (\<forall>b. pn b \<in> F \<longrightarrow> mem m' b = mem m b)"
proof (induction rule: rtranclp_induct2)
  case refl
  then show ?case by blast
next
  case (step m1 A1 m2 A2)
  then obtain p1 t1 where "program_life m1 A1 pp p1 t1 dir P F" "heap_calls m1" "\<forall>b. pn b \<in> F \<longrightarrow> mem m1 b = mem m b" by blast
  with life_step [OF this(1,2) step(2)] show ?case by metis
qed

section \<open>The start of a life\<close>

text \<open>Every page that is in use when the program starts, apart from its own memory and its directory.\<close>

definition other_frames :: "live \<Rightarrow> u32 set \<Rightarrow> nat set \<Rightarrow> nat set" where
  "other_frames A D P = {n. n \<notin> P \<and> n \<notin> pn ` D \<and> (\<forall>x<kheap_blocks. n = 4096 + x \<longrightarrow> x \<in> kh.used A)}"

lemma no_allocations:
  assumes "as = allocations zero_process"
  shows "allocs_own A D as" and "own_frames as = {}"
proof -
  have as: "as = replicate 1024 no_allocation" using assms by (simp add: zero_process_def no_allocation_def config)
  show "allocs_own A D as" unfolding as by (simp add: allocs_own_def alloc_ok_def no_allocation_def BIMBLEOS_MAX_PROGRAM_ALLOCATIONS_def)
  show "own_frames as = {}" unfolding as by (simp add: own_frames_def alloc_frames_free no_allocation_def)
qed

lemma started_life:
  assumes st: "started m pp s f n r a d" and inv: "scheduler_inv m A (tps @ [(a, pages)])" and pp: "pp \<noteq> 0"
    and p: "procs m pp = Some p" "allocations p = allocations zero_process"
    and within: "writes_within (mem m) d P" and apart: "\<forall>x\<in>set (concat (map snd (tps @ [(a, pages)]))). 4096 + x \<notin> P"
  shows "\<exists>t. tasks m a = Some t \<and> program_life (switched m a d) A pp p t d P (other_frames A (dir_pages (mem m) (page_directory t) d) P)"
proof -
  let ?m = "switched m a d"
  obtain t where t: "tasks m a = Some t" "task_process t = pp" "pd_root (mem m) (page_directory t) d"
    using st unfolding started_def by blast
  let ?D = "dir_pages (mem m) (page_directory t) d"
  have pa: "proc_task p = a" "a \<noteq> 0" using st p(1) by (auto simp: started_def)
  have own: "tasks_own m A (tps @ [(a, pages)])" and mi: "machine_inv m A" using inv by (simp_all add: scheduler_inv_def tasks_own_def)
  have foot: "task_footprint m a pages" and live: "\<forall>x\<in>set pages. A x = Some 1" "distinct pages"
    using own by (simp_all add: tasks_own_def pages_own_def)
  have bnd: "x < kheap_blocks" if "x \<in> set pages" for x using live(1) live_used [OF mi] that by blast
  obtain s p' d' ts where g: "pages = s # p' # d' # ts" "length ts = 1024"
    "map_option page_directory (tasks m a) = Some (block_addr p')" "load32 (mem m) (block_addr p') = block_addr d'"
    "\<forall>i<1024. table_of (mem m) (block_addr d') i = block_addr (ts ! i)" using foot unfolding task_footprint_def by blast
  have pd: "page_directory t = block_addr p'" "d = block_addr d'" using g(3,4) t(1,3) by (simp_all add: pd_root_def)
  have dir: "dir_inv (mem m) A (page_directory t) d"
    using footprint_dir_inv [of m a s p' d' ts A] foot live bnd unfolding g(1) pd by simp
  have page: "\<exists>x\<in>set pages. pn b = 4096 + x" if "b \<in> ?D" for b
  proof -
    have "b \<in> {block_addr p', block_addr d'} \<union> (\<lambda>i. block_addr (ts ! i)) ` {..<1024}"
      using that g(5) unfolding dir_pages_def pd by auto
    then obtain x where "b = block_addr x" "x \<in> set pages" using g(1,2) by fastforce
    then show ?thesis using bnd by (intro bexI [of _ x]) (simp_all add: less_imp_le)
  qed
  note none = no_allocations [OF p(2)]
  have "process_inv ?m A pp p t d"
    using dir none(1) t(1) p(1) pa pp machine_inv_kernel_heap [of ?m m] mi
    by (simp add: process_inv_def deref_def)
  moreover have "\<forall>b\<in>?D. pn b \<notin> P" using page apart by fastforce
  moreover have "reaches (mem m) d P (allocations p)" using within by (simp add: reaches_def writes_within_def)
  moreover have "foreign A ?D P (allocations p) (other_frames A ?D P)" by (auto simp: foreign_def other_frames_def none(2))
  moreover have "dir_open (mem m) d" "paging_enabled ?m"
    using st by (simp_all add: started_def switched_def paging_load_directory_def)
  ultimately show ?thesis using t(1,2) pa(1) by (intro exI [of _ t]) (simp add: program_life_def)
qed

section \<open>Stores to a block\<close>

lemma life_entry_store:
  assumes life: "program_life m A pp p t dir P F"
  shows "pd_entry (mem m) dir va = (va AND 0xfffff000) OR 7 \<Longrightarrow> user_store m va v = Inr (m\<lparr>mem := (mem m)(va := v)\<rparr>)"
    and "pd_entry (mem m) dir va = va AND 0xfffff000 \<Longrightarrow> user_store m va v = Inl PageFault"
proof -
  have on: "paging_enabled m" "cr3 m = dir" and pde: "load32 (mem m) (dir + of_nat (4 * (pn va div 1024))) AND 7 = 7"
    using life pn_div_bound [of va] by (simp_all add: program_life_def dir_open_def)
  show "user_store m va v = Inr (m\<lparr>mem := (mem m)(va := v)\<rparr>)" if e: "pd_entry (mem m) dir va = (va AND 0xfffff000) OR 7"
  proof -
    have "((va AND 0xfffff000) OR 7) AND 7 = 7" by (rule bit_word_eqI) (auto simp: bit_simps)
    moreover have "((va AND 0xfffff000) OR 7) AND 0xfffff000 = va AND 0xfffff000" by (rule mask_or_low) simp_all
    ultimately show ?thesis unfolding user_store_walk [OF on] e using pde page_split [of va] by simp
  qed
  show "user_store m va v = Inl PageFault" if e: "pd_entry (mem m) dir va = va AND 0xfffff000"
  proof -
    have "(va AND 0xfffff000) AND 7 \<noteq> 7" using write_bit [of "va AND 0xfffff000"] aligned_bit [OF off_mask [of va]] by blast
    then show ?thesis unfolding user_store_walk [OF on] e by simp
  qed
qed

section \<open>A program that runs\<close>

text \<open>The task of \<open>demo_user_task\<close>, whose directory maps everything to itself read-only, as the running program.\<close>

lemma demo_life:
  "\<exists>(m :: nat os_state) A p t dir. program_life m A 0x5000 p t dir {} {8, 9} \<and> heap_calls m \<and> kh.used A \<subseteq> {..<1028} \<and>
     allocations p = replicate 1024 no_allocation \<and> (\<forall>va. pd_entry (mem m) dir va = (va AND 0xfffff000) OR 5) \<and>
     (\<forall>b. pn b < 4096 \<longrightarrow> mem m b = copy_mem b) \<and> machine_inv m A \<and>
     (\<forall>x\<in>dir_pages (mem m) (page_directory t) dir. 4096 \<le> pn x)"
proof -
  obtain m0 :: "nat os_state" where m0: "scheduler_inv m0 Map.empty []" using demo_os_scheduler by blast
  let ?m0 = "m0\<lparr>mem := copy_mem, paging_enabled := True, isr80h_commands := map Some system_commands @ replicate 1014 None\<rparr>"
  have "machine_inv ?m0 Map.empty" using m0 machine_inv_kernel_heap [of ?m0 m0] by (simp add: scheduler_inv_def tasks_own_def)
  then have "scheduler_inv ?m0 Map.empty []" by (rule scheduler_inv_frame [OF m0]) simp_all
  from demo_user_task [OF this] obtain h mm kpd ts ps a A t dir pages and m :: "nat os_state" where
    m: "m = ?m0\<lparr>kernel_heap := h, mem := mm, kernelPageDirectory := kpd, tasks := ts, procs := ps, current_task := a,
      task_head := a, task_tail := a\<rparr>" and ut: "user_task m A t dir"
    and low: "\<forall>b. pn b < 4096 \<longrightarrow> mem m b = mem ?m0 b" and d: "\<forall>x\<in>dir_pages (mem m) (page_directory t) dir. 4096 \<le> pn x"
    and used: "kh.used A \<subseteq> {..<1028}" and e: "\<forall>va. pd_entry (mem m) dir va = (va AND 0xfffff000) OR 5"
    and op: "dir_open (mem m) dir" and t: "task_process t = 0x5000" by auto
  let ?m = "m\<lparr>procs := [0x5000 \<mapsto> demo_proc a], cr3 := dir\<rparr>"
  have mi: "machine_inv ?m A" using ut by (simp add: user_task_def machine_inv_def)
  have "current_task m = a" by (simp add: m)
  then have dt: "deref (tasks m) a = Inr t" using ut by (simp add: user_task_def)
  have al: "allocations (demo_proc a) = replicate 1024 no_allocation" "proc_task (demo_proc a) = a" by (simp_all add: demo_proc_def)
  then have own: "allocs_own A D (allocations (demo_proc a))" "own_frames (allocations (demo_proc a)) = {}" for D
    by (simp_all add: allocs_own_def alloc_ok_def no_allocation_def BIMBLEOS_MAX_PROGRAM_ALLOCATIONS_def own_frames_def alloc_frames_free)
  have "process_inv ?m A 0x5000 (demo_proc a) t dir"
    using mi dt own(1) al(2) ut by (simp add: process_inv_def user_task_def deref_Inr)
  moreover have "pd_entry (mem m) dir va AND 7 \<noteq> 7" for va
  proof
    assume "pd_entry (mem m) dir va AND 7 = 7"
    then have "bit ((va AND 0xfffff000) OR 5) 1" using write_bit e by metis
    then show False by (simp add: bit_simps)
  qed
  then have "reaches (mem m) dir {} (allocations (demo_proc a))" by (simp add: reaches_def)
  moreover have "foreign A (dir_pages (mem m) (page_directory t) dir) {} (allocations (demo_proc a)) {8, 9}"
    using d by (auto simp: foreign_def own(2))
  ultimately have "program_life ?m A 0x5000 (demo_proc a) t dir {} {8, 9}"
    using op t al(2) ut by (simp add: program_life_def user_task_def m)
  moreover have "heap_calls ?m"
  proof -
    have "isr80h_commands ?m = map Some system_commands @ replicate 1014 None" by (simp add: m)
    then show ?thesis using ut by (auto simp: heap_calls_def areadi_def system_commands_def user_task_def less_imp_le)
  qed
  ultimately show ?thesis using used al(1) e low mi d
    by (intro exI [of _ ?m] exI [of _ A] exI [of _ "demo_proc a"] exI [of _ t] exI [of _ dir]) simp
qed

lemma life_identity:
  assumes life: "program_life m A pp p t dir P F"
    and e: "\<forall>va. pd_entry (mem m) dir va = (va AND 0xfffff000) OR 5 \<or> pd_entry (mem m) dir va = (va AND 0xfffff000) OR 7"
  shows "vtranslate (m\<lparr>cr3 := dir\<rparr>) va = Inr va"
proof -
  let ?m = "m\<lparr>cr3 := dir\<rparr>"
  have on: "paging_enabled ?m" "cr3 ?m = dir" "dir_present (mem ?m) dir"
    using life by (simp_all add: program_life_def dir_open_present)
  have "off 0 = 0" by (simp add: off_def)
  then show ?thesis using vtranslate_mapped [OF on, of va 0 0 5] vtranslate_mapped [OF on, of va 0 0 7] e [rule_format, of va]
    by (auto simp: PAGING_IS_PRESENT_def)
qed

text \<open>A size, and then a pointer, on the user's stack at 0x9000.\<close>

lemma demo_malloc:
  "\<exists>(m :: nat os_state) A p t dir r p' (m' :: nat os_state). program_life m A 0x5000 p t dir {} {8, 9} \<and> heap_calls m \<and>
     stack_word m dir (frame_esp copy_frame) 0 = Inr 0x8000 \<and> room_for A (blocks_for (unat (0x8000 :: u32))) \<and>
     (\<exists>a\<in>set (allocations p). alloc_ptr a = 0) \<and>
     program_life m' (A(r \<mapsto> 8)) 0x5000 p' (t\<lparr>registers := frame_registers copy_frame (registers t)\<rparr>) dir {} {8, 9} \<and>
     heap_calls m' \<and> r < kheap_blocks \<and> stack_word m' dir (frame_esp copy_frame) 0 = Inr (block_addr r) \<and>
     (\<exists>i<1024. alloc_ptr (allocations p' ! i) = block_addr r)"
proof -
  obtain m :: "nat os_state" and A p t dir where
    life: "program_life m A 0x5000 p t dir {} {8, 9}" and ready: "heap_calls m" and used: "kh.used A \<subseteq> {..<1028}"
    and al: "allocations p = replicate 1024 no_allocation" and e: "\<forall>va. pd_entry (mem m) dir va = (va AND 0xfffff000) OR 5"
    and low: "\<forall>b. pn b < 4096 \<longrightarrow> mem m b = copy_mem b" and d: "\<forall>x\<in>dir_pages (mem m) (page_directory t) dir. 4096 \<le> pn x"
    using demo_life by blast
  have b8: "blocks_for (unat (0x8000 :: u32)) = 8" by (simp add: blocks_for_def)
  have id: "\<forall>va. vtranslate (m\<lparr>cr3 := dir\<rparr>) va = Inr va" using life_identity [OF life] e by blast
  have arg: "stack_word m dir (frame_esp copy_frame) 0 = Inr 0x8000"
    using identity_word [OF id low, of "0x9000"] by (simp add: copy_frame_def pn_def load32_def copy_mem_def)
  have room: "room_for A (blocks_for (unat (0x8000 :: u32)))"
    unfolding b8 room_for_def
  proof (intro exI [of _ 1028] conjI allI impI notI)
    fix i s' k' assume "1028 \<le> i \<and> i < 1028 + 8" "covers A s' k' i"
    moreover from this have "i \<in> kh.used A" by (auto simp: kh.used_def)
    ultimately show False using used by auto
  qed (simp add: kheap_blocks_def)
  have free: "\<exists>a\<in>set (allocations p). alloc_ptr a = 0" by (simp add: al no_allocation_def)
  let ?t = "t\<lparr>registers := frame_registers copy_frame (registers t)\<rparr>"
  have sz: "0 < unat (0x8000 :: u32)" "unat (0x8000 :: u32) \<le> 2 ^ 32 - 4096" by simp_all
  from malloc_call [OF life ready arg sz room free, of "\<lambda>_. undefined" "\<lambda>_. 0", unfolded b8] obtain r p' and m1 :: "nat os_state" where
    r: "r < kheap_blocks" "program_life m1 (A(r \<mapsto> 8)) 0x5000 p' ?t dir {} {8, 9}" "heap_calls m1"
      "\<forall>va. pd_entry (mem m1) dir va = (if in_blocks r 8 va then (va AND 0xfffff000) OR 7 else pd_entry (mem m) dir va)"
      "\<exists>i<1024. alloc_ptr (allocations p' ! i) = block_addr r" by blast
  let ?m = "m1\<lparr>mem := store32 (mem m1) 0x9000 (block_addr r)\<rparr>"
  have pg: "4096 \<le> pn x" if "x \<in> dir_pages (mem m1) (page_directory ?t) dir" for x
    using r(2) that by (fastforce simp: program_life_def process_inv_def dir_inv_def less_imp_le)
  have "store32 (mem m1) 0x9000 (block_addr r) b = mem m1 b" if "4096 \<le> pn b" for b
    using that by (intro store32_else) (auto simp: pn_def)
  then have same: "store32 (mem m1) 0x9000 (block_addr r) b = mem m1 b" if "pn b \<in> pn ` dir_pages (mem m1) (page_directory ?t) dir" for b
    using that pg by force
  have life': "program_life ?m (A(r \<mapsto> 8)) 0x5000 p' ?t dir {} {8, 9}" by (rule life_mem(1) [OF r(2)]) (rule same)
  have entry': "pd_entry (mem ?m) dir va = pd_entry (mem m1) dir va" for va
    using life_mem(2) [OF r(2), of "mem ?m"] same by simp
  have id': "\<forall>va. vtranslate (?m\<lparr>cr3 := dir\<rparr>) va = Inr va" using life_identity [OF life'] entry' r(4) e by simp
  have "stack_word ?m dir 0x9000 0 = Inr (load32 (mem ?m) 0x9000)" by (rule identity_word [OF id']) (simp_all add: pn_def)
  then have word: "stack_word ?m dir (frame_esp copy_frame) 0 = Inr (block_addr r)" by (simp add: copy_frame_def load32_store32_same)
  moreover have "heap_calls ?m" using r(3) by simp
  ultimately show ?thesis using life ready arg room free life' r(1,5) by blast
qed

section \<open>Properties\<close>

text \<open>
  C2: isolation. Take a kernel that loads a file of the root directory as a process and switches to its task. Whatever the
  program then does, in any order and as often as it likes: stores anywhere, up to a fault, calls of \<^verbatim>\<open>malloc\<close> while there is
  room, calls of \<^verbatim>\<open>free\<close> with any pointer, no byte changes in any page that was in use before, apart from the image and the stack
  of the program and the tables of its directory: neither in the kernel nor in another program. (The call that hands out the
  arguments is not among these steps: \<open>arguments_call_escapes\<close>.)
\<close>

theorem program_isolated:
  fixes m :: "FAT_FileDescriptor os_state"
  assumes op: "openable m A path k slot" "slot < 511" and disk: "file_on_disk img m k cs bs" and prog: "program_file bs" "segments_in_image bs"
    and inv: "scheduler_inv m A tps" and on: "paging_enabled m"
    and s: "0 \<le> s" "s < 12" "length (processes m) = 12" "processes m ! nat s = 0"
    and top: "kh.used A \<subseteq> {..<tp}" "tp + 9 * blocks_for (length bs) + 1038 \<le> kheap_blocks" and ready: "heap_calls m"
  shows "\<exists>pp a A' q r p t d m' m''. process_load_for_slot (fat16_fs img) m path process s = Inr (0, pp, m') \<and>
    task_switch m' a = Inr m'' \<and> A' q = Some (blocks_for (length bs)) \<and> A' r = Some 4 \<and>
    mem_bytes (mem m'') (block_addr q) (length bs) = bs \<and> tasks m'' a = Some t \<and> procs m'' pp = Some p \<and> proc_task p = a \<and>
    (\<forall>m3 A3. (program_step fs stk)\<^sup>*\<^sup>* (m'', A') (m3, A3) \<longrightarrow> (\<exists>p3 t3. process_inv m3 A3 pp p3 t3 d) \<and>
      (\<forall>b. pn b \<in> other_frames A' (dir_pages (mem m'') (page_directory t) d) (program_frames q (blocks_for (length bs)) r) \<longrightarrow>
         mem m3 b = mem m'' b))"
proof -
  let ?k = "blocks_for (length bs)"
  from loaded_confined [OF op disk prog inv on s top, of process] obtain pp f r a pages A' d m' q p where
    e: "process_load_for_slot (fat16_fs img) m path process s = Inr (0, pp, m')" "pp \<noteq> 0" "scheduler_inv m' A' (tps @ [(a, pages)])"
      "started m' pp s f (length bs) r a d" "mem_bytes (mem m') (block_addr q) (length bs) = bs" "A' q = Some ?k" "A' r = Some 4"
      "writes_within (mem m') d (program_frames q ?k r)"
      "\<forall>x\<in>set (concat (map snd (tps @ [(a, pages)]))). x \<notin> {q, r} \<and> 4096 + x \<notin> program_frames q ?k r"
      "procs m' pp = Some p" "allocations p = allocations zero_process" "same_kernel m m'"
    by (elim exE conjE) (rule that, assumption+)
  let ?m = "switched m' a d" and ?P = "program_frames q ?k r"
  from started_life [OF e(4,3,2,10,11,8)] e(9) obtain t where t: "tasks m' a = Some t"
    "program_life ?m A' pp p t d ?P (other_frames A' (dir_pages (mem m') (page_directory t) d) ?P)" by blast
  have "isr80h_commands m' = isr80h_commands m" "kernelPageDirectory m' = kernelPageDirectory m"
    using e(12) by (cases m; cases m'; simp add: same_kernel_def)+
  then have ready': "heap_calls ?m" using ready by (simp add: heap_calls_def)
  have "(\<exists>p3 t3. process_inv m3 A3 pp p3 t3 d) \<and>
      (\<forall>b. pn b \<in> other_frames A' (dir_pages (mem m') (page_directory t) d) ?P \<longrightarrow> mem m3 b = mem m' b)"
    if steps: "(program_step fs stk)\<^sup>*\<^sup>* (?m, A') (m3, A3)" for m3 A3
    using life_steps [OF steps t(2) ready'] by (auto simp: program_life_def)
  moreover have "task_switch m' a = Inr ?m" "proc_task p = a" using e(4,10) by (auto simp: started_def)
  ultimately show ?thesis using e(1,5-7,10) t(1)
    by - (rule exI [of _ pp], rule exI [of _ a], rule exI [of _ A'], rule exI [of _ q], rule exI [of _ r], rule exI [of _ p],
      rule exI [of _ t], rule exI [of _ d], rule exI [of _ m'], rule exI [of _ ?m], simp)
qed

text \<open>
  The program of the demonstration disk, next to another task, stores to its stack; the byte at 0x1000 stays as it is.
\<close>

theorem program_isolated_witness:
  "\<exists>(m :: FAT_FileDescriptor os_state) pp a m' m'' m3. process_load_for_slot (fat16_fs exe_img) m demo_file_path 0 0 = Inr (0, pp, m') \<and>
     task_switch m' a = Inr m'' \<and> user_store m'' 0x3FB000 7 = Inr m3 \<and> mem m3 0x1000 = mem m'' 0x1000"
proof -
  let ?s = "[104, 101, 108, 108, 111, 46, 116, 120, 116] :: u8 list" and ?stk = "\<lambda>_ :: nat. 0x41 :: u8"
  have z: "0 \<notin> set ?s" "length ?s < 2048" by simp_all
  obtain A t0 dir0 a0 pages0 and m :: "FAT_FileDescriptor os_state" where
    m: "user_task m A t0 dir0" "scheduler_inv m A [(a0, pages0)]" "fat_private m = exe_private" "processes m = replicate 12 0"
      "openable m A demo_file_path 0 0" "kh.used A \<subseteq> {..<1028}" "isr80h_commands m = map Some system_commands @ replicate 1014 None"
    using demo_start_call [OF z] by blast
  have on: "paging_enabled m" using m(1) by (simp add: user_task_def)
  have ready: "heap_calls m" using m(1,7) by (auto simp: heap_calls_def areadi_def system_commands_def user_task_def less_imp_le)
  have s: "0 \<le> (0 :: int)" "(0 :: int) < 12" "length (processes m) = 12" "processes m ! nat 0 = 0" using m(4) by simp_all
  have seg: "segments_in_image demo_exe" by (simp add: segments_in_image_def demo_exe_headers exe_phdr_def blocks_for_def)
  have tp: "1028 + 9 * blocks_for (length demo_exe) + 1038 \<le> kheap_blocks"
    by (simp add: demo_exe_headers(1) blocks_for_def kheap_blocks_def)
  have sl: "(0 :: nat) < 511" by simp
  note hyps = m(5) sl exe_on_disk [OF m(3)] demo_exe_program seg m(2) on s m(6) tp
  from program_isolated [OF hyps ready, of 0 "fat16_fs exe_img" ?stk] obtain pp a A' q r p t d m' m'' where
    i: "process_load_for_slot (fat16_fs exe_img) m demo_file_path 0 0 = Inr (0, pp, m')" "task_switch m' a = Inr m''"
      "tasks m'' a = Some t" "procs m'' pp = Some p" "proc_task p = a"
    and safe: "\<And>m3 A3. (program_step (fat16_fs exe_img) ?stk)\<^sup>*\<^sup>* (m'', A') (m3, A3) \<Longrightarrow> (\<exists>p3 t3. process_inv m3 A3 pp p3 t3 d) \<and>
      (\<forall>b. pn b \<in> other_frames A' (dir_pages (mem m'') (page_directory t) d) (program_frames q (blocks_for (length demo_exe)) r) \<longrightarrow>
         mem m3 b = mem m'' b)" by blast
  from loaded_confined [OF hyps, of 0] obtain f' r' a' d' where st: "started m' pp 0 f' (length demo_exe) r' a' d'" "procs m' pp \<noteq> None"
    using i(1) by auto
  have "m'' = switched m' a d'" "a' = a"
  proof -
    have "procs m'' = procs m'" using i(2) by (auto simp: task_switch_def paging_switch_def wread_def paging_load_directory_def bindE_def Let_def split: sum.splits if_splits)
    then show "a' = a" using st(1) i(4,5) by (auto simp: started_def)
    then show "m'' = switched m' a d'" using st(1) i(2) by (simp add: started_def)
  qed
  then obtain m3 where m3: "user_store m'' 0x3FB000 7 = Inr m3" using stack_store [OF st(1), of 0 7] by auto
  have "program_step (fat16_fs exe_img) ?stk (m'', A') (m3, A')" by (rule step_store [OF m3])
  then have keep: "pn b \<in> other_frames A' (dir_pages (mem m'') (page_directory t) d) (program_frames q (blocks_for (length demo_exe)) r) \<Longrightarrow>
      mem m3 b = mem m'' b" for b using safe by blast
  obtain p3 t3 where "process_inv m'' A' pp p3 t3 d" using safe [of m'' A'] by blast
  then have "dir_inv (mem m'') A' (page_directory t) d" using i(3-5) by (auto simp: process_inv_def deref_Inr)
  then have "pn 0x1000 \<notin> pn ` dir_pages (mem m'') (page_directory t) d" by (fastforce simp: dir_inv_def pn_def [of "0x1000"] less_imp_le)
  then have "mem m3 0x1000 = mem m'' 0x1000"
    by (intro keep) (simp add: other_frames_def program_frames_def pn_def [of "0x1000"])
  then show ?thesis using i(1,2) m3 by blast
qed

text \<open>
  C4: The system call 4 while the program runs: when the heap has room and the program a free entry, it returns the address of a
  run of blocks that nobody has, the program may write to every byte of it from then on, no page of another owner changes, and
  the program is as confined as before.
\<close>

theorem system_call_malloc:
  assumes life: "program_life m A pp p t dir P F" and ready: "heap_calls m"
    and arg: "stack_word m dir (frame_esp frame) 0 = Inr sz" and sz: "0 < unat sz" "unat sz \<le> 2 ^ 32 - 4096"
    and room: "room_for A (blocks_for (unat sz))" and free: "\<exists>a\<in>set (allocations p). alloc_ptr a = 0"
  shows "\<exists>r p' t' m'. isr80h_handler fs stk m 4 frame = Inr (Back (block_addr r) m') \<and>
    (\<forall>j\<in>{r..<r + blocks_for (unat sz)}. j \<notin> kh.used A) \<and>
    program_life m' (A(r \<mapsto> blocks_for (unat sz))) pp p' t' dir P F \<and> heap_calls m' \<and>
    (\<forall>b. pn b \<in> F \<longrightarrow> mem m' b = mem m b) \<and>
    (\<forall>va v. in_blocks r (blocks_for (unat sz)) va \<longrightarrow> user_store m' va v = Inr (m'\<lparr>mem := (mem m')(va := v)\<rparr>))"
proof -
  from malloc_call [OF assms, of fs stk] obtain r p' m' where
    r: "isr80h_handler fs stk m 4 frame = Inr (Back (block_addr r) m')" "\<forall>j\<in>{r..<r + blocks_for (unat sz)}. j \<notin> kh.used A"
      "program_life m' (A(r \<mapsto> blocks_for (unat sz))) pp p' (t\<lparr>registers := frame_registers frame (registers t)\<rparr>) dir P F"
      "heap_calls m'" "\<forall>b. pn b \<in> F \<longrightarrow> mem m' b = mem m b"
    and e: "\<forall>va. pd_entry (mem m') dir va = (if in_blocks r (blocks_for (unat sz)) va then (va AND 0xfffff000) OR 7 else pd_entry (mem m) dir va)"
    by blast
  have "user_store m' va v = Inr (m'\<lparr>mem := (mem m')(va := v)\<rparr>)" if "in_blocks r (blocks_for (unat sz)) va" for va v
    by (rule life_entry_store(1) [OF r(3)]) (use e that in simp)
  with r show ?thesis by blast
qed

theorem system_call_malloc_witness:
  "\<exists>(m :: nat os_state) r m'. isr80h_handler (\<lambda>_. undefined) (\<lambda>_. 0) m 4 copy_frame = Inr (Back (block_addr r) m') \<and>
     (\<exists>m3. user_store m' (block_addr r) 7 = Inr m3)"
proof -
  obtain m :: "nat os_state" and A p t dir where
    m: "program_life m A 0x5000 p t dir {} {8, 9}" "heap_calls m" "stack_word m dir (frame_esp copy_frame) 0 = Inr 0x8000"
      "room_for A (blocks_for (unat (0x8000 :: u32)))" "\<exists>a\<in>set (allocations p). alloc_ptr a = 0"
    using demo_malloc by blast
  have sz: "0 < unat (0x8000 :: u32)" "unat (0x8000 :: u32) \<le> 2 ^ 32 - 4096" by simp_all
  have b8: "blocks_for (unat (0x8000 :: u32)) = 8" by (simp add: blocks_for_def)
  from system_call_malloc [OF m(1-3) sz m(4,5), of "\<lambda>_. undefined" "\<lambda>_. 0", unfolded b8] obtain r p' t' m' where
    r: "isr80h_handler (\<lambda>_. undefined) (\<lambda>_. 0) m 4 copy_frame = Inr (Back (block_addr r) m')"
      "program_life m' (A(r \<mapsto> 8)) 0x5000 p' t' dir {} {8, 9}"
      "\<And>va v. in_blocks r 8 va \<Longrightarrow> user_store m' va v = Inr (m'\<lparr>mem := (mem m')(va := v)\<rparr>)" by blast
  have "machine_inv m' (A(r \<mapsto> 8))" using r(2) by (simp add: program_life_def process_inv_def)
  from machine_inv_bounds [OF this, of r 8] have "r \<le> kheap_blocks" by simp
  then have "in_blocks r 8 (block_addr r)" by (simp add: in_blocks_def)
  from r(3) [OF this, of 7] r(1) show ?thesis by blast
qed

text \<open>
  C5: The system call 5 while the program runs: freeing a pointer of the program gives its blocks back to the heap, and the program
  can no longer write to them: every store to one of their addresses faults. No page of another owner changes.
\<close>

theorem system_call_free:
  assumes life: "program_life m A pp p t dir P F" and ready: "heap_calls m"
    and arg: "stack_word m dir (frame_esp frame) 0 = Inr (block_addr s)"
    and i: "i < 1024" "alloc_ptr (allocations p ! i) = block_addr s" "s < kheap_blocks"
  shows "\<exists>k p' t' m'. A s = Some k \<and> isr80h_handler fs stk m 5 frame = Inr (Back 0 m') \<and>
    program_life m' (A(s := None)) pp p' t' dir P F \<and> heap_calls m' \<and> (\<forall>b. pn b \<in> F \<longrightarrow> mem m' b = mem m b) \<and>
    (\<forall>va v. in_blocks s k va \<longrightarrow> user_store m' va v = Inl PageFault)"
proof -
  let ?k = "blocks_for (unat (alloc_size (allocations p ! i)))"
  from free_call [OF assms, of fs stk] obtain p' m' where
    r: "isr80h_handler fs stk m 5 frame = Inr (Back 0 m')"
      "program_life m' (A(s := None)) pp p' (t\<lparr>registers := frame_registers frame (registers t)\<rparr>) dir P F"
      "heap_calls m'" "\<forall>b. pn b \<in> F \<longrightarrow> mem m' b = mem m b" "A s = Some ?k"
    and e: "\<forall>va. in_blocks s ?k va \<longrightarrow> pd_entry (mem m') dir va = va AND 0xfffff000" by blast
  have "user_store m' va v = Inl PageFault" if "in_blocks s ?k va" for va v
    by (rule life_entry_store(2) [OF r(2)]) (use e that in blast)
  with r show ?thesis by blast
qed

theorem system_call_free_witness:
  "\<exists>(m :: nat os_state) s m'. isr80h_handler (\<lambda>_. undefined) (\<lambda>_. 0) m 5 copy_frame = Inr (Back 0 m') \<and>
     user_store m' (block_addr s) 7 = Inl PageFault"
proof -
  obtain A p t dir r i and m :: "nat os_state" where
    m: "program_life m (A(r \<mapsto> 8)) 0x5000 p t dir {} {8, 9}" "heap_calls m"
      "stack_word m dir (frame_esp copy_frame) 0 = Inr (block_addr r)" "i < 1024" "alloc_ptr (allocations p ! i) = block_addr r"
      "r < kheap_blocks"
    using demo_malloc by blast
  from system_call_free [OF m, of "\<lambda>_. undefined" "\<lambda>_. 0"] obtain k m' where
    f: "(A(r \<mapsto> 8)) r = Some k" "isr80h_handler (\<lambda>_. undefined) (\<lambda>_. 0) m 5 copy_frame = Inr (Back 0 m')"
      "\<And>va v. in_blocks r k va \<Longrightarrow> user_store m' va v = Inl PageFault" by blast
  then have "in_blocks r k (block_addr r)" using m(6) by (auto simp: in_blocks_def less_imp_le)
  with f(2,3) show ?thesis by blast
qed

end
