(* ===== verification/Interrupts.thy ===== *)
theory Interrupts
  imports Isr80h
begin

text \<open>
  What happens on an interrupt (\<^verbatim>\<open>idt/idt.c\<close>): the dispatch through the table of callbacks, the clock, and the
  exceptions. The properties put the parts together: the clock runs the tasks in turn, and a key that is typed reaches the
  program that asks for it.

  \<open>classic\<close> is the address of the PS/2 keyboard's structure and \<open>scancode\<close> the byte its port holds. The acknowledgement of
  the interrupt at port 0x20 is not modelled.
\<close>

section \<open>Handlers\<close>

definition divide_by_zero :: "'p os_state \<Rightarrow> fault + 'p os_state" where
  "divide_by_zero m = print m (map of_char ''Divide by zero'' @ [0])"

definition idt_handle_exception :: "'p os_state \<Rightarrow> fault + (unit, 'p os_state) kernel_exit" where
  "idt_handle_exception m =
     bindE (print m (map of_char ''Exception occured'' @ [0])) (\<lambda>m1.
     bindE (current_task_process m1) (\<lambda>process.
     bindE (process_terminate m1 process) (\<lambda>(_, m2).
       leave_to_next m2)))"

definition idt_clock :: "'p os_state \<Rightarrow> fault + (unit, 'p os_state) kernel_exit" where
  "idt_clock m = leave_to_next m"

text \<open>The call through the pointer.\<close>

definition run_callback :: "u32 \<Rightarrow> u8 \<Rightarrow> 'p os_state \<Rightarrow> interrupt_callback \<Rightarrow> fault + (unit, 'p os_state) kernel_exit" where
  "run_callback classic scancode m callback = (case callback of
       ExceptionCallback \<Rightarrow> idt_handle_exception m
     | ClockCallback \<Rightarrow> idt_clock m
     | KeyboardCallback \<Rightarrow> bindE (classic_keyboard_handle_interrupt m classic scancode) (\<lambda>m1. Inr (Back () m1)))"

definition interrupt_handler ::
  "u32 \<Rightarrow> u8 \<Rightarrow> 'p os_state \<Rightarrow> int \<Rightarrow> InterruptFrame \<Rightarrow> fault + (unit, 'p os_state) kernel_exit" where
  "interrupt_handler classic scancode m interrupt frame =
     bindE (kernel_page m) (\<lambda>m1.
     bindE (areadi (interrupt_callbacks m1) interrupt) (\<lambda>callback.
     bindE (case callback of None \<Rightarrow> Inr (Back () m1)
            | Some f \<Rightarrow> bindE (task_current_save_state m1 frame) (\<lambda>m2. run_callback classic scancode m2 f)) (\<lambda>res.
       case res of Back r m3 \<Rightarrow> bindE (task_page m3) (\<lambda>m4. Inr (Back () m4)) | ToUser r m3 \<Rightarrow> Inr (ToUser r m3))))"

section \<open>The clock\<close>

text \<open>
  \<open>ticking m ts\<close>: the tasks \<open>ts\<close> are queued, every one has a page directory, the kernel has its own, and the clock has its
  callback.
\<close>

definition ticking :: "'p os_state \<Rightarrow> u32 list \<Rightarrow> bool" where
  "ticking m ts \<longleftrightarrow> run_queue m ts \<and> task_dirs (tasks m) ts \<and> kernelPageDirectory m \<noteq> 0 \<and>
     areadi (interrupt_callbacks m) 0x20 = Inr (Some ClockCallback)"

lemma run_queue_fields:
  "next_links (tasks m') ts 0 = next_links (tasks m) ts 0 \<Longrightarrow> task_head m' = task_head m \<Longrightarrow> task_tail m' = task_tail m \<Longrightarrow>
     current_task m' = current_task m \<Longrightarrow> run_queue m' ts = run_queue m ts"
  by (simp add: run_queue_def)

lemma run_queue_view [simp]: "run_queue (kernel_view m) ts = run_queue m ts"
  by (rule run_queue_fields) simp_all

lemma run_queue_saved: "tasks m a = Some t \<Longrightarrow> run_queue (saved m a t frame) ts = run_queue m ts"
  by (rule run_queue_fields) (simp_all add: links_keep)

lemma task_dirs_saved: "tasks m a = Some t \<Longrightarrow> task_dirs (tasks m) ts \<Longrightarrow> task_dirs (tasks (saved m a t frame)) ts"
  by (auto simp: task_dirs_def)

text \<open>One tick.\<close>

lemma clock_tick:
  assumes k: "ticking m ts" and i: "i < length ts" and cur: "current_task m = ts ! i"
  shows "\<exists>t t' m'. tasks m (ts ! i) = Some t \<and> interrupt_handler classic scancode m 0x20 frame = Inr (ToUser (registers t') m') \<and>
    ticking m' ts \<and> current_task m' = ts ! (Suc i mod length ts) \<and> mem m' = mem m \<and>
    tasks m' = (tasks m)(ts ! i \<mapsto> t\<lparr>registers := frame_registers frame (registers t)\<rparr>) \<and>
    tasks m' (ts ! (Suc i mod length ts)) = Some t' \<and> cr3 m' = load32 (mem m) (page_directory t')"
proof -
  have q: "run_queue m ts" and dirs: "task_dirs (tasks m) ts" and kp: "kernelPageDirectory m \<noteq> 0"
    and cb: "areadi (interrupt_callbacks m) 0x20 = Inr (Some ClockCallback)" using k by (simp_all add: ticking_def)
  obtain t where t: "deref (tasks m) (ts ! i) = Inr t" "tasks m (ts ! i) = Some t" using run_queue_nth [OF q i] by blast
  let ?s = "saved (kernel_view m) (ts ! i) t frame"
  have save: "task_current_save_state (kernel_view m) frame = Inr ?s"
    using save_state_ok [of "kernel_view m" t frame] t cur by simp
  have qs: "run_queue ?s ts" using q t(2) by (simp add: run_queue_saved)
  have ds: "task_dirs (tasks ?s) ts" using task_dirs_saved [of "kernel_view m"] t(2) dirs by simp
  obtain t' where t': "tasks ?s (ts ! (Suc i mod length ts)) = Some t'"
    "task_next ?s = Inr (registers t', switched ?s (ts ! (Suc i mod length ts)) (load32 (mem ?s) (page_directory t')))"
    "run_queue (switched ?s (ts ! (Suc i mod length ts)) (load32 (mem ?s) (page_directory t'))) ts"
    using task_next_nth [OF qs i _ ds] cur by auto
  define m' where "m' = switched ?s (ts ! (Suc i mod length ts)) (load32 (mem ?s) (page_directory t'))"
  have "interrupt_handler classic scancode m 0x20 frame = Inr (ToUser (registers t') m')"
    using cb by (simp add: interrupt_handler_def kernel_page_view [OF kp] save run_callback_def idt_clock_def
        leave_to_next_def t'(2) m'_def)
  moreover have "ticking m' ts" using t'(3) ds kp cb by (simp add: ticking_def m'_def)
  ultimately show ?thesis using t(2) t'(1) by (intro exI [of _ t] exI [of _ t'] exI [of _ m']) (simp add: m'_def)
qed

text \<open>
  A run of the machine under clock interrupts: before each one user code runs, which may change any memory and is interrupted
  in any frame. The result is what user code continues with: the registers \<open>task_return\<close> loads, or those of the frame.
\<close>

primrec clock_run ::
  "u32 \<Rightarrow> u8 \<Rightarrow> Registers \<Rightarrow> 'p os_state \<Rightarrow> ((u32 \<Rightarrow> u8) \<times> InterruptFrame) list \<Rightarrow> fault + (Registers \<times> 'p os_state)" where
  "clock_run classic scancode r m [] = Inr (r, m)"
| "clock_run classic scancode r m (u # us) =
     bindE (interrupt_handler classic scancode (m\<lparr>mem := fst u\<rparr>) 0x20 (snd u)) (\<lambda>res. case res of
         Back _ m1 \<Rightarrow> clock_run classic scancode (frame_registers (snd u) r) m1 us
       | ToUser r1 m1 \<Rightarrow> clock_run classic scancode r1 m1 us)"

text \<open>The tasks whose turn ends in the next \<open>k\<close> ticks.\<close>

definition turns :: "u32 list \<Rightarrow> nat \<Rightarrow> nat \<Rightarrow> u32 set" where
  "turns ts i k = {ts ! ((i + j) mod length ts) | j. j < k}"

lemma turns_Suc: "turns ts i (Suc k) = insert (ts ! (i mod length ts)) (turns ts (Suc i) k)"
proof -
  have "turns ts i (Suc k) = (\<lambda>j. ts ! ((i + j) mod length ts)) ` {..<Suc k}" by (auto simp: turns_def)
  also have "{..<Suc k} = insert 0 (Suc ` {..<k})" by (rule lessThan_Suc_eq_insert_0)
  finally show ?thesis by (auto simp: turns_def image_image)
qed

lemma turns_mod: "turns ts (i mod length ts) k = turns ts i k"
  by (simp add: turns_def mod_add_left_eq)

lemma ticking_mem [simp]: "ticking (m\<lparr>mem := mm\<rparr>) ts = ticking m ts"
  by (simp add: ticking_def run_queue_def)

lemma clock_run_ok:
  "ticking m ts \<Longrightarrow> i < length ts \<Longrightarrow> current_task m = ts ! i \<Longrightarrow> tasks m (ts ! i) = Some t0 \<Longrightarrow> us \<noteq> [] \<or> r = registers t0 \<Longrightarrow>
     \<exists>m' t. clock_run classic scancode r m us = Inr (registers t, m') \<and> ticking m' ts \<and>
       current_task m' = ts ! ((i + length us) mod length ts) \<and> tasks m' (current_task m') = Some t \<and>
       (us \<noteq> [] \<longrightarrow> cr3 m' = load32 (mem m') (page_directory t)) \<and>
       (\<forall>a. a \<notin> turns ts i (length us) \<longrightarrow> tasks m' a = tasks m a)"
proof (induction us arbitrary: m i r t0)
  case (Cons u us)
  from Cons.prems(3) have cur: "current_task (m\<lparr>mem := fst u\<rparr>) = ts ! i" by simp
  obtain t t' m1 where one:
    "interrupt_handler classic scancode (m\<lparr>mem := fst u\<rparr>) 0x20 (snd u) = Inr (ToUser (registers t') m1)" "ticking m1 ts"
    "current_task m1 = ts ! (Suc i mod length ts)" "mem m1 = fst u"
    "tasks m1 = (tasks m)(ts ! i \<mapsto> t\<lparr>registers := frame_registers (snd u) (registers t)\<rparr>)"
    "tasks m1 (ts ! (Suc i mod length ts)) = Some t'" "cr3 m1 = load32 (fst u) (page_directory t')"
    using clock_tick [OF _ Cons.prems(2) cur, of classic scancode "snd u"] Cons.prems(1) by auto
  have i': "Suc i mod length ts < length ts" using Cons.prems(2) by (intro mod_less_divisor) linarith
  obtain m' t2 where rest: "clock_run classic scancode (registers t') m1 us = Inr (registers t2, m')" "ticking m' ts"
    "current_task m' = ts ! ((Suc i mod length ts + length us) mod length ts)" "tasks m' (current_task m') = Some t2"
    "us \<noteq> [] \<longrightarrow> cr3 m' = load32 (mem m') (page_directory t2)"
    "\<forall>a. a \<notin> turns ts (Suc i mod length ts) (length us) \<longrightarrow> tasks m' a = tasks m1 a"
    using Cons.IH [OF one(2) i' one(3,6), of "registers t'"] by auto
  have "(Suc i mod length ts + length us) mod length ts = (i + length (u # us)) mod length ts"
    by (simp add: mod_add_left_eq)
  moreover have "cr3 m' = load32 (mem m') (page_directory t2)"
  proof (cases "us = []")
    case True
    then have "m' = m1" using rest(1) by simp
    then show ?thesis using rest(4) one by simp
  qed (use rest(5) in simp)
  moreover have "\<forall>a. a \<notin> turns ts i (length (u # us)) \<longrightarrow> tasks m' a = tasks m a"
    using rest(6) one(5) Cons.prems(2) by (simp add: turns_Suc turns_mod)
  ultimately show ?case using one(1) rest(1-4) by (intro exI [of _ m'] exI [of _ t2]) simp
qed auto

section \<open>Properties\<close>

definition demo_two :: "nat os_state \<Rightarrow> nat os_state" where
  "demo_two m = (demo_os m)\<lparr>tasks := [0x1000 \<mapsto> demo_task\<lparr>task_next_ptr := 0x4000\<rparr>, 0x4000 \<mapsto> demo_task], task_tail := 0x4000\<rparr>"

lemma demo_ticking: "ticking (demo_two m) [0x1000, 0x4000]"
  by (simp add: ticking_def run_queue_def task_dirs_def demo_two_def demo_os_def demo_task_def areadi_def nth_append)

text \<open>
  C19: No task starves: after \<open>k\<close> clock interrupts, whatever the programs do to memory in between, the machine runs the task
  \<open>k\<close> places further round the queue, in its own page directory and with the registers saved for it.
\<close>

theorem clock_round_robin:
  assumes "ticking m ts" and "i < length ts" and "current_task m = ts ! i" and "us \<noteq> []"
  shows "\<exists>m' t. clock_run classic scancode r m us = Inr (registers t, m') \<and> ticking m' ts \<and>
    current_task m' = ts ! ((i + length us) mod length ts) \<and> tasks m' (current_task m') = Some t \<and>
    cr3 m' = load32 (mem m') (page_directory t)"
proof -
  obtain t0 where "tasks m (ts ! i) = Some t0"
    using run_queue_nth [OF _ assms(2)] assms(1) unfolding ticking_def by blast
  from clock_run_ok [OF assms(1-3) this, of us r classic scancode] assms(4) show ?thesis by blast
qed

text \<open>
  A task that is interrupted by the clock goes on, when its turn comes again after one tick for every task, with exactly
  the registers of the frame it was interrupted in.
\<close>

theorem clock_resumes_task:
  assumes k: "ticking m ts" and i: "i < length ts" "current_task m = ts ! i" and us: "Suc (length us) = length ts"
  shows "\<exists>m'. clock_run classic scancode r m ((mm, frame) # us) = Inr (frame_registers frame zero_registers, m') \<and>
    current_task m' = current_task m"
proof -
  have cur: "current_task (m\<lparr>mem := mm\<rparr>) = ts ! i" using i by simp
  obtain t t' m1 where one:
    "interrupt_handler classic scancode (m\<lparr>mem := mm\<rparr>) 0x20 frame = Inr (ToUser (registers t') m1)" "ticking m1 ts"
    "current_task m1 = ts ! (Suc i mod length ts)"
    "tasks m1 = (tasks m)(ts ! i \<mapsto> t\<lparr>registers := frame_registers frame (registers t)\<rparr>)"
    "tasks m1 (ts ! (Suc i mod length ts)) = Some t'"
    using clock_tick [OF _ i(1) cur, of classic scancode frame] k by auto
  have i': "Suc i mod length ts < length ts" using i(1) by (intro mod_less_divisor) linarith
  obtain m' t2 where rest: "clock_run classic scancode (registers t') m1 us = Inr (registers t2, m')"
    "current_task m' = ts ! ((Suc i mod length ts + length us) mod length ts)" "tasks m' (current_task m') = Some t2"
    "\<forall>a. a \<notin> turns ts (Suc i mod length ts) (length us) \<longrightarrow> tasks m' a = tasks m1 a"
    using clock_run_ok [OF one(2) i' one(3,5), of us "registers t'" classic scancode] by auto
  have "(Suc i mod length ts + length us) mod length ts = (i + length ts) mod length ts"
    using us by (metis add_Suc_right add_Suc_shift mod_add_left_eq)
  then have home: "current_task m' = ts ! i" using rest(2) i by simp
  have "ts ! i \<notin> turns ts (Suc i mod length ts) (length us)"
  proof
    assume "ts ! i \<in> turns ts (Suc i mod length ts) (length us)"
    then obtain j where j: "j < length us" "ts ! i = ts ! ((Suc i + j) mod length ts)" unfolding turns_mod by (auto simp: turns_def)
    have d: "distinct ts" using k by (simp add: ticking_def run_queue_def)
    have "(Suc i + j) mod length ts < length ts" using i(1) by (intro mod_less_divisor) linarith
    then have "i = (Suc i + j) mod length ts" using j(2) d i(1) nth_eq_iff_index_eq by blast
    then have "i mod length ts = (i + Suc j) mod length ts" using i(1) by simp
    then have "length ts dvd (i + Suc j) - i" by (metis le_add1 mod_eq_dvd_iff_nat)
    then have "length ts dvd Suc j" by simp
    then show False using j(1) us by (auto dest: dvd_imp_le)
  qed
  then have "tasks m' (ts ! i) = Some (t\<lparr>registers := frame_registers frame (registers t)\<rparr>)" using rest(4) one(4) by simp
  then have "registers t2 = frame_registers frame (registers t)" using rest(3) home by auto
  moreover have "frame_registers frame q = frame_registers frame zero_registers" for q
    by (cases q) (simp add: frame_registers_def zero_registers_def)
  ultimately have "registers t2 = frame_registers frame zero_registers" by metis
  then show ?thesis using one(1) rest(1) home i(2) by (intro exI [of _ m']) simp
qed

theorem clock_round_robin_witness:
  "\<exists>(m :: nat os_state) m' r. clock_run 0 0 zero_registers m (replicate 3 (\<lambda>_. 1, demo_frame)) = Inr (r, m') \<and>
     current_task m = 0x1000 \<and> current_task m' = 0x4000"
proof -
  fix m0 :: "nat os_state"
  have cur: "current_task (demo_two m0) = [0x1000, 0x4000] ! 0" and i: "0 < length [0x1000, 0x4000 :: u32]"
    and us: "replicate 3 (\<lambda>_ :: u32. 1 :: u8, demo_frame) \<noteq> []" by (simp_all add: demo_two_def)
  obtain m' and t :: Task where run: "clock_run 0 0 zero_registers (demo_two m0) (replicate 3 (\<lambda>_. 1, demo_frame)) = Inr (registers t, m')"
    and "current_task m' = [0x1000, 0x4000] !
      ((0 + length (replicate 3 (\<lambda>_ :: u32. 1 :: u8, demo_frame))) mod length [0x1000, 0x4000 :: u32])"
    using clock_round_robin [OF demo_ticking [of m0] i cur us, of 0 0 zero_registers] by blast
  moreover from this(2) have "current_task m' = 0x4000" by (simp add: eval_nat_numeral mod_Suc)
  ultimately show ?thesis using cur by (metis nth_Cons_0)
qed

theorem clock_resumes_task_witness:
  "\<exists>(m :: nat os_state) m'. clock_run 0 0 zero_registers m [(\<lambda>_. 1, demo_frame), (\<lambda>_. 1, demo_frame\<lparr>frame_eax := 9\<rparr>)] =
     Inr (frame_registers demo_frame zero_registers, m')"
proof -
  fix m0 :: "nat os_state"
  let ?us = "[(\<lambda>_ :: u32. 1 :: u8, demo_frame\<lparr>frame_eax := 9\<rparr>)]"
  have cur: "current_task (demo_two m0) = [0x1000, 0x4000] ! 0" and i: "0 < length [0x1000, 0x4000 :: u32]"
    and us: "Suc (length ?us) = length [0x1000, 0x4000 :: u32]" by (simp_all add: demo_two_def)
  from clock_resumes_task [OF demo_ticking [of m0] i cur us] show ?thesis by blast
qed

section \<open>From the key to the program\<close>

lemma keyboard_interrupt:
  assumes t: "deref (tasks m) (current_task m) = Inr t" "page_directory t \<noteq> 0" "kernelPageDirectory m \<noteq> 0"
    and cb: "areadi (interrupt_callbacks m) 0x21 = Inr (Some KeyboardCallback)"
    and p: "deref (procs m) (current_process m) = Inr p" "ring_rep (keyboard p) q" "length q < 1024"
    and key: "classic_keyboard_scancode_to_char m classic scancode = Inr c" "c \<noteq> 0" "scancode AND 0x80 = 0" "scancode \<noteq> 0x3A"
  shows "\<exists>kb m'. interrupt_handler classic scancode m 0x21 frame = Inr (Back () m') \<and> ring_rep kb (q @ [c]) \<and>
    procs m' = (procs m)(current_process m \<mapsto> p\<lparr>keyboard := kb\<rparr>) \<and> current_task m' = current_task m \<and>
    tasks m' = (tasks m)(current_task m \<mapsto> t\<lparr>registers := frame_registers frame (registers t)\<rparr>) \<and>
    kernelPageDirectory m' = kernelPageDirectory m \<and> isr80h_commands m' = isr80h_commands m \<and> mem m' = mem m"
proof -
  let ?s = "saved (kernel_view m) (current_task m) t frame" and ?t = "t\<lparr>registers := frame_registers frame (registers t)\<rparr>"
  have save: "task_current_save_state (kernel_view m) frame = Inr ?s"
    using save_state_ok [of "kernel_view m" t frame] t by simp
  have view: "kernel_page ?s = Inr (kernel_view ?s)" using kernel_page_view [of ?s] t(3) by simp
  have "classic_keyboard_scancode_to_char (kernel_view ?s) classic scancode = classic_keyboard_scancode_to_char m classic scancode"
    by (simp add: classic_keyboard_scancode_to_char_def keyboard_get_capslock_def)
  then have "classic_keyboard_scancode_to_char (kernel_view ?s) classic scancode = Inr c" using key(1) by simp
  moreover obtain kb where kb: "ring_push (keyboard p) c = Inr kb" "ring_rep kb (q @ [c])"
    using ring.push_room [OF p(2,3) key(2)] by blast
  define s1 where "s1 = set_proc (kernel_view ?s) (current_process m) (p\<lparr>keyboard := kb\<rparr>)"
  have "keyboard_push (kernel_view ?s) c = Inr s1"
    using p(1) key(2) kb(1) by (simp add: keyboard_push_def process_current_def s1_def Let_def) (simp add: deref_Inr)
  moreover have tp: "task_page s = Inr (switched s (current_task m) (load32 (mem m) (page_directory t)))"
    if "tasks s = (tasks m)(current_task m \<mapsto> ?t)" "current_task s = current_task m" "mem s = mem m" for s :: "'a os_state"
    using task_page_ok [of s ?t] that t(1,2) by (simp add: deref_Inr)
  ultimately have "classic_keyboard_handle_interrupt ?s classic scancode =
      Inr (switched s1 (current_task m) (load32 (mem m) (page_directory t)))"
    using key by (simp add: classic_keyboard_handle_interrupt_def view keyboard_consts s1_def)
  moreover define m' where "m' = switched (switched s1 (current_task m) (load32 (mem m) (page_directory t))) (current_task m)
    (load32 (mem m) (page_directory t))"
  ultimately have "interrupt_handler classic scancode m 0x21 frame = Inr (Back () m')"
    using cb by (simp add: interrupt_handler_def kernel_page_view [OF t(3)] save run_callback_def tp s1_def)
  then show ?thesis using kb(2) by (intro exI [of _ kb] exI [of _ m']) (simp add: m'_def s1_def)
qed

lemma getkey_call:
  assumes t: "deref (tasks m) (current_task m) = Inr t" "page_directory t \<noteq> 0" "kernelPageDirectory m \<noteq> 0"
    and c: "areadi (isr80h_commands m) 2 = Inr (Some Command2_getkey)"
    and p: "deref (procs m) (task_process t) = Inr p" "ring_pop (keyboard p) = Inr (c, kb)"
  shows "\<exists>m'. isr80h_handler fs stk m 2 frame = Inr (Back (scast c) m') \<and>
    procs m' = (procs m)(task_process t \<mapsto> p\<lparr>keyboard := kb\<rparr>) \<and> current_task m' = current_task m \<and>
    tasks m' = (tasks m)(current_task m \<mapsto> t\<lparr>registers := frame_registers frame (registers t)\<rparr>) \<and>
    kernelPageDirectory m' = kernelPageDirectory m \<and> isr80h_commands m' = isr80h_commands m"
proof -
  let ?s = "saved (kernel_view m) (current_task m) t frame"
  let ?s' = "set_proc ?s (task_process t) (p\<lparr>keyboard := kb\<rparr>)"
  have "current_task m \<noteq> 0" using t(1) by (simp add: deref_Inr)
  moreover from this have "deref (tasks ?s) (current_task m) = Inr (t\<lparr>registers := frame_registers frame (registers t)\<rparr>)"
    by (simp add: deref_Inr)
  ultimately have "keyboard_pop ?s = Inr (c, ?s')" using p by (simp add: keyboard_pop_def task_current_def)
  then have "isr80h_handle_command fs stk ?s 2 = Inr (Back (scast c) ?s')"
    using c by (simp add: isr80h_handle_command_def config run_command_def comes_back_def isr80h_command2_getkey_def)
  from handler_back [OF t this] show ?thesis by simp
qed

text \<open>
  C13: A key that is typed reaches the program: when the running task belongs to the current process and nothing is waiting
  in its ring, the interrupt of a key that stands for a character comes back to the task, the next \<^verbatim>\<open>getkey\<close> of that task
  returns the character, and the one after that 0.
\<close>

theorem typed_key_is_delivered:
  assumes t: "deref (tasks m) (current_task m) = Inr t" "page_directory t \<noteq> 0" "kernelPageDirectory m \<noteq> 0"
    and cb: "areadi (interrupt_callbacks m) 0x21 = Inr (Some KeyboardCallback)"
      "areadi (isr80h_commands m) 2 = Inr (Some Command2_getkey)"
    and p: "current_process m = task_process t" "deref (procs m) (task_process t) = Inr p" "ring_rep (keyboard p) []"
    and key: "classic_keyboard_scancode_to_char m classic scancode = Inr c" "c \<noteq> 0" "scancode AND 0x80 = 0" "scancode \<noteq> 0x3A"
  shows "\<exists>m1 m2 m3. interrupt_handler classic scancode m 0x21 f1 = Inr (Back () m1) \<and>
    isr80h_handler fs stk m1 2 f2 = Inr (Back (scast c) m2) \<and> isr80h_handler fs stk m2 2 f3 = Inr (Back 0 m3)"
proof -
  obtain kb m1 where m1: "interrupt_handler classic scancode m 0x21 f1 = Inr (Back () m1)" "ring_rep kb [c]"
    "procs m1 = (procs m)(task_process t \<mapsto> p\<lparr>keyboard := kb\<rparr>)" "current_task m1 = current_task m"
    "tasks m1 = (tasks m)(current_task m \<mapsto> t\<lparr>registers := frame_registers f1 (registers t)\<rparr>)"
    "kernelPageDirectory m1 = kernelPageDirectory m" "isr80h_commands m1 = isr80h_commands m"
    using keyboard_interrupt [OF t cb(1) _ p(3) _ key, of f1] p(1,2) by auto
  obtain kb2 where kb2: "ring_pop kb = Inr (c, kb2)" "ring_rep kb2 []" using ring.pop_oldest m1(2) by blast
  have nz: "current_task m \<noteq> 0" "task_process t \<noteq> 0" using t(1) p(2) by (simp_all add: deref_Inr)
  obtain m2 where m2: "isr80h_handler fs stk m1 2 f2 = Inr (Back (scast c) m2)"
    "procs m2 = (procs m1)(task_process t \<mapsto> p\<lparr>keyboard := kb2\<rparr>)" "current_task m2 = current_task m"
    "tasks m2 = (tasks m)(current_task m \<mapsto> t\<lparr>registers := frame_registers f2 (frame_registers f1 (registers t))\<rparr>)"
    "kernelPageDirectory m2 = kernelPageDirectory m" "isr80h_commands m2 = isr80h_commands m"
    using getkey_call [of m1 "t\<lparr>registers := frame_registers f1 (registers t)\<rparr>" "p\<lparr>keyboard := kb\<rparr>" c kb2 fs stk f2]
      m1 t cb nz kb2(1) by (auto simp: deref_Inr)
  have "ring_pop kb2 = Inr (0, kb2)" using ring.pop_empty kb2(2) by blast
  then obtain m3 where "isr80h_handler fs stk m2 2 f3 = Inr (Back (scast (0 :: u8)) m3)"
    using getkey_call [of m2 "t\<lparr>registers := frame_registers f2 (frame_registers f1 (registers t))\<rparr>"
        "p\<lparr>keyboard := kb2\<rparr>" 0 kb2 fs stk f3] m2 t cb nz by (auto simp: deref_Inr)
  with m1(1) m2(1) show ?thesis by auto
qed

text \<open>The key A, typed while caps lock is off.\<close>

theorem typed_key_is_delivered_witness:
  "\<exists>(m :: nat os_state) m1 m2. interrupt_handler 0x6000 0x1E m 0x21 demo_frame = Inr (Back () m1) \<and>
     isr80h_handler (\<lambda>_. undefined) (\<lambda>_. 0) m1 2 demo_frame = Inr (Back 0x61 m2)"
proof -
  fix m0 :: "nat os_state"
  let ?k = "\<lparr>keyboard_init_ptr = Some ClassicKeyboardInit, capslock_state = 0, keyboard_next = 0\<rparr>"
  let ?p = "demo_proc 0x1000\<lparr>keyboard := empty_ring\<rparr>"
  let ?m = "(demo_os m0)\<lparr>procs := [0x5000 \<mapsto> ?p], current_process := 0x5000, keyboards := [0x6000 \<mapsto> ?k],
    interrupt_callbacks := replicate 33 None @ [Some KeyboardCallback]\<rparr>"
  have t: "deref (tasks ?m) (current_task ?m) = Inr demo_task" "page_directory demo_task \<noteq> 0" "kernelPageDirectory ?m \<noteq> 0" by simp_all
  have cb: "areadi (interrupt_callbacks ?m) 0x21 = Inr (Some KeyboardCallback)"
    "areadi (isr80h_commands ?m) 2 = Inr (Some Command2_getkey)"
    by (simp_all add: areadi_def nth_append demo_os_def system_commands_def)
  have p: "current_process ?m = task_process demo_task" "deref (procs ?m) (task_process demo_task) = Inr ?p"
    "ring_rep (keyboard ?p) []"
    using empty_ring_at by (auto simp: demo_task_def deref_def ring_rep_def intro!: exI [of _ 0])
  have key: "classic_keyboard_scancode_to_char ?m 0x6000 0x1E = Inr 0x61" "(0x61 :: u8) \<noteq> 0" "(0x1E :: u8) AND 0x80 = 0"
    "(0x1E :: u8) \<noteq> 0x3A"
    by (simp_all add: classic_keyboard_scancode_to_char_def keyboard_get_capslock_def deref_def keyboard_scan_set_one_def
        KEYBOARD_CAPS_LOCK_OFF_def)
  from typed_key_is_delivered [OF t cb p key, of demo_frame "\<lambda>_. undefined" "\<lambda>_. 0" demo_frame demo_frame]
  obtain m1 m2 where "interrupt_handler 0x6000 0x1E ?m 0x21 demo_frame = Inr (Back () m1)"
    "isr80h_handler (\<lambda>_. undefined) (\<lambda>_. 0) m1 2 demo_frame = Inr (Back 0x61 m2)" by auto
  then show ?thesis by blast
qed

end
