(* ===== verification/KernelMain.thy ===== *)
theory KernelMain
  imports Interrupts ProgramMap
begin

text \<open>
  The entry of the kernel (\<^verbatim>\<open>kernel_main\<close> in \<^verbatim>\<open>kernel.c\<close>): everything is initialised, two programs are loaded and the
  first task is run. What the linker and the assembly files place is collected in \<open>boot_info\<close>.
\<close>

section \<open>Where things are\<close>

text \<open>
  The bytes at \<^verbatim>\<open>BIMBLEOS_HEAP_TABLE_ADDRESS\<close>, and the addresses of the statics \<^verbatim>\<open>tss\<close>, \<^verbatim>\<open>idt_descriptors\<close> and
  \<^verbatim>\<open>classic_keyboard\<close>, of the stubs and wrappers, and of the local \<^verbatim>\<open>argument\<close> on the kernel's stack.
\<close>

record boot_info =
  raw_heap_table :: "u8 list"
  tss_address :: u32
  idt_address :: u32
  interrupt_stubs :: "nat \<Rightarrow> u32"
  divide_by_zero_address :: u32
  isr80h_wrapper_address :: u32
  classic_address :: u32
  argument_address :: u32

section \<open>Initialisation\<close>

primrec print_all :: "('p, 'a) kernel_state_scheme \<Rightarrow> string list \<Rightarrow> fault + ('p, 'a) kernel_state_scheme" where
  "print_all m [] = Inr m"
| "print_all m (s # ss) = bindE (print m (map of_char s @ [0])) (\<lambda>m1. print_all m1 ss)"

text \<open>\<^verbatim>\<open>strcpy(argument.argument, name); argument.next = 0; process_inject_arguments(process, &argument);\<close>\<close>

definition inject_name :: "'p os_state \<Rightarrow> u32 \<Rightarrow> u32 \<Rightarrow> u8 list \<Rightarrow> fault + 'p os_state" where
  "inject_name m process arg name =
     bindE (strcpy (mem_bytes (mem m) arg 512) name) (\<lambda>bs.
     bindE (process_inject_arguments (m\<lparr>mem := store32 (store_bytes (mem m) arg bs) (arg + 512) 0\<rparr>)
              process arg) (\<lambda>(_, m1).
       Inr m1))"

text \<open>The path \<^verbatim>\<open>0:/blank.elf\<close> and the names \<^verbatim>\<open>P1\<close> and \<^verbatim>\<open>P2\<close>.\<close>

definition blank_path :: "u8 list" where
  "blank_path = [0x30, 0x3A, 0x2F, 0x62, 0x6C, 0x61, 0x6E, 0x6B, 0x2E, 0x65, 0x6C, 0x66, 0]"

text \<open>
  The part before the first program is loaded. \<^verbatim>\<open>gdt_load\<close>, \<^verbatim>\<open>idt_load\<close> and \<^verbatim>\<open>tss_load\<close> hand their pointers to the processor.
\<close>

definition kernel_init ::
  "(string \<Rightarrow> ('p os_state, 'p) Filesystem) \<Rightarrow> boot_info \<Rightarrow> 'p os_state \<Rightarrow> fault + 'p os_state" where
  "kernel_init fs b m =
     bindE (terminal_initialize m) (\<lambda>m1.
     bindE (gdt_structured_to_gdt (replicate BIMBLEOS_TOTAL_GDT_SEGMENT (replicate 8 0)) (gdt_structured (tss_address b))
              (int BIMBLEOS_TOTAL_GDT_SEGMENT)) (\<lambda>gdt.
     bindE (kheap_init (m1\<lparr>gdt_real := gdt\<rparr>) (raw_heap_table b)) (\<lambda>(m2, messages).
     bindE (print_all m2 messages) (\<lambda>m3.
     bindE (fs_init m3) (\<lambda>m4.
     bindE (disk_search_and_init (fs_resolve fs) m4) (\<lambda>m5.
     bindE (idt_init m5 (idt_address b) (interrupt_stubs b) (divide_by_zero_address b) (isr80h_wrapper_address b)) (\<lambda>m6.
     bindE (paging_new (m6\<lparr>tss := zero_tss\<lparr>tss_esp0 := 0x600000, tss_ss0 := ucast KERNAL_DATA_SELECTOR\<rparr>\<rparr>)
              (ucast (PAGING_IS_WRITEABLE OR PAGING_IS_PRESENT OR PAGING_ACCESS_FROM_ALL))) (\<lambda>(pd, m7).
     bindE (paging_switch (m7\<lparr>kernelPageDirectory := pd\<rparr>) pd) (\<lambda>m8.
     bindE (isr80h_register_commands (enable_paging m8)) (\<lambda>m9.
       keyboard_init m9 (classic_address b)))))))))))"

definition kernel_main ::
  "(string \<Rightarrow> ('p os_state, 'p) Filesystem) \<Rightarrow> boot_info \<Rightarrow> 'p os_state \<Rightarrow> fault + (Registers \<times> 'p os_state)" where
  "kernel_main fs b m =
     bindE (kernel_init fs b m) (\<lambda>m1.
     bindE (process_load_switch fs m1 blank_path 0) (\<lambda>(_, process, m2).
     bindE (inject_name m2 process (argument_address b) [0x50, 0x31, 0]) (\<lambda>m3.
     bindE (process_load_switch fs m3 blank_path process) (\<lambda>(res, process, m4).
     bindE (inject_name m4 process (argument_address b) [0x50, 0x32, 0]) (\<lambda>m5.
       if res \<noteq> BIMBLEOS_ALL_OK then bindE (panic m5 ''Failed to load process'') (\<lambda>m6. task_run_first_ever_task m6)
       else task_run_first_ever_task m5)))))"

section \<open>The kernel's own directory\<close>

lemma linear_pd_translate:
  assumes lin: "linear_pd (mem m) p d ts flags" and on: "paging_enabled m" "cr3 m = block_addr d"
    and fl: "ucast flags AND PAGING_IS_PRESENT \<noteq> 0"
  shows "vtranslate m va = Inr va"
proof -
  have e: "pd_entry (mem m) (block_addr d) va = (va AND 0xfffff000) OR ucast flags" by (rule linear_pd_entry [OF lin])
  then have "pd_entry (mem m) (block_addr d) va AND PAGING_IS_PRESENT \<noteq> 0"
    using fl by (auto simp: bit.conj_disj_distrib2 or_eq_0_iff)
  from vtranslate_entry [OF on linear_dir_present [OF lin fl] this] show ?thesis
    using page_split [of va] mask_or_low [of "va AND 0xfffff000" "ucast flags"] unat_flags [of flags] by (simp add: e)
qed

section \<open>The kernel is ready\<close>

text \<open>What the file system driver leaves alone.\<close>

lemma os_above:
  "above m' = above (m :: 'p os_state) \<Longrightarrow> interrupt_callbacks m' = interrupt_callbacks m \<and>
     isr80h_commands m' = isr80h_commands m \<and> keyboards m' = keyboards m \<and> keyboard_list_last m' = keyboard_list_last m \<and>
     gdt_real m' = gdt_real m \<and> tasks m' = tasks m \<and> procs m' = procs m \<and> current_task m' = current_task m \<and>
     task_head m' = task_head m \<and> processes m' = processes m \<and> file_descriptors m' = file_descriptors m"
  by (cases m; cases m') simp

lemma fs_init_eq:
  "fs_init m = Inr (m\<lparr>file_descriptors := replicate BIMBLEOS_MAX_FILE_DESCRIPTORS None,
     filesystems := Some fat16_init # replicate 11 None\<rparr>)"
proof -
  have r: "replicate BIMBLEOS_MAX_FILESYSTEMS None = None # replicate 11 None"
    by (simp add: BIMBLEOS_MAX_FILESYSTEMS_def numeral_eq_Suc)
  show ?thesis
    by (simp add: fs_init_def fs_load_def fs_static_load_def fs_insert_filesystem_def fs_get_free_filesystem_def r)
qed

lemma gdt_table_encodable: "\<forall>s\<in>set (gdt_structured a). encodable s"
  by (simp add: gdt_structured_def encodable_def TSS_SIZE_def)

lemma gdt_table_ok:
  "gdt_structured_to_gdt (replicate 6 (replicate 8 0)) (gdt_structured a) 6 = Inr (map gdt_encoded (gdt_structured a))"
proof -
  have l: "length (gdt_structured a) = 6" by (simp add: gdt_structured_def)
  then have "gdt_loop (replicate 6 (replicate 8 0)) (gdt_structured a) 6 =
      Inr (map gdt_encoded (take 6 (gdt_structured a)) @ drop 6 (replicate 6 (replicate 8 0)))"
    using gdt_table_encodable by (intro gdt_loop_ok) auto
  then show ?thesis using l by (simp add: gdt_structured_to_gdt_def)
qed

text \<open>The first file system is asked, and it is the FAT16 driver.\<close>

lemma mount_ok:
  fixes m :: "FAT_FileDescriptor os_state"
  assumes inv: "machine_inv m Map.empty" and fss: "filesystems m = Some fat16_init # xs"
    and sig: "signature (extended_header (FAT_H_of (bytes_at img 0 62))) = 0x29"
    and root: "root_ok img (FAT_H_of (bytes_at img 0 62)) n"
    and room: "root_blocks (FAT_H_of (bytes_at img 0 62)) + 1031 \<le> kheap_blocks"
  shows "\<exists>m' A. disk_search_and_init (fs_resolve (fat16_fs img)) m = Inr m' \<and> above m' = above m \<and> fat_ready m' \<and>
    filesystem (disk m') = Some fat16_init \<and> machine_inv m' A \<and> card (kh.used A) + 1026 \<le> kheap_blocks"
proof -
  let ?H = "FAT_H_of (bytes_at img 0 62)"
  let ?m1 = "m\<lparr>disk := \<lparr>disk_type = BIMBLEOS_DISK_TYPE_REAL, disk_id = 0, sector_size = BIMBLEOS_SECTOR_SIZE,
    filesystem = None, fs_private = 0\<rparr>\<rparr>"
  have i1: "machine_inv ?m1 Map.empty" using inv machine_inv_kernel_heap [of ?m1 m] by simp
  have r1: "0 + 5 + root_blocks ?H \<le> kheap_blocks" using room by simp
  obtain m2 p a b c r where m2: "fat16_resolve img ?m1 = Inr (0, m2)" "fat_ready m2"
    "machine_inv m2 ((add_pages Map.empty [p, a, b, c])(r \<mapsto> root_blocks ?H))" "distinct [p, a, b, c, r]"
    using fat16_resolve_ok [OF i1 tail_free_empty r1 _ _ sig root] by (auto simp: config)
  let ?A = "(add_pages Map.empty [p, a, b, c])(r \<mapsto> root_blocks ?H)"
  have "kh.used (add_pages Map.empty [p, a, b, c]) = set [p, a, b, c] \<union> kh.used Map.empty"
    by (rule used_add_pages) simp
  moreover have "add_pages Map.empty [p, a, b, c] r = None" using m2(4) by (auto simp: add_pages_def)
  ultimately have "kh.used ?A = set [p, a, b, c] \<union> {r..<r + root_blocks ?H}" by (subst kh.used_upd) simp_all
  moreover have "card (set [p, a, b, c] \<union> {r..<r + root_blocks ?H}) \<le> card (set [p, a, b, c]) + card {r..<r + root_blocks ?H}"
    by (rule card_Un_le)
  moreover have "card (set [p, a, b, c]) \<le> 4" using card_length [of "[p, a, b, c]"] by simp
  ultimately have used: "card (kh.used ?A) + 1026 \<le> kheap_blocks" using room by simp
  let ?m' = "m2\<lparr>disk := (disk m2)\<lparr>filesystem := Some fat16_init\<rparr>\<rparr>"
  have "disk_search_and_init (fs_resolve (fat16_fs img)) m = Inr ?m'"
    using m2(1) fss by (simp add: disk_search_and_init_def Let_def fs_resolve_def fat16_fs_def)
  moreover have "above ?m' = above m" using resolve_above [OF m2(1)] by simp
  moreover have "fat_ready ?m'" using m2(2) by (simp add: fat_ready_def)
  moreover have "machine_inv ?m' ?A" using m2(3) machine_inv_kernel_heap [of ?m' m2] by simp
  ultimately show ?thesis using used by (intro exI [of _ ?m'] exI [of _ ?A]) simp
qed

lemma keyboard_init_ok:
  assumes k: "deref (keyboards m) classic = Inr k" "keyboard_init_ptr k = Some ClassicKeyboardInit"
    and z: "keyboard_list_last m = 0" and l: "length (interrupt_callbacks m) = 256"
  shows "keyboard_init m classic = Inr (m\<lparr>keyboard_list_head := classic, keyboard_list_last := classic,
    interrupt_callbacks := (interrupt_callbacks m)[33 := Some KeyboardCallback],
    keyboards := (keyboards m)(classic \<mapsto> k\<lparr>capslock_state := KEYBOARD_CAPS_LOCK_OFF\<rparr>)\<rparr>)"
proof -
  have "idt_register_interrupt_callback (m\<lparr>keyboard_list_head := classic, keyboard_list_last := classic\<rparr>)
      ISR_KEYBOARD_INTERRUPT KeyboardCallback = Inr (0, m\<lparr>keyboard_list_head := classic, keyboard_list_last := classic,
        interrupt_callbacks := (interrupt_callbacks m)[33 := Some KeyboardCallback]\<rparr>)"
    using register_callback_ok [of 33 "m\<lparr>keyboard_list_head := classic, keyboard_list_last := classic\<rparr>" KeyboardCallback] l
    by (simp add: ISR_KEYBOARD_INTERRUPT_def)
  then show ?thesis
    using k z by (simp add: keyboard_init_def keyboard_insert_def classic_keyboard_init_def keyboard_set_capslock_def)
qed

section \<open>The states of the initialisation\<close>

text \<open>Behind the descriptor tables, and behind the kernel's page directory, the system calls and the keyboard.\<close>

definition tables_loaded :: "boot_info \<Rightarrow> 'p os_state \<Rightarrow> 'p os_state" where
  "tables_loaded b m = m\<lparr>idt_descriptors := gates (interrupt_stubs b) (divide_by_zero_address b) (isr80h_wrapper_address b),
     idtr_descriptor := \<lparr>idtr_limit = 2047, idtr_base = idt_address b\<rparr>, interrupt_callbacks := callbacks_after (interrupt_callbacks m),
     tss := zero_tss\<lparr>tss_esp0 := 0x600000, tss_ss0 := ucast KERNAL_DATA_SELECTOR\<rparr>\<rparr>"

definition kernel_ready :: "boot_info \<Rightarrow> Keyboard \<Rightarrow> nat \<Rightarrow> nat \<Rightarrow> heap \<Rightarrow> (u32 \<Rightarrow> u8) \<Rightarrow> 'p os_state \<Rightarrow> 'p os_state" where
  "kernel_ready b k p d h mm m = m\<lparr>kernel_heap := h, mem := mm, kernelPageDirectory := block_addr p, cr3 := block_addr d,
     current_directory := block_addr d, paging_enabled := True, isr80h_commands := map Some system_commands @ replicate 1014 None,
     keyboard_list_head := classic_address b, keyboard_list_last := classic_address b,
     interrupt_callbacks := (interrupt_callbacks m)[33 := Some KeyboardCallback],
     keyboards := (keyboards m)(classic_address b \<mapsto> k\<lparr>capslock_state := KEYBOARD_CAPS_LOCK_OFF\<rparr>)\<rparr>"

text \<open>The heap and the disk.\<close>

lemma storage_ready:
  fixes m :: "FAT_FileDescriptor os_state"
  assumes table: "length (raw_heap_table b) = kheap_blocks"
    and dsk: "signature (extended_header (FAT_H_of (bytes_at img 0 62))) = 0x29"
      "root_ok img (FAT_H_of (bytes_at img 0 62)) n" "root_blocks (FAT_H_of (bytes_at img 0 62)) + 1031 \<le> kheap_blocks"
  shows "\<exists>m1 m2 m5 A. terminal_initialize m = Inr m1 \<and>
    kheap_init (m1\<lparr>gdt_real := map gdt_encoded (gdt_structured (tss_address b))\<rparr>) (raw_heap_table b) = Inr (m2, []) \<and>
    disk_search_and_init (fs_resolve (fat16_fs img)) (m2\<lparr>file_descriptors := replicate BIMBLEOS_MAX_FILE_DESCRIPTORS None,
      filesystems := Some fat16_init # replicate 11 None\<rparr>) = Inr m5 \<and>
    machine_inv m5 A \<and> card (kh.used A) + 1026 \<le> kheap_blocks \<and> fat_ready m5 \<and> filesystem (disk m5) = Some fat16_init \<and>
    interrupt_callbacks m5 = interrupt_callbacks m \<and> isr80h_commands m5 = isr80h_commands m \<and> keyboards m5 = keyboards m \<and>
    keyboard_list_last m5 = keyboard_list_last m \<and> gdt_real m5 = map gdt_encoded (gdt_structured (tss_address b)) \<and>
    tasks m5 = tasks m \<and> current_task m5 = current_task m \<and> processes m5 = processes m \<and> vfs_inv m5"
proof -
  let ?gdt = "map gdt_encoded (gdt_structured (tss_address b))"
  obtain m1 where m1: "terminal_initialize m = Inr m1" "interrupt_callbacks m1 = interrupt_callbacks m"
    "isr80h_commands m1 = isr80h_commands m" "keyboards m1 = keyboards m" "keyboard_list_last m1 = keyboard_list_last m"
    "tasks m1 = tasks m" "current_task m1 = current_task m" "processes m1 = processes m"
    by (simp add: terminal_initialize_blank)
  obtain m2 where m2: "kheap_init (m1\<lparr>gdt_real := ?gdt\<rparr>) (raw_heap_table b) = Inr (m2, [])" "machine_inv m2 Map.empty"
    using kheap_init_ok [OF table, of "m1\<lparr>gdt_real := ?gdt\<rparr>"] by blast
  then have more2: "machine.more m2 = machine.more (m1\<lparr>gdt_real := ?gdt\<rparr>)" by (auto simp: kheap_init_def Let_def)
  let ?m4 = "m2\<lparr>file_descriptors := replicate BIMBLEOS_MAX_FILE_DESCRIPTORS None, filesystems := Some fat16_init # replicate 11 None\<rparr>"
  have "machine_inv ?m4 Map.empty" using m2(2) machine_inv_kernel_heap [of ?m4 m2] by simp
  from mount_ok [OF this _ dsk] obtain m5 A where m5: "disk_search_and_init (fs_resolve (fat16_fs img)) ?m4 = Inr m5"
    "above m5 = above ?m4" "fat_ready m5" "filesystem (disk m5) = Some fat16_init" "machine_inv m5 A"
    "card (kh.used A) + 1026 \<le> kheap_blocks" by auto
  have "interrupt_callbacks m5 = interrupt_callbacks m" "isr80h_commands m5 = isr80h_commands m" "keyboards m5 = keyboards m"
    "keyboard_list_last m5 = keyboard_list_last m" "gdt_real m5 = ?gdt" "tasks m5 = tasks m" "current_task m5 = current_task m"
    "processes m5 = processes m" and fd: "file_descriptors m5 = replicate BIMBLEOS_MAX_FILE_DESCRIPTORS None"
    using os_above [OF m5(2)] more2 m1(2-) by (cases m2; cases m1; simp)+
  moreover have "vfs_inv m5" using fd by (auto simp: vfs_inv_def)
  ultimately show ?thesis using m1(1) m2(1) m5(1,3-6) by blast
qed

text \<open>The descriptor tables, the paging, the system calls and the keyboard, from there.\<close>

lemma kernel_init_tail:
  assumes tab: "length (interrupt_callbacks m) = 256" "isr80h_commands m = replicate 1024 None" "keyboard_list_last m = 0"
    and kbd: "deref (keyboards m) (classic_address b) = Inr k" "keyboard_init_ptr k = Some ClassicKeyboardInit"
    and inv: "machine_inv m A" and room: "card (kh.used A) + 1026 \<le> kheap_blocks"
  shows "\<exists>p d ts h mm m6 m7 m8 m9. block_addr p \<noteq> 0 \<and>
    linear_pd mm p d ts (ucast (PAGING_IS_WRITEABLE OR PAGING_IS_PRESENT OR PAGING_ACCESS_FROM_ALL)) \<and>
    machine_inv (kernel_ready b k p d h mm (tables_loaded b m)) (add_pages A (p # d # ts)) \<and>
    idt_init m (idt_address b) (interrupt_stubs b) (divide_by_zero_address b) (isr80h_wrapper_address b) = Inr m6 \<and>
    paging_new (m6\<lparr>tss := zero_tss\<lparr>tss_esp0 := 0x600000, tss_ss0 := ucast KERNAL_DATA_SELECTOR\<rparr>\<rparr>)
      (ucast (PAGING_IS_WRITEABLE OR PAGING_IS_PRESENT OR PAGING_ACCESS_FROM_ALL)) = Inr (block_addr p, m7) \<and>
    paging_switch (m7\<lparr>kernelPageDirectory := block_addr p\<rparr>) (block_addr p) = Inr m8 \<and>
    isr80h_register_commands (enable_paging m8) = Inr m9 \<and>
    keyboard_init m9 (classic_address b) = Inr (kernel_ready b k p d h mm (tables_loaded b m))"
proof -
  let ?F = "ucast (PAGING_IS_WRITEABLE OR PAGING_IS_PRESENT OR PAGING_ACCESS_FROM_ALL) :: u8" and ?m6 = "tables_loaded b m"
  have "machine_inv ?m6 A" using inv machine_inv_kernel_heap [of ?m6 m] by (simp add: tables_loaded_def)
  from paging_new_ok [OF this room, of ?F] obtain p d ts h mm where
    pg: "paging_new ?m6 ?F = Inr (block_addr p, ?m6\<lparr>kernel_heap := h, mem := mm\<rparr>)"
      "machine_inv (?m6\<lparr>kernel_heap := h, mem := mm\<rparr>) (add_pages A (p # d # ts))" "linear_pd mm p d ts ?F" by blast
  have root: "block_addr p \<noteq> 0" "load32 mm (block_addr p) = block_addr d"
    using linear_pd_root [OF pg(3)] by (simp_all add: pd_root_def)
  define m8 where "m8 = ?m6\<lparr>kernel_heap := h, mem := mm, kernelPageDirectory := block_addr p, cr3 := block_addr d,
    current_directory := block_addr d\<rparr>"
  define m9 where "m9 = (enable_paging m8)\<lparr>isr80h_commands := map Some system_commands @ replicate 1014 None\<rparr>"
  have "length system_commands = 10" by (simp add: system_commands_def)
  then have cmds: "isr80h_register_commands (enable_paging m8) = Inr m9"
    using register_commands_ok [of "enable_paging m8" 0 system_commands] tab(2)
    by (simp add: isr80h_register_commands_def m9_def m8_def tables_loaded_def enable_paging_def)
  have "length (interrupt_callbacks m9) = 256"
    using tab(1) by (simp add: m9_def m8_def tables_loaded_def enable_paging_def callbacks_after_def)
  then have kb: "keyboard_init m9 (classic_address b) = Inr (kernel_ready b k p d h mm ?m6)"
    using keyboard_init_ok [of m9 "classic_address b" k] kbd tab(3)
    by (simp add: kernel_ready_def m9_def m8_def tables_loaded_def enable_paging_def)
  have "paging_switch (?m6\<lparr>kernel_heap := h, mem := mm, kernelPageDirectory := block_addr p\<rparr>) (block_addr p) = Inr m8"
    using root by (simp add: paging_switch_def wread_def paging_load_directory_def m8_def)
  moreover have "machine_inv (kernel_ready b k p d h mm ?m6) (add_pages A (p # d # ts))"
    using pg(2) machine_inv_kernel_heap [of "kernel_ready b k p d h mm ?m6" "?m6\<lparr>kernel_heap := h, mem := mm\<rparr>"]
    by (simp add: kernel_ready_def)
  moreover obtain m6 where "idt_init m (idt_address b) (interrupt_stubs b) (divide_by_zero_address b) (isr80h_wrapper_address b) = Inr m6"
    "m6\<lparr>tss := zero_tss\<lparr>tss_esp0 := 0x600000, tss_ss0 := ucast KERNAL_DATA_SELECTOR\<rparr>\<rparr> = ?m6"
    using tab(1) by (simp add: idt_init_eq tables_loaded_def)
  ultimately show ?thesis using pg(1,3) root(1) cmds kb
    by - (rule exI [of _ p], rule exI [of _ d], rule exI [of _ ts], rule exI [of _ h], rule exI [of _ mm], rule exI [of _ m6],
      rule exI [of _ "?m6\<lparr>kernel_heap := h, mem := mm\<rparr>"], rule exI [of _ m8], rule exI [of _ m9], simp)
qed

section \<open>Properties\<close>

text \<open>
  C7: From the state the loader leaves, with zeroed statics and a FAT16 disk, everything \<^verbatim>\<open>kernel_main\<close> initialises before it
  loads a program is ready: the heap, the file layer and the mounted disk keep their invariants, paging is on and maps
  every address to itself, the descriptor tables decode to what was asked for, the ten system calls, the exceptions, the
  clock and the keyboard have their handlers, and no task exists yet that did not before.
\<close>

theorem kernel_init_ready:
  fixes m :: "FAT_FileDescriptor os_state"
  assumes table: "length (raw_heap_table b) = kheap_blocks"
    and bss: "length (interrupt_callbacks m) = 256" "isr80h_commands m = replicate 1024 None" "keyboard_list_last m = 0"
    and kbd: "deref (keyboards m) (classic_address b) = Inr k" "keyboard_init_ptr k = Some ClassicKeyboardInit"
    and dsk: "signature (extended_header (FAT_H_of (bytes_at img 0 62))) = 0x29"
      "root_ok img (FAT_H_of (bytes_at img 0 62)) n" "root_blocks (FAT_H_of (bytes_at img 0 62)) + 1031 \<le> kheap_blocks"
  shows "\<exists>m' A. kernel_init (fat16_fs img) b m = Inr m' \<and>
    machine_inv m' A \<and> vfs_inv m' \<and> fat_ready m' \<and> filesystem (disk m') = Some fat16_init \<and>
    paging_enabled m' \<and> kernelPageDirectory m' \<noteq> 0 \<and> (\<forall>va. vtranslate m' va = Inr va) \<and>
    map gdt_decode (gdt_real m') = gdt_structured (tss_address b) \<and>
    map gate_address (idt_descriptors m') =
      (map (interrupt_stubs b) [0..<256])[0 := divide_by_zero_address b, 0x80 := isr80h_wrapper_address b] \<and>
    isr80h_commands m' = map Some system_commands @ replicate 1014 None \<and>
    interrupt_callbacks m' = replicate 32 (Some ExceptionCallback) @ Some ClockCallback # Some KeyboardCallback #
      drop 34 (interrupt_callbacks m) \<and>
    keyboard_get_capslock m' (classic_address b) = Inr KEYBOARD_CAPS_LOCK_OFF \<and>
    tasks m' = tasks m \<and> current_task m' = current_task m \<and> processes m' = processes m"
proof -
  let ?F = "ucast (PAGING_IS_WRITEABLE OR PAGING_IS_PRESENT OR PAGING_ACCESS_FROM_ALL) :: u8"
  obtain m1 m2 m5 A where first: "terminal_initialize m = Inr m1"
      "kheap_init (m1\<lparr>gdt_real := map gdt_encoded (gdt_structured (tss_address b))\<rparr>) (raw_heap_table b) = Inr (m2, [])"
      "disk_search_and_init (fs_resolve (fat16_fs img)) (m2\<lparr>file_descriptors := replicate BIMBLEOS_MAX_FILE_DESCRIPTORS None,
         filesystems := Some fat16_init # replicate 11 None\<rparr>) = Inr m5"
    and m5: "machine_inv m5 A" "card (kh.used A) + 1026 \<le> kheap_blocks" "fat_ready m5" "filesystem (disk m5) = Some fat16_init"
      "vfs_inv m5"
    and kept: "interrupt_callbacks m5 = interrupt_callbacks m" "isr80h_commands m5 = isr80h_commands m" "keyboards m5 = keyboards m"
      "keyboard_list_last m5 = keyboard_list_last m" "gdt_real m5 = map gdt_encoded (gdt_structured (tss_address b))"
      "tasks m5 = tasks m" "current_task m5 = current_task m" "processes m5 = processes m"
    using storage_ready [OF table dsk, of m] by blast
  from kernel_init_tail [OF bss [folded kept(1,2,4)] kbd [folded kept(3)] m5(1,2)] obtain p d ts h mm m6 m7 m8 m9 where
    p: "block_addr p \<noteq> 0" "linear_pd mm p d ts ?F" "machine_inv (kernel_ready b k p d h mm (tables_loaded b m5)) (add_pages A (p # d # ts))"
    and last: "idt_init m5 (idt_address b) (interrupt_stubs b) (divide_by_zero_address b) (isr80h_wrapper_address b) = Inr m6"
      "paging_new (m6\<lparr>tss := zero_tss\<lparr>tss_esp0 := 0x600000, tss_ss0 := ucast KERNAL_DATA_SELECTOR\<rparr>\<rparr>) ?F = Inr (block_addr p, m7)"
      "paging_switch (m7\<lparr>kernelPageDirectory := block_addr p\<rparr>) (block_addr p) = Inr m8"
      "isr80h_register_commands (enable_paging m8) = Inr m9"
      "keyboard_init m9 (classic_address b) = Inr (kernel_ready b k p d h mm (tables_loaded b m5))" by blast
  let ?m = "kernel_ready b k p d h mm (tables_loaded b m5)"
  note ready = kernel_ready_def tables_loaded_def
  have "kernel_init (fat16_fs img) b m = Inr ?m"
    using gdt_table_ok first last by (simp add: kernel_init_def config fs_init_eq)
  moreover have "ucast ?F AND PAGING_IS_PRESENT \<noteq> 0" by code_simp
  then have "\<forall>va. vtranslate ?m va = Inr va" using linear_pd_translate [of ?m p d ts ?F] p(2) by (simp add: ready)
  moreover have "interrupt_callbacks ?m = replicate 32 (Some ExceptionCallback) @ Some ClockCallback # Some KeyboardCallback #
      drop 34 (interrupt_callbacks m)"
    using Cons_nth_drop_Suc [of 33 "interrupt_callbacks m", symmetric] bss(1)
    by (simp add: ready kept callbacks_after_def list_update_append)
  moreover have "map gdt_decode (gdt_real ?m) = gdt_structured (tss_address b)"
    using gdt_table_encodable by (simp add: ready kept decode_encoded comp_def map_idI)
  moreover have "fat_ready ?m \<and> filesystem (disk ?m) = Some fat16_init \<and> vfs_inv ?m"
    using m5(3-5) by (simp add: ready fat_ready_def vfs_inv_def)
  moreover have "keyboard_get_capslock ?m (classic_address b) = Inr KEYBOARD_CAPS_LOCK_OFF"
    using kbd(1) by (simp add: ready keyboard_get_capslock_def deref_def split: if_splits)
  moreover have "tasks ?m = tasks m \<and> current_task ?m = current_task m \<and> processes ?m = processes m"
    "paging_enabled ?m \<and> kernelPageDirectory ?m \<noteq> 0" "isr80h_commands ?m = map Some system_commands @ replicate 1014 None"
    "map gate_address (idt_descriptors ?m) =
      (map (interrupt_stubs b) [0..<256])[0 := divide_by_zero_address b, 0x80 := isr80h_wrapper_address b]"
    using kept p(1) by (simp_all add: ready gates_def comp_def)
  ultimately show ?thesis using p(3) by blast
qed

text \<open>The disk of the file system's examples.\<close>

definition demo_boot_info :: boot_info where
  "demo_boot_info = \<lparr>raw_heap_table = replicate kheap_blocks 0, tss_address = 0x7000, idt_address = 0x8000,
     interrupt_stubs = (\<lambda>i. of_nat (0x100000 + 16 * i)), divide_by_zero_address = 0x110000,
     isr80h_wrapper_address = 0x120000, classic_address = 0x6000, argument_address = 0x5FF000\<rparr>"

theorem kernel_init_ready_witness:
  "\<exists>m m'. kernel_init (fat16_fs demo_img) demo_boot_info m = Inr m' \<and> paging_enabled m' \<and>
     gate_address (idt_descriptors m' ! 0x80) = 0x120000"
proof -
  fix m0 :: "FAT_FileDescriptor os_state"
  let ?k = "\<lparr>keyboard_init_ptr = Some ClassicKeyboardInit, capslock_state = 1, keyboard_next = 0\<rparr>"
  let ?m = "m0\<lparr>interrupt_callbacks := replicate 256 None, isr80h_commands := replicate 1024 None, keyboard_list_last := 0,
    keyboards := [0x6000 \<mapsto> ?k]\<rparr>"
  have pre: "length (raw_heap_table demo_boot_info) = kheap_blocks" "length (interrupt_callbacks ?m) = 256"
    "isr80h_commands ?m = replicate 1024 None" "keyboard_list_last ?m = 0"
    "deref (keyboards ?m) (classic_address demo_boot_info) = Inr ?k" "keyboard_init_ptr ?k = Some ClassicKeyboardInit"
    by (simp_all add: demo_boot_info_def deref_def)
  have "root_blocks (FAT_H_of (bytes_at demo_img 0 62)) + 1031 \<le> kheap_blocks"
    by (simp add: demo_geometry kheap_blocks_def)
  from kernel_init_ready [OF pre demo_header(1) demo_root_ok this] obtain m' where
    m': "kernel_init (fat16_fs demo_img) demo_boot_info ?m = Inr m'" "paging_enabled m'" and
    g: "map gate_address (idt_descriptors m') =
      (map (interrupt_stubs demo_boot_info) [0..<256])[0 := divide_by_zero_address demo_boot_info, 0x80 := isr80h_wrapper_address demo_boot_info]"
    by blast
  have "length (idt_descriptors m') = 256" using arg_cong [OF g, of length] by simp
  then have "gate_address (idt_descriptors m' ! 0x80) = 0x120000"
    using arg_cong [OF g, of "\<lambda>xs. xs ! 0x80"] by (simp add: demo_boot_info_def)
  with m' show ?thesis by blast
qed

end
