(* ===== verification/UserMemory.thy ===== *)
theory UserMemory
  imports KMem
begin

text \<open>
  The memory and string functions of the user library (\<^verbatim>\<open>programs/stdlib/src/memory.c\<close> and \<^verbatim>\<open>string.c\<close> up to
  \<^verbatim>\<open>strtok\<close>) on the memory of the program: an address is a 32-bit word and the objects may overlap or have no terminator.
  A loop that the memory need not end is a \<^theory_text>\<open>partial_function\<close>, with \<open>None\<close> for a call that never returns. The last
  section relates these functions to the list versions of \<open>CString\<close>, which the models of the callers use.
\<close>

type_synonym umem = "u32 \<Rightarrow> u8"

section \<open>memory.c\<close>

function user_memset_loop :: "umem \<Rightarrow> u32 \<Rightarrow> int \<Rightarrow> nat \<Rightarrow> nat \<Rightarrow> umem" where
  "user_memset_loop m c_ptr c i sz =
     (if i < sz then user_memset_loop (m(c_ptr + of_nat i := word_of_int c)) c_ptr c (Suc i) sz else m)"
  by pat_completeness auto
termination
  by (relation "measure (\<lambda>(m, p, c, i, n). n - i)") auto

declare user_memset_loop.simps [simp del]

definition user_memset :: "umem \<Rightarrow> u32 \<Rightarrow> int \<Rightarrow> u32 \<Rightarrow> u32 \<times> umem" where
  "user_memset m ptr c sz = (ptr, user_memset_loop m ptr c 0 (unat sz))"

fun user_memcmp_loop :: "umem \<Rightarrow> u32 \<Rightarrow> u32 \<Rightarrow> nat \<Rightarrow> int" where
  "user_memcmp_loop m c1 c2 0 = 0"
| "user_memcmp_loop m c1 c2 (Suc count) =
     (if m c1 \<noteq> m c2 then (if sint (m c1) < sint (m c2) then - 1 else 1)
      else user_memcmp_loop m (c1 + 1) (c2 + 1) count)"

definition user_memcmp :: "umem \<Rightarrow> u32 \<Rightarrow> u32 \<Rightarrow> int \<Rightarrow> int" where
  "user_memcmp m s1 s2 count = user_memcmp_loop m s1 s2 (nat count)"

fun user_memcpy_loop :: "umem \<Rightarrow> u32 \<Rightarrow> u32 \<Rightarrow> nat \<Rightarrow> umem" where
  "user_memcpy_loop m d s 0 = m"
| "user_memcpy_loop m d s (Suc len) = user_memcpy_loop (m(d := m s)) (d + 1) (s + 1) len"

text \<open>\<^verbatim>\<open>while(len--)\<close> stops at zero only: a negative length counts down through all the values of 32 bits.\<close>

definition user_memcpy :: "umem \<Rightarrow> u32 \<Rightarrow> u32 \<Rightarrow> int \<Rightarrow> u32 \<times> umem" where
  "user_memcpy m dest src len = (dest, user_memcpy_loop m dest src (unat (word_of_int len :: u32)))"

section \<open>string.c\<close>

definition user_tolower :: "u8 \<Rightarrow> u8" where
  "user_tolower s1 = (if sint s1 \<ge> 65 \<and> sint s1 \<le> 90 then s1 + 32 else s1)"

partial_function (option) user_strlen_loop :: "umem \<Rightarrow> u32 \<Rightarrow> u32 \<Rightarrow> u32 option" where
  "user_strlen_loop m str len = (if m (str + len) \<noteq> 0 then user_strlen_loop m str (len + 1) else Some len)"

definition user_strlen :: "umem \<Rightarrow> u32 \<Rightarrow> u32 option" where
  "user_strlen m str = user_strlen_loop m str 0"

function user_strnlen_loop :: "umem \<Rightarrow> u32 \<Rightarrow> nat \<Rightarrow> nat \<Rightarrow> nat" where
  "user_strnlen_loop m str len max_len =
     (if len < max_len then (if m (str + of_nat len) = 0 then len else user_strnlen_loop m str (Suc len) max_len) else len)"
  by pat_completeness auto
termination
  by (relation "measure (\<lambda>(m, s, l, n). n - l)") auto

declare user_strnlen_loop.simps [simp del]

definition user_strnlen :: "umem \<Rightarrow> u32 \<Rightarrow> int \<Rightarrow> nat" where
  "user_strnlen m str max_len = user_strnlen_loop m str 0 (unat (word_of_int max_len :: u32))"

definition user_is_digit :: "u8 \<Rightarrow> bool" where
  "user_is_digit c \<longleftrightarrow> sint c \<ge> 48 \<and> sint c \<le> 57"

definition user_to_numeric_digit :: "u8 \<Rightarrow> int" where
  "user_to_numeric_digit c = sint c - 48"

fun user_istrncmp_loop :: "umem \<Rightarrow> u32 \<Rightarrow> u32 \<Rightarrow> nat \<Rightarrow> int" where
  "user_istrncmp_loop m s1 s2 0 = 0"
| "user_istrncmp_loop m s1 s2 (Suc n) =
     (if m s1 \<noteq> m s2 \<and> user_tolower (m s1) \<noteq> user_tolower (m s2) then uint (m s1) - uint (m s2)
      else if m s1 = 0 then 0 else user_istrncmp_loop m (s1 + 1) (s2 + 1) n)"

definition user_istrncmp :: "umem \<Rightarrow> u32 \<Rightarrow> u32 \<Rightarrow> int \<Rightarrow> int" where
  "user_istrncmp m s1 s2 n = user_istrncmp_loop m s1 s2 (nat n)"

function user_strnlen_terminator_loop :: "umem \<Rightarrow> u32 \<Rightarrow> int \<Rightarrow> int \<Rightarrow> u8 \<Rightarrow> int" where
  "user_strnlen_terminator_loop m str i max_len terminator =
     (if i < max_len
      then (if m (str + word_of_int i) = 0 \<or> m (str + word_of_int i) = terminator then i
            else user_strnlen_terminator_loop m str (i + 1) max_len terminator)
      else i)"
  by pat_completeness auto
termination
  by (relation "measure (\<lambda>(m, s, i, n, t). nat (n - i))") auto

declare user_strnlen_terminator_loop.simps [simp del]

definition user_strnlen_terminator :: "umem \<Rightarrow> u32 \<Rightarrow> int \<Rightarrow> u8 \<Rightarrow> int" where
  "user_strnlen_terminator m str max_len terminator = user_strnlen_terminator_loop m str 0 max_len terminator"

partial_function (option) user_strcpy_loop :: "umem \<Rightarrow> u32 \<Rightarrow> u32 \<Rightarrow> umem option" where
  "user_strcpy_loop m dest src =
     (if m src \<noteq> 0 then user_strcpy_loop (m(dest := m src)) (dest + 1) (src + 1) else Some (m(dest := 0)))"

definition user_strcpy :: "umem \<Rightarrow> u32 \<Rightarrow> u32 \<Rightarrow> (u32 \<times> umem) option" where
  "user_strcpy m dest src = map_option (\<lambda>m. (dest, m)) (user_strcpy_loop m dest src)"

fun user_strncmp_loop :: "umem \<Rightarrow> u32 \<Rightarrow> u32 \<Rightarrow> nat \<Rightarrow> int" where
  "user_strncmp_loop m str1 str2 0 = 0"
| "user_strncmp_loop m str1 str2 (Suc n) =
     (if m str1 \<noteq> m str2 then uint (m str1) - uint (m str2)
      else if m str1 = 0 then 0 else user_strncmp_loop m (str1 + 1) (str2 + 1) n)"

definition user_strncmp :: "umem \<Rightarrow> u32 \<Rightarrow> u32 \<Rightarrow> int \<Rightarrow> int" where
  "user_strncmp m str1 str2 n = user_strncmp_loop m str1 str2 (nat n)"

function user_strncpy_loop :: "umem \<Rightarrow> u32 \<Rightarrow> u32 \<Rightarrow> int \<Rightarrow> int \<Rightarrow> umem \<times> int" where
  "user_strncpy_loop m dest src i count =
     (if i < count - 1
      then (if m (src + word_of_int i) = 0 then (m, i)
            else user_strncpy_loop (m(dest + word_of_int i := m (src + word_of_int i))) dest src (i + 1) count)
      else (m, i))"
  by pat_completeness auto
termination
  by (relation "measure (\<lambda>(m, d, s, i, n). nat (n - 1 - i))") auto

declare user_strncpy_loop.simps [simp del]

definition user_strncpy :: "umem \<Rightarrow> u32 \<Rightarrow> u32 \<Rightarrow> int \<Rightarrow> u32 \<times> umem" where
  "user_strncpy m dest src count =
     (let (m, i) = user_strncpy_loop m dest src 0 count in (dest, m(dest + word_of_int i := 0)))"

section \<open>Strings in memory\<close>

primrec string_at :: "umem \<Rightarrow> u32 \<Rightarrow> u8 list \<Rightarrow> bool" where
  "string_at m a [] \<longleftrightarrow> m a = 0"
| "string_at m a (c # s) \<longleftrightarrow> m a = c \<and> c \<noteq> 0 \<and> string_at m (a + 1) s"

lemma string_at_iff:
  "string_at m a s \<longleftrightarrow> (\<forall>i<length s. m (a + of_nat i) = s ! i \<and> s ! i \<noteq> 0) \<and> m (a + of_nat (length s)) = 0"
  by (induction s arbitrary: a) (auto simp: All_less_Suc2 add.assoc)

lemma string_at_length:
  assumes "string_at m a s" shows "length s < 2 ^ 32"
proof (rule ccontr)
  assume c: "\<not> length s < 2 ^ 32"
  let ?i = "length s mod 2 ^ 32"
  have "(of_nat ?i :: u32) = of_nat (length s)" by (simp add: word_of_nat_eq_iff take_bit_eq_mod)
  moreover have "?i < length s" using c by (simp add: order_less_le_trans [OF mod_less_divisor])
  ultimately show False using assms unfolding string_at_iff by metis
qed

lemma string_at_cong:
  "(\<And>i. i \<le> length s \<Longrightarrow> m' (a + of_nat i) = m (a + of_nat i)) \<Longrightarrow> string_at m' a s \<longleftrightarrow> string_at m a s"
  by (simp add: string_at_iff)

lemma string_at_unique: "string_at m a s \<Longrightarrow> string_at m a t \<Longrightarrow> s = t"
proof (induction s arbitrary: a t)
  case Nil
  then show ?case by (cases t) auto
next
  case (Cons c s)
  then show ?case by (cases t) auto
qed

lemma string_at_exists:
  assumes "m (a + of_nat n) = 0" shows "\<exists>s. string_at m a s"
  using assms
proof (induction n arbitrary: a)
  case 0
  then show ?case by (intro exI [of _ "[]"]) simp
next
  case (Suc n)
  then obtain s where "string_at m (a + 1) s" by (metis add.assoc of_nat_Suc)
  then show ?case by (cases "m a = 0") (auto intro: exI [of _ "[]"] exI [of _ "m a # s"])
qed

lemma string_at_cstr:
  assumes "terminated (mem_bytes m a n)" shows "string_at m a (cstr (mem_bytes m a n))"
  using assms
proof (induction n arbitrary: a)
  case (Suc n)
  have e: "mem_bytes m a (Suc n) = m a # mem_bytes m (a + 1) n"
    by (simp add: mem_bytes_def upt_conv_Cons map_Suc_upt [symmetric] add.assoc del: upt_Suc)
  show ?case using Suc unfolding e by (cases "m a = 0") auto
qed (simp add: mem_bytes_def)

subsection \<open>strlen\<close>

lemma user_strlen_loop_ok:
  "string_at m (str + len) s \<Longrightarrow> user_strlen_loop m str len = Some (len + of_nat (length s))"
proof (induction s arbitrary: len)
  case (Cons c s)
  then show ?case by (subst user_strlen_loop.simps) (simp add: add.assoc)
qed (subst user_strlen_loop.simps, simp)

lemma user_strlen_loop_returns:
  "user_strlen_loop m str len = Some r \<Longrightarrow> \<exists>s. string_at m (str + len) s \<and> r = len + of_nat (length s)"
proof (rule user_strlen_loop.raw_induct [where P = "\<lambda>m str len r. \<exists>s. string_at m (str + len) s \<and> r = len + of_nat (length s)"])
  fix f m str len r
  assume IH: "\<And>m str len r. f m str len = Some r \<Longrightarrow> \<exists>s. string_at m (str + len) s \<and> r = len + of_nat (length s)"
    and r: "(if m (str + len) \<noteq> 0 then f m str (len + 1) else Some len) = Some r"
  show "\<exists>s. string_at m (str + len) s \<and> r = len + of_nat (length s)"
  proof (cases "m (str + len) = 0")
    case True
    then show ?thesis using r by (intro exI [of _ "[]"]) simp
  next
    case False
    then have "f m str (len + 1) = Some r" using r by simp
    then obtain s where "string_at m (str + (len + 1)) s" "r = len + 1 + of_nat (length s)" using IH by blast
    then show ?thesis using False by (intro exI [of _ "m (str + len) # s"]) (simp add: add.assoc)
  qed
qed

text \<open>
  The user library's \<^verbatim>\<open>strlen\<close> returns exactly the length of the string at its argument, and it runs for ever exactly
  when no byte of the memory is zero: the search goes on through the end of the address space to its beginning.
\<close>

theorem user_strlen_returns_iff:
  "(user_strlen m str = Some n) = (\<exists>s. string_at m str s \<and> n = of_nat (length s)) \<and>
   (user_strlen m str = None) = (\<forall>a. m a \<noteq> 0)"
proof (intro conjI)
  show a: "(user_strlen m str = Some n) = (\<exists>s. string_at m str s \<and> n = of_nat (length s))" for n
    using user_strlen_loop_ok [of m str 0] user_strlen_loop_returns [of m str 0 n] by (auto simp: user_strlen_def)
  show "(user_strlen m str = None) = (\<forall>a. m a \<noteq> 0)"
  proof
    assume N: "user_strlen m str = None"
    have "m a \<noteq> 0" for a
    proof
      assume "m a = 0"
      then have "m (str + of_nat (unat (a - str))) = 0" by simp
      then obtain s where "string_at m str s" using string_at_exists by blast
      then show False using N user_strlen_loop_ok [of m str 0 s] by (simp add: user_strlen_def)
    qed
    then show "\<forall>a. m a \<noteq> 0" ..
  next
    assume "\<forall>a. m a \<noteq> 0"
    then have "\<not> string_at m str s" for s by (auto simp: string_at_iff)
    then show "user_strlen m str = None" using a by (metis option.exhaust)
  qed
qed

subsection \<open>strcpy\<close>

lemma user_strcpy_loop_ok:
  assumes "string_at m src s" and "unat (dest - src) = 0 \<or> length s < unat (dest - src)"
  shows "user_strcpy_loop m dest src = Some (store_bytes m dest (s @ [0]))"
  using assms
proof (induction s arbitrary: m dest src)
  case Nil
  then show ?case by (subst user_strcpy_loop.simps) simp
next
  case (Cons c s)
  have n: "length (c # s) < 2 ^ 32" by (rule string_at_length [OF Cons.prems(1)])
  have "src + 1 + of_nat i \<noteq> dest" if "i \<le> length s" for i
  proof
    assume "src + 1 + of_nat i = dest"
    then have "dest - src = of_nat (Suc i)" by auto
    then have "unat (dest - src) = Suc i" using that n by (simp add: unat_of_nat_u32 del: of_nat_Suc)
    then show False using Cons.prems(2) that by simp
  qed
  then have "string_at (m(dest := c)) (src + 1) s"
    using Cons.prems(1) by (subst string_at_cong [of s _ _ m]) auto
  moreover have "unat ((dest + 1) - (src + 1)) = 0 \<or> length s < unat ((dest + 1) - (src + 1))"
    using Cons.prems(2) by auto
  ultimately have "user_strcpy_loop (m(dest := c)) (dest + 1) (src + 1) = Some (store_bytes (m(dest := c)) (dest + 1) (s @ [0]))"
    by (rule Cons.IH)
  then show ?case using Cons.prems(1) by (subst user_strcpy_loop.simps) simp
qed

text \<open>When the destination lies inside the string, the bytes between the two pointers are never zero again.\<close>

lemma user_strcpy_loop_smears:
  "user_strcpy_loop m dest src = Some r \<Longrightarrow> \<exists>i. i < unat (dest - src) \<and> m (src + of_nat i) = 0 \<or> dest = src"
proof (rule user_strcpy_loop.raw_induct [where P = "\<lambda>m dest src r. \<exists>i. i < unat (dest - src) \<and> m (src + of_nat i) = 0 \<or> dest = src"])
  fix f m and dest src :: u32 and r
  assume IH: "\<And>m dest src r. f m dest src = Some r \<Longrightarrow> \<exists>i. i < unat (dest - src) \<and> m (src + of_nat i) = 0 \<or> dest = src"
    and r: "(if m src \<noteq> 0 then f (m(dest := m src)) (dest + 1) (src + 1) else Some (m(dest := 0))) = Some r"
  show "\<exists>i. i < unat (dest - src) \<and> m (src + of_nat i) = 0 \<or> dest = src"
  proof (cases "m src = 0 \<or> dest = src")
    case True
    then show ?thesis by (auto simp: unat_gt_0 intro!: exI [of _ 0])
  next
    case False
    then obtain i where i: "i < unat (dest - src)" "(m(dest := m src)) (src + 1 + of_nat i) = 0" using IH r by force
    then have ne: "src + 1 + of_nat i \<noteq> dest" using False by auto
    have "Suc i \<noteq> unat (dest - src)"
    proof
      assume "Suc i = unat (dest - src)"
      then have "of_nat (Suc i) = (of_nat (unat (dest - src)) :: u32)" by (simp only:)
      then show False using ne by (simp add: algebra_simps)
    qed
    then show ?thesis using i ne by (intro exI [of _ "Suc i"]) (auto simp: add.assoc)
  qed
qed

text \<open>
  C31: The user library's \<^verbatim>\<open>strcpy\<close> of a string copies it with its terminator, unless the destination is one of the
  bytes behind the first up to the terminator: the copy then overwrites the terminator before it is read and never ends.
\<close>

theorem user_strcpy_returns_iff:
  assumes "string_at m src s"
  shows "user_strcpy m dest src =
    (if 0 < unat (dest - src) \<and> unat (dest - src) \<le> length s then None else Some (dest, store_bytes m dest (s @ [0])))"
proof (cases "0 < unat (dest - src) \<and> unat (dest - src) \<le> length s")
  case True
  have "user_strcpy_loop m dest src = None"
  proof (rule ccontr)
    assume "user_strcpy_loop m dest src \<noteq> None"
    then obtain i where "i < unat (dest - src)" "m (src + of_nat i) = 0"
      using user_strcpy_loop_smears True by force
    then show False using assms True by (auto simp: string_at_iff)
  qed
  then show ?thesis using True by (simp add: user_strcpy_def)
next
  case False
  then show ?thesis using user_strcpy_loop_ok [OF assms, of dest] by (auto simp: user_strcpy_def)
qed

theorem user_strcpy_returns_iff_witness:
  "user_strcpy ((\<lambda>_. 0)(100 := 0x68, 101 := 0x69)) 200 100 =
     Some (200, store_bytes ((\<lambda>_. 0)(100 := 0x68, 101 := 0x69)) 200 [0x68, 0x69, 0]) \<and>
   user_strcpy ((\<lambda>_. 0)(100 := 0x68, 101 := 0x69)) 102 100 = None"
  using user_strcpy_returns_iff [of "(\<lambda>_. 0)(100 := 0x68, 101 := 0x69)" 100 "[0x68, 0x69]" 200]
    user_strcpy_returns_iff [of "(\<lambda>_. 0)(100 := 0x68, 101 := 0x69)" 100 "[0x68, 0x69]" 102] by simp

subsection \<open>memcpy\<close>

lemma user_memcpy_loop_snoc:
  "user_memcpy_loop m d s (Suc n) =
     (let m' = user_memcpy_loop m d s n in m'(d + of_nat n := m' (s + of_nat n)))"
proof (induction n arbitrary: m d s)
  case (Suc n)
  show ?case
    by (subst user_memcpy_loop.simps, subst Suc.IH) (simp add: Let_def add.assoc)
qed simp

lemma user_memcpy_loop_ok:
  "n \<le> 2 ^ 32 \<Longrightarrow> user_memcpy_loop m dest src n =
     store_bytes m dest (map (\<lambda>i. m (src + of_nat (i mod unat (dest - src)))) [0..<n])"
proof (induction n)
  case (Suc n)
  let ?k = "unat (dest - src)" and ?f = "\<lambda>i. m (src + of_nat (i mod unat (dest - src)))"
  have k: "?k < 2 ^ 32" using unsigned_less [of "dest - src", where 'a = nat] by simp
  have w: "dest = src + of_nat ?k" by simp
  have "store_bytes m dest (map ?f [0..<n]) (src + of_nat n) = ?f n"
  proof (cases "0 < ?k \<and> ?k \<le> n")
    case True
    then have e: "src + of_nat n - dest = of_nat (n - ?k)" by (subst w) (simp add: of_nat_diff)
    have "unat (src + of_nat n - dest) = n - ?k" unfolding e by (rule unat_of_nat_u32) (use Suc.prems in linarith)
    then show ?thesis using Suc.prems True by (simp add: store_bytes_apply mod_if [of n])
  next
    case False
    show ?thesis
    proof (cases "?k = 0")
      case True
      then have "unat (src + of_nat n - dest) = n" using Suc.prems by (subst w) (simp add: unat_of_nat_u32)
      then show ?thesis using Suc.prems True by (simp add: store_bytes_apply)
    next
      case f: False
      have e: "src + of_nat n - dest = of_nat (2 ^ 32 + n - ?k)"
        using k by (subst w) (simp add: of_nat_diff)
      have "unat (src + of_nat n - dest) = 2 ^ 32 + n - ?k"
        unfolding e by (rule unat_of_nat_u32) (use False f k in linarith)
      moreover have "\<not> 2 ^ 32 + n - ?k < n" using k by linarith
      ultimately show ?thesis using Suc.prems False f by (simp add: store_bytes_apply)
    qed
  qed
  then show ?case using Suc by (subst user_memcpy_loop_snoc) (simp add: Let_def store_bytes_append)
qed simp

text \<open>
  The user library's \<^verbatim>\<open>memcpy\<close> copies from the lowest byte up, so a destination \<open>k\<close> bytes behind the source inside the
  copied range receives the first \<open>k\<close> bytes over and over; elsewhere it is a copy, and no other byte changes.
\<close>

theorem user_memcpy_smears:
  "user_memcpy m dest src len =
     (dest, store_bytes m dest (map (\<lambda>i. m (src + of_nat (i mod unat (dest - src)))) [0..<unat (word_of_int len :: u32)]))"
proof -
  have "unat (word_of_int len :: u32) \<le> 2 ^ 32" using unsigned_less [of "word_of_int len :: u32", where 'a = nat] by simp
  then show ?thesis by (simp only: user_memcpy_def user_memcpy_loop_ok)
qed

section \<open>The functions on objects\<close>

lemma mem_bytes_Suc: "mem_bytes m a (Suc n) = m a # mem_bytes m (a + 1) n"
  by (simp add: mem_bytes_def upt_conv_Cons map_Suc_upt [symmetric] add.assoc del: upt_Suc)

lemma mem_bytes_0 [simp]: "mem_bytes m a 0 = []"
  by (simp add: mem_bytes_def)

subsection \<open>The functions that read\<close>

lemma strnlen_loop_memory:
  "strnlen_loop (mem_bytes m (a + of_nat len) N) k = Inr n \<Longrightarrow> user_strnlen_loop m a len (len + k) = len + n"
proof (induction k arbitrary: len N n)
  case (Suc k)
  then obtain N' where N: "N = Suc N'" by (cases N) auto
  show ?case
  proof (cases "m (a + of_nat len) = 0")
    case True
    then show ?thesis using Suc.prems unfolding N by (subst user_strnlen_loop.simps) (simp add: mem_bytes_Suc)
  next
    case False
    then obtain q where "strnlen_loop (mem_bytes m (a + of_nat (Suc len)) N') k = Inr q" "n = Suc q"
      using Suc.prems unfolding N by (auto simp: mem_bytes_Suc algebra_simps)
    then show ?thesis using Suc.IH [of "Suc len" N' q] False by (subst user_strnlen_loop.simps) simp
  qed
qed (subst user_strnlen_loop.simps, simp)

lemma strnlen_terminator_loop_memory:
  "strnlen_terminator_loop (mem_bytes m (a + of_nat i) N) k t = Inr r \<Longrightarrow>
     user_strnlen_terminator_loop m a (int i) (int (i + k)) t = int i + r"
proof (induction k arbitrary: i N r)
  case (Suc k)
  then obtain N' where N: "N = Suc N'" by (cases N) auto
  show ?case
  proof (cases "m (a + of_nat i) = 0 \<or> m (a + of_nat i) = t")
    case True
    then show ?thesis using Suc.prems unfolding N by (subst user_strnlen_terminator_loop.simps) (auto simp: mem_bytes_Suc)
  next
    case False
    then obtain q where "strnlen_terminator_loop (mem_bytes m (a + of_nat (Suc i)) N') k t = Inr q" "r = q + 1"
      using Suc.prems unfolding N by (auto simp: mem_bytes_Suc algebra_simps)
    then show ?thesis using Suc.IH [of "Suc i" N' q] False
      by (subst user_strnlen_terminator_loop.simps) (simp add: algebra_simps)
  qed
qed (subst user_strnlen_terminator_loop.simps, simp)

lemma user_tolower_eq: "user_tolower c = tolower c"
  by (simp add: user_tolower_def tolower_def)

lemma strncmp_loop_memory:
  "strncmp_loop (mem_bytes m a N) (mem_bytes m b M) k = Inr r \<Longrightarrow> user_strncmp_loop m a b k = r"
proof (induction k arbitrary: a b N M)
  case (Suc k)
  then show ?case using Suc.IH [of "a + 1" "N - 1" "b + 1" "M - 1"]
    by (cases N; cases M) (auto simp: mem_bytes_Suc user_tolower_eq split: if_splits)
qed auto

lemma istrncmp_loop_memory:
  "istrncmp_loop (mem_bytes m a N) (mem_bytes m b M) k = Inr r \<Longrightarrow> user_istrncmp_loop m a b k = r"
proof (induction k arbitrary: a b N M)
  case (Suc k)
  then show ?case using Suc.IH [of "a + 1" "N - 1" "b + 1" "M - 1"]
    by (cases N; cases M) (auto simp: mem_bytes_Suc user_tolower_eq split: if_splits)
qed auto

lemma memcmp_loop_memory:
  "memcmp_loop (mem_bytes m a N) (mem_bytes m b M) k = Inr r \<Longrightarrow> user_memcmp_loop m a b k = r"
proof (induction k arbitrary: a b N M)
  case (Suc k)
  then show ?case using Suc.IH [of "a + 1" "N - 1" "b + 1" "M - 1"]
    by (cases N; cases M) (auto simp: mem_bytes_Suc user_tolower_eq split: if_splits)
qed auto

lemma strlen_memory:
  assumes "strlen (mem_bytes m a N) = Inr n" shows "user_strlen m a = Some (of_nat n)"
proof -
  have t: "terminated (mem_bytes m a N)" using assms strlen_unterminated by fastforce
  then have "n = length (cstr (mem_bytes m a N))" using assms strlen_terminated by fastforce
  then show ?thesis using user_strlen_loop_ok [of m a 0] string_at_cstr [OF t] by (simp add: user_strlen_def)
qed

text \<open>
  C30: On any objects of the program, the six functions that only read give what the list versions of \<open>CString\<close> give on the
  bytes of the objects, whenever those stay inside the objects.
\<close>

theorem user_string_reads_refine:
  assumes "obj = mem_bytes m a N" and "obj2 = mem_bytes m b M"
  shows "(strlen obj = Inr n \<longrightarrow> user_strlen m a = Some (of_nat n)) \<and>
    (strnlen obj k = Inr n \<longrightarrow> user_strnlen m a k = n) \<and>
    (strnlen_terminator obj k t = Inr i \<longrightarrow> user_strnlen_terminator m a k t = i) \<and>
    (strncmp obj obj2 k = Inr r \<longrightarrow> user_strncmp m a b k = r) \<and>
    (istrncmp obj obj2 k = Inr r \<longrightarrow> user_istrncmp m a b k = r) \<and>
    (memcmp obj obj2 k = Inr r \<longrightarrow> user_memcmp m a b k = r)"
proof (intro conjI impI)
  assume "strnlen_terminator obj k t = Inr i"
  then have "user_strnlen_terminator_loop m a 0 (int (nat k)) t = i"
    using strnlen_terminator_loop_memory [of m a 0 N "nat k" t i] assms by (simp add: strnlen_terminator_def)
  moreover have "user_strnlen_terminator_loop m a 0 k t = user_strnlen_terminator_loop m a 0 (int (nat k)) t"
    by (cases "0 < k") (simp_all add: user_strnlen_terminator_loop.simps [of m a 0 k] user_strnlen_terminator_loop.simps [of m a 0 0])
  ultimately show "user_strnlen_terminator m a k t = i" by (simp add: user_strnlen_terminator_def)
qed (use assms strlen_memory strnlen_loop_memory [of m a 0, simplified] strncmp_loop_memory istrncmp_loop_memory
    memcmp_loop_memory in \<open>auto simp: strnlen_def user_strnlen_def strncmp_def user_strncmp_def istrncmp_def
      user_istrncmp_def memcmp_def user_memcmp_def\<close>)

subsection \<open>The functions that write\<close>

definition disjoint_objects :: "u32 \<Rightarrow> nat \<Rightarrow> u32 \<Rightarrow> nat \<Rightarrow> bool" where
  "disjoint_objects a N b M \<longleftrightarrow> (\<forall>i<N. \<forall>j<M. a + of_nat i \<noteq> b + of_nat j)"

lemma disjoint_objects_Suc:
  assumes "disjoint_objects a (Suc N) b (Suc M)" shows "disjoint_objects (a + 1) N (b + 1) M"
proof -
  have s: "c + 1 + of_nat i = c + (of_nat (Suc i) :: u32)" for c i by simp
  show ?thesis using assms unfolding disjoint_objects_def s by blast
qed

lemma mem_bytes_disjoint:
  assumes "disjoint_objects a (Suc N) b (Suc M)" shows "mem_bytes (m(a := v)) (b + 1) M = mem_bytes m (b + 1) M"
proof (rule nth_equalityI)
  fix j assume "j < length (mem_bytes (m(a := v)) (b + 1) M)"
  then have j: "j < M" "Suc j < Suc M" by simp_all
  have "a + of_nat 0 \<noteq> b + of_nat (Suc j)" using assms j(2) unfolding disjoint_objects_def by blast
  then show "mem_bytes (m(a := v)) (b + 1) M ! j = mem_bytes m (b + 1) M ! j" using j(1) by (auto simp: add.assoc)
qed simp

lemma mem_bytes_update_first: "N < 2 ^ 32 \<Longrightarrow> mem_bytes (m(a := v)) (a + 1) N = mem_bytes m (a + 1) N"
proof -
  assume n: "N < 2 ^ 32"
  have "a + 1 + of_nat i \<noteq> a" if "i < N" for i
  proof
    assume "a + 1 + of_nat i = a"
    then have "(of_nat (Suc i) :: u32) = 0" by simp
    then have "unat (of_nat (Suc i) :: u32) = 0" by (simp only: unsigned_0)
    then show False using that n unat_of_nat_u32 [of "Suc i"] by linarith
  qed
  then show ?thesis by (simp add: mem_bytes_def)
qed

lemma store_bytes_same: "N \<le> 2 ^ 32 \<Longrightarrow> store_bytes m a (mem_bytes m a N) = m"
  by (rule ext) (simp add: store_bytes_apply)

lemma memset_loop_length: "memset_loop p c i n = Inr bs \<Longrightarrow> length bs = length p"
proof (induction p c i n rule: memset_loop.induct)
  case (1 p c i n)
  then show ?case
    by (cases "i < n") (auto simp: memset_loop.simps [of p c i n] awrite_def split: if_splits)
qed

lemma memset_loop_memory:
  "memset_loop (mem_bytes m a N) c i n = Inr bs \<Longrightarrow> N \<le> 2 ^ 32 \<Longrightarrow>
     user_memset_loop m a (uint c) i n = store_bytes m a bs"
proof (induction "n - i" arbitrary: m i)
  case 0
  then have "bs = mem_bytes m a N" by (simp add: memset_loop.simps [of _ c i n])
  then show ?case using 0 by (simp add: user_memset_loop.simps [of m a _ i n] store_bytes_same)
next
  case (Suc k)
  then have i: "i < n" by simp
  then have w: "bindE (awrite (mem_bytes m a N) i c) (\<lambda>p. memset_loop p c (Suc i) n) = Inr bs"
    using Suc.prems(1) by (subst (asm) memset_loop.simps) simp
  then have l: "i < N" and bs: "memset_loop ((mem_bytes m a N)[i := c]) c (Suc i) n = Inr bs"
    by (auto simp: awrite_def split: if_splits)
  have u: "(mem_bytes m a N)[i := c] = mem_bytes (m(a + of_nat i := c)) a N"
  proof (rule nth_equalityI)
    fix j assume "j < length ((mem_bytes m a N)[i := c])"
    moreover have "(of_nat j :: u32) = of_nat i \<longleftrightarrow> j = i" if "j < N"
      using that l Suc.prems(2) by (metis order_less_le_trans unat_of_nat_u32)
    ultimately show "(mem_bytes m a N)[i := c] ! j = mem_bytes (m(a + of_nat i := c)) a N ! j"
      using l by (auto simp: nth_list_update)
  qed simp
  have "length bs = N" using bs by (auto dest!: memset_loop_length)
  then have "store_bytes (m(a + of_nat i := c)) a bs = store_bytes m a bs"
    using l Suc.prems(2) by (intro ext) (auto simp: store_bytes_apply unat_of_nat_u32)
  then show ?case
    using Suc.hyps(1) [of "Suc i" "m(a + of_nat i := c)"] Suc.hyps(2) Suc.prems(2) bs i unfolding u
    by (subst user_memset_loop.simps) simp
qed

lemma memcpy_loop_memory:
  "memcpy_loop (mem_bytes m a N) (mem_bytes m b M) k = Inr bs \<Longrightarrow> disjoint_objects a N b M \<Longrightarrow> N \<le> 2 ^ 32 \<Longrightarrow>
     user_memcpy_loop m a b k = store_bytes m a bs"
proof (induction k arbitrary: m a b N M bs)
  case (Suc k)
  then obtain N' M' where e: "N = Suc N'" "M = Suc M'" by (cases N; cases M) auto
  note d = disjoint_objects_Suc [OF Suc.prems(2) [unfolded e]] and k = mem_bytes_disjoint [OF Suc.prems(2) [unfolded e]]
  obtain r where "memcpy_loop (mem_bytes (m(a := m b)) (a + 1) N') (mem_bytes (m(a := m b)) (b + 1) M') k = Inr r" "bs = m b # r"
    using Suc.prems(1,3) unfolding e by (auto simp: mem_bytes_Suc k mem_bytes_update_first)
  then show ?case using Suc.IH [OF _ d] Suc.prems(3) e by auto
qed (auto simp: store_bytes_same)

lemma strcpy_memory:
  "strcpy (mem_bytes m a N) (mem_bytes m b M) = Inr bs \<Longrightarrow> disjoint_objects a N b M \<Longrightarrow> N \<le> 2 ^ 32 \<Longrightarrow>
     user_strcpy_loop m a b = Some (store_bytes m a bs)"
proof (induction M arbitrary: m a b N bs)
  case (Suc M)
  then obtain N' where e: "N = Suc N'" by (cases N) (auto simp: mem_bytes_Suc)
  note d = disjoint_objects_Suc [OF Suc.prems(2) [unfolded e]] and k = mem_bytes_disjoint [OF Suc.prems(2) [unfolded e]]
  have keep: "mem_bytes (m(a := v)) (a + 1) N' = mem_bytes m (a + 1) N'" for v
    using Suc.prems(3) e by (intro mem_bytes_update_first) simp
  show ?case
  proof (cases "m b = 0")
    case True
    then have "bs = 0 # mem_bytes (m(a := 0)) (a + 1) N'" using Suc.prems(1) unfolding e by (simp add: mem_bytes_Suc keep)
    then show ?thesis using True Suc.prems(3) e by (subst user_strcpy_loop.simps) (simp add: store_bytes_same)
  next
    case False
    then obtain r where "strcpy (mem_bytes (m(a := m b)) (a + 1) N') (mem_bytes (m(a := m b)) (b + 1) M) = Inr r" "bs = m b # r"
      using Suc.prems(1) unfolding e by (auto simp: mem_bytes_Suc k keep)
    then show ?thesis using Suc.IH [OF _ d] Suc.prems(3) e False by (subst user_strcpy_loop.simps) auto
  qed
qed (simp add: strcpy.simps)

lemma strncpy_loop_memory:
  "strncpy_loop (mem_bytes m (a + of_nat i) N) (mem_bytes m (b + of_nat i) M) n = Inr bs \<Longrightarrow>
   disjoint_objects (a + of_nat i) N (b + of_nat i) M \<Longrightarrow> N \<le> 2 ^ 32 \<Longrightarrow>
     (case user_strncpy_loop m a b (int i) (int (i + n) + 1) of (m', j) \<Rightarrow> m'(a + word_of_int j := 0)) =
       store_bytes m (a + of_nat i) bs"
proof (induction n arbitrary: m i N M bs)
  case 0
  then obtain N' where e: "N = Suc N'" by (cases N) auto
  have keep: "mem_bytes (m(a + of_nat i := 0)) (a + of_nat i + 1) N' = mem_bytes m (a + of_nat i + 1) N'"
    using 0(3) e by (intro mem_bytes_update_first) simp
  then have "bs = 0 # mem_bytes (m(a + of_nat i := 0)) (a + of_nat i + 1) N'"
    using 0(1) unfolding e by (simp add: mem_bytes_Suc)
  then show ?case using 0(3) e by (subst user_strncpy_loop.simps) (simp add: store_bytes_same)
next
  case (Suc n)
  obtain N' M' where e: "N = Suc N'" "M = Suc M'" using Suc.prems(1) by (cases N; cases M) (auto simp: mem_bytes_Suc)
  let ?a = "a + of_nat i" and ?b = "b + of_nat i" let ?m = "m(?a := m ?b)"
  note d = disjoint_objects_Suc [OF Suc.prems(2) [unfolded e]] and k = mem_bytes_disjoint [OF Suc.prems(2) [unfolded e]]
  have s: "?a + 1 = a + of_nat (Suc i)" "?b + 1 = b + of_nat (Suc i)" by simp_all
  have keep: "mem_bytes (m(?a := v)) (?a + 1) N' = mem_bytes m (?a + 1) N'" for v
    using Suc.prems(3) e by (intro mem_bytes_update_first) simp
  show ?case
  proof (cases "m ?b = 0")
    case True
    then have "bs = 0 # mem_bytes (m(?a := 0)) (?a + 1) N'" using Suc.prems(1) unfolding e by (simp add: mem_bytes_Suc keep)
    then show ?thesis using True Suc.prems(3) e by (subst user_strncpy_loop.simps) (simp add: store_bytes_same)
  next
    case False
    then obtain r where r: "strncpy_loop (mem_bytes ?m (?a + 1) N') (mem_bytes ?m (?b + 1) M') n = Inr r" "bs = m ?b # r"
      using Suc.prems(1) unfolding e by (auto simp: mem_bytes_Suc k keep)
    have "(case user_strncpy_loop ?m a b (int (Suc i)) (int (Suc i + n) + 1) of (m', j) \<Rightarrow> m'(a + word_of_int j := 0)) =
        store_bytes ?m (a + of_nat (Suc i)) r"
      using Suc.IH [OF r(1) [unfolded s] d [unfolded s]] Suc.prems(3) e by (simp add: fun_upd_def)
    then show ?thesis using False r(2) by (subst user_strncpy_loop.simps) (simp add: algebra_simps)
  qed
qed

text \<open>
  C29: The four functions that write give the object the bytes of the list version and change nothing else, when the object to
  write and the object to read do not overlap and the list version stays inside them.
\<close>

theorem user_string_writes_refine:
  assumes "obj = mem_bytes m a N" and "src = mem_bytes m b M" and "disjoint_objects a N b M" and "N \<le> 2 ^ 32"
  shows "(memset obj c (unat sz) = Inr bs \<longrightarrow> user_memset m a (uint (word_of_int c :: u8)) sz = (a, store_bytes m a bs)) \<and>
    (k < 2 ^ 31 \<and> memcpy obj src k = Inr bs \<longrightarrow> user_memcpy m a b k = (a, store_bytes m a bs)) \<and>
    (strcpy obj src = Inr bs \<longrightarrow> user_strcpy m a b = Some (a, store_bytes m a bs)) \<and>
    (strncpy obj src k = Inr bs \<longrightarrow> user_strncpy m a b k = (a, store_bytes m a bs))"
proof (intro conjI impI)
  show "user_memset m a (uint (word_of_int c :: u8)) sz = (a, store_bytes m a bs)" if "memset obj c (unat sz) = Inr bs"
    using that assms memset_loop_memory [of m a N "word_of_int c" 0 "unat sz" bs] by (simp add: memset_def user_memset_def)
  show "user_memcpy m a b k = (a, store_bytes m a bs)" if k: "k < 2 ^ 31 \<and> memcpy obj src k = Inr bs"
  proof -
    have "0 \<le> k" "memcpy_loop obj src (nat k) = Inr bs" using k by (auto simp: memcpy_def split: if_splits)
    moreover from this have "unat (word_of_int k :: u32) = nat k" using k by simp
    ultimately show ?thesis using memcpy_loop_memory [of m a N b M "nat k" bs] assms by (simp add: user_memcpy_def)
  qed
  show "user_strcpy m a b = Some (a, store_bytes m a bs)" if "strcpy obj src = Inr bs"
    using that assms strcpy_memory by (simp add: user_strcpy_def)
  show "user_strncpy m a b k = (a, store_bytes m a bs)" if s: "strncpy obj src k = Inr bs"
  proof -
    have "user_strncpy_loop m a b 0 k = user_strncpy_loop m a b 0 (int (nat (k - 1)) + 1)"
      by (cases "1 < k") (simp_all add: user_strncpy_loop.simps [of m a b 0 k] user_strncpy_loop.simps [of m a b 0 1])
    then have e: "user_strncpy m a b k = (a, case user_strncpy_loop m a b 0 (int (nat (k - 1)) + 1) of
        (m', j) \<Rightarrow> m'(a + word_of_int j := 0))"
      unfolding user_strncpy_def by (simp only: split_beta Let_def)
    have "strncpy_loop (mem_bytes m (a + of_nat 0) N) (mem_bytes m (b + of_nat 0) M) (nat (k - 1)) = Inr bs"
      "disjoint_objects (a + of_nat 0) N (b + of_nat 0) M" using s assms by (simp_all add: strncpy_def)
    from strncpy_loop_memory [OF this assms(4)] show ?thesis unfolding e by simp
  qed
qed

theorem user_string_writes_refine_witness:
  "user_strncpy ((\<lambda>_. 7)(100 := 0x68, 101 := 0)) 200 100 5 = (200, store_bytes ((\<lambda>_. 7)(100 := 0x68, 101 := 0)) 200 [0x68, 0, 7]) \<and>
   user_memset ((\<lambda>_. 7)(100 := 0x68, 101 := 0)) 200 1 2 = (200, store_bytes ((\<lambda>_. 7)(100 := 0x68, 101 := 0)) 200 [1, 1, 7])"
proof -
  let ?m = "(\<lambda>_. 7 :: u8)(100 := 0x68, 101 := 0) :: umem"
  have d: "disjoint_objects 200 3 100 2"
    unfolding disjoint_objects_def
  proof (intro allI impI)
    fix i j :: nat assume "i < 3" "j < 2"
    then have "i = 0 \<or> i = 1 \<or> i = 2" "j = 0 \<or> j = 1" by linarith+
    then show "(200 :: u32) + of_nat i \<noteq> 100 + of_nat j" by (elim disjE) simp_all
  qed
  have l: "mem_bytes ?m 200 3 = [7, 7, 7]" "mem_bytes ?m 100 2 = [0x68, 0]" by (simp_all add: mem_bytes_def upt_rec)
  note r = user_string_writes_refine [OF refl refl d, of ?m 1 2 _ 5]
  have "strncpy (mem_bytes ?m 200 3) (mem_bytes ?m 100 2) 5 = Inr [0x68, 0, 7]" unfolding l by code_simp
  moreover have "memset (mem_bytes ?m 200 3) 1 (unat (2 :: u32)) = Inr [1, 1, 7]"
    unfolding l by (simp add: memset_def memset_loop.simps)
  ultimately show ?thesis using r [of "[0x68, 0, 7]"] r [of "[1, 1, 7]"] by simp
qed

theorem user_string_reads_refine_witness:
  "user_strlen ((\<lambda>_. 7)(100 := 0x68, 101 := 0)) 100 = Some 1 \<and>
   user_strncmp ((\<lambda>_. 7)(100 := 0x68, 101 := 0)) 100 200 4 = 97"
proof -
  let ?m = "(\<lambda>_. 7 :: u8)(100 := 0x68, 101 := 0) :: umem"
  have l: "mem_bytes ?m 200 3 = [7, 7, 7]" "mem_bytes ?m 100 2 = [0x68, 0]" by (simp_all add: mem_bytes_def upt_rec)
  have "strlen (mem_bytes ?m 100 2) = Inr 1" "strncmp (mem_bytes ?m 100 2) (mem_bytes ?m 200 3) 4 = Inr 97"
    unfolding l by code_simp+
  then show ?thesis using user_string_reads_refine [OF refl refl, where m = ?m and a = 100 and N = 2 and b = 200 and M = 3 and n = 1 and k = 4 and r = 97]
    by simp
qed

end
