(* ===== verification/UserLib.thy ===== *)
theory UserLib
  imports CString
begin

text \<open>
  The library of the user programs (\<^verbatim>\<open>programs/stdlib\<close>) and the shell (\<^verbatim>\<open>programs/shell\<close>). Its \<^verbatim>\<open>memory.c\<close> and all of its
  \<^verbatim>\<open>string.c\<close> but \<^verbatim>\<open>strtok\<close> are modelled over the memory of the program in \<open>UserMemory\<close>, where they are shown to refine the
  list versions of \<open>CString\<close>; those are what is called here. A system call is seen from the program: what
  it answers is in the state, in the order in which it will be asked for.
\<close>

section \<open>State\<close>

record CommandArgument =
  cmd_argument :: "u8 list"
  cmd_next :: nat

text \<open>
  A pointer into a string is an object and an offset. \<open>sp\<close> is the static of \<^verbatim>\<open>strtok\<close>, \<open>itoa_text\<close> that of \<^verbatim>\<open>itoa\<close>; \<open>nodes\<close> are
  the command arguments on the heap, 0 being null. \<open>screen\<close> collects the characters passed to the terminal; the answers
  of \<^verbatim>\<open>getkey\<close> and of \<^verbatim>\<open>malloc\<close> are lists.
\<close>

record user_state =
  objs :: "nat \<rightharpoonup> u8 list"
  sp :: "(nat \<times> nat) option"
  itoa_text :: "u8 list"
  nodes :: "nat \<rightharpoonup> CommandArgument"
  screen :: "u8 list"
  key_answers :: "int list"
  heap_answers :: "nat list"

section \<open>System calls\<close>

text \<open>The kernel copies at most 1024 bytes of the string, the last of them the terminator.\<close>

definition sys_print :: "user_state \<Rightarrow> u8 list \<Rightarrow> fault + user_state" where
  "sys_print st s = bindE (strlen s) (\<lambda>n. Inr (st\<lparr>screen := screen st @ take (min n 1023) s\<rparr>))"

definition bimbleos_putchar :: "user_state \<Rightarrow> u8 \<Rightarrow> user_state" where
  "bimbleos_putchar st c = st\<lparr>screen := screen st @ [c]\<rparr>"

definition bimbleos_getkey :: "user_state \<Rightarrow> fault + (int \<times> user_state)" where
  "bimbleos_getkey st = (case key_answers st of [] \<Rightarrow> Inl Hang | k # ks \<Rightarrow> Inr (k, st\<lparr>key_answers := ks\<rparr>))"

definition bimbleos_malloc :: "user_state \<Rightarrow> nat \<times> user_state" where
  "bimbleos_malloc st = (case heap_answers st of [] \<Rightarrow> (0, st) | a # as \<Rightarrow> (a, st\<lparr>heap_answers := as\<rparr>))"

text \<open>A freed argument is gone.\<close>

definition bimbleos_free :: "user_state \<Rightarrow> nat \<Rightarrow> user_state" where
  "bimbleos_free st ptr = st\<lparr>nodes := (nodes st)(ptr := None)\<rparr>"

section \<open>start.c\<close>

text \<open>
  The answer of \<^verbatim>\<open>bimbleos_process_get_arguments\<close> is a parameter; the result of \<^verbatim>\<open>main\<close> is not used, and \<^verbatim>\<open>start.asm\<close> makes the
  system call that ends the process when \<^verbatim>\<open>c_start\<close> is back.
\<close>

definition c_start :: "(int \<Rightarrow> u32 \<Rightarrow> user_state \<Rightarrow> fault + (int \<times> user_state)) \<Rightarrow> int \<times> u32 \<Rightarrow> user_state \<Rightarrow> fault + user_state" where
  "c_start user_main arguments st = (case arguments of (argc, argv) \<Rightarrow>
     bindE (user_main argc argv st) (\<lambda>(res, st). Inr st))"

section \<open>stdlib.c\<close>

lemma cdiv_10_less: "i \<noteq> 0 \<Longrightarrow> cdiv i 10 = Inr q \<Longrightarrow> nat \<bar>q\<bar> < nat \<bar>i\<bar>"
  by (auto simp: cdiv_def signed_divide_int_def sgn_if)

text \<open>The digits of a number that is not positive; \<^verbatim>\<open>%\<close> gives digits that are not positive either.\<close>

function itoa_loop :: "u8 list \<Rightarrow> int \<Rightarrow> int \<Rightarrow> fault + (u8 list \<times> int)" where
  "itoa_loop txt loc i =
     (if i \<noteq> 0
      then bindE (cmod i 10) (\<lambda>r.
           bindE (awritei txt (loc - 1) (word_of_int (0x30 - r))) (\<lambda>txt.
           bindE (cdiv i 10) (\<lambda>q. itoa_loop txt (loc - 1) q)))
      else Inr (txt, loc))"
  by pat_completeness auto
termination
  by (relation "measure (\<lambda>(txt, loc, i). nat \<bar>i\<bar>)") (auto dest: cdiv_10_less)

declare itoa_loop.simps [simp del]

definition itoa :: "u8 list \<Rightarrow> int \<Rightarrow> fault + (u8 list \<times> int)" where
  "itoa txt i =
     bindE (awrite txt 11 0) (\<lambda>txt.
     bindE (itoa_loop txt 11 (if 0 \<le> i then - i else i)) (\<lambda>(txt, loc).
     bindE (if loc = 11 then bindE (awritei txt (loc - 1) 0x30) (\<lambda>txt. Inr (txt, loc - 1)) else Inr (txt, loc)) (\<lambda>(txt, loc).
       if i < 0 then bindE (awritei txt (loc - 1) 0x2D) (\<lambda>txt. Inr (txt, loc - 1)) else Inr (txt, loc))))"

definition malloc :: "user_state \<Rightarrow> nat \<times> user_state" where
  "malloc st = bimbleos_malloc st"

definition user_free :: "user_state \<Rightarrow> nat \<Rightarrow> user_state" where
  "user_free st ptr = bimbleos_free st ptr"

section \<open>stdio.c\<close>

definition putchar :: "user_state \<Rightarrow> int \<Rightarrow> int \<times> user_state" where
  "putchar st c = (0, bimbleos_putchar st (word_of_int c))"

text \<open>The arguments behind the format, in their order.\<close>

datatype va_arg = VInt int | VStr "u8 list"

definition print_int :: "user_state \<Rightarrow> int \<Rightarrow> fault + user_state" where
  "print_int st ival =
     bindE (itoa (itoa_text st) ival) (\<lambda>(txt, loc). sys_print (st\<lparr>itoa_text := txt\<rparr>) (drop (nat loc) txt))"

text \<open>The loop from \<open>fmt + p\<close> on.\<close>

lemma aread_Inr_less: "aread xs i = Inr x \<Longrightarrow> i < length xs"
  by (simp add: aread_eq_Inr)

function printf_loop :: "user_state \<Rightarrow> u8 list \<Rightarrow> nat \<Rightarrow> va_arg list \<Rightarrow> fault + user_state" where
  "printf_loop st fmt p ap =
     bindE (aread fmt p) (\<lambda>c.
       if c = 0 then Inr st
       else if c \<noteq> 0x25 then printf_loop (snd (putchar st (sint c))) fmt (p + 1) ap
       else bindE (aread fmt (p + 1)) (\<lambda>d.
         if d = 0x69
         then (case ap of [] \<Rightarrow> Inl Uninitialised | VStr s # ap' \<Rightarrow> Inl WrongMember
               | VInt ival # ap' \<Rightarrow> bindE (print_int st ival) (\<lambda>st1. printf_loop st1 fmt (p + 2) ap'))
         else if d = 0x73
         then (case ap of [] \<Rightarrow> Inl Uninitialised | VInt ival # ap' \<Rightarrow> Inl WrongMember
               | VStr sval # ap' \<Rightarrow> bindE (sys_print st sval) (\<lambda>st1. printf_loop st1 fmt (p + 2) ap'))
         else printf_loop st fmt (p + 2) ap))"
  by pat_completeness auto
termination
  by (relation "measure (\<lambda>(st, fmt, p, ap). length fmt - p)") (auto dest!: aread_Inr_less)

declare printf_loop.simps [simp del]

definition printf :: "user_state \<Rightarrow> u8 list \<Rightarrow> va_arg list \<Rightarrow> fault + (int \<times> user_state)" where
  "printf st fmt ap = bindE (printf_loop st fmt 0 ap) (\<lambda>st1. Inr (0, st1))"

section \<open>strtok\<close>

text \<open>The value of \<^verbatim>\<open>i\<close> after a loop over the delimiters that stops at the first one equal to \<open>c\<close>.\<close>

primrec match_index :: "u8 \<Rightarrow> u8 list \<Rightarrow> nat" where
  "match_index c [] = 0"
| "match_index c (d # ds) = (if c = d then 0 else Suc (match_index c ds))"

function skip_delims :: "u8 list \<Rightarrow> u8 list \<Rightarrow> nat \<Rightarrow> fault + nat" where
  "skip_delims buf ds p = bindE (aread buf p) (\<lambda>c. if match_index c ds = length ds then Inr p else skip_delims buf ds (p + 1))"
  by pat_completeness auto
termination
  by (relation "measure (\<lambda>(buf, ds, p). length buf - p)") (auto dest!: aread_Inr_less)

function token_end :: "u8 list \<Rightarrow> u8 list \<Rightarrow> nat \<Rightarrow> fault + (u8 list \<times> nat)" where
  "token_end buf ds p =
     bindE (aread buf p) (\<lambda>c.
       if c = 0 then Inr (buf, p)
       else if match_index c ds < length ds then Inr (buf[p := 0], p + 1)
       else token_end buf ds (p + 1))"
  by pat_completeness auto
termination
  by (relation "measure (\<lambda>(buf, ds, p). length buf - p)") (auto dest!: aread_Inr_less)

declare skip_delims.simps [simp del] token_end.simps [simp del]

text \<open>While \<^verbatim>\<open>sp\<close> is set, \<^verbatim>\<open>str\<close> is ignored.\<close>

definition strtok :: "user_state \<Rightarrow> (nat \<times> nat) option \<Rightarrow> u8 list \<Rightarrow> fault + ((nat \<times> nat) option \<times> user_state)" where
  "strtok st str deliminators =
     bindE (strlen deliminators) (\<lambda>len.
       case (if sp st = None then str else sp st) of None \<Rightarrow> Inr (None, st)
       | Some (obj, p) \<Rightarrow>
           (case objs st obj of None \<Rightarrow> Inl UseAfterFree
            | Some buf \<Rightarrow>
                bindE (skip_delims buf (take len deliminators) p) (\<lambda>p_start.
                bindE (aread buf p_start) (\<lambda>c.
                  if c = 0 then Inr (None, st\<lparr>sp := None\<rparr>)
                  else bindE (token_end buf (take len deliminators) p_start) (\<lambda>(buf, q).
                    Inr (Some (obj, p_start), st\<lparr>objs := (objs st)(obj \<mapsto> buf), sp := Some (obj, q)\<rparr>))))))"

section \<open>bimbleos.c\<close>

text \<open>\<^verbatim>\<open>getkey\<close> until it answers something; there is no answer after the last.\<close>

function getkeyblock :: "user_state \<Rightarrow> fault + (int \<times> user_state)" where
  "getkeyblock st = bindE (bimbleos_getkey st) (\<lambda>(val, st1). if val = 0 then getkeyblock st1 else Inr (val, st1))"
  by pat_completeness auto
termination
  by (relation "measure (\<lambda>st. length (key_answers st))") (auto simp: bimbleos_getkey_def split: list.splits)

declare getkeyblock.simps [simp del]

lemma getkeyblock_less: "getkeyblock st = Inr (val, st1) \<Longrightarrow> length (key_answers st1) < length (key_answers st)"
proof (induction st rule: getkeyblock.induct)
  case (1 st)
  from "1.prems" obtain v st2 where v: "bimbleos_getkey st = Inr (v, st2)"
    "(if v = 0 then getkeyblock st2 else Inr (v, st2)) = Inr (val, st1)"
    by (subst (asm) getkeyblock.simps) auto
  then have "length (key_answers st2) < length (key_answers st)"
    by (auto simp: bimbleos_getkey_def split: list.splits)
  then show ?case using v "1.IH" [OF v(1) refl] by (fastforce split: if_splits)
qed

function readline_loop :: "user_state \<Rightarrow> u8 list \<Rightarrow> u32 \<Rightarrow> u32 \<Rightarrow> bool \<Rightarrow> fault + (u8 list \<times> u32 \<times> user_state)" where
  "readline_loop st out i mx echo =
     (if i < mx - 1
      then bindE (getkeyblock st) (\<lambda>(val, st1).
        let key = word_of_int val :: u8
        in if key = 0x0D then Inr (out, i, st1)
           else bindE (awrite out (unat i) key) (\<lambda>out1.
             let st2 = (if echo then bimbleos_putchar st1 key else st1)
             in if key = 0x08 \<and> 1 \<le> i
                then bindE (awrite out1 (unat (i - 1)) 0) (\<lambda>out2. readline_loop st2 out2 (i - 2 + 1) mx echo)
                else readline_loop st2 out1 (i + 1) mx echo))
      else Inr (out, i, st))"
  by pat_completeness auto
termination
  by (relation "measure (\<lambda>(st, out, i, mx, echo). length (key_answers st))")
    (auto dest!: getkeyblock_less simp: bimbleos_putchar_def)

declare readline_loop.simps [simp del]

definition bimbleos_terminal_realine :: "user_state \<Rightarrow> u8 list \<Rightarrow> u32 \<Rightarrow> bool \<Rightarrow> fault + (u8 list \<times> user_state)" where
  "bimbleos_terminal_realine st out mx echo =
     bindE (readline_loop st out 0 mx echo) (\<lambda>(out, i, st1).
     bindE (awrite out (unat i) 0) (\<lambda>out. Inr (out, st1)))"

text \<open>The string a pointer leads to.\<close>

definition string_at :: "user_state \<Rightarrow> nat \<times> nat \<Rightarrow> fault + u8 list" where
  "string_at st ptr = (case objs st (fst ptr) of None \<Rightarrow> Inl UseAfterFree | Some buf \<Rightarrow> Inr (drop (snd ptr) buf))"

text \<open>\<^verbatim>\<open>new->argument\<close> gets the token, \<^verbatim>\<open>new->next\<close> is null; the kernel gave the memory zeroed.\<close>

definition fill_node :: "user_state \<Rightarrow> nat \<Rightarrow> nat \<times> nat \<Rightarrow> fault + user_state" where
  "fill_node st a token =
     bindE (string_at st token) (\<lambda>s.
     bindE (strncpy (replicate 512 0) s 512) (\<lambda>bs.
       Inr (st\<lparr>nodes := (nodes st)(a \<mapsto> \<lparr>cmd_argument = bs, cmd_next = 0\<rparr>)\<rparr>)))"

definition set_next :: "user_state \<Rightarrow> nat \<Rightarrow> nat \<Rightarrow> fault + user_state" where
  "set_next st current a = (case nodes st current of None \<Rightarrow> Inl UseAfterFree
     | Some n \<Rightarrow> Inr (st\<lparr>nodes := (nodes st)(current \<mapsto> n\<lparr>cmd_next := a\<rparr>)\<rparr>))"

lemma answers_kept:
  "fill_node st a token = Inr st1 \<Longrightarrow> heap_answers st1 = heap_answers st"
  "set_next st c a = Inr st1 \<Longrightarrow> heap_answers st1 = heap_answers st"
  "strtok st str ds = Inr (t, st1) \<Longrightarrow> heap_answers st1 = heap_answers st"
  by (auto simp: fill_node_def set_next_def strtok_def split: option.splits if_splits)

function parse_loop :: "user_state \<Rightarrow> nat \<Rightarrow> (nat \<times> nat) option \<Rightarrow> fault + user_state" where
  "parse_loop st current tok =
     (case tok of None \<Rightarrow> Inr st
      | Some t \<Rightarrow>
          (let (new_command, st1) = malloc st
           in if new_command = 0 then Inr st1
              else bindE (fill_node st1 new_command t) (\<lambda>st2.
                   bindE (set_next st2 current new_command) (\<lambda>st3.
                   bindE (strtok st3 None [0x20, 0]) (\<lambda>(tok, st4). parse_loop st4 new_command tok)))))"
  by pat_completeness auto
termination
  by (relation "measure (\<lambda>(st, current, tok). length (heap_answers st))")
    (auto simp: malloc_def bimbleos_malloc_def dest!: answers_kept split: list.splits)

declare parse_loop.simps [simp del]

text \<open>
  \<open>frame\<close> names the array \<^verbatim>\<open>scommand\<close> in the stack frame of the call, which is gone when it returns; \<open>old\<close> is what it holds
  before it is written.
\<close>

definition bimbleos_parse_command ::
  "user_state \<Rightarrow> nat \<Rightarrow> u8 list \<Rightarrow> u8 list \<Rightarrow> int \<Rightarrow> fault + (nat \<times> user_state)" where
  "bimbleos_parse_command st frame old command mx =
     (if 1025 \<le> mx then Inr (0, st)
      else
        bindE (strncpy old command 1025) (\<lambda>scommand.
        bindE (strtok (st\<lparr>objs := (objs st)(frame \<mapsto> scommand)\<rparr>) (Some (frame, 0)) [0x20, 0]) (\<lambda>(token, st1).
        bindE (case token of None \<Rightarrow> Inr (0, st1)
               | Some t \<Rightarrow>
                   (let (root_command, st2) = malloc st1
                    in if root_command = 0 then Inr (0, st2)
                       else bindE (fill_node st2 root_command t) (\<lambda>st3.
                            bindE (strtok st3 None [0x20, 0]) (\<lambda>(token, st4).
                            bindE (parse_loop st4 root_command token) (\<lambda>st5. Inr (root_command, st5))))))
          (\<lambda>(root, st6). Inr (root, st6\<lparr>objs := (objs st6)(frame := None)\<rparr>)))))"

text \<open>\<open>system\<close> is the system call 7, which may not come back.\<close>

definition bimbleos_system_run ::
  "(nat \<Rightarrow> user_state \<Rightarrow> fault + (int \<times> user_state)) \<Rightarrow> user_state \<Rightarrow> nat \<Rightarrow> u8 list \<Rightarrow> u8 list \<Rightarrow> u8 list \<Rightarrow> fault + (int \<times> user_state)" where
  "bimbleos_system_run system st frame old_buf old command =
     bindE (strncpy old_buf command 1024) (\<lambda>buf.
     bindE (bimbleos_parse_command st frame old buf 1024) (\<lambda>(root, st1).
       if root = 0 then Inr (- 1, st1) else system root st1))"

section \<open>The shell\<close>

text \<open>One round of its endless loop: the prompt \<^verbatim>\<open>>\<close>, a line, and the command. \<open>buff\<close> is the array of the loop's body.\<close>

definition shell_round ::
  "(nat \<Rightarrow> user_state \<Rightarrow> fault + (int \<times> user_state)) \<Rightarrow> nat \<Rightarrow> u8 list \<Rightarrow> u8 list \<Rightarrow> u8 list \<Rightarrow> user_state \<Rightarrow> fault + user_state" where
  "shell_round system frame old_buf old buff st =
     bindE (printf st [0x3E, 0] []) (\<lambda>(_, st1).
     bindE (bimbleos_terminal_realine st1 buff 1024 True) (\<lambda>(buff, st2).
     bindE (sys_print st2 [0x0A, 0]) (\<lambda>st3.
     bindE (bimbleos_system_run system st3 frame old_buf old buff) (\<lambda>(_, st4).
     bindE (printf st4 [0x0A, 0] []) (\<lambda>(_, st5). Inr st5)))))"

text \<open>
  The banner \<^verbatim>\<open>BimbleOS v1.0\<close> and one round for each triple of buffers, with the bytes the three arrays hold before they are
  written; the program itself never stops.
\<close>

fun shell_loop ::
  "(nat \<Rightarrow> user_state \<Rightarrow> fault + (int \<times> user_state)) \<Rightarrow> nat \<Rightarrow> (u8 list \<times> u8 list \<times> u8 list) list \<Rightarrow> user_state \<Rightarrow> fault + user_state" where
  "shell_loop system frame [] st = Inr st"
| "shell_loop system frame ((old_buf, old, buff) # bufs) st =
     bindE (shell_round system frame old_buf old buff st) (\<lambda>st1. shell_loop system frame bufs st1)"

definition shell_main ::
  "(nat \<Rightarrow> user_state \<Rightarrow> fault + (int \<times> user_state)) \<Rightarrow> nat \<Rightarrow> (u8 list \<times> u8 list \<times> u8 list) list \<Rightarrow> user_state \<Rightarrow> fault + user_state" where
  "shell_main system frame bufs st =
     bindE (printf st [0x42, 0x69, 0x6D, 0x62, 0x6C, 0x65, 0x4F, 0x53, 0x20, 0x76, 0x31, 0x2E, 0x30, 0x0A, 0] []) (\<lambda>(_, st1).
       shell_loop system frame bufs st1)"

section \<open>The program blank\<close>

text \<open>Its loop, cut off after \<open>n\<close> rounds.\<close>

primrec blank_loop :: "u8 list list \<Rightarrow> nat \<Rightarrow> user_state \<Rightarrow> fault + user_state" where
  "blank_loop args 0 st = Inr st"
| "blank_loop args (Suc n) st =
     bindE (aread args 0) (\<lambda>s. bindE (printf st [0x0A, 0x25, 0x73, 0] [VStr s]) (\<lambda>(_, st1). blank_loop args n st1))"

definition blank_main :: "u8 list list \<Rightarrow> nat \<Rightarrow> user_state \<Rightarrow> fault + user_state" where
  "blank_main args n st =
     bindE (printf st [0x52, 0x75, 0x6E, 0x6E, 0x69, 0x6E, 0x67, 0x20, 0x62, 0x6C, 0x61, 0x6E, 0x6B, 0x2E, 0x65, 0x6C, 0x66, 0] [])
       (\<lambda>(_, st1). blank_loop args n st1)"

end
