(* ===== verification/UserProps.thy ===== *)
theory UserProps
  imports UserLib
begin

text \<open>
  The properties of the user library: numbers are written in decimal, \<^verbatim>\<open>printf\<close> against a reference, \<^verbatim>\<open>strtok\<close> and the
  command parser against the list of the words, and the line editor against a fold over the keys.
\<close>

section \<open>Decimal numbers\<close>

fun digits :: "nat \<Rightarrow> u8 list" where
  "digits n = (if n < 10 then [of_nat (48 + n)] else digits (n div 10) @ [of_nat (48 + n mod 10)])"

definition decimal :: "int \<Rightarrow> u8 list" where
  "decimal i = (if i < 0 then 0x2D # digits (nat (- i)) else digits (nat i))"

declare digits.simps [simp del]

lemma digits_small: "n < 10 \<Longrightarrow> digits n = [of_nat (48 + n)]"
  by (simp add: digits.simps)

lemma digits_step: "10 \<le> n \<Longrightarrow> digits n = digits (n div 10) @ [of_nat (48 + n mod 10)]"
  by (simp add: digits.simps)

text \<open>Reading a number back.\<close>

definition read_nat :: "u8 list \<Rightarrow> nat" where
  "read_nat s = foldl (\<lambda>a c. 10 * a + (unat c - 48)) 0 s"

definition read_int :: "u8 list \<Rightarrow> int" where
  "read_int s = (if s \<noteq> [] \<and> hd s = 0x2D then - int (read_nat (tl s)) else int (read_nat s))"

lemma digit_unat: "d < 10 \<Longrightarrow> unat (of_nat (48 + d) :: u8) = 48 + d"
  by (simp only: unat_of_nat take_bit_eq_mod) simp

lemma read_digits: "read_nat (digits n) = n"
proof (induction n rule: digits.induct)
  case (1 n)
  show ?case
  proof (cases "n < 10")
    case True
    then show ?thesis using digit_unat [of n] by (simp add: digits_small read_nat_def del: of_nat_add)
  next
    case False
    then have "read_nat (digits n) = 10 * read_nat (digits (n div 10)) + n mod 10"
      using digit_unat [of "n mod 10"] by (simp add: digits_step read_nat_def del: of_nat_add)
    then show ?thesis using "1.IH" [OF False] by simp
  qed
qed

lemma digits_set: "c \<in> set (digits n) \<Longrightarrow> 48 \<le> unat c \<and> unat c < 58"
proof (induction n rule: digits.induct)
  case (1 n)
  show ?case
  proof (cases "n < 10")
    case True
    then show ?thesis using "1.prems" digit_unat [of n] by (simp add: digits_small del: of_nat_add)
  next
    case False
    then have "c \<in> set (digits (n div 10)) \<or> c = of_nat (48 + n mod 10)"
      using "1.prems" by (auto simp: digits_step)
    then show ?thesis using "1.IH" [OF False] digit_unat [of "n mod 10"] by (auto simp del: of_nat_add)
  qed
qed

lemma digits_nonempty [simp]: "digits n \<noteq> []"
  by (subst digits.simps) simp

lemma read_decimal: "read_int (decimal i) = i"
proof (cases "i < 0")
  case True
  then show ?thesis by (simp add: read_int_def decimal_def read_digits)
next
  case False
  have "unat (hd (digits (nat i))) \<ge> 48" using digits_set [of "hd (digits (nat i))" "nat i"] by simp
  then have "hd (digits (nat i)) \<noteq> 0x2D" by auto
  then show ?thesis using False by (simp add: read_int_def decimal_def read_digits)
qed

lemma length_digits: "0 < k \<Longrightarrow> n < 10 ^ k \<Longrightarrow> length (digits n) \<le> k"
proof (induction k arbitrary: n)
  case (Suc k)
  show ?case
  proof (cases "n < 10")
    case False
    then have "0 < k" using Suc.prems by (cases k) auto
    moreover have "n div 10 < 10 ^ k" using Suc.prems(2) by (simp add: less_mult_imp_div_less mult.commute)
    ultimately have "length (digits (n div 10)) \<le> k" by (rule Suc.IH)
    then show ?thesis using False by (simp add: digits_step)
  qed (simp add: digits_small)
qed simp

text \<open>The loop writes the digits from the last to the first.\<close>

lemma cdiv_neg: "cdiv (- int n) 10 = Inr (- int (n div 10))"
  by (simp add: cdiv_def signed_divide_int_def sgn_if zdiv_int)

lemma cmod_neg: "cmod (- int n) 10 = Inr (- int (n mod 10))"
  by (simp add: cmod_def signed_modulo_int_def signed_divide_int_def sgn_if zmod_int zdiv_int minus_div_mult_eq_mod [symmetric])

lemma itoa_loop_ok:
  "0 < n \<Longrightarrow> length (digits n) \<le> loc \<Longrightarrow> loc \<le> length buf \<Longrightarrow>
     itoa_loop buf (int loc) (- int n) =
       Inr (take (loc - length (digits n)) buf @ digits n @ drop loc buf, int (loc - length (digits n)))"
proof (induction n arbitrary: buf loc rule: digits.induct)
  case (1 n)
  obtain l where l: "loc = Suc l" using "1.prems"(2) by (cases loc) auto
  let ?d = "of_nat (48 + n mod 10) :: u8"
  have d: "word_of_int (0x30 - - int (n mod 10)) = ?d" by simp
  have step: "itoa_loop buf (int loc) (- int n) = itoa_loop (buf[l := ?d]) (int l) (- int (n div 10))"
    using "1.prems"(1,3) l d by (subst itoa_loop.simps) (simp add: cdiv_neg cmod_neg)
  show ?case
  proof (cases "n < 10")
    case True
    then have "itoa_loop buf (int loc) (- int n) = Inr (buf[l := ?d], int l)"
      unfolding step by (subst itoa_loop.simps) simp
    then show ?thesis using True "1.prems"(3) l by (simp add: digits_small upd_conv_take_nth_drop)
  next
    case False
    then have len: "length (digits (n div 10)) \<le> l" using "1.prems"(2) l by (simp add: digits_step)
    have "itoa_loop (buf[l := ?d]) (int l) (- int (n div 10)) =
        Inr (take (l - length (digits (n div 10))) (buf[l := ?d]) @ digits (n div 10) @ drop l (buf[l := ?d]),
          int (l - length (digits (n div 10))))"
      using False len "1.prems"(3) l by (intro "1.IH") auto
    moreover have "drop l (buf[l := ?d]) = ?d # drop loc buf"
      using "1.prems"(3) l by (simp add: drop_update_swap Cons_nth_drop_Suc [symmetric])
    ultimately show ?thesis using False l unfolding step by (simp add: digits_step)
  qed
qed

lemma decimal_nonzero: "0 \<notin> set (decimal i)"
  using digits_set [of 0] by (auto simp: decimal_def)

lemma itoa_ok:
  assumes ltx: "length buf = 12" and i: "- (2 ^ 31) \<le> i" "i < 2 ^ 31"
  shows "\<exists>t. itoa buf i = Inr (t, int (11 - length (decimal i))) \<and> length t = 12 \<and>
    drop (11 - length (decimal i)) t = decimal i @ [0] \<and> length (decimal i) \<le> 11"
proof -
  let ?n = "nat \<bar>i\<bar>" and ?t0 = "buf[11 := 0]"
  have "?n < 10 ^ 10" using i by (auto simp: abs_if nat_less_iff)
  then have len: "length (digits ?n) \<le> 10" by (intro length_digits) simp_all
  have last: "drop 11 ?t0 = [0]" using ltx by (simp add: drop_update_swap) (simp add: Cons_nth_drop_Suc [symmetric])
  show ?thesis
  proof (cases "i = 0")
    case True
    have "itoa buf 0 = Inr (?t0[10 := 0x30], 10)" using ltx by (simp add: itoa_def itoa_loop.simps awritei_def)
    moreover have "drop 10 (?t0[10 := 0x30]) = [0x30, 0]"
      using ltx last by (simp add: drop_update_swap) (simp add: Cons_nth_drop_Suc [symmetric])
    ultimately show ?thesis using True ltx by (simp add: decimal_def digits_small)
  next
    case False
    let ?l = "11 - length (digits ?n)"
    let ?t1 = "take ?l ?t0 @ digits ?n @ [0]"
    have neg: "(if 0 \<le> i then - i else i) = - int ?n" by simp
    have loop: "itoa_loop ?t0 11 (- int ?n) = Inr (?t1, int ?l)"
      using itoa_loop_ok [of ?n 11 ?t0] False len ltx last by simp
    have nz: "length (digits ?n) \<noteq> 0" by simp
    then have nl: "(int ?l = 11) = False" using len by simp
    have w: "awrite buf 11 0 = Inr ?t0" using ltx by (simp add: awrite_def)
    have run: "itoa buf i = (if i < 0 then bindE (awritei ?t1 (int ?l - 1) 0x2D) (\<lambda>t. Inr (t, int ?l - 1)) else Inr (?t1, int ?l))"
      unfolding itoa_def neg w bindE_Inr loop prod.case nl if_False ..
    have l1: "length ?t1 = 12" using len ltx by simp
    show ?thesis
    proof (cases "i < 0")
      case True
      then have dec: "decimal i = 0x2D # digits ?n" by (simp add: decimal_def)
      have e: "int ?l - 1 = int (11 - length (decimal i))" using len unfolding dec by simp
      let ?k = "11 - length (decimal i)"
      have k: "?k < length ?t1" "?l = Suc ?k" using len unfolding dec l1 by simp_all
      have "drop ?k (?t1[?k := 0x2D]) = 0x2D # drop ?l ?t1"
        using k by (simp add: drop_update_swap Cons_nth_drop_Suc [symmetric] del: drop_append)
      moreover have "drop ?l ?t1 = digits ?n @ [0]" using ltx by simp
      moreover have "itoa buf i = Inr (?t1[?k := 0x2D], int ?k)"
        unfolding run e if_P [OF True] awritei_nat awrite_in [OF k(1)] bindE_Inr ..
      ultimately have "drop ?k (?t1[?k := 0x2D]) = decimal i @ [0]" "itoa buf i = Inr (?t1[?k := 0x2D], int ?k)"
        "length (decimal i) \<le> 11" "length (?t1[?k := 0x2D]) = 12"
        using dec len by (simp_all only: l1 length_list_update append_Cons list.size)
      then show ?thesis by blast
    next
      case False
      then have "decimal i = digits ?n" by (simp add: decimal_def)
      then show ?thesis using False len l1 run ltx by simp
    qed
  qed
qed

text \<open>
  C40: \<^verbatim>\<open>itoa\<close> is right for every \<^verbatim>\<open>int\<close>, the least one included: it stays inside its buffer of 12 bytes, and the string it
  returns a pointer to is the decimal representation of the number, which reads back as the number.
\<close>

theorem itoa_decimal:
  assumes "length buf = 12" and "- (2 ^ 31) \<le> i" and "i < 2 ^ 31"
  shows "\<exists>t loc. itoa buf i = Inr (t, loc) \<and> length t = 12 \<and> 0 \<le> loc \<and> loc \<le> 10 \<and>
    cstr (drop (nat loc) t) = decimal i \<and> read_int (cstr (drop (nat loc) t)) = i"
proof -
  obtain t where t: "itoa buf i = Inr (t, int (11 - length (decimal i)))" "length t = 12"
    "drop (11 - length (decimal i)) t = decimal i @ [0]" using itoa_ok [OF assms] by blast
  have "cstr (decimal i @ [0]) = decimal i" using cstr_append [OF decimal_nonzero] by simp
  moreover have "decimal i \<noteq> []" by (simp add: decimal_def)
  then have "11 - length (decimal i) \<le> 10" by (cases "decimal i") auto
  ultimately show ?thesis
    by (intro exI [of _ t] exI [of _ "int (11 - length (decimal i))"]) (simp add: t read_decimal)
qed

theorem itoa_decimal_witness:
  "\<exists>t. itoa (replicate 12 0) (- 2147483648) = Inr (t, 0) \<and> read_int (cstr t) = - 2147483648"
proof -
  have "digits 2147483648 = map (\<lambda>d. of_nat (48 + d)) [2, 1, 4, 7, 4, 8, 3, 6, 4, 8]"
    by (simp add: digits.simps)
  then have l: "length (decimal (- 2147483648)) = 11" by (simp add: decimal_def)
  obtain t loc where t: "itoa (replicate 12 0) (- 2147483648) = Inr (t, loc)" "read_int (cstr (drop (nat loc) t)) = - 2147483648"
    using itoa_decimal [of "replicate 12 0" "- 2147483648"] by auto
  moreover have "loc = 0" using itoa_ok [of "replicate 12 0" "- 2147483648"] t(1) l by simp
  ultimately show ?thesis by simp
qed

section \<open>The line editor\<close>

text \<open>The keys a program will receive: the answers that are not a poll without a key.\<close>

definition keys :: "user_state \<Rightarrow> u8 list" where
  "keys st = map word_of_int (filter (\<lambda>v. v \<noteq> 0) (key_answers st))"

lemma keys_screen [simp]: "keys (st\<lparr>screen := s\<rparr>) = keys st"
  by (simp add: keys_def)

definition edit :: "u8 list \<Rightarrow> u8 \<Rightarrow> u8 list" where
  "edit s c = (if c = 0x08 \<and> s \<noteq> [] then butlast s else s @ [c])"

text \<open>
  The line, the keys that made it and the keys that are left; \<open>n\<close> is the greatest length. \<open>None\<close> says that the keys run
  out before the line ends.
\<close>

fun edit_line :: "nat \<Rightarrow> u8 list \<Rightarrow> u8 list \<Rightarrow> (u8 list \<times> u8 list \<times> u8 list) option" where
  "edit_line n s ks =
     (if length s < n
      then case ks of [] \<Rightarrow> None
        | k # ks' \<Rightarrow> if k = 0x0D then Some (s, [], ks')
            else (case edit_line n (edit s k) ks' of None \<Rightarrow> None
                  | Some (line, used, left) \<Rightarrow> Some (line, k # used, left))
      else Some (s, [], ks))"

declare edit_line.simps [simp del]

lemma getkeyblock_none: "keys st = [] \<Longrightarrow> getkeyblock st = Inl Hang"
proof (induction st rule: getkeyblock.induct)
  case (1 st)
  show ?case
  proof (cases "key_answers st")
    case Nil
    then show ?thesis by (subst getkeyblock.simps) (simp add: bimbleos_getkey_def)
  next
    case (Cons v vs)
    then have v: "v = 0" using 1(2) by (auto simp: keys_def split: if_splits)
    then have "bimbleos_getkey st = Inr (0, st\<lparr>key_answers := vs\<rparr>)" using Cons by (simp add: bimbleos_getkey_def)
    moreover from this have "getkeyblock (st\<lparr>key_answers := vs\<rparr>) = Inl Hang"
      using 1 Cons v by (auto simp: keys_def)
    ultimately show ?thesis by (subst getkeyblock.simps) simp
  qed
qed

lemma getkeyblock_some:
  "keys st = k # ks \<Longrightarrow> \<exists>v r. getkeyblock st = Inr (v, st\<lparr>key_answers := r\<rparr>) \<and> word_of_int v = k \<and> keys (st\<lparr>key_answers := r\<rparr>) = ks"
proof (induction st rule: getkeyblock.induct)
  case (1 st)
  obtain v vs where a: "key_answers st = v # vs" using 1(2) by (cases "key_answers st") (auto simp: keys_def)
  then have g: "bimbleos_getkey st = Inr (v, st\<lparr>key_answers := vs\<rparr>)" by (simp add: bimbleos_getkey_def)
  show ?case
  proof (cases "v = 0")
    case True
    then have "keys (st\<lparr>key_answers := vs\<rparr>) = k # ks" using 1(2) a by (simp add: keys_def)
    then have "\<exists>v' r. getkeyblock (st\<lparr>key_answers := vs\<rparr>) = Inr (v', st\<lparr>key_answers := r\<rparr>) \<and> word_of_int v' = k \<and>
        keys (st\<lparr>key_answers := r\<rparr>) = ks" using 1(1) [OF g refl True] by simp
    moreover have "getkeyblock st = getkeyblock (st\<lparr>key_answers := vs\<rparr>)"
      using g True by (subst getkeyblock.simps) simp
    ultimately show ?thesis by simp
  next
    case False
    then have "getkeyblock st = Inr (v, st\<lparr>key_answers := vs\<rparr>)" using g by (subst getkeyblock.simps) simp
    then show ?thesis using 1(2) a False by (auto simp: keys_def)
  qed
qed

lemma size_index:
  assumes "length s < unat mx"
  shows "unat (of_nat (length s) :: u32) = length s"
    and "(of_nat (length s) :: u32) < mx - 1 \<longleftrightarrow> length s < unat mx - 1"
proof -
  have "length s < 2 ^ 32" using assms unsigned_less [where ?'a = nat, of mx] by simp
  then show u: "unat (of_nat (length s) :: u32) = length s" by simp
  have "mx \<noteq> 0" using assms by auto
  then have "unat (mx - 1) = unat mx - 1" by (simp add: unat_minus_one)
  then show "(of_nat (length s) :: u32) < mx - 1 \<longleftrightarrow> length s < unat mx - 1"
    unfolding word_less_nat_alt u by simp
qed

text \<open>One key that does not end the line.\<close>

lemma readline_step:
  assumes s: "take (length s) out = s" and less: "length s < unat mx - 1" and mx: "unat mx \<le> length out"
    and key: "getkeyblock st = Inr (v, st1)" "word_of_int v = k" "k \<noteq> 0x0D"
  shows "\<exists>out'. readline_loop st out (of_nat (length s)) mx echo =
      readline_loop (if echo then bimbleos_putchar st1 k else st1) out' (of_nat (length (edit s k))) mx echo \<and>
    take (length (edit s k)) out' = edit s k \<and> length (edit s k) < unat mx \<and> length out' = length out"
proof -
  let ?i = "of_nat (length s) :: u32"
  have i: "unat ?i = length s" "?i < mx - 1" using size_index [of s mx] less by simp_all
  have one: "1 \<le> ?i \<longleftrightarrow> s \<noteq> []" unfolding word_le_nat_alt i(1) by (cases s) auto
  have run: "readline_loop st out ?i mx echo =
      bindE (awrite out (length s) k) (\<lambda>out1.
        let st2 = (if echo then bimbleos_putchar st1 k else st1)
        in if k = 0x08 \<and> s \<noteq> []
           then bindE (awrite out1 (unat (?i - 1)) 0) (\<lambda>out2. readline_loop st2 out2 (?i - 2 + 1) mx echo)
           else readline_loop st2 out1 (?i + 1) mx echo)"
    using key(1,3) i unfolding key(2) [symmetric] by (subst readline_loop.simps) (simp add: one Let_def)
  have w: "awrite out (length s) k = Inr (out[length s := k])" using less mx by simp
  show ?thesis
  proof (cases "k = 0x08 \<and> s \<noteq> []")
    case True
    then obtain t c where t: "s = t @ [c]" by (cases s rule: rev_cases) auto
    have u: "unat (?i - 1) = length t" and i2: "?i - 2 + 1 = of_nat (length t)" using size_index(1) [of t mx] less t by simp_all
    have "length t < length (out[length s := k])" using less mx t by simp
    then have w2: "awrite (out[length s := k]) (length t) 0 = Inr (out[length s := k, length t := 0])" by simp
    have "readline_loop st out ?i mx echo = readline_loop (if echo then bimbleos_putchar st1 k else st1)
        (out[length s := k, length t := 0]) (of_nat (length t)) mx echo"
      unfolding run w bindE_Inr Let_def if_P [OF True] u w2 i2 ..
    moreover have "edit s k = t" using True t by (simp add: edit_def)
    moreover have "take (length t) out = t" using arg_cong [OF s, of "take (length t)"] t by simp
    moreover have "length t < unat mx" "length t \<le> length s" using less t by simp_all
    ultimately show ?thesis by (intro exI [of _ "out[length s := k, length t := 0]"]) simp
  next
    case False
    then have "edit s k = s @ [k]" by (auto simp: edit_def)
    moreover have "take (Suc (length s)) (out[length s := k]) = s @ [k]"
      using less mx s by (simp add: take_Suc_conv_app_nth)
    ultimately show ?thesis using False less mx
      by (intro exI [of _ "out[length s := k]"]) (auto simp: run w add.commute)
  qed
qed

lemma readline_full:
  assumes "take (length s) out = s" and "length s < unat mx" and "unat mx \<le> length out" and "\<not> length s < unat mx - 1"
  shows "case edit_line (unat mx - 1) s (keys st) of
      None \<Rightarrow> readline_loop st out (of_nat (length s)) mx echo = Inl Hang
    | Some (line, used, left) \<Rightarrow> \<exists>out' r. readline_loop st out (of_nat (length s)) mx echo =
          Inr (out', of_nat (length line), st\<lparr>screen := screen st @ (if echo then used else []), key_answers := r\<rparr>) \<and>
        take (length line) out' = line \<and> length line < unat mx \<and> length out' = length out \<and>
        keys (st\<lparr>key_answers := r\<rparr>) = left"
proof -
  have "edit_line (unat mx - 1) s (keys st) = Some (s, [], keys st)" using assms(4) by (subst edit_line.simps) simp
  moreover have "readline_loop st out (of_nat (length s)) mx echo = Inr (out, of_nat (length s), st)"
    using assms(4) size_index(2) [OF assms(2)] by (subst readline_loop.simps) simp
  moreover have "st = st\<lparr>screen := screen st @ (if echo then [] else []), key_answers := key_answers st\<rparr>" by simp
  ultimately show ?thesis using assms by (auto simp del: if_cancel intro!: exI [of _ "key_answers st"])
qed

lemma readline_loop_ok:
  assumes "take (length s) out = s" and "length s < unat mx" and "unat mx \<le> length out"
  shows "case edit_line (unat mx - 1) s (keys st) of
      None \<Rightarrow> readline_loop st out (of_nat (length s)) mx echo = Inl Hang
    | Some (line, used, left) \<Rightarrow> \<exists>out' r. readline_loop st out (of_nat (length s)) mx echo =
          Inr (out', of_nat (length line), st\<lparr>screen := screen st @ (if echo then used else []), key_answers := r\<rparr>) \<and>
        take (length line) out' = line \<and> length line < unat mx \<and> length out' = length out \<and>
        keys (st\<lparr>key_answers := r\<rparr>) = left"
  using assms
proof (induction "keys st" arbitrary: st out s)
  case Nil
  show ?case
  proof (cases "length s < unat mx - 1")
    case False
    then show ?thesis using readline_full [OF Nil.prems] by simp
  next
    case True
    then have "edit_line (unat mx - 1) s (keys st) = None" using Nil.hyps by (subst edit_line.simps) simp
    moreover have "readline_loop st out (of_nat (length s)) mx echo = Inl Hang"
      using True size_index(2) [OF Nil.prems(2)] getkeyblock_none [of st] Nil.hyps by (subst readline_loop.simps) simp
    ultimately show ?thesis by simp
  qed
next
  case (Cons k ks)
  let ?i = "of_nat (length s) :: u32"
  note l = size_index(2) [OF Cons.prems(2)]
  show ?case
  proof (cases "length s < unat mx - 1")
    case False
    then show ?thesis using readline_full [OF Cons.prems] by simp
  next
    case True
    obtain v r where v: "getkeyblock st = Inr (v, st\<lparr>key_answers := r\<rparr>)" "word_of_int v = k" "keys (st\<lparr>key_answers := r\<rparr>) = ks"
      using getkeyblock_some [of st k ks] Cons.hyps(2) by auto
    show ?thesis
    proof (cases "k = 0x0D")
      case k: True
      have "readline_loop st out ?i mx echo = Inr (out, ?i, st\<lparr>key_answers := r\<rparr>)"
        using v k l True by (subst readline_loop.simps) simp
      moreover have "edit_line (unat mx - 1) s (keys st) = Some (s, [], ks)"
        using True k unfolding Cons.hyps(2) [symmetric] by (subst edit_line.simps) simp
      ultimately show ?thesis using v(3) Cons.prems by auto
    next
      case False
      let ?st1 = "if echo then bimbleos_putchar (st\<lparr>key_answers := r\<rparr>) k else st\<lparr>key_answers := r\<rparr>"
      obtain out1 where o1: "readline_loop st out ?i mx echo = readline_loop ?st1 out1 (of_nat (length (edit s k))) mx echo"
        "take (length (edit s k)) out1 = edit s k" "length (edit s k) < unat mx" "length out1 = length out"
        using readline_step [OF Cons.prems(1) True Cons.prems(3) v(1,2) False] by blast
      have ks: "ks = keys ?st1" using v(3) by (simp add: bimbleos_putchar_def)
      have mx: "unat mx \<le> length out1" using o1(4) Cons.prems(3) by simp
      have el: "edit_line (unat mx - 1) s (keys st) = (case edit_line (unat mx - 1) (edit s k) ks of None \<Rightarrow> None
                  | Some (line, used, left) \<Rightarrow> Some (line, k # used, left))"
        using True False unfolding Cons.hyps(2) [symmetric] by (subst edit_line.simps) simp
      note IH = Cons.hyps(1) [OF ks o1(2,3) mx]
      show ?thesis
      proof (cases "edit_line (unat mx - 1) (edit s k) ks")
        case None
        then show ?thesis using IH el o1(1) ks by simp
      next
        case (Some x)
        obtain line used left where x: "x = (line, used, left)" by (cases x)
        obtain out' r' where R: "readline_loop ?st1 out1 (of_nat (length (edit s k))) mx echo =
            Inr (out', of_nat (length line), ?st1\<lparr>screen := screen ?st1 @ (if echo then used else []), key_answers := r'\<rparr>)"
          "take (length line) out' = line" "length line < unat mx" "length out' = length out1"
          "keys (?st1\<lparr>key_answers := r'\<rparr>) = left"
          using IH Some unfolding ks [symmetric] x by auto
        have "?st1\<lparr>screen := screen ?st1 @ (if echo then used else []), key_answers := r'\<rparr> =
            st\<lparr>screen := screen st @ (if echo then k # used else []), key_answers := r'\<rparr>"
          by (simp add: bimbleos_putchar_def)
        moreover have "keys (st\<lparr>key_answers := r'\<rparr>) = left" using R(5) by (simp add: keys_def)
        ultimately show ?thesis using R o1(1,4) el Some x by auto
      qed
    qed
  qed
qed

lemma readline_line:
  assumes el: "edit_line (unat mx - 1) [] (keys st) = Some (line, used, left)" and mx: "0 < unat mx" "unat mx \<le> length out"
  shows "\<exists>out' r. bimbleos_terminal_realine st out mx echo =
          Inr (out', st\<lparr>screen := screen st @ (if echo then used else []), key_answers := r\<rparr>) \<and>
        length line < unat mx \<and> take (length line + 1) out' = line @ [0] \<and> length out' = length out \<and>
        keys (st\<lparr>key_answers := r\<rparr>) = left"
proof -
  obtain out' r where R: "readline_loop st out 0 mx echo =
      Inr (out', of_nat (length line), st\<lparr>screen := screen st @ (if echo then used else []), key_answers := r\<rparr>)"
    "take (length line) out' = line" "length line < unat mx" "length out' = length out" "keys (st\<lparr>key_answers := r\<rparr>) = left"
    using readline_loop_ok [of "[]" out mx st echo] mx el by auto
  have "unat (of_nat (length line) :: u32) = length line" using size_index(1) [OF R(3)] .
  then have "bimbleos_terminal_realine st out mx echo =
      Inr (out'[length line := 0], st\<lparr>screen := screen st @ (if echo then used else []), key_answers := r\<rparr>)"
    using R mx by (simp add: bimbleos_terminal_realine_def)
  moreover have "take (length line + 1) (out'[length line := 0]) = line @ [0]"
    using R mx by (simp add: take_Suc_conv_app_nth)
  ultimately show ?thesis using R(3-5) by auto
qed

text \<open>
  C25: the line editor, against a fold over the keys. Polls without a key are skipped; a key is echoed and appended, a
  backspace takes the last character away, and the line ends at a carriage return or when it is as long as the array
  allows. The line is in the array with a zero behind it, inside the first \<open>max\<close> bytes; without such an end the loop waits
  for ever.
\<close>

theorem readline_edits:
  assumes "0 < unat mx" and "unat mx \<le> length out"
  shows "case edit_line (unat mx - 1) [] (keys st) of
      None \<Rightarrow> bimbleos_terminal_realine st out mx echo = Inl Hang
    | Some (line, used, left) \<Rightarrow> \<exists>out' r. bimbleos_terminal_realine st out mx echo =
          Inr (out', st\<lparr>screen := screen st @ (if echo then used else []), key_answers := r\<rparr>) \<and>
        length line < unat mx \<and> take (length line + 1) out' = line @ [0] \<and> length out' = length out \<and>
        keys (st\<lparr>key_answers := r\<rparr>) = left"
proof (cases "edit_line (unat mx - 1) [] (keys st)")
  case None
  then show ?thesis using readline_loop_ok [of "[]" out mx st echo] assms by (simp add: bimbleos_terminal_realine_def)
next
  case (Some x)
  obtain line used left where x: "x = (line, used, left)" by (cases x)
  show ?thesis using readline_line [OF Some [unfolded x] assms] unfolding Some x by simp
qed

definition demo_keys :: user_state where
  "demo_keys = \<lparr>objs = (\<lambda>_. None), sp = None, itoa_text = replicate 12 0, nodes = (\<lambda>_. None), screen = [],
     key_answers = [0, 0x61, 0x62, 0, 0x08, 0x63, 0x0D, 0x64], heap_answers = []\<rparr>"

theorem readline_edits_witness:
  "\<exists>out' st'. bimbleos_terminal_realine demo_keys (replicate 8 1) 8 True = Inr (out', st') \<and>
     take 3 out' = [0x61, 0x63, 0] \<and> screen st' = [0x61, 0x62, 0x08, 0x63] \<and> keys st' = [0x64]"
proof -
  have "edit_line 7 [] (keys demo_keys) = Some ([0x61, 0x63], [0x61, 0x62, 0x08, 0x63], [0x64])"
    by (simp add: keys_def demo_keys_def edit_line.simps edit_def)
  moreover have "screen demo_keys = []" by (simp add: demo_keys_def)
  ultimately show ?thesis
    using readline_edits [of 8 "replicate 8 1" demo_keys True] by (auto simp: keys_def numeral_3_eq_3)
qed

section \<open>printf\<close>

text \<open>
  What a format and its arguments print: \<^verbatim>\<open>%i\<close> the number, \<^verbatim>\<open>%s\<close> the string as far as the kernel prints it, another character
  behind \<^verbatim>\<open>%\<close> nothing. There is no answer when the arguments do not fit the format, or when it ends in \<^verbatim>\<open>%\<close>.
\<close>

fun render :: "u8 list \<Rightarrow> va_arg list \<Rightarrow> u8 list option" where
  "render [] ap = Some []"
| "render [c] ap = (if c = 0x25 then None else Some [c])"
| "render (c # d # cs) ap =
     (if c \<noteq> 0x25 then map_option ((#) c) (render (d # cs) ap)
      else if d = 0x69
      then (case ap of VInt i # ap' \<Rightarrow> map_option ((@) (decimal i)) (render cs ap') | _ \<Rightarrow> None)
      else if d = 0x73
      then (case ap of VStr s # ap' \<Rightarrow> map_option ((@) (take 1023 (cstr s))) (render cs ap') | _ \<Rightarrow> None)
      else render cs ap)"

text \<open>An argument as the caller may pass it: an \<^verbatim>\<open>int\<close>, or a string that ends.\<close>

fun arg_ok :: "va_arg \<Rightarrow> bool" where
  "arg_ok (VInt i) \<longleftrightarrow> - (2 ^ 31) \<le> i \<and> i < 2 ^ 31"
| "arg_ok (VStr s) \<longleftrightarrow> terminated s"

lemma print_int_ok:
  assumes "length (itoa_text st) = 12" and "- (2 ^ 31) \<le> i" and "i < 2 ^ 31"
  shows "\<exists>t. print_int st i = Inr (st\<lparr>itoa_text := t, screen := screen st @ decimal i\<rparr>) \<and> length t = 12"
proof -
  obtain t where t: "itoa (itoa_text st) i = Inr (t, int (11 - length (decimal i)))" "length t = 12"
    "drop (11 - length (decimal i)) t = decimal i @ [0]" "length (decimal i) \<le> 11" using itoa_ok [OF assms] by blast
  have "strlen (decimal i @ [0]) = Inr (length (decimal i))"
    using strlen_terminated [of "decimal i @ [0]"] cstr_append [OF decimal_nonzero, of i "[]"] by (simp add: terminated_def)
  then have "print_int st i = Inr (st\<lparr>itoa_text := t, screen := screen st @ take (min (length (decimal i)) 1023) (decimal i @ [0])\<rparr>)"
    unfolding print_int_def t(1) bindE_Inr prod.case nat_int t(3) sys_print_def by simp
  then show ?thesis using t(2,4) by auto
qed

lemma sys_print_ok: "terminated s \<Longrightarrow> sys_print st s = Inr (st\<lparr>screen := screen st @ take 1023 (cstr s)\<rparr>)"
proof -
  assume s: "terminated s"
  have "take (length (cstr s)) s = cstr s" unfolding cstr_def by (rule takeWhile_eq_take [symmetric])
  then have "take (min (length (cstr s)) 1023) s = take 1023 (cstr s)" by (metis take_take min.commute)
  then show ?thesis by (simp add: sys_print_def strlen_terminated [OF s])
qed

lemma printf_loop_ok:
  assumes "0 \<notin> set f" and "render f ap = Some s" and "\<forall>a\<in>set ap. arg_ok a" and "length (itoa_text st) = 12"
  shows "\<exists>t. printf_loop st (pre @ f @ 0 # rest) (length pre) ap = Inr (st\<lparr>screen := screen st @ s, itoa_text := t\<rparr>) \<and> length t = 12"
  using assms
proof (induction f ap arbitrary: st pre s rule: render.induct)
  case (1 ap)
  then show ?case by (subst printf_loop.simps) (auto intro!: exI [of _ "itoa_text st"])
next
  case (2 c ap)
  then have "printf_loop st (pre @ [c] @ 0 # rest) (length pre) ap = Inr (bimbleos_putchar st c)"
    by (subst printf_loop.simps, simp, subst printf_loop.simps) (auto simp: putchar_def nth_append split: if_splits)
  then show ?case using 2 by (auto simp: bimbleos_putchar_def split: if_splits intro!: exI [of _ "itoa_text st"])
next
  case (3 c d cs ap)
  let ?fmt = "pre @ (c # d # cs) @ 0 # rest" and ?p = "length pre"
  have c: "aread ?fmt ?p = Inr c" and d: "aread ?fmt (?p + 1) = Inr d" by (simp_all add: nth_append)
  have c0: "c \<noteq> 0" using "3.prems"(1) by auto
  have cs0: "0 \<notin> set cs" using "3.prems"(1) by simp
  have later: "printf_loop st' ?fmt (?p + 2) ap' = printf_loop st' ((pre @ [c, d]) @ cs @ 0 # rest) (length (pre @ [c, d])) ap'"
    for st' ap' by simp
  note len = "3.prems"(4)
  consider (plain) "c \<noteq> 0x25" | (int) "c = 0x25" "d = 0x69" | (str) "c = 0x25" "d = 0x73" | (other) "c = 0x25" "d \<noteq> 0x69" "d \<noteq> 0x73"
    by blast
  then show ?case
  proof cases
    case plain
    then obtain s' where s': "render (d # cs) ap = Some s'" "s = c # s'" using "3.prems"(2) by auto
    have "printf_loop st ?fmt ?p ap =
        printf_loop (bimbleos_putchar st c) ((pre @ [c]) @ (d # cs) @ 0 # rest) (length (pre @ [c])) ap"
      using plain c0 by (subst printf_loop.simps) (simp add: putchar_def)
    moreover obtain t where "printf_loop (bimbleos_putchar st c) ((pre @ [c]) @ (d # cs) @ 0 # rest) (length (pre @ [c])) ap =
        Inr (bimbleos_putchar st c\<lparr>screen := screen (bimbleos_putchar st c) @ s', itoa_text := t\<rparr>)" "length t = 12"
      using "3.IH"(1) [OF plain _ s'(1) "3.prems"(3), of "bimbleos_putchar st c" "pre @ [c]"] "3.prems"(1) len
      by (auto simp: bimbleos_putchar_def)
    ultimately show ?thesis unfolding s'(2) by (auto simp: bimbleos_putchar_def)
  next
    case int
    then obtain i ap' s' where i: "ap = VInt i # ap'" "render cs ap' = Some s'" "s = decimal i @ s'"
      using "3.prems"(2) by (auto split: list.splits va_arg.splits)
    obtain t where t: "print_int st i = Inr (st\<lparr>itoa_text := t, screen := screen st @ decimal i\<rparr>)" "length t = 12"
      using print_int_ok [OF len] "3.prems"(3) i(1) by auto
    let ?st1 = "st\<lparr>itoa_text := t, screen := screen st @ decimal i\<rparr>"
    have "printf_loop st ?fmt ?p ap = printf_loop ?st1 ?fmt (?p + 2) ap'"
      using int c d t i(1) by (subst printf_loop.simps) simp
    moreover have "\<exists>t'. printf_loop ?st1 ?fmt (?p + 2) ap' = Inr (?st1\<lparr>screen := screen ?st1 @ s', itoa_text := t'\<rparr>) \<and> length t' = 12"
      unfolding later using "3.IH"(2) [OF _ _ i(1) refl cs0 i(2), of ?st1 "pre @ [c, d]"] int "3.prems"(3) i(1) t(2) by auto
    ultimately show ?thesis using i(3) by auto
  next
    case str
    then obtain v ap' s' where i: "ap = VStr v # ap'" "render cs ap' = Some s'" "s = take 1023 (cstr v) @ s'"
      using "3.prems"(2) by (auto split: list.splits va_arg.splits)
    let ?st1 = "st\<lparr>screen := screen st @ take 1023 (cstr v)\<rparr>"
    have "terminated v" using "3.prems"(3) i(1) by simp
    then have "printf_loop st ?fmt ?p ap = printf_loop ?st1 ?fmt (?p + 2) ap'"
      using str c d i(1) sys_print_ok [of v st] by (subst printf_loop.simps) simp
    moreover have "\<exists>t'. printf_loop ?st1 ?fmt (?p + 2) ap' = Inr (?st1\<lparr>screen := screen ?st1 @ s', itoa_text := t'\<rparr>) \<and> length t' = 12"
      unfolding later using "3.IH"(3) [OF _ _ _ i(1) refl cs0 i(2), of ?st1 "pre @ [c, d]"] str "3.prems"(3) i(1) len by auto
    ultimately show ?thesis using i(3) by auto
  next
    case other
    then have "printf_loop st ?fmt ?p ap = printf_loop st ?fmt (?p + 2) ap"
      using c d by (subst printf_loop.simps) simp
    then show ?thesis
      unfolding later using "3.IH"(4) [OF _ other(2,3) cs0 _ "3.prems"(3), of s st "pre @ [c, d]"] other "3.prems"(2) len by auto
  qed
qed

text \<open>
  C26: \<^verbatim>\<open>printf\<close> prints what its format and arguments say, for every format that does not end in \<^verbatim>\<open>%\<close> and all arguments that
  fit it, numbers of any size and sign included; its buffer for the numbers keeps its 12 bytes.
\<close>

theorem printf_renders:
  assumes "terminated fmt" and "render (cstr fmt) ap = Some s" and "\<forall>a\<in>set ap. arg_ok a" and "length (itoa_text st) = 12"
  shows "\<exists>t. printf st fmt ap = Inr (0, st\<lparr>screen := screen st @ s, itoa_text := t\<rparr>) \<and> length t = 12"
proof -
  obtain z rest where z: "dropWhile (\<lambda>c. c \<noteq> 0) fmt = z # rest"
    using assms(1) by (cases "dropWhile (\<lambda>c. c \<noteq> 0) fmt") (auto simp: terminated_def dropWhile_eq_Nil_conv)
  then have "z = 0" using hd_dropWhile [of "\<lambda>c. c \<noteq> 0" fmt] by simp
  then have "fmt = [] @ cstr fmt @ 0 # rest" using z takeWhile_dropWhile_id [of "\<lambda>c. c \<noteq> 0" fmt] by (simp add: cstr_def)
  then show ?thesis
    using printf_loop_ok [OF cstr_no_zero assms(2-4), of "[]" rest] by (auto simp: printf_def)
qed

text \<open>The format \<^verbatim>\<open>"%i:%s"\<close> with -42 and \<^verbatim>\<open>"ok"\<close>.\<close>

theorem printf_renders_witness:
  "\<exists>st'. printf demo_keys [0x25, 0x69, 0x3A, 0x25, 0x73, 0] [VInt (- 42), VStr [0x6F, 0x6B, 0]] = Inr (0, st') \<and>
     screen st' = [0x2D, 0x34, 0x32, 0x3A, 0x6F, 0x6B]"
proof -
  have "render (cstr [0x25, 0x69, 0x3A, 0x25, 0x73, 0]) [VInt (- 42), VStr [0x6F, 0x6B, 0]] = Some [0x2D, 0x34, 0x32, 0x3A, 0x6F, 0x6B]"
    by (simp add: decimal_def digits.simps)
  then show ?thesis
    using printf_renders [of "[0x25, 0x69, 0x3A, 0x25, 0x73, 0]" "[VInt (- 42), VStr [0x6F, 0x6B, 0]]" _ demo_keys]
    by (auto simp: demo_keys_def)
qed

lemma printf_trailing_percent: "printf st [0x25, 0] ap = Inl OutOfBounds"
  by (simp add: printf_def, subst printf_loop.simps, simp, subst printf_loop.simps, simp)

end
