(* ===== verification/CommandLine.thy ===== *)
theory CommandLine
  imports UserLib
begin

text \<open>
  The command line of the shell: \<^verbatim>\<open>strtok\<close> called again and again returns the words of a string, and the parser of the
  commands makes of them the list of arguments that the kernel receives.
\<close>

section \<open>The words of a string\<close>

function words :: "u8 list \<Rightarrow> u8 list \<Rightarrow> u8 list list" where
  "words ds s =
     (let t = dropWhile (\<lambda>c. c \<in> set ds) s
      in if t = [] then [] else takeWhile (\<lambda>c. c \<notin> set ds) t # words ds (tl (dropWhile (\<lambda>c. c \<notin> set ds) t)))"
  by pat_completeness auto
termination
proof (relation "measure (\<lambda>(ds, s). length s)", simp)
  fix ds s t :: "u8 list"
  assume t: "t = dropWhile (\<lambda>c. c \<in> set ds) s" and "t \<noteq> []"
  have "length (dropWhile (\<lambda>c. c \<notin> set ds) t) \<le> length t" "length t \<le> length s"
    unfolding t by (rule length_dropWhile_le)+
  with \<open>t \<noteq> []\<close> show "((ds, tl (dropWhile (\<lambda>c. c \<notin> set ds) t)), (ds, s)) \<in> measure (\<lambda>(ds, s). length s)"
    by (cases t) auto
qed

declare words.simps [simp del]

lemma words_none: "dropWhile (\<lambda>c. c \<in> set ds) s = [] \<Longrightarrow> words ds s = []"
  by (simp add: words.simps)

lemma words_some:
  "dropWhile (\<lambda>c. c \<in> set ds) s = t \<Longrightarrow> t \<noteq> [] \<Longrightarrow>
     words ds s = takeWhile (\<lambda>c. c \<notin> set ds) t # words ds (tl (dropWhile (\<lambda>c. c \<notin> set ds) t))"
  by (subst words.simps) simp

section \<open>strtok\<close>

lemma match_index_full: "match_index c ds = length ds \<longleftrightarrow> c \<notin> set ds"
  by (induction ds) auto

lemma match_index_less: "match_index c ds < length ds \<longleftrightarrow> c \<in> set ds"
  by (induction ds) auto

lemma skip_delims_ok:
  "0 \<notin> set ds \<Longrightarrow> 0 \<notin> set s \<Longrightarrow>
     skip_delims (pre @ s @ 0 # rest) ds (length pre) = Inr (length pre + length (takeWhile (\<lambda>c. c \<in> set ds) s))"
proof (induction s arbitrary: pre)
  case Nil
  then show ?case by (subst skip_delims.simps) (simp add: match_index_full)
next
  case (Cons c s)
  have "skip_delims (pre @ (c # s) @ 0 # rest) ds (Suc (length pre)) =
      Inr (Suc (length pre) + length (takeWhile (\<lambda>c. c \<in> set ds) s))"
    using Cons.IH [of "pre @ [c]"] Cons.prems by simp
  then show ?case by (subst skip_delims.simps) (simp add: match_index_full)
qed

lemma token_end_ok:
  "0 \<notin> set ds \<Longrightarrow> 0 \<notin> set s \<Longrightarrow>
     token_end (pre @ s @ 0 # rest) ds (length pre) =
       (let w = takeWhile (\<lambda>c. c \<notin> set ds) s
        in case dropWhile (\<lambda>c. c \<notin> set ds) s of
             [] \<Rightarrow> Inr (pre @ s @ 0 # rest, length pre + length s)
           | d # r \<Rightarrow> Inr (pre @ w @ 0 # r @ 0 # rest, length pre + length w + 1))"
proof (induction s arbitrary: pre)
  case Nil
  then show ?case by (subst token_end.simps) simp
next
  case (Cons c s)
  show ?case
  proof (cases "c \<in> set ds")
    case True
    then show ?thesis using Cons.prems by (subst token_end.simps) (auto simp: match_index_less)
  next
    case False
    then have "token_end (pre @ (c # s) @ 0 # rest) ds (length pre) =
        token_end ((pre @ [c]) @ s @ 0 # rest) ds (length (pre @ [c]))"
      using Cons.prems by (subst token_end.simps) (auto simp: match_index_less)
    also have "\<dots> = (let w = takeWhile (\<lambda>c. c \<notin> set ds) s
        in case dropWhile (\<lambda>c. c \<notin> set ds) s of
             [] \<Rightarrow> Inr ((pre @ [c]) @ s @ 0 # rest, length (pre @ [c]) + length s)
           | d # r \<Rightarrow> Inr ((pre @ [c]) @ w @ 0 # r @ 0 # rest, length (pre @ [c]) + length w + 1))"
      using Cons.prems by (intro Cons.IH) auto
    finally show ?thesis using False by (cases "dropWhile (\<lambda>c. c \<notin> set ds) s") (simp_all add: Let_def del: dropWhile_eq_Nil_conv)
  qed
qed

text \<open>A terminated string that begins at an offset, split at the offset and at its end.\<close>

lemma split_string:
  assumes "terminated (drop p buf)"
  obtains pre rest where "buf = pre @ cstr (drop p buf) @ 0 # rest" and "length pre = p"
proof -
  have "drop p buf = cstr (drop p buf) @ dropWhile (\<lambda>c. c \<noteq> 0) (drop p buf)" by (simp add: cstr_def)
  moreover have "dropWhile (\<lambda>c. c \<noteq> 0) (drop p buf) \<noteq> []"
    using assms by (auto simp: terminated_def dropWhile_eq_Nil_conv)
  then obtain z rest where z: "dropWhile (\<lambda>c. c \<noteq> 0) (drop p buf) = z # rest" "z = 0"
    using hd_dropWhile [of "\<lambda>c. c \<noteq> 0" "drop p buf"] by (cases "dropWhile (\<lambda>c. c \<noteq> 0) (drop p buf)") auto
  moreover have "p < length buf" using assms by (rule_tac ccontr) simp
  ultimately show thesis using that [of "take p buf" rest] append_take_drop_id [of p buf] by auto
qed

lemma strtok_step:
  assumes ptr: "(if sp st = None then str else sp st) = Some (obj, p)" and buf: "objs st obj = Some buf"
    and trm: "terminated (drop p buf)" and ds: "terminated ds"
  shows "case words (cstr ds) (cstr (drop p buf)) of
      [] \<Rightarrow> strtok st str ds = Inr (None, st\<lparr>sp := None\<rparr>)
    | w # ws \<Rightarrow> \<exists>p' q buf'. strtok st str ds = Inr (Some (obj, p'), st\<lparr>objs := (objs st)(obj \<mapsto> buf'), sp := Some (obj, q)\<rparr>) \<and>
        terminated (drop p' buf') \<and> cstr (drop p' buf') = w \<and> terminated (drop q buf') \<and>
        words (cstr ds) (cstr (drop q buf')) = ws"
proof -
  let ?D = "cstr ds" and ?s = "cstr (drop p buf)"
  let ?sk = "takeWhile (\<lambda>c. c \<in> set ?D) ?s" and ?t = "dropWhile (\<lambda>c. c \<in> set ?D) ?s"
  obtain pre rest where split: "buf = pre @ ?s @ 0 # rest" "length pre = p" using split_string [OF trm] .
  have D0: "0 \<notin> set ?D" and s0: "0 \<notin> set ?s" by (rule cstr_no_zero)+
  then have t0: "0 \<notin> set ?t" by (metis set_dropWhileD)
  have take_D: "take (length ?D) ds = ?D"
    unfolding cstr_def by (metis takeWhile_eq_take)
  let ?pre = "pre @ ?sk"
  have bt: "buf = ?pre @ ?t @ 0 # rest" using split(1) by (metis append.assoc takeWhile_dropWhile_id)
  have skip: "skip_delims buf ?D p = Inr (length ?pre)"
    using skip_delims_ok [OF D0 s0, of pre rest] split by (metis length_append)
  have run: "strtok st str ds = bindE (aread buf (length ?pre)) (\<lambda>c.
      if c = 0 then Inr (None, st\<lparr>sp := None\<rparr>)
      else bindE (token_end buf ?D (length ?pre)) (\<lambda>(buf, q).
        Inr (Some (obj, length ?pre), st\<lparr>objs := (objs st)(obj \<mapsto> buf), sp := Some (obj, q)\<rparr>)))"
    unfolding strtok_def strlen_terminated [OF ds] bindE_Inr ptr option.case prod.case buf take_D skip ..
  show ?thesis
  proof (cases "?t = []")
    case True
    have "aread buf (length ?pre) = Inr 0" using bt True by (metis aread_in append_Nil nth_append_length length_append
          length_Cons less_add_same_cancel1 zero_less_Suc)
    then show ?thesis using words_none [OF True] run by simp
  next
    case False
    let ?w = "takeWhile (\<lambda>c. c \<notin> set ?D) ?t" and ?r = "dropWhile (\<lambda>c. c \<notin> set ?D) ?t"
    obtain c t' where ct: "?t = c # t'" using False by (cases ?t) auto
    have w0: "0 \<notin> set ?w" and r0: "0 \<notin> set ?r" using t0 by (metis set_takeWhileD, metis set_dropWhileD)
    have "aread buf (length ?pre) = Inr c" using bt ct by (metis aread_in append_Cons nth_append_length length_append
          length_Cons less_add_same_cancel1 zero_less_Suc)
    moreover have "c \<noteq> 0" using t0 ct by auto
    ultimately have run': "strtok st str ds = bindE (token_end buf ?D (length ?pre)) (\<lambda>(buf, q).
        Inr (Some (obj, length ?pre), st\<lparr>objs := (objs st)(obj \<mapsto> buf), sp := Some (obj, q)\<rparr>))" using run by simp
    have te: "token_end buf ?D (length ?pre) = (case ?r of
             [] \<Rightarrow> Inr (?pre @ ?t @ 0 # rest, length ?pre + length ?t)
           | d # r \<Rightarrow> Inr (?pre @ ?w @ 0 # r @ 0 # rest, length ?pre + length ?w + 1))"
      using token_end_ok [OF D0 t0, of ?pre rest] unfolding Let_def bt [symmetric] .
    show ?thesis
    proof (cases ?r)
      case Nil
      let ?b = "?pre @ ?t @ 0 # rest" and ?q = "length ?pre + length ?t"
      have st: "strtok st str ds = Inr (Some (obj, length ?pre), st\<lparr>objs := (objs st)(obj \<mapsto> ?b), sp := Some (obj, ?q)\<rparr>)"
        unfolding run' te Nil list.case bindE_Inr prod.case ..
      have q: "drop ?q ?b = 0 # rest" and p': "drop (length ?pre) ?b = ?t @ 0 # rest" by simp_all
      have wt: "?w = ?t" using Nil by (metis append_Nil2 takeWhile_dropWhile_id)
      have "terminated (drop (length ?pre) ?b)" "cstr (drop (length ?pre) ?b) = ?w"
        unfolding p' wt terminated_def by (simp, rule cstr_append [OF t0])
      moreover have "terminated (drop ?q ?b)" "words ?D (cstr (drop ?q ?b)) = words ?D (tl ?r)"
        unfolding q Nil by simp_all
      ultimately show ?thesis unfolding words_some [OF refl False] list.case by - (intro exI conjI, rule st, assumption+)
    next
      case (Cons d r)
      let ?b = "?pre @ ?w @ 0 # r @ 0 # rest" and ?q = "length ?pre + length ?w + 1"
      have st: "strtok st str ds = Inr (Some (obj, length ?pre), st\<lparr>objs := (objs st)(obj \<mapsto> ?b), sp := Some (obj, ?q)\<rparr>)"
        unfolding run' te Cons list.case bindE_Inr prod.case ..
      have q: "drop ?q ?b = r @ 0 # rest" and p': "drop (length ?pre) ?b = ?w @ 0 # r @ 0 # rest" by simp_all
      have "0 \<notin> set r" using r0 Cons by auto
      then have "terminated (drop (length ?pre) ?b)" "cstr (drop (length ?pre) ?b) = ?w"
        "terminated (drop ?q ?b)" "words ?D (cstr (drop ?q ?b)) = words ?D (tl ?r)"
        unfolding p' q Cons using cstr_append [OF w0] cstr_append [of r] by (simp_all add: terminated_def)
      then show ?thesis unfolding words_some [OF refl False] list.case by - (intro exI conjI, rule st, assumption+)
    qed
  qed
qed

section \<open>The parser\<close>

abbreviation blank :: "u8 list" where
  "blank \<equiv> [0x20]"

text \<open>
  A token together with what \<^verbatim>\<open>strtok\<close> keeps for the next one, when the words that are left, the token among them, are
  \<open>ws\<close>. \<open>same_mem\<close> says that a state has the screen, the keys and the buffer of \<^verbatim>\<open>itoa\<close> of another.
\<close>

definition pending :: "user_state \<Rightarrow> nat \<Rightarrow> (nat \<times> nat) option \<Rightarrow> u8 list list \<Rightarrow> bool" where
  "pending st obj tok ws \<longleftrightarrow>
     (case ws of [] \<Rightarrow> tok = None \<and> sp st = None
      | w # ws' \<Rightarrow> \<exists>p q buf. tok = Some (obj, p) \<and> sp st = Some (obj, q) \<and> objs st obj = Some buf \<and>
          terminated (drop p buf) \<and> cstr (drop p buf) = w \<and> terminated (drop q buf) \<and>
          words blank (cstr (drop q buf)) = ws')"

definition same_io :: "user_state \<Rightarrow> user_state \<Rightarrow> bool" where
  "same_io st st' \<longleftrightarrow> screen st' = screen st \<and> key_answers st' = key_answers st \<and> itoa_text st' = itoa_text st"

definition same_objs :: "nat \<Rightarrow> user_state \<Rightarrow> user_state \<Rightarrow> bool" where
  "same_objs obj st st' \<longleftrightarrow> (\<forall>o'. o' \<noteq> obj \<longrightarrow> objs st' o' = objs st o')"

lemma same_io_refl [simp]: "same_io st st" and same_objs_refl [simp]: "same_objs obj st st"
  by (simp_all add: same_io_def same_objs_def)

lemma same_io_trans: "same_io st st1 \<Longrightarrow> same_io st1 st2 \<Longrightarrow> same_io st st2"
  by (simp add: same_io_def)

lemma same_objs_trans: "same_objs obj st st1 \<Longrightarrow> same_objs obj st1 st2 \<Longrightarrow> same_objs obj st st2"
  by (simp add: same_objs_def)

text \<open>One call of \<^verbatim>\<open>strtok\<close> with the blank as the delimiter.\<close>

lemma strtok_pending:
  assumes "(if sp st = None then str else sp st) = Some (obj, p)" and "objs st obj = Some buf"
    and "terminated (drop p buf)"
  shows "\<exists>tok st'. strtok st str [0x20, 0] = Inr (tok, st') \<and> pending st' obj tok (words blank (cstr (drop p buf))) \<and>
    same_io st st' \<and> same_objs obj st st' \<and> nodes st' = nodes st \<and> heap_answers st' = heap_answers st"
proof (cases "words blank (cstr (drop p buf))")
  case Nil
  then show ?thesis using strtok_step [OF assms, of "[0x20, 0]"]
    by (simp add: pending_def same_io_def same_objs_def)
next
  case (Cons w ws)
  then show ?thesis using strtok_step [OF assms, of "[0x20, 0]"]
    by (fastforce simp: pending_def same_io_def same_objs_def)
qed

text \<open>A command argument holds at most 511 bytes of its word.\<close>

definition node_of :: "u8 list \<Rightarrow> nat \<Rightarrow> CommandArgument" where
  "node_of w nx = \<lparr>cmd_argument = take 511 w @ replicate (512 - min 511 (length w)) 0, cmd_next = nx\<rparr>"

lemma fill_node_ok:
  assumes "pending st obj (Some t) (w # ws)"
  shows "fill_node st a t = Inr (st\<lparr>nodes := (nodes st)(a \<mapsto> node_of w 0)\<rparr>)"
proof -
  obtain p buf where p: "t = (obj, p)" "objs st obj = Some buf" "terminated (drop p buf)" "cstr (drop p buf) = w"
    using assms by (auto simp: pending_def)
  have "strncpy (replicate 512 0) (drop p buf) 512 = Inr (take 511 w @ 0 # drop (Suc (min 511 (length w))) (replicate 512 0))"
    unfolding strncpy_def using strncpy_loop_ok [OF p(3), of 511 "replicate 512 0"] p(4) by simp
  moreover have "512 - min 511 n = Suc (512 - Suc (min 511 n))" for n by simp
  then have "0 # replicate (512 - Suc (min 511 (length w))) (0 :: u8) = replicate (512 - min 511 (length w)) 0"
    by (simp del: min_def flip: replicate_Suc)
  ultimately show ?thesis using p by (simp add: fill_node_def string_at_def node_of_def)
qed

text \<open>The list of arguments from an address on: each node at its address, and null behind the last.\<close>

primrec arg_chain :: "(nat \<rightharpoonup> CommandArgument) \<Rightarrow> nat \<Rightarrow> (nat \<times> u8 list) list \<Rightarrow> bool" where
  "arg_chain ns a [] \<longleftrightarrow> a = 0"
| "arg_chain ns a (x # xs) \<longleftrightarrow> a = fst x \<and> (\<exists>nx. ns a = Some (node_of (snd x) nx) \<and> arg_chain ns nx xs)"

lemma pending_cong: "sp st' = sp st \<Longrightarrow> objs st' = objs st \<Longrightarrow> pending st' obj tok ws = pending st obj tok ws"
  by (cases ws) (simp_all add: pending_def)

lemma strtok_next:
  assumes "pending st obj tok (w # ws)"
  shows "\<exists>tok' st'. strtok st None [0x20, 0] = Inr (tok', st') \<and> pending st' obj tok' ws \<and>
    same_io st st' \<and> same_objs obj st st' \<and> nodes st' = nodes st \<and> heap_answers st' = heap_answers st"
proof -
  obtain q buf where "sp st = Some (obj, q)" "objs st obj = Some buf" "terminated (drop q buf)"
    "words blank (cstr (drop q buf)) = ws" using assms by (auto simp: pending_def)
  then show ?thesis using strtok_pending [of st None obj q buf] by simp
qed

lemma parse_loop_ok:
  assumes "pending st obj tok ws" and "nodes st cur = Some (node_of w0 0)" and "heap_answers st = as @ rest"
    and "length as = length ws" and "distinct (cur # as)" and "0 \<notin> set as"
  shows "\<exists>st'. parse_loop st cur tok = Inr st' \<and> arg_chain (nodes st') cur (zip (cur # as) (w0 # ws)) \<and>
    (\<forall>x. x \<notin> set (cur # as) \<longrightarrow> nodes st' x = nodes st x) \<and> sp st' = None \<and> heap_answers st' = rest \<and>
    same_io st st' \<and> same_objs obj st st'"
  using assms
proof (induction ws arbitrary: st cur w0 as tok)
  case Nil
  then have "tok = None" "sp st = None" by (simp_all add: pending_def)
  then show ?case using Nil by (subst parse_loop.simps) auto
next
  case (Cons w ws)
  obtain a as' where as: "as = a # as'" using Cons.prems(4) by (cases as) auto
  obtain t where t: "tok = Some t" using Cons.prems(1) by (auto simp: pending_def)
  let ?st1 = "st\<lparr>heap_answers := as' @ rest\<rparr>"
  let ?st2 = "?st1\<lparr>nodes := (nodes st)(a \<mapsto> node_of w 0)\<rparr>"
  let ?st3 = "?st1\<lparr>nodes := (nodes st)(a \<mapsto> node_of w 0, cur \<mapsto> node_of w0 a)\<rparr>"
  have a: "a \<noteq> 0" "a \<noteq> cur" "cur \<notin> set (a # as')" "distinct (a # as')" "0 \<notin> set as'" using Cons.prems(5,6) as by auto
  have m: "malloc st = (a, ?st1)" using Cons.prems(3) as by (simp add: malloc_def bimbleos_malloc_def)
  have "pending ?st1 obj (Some t) (w # ws)" using Cons.prems(1) t pending_cong [of ?st1 st] by simp
  then have f: "fill_node ?st1 a t = Inr ?st2" using fill_node_ok by simp
  have n: "set_next ?st2 cur a = Inr ?st3"
    using Cons.prems(2) a by (simp add: set_next_def node_of_def)
  have "pending ?st3 obj tok (w # ws)" using Cons.prems(1) pending_cong [of ?st3 st] by simp
  then obtain tok' st4 where st4: "strtok ?st3 None [0x20, 0] = Inr (tok', st4)" "pending st4 obj tok' ws"
    "same_io ?st3 st4" "same_objs obj ?st3 st4" "nodes st4 = nodes ?st3" "heap_answers st4 = heap_answers ?st3"
    using strtok_next by blast
  have run: "parse_loop st cur tok = parse_loop st4 a tok'"
    unfolding t by (subst parse_loop.simps) (simp add: m f n st4(1) a(1))
  have "nodes st4 a = Some (node_of w 0)" using a(2) st4(5) by simp
  then obtain st' where st': "parse_loop st4 a tok' = Inr st'" "arg_chain (nodes st') a (zip (a # as') (w # ws))"
    "\<forall>x. x \<notin> set (a # as') \<longrightarrow> nodes st' x = nodes st4 x" "sp st' = None" "heap_answers st' = rest"
    "same_io st4 st'" "same_objs obj st4 st'"
    using Cons.IH [of st4 tok' a w as'] st4(2,6) a(4,5) Cons.prems(4) as by auto
  have "nodes st' cur = Some (node_of w0 a)" using st'(3) a(3) st4(5) by simp
  then have "arg_chain (nodes st') cur (zip (cur # as) (w0 # w # ws))" using st'(2) as by simp
  moreover have "\<forall>x. x \<notin> set (cur # as) \<longrightarrow> nodes st' x = nodes st x" using st'(3) st4(5) as by simp
  moreover have "same_io st st'" using st4(3) st'(6) by (simp add: same_io_def)
  moreover have "same_objs obj st st'" using st4(4) st'(7) by (simp add: same_objs_def)
  ultimately show ?case using st'(1,4,5) unfolding run by blast
qed

text \<open>The parser called when \<^verbatim>\<open>strtok\<close> has nothing left of an earlier string, or still has a position in the frame.\<close>

lemma parse_from:
  assumes sp: "sp st = None \<and> p = 0 \<or> sp st = Some (frame, p)" and mx: "mx < 1025" and old: "length old = 1025"
    and cmd: "terminated command" and trm: "terminated (drop p scommand)" and sc: "strncpy old command 1025 = Inr scommand"
    and ws: "ws = words blank (cstr (drop p scommand))"
    and as: "heap_answers st = as @ rest" "length as = length ws" "distinct as" "0 \<notin> set as"
  shows "\<exists>root st'. bimbleos_parse_command st frame old command mx = Inr (root, st') \<and> arg_chain (nodes st') root (zip as ws) \<and>
    (\<forall>x. x \<notin> set as \<longrightarrow> nodes st' x = nodes st x) \<and> sp st' = None \<and> heap_answers st' = rest \<and> same_io st st' \<and>
    objs st' = (objs st)(frame := None)"
proof -
  let ?st0 = "st\<lparr>objs := (objs st)(frame \<mapsto> scommand)\<rparr>"
  have ptr: "(if sp ?st0 = None then Some (frame, 0) else sp ?st0) = Some (frame, p)" using sp by auto
  obtain tok st1 where st1: "strtok ?st0 (Some (frame, 0)) [0x20, 0] = Inr (tok, st1)" "pending st1 frame tok ws"
    "same_io ?st0 st1" "same_objs frame ?st0 st1" "nodes st1 = nodes ?st0" "heap_answers st1 = heap_answers ?st0"
    using strtok_pending [OF ptr _ trm] ws by auto
  have start: "bimbleos_parse_command st frame old command mx =
      bindE (case tok of None \<Rightarrow> Inr (0, st1)
               | Some t \<Rightarrow>
                   (let (root_command, st2) = malloc st1
                    in if root_command = 0 then Inr (0, st2)
                       else bindE (fill_node st2 root_command t) (\<lambda>st3.
                            bindE (strtok st3 None [0x20, 0]) (\<lambda>(token, st4).
                            bindE (parse_loop st4 root_command token) (\<lambda>st5. Inr (root_command, st5))))))
          (\<lambda>(root, st6). Inr (root, st6\<lparr>objs := (objs st6)(frame := None)\<rparr>))"
    using mx unfolding bimbleos_parse_command_def by (simp add: sc st1(1))
  have obj: "(objs st')(frame := None) = (objs st)(frame := None)" if "same_objs frame st1 st'" for st'
    using that st1(4) by (auto simp: same_objs_def fun_eq_iff)
  show ?thesis
  proof (cases ws)
    case Nil
    then have "tok = None" "sp st1 = None" "as = []" using st1(2) as(2) by (simp_all add: pending_def)
    then show ?thesis using Nil start st1 as obj [of st1] by (simp add: same_io_def)
  next
    case (Cons w ws')
    obtain a as' where as': "as = a # as'" using as(2) Cons by (cases as) auto
    obtain t where t: "tok = Some t" using st1(2) Cons by (auto simp: pending_def)
    let ?st2 = "st1\<lparr>heap_answers := as' @ rest\<rparr>"
    let ?st3 = "?st2\<lparr>nodes := (nodes st)(a \<mapsto> node_of w 0)\<rparr>"
    have m: "malloc st1 = (a, ?st2)" using as(1) st1(6) as' by (simp add: malloc_def bimbleos_malloc_def)
    have "pending ?st2 frame (Some t) (w # ws')" using st1(2) t Cons pending_cong [of ?st2 st1] by simp
    then have f: "fill_node ?st2 a t = Inr ?st3" using fill_node_ok st1(5) by simp
    have "pending ?st3 frame tok (w # ws')" using st1(2) Cons pending_cong [of ?st3 st1] by simp
    then obtain tok' st4 where st4: "strtok ?st3 None [0x20, 0] = Inr (tok', st4)" "pending st4 frame tok' ws'"
      "same_io ?st3 st4" "same_objs frame ?st3 st4" "nodes st4 = nodes ?st3" "heap_answers st4 = heap_answers ?st3"
      using strtok_next by blast
    have "nodes st4 a = Some (node_of w 0)" using st4(5) by simp
    then obtain st' where st': "parse_loop st4 a tok' = Inr st'" "arg_chain (nodes st') a (zip (a # as') (w # ws'))"
      "\<forall>x. x \<notin> set (a # as') \<longrightarrow> nodes st' x = nodes st4 x" "sp st' = None" "heap_answers st' = rest"
      "same_io st4 st'" "same_objs frame st4 st'"
      using parse_loop_ok [of st4 frame tok' ws' a w as' rest] st4(2,6) as as' Cons by auto
    have run: "bimbleos_parse_command st frame old command mx = Inr (a, st'\<lparr>objs := (objs st')(frame := None)\<rparr>)"
      unfolding start t using as(4) as' by (simp add: m f st4(1) st'(1))
    have "same_objs frame st1 st'" using st4(4) st'(7) by (simp add: same_objs_def)
    then have "(objs st')(frame := None) = (objs st)(frame := None)" by (rule obj)
    moreover have "same_io st st'" using st1(3) st4(3) st'(6) by (simp add: same_io_def)
    moreover have "\<forall>x. x \<notin> set as \<longrightarrow> nodes st' x = nodes st x" using st'(3) st4(5) as' by simp
    ultimately show ?thesis
      using st'(2,4,5) unfolding Cons as' by - (intro exI conjI, rule run, simp_all add: same_io_def)
  qed
qed

lemma scommand_ok:
  assumes "terminated command" and "length old = 1025"
  shows "\<exists>rest. strncpy old command 1025 = Inr (take 1024 (cstr command) @ 0 # rest)"
  using strncpy_loop_ok [OF assms(1), of 1024 old] assms(2) unfolding strncpy_def by auto

lemma take_cstr_no_zero: "0 \<notin> set (take n (cstr bs))"
  using cstr_no_zero set_take_subset by fast

text \<open>
  C23: the parser gives the kernel the words of the command. For a command of any length, with no position kept from an
  earlier call, it allocates one argument for each word of the first 1024 bytes, in the order of the words, each with the
  first 511 bytes of its word and zeros behind, linked to the next, and null behind the last; it touches no other node, leaves
  \<^verbatim>\<open>strtok\<close> without a position, and the array of its frame is gone when it returns.
\<close>

theorem parse_command_words:
  assumes "sp st = None" and "mx < 1025" and "length old = 1025" and "terminated command"
    and "ws = words [0x20] (take 1024 (cstr command))"
    and "heap_answers st = as @ rest" and "length as = length ws" and "distinct as" and "0 \<notin> set as"
  shows "\<exists>root st'. bimbleos_parse_command st frame old command mx = Inr (root, st') \<and> arg_chain (nodes st') root (zip as ws) \<and>
    (\<forall>x. x \<notin> set as \<longrightarrow> nodes st' x = nodes st x) \<and> sp st' = None \<and> heap_answers st' = rest \<and> same_io st st' \<and>
    objs st' = (objs st)(frame := None)"
proof -
  obtain r where r: "strncpy old command 1025 = Inr (take 1024 (cstr command) @ 0 # r)" using scommand_ok [OF assms(4,3)] ..
  show ?thesis
  proof (rule parse_from [OF _ assms(2-4) _ r])
    show "sp st = None \<and> 0 = (0 :: nat) \<or> sp st = Some (frame, 0)" using assms(1) by simp
    show "terminated (drop 0 (take 1024 (cstr command) @ 0 # r))" by (simp add: terminated_def)
    show "ws = words [0x20] (cstr (drop 0 (take 1024 (cstr command) @ 0 # r)))"
      using assms(5) cstr_append [OF take_cstr_no_zero] by simp
  qed (use assms in simp_all)
qed

text \<open>
  a position that an earlier call left in \<^verbatim>\<open>strtok\<close> is not given up for the new string. When \<^verbatim>\<open>malloc\<close> fails in the
  middle of a command, the parser stops with the position behind the word at hand; the next command is then parsed from
  that offset on, and the words before it are lost.
\<close>

theorem parse_command_stale:
  assumes "sp st = Some (frame, p)" and "mx < 1025" and "length old = 1025" and "terminated command"
    and "p \<le> length (take 1024 (cstr command))" and "ws = words [0x20] (drop p (take 1024 (cstr command)))"
    and "heap_answers st = as @ rest" and "length as = length ws" and "distinct as" and "0 \<notin> set as"
  shows "\<exists>root st'. bimbleos_parse_command st frame old command mx = Inr (root, st') \<and> arg_chain (nodes st') root (zip as ws) \<and>
    sp st' = None"
proof -
  let ?c = "take 1024 (cstr command)"
  obtain r where r: "strncpy old command 1025 = Inr (?c @ 0 # r)" using scommand_ok [OF assms(4,3)] ..
  have d: "drop p (?c @ 0 # r) = drop p ?c @ 0 # r" using assms(5) by simp
  have "0 \<notin> set (drop p ?c)" using take_cstr_no_zero set_drop_subset by fast
  then have "cstr (drop p (?c @ 0 # r)) = drop p ?c" unfolding d by (rule cstr_append)
  moreover have "terminated (drop p (?c @ 0 # r))" unfolding d by (simp add: terminated_def)
  ultimately show ?thesis
    using parse_from [of st p frame mx old command "?c @ 0 # r" ws as rest] assms r by (auto simp del: take_append drop_append)
qed

text \<open>How the position comes to stay.\<close>

lemma malloc_failure_keeps_position:
  assumes "pending st obj (Some t) (w # ws)" and "heap_answers st = 0 # rest"
  shows "parse_loop st cur (Some t) = Inr (st\<lparr>heap_answers := rest\<rparr>)"
    and "sp (st\<lparr>heap_answers := rest\<rparr>) \<noteq> None"
proof -
  show "parse_loop st cur (Some t) = Inr (st\<lparr>heap_answers := rest\<rparr>)"
    using assms by (subst parse_loop.simps) (simp add: malloc_def bimbleos_malloc_def)
  show "sp (st\<lparr>heap_answers := rest\<rparr>) \<noteq> None" using assms by (auto simp: pending_def)
qed

text \<open>A command that is longer than the parser takes is refused before anything happens.\<close>

lemma parse_command_refused: "1025 \<le> mx \<Longrightarrow> bimbleos_parse_command st frame old command mx = Inr (0, st)"
  by (simp add: bimbleos_parse_command_def)

definition demo_user :: user_state where
  "demo_user = \<lparr>objs = (\<lambda>_. None), sp = None, itoa_text = replicate 12 0, nodes = (\<lambda>_. None), screen = [], key_answers = [],
     heap_answers = [7, 9, 11]\<rparr>"

text \<open>The command \<^verbatim>\<open>" ab c"\<close>.\<close>

abbreviation demo_command :: "u8 list" where
  "demo_command \<equiv> [0x20, 0x61, 0x62, 0x20, 0x63, 0]"

lemma demo_words: "words [0x20] [0x20, 0x61, 0x62, 0x20, 0x63] = [[0x61, 0x62], [0x63]]"
  "words [0x20] [0x20, 0x63] = [[0x63]]"
  by (simp_all add: words.simps)

theorem parse_command_words_witness:
  "\<exists>root st'. bimbleos_parse_command demo_user 1 (replicate 1025 0) demo_command 1024 = Inr (root, st') \<and>
     arg_chain (nodes st') root [(7, [0x61, 0x62]), (9, [0x63])] \<and> heap_answers st' = [11]"
proof -
  have "\<exists>root st'. bimbleos_parse_command demo_user 1 (replicate 1025 0) demo_command 1024 = Inr (root, st') \<and>
      arg_chain (nodes st') root (zip [7, 9] [[0x61, 0x62], [0x63]]) \<and>
      (\<forall>x. x \<notin> set [7, 9] \<longrightarrow> nodes st' x = nodes demo_user x) \<and> sp st' = None \<and> heap_answers st' = [11] \<and>
      same_io demo_user st' \<and> objs st' = (objs demo_user)(1 := None)"
    by (rule parse_command_words) (simp_all add: demo_words, simp_all add: demo_user_def)
  then show ?thesis by auto
qed

theorem parse_command_stale_witness:
  "\<exists>root st'. bimbleos_parse_command (demo_user\<lparr>sp := Some (1, 3)\<rparr>) 1 (replicate 1025 0) demo_command 1024 = Inr (root, st') \<and>
     arg_chain (nodes st') root [(7, [0x63])]"
proof -
  have "\<exists>root st'. bimbleos_parse_command (demo_user\<lparr>sp := Some (1, 3)\<rparr>) 1 (replicate 1025 0) demo_command 1024 = Inr (root, st') \<and>
      arg_chain (nodes st') root (zip [7] [[0x63]]) \<and> sp st' = None"
    by (rule parse_command_stale [where p = 3 and rest = "[9, 11]"]) (simp_all add: demo_words, simp_all add: demo_user_def)
  then show ?thesis by auto
qed

end
