(* ===== verification/ShellRun.thy ===== *)
theory ShellRun
  imports UserProps CommandLine
begin

text \<open>
  A round of the shell put together: the line editor, the parser of the command and the output.
\<close>

lemma printf_char:
  assumes "c \<noteq> 0" and "c \<noteq> 0x25" and "length (itoa_text st) = 12"
  shows "\<exists>t. printf st [c, 0] [] = Inr (0, st\<lparr>screen := screen st @ [c], itoa_text := t\<rparr>) \<and> length t = 12"
  by (rule printf_loop_ok [of "[c]" "[]" "[c]" st "[]" "[]", THEN exE])
    (use assms in \<open>auto simp: printf_def\<close>)

lemma system_run_ok:
  assumes buff: "terminated buff" "cstr buff = line" "length line < 1024" and old: "length old_buf = 1024" "length old = 1025"
    and sp: "sp st = None" and ws: "ws = words [0x20] line"
    and as: "heap_answers st = as @ rest" "length as = length ws" "distinct as" "0 \<notin> set as"
  shows "\<exists>root st'. bimbleos_system_run system st frame old_buf old buff =
      (if root = 0 then Inr (- 1, st') else system root st') \<and> arg_chain (nodes st') root (zip as ws) \<and>
    sp st' = None \<and> heap_answers st' = rest \<and> same_io st st' \<and> objs st' = (objs st)(frame := None)"
proof -
  have "take 1023 (cstr buff) = line" using buff by simp
  moreover have "min 1023 (length (cstr buff)) < length old_buf" using old(1) by simp
  ultimately obtain r where r: "strncpy old_buf buff 1024 = Inr (line @ 0 # r)"
    using strncpy_loop_ok [OF buff(1), of 1023 old_buf] unfolding strncpy_def by simp
  have l0: "0 \<notin> set line" using cstr_no_zero buff(2) by blast
  have c: "cstr (line @ 0 # q) = line" "terminated (line @ 0 # q)" for q
    using cstr_append [OF l0] by (simp_all add: terminated_def)
  obtain q where "strncpy old (line @ 0 # r) 1025 = Inr (take 1024 line @ 0 # q)"
    using scommand_ok [OF c(2) old(2), of r] unfolding c(1) by blast
  then have q: "strncpy old (line @ 0 # r) 1025 = Inr (line @ 0 # q)" using buff(3) by simp
  have z: "sp st = None \<and> 0 = (0 :: nat) \<or> sp st = Some (frame, 0)" "(1024 :: int) < 1025" using sp by simp_all
  have d: "terminated (drop 0 (line @ 0 # q))" "ws = words [0x20] (cstr (drop 0 (line @ 0 # q)))"
    unfolding drop_0 c(1) using c(2) ws by simp_all
  obtain root st' where R: "bimbleos_parse_command st frame old (line @ 0 # r) 1024 = Inr (root, st')"
    "arg_chain (nodes st') root (zip as ws)" "sp st' = None" "heap_answers st' = rest" "same_io st st'"
    "objs st' = (objs st)(frame := None)"
    using parse_from [OF z old(2) c(2) d(1) q d(2) as] by blast
  have "bimbleos_system_run system st frame old_buf old buff = (if root = 0 then Inr (- 1, st') else system root st')"
    unfolding bimbleos_system_run_def r bindE_Inr R(1) prod.case ..
  then show ?thesis using R(2-6) by blast
qed

text \<open>
  C20: a round of the shell runs the command that was typed. It prints the prompt, echoes the keys up to the carriage return
  (or until the line is full) and a line feed, hands the kernel exactly the words of the edited line as the list of arguments,
  and prints a line feed after what the command leaves; nothing is run when the line has no word.
\<close>

theorem shell_round_runs:
  assumes "edit_line 1023 [] (keys st) = Some (line, used, left)" and "0 \<notin> set line" and "ws = words [0x20] line"
    and "length (itoa_text st) = 12" and "sp st = None"
    and "length buff = 1024" and "length old_buf = 1024" and "length old = 1025"
    and "heap_answers st = as @ rest" and "length as = length ws" and "distinct as" and "0 \<notin> set as"
  shows "\<exists>root st'. shell_round system frame old_buf old buff st =
      bindE (if root = 0 then Inr (- 1, st') else system root st') (\<lambda>(_, st4).
      bindE (printf st4 [0x0A, 0] []) (\<lambda>(_, st5). Inr st5)) \<and>
    arg_chain (nodes st') root (zip as ws) \<and> screen st' = screen st @ [0x3E] @ used @ [0x0A] \<and> keys st' = left \<and>
    sp st' = None \<and> heap_answers st' = rest"
proof -
  obtain t where t: "printf st [0x3E, 0] [] = Inr (0, st\<lparr>screen := screen st @ [0x3E], itoa_text := t\<rparr>)" "length t = 12"
    using printf_char [of "0x3E" st] assms(4) by auto
  let ?st1 = "st\<lparr>screen := screen st @ [0x3E], itoa_text := t\<rparr>"
  have "keys ?st1 = keys st" by (simp add: keys_def)
  then have el: "edit_line (unat (1024 :: u32) - 1) [] (keys ?st1) = Some (line, used, left)" using assms(1) by simp
  obtain buff' r where rl: "bimbleos_terminal_realine ?st1 buff 1024 True =
      Inr (buff', ?st1\<lparr>screen := screen ?st1 @ used, key_answers := r\<rparr>)"
    "length line < 1024" "take (length line + 1) buff' = line @ [0]" "keys (?st1\<lparr>key_answers := r\<rparr>) = left"
    using readline_line [OF el, of buff True] assms(6) by auto
  let ?st2 = "?st1\<lparr>screen := screen ?st1 @ used, key_answers := r\<rparr>" let ?st3 = "?st2\<lparr>screen := screen ?st2 @ [0x0A]\<rparr>"
  have p: "sys_print ?st2 [0x0A, 0] = Inr ?st3" by (simp add: sys_print_ok)
  have "buff' = line @ 0 # drop (length line + 1) buff'"
    using rl(3) append_take_drop_id [of "length line + 1" buff'] by simp
  then have "cstr buff' = line" "terminated buff'" using cstr_append [OF assms(2)] by (metis, metis terminated_def in_set_conv_decomp)
  then obtain root st' where R: "bimbleos_system_run system ?st3 frame old_buf old buff' =
      (if root = 0 then Inr (- 1, st') else system root st')" "arg_chain (nodes st') root (zip as ws)"
    "sp st' = None" "heap_answers st' = rest" "same_io ?st3 st'"
    using system_run_ok [of buff' line old_buf old ?st3 ws as rest system frame] rl(2) assms by auto
  have "shell_round system frame old_buf old buff st =
      bindE (if root = 0 then Inr (- 1, st') else system root st') (\<lambda>(_, st4).
      bindE (printf st4 [0x0A, 0] []) (\<lambda>(_, st5). Inr st5))"
    unfolding shell_round_def t(1) bindE_Inr prod.case rl(1) p R(1) ..
  moreover have "screen st' = screen st @ [0x3E] @ used @ [0x0A]" using R(5) by (simp add: same_io_def)
  moreover have "keys st' = left" using R(5) rl(4) by (simp add: same_io_def keys_def)
  ultimately show ?thesis using R(2-4) by blast
qed

text \<open>The keys a, b, backspace, c and return.\<close>

theorem shell_round_runs_witness:
  "\<exists>root st'. shell_round (\<lambda>_ st. Inr (0, st)) 1 (replicate 1024 0) (replicate 1025 0) (replicate 1024 0)
       (demo_keys\<lparr>heap_answers := [7]\<rparr>) =
     bindE (if root = 0 then Inr (- 1, st') else Inr (0, st')) (\<lambda>(_, st4).
     bindE (printf st4 [0x0A, 0] []) (\<lambda>(_, st5). Inr st5)) \<and>
     arg_chain (nodes st') root [(7, [0x61, 0x63])] \<and> screen st' = [0x3E, 0x61, 0x62, 0x08, 0x63, 0x0A]"
proof -
  let ?st = "demo_keys\<lparr>heap_answers := [7]\<rparr>"
  have line: "edit_line 1023 [] (keys ?st) = Some ([0x61, 0x63], [0x61, 0x62, 0x08, 0x63], [0x64])"
    by (simp add: keys_def demo_keys_def edit_line.simps edit_def)
  have ws: "[[0x61, 0x63]] = words [0x20] [0x61, 0x63 :: u8]" by (simp add: words.simps)
  have "length (itoa_text ?st) = 12" "sp ?st = None" "heap_answers ?st = [7] @ []" "screen ?st = []"
    by (simp_all add: demo_keys_def)
  then show ?thesis
    using shell_round_runs [OF line _ ws, of "replicate 1024 0" "replicate 1024 0" "replicate 1025 0" "[7]" "[]" "\<lambda>_ st. Inr (0, st)" 1]
    by auto
qed

end
