(* ===== verification/Spec2Isabelle.thy ===== *)
theory Spec2Isabelle
  imports Bimble_Prelude CString KHeap KMem Paging DiskStream PathParser Fat16 VFile ElfLoader Terminal
    TaskList Processes ProcessMem ProgramMap ProcessLoad ProgramStart Isolation HeapBound ProcessEnd Gdt Idt KeyboardDrv Isr80h
    UserCopy ProgramCall ProgramLife Interrupts KernelMain UserMemory UserLib UserProps CommandLine ShellRun
begin

text \<open>
  A verification development for BimbleOS, a 32-bit x86 kernel. The sources are under \<^verbatim>\<open>src/\<close> of the
  repository; all file names below are relative to that directory.

  How the program is put together. \<^verbatim>\<open>kernel_main\<close> creates the kernel heap, the file layer, finds the disk, and
  builds the kernel's page directory. The heap (\<^verbatim>\<open>memory/heap\<close>) hands out 4096-byte blocks of a fixed range of
  memory, tracked in a table of one byte per block; everything else allocates from it. Paging
  (\<^verbatim>\<open>memory/paging\<close>) builds two-level page tables in such blocks. The disk driver (\<^verbatim>\<open>disk/disk.c\<close>) reads
  sectors through I/O ports; the streamer (\<^verbatim>\<open>disk/streamer.c\<close>) makes them a byte stream. The FAT16 driver
  (\<^verbatim>\<open>fs/fat\<close>) decodes the disk through three such streams, and the file layer (\<^verbatim>\<open>fs/file.c\<close>) gives files by path
  (parsed by \<^verbatim>\<open>fs/pparser.c\<close>) and descriptor number, over any filesystem that supplies its record of operations.
  A program is loaded by the ELF loader (\<^verbatim>\<open>loader/format/elfloader.c\<close>) into a process (\<^verbatim>\<open>task/process.c\<close>) with a task
  (\<^verbatim>\<open>task/task.c\<close>): its own page directory and saved registers, in the linked list the scheduler walks. The processor enters
  the kernel through the gates of \<^verbatim>\<open>idt/idt.c\<close>: the clock switches to the next task, the keyboard
  (\<^verbatim>\<open>keyboard/*.c\<close>) puts a character into the ring of the current process, an exception ends the process, and gate
  0x80 is a system call (\<^verbatim>\<open>isr80h/*.c\<close>). The terminal in \<^verbatim>\<open>kernel.c\<close> writes to the video memory.

  The model. State is explicit: the record \<open>machine\<close> (the kernel heap and the bytes of physical memory) is
  extended by each component with its own variables: \<open>paging_state\<close>, \<open>disk_state\<close>, \<open>fat_state\<close>, \<open>vfs_state\<close>, \<open>kernel_state\<close>, \<open>task_state\<close>,
  \<open>os_state\<close>. An
  operation takes the state and returns it changed. Whatever a C function can do instead of returning (undefined
  behaviour such as an access out of bounds or through a null pointer, a division by zero, a panic, an endless loop)
  is a value of \<open>fault\<close>, so that a theorem that a function returns \<open>Inr\<close> says that it neither faults nor hangs;
  error codes are the negative numbers of the source. All operations are total: loops are recursive functions with a
  termination proof, and no operation of these theories needs fuel, but for the poll of the disk's status register,
  which is a \<open>partial_function\<close> and is proved to end on a device that keeps the ATA contract, and for \<^verbatim>\<open>strlen\<close> and
  \<^verbatim>\<open>strcpy\<close> of the user library on raw memory, for which it is shown exactly when they return. Unsigned 32-bit arithmetic
  is \<open>32 word\<close>; C \<open>int\<close> values are \<open>int\<close>, stored through \<open>c_int\<close> where they may leave 32 bits.
\<close>

text \<open>
  The theories, in the order of their imports.

  \<open>Bimble_Prelude\<close>: machine types, faults, checked array access, the constants of \<^verbatim>\<open>config.h\<close> and \<^verbatim>\<open>status.h\<close>.
  \<open>CString\<close>: \<^verbatim>\<open>string/string.c\<close> and \<^verbatim>\<open>memory/memory.c\<close> over byte lists.
  \<open>KHeap\<close>: \<^verbatim>\<open>memory/heap/heap.c\<close>. The abstract view is the map of live allocations from first block to length;
  allocation is first fit, freeing removes one entry, and the two are inverse. The locale \<open>block_allocator\<close> is what
  clients use.
  \<open>KMem\<close>: \<^verbatim>\<open>memory/heap/kheap.c\<close> and the bytes of memory; the locale \<open>word_memory\<close> gives the laws of 32-bit loads and
  stores.
  \<open>Paging\<close>: \<^verbatim>\<open>memory/paging/paging.c\<close>. The abstract view is the translation from virtual to physical addresses;
  mapping a range changes it on exactly that range.
  \<open>DiskStream\<close>: \<^verbatim>\<open>disk/disk.c\<close>, \<^verbatim>\<open>disk/streamer.c\<close>. The ATA device is a parameter with its documented protocol as
  hypothesis (\<open>ata_device\<close>); a stream read refines the flat byte array of the disk (locale \<open>byte_stream\<close>).
  \<open>PathParser\<close>: \<^verbatim>\<open>fs/pparser.c\<close>, against the reference \<open>path_parts\<close>.
  \<open>Fat16\<close>: \<^verbatim>\<open>fs/fat/fat16.c\<close>, \<^verbatim>\<open>fs/fat/fat16.h\<close>, against the flat disk: mounting, names, opening, reading, closing, and
  the places where the code leaves the format. The clusters of a file are \<open>fat_path\<close>, the path of the entries of the FAT; the code
  looks for the entry of a cluster in another place, and the clusters it comes to are \<open>driver_chain\<close>. The two agree within the first
  cluster, and beyond it where \<open>lookup_right\<close> holds; that is a hypothesis of the properties that speak of the bytes of a file, while
  loading a program (\<open>file_on_disk\<close>) speaks of the bytes the driver finds and \<open>file_on_disk_path\<close> gives the connection.
  \<open>VFile\<close>: \<^verbatim>\<open>fs/file.c\<close>, \<^verbatim>\<open>fs/file.h\<close>, over the locale \<open>filesystem_contract\<close>, interpreted on the FAT16 driver; the
  file layer as a state machine with its invariant, and opening, reading and closing a file by path down to the bytes
  of the disk.
  \<open>ElfLoader\<close>: \<^verbatim>\<open>loader/format/elfloader.c\<close>, \<^verbatim>\<open>elf.h\<close>, with headers decoded from the bytes in memory: which files are
  accepted, the bounds of the loadable segments, and loading as a refinement of reading the file.
  \<open>Terminal\<close>: the terminal of \<^verbatim>\<open>kernel.c\<close>, as one cursor over the cells of the screen.
  \<open>TaskList\<close>: \<^verbatim>\<open>task/task.c\<close> and the data of \<^verbatim>\<open>task/process.h\<close>. The abstract view of the linked list is the list of its
  tasks, \<open>task_queue\<close> both ways and \<open>run_queue\<close> along the \<^verbatim>\<open>next\<close> pointers only; \<open>scheduler_inv\<close> adds the pages each task
  owns. User memory is reached through the processor's page walk, \<open>vtranslate\<close>.
  \<open>Processes\<close>, \<open>ProcessMem\<close>, \<open>ProcessEnd\<close>: \<^verbatim>\<open>task/process.c\<close>; the memory a process allocates, as pages it owns and the
  translation of its directory; its end, and the walk over a list of arguments in user memory. \<open>ProgramMap\<close>: the address
  space of a program, from the headers of its file to what the processor reads under the directory of its task.
  \<open>ProcessLoad\<close> and \<open>ProgramStart\<close>: \<^verbatim>\<open>process_load_for_slot\<close> from end to end, from a file of the disk to a task the
  scheduler runs and the bytes of the file in its address space; every operation on the way is shown to keep the live
  blocks of memory (\<open>mem_kept\<close>), and with them the invariants of the tasks that are already there.
  \<open>Isolation\<close>: what the stores of a loaded program can reach (\<open>user_store\<close> is the processor's check of the entries the kernel
  wrote): its image and its stack. The segments have to end, with their bss, in the last block of the file
  (\<open>segments_in_image\<close>), because the loader does not extend the image for a bss; without it a program can write to what follows.
  \<open>HeapBound\<close>: first fit keeps the live blocks below a bound that grows by what is taken.
  \<open>Gdt\<close>: \<^verbatim>\<open>gdt/gdt.c\<close>, \<^verbatim>\<open>task/tss.h\<close>, against the processor's decoding of a descriptor.
  \<open>Idt\<close>: the tables of \<^verbatim>\<open>idt/idt.c\<close>. \<open>KeyboardDrv\<close>: \<^verbatim>\<open>keyboard/keyboard.c\<close>, \<^verbatim>\<open>keyboard/classic.c\<close>; the locale
  \<open>byte_queue\<close> is interpreted on the ring of a process.
  \<open>Isr80h\<close>: the system calls; \<open>Interrupts\<close>: the handlers of \<^verbatim>\<open>idt/idt.c\<close>, and the properties of the parts together: the
  round robin of the tasks, and the way of a key from the interrupt to the program. A handler either comes back or
  leaves the kernel with the registers user code continues with (\<open>kernel_exit\<close>).
  \<open>UserCopy\<close>: the copy of a string out of user memory, through a page mapped into the directory of the task for the
  time of the copy (\<open>user_task\<close> is what it needs and leaves true), up to the system call that prints. \<open>ProgramCall\<close>: the
  system call that starts a program, from the pointer on the user's stack through the path, the disk, the process and its task to
  the first instruction, and what happens when the name is too long.
  \<open>ProgramLife\<close>: a program that runs: its stores and its calls of \<^verbatim>\<open>malloc\<close> and \<^verbatim>\<open>free\<close> as the steps of a relation
  (\<open>program_step\<close>), with the invariant \<open>program_life\<close> that it reaches its own pages and no others; \<^verbatim>\<open>malloc\<close> is a step where the
  size is neither 0 nor within 4096 bytes of 2^32, the heap has room and the table of allocations a free entry; \<^verbatim>\<open>free\<close> is a
  step for every pointer. The call that hands a program its arguments is no step of the relation: \<open>arguments_call_escapes\<close> shows that
  it writes to pages of others. The calls that print reach past the video memory when the screen is full (\<open>Terminal\<close>).
  \<open>KernelMain\<close>: \<^verbatim>\<open>kernel_main\<close>; its initialisation leaves the invariants of all the components true together.
  \<open>UserMemory\<close>: \<^verbatim>\<open>programs/stdlib/src/memory.c\<close> and \<^verbatim>\<open>string.c\<close> on the memory of the program, overlapping objects and
  missing terminators included, as a refinement of the list versions of \<open>CString\<close>.
  \<open>UserLib\<close>: the library of the programs and the two programs, \<^verbatim>\<open>programs/stdlib/src/*.c\<close>, \<^verbatim>\<open>programs/shell\<close> and
  \<^verbatim>\<open>programs/blank\<close>. \<open>UserProps\<close>: numbers in decimal, the line editor as a fold over the keys, \<^verbatim>\<open>printf\<close> against \<open>render\<close>.
  \<open>CommandLine\<close>: \<^verbatim>\<open>strtok\<close> and the command parser against \<open>words\<close>. \<open>ShellRun\<close>: a round of the shell from the keys to
  the list of arguments the kernel receives. A program sees the kernel through its system calls, which are assembly: their
  answers (the keys, the memory) are lists in the program's state, the characters it prints are collected there, and the call
  that starts a program is a parameter.

  Bounds. The walk of a user's argument list is given 2^32 steps, one for every address there is: a longer walk has met an
  address twice and never ends (\<open>count_arguments\<close> then answers \<open>Hang\<close>). The endless loops of the two programs are cut off
  after any given number of rounds, and a program that asks for a key that never comes has the answer \<open>Hang\<close>. Everything else is bounded by the code itself.

  Not modelled: the assembly files (\<^verbatim>\<open>boot\<close>, \<^verbatim>\<open>kernel.asm\<close>, \<^verbatim>\<open>io.asm\<close>, \<^verbatim>\<open>paging.asm\<close>, \<^verbatim>\<open>task.asm\<close> and others) except
  as the effect their C prototypes promise (a port access, a change of the page directory); interrupts arriving inside a
  kernel function (the kernel runs with interrupts off); the memory of the objects behind C pointers other than page
  tables and blocks, which are values kept beside their addresses; the segment registers and the acknowledgement of
  interrupts at the controller's port. Addresses the linker chooses, the scan code at the keyboard's port, and what
  an uninitialised buffer on the kernel's stack holds are parameters.
\<close>

end
